(* ===== verification/Prelude.thy ===== *)
theory Prelude
  imports Main "HOL-Library.Word"
begin

unbundle bit_operations_syntax

text \<open>
  Shared ground of the development: the machine types of the C code, the C operations
  whose meaning HOL does not have ready (the count of leading zeros, a 32-bit shift with an
  out-of-range count), the alignment macro of \<^verbatim>\<open>util.h\<close>, and the lemmas on
  masks, array slots and lists that several components use.

  Conventions of all theories.
  \<^item> \<^verbatim>\<open>uint64_t\<close> and the pointers are \<^typ>\<open>64 word\<close>, \<^verbatim>\<open>uint32_t\<close> is
    \<^typ>\<open>32 word\<close>; a small error code (\<^verbatim>\<open>int\<close>) is an \<^typ>\<open>int\<close>.
  \<^item> A C function whose name starts with two underscores is modelled by a definition whose
    name starts with \<open>raw_\<close>; it is the variant that takes no lock.
  \<^item> An operation returns its result paired with the new state. Where it takes a lock, the
    result is an \<open>option\<close>: \<open>None\<close> means that the lock was held, so that the
    sequential run spins.
\<close>

section \<open>Machine types\<close>

type_synonym u64 = "64 word"
type_synonym u32 = "32 word"

abbreviation (input) Noneidx :: u64 where "Noneidx \<equiv> - 1"

named_theorems bounds_simps \<open>array positions that are in range\<close>
named_theorems abs_simps \<open>what an operation does to the abstract value of its structure\<close>
named_theorems inv_intros \<open>what keeps an invariant\<close>

section \<open>C integer operations\<close>

text \<open>
  \<^verbatim>\<open>__builtin_clz\<close> on an \<^verbatim>\<open>unsigned int\<close>: the number of leading zero bits. C leaves
  the argument 0 undefined; the definition gives 32 there, and no theorem relies on it.
\<close>

fun clz_below :: "nat \<Rightarrow> u32 \<Rightarrow> nat" where
  "clz_below 0 w = 0"
| "clz_below (Suc n) w = (if bit w n then 0 else Suc (clz_below n w))"

definition builtin_clz :: "u32 \<Rightarrow> nat" where
  "builtin_clz w = clz_below 32 w"

text \<open>
  \<^verbatim>\<open>1 << n\<close> on an \<^verbatim>\<open>int\<close>. A count of 32 or more is undefined in C; the x86-64
  instruction the library is built for takes the count modulo 32, which is the meaning used
  here.
\<close>

definition shl_int :: "nat \<Rightarrow> u32" where
  "shl_int n = push_bit (n mod 32) 1"

text \<open>\<^verbatim>\<open>__align(x, shift)\<close> of \<^verbatim>\<open>util.h\<close>, on 64-bit values.\<close>

definition align :: "u64 \<Rightarrow> nat \<Rightarrow> u64" where
  "align x shift = push_bit shift (drop_bit shift (x - 1) + 1)"

lemma clz_below_eq:
  assumes "w \<noteq> 0" and "\<forall>i. bit w i \<longrightarrow> i < n"
  shows "\<exists>m<n. bit w m \<and> (\<forall>i>m. \<not> bit w i) \<and> clz_below n w = n - 1 - m"
  using assms
proof (induction n)
  case 0
  then show ?case by (auto simp: bit_eq_iff)
next
  case (Suc n)
  show ?case
  proof (cases "bit w n")
    case True
    then show ?thesis
      using Suc.prems(2) by (intro exI [of _ n]) auto
  next
    case False
    then have "\<forall>i. bit w i \<longrightarrow> i < n"
      using Suc.prems(2) less_antisym by blast
    from Suc.IH [OF Suc.prems(1) this] obtain m where
      "m < n" "bit w m" "\<forall>i>m. \<not> bit w i" "clz_below n w = n - 1 - m" by blast
    with False show ?thesis by (intro exI [of _ m]) auto
  qed
qed

lemma builtin_clz_eq:
  assumes "w \<noteq> 0"
  shows "\<exists>m<32. bit w m \<and> (\<forall>i>m. \<not> bit w i) \<and> builtin_clz w = 31 - m"
proof -
  have "\<forall>i. bit w i \<longrightarrow> i < 32"
    using bit_imp_le_length by fastforce
  from clz_below_eq [OF assms this] show ?thesis by (simp add: builtin_clz_def)
qed

lemma unat_top_bit:
  fixes w :: "'a::len word"
  assumes "bit w m" and "\<forall>i>m. \<not> bit w i"
  shows "2 ^ m \<le> unat w" and "unat w < 2 ^ Suc m"
proof -
  have "bit (unat w) m" using assms(1) by (simp add: bit_unsigned_iff)
  then show "2 ^ m \<le> unat w"
    by (metis bit_nat_def div_less even_zero linorder_not_less)
  have "take_bit (Suc m) w = w"
    by (rule bit_word_eqI) (use assms(2) in \<open>auto simp: bit_take_bit_iff not_less_eq\<close>)
  then have "unat w = unat w mod 2 ^ Suc m"
    by (metis take_bit_eq_mod unsigned_take_bit_eq)
  then show "unat w < 2 ^ Suc m"
    by (metis mod_less_divisor zero_less_numeral zero_less_power)
qed

section \<open>Words and naturals\<close>

lemma unat_of_nat_u64: "n < 2 ^ 64 \<Longrightarrow> unat (of_nat n :: u64) = n"
  by (simp add: unat_of_nat)

lemma unat_u64_less: "unat (x :: u64) < 2 ^ 64"
  using unsigned_less [of x] by simp

lemma unat_pow2:
  assumes "k < 64"
  shows "unat (2 ^ k :: u64) = 2 ^ k"
proof -
  have "(2::nat) ^ k < 2 ^ 64" using assms by (intro power_strict_increasing) auto
  then have "unat (of_nat (2 ^ k) :: u64) = 2 ^ k" by (rule unat_of_nat_u64)
  then show ?thesis by simp
qed

section \<open>Masks and array slots\<close>

text \<open>
  A table of \<open>2 ^ k\<close> slots is indexed with \<^verbatim>\<open>i & (size - 1)\<close>. The counters wrap at
  \<open>2 ^ 64\<close>, which \<open>2 ^ k\<close> divides, so slots advance by one modulo \<open>2 ^ k\<close> even across
  the wrap.
\<close>

lemma and_size_minus_1:
  fixes x :: u64
  shows "x AND (2 ^ k - 1) = take_bit k x"
  by (simp add: take_bit_eq_mask mask_eq_exp_minus_1)

lemma unat_slot: "unat (x AND (2 ^ k - 1) :: u64) = unat x mod 2 ^ k"
  by (simp only: and_size_minus_1 unsigned_take_bit_eq) (simp add: take_bit_eq_mod)

lemma unat_slot_less [simp]: "unat (x AND (2 ^ k - 1) :: u64) < 2 ^ k"
  by (simp add: unat_slot)

lemma mod_pow_mod:
  fixes m :: nat
  assumes "k \<le> n"
  shows "m mod 2 ^ n mod 2 ^ k = m mod 2 ^ k"
  by (rule mod_mod_cancel) (simp add: assms le_imp_power_dvd)

lemma unat_slot_add:
  assumes "k \<le> 64"
  shows "unat ((x + of_nat i) AND (2 ^ k - 1) :: u64) = (unat x + i) mod 2 ^ k"
proof -
  have "unat (x + of_nat i) = (unat x + i) mod 2 ^ 64"
    by (simp add: unat_word_ariths unat_of_nat mod_simps)
  then show ?thesis
    using assms mod_pow_mod [of k 64 "unat x + i"] by (simp add: unat_slot)
qed

lemma mod_add_inj:
  fixes i j :: nat
  assumes "(p + i) mod n = (p + j) mod n" and "i < n" and "j < n"
  shows "i = j"
proof -
  have "i = j" if "(p + i) mod n = (p + j) mod n" "i \<le> j" "j < n" for i j :: nat
  proof -
    from that have "n dvd (p + j) - (p + i)"
      by (metis mod_eq_dvd_iff_nat add_le_cancel_left)
    then have "n dvd j - i" by simp
    with that show "i = j" by (auto dest: dvd_imp_le)
  qed
  from this [of i j] this [of j i] assms show ?thesis by (metis nat_le_linear)
qed

section \<open>Loops that fill an array\<close>

text \<open>
  A C loop \<^verbatim>\<open>for (i = 0; i < n; i++) a[f(i)] = g(i);\<close> is a fold of list updates.
\<close>

definition fill :: "(nat \<Rightarrow> nat) \<Rightarrow> (nat \<Rightarrow> 'a) \<Rightarrow> nat \<Rightarrow> 'a list \<Rightarrow> 'a list" where
  "fill f g n m = fold (\<lambda>i m. m[f i := g i]) [0..<n] m"

lemma fill_0 [simp]: "fill f g 0 m = m"
  by (simp add: fill_def)

lemma fill_Suc: "fill f g (Suc n) m = (fill f g n m)[f n := g n]"
  by (simp add: fill_def)

lemma length_fill [simp]: "length (fill f g n m) = length m"
  by (induction n) (simp_all add: fill_Suc)

lemma fill_cong:
  "(\<And>i. i < n \<Longrightarrow> f i = f' i) \<Longrightarrow> (\<And>i. i < n \<Longrightarrow> g i = g' i) \<Longrightarrow> fill f g n m = fill f' g' n m"
  by (induction n) (simp_all add: fill_Suc)

lemma fill_other: "(\<And>i. i < n \<Longrightarrow> f i \<noteq> p) \<Longrightarrow> fill f g n m ! p = m ! p"
  by (induction n) (simp_all add: fill_Suc)

lemma fill_nth:
  assumes "j < n" and "\<And>i. i < n \<Longrightarrow> f i < length m"
    and "\<And>i j. i < n \<Longrightarrow> j < n \<Longrightarrow> f i = f j \<Longrightarrow> i = j"
  shows "fill f g n m ! f j = g j"
  using assms
proof (induction n)
  case (Suc n)
  show ?case
  proof (cases "j = n")
    case True
    then show ?thesis using Suc.prems(2) by (simp add: fill_Suc)
  next
    case False
    then have "f n \<noteq> f j" using Suc.prems(1,3) by (metis lessI)
    moreover have "fill f g n m ! f j = g j"
      by (rule Suc.IH) (use Suc.prems False in auto)
    ultimately show ?thesis by (simp add: fill_Suc)
  qed
qed simp

end
