(* ===== verification/Xlock.thy ===== *)
theory Xlock
  imports Prelude
begin

text \<open>
  The spin lock of \<^verbatim>\<open>include/xseg/xlock.h\<close>. First the operations as one caller sees
  them: packing the owner word, taking a lock (\<open>None\<close> when it is held, that is, when the
  C loop spins), trying it, releasing it. Then the same code as an interleaving of atomic
  steps of any number of threads, with mutual exclusion, absence of deadlock and the fact
  that the owner word names the holder.
\<close>

section \<open>Owner words\<close>

text \<open>
  The caller of a lock operation: what \<^verbatim>\<open>getpid\<close>, \<^verbatim>\<open>gettid\<close> and
  \<^verbatim>\<open>__get_pc\<close> return for it.
\<close>

record caller =
  c_pid :: u32
  c_tid :: u32
  c_pc :: u64

record xlock =
  lk_owner :: u64
  lk_pc :: u64

abbreviation (input) XLOCK_NOONE :: u64 where "XLOCK_NOONE \<equiv> 0"

definition PID_BITS :: nat where "PID_BITS = 16"
definition TID_BITS :: nat where "TID_BITS = 16"
definition PC_BITS :: nat where "PC_BITS = 32"

definition xlock_pack_owner :: "u32 \<Rightarrow> u32 \<Rightarrow> u64 \<Rightarrow> u64" where
  "xlock_pack_owner pid tid ip =
     (let pid' = pid AND (push_bit PID_BITS 1 - 1);
          tid' = tid AND (push_bit TID_BITS 1 - 1);
          pc = ip AND (push_bit PC_BITS 1 - 1);
          owner = 0 OR ucast pid';
          owner = push_bit TID_BITS owner;
          owner = owner OR ucast tid';
          owner = push_bit PC_BITS owner
      in owner OR pc)"

definition xlock_unpack_owner :: "u64 \<Rightarrow> u32 \<times> u32 \<times> u64" where
  "xlock_unpack_owner owner =
     (let pc = owner AND (push_bit PC_BITS 1 - 1);
          owner = drop_bit PC_BITS owner;
          tid = ucast (owner AND (push_bit TID_BITS 1 - 1));
          owner = drop_bit TID_BITS owner;
          pid = ucast (owner AND (push_bit PID_BITS 1 - 1))
      in (pid, tid, pc))"

definition caller_word :: "caller \<Rightarrow> u64" where
  "caller_word c = xlock_pack_owner (c_pid c) (c_tid c) (c_pc c)"

section \<open>The operations\<close>

definition xlock_acquire :: "caller \<Rightarrow> xlock \<Rightarrow> xlock option" where
  "xlock_acquire c l =
     (if lk_owner l \<noteq> XLOCK_NOONE then None
      else Some (l\<lparr>lk_owner := caller_word c, lk_pc := c_pc c\<rparr>))"

definition xlock_try_lock :: "caller \<Rightarrow> xlock \<Rightarrow> bool \<times> xlock" where
  "xlock_try_lock c l =
     (if lk_owner l = XLOCK_NOONE
      then (True, l\<lparr>lk_owner := caller_word c, lk_pc := c_pc c\<rparr>)
      else (False, l))"

definition xlock_release :: "xlock \<Rightarrow> xlock" where
  "xlock_release l = l\<lparr>lk_pc := 0, lk_owner := XLOCK_NOONE\<rparr>"

definition xlock_get_owner :: "xlock \<Rightarrow> u64" where
  "xlock_get_owner l = lk_owner l"

abbreviation unlocked :: "xlock \<Rightarrow> bool" where
  "unlocked l \<equiv> lk_owner l = XLOCK_NOONE"

definition free_lock :: xlock where
  "free_lock = \<lparr>lk_owner = 0, lk_pc = 0\<rparr>"

lemma free_lock_unlocked [simp]: "unlocked free_lock"
  by (simp add: free_lock_def)

lemma release_unlocked [simp]: "unlocked (xlock_release l)"
  by (simp add: xlock_release_def)

lemma release_eq [simp]: "xlock_release l = free_lock"
  by (simp add: xlock_release_def free_lock_def)

lemma acquire_free [simp]:
  "unlocked l \<Longrightarrow> xlock_acquire c l = Some \<lparr>lk_owner = caller_word c, lk_pc = c_pc c\<rparr>"
  by (cases l) (simp add: xlock_acquire_def)

lemma acquire_held [simp]: "\<not> unlocked l \<Longrightarrow> xlock_acquire c l = None"
  by (simp add: xlock_acquire_def)

lemma try_lock_acquire:
  "xlock_try_lock c l = (case xlock_acquire c l of None \<Rightarrow> (False, l) | Some l' \<Rightarrow> (True, l'))"
  by (simp add: xlock_try_lock_def xlock_acquire_def)

section \<open>Packing and unpacking\<close>

lemmas owner_bits = PID_BITS_def TID_BITS_def PC_BITS_def

lemma bit_low_mask:
  fixes w :: "'a::len word"
  shows "w AND (push_bit k 1 - 1) = take_bit k w"
  by (simp add: take_bit_eq_mask mask_eq_exp_minus_1 push_bit_eq_mult)

lemmas pack_word = xlock_pack_owner_def [unfolded Let_def bit_low_mask, unfolded owner_bits]
lemmas unpack_word = xlock_unpack_owner_def [unfolded Let_def bit_low_mask, unfolded owner_bits]

lemma bit_pack:
  "bit (xlock_pack_owner pid tid ip) i =
     (if i < 32 then bit ip i
      else if i < 48 then bit tid (i - 32)
      else i < 64 \<and> bit pid (i - 48))"
  by (auto simp: pack_word bit_or_iff bit_push_bit_iff bit_take_bit_iff bit_unsigned_iff
      dest: bit_imp_le_length)

lemma unpack_pack:
  "xlock_unpack_owner (xlock_pack_owner pid tid ip) =
     (take_bit 16 pid, take_bit 16 tid, take_bit 32 ip)"
  unfolding unpack_word prod.inject
  by (intro conjI bit_word_eqI)
    (auto simp: bit_take_bit_iff bit_drop_bit_eq bit_unsigned_iff bit_pack)

text \<open>
  A caller whose process id is not a multiple of 65536 has an owner word different from
  \<^verbatim>\<open>XLOCK_NOONE\<close>; the compare-and-swap of the lock relies on that.
\<close>

lemma pack_nonzero:
  assumes "take_bit 16 pid \<noteq> 0"
  shows "xlock_pack_owner pid tid ip \<noteq> 0"
proof
  assume "xlock_pack_owner pid tid ip = 0"
  then have "fst (xlock_unpack_owner (xlock_pack_owner pid tid ip)) = 0"
    by (simp add: unpack_word)
  with assms show False by (simp add: unpack_pack)
qed

section \<open>The lock under interleaving\<close>

text \<open>
  Where a thread is in the code: outside, in the inner loop that reads the owner, between
  that read and the compare-and-swap (of \<^verbatim>\<open>xlock_acquire\<close> or of
  \<^verbatim>\<open>xlock_try_lock\<close>), after the swap and before the store of the program counter, in
  its critical section, or in \<^verbatim>\<open>xlock_release\<close> between its two stores.
\<close>

datatype lock_pc = L_out | L_spin | L_cas | L_try | L_try_cas | L_store | L_crit | L_rel

record lock_sys =
  ls_lock :: xlock
  ls_pcs :: "nat \<Rightarrow> lock_pc"

definition holding :: "lock_pc \<Rightarrow> bool" where
  "holding p \<longleftrightarrow> p = L_store \<or> p = L_crit \<or> p = L_rel"

abbreviation goto :: "nat \<Rightarrow> lock_pc \<Rightarrow> lock_sys \<Rightarrow> lock_sys" where
  "goto i p s \<equiv> s\<lparr>ls_pcs := (ls_pcs s)(i := p)\<rparr>"

definition init_lock_sys :: lock_sys where
  "init_lock_sys = \<lparr>ls_lock = xlock_release free_lock, ls_pcs = (\<lambda>_. L_out)\<rparr>"

inductive lock_step :: "(nat \<Rightarrow> caller) \<Rightarrow> lock_sys \<Rightarrow> lock_sys \<Rightarrow> bool" for C where
  call_acquire: "ls_pcs s i = L_out \<Longrightarrow> lock_step C s (goto i L_spin s)"
| spin_busy: "ls_pcs s i = L_spin \<Longrightarrow> lk_owner (ls_lock s) \<noteq> XLOCK_NOONE \<Longrightarrow> lock_step C s s"
| spin_free: "ls_pcs s i = L_spin \<Longrightarrow> lk_owner (ls_lock s) = XLOCK_NOONE \<Longrightarrow>
    lock_step C s (goto i L_cas s)"
| cas_ok: "ls_pcs s i = L_cas \<Longrightarrow> lk_owner (ls_lock s) = XLOCK_NOONE \<Longrightarrow>
    lock_step C s (goto i L_store (s\<lparr>ls_lock := (ls_lock s)\<lparr>lk_owner := caller_word (C i)\<rparr>\<rparr>))"
| cas_fail: "ls_pcs s i = L_cas \<Longrightarrow> lk_owner (ls_lock s) \<noteq> XLOCK_NOONE \<Longrightarrow>
    lock_step C s (goto i L_spin s)"
| call_try: "ls_pcs s i = L_out \<Longrightarrow> lock_step C s (goto i L_try s)"
| try_busy: "ls_pcs s i = L_try \<Longrightarrow> lk_owner (ls_lock s) \<noteq> XLOCK_NOONE \<Longrightarrow>
    lock_step C s (goto i L_out s)"
| try_free: "ls_pcs s i = L_try \<Longrightarrow> lk_owner (ls_lock s) = XLOCK_NOONE \<Longrightarrow>
    lock_step C s (goto i L_try_cas s)"
| try_cas_ok: "ls_pcs s i = L_try_cas \<Longrightarrow> lk_owner (ls_lock s) = XLOCK_NOONE \<Longrightarrow>
    lock_step C s (goto i L_store (s\<lparr>ls_lock := (ls_lock s)\<lparr>lk_owner := caller_word (C i)\<rparr>\<rparr>))"
| try_cas_fail: "ls_pcs s i = L_try_cas \<Longrightarrow> lk_owner (ls_lock s) \<noteq> XLOCK_NOONE \<Longrightarrow>
    lock_step C s (goto i L_out s)"
| store_pc: "ls_pcs s i = L_store \<Longrightarrow>
    lock_step C s (goto i L_crit (s\<lparr>ls_lock := (ls_lock s)\<lparr>lk_pc := c_pc (C i)\<rparr>\<rparr>))"
| release_pc: "ls_pcs s i = L_crit \<Longrightarrow>
    lock_step C s (goto i L_rel (s\<lparr>ls_lock := (ls_lock s)\<lparr>lk_pc := 0\<rparr>\<rparr>))"
| release_owner: "ls_pcs s i = L_rel \<Longrightarrow>
    lock_step C s (goto i L_out (s\<lparr>ls_lock := (ls_lock s)\<lparr>lk_owner := XLOCK_NOONE\<rparr>\<rparr>))"

inductive lock_run :: "(nat \<Rightarrow> caller) \<Rightarrow> lock_sys \<Rightarrow> lock_sys \<Rightarrow> bool" for C where
  run_refl: "lock_run C s s"
| run_step: "lock_step C s t \<Longrightarrow> lock_run C t u \<Longrightarrow> lock_run C s u"

inductive lock_reach :: "(nat \<Rightarrow> caller) \<Rightarrow> lock_sys \<Rightarrow> bool" for C where
  reach_init: "lock_reach C init_lock_sys"
| reach_step: "lock_reach C s \<Longrightarrow> lock_step C s t \<Longrightarrow> lock_reach C t"

definition lock_inv :: "(nat \<Rightarrow> caller) \<Rightarrow> lock_sys \<Rightarrow> bool" where
  "lock_inv C s \<longleftrightarrow>
     (\<forall>i. holding (ls_pcs s i) \<longrightarrow> lk_owner (ls_lock s) = caller_word (C i)) \<and>
     (\<forall>i j. holding (ls_pcs s i) \<longrightarrow> holding (ls_pcs s j) \<longrightarrow> i = j) \<and>
     (lk_owner (ls_lock s) \<noteq> XLOCK_NOONE \<longrightarrow> (\<exists>i. holding (ls_pcs s i)))"

lemma lock_inv_init: "lock_inv C init_lock_sys"
  by (simp add: lock_inv_def init_lock_sys_def holding_def)

lemma lock_inv_cong:
  assumes "lock_inv C s" and "\<And>j. holding (ls_pcs t j) = holding (ls_pcs s j)"
    and "lk_owner (ls_lock t) = lk_owner (ls_lock s)"
  shows "lock_inv C t"
  using assms by (simp add: lock_inv_def)

lemma lock_step_inv:
  assumes "lock_step C s t" and "\<And>i. caller_word (C i) \<noteq> XLOCK_NOONE" and "lock_inv C s"
  shows "lock_inv C t"
  using assms(1,3)
proof (induction rule: lock_step.induct)
  case (cas_ok s i)
  then have "\<not> holding (ls_pcs s j)" for j
    using assms(2) by (auto simp: lock_inv_def)
  then show ?case by (simp add: lock_inv_def holding_def)
next
  case (try_cas_ok s i)
  then have "\<not> holding (ls_pcs s j)" for j
    using assms(2) by (auto simp: lock_inv_def)
  then show ?case by (simp add: lock_inv_def holding_def)
next
  case (release_owner s i)
  then have "holding (ls_pcs s j) \<Longrightarrow> j = i" for j
    by (auto simp: lock_inv_def holding_def)
  then show ?case by (auto simp: lock_inv_def holding_def)
qed (erule lock_inv_cong; simp add: holding_def)+

lemma lock_reach_inv:
  assumes "lock_reach C s" and "\<And>i. caller_word (C i) \<noteq> XLOCK_NOONE"
  shows "lock_inv C s"
  using assms(1)
proof (induction rule: lock_reach.induct)
  case reach_init
  show ?case by (rule lock_inv_init)
next
  case (reach_step s t)
  then show ?case using lock_step_inv assms(2) by blast
qed

text \<open>A run made of steps, and the steps of one thread that frees or takes the lock.\<close>

lemma lock_run_trans: "lock_run C s t \<Longrightarrow> lock_run C t u \<Longrightarrow> lock_run C s u"
  by (induction rule: lock_run.induct) (auto intro: lock_run.intros)

lemma lock_run1: "lock_step C s t \<Longrightarrow> lock_run C s t"
  by (blast intro: lock_run.intros)

lemma holder_releases:
  assumes "holding (ls_pcs s j)" and "ls_pcs s i = L_spin"
  shows "\<exists>t. lock_run C s t \<and> lk_owner (ls_lock t) = XLOCK_NOONE \<and> ls_pcs t i = L_spin"
proof -
  have ne: "i \<noteq> j" using assms by (auto simp: holding_def)
  have rel: "\<exists>t. lock_run C u t \<and> lk_owner (ls_lock t) = XLOCK_NOONE \<and> ls_pcs t i = L_spin"
    if "ls_pcs u j = L_rel" "ls_pcs u i = L_spin" for u
    using lock_run1 [OF release_owner [OF that(1)]] that ne by fastforce
  have crit: "\<exists>t. lock_run C u t \<and> lk_owner (ls_lock t) = XLOCK_NOONE \<and> ls_pcs t i = L_spin"
    if st: "ls_pcs u j = L_crit" and sp: "ls_pcs u i = L_spin" for u
  proof -
    let ?v = "goto j L_rel (u\<lparr>ls_lock := (ls_lock u)\<lparr>lk_pc := 0\<rparr>\<rparr>)"
    have "lock_step C u ?v" by (rule release_pc) (rule st)
    moreover obtain t where "lock_run C ?v t" "lk_owner (ls_lock t) = XLOCK_NOONE" "ls_pcs t i = L_spin"
      using rel [of ?v] sp ne by auto
    ultimately show ?thesis by (blast intro: run_step)
  qed
  have store: "\<exists>t. lock_run C u t \<and> lk_owner (ls_lock t) = XLOCK_NOONE \<and> ls_pcs t i = L_spin"
    if st: "ls_pcs u j = L_store" and sp: "ls_pcs u i = L_spin" for u
  proof -
    let ?v = "goto j L_crit (u\<lparr>ls_lock := (ls_lock u)\<lparr>lk_pc := c_pc (C j)\<rparr>\<rparr>)"
    have "lock_step C u ?v" by (rule store_pc) (rule st)
    moreover obtain t where "lock_run C ?v t" "lk_owner (ls_lock t) = XLOCK_NOONE" "ls_pcs t i = L_spin"
      using crit [of ?v] sp ne by auto
    ultimately show ?thesis by (blast intro: run_step)
  qed
  from rel crit store assms show ?thesis by (auto simp: holding_def)
qed

lemma free_lock_taken:
  assumes "ls_pcs s i = L_spin" and "lk_owner (ls_lock s) = XLOCK_NOONE"
  shows "\<exists>t. lock_run C s t \<and> ls_pcs t i = L_crit"
proof -
  let ?s1 = "goto i L_cas s"
  let ?s2 = "goto i L_store (?s1\<lparr>ls_lock := (ls_lock ?s1)\<lparr>lk_owner := caller_word (C i)\<rparr>\<rparr>)"
  let ?s3 = "goto i L_crit (?s2\<lparr>ls_lock := (ls_lock ?s2)\<lparr>lk_pc := c_pc (C i)\<rparr>\<rparr>)"
  have "lock_step C s ?s1" by (rule spin_free) (use assms in auto)
  moreover have "lock_step C ?s1 ?s2" by (rule cas_ok) (use assms in auto)
  moreover have "lock_step C ?s2 ?s3" by (rule store_pc) simp
  ultimately have "lock_run C s ?s3" by (blast intro: lock_run.intros)
  moreover have "ls_pcs ?s3 i = L_crit" by simp
  ultimately show ?thesis by blast
qed

section \<open>Properties\<close>

text \<open>
  Unpacking the owner word gives back the low 16 bits of the process id, the low 16
  bits of the thread id and the low 32 bits of the program counter, for every caller.
\<close>

theorem xlock_owner_roundtrip:
  "xlock_unpack_owner (xlock_pack_owner pid tid ip) =
     (take_bit 16 pid, take_bit 16 tid, take_bit 32 ip)"
  by (rule unpack_pack)

text \<open>
  C8. Mutual exclusion of \<^verbatim>\<open>xlock_acquire\<close>, \<^verbatim>\<open>xlock_try_lock\<close> and
  \<^verbatim>\<open>xlock_release\<close>: in every reachable interleaving, if two threads are past a
  successful compare-and-swap and have not released, they are the same thread, and the
  owner word is that thread's. Process ids must not be multiples of 65536.
\<close>

theorem xlock_mutual_exclusion:
  assumes "lock_reach C s" and "\<forall>i. take_bit 16 (c_pid (C i)) \<noteq> 0"
    and "holding (ls_pcs s i)" and "holding (ls_pcs s j)"
  shows "i = j \<and> xlock_get_owner (ls_lock s) = caller_word (C i)"
proof -
  have "lock_inv C s"
    by (rule lock_reach_inv [OF assms(1)])
      (use assms(2) in \<open>auto simp: caller_word_def pack_nonzero\<close>)
  with assms(3,4) show ?thesis by (auto simp: lock_inv_def xlock_get_owner_def)
qed

definition demo_caller :: "nat \<Rightarrow> caller" where
  "demo_caller i = \<lparr>c_pid = 7, c_tid = of_nat i, c_pc = 64\<rparr>"

definition demo_held :: lock_sys where
  "demo_held = goto 3 L_store
     (init_lock_sys\<lparr>ls_lock := (ls_lock init_lock_sys)\<lparr>lk_owner := caller_word (demo_caller 3)\<rparr>\<rparr>)"

lemma demo_held_reach: "lock_reach demo_caller demo_held"
proof -
  let ?s1 = "goto 3 L_spin init_lock_sys"
  let ?s2 = "goto 3 L_cas ?s1"
  have "lock_reach demo_caller ?s1"
    by (rule reach_step [OF reach_init]) (rule call_acquire, simp add: init_lock_sys_def)
  then have "lock_reach demo_caller ?s2"
    by (rule reach_step) (rule spin_free, simp_all add: init_lock_sys_def free_lock_def)
  then have "lock_reach demo_caller
      (goto 3 L_store (?s2\<lparr>ls_lock := (ls_lock ?s2)\<lparr>lk_owner := caller_word (demo_caller 3)\<rparr>\<rparr>))"
    by (rule reach_step) (rule cas_ok, simp_all add: init_lock_sys_def free_lock_def)
  then show ?thesis by (simp add: demo_held_def)
qed

theorem xlock_mutual_exclusion_witness:
  "lock_reach demo_caller demo_held \<and> holding (ls_pcs demo_held 3) \<and>
   xlock_get_owner (ls_lock demo_held) = caller_word (demo_caller 3)"
proof -
  have h: "holding (ls_pcs demo_held 3)" by (simp add: demo_held_def holding_def)
  have w: "\<forall>i. take_bit 16 (c_pid (demo_caller i)) \<noteq> 0"
    by (simp add: demo_caller_def)
  from xlock_mutual_exclusion [OF demo_held_reach w h h] h demo_held_reach
  show ?thesis by simp
qed

text \<open>
  C32. No deadlock in the lock itself: from every reachable state, a spinning thread can
  still reach its critical section (the holder's remaining steps free the lock, whatever
  the others do).
\<close>

theorem xlock_spinner_can_enter:
  assumes "lock_reach C s" and "\<forall>i. take_bit 16 (c_pid (C i)) \<noteq> 0"
    and "ls_pcs s i = L_spin"
  shows "\<exists>t. lock_run C s t \<and> ls_pcs t i = L_crit"
proof (cases "lk_owner (ls_lock s) = XLOCK_NOONE")
  case True
  with assms(3) show ?thesis by (rule free_lock_taken)
next
  case False
  have "lock_inv C s"
    by (rule lock_reach_inv [OF assms(1)])
      (use assms(2) in \<open>auto simp: caller_word_def pack_nonzero\<close>)
  with False obtain j where "holding (ls_pcs s j)" by (auto simp: lock_inv_def)
  from holder_releases [OF this assms(3)] free_lock_taken lock_run_trans
  show ?thesis by metis
qed

theorem xlock_spinner_can_enter_witness:
  "\<exists>t. lock_run demo_caller (goto 3 L_spin init_lock_sys) t \<and> ls_pcs t 3 = L_crit"
proof (rule xlock_spinner_can_enter)
  show "lock_reach demo_caller (goto 3 L_spin init_lock_sys)"
    by (rule reach_step [OF reach_init]) (rule call_acquire, simp add: init_lock_sys_def)
qed (simp_all add: demo_caller_def)

end
