(* ===== verification/Deque.thy ===== *)
theory Deque
  imports Prelude
begin

text \<open>
  The interface of a bounded double-ended queue of 64-bit items, as the clients of
  \<^verbatim>\<open>xq\<close> use it: two ends, a capacity, and \<^verbatim>\<open>Noneidx\<close> as the answer of an
  append to a full queue and of a pop from an empty one. \<open>elems\<close> lists the items from the
  tail to the head. The client lemmas are proved once, from the laws alone.
\<close>

text \<open>Appending a list of items one after the other, and popping a number of them.\<close>

fun append_all :: "('q \<Rightarrow> u64 \<Rightarrow> u64 \<times> 'q) \<Rightarrow> 'q \<Rightarrow> u64 list \<Rightarrow> 'q" where
  "append_all app q [] = q"
| "append_all app q (x # xs) = append_all app (snd (app q x)) xs"

fun pop_n :: "('q \<Rightarrow> u64 \<times> 'q) \<Rightarrow> nat \<Rightarrow> 'q \<Rightarrow> u64 list \<times> 'q" where
  "pop_n pop 0 q = ([], q)"
| "pop_n pop (Suc n) q =
     (let (x, q1) = pop q; (xs, q2) = pop_n pop n q1 in (x # xs, q2))"

locale bounded_deque =
  fixes app_head app_tail :: "'q \<Rightarrow> u64 \<Rightarrow> u64 \<times> 'q"
    and pop_head pop_tail :: "'q \<Rightarrow> u64 \<times> 'q"
    and elems :: "'q \<Rightarrow> u64 list"
    and cap :: "'q \<Rightarrow> nat"
    and invar :: "'q \<Rightarrow> bool"
  assumes bound: "invar q \<Longrightarrow> length (elems q) \<le> cap q"
    and app_full: "invar q \<Longrightarrow> length (elems q) = cap q \<Longrightarrow>
        app_head q x = (Noneidx, q) \<and> app_tail q x = (Noneidx, q)"
    and app_head_room: "invar q \<Longrightarrow> length (elems q) < cap q \<Longrightarrow>
        fst (app_head q x) = x \<and> elems (snd (app_head q x)) = elems q @ [x] \<and>
        cap (snd (app_head q x)) = cap q \<and> invar (snd (app_head q x))"
    and app_tail_room: "invar q \<Longrightarrow> length (elems q) < cap q \<Longrightarrow>
        fst (app_tail q x) = x \<and> elems (snd (app_tail q x)) = x # elems q \<and>
        cap (snd (app_tail q x)) = cap q \<and> invar (snd (app_tail q x))"
    and pop_empty: "invar q \<Longrightarrow> elems q = [] \<Longrightarrow>
        pop_head q = (Noneidx, q) \<and> pop_tail q = (Noneidx, q)"
    and pop_head_some: "invar q \<Longrightarrow> elems q = xs @ [x] \<Longrightarrow>
        fst (pop_head q) = x \<and> elems (snd (pop_head q)) = xs \<and>
        cap (snd (pop_head q)) = cap q \<and> invar (snd (pop_head q))"
    and pop_tail_some: "invar q \<Longrightarrow> elems q = x # xs \<Longrightarrow>
        fst (pop_tail q) = x \<and> elems (snd (pop_tail q)) = xs \<and>
        cap (snd (pop_tail q)) = cap q \<and> invar (snd (pop_tail q))"
begin

lemma append_all_tail:
  assumes "invar q" and "length (elems q) + length xs \<le> cap q"
  shows "elems (append_all app_tail q xs) = rev xs @ elems q \<and>
    cap (append_all app_tail q xs) = cap q \<and> invar (append_all app_tail q xs)"
  using assms
proof (induction xs arbitrary: q)
  case (Cons x xs)
  then have "length (elems q) < cap q" by simp
  from app_tail_room [OF Cons.prems(1) this, of x] Cons.prems(2)
  show ?case using Cons.IH [of "snd (app_tail q x)"] by simp
qed simp

lemma pop_n_head:
  assumes "invar q" and "n \<le> length (elems q)"
  shows "fst (pop_n pop_head n q) = take n (rev (elems q)) \<and>
    elems (snd (pop_n pop_head n q)) = take (length (elems q) - n) (elems q) \<and>
    invar (snd (pop_n pop_head n q))"
  using assms
proof (induction n arbitrary: q)
  case (Suc n)
  from Suc.prems(2) obtain xs x where xs: "elems q = xs @ [x]"
    by (cases "elems q" rule: rev_cases) auto
  obtain y q1 where q1: "pop_head q = (y, q1)" by fastforce
  obtain ys q2 where q2: "pop_n pop_head n q1 = (ys, q2)" by fastforce
  from pop_head_some [OF Suc.prems(1) xs] q1
  have "y = x" "elems q1 = xs" "invar q1" by simp_all
  then show ?case using Suc.IH [of q1] Suc.prems(2) q1 q2 xs by simp
qed simp

lemma fifo:
  assumes "invar q" and "elems q = []" and "length xs \<le> cap q"
  shows "fst (pop_n pop_head (length xs) (append_all app_tail q xs)) = xs"
    and "elems (snd (pop_n pop_head (length xs) (append_all app_tail q xs))) = []"
  using assms append_all_tail [of q xs] pop_n_head [of "append_all app_tail q xs" "length xs"]
  by simp_all

lemma lifo:
  assumes "invar q" and "length (elems q) < cap q"
  shows "fst (pop_head (snd (app_head q x))) = x"
    and "elems (snd (pop_head (snd (app_head q x)))) = elems q"
  using app_head_room [OF assms, of x] pop_head_some [of "snd (app_head q x)" "elems q" x]
  by simp_all

end

end
