(* ===== verification/Xq.thy ===== *)
theory Xq
  imports Xlock Deque
begin

text \<open>
  The circular double-ended queue of \<^verbatim>\<open>xtypes/xq.c\<close>: two free-running 64-bit
  counters, a power-of-two table, and slots addressed with \<^verbatim>\<open>index & (size - 1)\<close>.
  The relative pointer \<^verbatim>\<open>queue\<close> is the table itself, a list of words. Memory that
  \<^verbatim>\<open>xtypes_malloc\<close> returns is an argument of the allocating functions, \<open>None\<close>
  for a failed allocation.
\<close>

section \<open>Data and operations\<close>

record xq =
  q_lock :: xlock
  q_head :: u64
  q_tail :: u64
  q_mem :: "u64 list"
  q_size :: u64

definition snap :: "u64 \<Rightarrow> u64" where
  "snap sz = (if sz = 0 then 0 else scast (shl_int (64 - builtin_clz (ucast sz) - 1)))"

definition xq_free :: "xq \<Rightarrow> xq" where
  "xq_free q = \<lparr>q_lock = free_lock, q_head = 0, q_tail = 0, q_mem = [], q_size = 0\<rparr>"

definition xq_init_empty :: "u64 \<Rightarrow> u64 list \<Rightarrow> xq \<Rightarrow> xq" where
  "xq_init_empty sz mem q =
     (let q = q\<lparr>q_head := 1, q_tail := 0, q_mem := mem, q_size := snap sz\<rparr>
      in q\<lparr>q_lock := xlock_release (q_lock q)\<rparr>)"

definition xq_init_map :: "u64 \<Rightarrow> u64 \<Rightarrow> (u64 \<Rightarrow> u64) \<Rightarrow> u64 list \<Rightarrow> xq \<Rightarrow> xq" where
  "xq_init_map sz count mapfn mem q =
     (let q = q\<lparr>q_size := snap sz\<rparr>;
          count = (if count > q_size q then q_size q else count);
          q = q\<lparr>q_head := count + 1, q_tail := 0,
            q_mem := fill (\<lambda>t. t) (\<lambda>t. mapfn (of_nat t)) (unat count) mem\<rparr>
      in q\<lparr>q_lock := xlock_release (q_lock q)\<rparr>)"

definition xq_init_seq :: "u64 \<Rightarrow> u64 \<Rightarrow> u64 list \<Rightarrow> xq \<Rightarrow> xq" where
  "xq_init_seq sz count mem q =
     (let q = q\<lparr>q_size := snap sz\<rparr>;
          count = (if count > q_size q then q_size q else count);
          q = q\<lparr>q_head := count + 1, q_tail := 0,
            q_mem := fill (\<lambda>t. t) (\<lambda>t. of_nat t) (unat count) mem\<rparr>
      in q\<lparr>q_lock := xlock_release (q_lock q)\<rparr>)"

definition xq_alloc_empty :: "u64 \<Rightarrow> u64 list option \<Rightarrow> xq \<Rightarrow> bool \<times> xq" where
  "xq_alloc_empty sz mem q =
     (case mem of None \<Rightarrow> (False, q) | Some m \<Rightarrow> (True, xq_init_empty sz m q))"

definition xq_alloc_map ::
    "u64 \<Rightarrow> u64 \<Rightarrow> (u64 \<Rightarrow> u64) \<Rightarrow> u64 list option \<Rightarrow> xq \<Rightarrow> bool \<times> xq" where
  "xq_alloc_map sz count mapfn mem q =
     (case mem of None \<Rightarrow> (False, q) | Some m \<Rightarrow> (True, xq_init_map sz count mapfn m q))"

definition xq_alloc_seq :: "u64 \<Rightarrow> u64 \<Rightarrow> u64 list option \<Rightarrow> xq \<Rightarrow> bool \<times> xq" where
  "xq_alloc_seq sz count mem q =
     (case mem of None \<Rightarrow> (False, q) | Some m \<Rightarrow> (True, xq_init_seq sz count m q))"

definition xq_size :: "xq \<Rightarrow> u64" where
  "xq_size q = q_size q"

definition xq_count :: "xq \<Rightarrow> u64" where
  "xq_count q = q_head q - q_tail q - 1"

text \<open>The slot of a position, and the table access of every operation.\<close>

definition q_slot :: "xq \<Rightarrow> u64 \<Rightarrow> nat" where
  "q_slot q i = unat (i AND (q_size q - 1))"

definition xq_element :: "xq \<Rightarrow> u64 \<Rightarrow> u64" where
  "xq_element q index = q_mem q ! q_slot q index"

definition q_store :: "u64 \<Rightarrow> u64 \<Rightarrow> xq \<Rightarrow> xq" where
  "q_store index x q = q\<lparr>q_mem := (q_mem q)[q_slot q index := x]\<rparr>"

text \<open>
  The lines that \<^verbatim>\<open>xq_print\<close> logs. The loop index runs from the tail to the head and
  wraps, so the distance to the head is the measure.
\<close>

lemma unat_diff_step:
  fixes h i :: u64
  assumes "i \<noteq> h"
  shows "unat (h - (i + 1)) < unat (h - i)"
  using assms measure_unat [of "h - i"] by (simp add: algebra_simps)

function xq_print_from :: "xq \<Rightarrow> u64 \<Rightarrow> (u64 \<times> u64) list" where
  "xq_print_from q i =
     (if i = q_head q then [] else (i, xq_element q i) # xq_print_from q (i + 1))"
  by pat_completeness auto
termination
  by (relation "measure (\<lambda>(q, i). unat (q_head q - i))") (auto intro: unat_diff_step)

declare xq_print_from.simps [simp del]

definition xq_print :: "xq \<Rightarrow> (u64 \<times> u64) list" where
  "xq_print q = xq_print_from q (q_tail q + 1)"

definition raw_xq_append_head_idx :: "u64 \<Rightarrow> xq \<Rightarrow> u64 \<times> xq" where
  "raw_xq_append_head_idx nr q = (let head = q_head q in (head, q\<lparr>q_head := head + nr\<rparr>))"

definition raw_xq_append_head :: "xq \<Rightarrow> u64 \<Rightarrow> u64 \<times> xq" where
  "raw_xq_append_head q xqi =
     (if xq_count q \<ge> q_size q then (Noneidx, q)
      else let (i, q) = raw_xq_append_head_idx 1 q in (xqi, q_store i xqi q))"

text \<open>
  The locked variants run the raw operation between \<^verbatim>\<open>xlock_acquire\<close> and
  \<^verbatim>\<open>xlock_release\<close> on the queue's own lock.
\<close>

definition with_q_lock :: "caller \<Rightarrow> (xq \<Rightarrow> 'r \<times> xq) \<Rightarrow> xq \<Rightarrow> ('r \<times> xq) option" where
  "with_q_lock c f q =
     (case xlock_acquire c (q_lock q) of None \<Rightarrow> None
      | Some l \<Rightarrow> let (r, q) = f (q\<lparr>q_lock := l\<rparr>)
                 in Some (r, q\<lparr>q_lock := xlock_release (q_lock q)\<rparr>))"

definition xq_append_head :: "caller \<Rightarrow> u64 \<Rightarrow> xq \<Rightarrow> (u64 \<times> xq) option" where
  "xq_append_head c xqi = with_q_lock c (\<lambda>q. raw_xq_append_head q xqi)"

definition raw_xq_pop_head_idx :: "u64 \<Rightarrow> xq \<Rightarrow> u64 \<times> xq" where
  "raw_xq_pop_head_idx nr q = (let head = q_head q - nr in (head, q\<lparr>q_head := head\<rparr>))"

definition raw_xq_pop_head :: "xq \<Rightarrow> u64 \<times> xq" where
  "raw_xq_pop_head q =
     (if xq_count q = 0 then (Noneidx, q)
      else let (i, q) = raw_xq_pop_head_idx 1 q in (xq_element q i, q))"

definition xq_pop_head :: "caller \<Rightarrow> xq \<Rightarrow> (u64 \<times> xq) option" where
  "xq_pop_head c = with_q_lock c raw_xq_pop_head"

definition raw_xq_peek_head_idx :: "xq \<Rightarrow> u64 \<Rightarrow> u64" where
  "raw_xq_peek_head_idx q nr = q_head q - nr"

definition raw_xq_peek_head :: "xq \<Rightarrow> u64" where
  "raw_xq_peek_head q =
     (if xq_count q = 0 then Noneidx else xq_element q (raw_xq_peek_head_idx q 1))"

definition xq_peek_head :: "caller \<Rightarrow> xq \<Rightarrow> (u64 \<times> xq) option" where
  "xq_peek_head c = with_q_lock c (\<lambda>q. (raw_xq_peek_head q, q))"

definition raw_xq_peek_tail_idx :: "xq \<Rightarrow> u64 \<Rightarrow> u64" where
  "raw_xq_peek_tail_idx q nr = q_tail q + nr"

definition raw_xq_peek_tail :: "xq \<Rightarrow> u64" where
  "raw_xq_peek_tail q =
     (if xq_count q = 0 then Noneidx else xq_element q (raw_xq_peek_tail_idx q 1))"

definition xq_peek_tail :: "caller \<Rightarrow> xq \<Rightarrow> (u64 \<times> xq) option" where
  "xq_peek_tail c = with_q_lock c (\<lambda>q. (raw_xq_peek_tail q, q))"

definition raw_xq_append_tail_idx :: "u64 \<Rightarrow> xq \<Rightarrow> u64 \<times> xq" where
  "raw_xq_append_tail_idx nr q = (let tail = q_tail q - nr in (tail + 1, q\<lparr>q_tail := tail\<rparr>))"

definition raw_xq_append_tail :: "xq \<Rightarrow> u64 \<Rightarrow> u64 \<times> xq" where
  "raw_xq_append_tail q xqi =
     (if \<not> (xq_count q + 1 \<le> q_size q) then (Noneidx, q)
      else let (i, q) = raw_xq_append_tail_idx 1 q in (xqi, q_store i xqi q))"

definition xq_append_tail :: "caller \<Rightarrow> u64 \<Rightarrow> xq \<Rightarrow> (u64 \<times> xq) option" where
  "xq_append_tail c xqi = with_q_lock c (\<lambda>q. raw_xq_append_tail q xqi)"

definition raw_xq_pop_tail_idx :: "u64 \<Rightarrow> xq \<Rightarrow> u64 \<times> xq" where
  "raw_xq_pop_tail_idx nr q = (let tail = q_tail q in (tail + 1, q\<lparr>q_tail := tail + nr\<rparr>))"

definition raw_xq_pop_tail :: "xq \<Rightarrow> u64 \<times> xq" where
  "raw_xq_pop_tail q =
     (if xq_count q = 0 then (Noneidx, q)
      else let (i, q) = raw_xq_pop_tail_idx 1 q in (xq_element q i, q))"

definition xq_pop_tail :: "caller \<Rightarrow> xq \<Rightarrow> (u64 \<times> xq) option" where
  "xq_pop_tail c = with_q_lock c raw_xq_pop_tail"

text \<open>
  Moving \<open>nr\<close> items between two different queues. The order in which the two locks are
  taken depends on the addresses; \<open>hfirst\<close> is the comparison \<^verbatim>\<open>headq >= tailq\<close>.
\<close>

definition raw_xq_head_to_tail :: "xq \<Rightarrow> xq \<Rightarrow> u64 \<Rightarrow> int \<times> xq \<times> xq" where
  "raw_xq_head_to_tail headq tailq nr =
     (if xq_count headq < nr \<or> xq_count tailq + nr > q_size tailq then (- 1, headq, tailq)
      else let (head, headq) = raw_xq_pop_head_idx nr headq;
               (tail, tailq) = raw_xq_append_tail_idx nr tailq
           in (0, headq,
               tailq\<lparr>q_mem := fill (\<lambda>i. q_slot tailq (tail + of_nat i))
                 (\<lambda>i. xq_element headq (head + of_nat i)) (unat nr) (q_mem tailq)\<rparr>))"

definition acquire_both :: "caller \<Rightarrow> bool \<Rightarrow> xq \<Rightarrow> xq \<Rightarrow> (xq \<times> xq) option" where
  "acquire_both c hfirst headq tailq =
     (let (a, b) = (if hfirst then (headq, tailq) else (tailq, headq))
      in case xlock_acquire c (q_lock a) of None \<Rightarrow> None
         | Some la \<Rightarrow>
           (case xlock_acquire c (q_lock b) of None \<Rightarrow> None
            | Some lb \<Rightarrow>
                let a = a\<lparr>q_lock := la\<rparr>; b = b\<lparr>q_lock := lb\<rparr>
                in Some (if hfirst then (a, b) else (b, a))))"

definition xq_head_to_tail ::
    "caller \<Rightarrow> bool \<Rightarrow> xq \<Rightarrow> xq \<Rightarrow> u64 \<Rightarrow> (int \<times> xq \<times> xq) option" where
  "xq_head_to_tail c hfirst headq tailq nr =
     (case acquire_both c hfirst headq tailq of None \<Rightarrow> None
      | Some (headq, tailq) \<Rightarrow>
          let (r, headq, tailq) = raw_xq_head_to_tail headq tailq nr
          in Some (r, headq\<lparr>q_lock := xlock_release (q_lock headq)\<rparr>,
                   tailq\<lparr>q_lock := xlock_release (q_lock tailq)\<rparr>))"

function raw_xq_check_from :: "xq \<Rightarrow> u64 \<Rightarrow> u64 \<Rightarrow> bool" where
  "raw_xq_check_from q idx i =
     (if i = q_head q then False
      else if xq_element q i = idx then True
      else raw_xq_check_from q idx (i + 1))"
  by pat_completeness auto
termination
  by (relation "measure (\<lambda>(q, idx, i). unat (q_head q - i))") (auto intro: unat_diff_step)

declare raw_xq_check_from.simps [simp del]

definition raw_xq_check :: "xq \<Rightarrow> u64 \<Rightarrow> bool" where
  "raw_xq_check q idx = raw_xq_check_from q idx (q_tail q + 1)"

definition xq_check :: "caller \<Rightarrow> u64 \<Rightarrow> xq \<Rightarrow> (bool \<times> xq) option" where
  "xq_check c idx = with_q_lock c (\<lambda>q. (raw_xq_check q idx, q))"

definition raw_xq_resize :: "xq \<Rightarrow> xq \<Rightarrow> u64 \<times> xq" where
  "raw_xq_resize q newq =
     (let nr = xq_count q in
      if nr > q_size newq then (Noneidx, newq)
      else let head = raw_xq_peek_head_idx q nr;
               (t, newq) = raw_xq_append_tail_idx nr newq;
               tail = t + nr - 1
           in (nr, newq\<lparr>q_mem := fill (\<lambda>i. q_slot newq (tail - of_nat i))
                 (\<lambda>i. xq_element q (head + of_nat i)) (unat nr) (q_mem newq)\<rparr>))"

definition xq_resize :: "caller \<Rightarrow> xq \<Rightarrow> xq \<Rightarrow> (u64 \<times> xq \<times> xq) option" where
  "xq_resize c q newq =
     (case xlock_acquire c (q_lock q) of None \<Rightarrow> None
      | Some l \<Rightarrow>
        (case xlock_acquire c (q_lock newq) of None \<Rightarrow> None
         | Some l' \<Rightarrow>
            let q = q\<lparr>q_lock := l\<rparr>;
                (r, newq) = raw_xq_resize q (newq\<lparr>q_lock := l'\<rparr>)
            in Some (r, q\<lparr>q_lock := xlock_release (q_lock q)\<rparr>,
                     newq\<lparr>q_lock := xlock_release (q_lock newq)\<rparr>)))"

section \<open>The list a queue holds\<close>

text \<open>
  A well-formed queue has a power-of-two size, a table that covers it, and at most that
  many items. \<open>q_list\<close> reads the items from the tail to the head; it is the abstraction
  function of the refinement.
\<close>

definition q_wf :: "xq \<Rightarrow> bool" where
  "q_wf q \<longleftrightarrow> (\<exists>k<64. q_size q = 2 ^ k \<and> 2 ^ k \<le> length (q_mem q)) \<and> xq_count q \<le> q_size q"

definition q_len :: "xq \<Rightarrow> nat" where
  "q_len q = unat (xq_count q)"

definition q_cap :: "xq \<Rightarrow> nat" where
  "q_cap q = unat (q_size q)"

definition q_list :: "xq \<Rightarrow> u64 list" where
  "q_list q = map (\<lambda>i. xq_element q (q_tail q + 1 + of_nat i)) [0..<q_len q]"

lemma length_q_list [simp]: "length (q_list q) = q_len q"
  by (simp add: q_list_def)

lemma q_list_nth: "i < q_len q \<Longrightarrow> q_list q ! i = xq_element q (q_tail q + 1 + of_nat i)"
  by (simp add: q_list_def del: of_nat_diff)

lemma q_len_0 [simp]: "q_len q = 0 \<longleftrightarrow> xq_count q = 0"
  by (simp add: q_len_def unat_eq_0)

lemma q_list_Nil [simp]: "q_list q = [] \<longleftrightarrow> xq_count q = 0"
  by (metis length_0_conv length_q_list q_len_0)

lemma q_wfE:
  assumes "q_wf q"
  obtains k where "k < 64" "q_size q = 2 ^ k" "q_cap q = 2 ^ k" "2 ^ k \<le> length (q_mem q)"
    "q_len q \<le> 2 ^ k" "(2::nat) ^ k \<le> 2 ^ 63"
proof -
  from assms obtain k where k: "k < 64" "q_size q = 2 ^ k" "2 ^ k \<le> length (q_mem q)"
    and c: "xq_count q \<le> q_size q" by (auto simp: q_wf_def)
  have cap: "q_cap q = 2 ^ k" using k by (simp add: q_cap_def unat_pow2)
  have "q_len q \<le> q_cap q" using c by (simp add: q_len_def q_cap_def word_le_nat_alt)
  moreover have "(2::nat) ^ k \<le> 2 ^ 63" using k(1) by (intro power_increasing) auto
  ultimately show thesis using that [of k] k cap by simp
qed

lemma q_wf_len: "q_wf q \<Longrightarrow> q_len q \<le> q_cap q"
  by (metis q_wfE)

lemma q_slot_add:
  assumes "q_size q = 2 ^ k" and "k < 64"
  shows "q_slot q (x + of_nat i) = (unat x + i) mod 2 ^ k"
  using unat_slot_add [of k x i] assms by (simp add: q_slot_def)

lemma q_slot_bound [bounds_simps]:
  assumes "q_wf q"
  shows "q_slot q i < length (q_mem q)"
proof -
  from assms obtain k where "q_size q = 2 ^ k" "2 ^ k \<le> length (q_mem q)" by (elim q_wfE)
  then show ?thesis
    using order_less_le_trans [OF unat_slot_less [of i k]] by (simp only: q_slot_def)
qed

lemma q_slot_inj:
  assumes "q_wf q" and "q_slot q (x + of_nat i) = q_slot q (x + of_nat j)"
    and "i < q_cap q" and "j < q_cap q"
  shows "i = j"
proof -
  from assms(1) obtain k where k: "q_size q = 2 ^ k" "k < 64" "q_cap q = 2 ^ k" by (elim q_wfE)
  have "(unat x + i) mod 2 ^ k = (unat x + j) mod 2 ^ k"
    using assms(2) by (simp only: q_slot_add [OF k(1,2)])
  then show ?thesis by (rule mod_add_inj) (use assms(3,4) k(3) in simp_all)
qed

lemma q_slot_cong: "q_size q' = q_size q \<Longrightarrow> q_slot q' = q_slot q"
  by (simp add: q_slot_def fun_eq_iff)

lemma q_slot_fields [simp]:
  "q_slot (q\<lparr>q_tail := t\<rparr>) = q_slot q" "q_slot (q\<lparr>q_head := h\<rparr>) = q_slot q"
  "q_slot (q\<lparr>q_lock := l\<rparr>) = q_slot q" "q_slot (q\<lparr>q_mem := m\<rparr>) = q_slot q"
  by (simp_all add: q_slot_def fun_eq_iff)

lemma q_count_len: "xq_count q = of_nat (q_len q)"
  by (simp add: q_len_def)

lemma q_head_eq: "q_head q = q_tail q + 1 + of_nat (q_len q)"
  by (simp add: q_len_def xq_count_def)

text \<open>
  A block of items written in front of the tail: what a head-to-tail transfer and a resize
  do. \<open>p\<close> is the order in which the positions are written.
\<close>

definition q_prepend :: "nat \<Rightarrow> (nat \<Rightarrow> nat) \<Rightarrow> (nat \<Rightarrow> u64) \<Rightarrow> xq \<Rightarrow> xq" where
  "q_prepend n p g q = q\<lparr>q_tail := q_tail q - of_nat n,
     q_mem := fill (\<lambda>i. q_slot q (q_tail q - of_nat n + 1 + of_nat (p i))) g n (q_mem q)\<rparr>"

lemma q_len_prepend:
  assumes "q_wf q" and "q_len q + n \<le> q_cap q"
  shows "q_len (q_prepend n p g q) = q_len q + n"
proof -
  from assms(1) obtain k where k: "q_cap q = 2 ^ k" "(2::nat) ^ k \<le> 2 ^ 63" by (elim q_wfE)
  have "xq_count (q_prepend n p g q) = xq_count q + of_nat n"
    by (simp add: xq_count_def q_prepend_def)
  also have "\<dots> = of_nat (q_len q + n)" by (simp add: q_count_len)
  finally have "q_len (q_prepend n p g q) = unat (of_nat (q_len q + n) :: u64)"
    by (simp add: q_len_def)
  also have "\<dots> = q_len q + n"
    using assms(2) k by (intro unat_of_nat_u64) simp
  finally show ?thesis .
qed

lemma q_wf_prepend:
  assumes "q_wf q" and "q_len q + n \<le> q_cap q"
  shows "q_wf (q_prepend n p g q)"
proof -
  have "xq_count (q_prepend n p g q) \<le> q_size q"
    using q_len_prepend [OF assms, of p g] assms(2)
    by (simp add: word_le_nat_alt q_len_def q_cap_def)
  with assms(1) show ?thesis by (auto simp: q_wf_def q_prepend_def)
qed

lemma q_list_prepend:
  assumes wf: "q_wf q" and room: "q_len q + n \<le> q_cap q"
    and p: "\<And>i. i < n \<Longrightarrow> p i < n \<and> p (p i) = i"
  shows "q_list (q_prepend n p g q) = map (\<lambda>i. g (p i)) [0..<n] @ q_list q"
proof (rule nth_equalityI)
  let ?q = "q_prepend n p g q" and ?b = "q_tail q - of_nat n + 1"
  let ?f = "\<lambda>i. q_slot q (?b + of_nat (p i))"
  have len: "q_len ?q = q_len q + n" by (rule q_len_prepend [OF wf room])
  then show "length (q_list ?q) = length (map (\<lambda>i. g (p i)) [0..<n] @ q_list q)" by simp
  have slot: "q_slot ?q = q_slot q" by (rule q_slot_cong) (simp add: q_prepend_def)
  have el: "xq_element ?q x = fill ?f g n (q_mem q) ! q_slot q x" for x
    by (simp add: xq_element_def slot) (simp add: q_prepend_def)
  have tl: "q_tail ?q + 1 = ?b" by (simp add: q_prepend_def)
  fix j assume "j < length (q_list ?q)"
  then have j: "j < q_len q + n" by (simp add: len)
  then have lj: "q_list ?q ! j = fill ?f g n (q_mem q) ! q_slot q (?b + of_nat j)"
    by (simp add: q_list_def len el tl)
  show "q_list ?q ! j = (map (\<lambda>i. g (p i)) [0..<n] @ q_list q) ! j"
  proof (cases "j < n")
    case True
    have "fill ?f g n (q_mem q) ! ?f (p j) = g (p j)"
    proof (rule fill_nth)
      show "p j < n" using p True by simp
      show "?f i < length (q_mem q)" if "i < n" for i using wf by (rule q_slot_bound)
      show "i = i'" if "i < n" "i' < n" "?f i = ?f i'" for i i'
      proof -
        have "p i = p i'"
          by (rule q_slot_inj [OF wf that(3)]) (use p [OF that(1)] p [OF that(2)] room in linarith)+
        then show "i = i'" using p that by metis
      qed
    qed
    then show ?thesis using True p by (simp add: lj nth_append)
  next
    case False
    have "?f i \<noteq> q_slot q (?b + of_nat j)" if "i < n" for i
    proof
      assume "?f i = q_slot q (?b + of_nat j)"
      then have "p i = j"
        by (rule q_slot_inj [OF wf]) (use p [OF that] room j in linarith)+
      then show False using p [OF that] False by simp
    qed
    then have "q_list ?q ! j = xq_element q (?b + of_nat j)"
      by (simp add: lj fill_other xq_element_def)
    also have "?b + of_nat j = q_tail q + 1 + of_nat (j - n)"
      using False by (simp add: of_nat_diff)
    finally have "q_list ?q ! j = xq_element q (q_tail q + 1 + of_nat (j - n))" .
    moreover have "q_list q ! (j - n) = xq_element q (q_tail q + 1 + of_nat (j - n))"
      using False j by (intro q_list_nth) linarith
    ultimately show ?thesis using False by (simp add: nth_append)
  qed
qed

section \<open>The operations on the list\<close>

lemma q_room_iff: "xq_count q < q_size q \<longleftrightarrow> q_len q < q_cap q"
  by (simp add: q_len_def q_cap_def word_less_nat_alt)

lemma q_room_tail_iff:
  assumes "q_wf q"
  shows "xq_count q + 1 \<le> q_size q \<longleftrightarrow> q_len q < q_cap q"
proof -
  from assms obtain k where k: "q_cap q = 2 ^ k" "(2::nat) ^ k \<le> 2 ^ 63" "q_len q \<le> 2 ^ k"
    by (elim q_wfE)
  have c: "xq_count q + 1 = of_nat (Suc (q_len q))" by (simp add: q_len_def)
  have "unat (xq_count q + 1) = Suc (q_len q)"
    unfolding c using k by (intro unat_of_nat_u64) simp
  then show ?thesis by (simp add: word_le_nat_alt q_cap_def Suc_le_eq)
qed

lemma append_tail_room:
  assumes wf: "q_wf q" and room: "q_len q < q_cap q"
  shows "raw_xq_append_tail q x = (x, q_prepend 1 id (\<lambda>_. x) q)"
  using q_room_tail_iff [OF wf] room
  by (simp add: raw_xq_append_tail_def raw_xq_append_tail_idx_def q_prepend_def q_store_def
      q_slot_def fill_Suc)

lemma append_tail_list [abs_simps]:
  assumes wf: "q_wf q" and room: "q_len q < q_cap q"
  shows "fst (raw_xq_append_tail q x) = x"
    and "q_list (snd (raw_xq_append_tail q x)) = x # q_list q"
    and "q_size (snd (raw_xq_append_tail q x)) = q_size q"
    and "q_wf (snd (raw_xq_append_tail q x))"
  using q_list_prepend [OF wf, of 1 id "\<lambda>_. x"] q_wf_prepend [OF wf, of 1 id "\<lambda>_. x"] room
  by (simp_all add: append_tail_room [OF wf room]) (simp_all add: q_prepend_def)

lemma append_tail_full [abs_simps]:
  "q_wf q \<Longrightarrow> q_len q = q_cap q \<Longrightarrow> raw_xq_append_tail q x = (Noneidx, q)"
  by (simp add: raw_xq_append_tail_def q_room_tail_iff)

lemma append_head_full [abs_simps]:
  "q_len q = q_cap q \<Longrightarrow> raw_xq_append_head q x = (Noneidx, q)"
  using q_room_iff [of q] by (simp add: raw_xq_append_head_def linorder_not_less [symmetric])

lemma append_head_list [abs_simps]:
  assumes wf: "q_wf q" and room: "q_len q < q_cap q"
  shows "fst (raw_xq_append_head q x) = x"
    and "q_list (snd (raw_xq_append_head q x)) = q_list q @ [x]"
    and "q_size (snd (raw_xq_append_head q x)) = q_size q"
    and "q_wf (snd (raw_xq_append_head q x))"
proof -
  let ?q = "q\<lparr>q_head := q_head q + 1, q_mem := (q_mem q)[q_slot q (q_head q) := x]\<rparr>"
  from wf obtain k where k: "q_cap q = 2 ^ k" "(2::nat) ^ k \<le> 2 ^ 63" by (elim q_wfE)
  have eq: "raw_xq_append_head q x = (x, ?q)"
    using q_room_iff [of q] room
    by (simp add: raw_xq_append_head_def raw_xq_append_head_idx_def q_store_def q_slot_def Let_def
        linorder_not_less [symmetric])
  have "xq_count ?q = xq_count q + 1" by (simp add: xq_count_def)
  then have "xq_count ?q = of_nat (Suc (q_len q))" by (simp add: q_len_def)
  moreover have "unat (of_nat (Suc (q_len q)) :: u64) = Suc (q_len q)"
    using k room by (intro unat_of_nat_u64) simp
  ultimately have len: "q_len ?q = Suc (q_len q)" by (simp add: q_len_def)
  have slot: "q_slot ?q = q_slot q" by (rule q_slot_cong) simp
  have el: "xq_element ?q i =
      (q_mem q)[q_slot q (q_tail q + 1 + of_nat (q_len q)) := x] ! q_slot q i" for i
    unfolding xq_element_def slot q_head_eq [symmetric] by simp
  have old: "xq_element ?q (q_tail q + 1 + of_nat i) = xq_element q (q_tail q + 1 + of_nat i)"
    if "i < q_len q" for i
  proof -
    have "q_slot q (q_tail q + 1 + of_nat i) \<noteq> q_slot q (q_tail q + 1 + of_nat (q_len q))"
      using q_slot_inj [OF wf, of "q_tail q + 1" i "q_len q"] that room by auto
    then show ?thesis unfolding el by (simp add: xq_element_def)
  qed
  have new: "xq_element ?q (q_tail q + 1 + of_nat (q_len q)) = x"
    unfolding el using q_slot_bound [OF wf] by simp
  show "fst (raw_xq_append_head q x) = x" by (simp add: eq)
  show "q_list (snd (raw_xq_append_head q x)) = q_list q @ [x]"
    using old new by (simp add: eq q_list_def len)
  show "q_size (snd (raw_xq_append_head q x)) = q_size q" by (simp add: eq)
  have "xq_count ?q \<le> q_size q"
    using len room by (simp add: word_le_nat_alt q_len_def q_cap_def)
  with wf show "q_wf (snd (raw_xq_append_head q x))" by (simp add: eq q_wf_def)
qed

lemma pop_empty [abs_simps]:
  "xq_count q = 0 \<Longrightarrow> raw_xq_pop_head q = (Noneidx, q)"
  "xq_count q = 0 \<Longrightarrow> raw_xq_pop_tail q = (Noneidx, q)"
  "xq_count q = 0 \<Longrightarrow> raw_xq_peek_head q = Noneidx"
  "xq_count q = 0 \<Longrightarrow> raw_xq_peek_tail q = Noneidx"
  by (simp_all add: raw_xq_pop_head_def raw_xq_pop_tail_def raw_xq_peek_head_def
      raw_xq_peek_tail_def)

lemma q_len_dec:
  assumes "xq_count q \<noteq> 0" and "xq_count q' = xq_count q - 1"
  shows "Suc (q_len q') = q_len q"
  using assms unat_minus_one [of "xq_count q"] by (simp add: q_len_def unat_gt_0)

lemma pop_head_list [abs_simps]:
  assumes wf: "q_wf q" and ne: "xq_count q \<noteq> 0"
  shows "fst (raw_xq_pop_head q) = last (q_list q)"
    and "q_list (snd (raw_xq_pop_head q)) = butlast (q_list q)"
    and "q_size (snd (raw_xq_pop_head q)) = q_size q"
    and "q_wf (snd (raw_xq_pop_head q))"
proof -
  define q' where "q' = q\<lparr>q_head := q_head q - 1\<rparr>"
  have el: "xq_element q' = xq_element q" and tl: "q_tail q' = q_tail q"
    and sz: "q_size q' = q_size q" and mem: "q_mem q' = q_mem q"
    by (simp_all add: xq_element_def q_slot_def fun_eq_iff q'_def)
  have eq: "raw_xq_pop_head q = (xq_element q (q_head q - 1), q')"
    using ne el by (simp add: raw_xq_pop_head_def raw_xq_pop_head_idx_def Let_def q'_def)
  have len: "q_len q = Suc (q_len q')"
    by (rule q_len_dec [OF ne, symmetric]) (simp add: xq_count_def q'_def)
  have "q_head q - 1 = q_tail q + of_nat (q_len q)" by (simp add: q_len_def xq_count_def)
  also have "\<dots> = q_tail q + 1 + of_nat (q_len q')" by (simp add: len)
  finally have list: "q_list q = q_list q' @ [xq_element q (q_head q - 1)]"
    by (simp only: q_list_def el tl len upt_Suc_append [OF le0] map_append list.map)
  show "fst (raw_xq_pop_head q) = last (q_list q)"
    and "q_list (snd (raw_xq_pop_head q)) = butlast (q_list q)"
    and "q_size (snd (raw_xq_pop_head q)) = q_size q"
    by (simp_all add: eq list sz)
  have "xq_count q' \<le> q_size q"
    using len q_wf_len [OF wf] by (simp add: word_le_nat_alt q_len_def q_cap_def)
  with wf show "q_wf (snd (raw_xq_pop_head q))" by (simp add: eq q_wf_def sz mem)
qed

lemma pop_tail_list [abs_simps]:
  assumes wf: "q_wf q" and ne: "xq_count q \<noteq> 0"
  shows "fst (raw_xq_pop_tail q) = hd (q_list q)"
    and "q_list (snd (raw_xq_pop_tail q)) = tl (q_list q)"
    and "q_size (snd (raw_xq_pop_tail q)) = q_size q"
    and "q_wf (snd (raw_xq_pop_tail q))"
proof -
  define q' where "q' = q\<lparr>q_tail := q_tail q + 1\<rparr>"
  have el: "xq_element q' = xq_element q" and tl: "q_tail q' = q_tail q + 1"
    and sz: "q_size q' = q_size q" and mem: "q_mem q' = q_mem q"
    by (simp_all add: xq_element_def q_slot_def fun_eq_iff q'_def)
  have eq: "raw_xq_pop_tail q = (xq_element q (q_tail q + 1), q')"
    using ne el by (simp add: raw_xq_pop_tail_def raw_xq_pop_tail_idx_def Let_def q'_def)
  have len: "q_len q = Suc (q_len q')"
    by (rule q_len_dec [OF ne, symmetric]) (simp add: xq_count_def q'_def)
  have "q_list q = map (\<lambda>i. xq_element q (q_tail q + 1 + of_nat i)) (0 # map Suc [0..<q_len q'])"
    by (simp only: q_list_def map_Suc_upt upt_conv_Cons [OF zero_less_Suc] len)
  then have list: "q_list q = xq_element q (q_tail q + 1) # q_list q'"
    by (simp add: q_list_def el tl add.assoc)
  show "fst (raw_xq_pop_tail q) = hd (q_list q)"
    and "q_list (snd (raw_xq_pop_tail q)) = tl (q_list q)"
    and "q_size (snd (raw_xq_pop_tail q)) = q_size q"
    by (simp_all add: eq list sz)
  have "xq_count q' \<le> q_size q"
    using len q_wf_len [OF wf] by (simp add: word_le_nat_alt q_len_def q_cap_def)
  with wf show "q_wf (snd (raw_xq_pop_tail q))" by (simp add: eq q_wf_def sz mem)
qed

lemma peek_list [abs_simps]:
  assumes "q_wf q" and "xq_count q \<noteq> 0"
  shows "raw_xq_peek_head q = last (q_list q)" and "raw_xq_peek_tail q = hd (q_list q)"
proof -
  have "raw_xq_peek_head q = fst (raw_xq_pop_head q)"
    using assms(2) by (simp add: raw_xq_peek_head_def raw_xq_peek_head_idx_def raw_xq_pop_head_def
        raw_xq_pop_head_idx_def Let_def xq_element_def q_slot_def)
  with assms show "raw_xq_peek_head q = last (q_list q)" by (simp add: abs_simps)
  have "raw_xq_peek_tail q = fst (raw_xq_pop_tail q)"
    using assms(2) by (simp add: raw_xq_peek_tail_def raw_xq_peek_tail_idx_def raw_xq_pop_tail_def
        raw_xq_pop_tail_idx_def Let_def xq_element_def q_slot_def)
  with assms show "raw_xq_peek_tail q = hd (q_list q)" by (simp add: abs_simps)
qed

text \<open>The walks over the positions from the tail to the head.\<close>

lemma q_at_head:
  assumes "i \<le> q_len q"
  shows "q_tail q + 1 + of_nat i = q_head q \<longleftrightarrow> i = q_len q"
proof
  assume "q_tail q + 1 + of_nat i = q_head q"
  then have "(of_nat i :: u64) = xq_count q" by (simp add: xq_count_def algebra_simps)
  then have "unat (of_nat i :: u64) = q_len q" by (simp add: q_len_def)
  moreover have "i < 2 ^ 64" using assms unat_u64_less [of "xq_count q"] by (simp add: q_len_def)
  ultimately show "i = q_len q" by (simp add: unat_of_nat_u64)
qed (simp add: q_len_def xq_count_def)

lemma check_from_list:
  assumes "i \<le> q_len q"
  shows "raw_xq_check_from q idx (q_tail q + 1 + of_nat i) \<longleftrightarrow> idx \<in> set (drop i (q_list q))"
  using assms
proof (induction "q_len q - i" arbitrary: i)
  case 0
  then show ?case by (subst raw_xq_check_from.simps) (simp add: q_at_head)
next
  case (Suc m)
  then have i: "i < q_len q" by simp
  have "m = q_len q - Suc i" "Suc i \<le> q_len q" using Suc.hyps(2) by simp_all
  note IH = Suc.hyps(1) [OF this]
  have "q_tail q + 1 + of_nat i + 1 = q_tail q + 1 + of_nat (Suc i)" by simp
  then have "raw_xq_check_from q idx (q_tail q + 1 + of_nat i) \<longleftrightarrow>
      xq_element q (q_tail q + 1 + of_nat i) = idx \<or> idx \<in> set (drop (Suc i) (q_list q))"
    using IH i q_at_head [of i q] by (subst raw_xq_check_from.simps) simp
  also have "\<dots> \<longleftrightarrow> idx \<in> set (drop i (q_list q))"
    using i by (auto simp: Cons_nth_drop_Suc [symmetric] q_list_nth)
  finally show ?case .
qed

lemma raw_check_iff: "raw_xq_check q idx \<longleftrightarrow> idx \<in> set (q_list q)"
  using check_from_list [of 0 q idx] by (simp add: raw_xq_check_def)

lemma print_from_list:
  assumes "i \<le> q_len q"
  shows "map snd (xq_print_from q (q_tail q + 1 + of_nat i)) = drop i (q_list q)"
  using assms
proof (induction "q_len q - i" arbitrary: i)
  case 0
  then show ?case by (subst xq_print_from.simps) (simp add: q_at_head)
next
  case (Suc m)
  then have i: "i < q_len q" by simp
  have "m = q_len q - Suc i" "Suc i \<le> q_len q" using Suc.hyps(2) by simp_all
  note IH = Suc.hyps(1) [OF this]
  have "q_tail q + 1 + of_nat i + 1 = q_tail q + 1 + of_nat (Suc i)" by simp
  then have "map snd (xq_print_from q (q_tail q + 1 + of_nat i)) =
      xq_element q (q_tail q + 1 + of_nat i) # drop (Suc i) (q_list q)"
    using IH i q_at_head [of i q] by (subst xq_print_from.simps) simp
  also have "\<dots> = drop i (q_list q)"
    using i by (simp add: Cons_nth_drop_Suc [symmetric] q_list_nth)
  finally show ?case .
qed

section \<open>Moving blocks between queues\<close>

lemma raw_head_to_tail_list:
  assumes h: "q_wf headq" and t: "q_wf tailq"
    and nr: "unat nr \<le> q_len headq" and room: "q_len tailq + unat nr \<le> q_cap tailq"
    and r: "raw_xq_head_to_tail headq tailq nr = (r, headq', tailq')"
  shows "r = 0"
    and "q_list headq' = take (q_len headq - unat nr) (q_list headq)"
    and "q_list tailq' = drop (q_len headq - unat nr) (q_list headq) @ q_list tailq"
    and "q_wf headq'" and "q_wf tailq'"
proof -
  define hq where "hq = headq\<lparr>q_head := q_head headq - nr\<rparr>"
  have el: "xq_element hq = xq_element headq" and htl: "q_tail hq = q_tail headq"
    and hsz: "q_size hq = q_size headq" and hmem: "q_mem hq = q_mem headq"
    by (simp_all add: hq_def xq_element_def q_slot_def fun_eq_iff)
  have hcnt: "xq_count hq = of_nat (q_len headq - unat nr)"
    using nr by (simp add: hq_def xq_count_def q_len_def of_nat_diff)
  have hlen: "q_len hq = q_len headq - unat nr"
    unfolding q_len_def hcnt
    by (rule unat_of_nat_u64) (use unat_u64_less [of "xq_count headq"] in \<open>simp add: q_len_def less_imp_diff_less\<close>)
  let ?g = "\<lambda>i. xq_element hq (q_head hq + of_nat i)"
  from t obtain k where k: "q_cap tailq = 2 ^ k" "(2::nat) ^ k \<le> 2 ^ 63" by (elim q_wfE)
  have sum: "unat (xq_count tailq + nr) = q_len tailq + unat nr"
    using room k by (simp add: unat_word_ariths q_len_def)
  have "\<not> xq_count headq < nr" "\<not> xq_count tailq + nr > q_size tailq"
    using nr room sum by (simp_all add: word_less_nat_alt q_len_def q_cap_def)
  then have res: "raw_xq_head_to_tail headq tailq nr = (0, hq, q_prepend (unat nr) id ?g tailq)"
    by (simp add: raw_xq_head_to_tail_def raw_xq_pop_head_idx_def raw_xq_append_tail_idx_def
        Let_def q_prepend_def hq_def q_slot_def)
  have e: "r = 0" "headq' = hq" "tailq' = q_prepend (unat nr) id ?g tailq"
    using r unfolding res prod.inject by metis+
  from e(1) show "r = 0" .
  have hd: "q_head hq = q_tail headq + 1 + of_nat (q_len headq - unat nr)"
    using q_head_eq [of hq] by (simp add: hlen htl del: of_nat_diff)
  have hl: "q_list hq = take (q_len headq - unat nr) (q_list headq)"
    by (simp add: q_list_def hlen el htl take_map)
  from hl e(2) show "q_list headq' = take (q_len headq - unat nr) (q_list headq)" by simp
  define m where "m = q_len headq - unat nr"
  have "?g i = q_list headq ! (m + i)" if "i < unat nr" for i
  proof -
    have "q_head hq + of_nat i = q_tail headq + 1 + of_nat (m + i)" by (simp add: hd m_def)
    then show ?thesis using that nr by (simp only: el) (simp add: q_list_nth m_def)
  qed
  then have "map ?g [0..<unat nr] = drop (q_len headq - unat nr) (q_list headq)"
    using nr by (intro nth_equalityI) (simp_all add: m_def)
  with q_list_prepend [OF t room, of id ?g]
  show "q_list tailq' = drop (q_len headq - unat nr) (q_list headq) @ q_list tailq"
    unfolding e(3) by simp
  have "q_len hq \<le> q_cap headq" using hlen q_wf_len [OF h] by simp
  then have "xq_count hq \<le> q_size hq" by (simp add: word_le_nat_alt q_len_def q_cap_def hsz)
  with h show "q_wf headq'" by (simp add: q_wf_def hsz hmem e(2))
  from q_wf_prepend [OF t room] show "q_wf tailq'" by (simp add: e(3))
qed

lemma raw_resize_list:
  assumes wf: "q_wf q" and wf': "q_wf newq" and room: "q_len newq + q_len q \<le> q_cap newq"
  shows "fst (raw_xq_resize q newq) = xq_count q"
    and "q_list (snd (raw_xq_resize q newq)) = rev (q_list q) @ q_list newq"
    and "q_wf (snd (raw_xq_resize q newq))"
    and "q_size (snd (raw_xq_resize q newq)) = q_size newq"
proof -
  let ?n = "q_len q"
  let ?p = "\<lambda>i. ?n - 1 - i"
  let ?g = "\<lambda>i. xq_element q (q_tail q + 1 + of_nat i)"
  have le: "\<not> xq_count q > q_size newq"
    using room by (simp add: word_less_nat_alt q_len_def q_cap_def)
  have hd: "q_head q - xq_count q = q_tail q + 1" by (simp add: xq_count_def)
  have pos: "q_slot newq (q_tail newq - of_nat i) =
      q_slot newq (q_tail newq - of_nat ?n + 1 + of_nat (?p i))" if "i < ?n" for i
  proof -
    from that have "of_nat ?n = (1 + of_nat i + of_nat (?p i) :: u64)"
      by (simp flip: of_nat_add of_nat_Suc del: of_nat_diff)
    then have e: "q_tail newq - of_nat i = q_tail newq - of_nat ?n + 1 + of_nat (?p i)"
      by (simp del: of_nat_diff)
    show ?thesis by (simp only: e)
  qed
  have cells: "fill (\<lambda>i. q_slot newq (q_tail newq - of_nat i)) ?g ?n (q_mem newq) =
      fill (\<lambda>i. q_slot newq (q_tail newq - of_nat ?n + 1 + of_nat (?p i))) ?g ?n (q_mem newq)"
    using pos by (intro fill_cong) auto
  have res: "raw_xq_resize q newq = (xq_count q, q_prepend ?n ?p ?g newq)"
    unfolding q_prepend_def cells [symmetric] using le
    by (simp add: raw_xq_resize_def raw_xq_append_tail_idx_def raw_xq_peek_head_idx_def
        Let_def hd) (simp add: q_len_def)
  show "fst (raw_xq_resize q newq) = xq_count q" by (simp add: res)
  have "map (\<lambda>i. ?g (?p i)) [0..<?n] = rev (q_list q)"
    by (intro nth_equalityI) (simp_all add: rev_nth q_list_nth del: of_nat_diff)
  moreover have "q_list (q_prepend ?n ?p ?g newq) = map (\<lambda>i. ?g (?p i)) [0..<?n] @ q_list newq"
    by (rule q_list_prepend [OF wf' room]) auto
  ultimately show "q_list (snd (raw_xq_resize q newq)) = rev (q_list q) @ q_list newq"
    by (simp add: res)
  show "q_wf (snd (raw_xq_resize q newq))" using q_wf_prepend [OF wf' room] by (simp add: res)
  show "q_size (snd (raw_xq_resize q newq)) = q_size newq" by (simp add: res q_prepend_def)
qed

section \<open>Sizes and initial queues\<close>

lemma snap_eq:
  assumes "0 < unat sz" and "unat sz < 2 ^ 31"
  shows "\<exists>k<31. snap sz = 2 ^ k \<and> 2 ^ k \<le> unat sz \<and> unat sz < 2 ^ Suc k"
proof -
  let ?w = "ucast sz :: u32"
  have u: "unat ?w = unat sz"
    using assms(2) by (simp add: unsigned_ucast_eq unsigned_take_bit_eq take_bit_nat_eq_self)
  then have "?w \<noteq> 0" using assms(1) by (metis unat_0 less_irrefl)
  then obtain m where m: "m < 32" "bit ?w m" "\<forall>i>m. \<not> bit ?w i" "builtin_clz ?w = 31 - m"
    using builtin_clz_eq by blast
  from unat_top_bit [OF m(2,3)] u have b: "2 ^ m \<le> unat sz" "unat sz < 2 ^ Suc m" by simp_all
  then have "(2::nat) ^ m < 2 ^ 31" using assms(2) by linarith
  then have "m < 31" by (rule power_less_imp_less_exp [rotated]) simp
  have "(64 - builtin_clz ?w - 1) mod 32 = m"
    using m(1,4) \<open>m < 31\<close> by (simp add: mod_if)
  moreover have "sz \<noteq> 0" using assms(1) by auto
  ultimately have "snap sz = scast (push_bit m 1 :: u32)"
    by (simp add: snap_def shl_int_def)
  also have "\<dots> = 2 ^ m"
    by (rule bit_word_eqI)
      (use \<open>m < 31\<close> in \<open>auto simp: bit_signed_iff bit_push_bit_iff bit_exp_iff min_def bit_1_iff\<close>)
  finally show ?thesis using b \<open>m < 31\<close> by blast
qed

lemma init_empty_list [abs_simps]:
  assumes "0 < unat sz" and "unat sz < 2 ^ 31" and "unat sz \<le> length mem"
  shows "q_wf (xq_init_empty sz mem q)" and "q_list (xq_init_empty sz mem q) = []"
    and "unlocked (q_lock (xq_init_empty sz mem q))"
    and "q_cap (xq_init_empty sz mem q) = unat (snap sz)"
proof -
  obtain k where k: "k < 31" "snap sz = 2 ^ k" "2 ^ k \<le> unat sz"
    using snap_eq [OF assms(1,2)] by blast
  let ?q = "xq_init_empty sz mem q"
  have c: "xq_count ?q = 0" by (simp add: xq_init_empty_def xq_count_def)
  then show "q_list ?q = []" by simp
  have "q_size ?q = 2 ^ k" "q_mem ?q = mem" by (simp_all add: xq_init_empty_def k)
  with c k(1,3) assms(3) show "q_wf ?q" by (auto simp: q_wf_def intro!: exI [of _ k])
  show "unlocked (q_lock ?q)" by (simp add: xq_init_empty_def)
  show "q_cap ?q = unat (snap sz)" by (simp add: xq_init_empty_def q_cap_def)
qed

lemma init_map_list:
  assumes "0 < unat sz" and "unat sz < 2 ^ 31" and "unat sz \<le> length mem"
    and n: "n = min (unat count) (unat (snap sz))"
  shows "q_wf (xq_init_map sz count f mem q)"
    and "q_len (xq_init_map sz count f mem q) = n"
    and "n < unat (snap sz) \<Longrightarrow> q_list (xq_init_map sz count f mem q) =
           map (\<lambda>i. if i < n then f (of_nat i) else mem ! n) [1..<Suc n]"
    and "n = unat (snap sz) \<Longrightarrow> q_list (xq_init_map sz count f mem q) =
           map (\<lambda>i. f (of_nat i)) ([1..<n] @ [0])"
proof -
  obtain k where k: "k < 31" "snap sz = 2 ^ k" "2 ^ k \<le> unat sz"
    using snap_eq [OF assms(1,2)] by blast
  have us: "unat (snap sz) = 2 ^ k" using k by (simp add: unat_pow2)
  let ?q = "xq_init_map sz count f mem q"
  let ?c = "if count > snap sz then snap sz else count"
  have cn: "unat ?c = n" by (simp add: n word_less_nat_alt min_def)
  have q: "q_size ?q = 2 ^ k" "q_tail ?q = 0"
      "q_mem ?q = fill (\<lambda>t. t) (\<lambda>t. f (of_nat t)) n mem" "xq_count ?q = ?c"
    by (simp_all add: xq_init_map_def Let_def xq_count_def flip: k(2) cn)
  show len: "q_len ?q = n" by (simp add: q_len_def q(4) cn)
  have nk: "n \<le> 2 ^ k" by (simp add: n us)
  show "q_wf ?q"
    using k nk assms(3) cn us q
    by (auto simp: q_wf_def word_le_nat_alt intro!: exI [of _ k])
  have kl: "2 ^ k \<le> length mem" using k(3) assms(3) by simp
  have el: "q_list ?q ! i = (if Suc i mod 2 ^ k < n then f (of_nat (Suc i mod 2 ^ k))
      else mem ! (Suc i mod 2 ^ k))" if "i < n" for i
  proof -
    have "q_slot ?q (q_tail ?q + 1 + of_nat i) = Suc i mod 2 ^ k"
      using q_slot_add [OF q(1), of 1 i] k(1) by (simp add: q(2))
    then have "q_list ?q ! i = fill (\<lambda>t. t) (\<lambda>t. f (of_nat t)) n mem ! (Suc i mod 2 ^ k)"
      using that len by (simp add: q_list_nth xq_element_def q(3))
    moreover have "fill (\<lambda>t. t) (\<lambda>t. f (of_nat t)) n mem ! j = f (of_nat j)" if "j < n" for j
      by (rule fill_nth [where f = "\<lambda>t. t"]) (use that nk kl in auto)
    ultimately show ?thesis by (auto simp: fill_other)
  qed
  show "q_list ?q = map (\<lambda>i. if i < n then f (of_nat i) else mem ! n) [1..<Suc n]"
    if "n < unat (snap sz)"
  proof (rule nth_equalityI)
    show "length (q_list ?q) = length (map (\<lambda>i. if i < n then f (of_nat i) else mem ! n) [1..<Suc n])"
      by (simp add: len)
    fix i assume "i < length (q_list ?q)"
    then have "i < n" by (simp add: len)
    then show "q_list ?q ! i = map (\<lambda>i. if i < n then f (of_nat i) else mem ! n) [1..<Suc n] ! i"
      using that us el [of i] by (auto simp: not_less_eq le_less_Suc_eq simp del: upt_Suc)
  qed
  show "q_list ?q = map (\<lambda>i. f (of_nat i)) ([1..<n] @ [0])" if "n = unat (snap sz)"
  proof (rule nth_equalityI)
    have n0: "0 < n" using that us by simp
    then show "length (q_list ?q) = length (map (\<lambda>i. f (of_nat i)) ([1..<n] @ [0]))"
      by (simp add: len)
    fix i assume "i < length (q_list ?q)"
    then have "i < n" by (simp add: len)
    then show "q_list ?q ! i = map (\<lambda>i. f (of_nat i)) ([1..<n] @ [0]) ! i"
      using that us el [of i] n0
      by (cases "Suc i = n") (auto simp: nth_append simp del: upt_Suc)
  qed
qed

lemma init_seq_map: "xq_init_seq sz count mem q = xq_init_map sz count (\<lambda>t. t) mem q"
  by (simp add: xq_init_seq_def xq_init_map_def Let_def)

section \<open>The queue is a bounded deque\<close>

interpretation xqd: bounded_deque raw_xq_append_head raw_xq_append_tail raw_xq_pop_head
  raw_xq_pop_tail q_list q_cap q_wf
proof
  fix q :: xq and x :: u64 and xs :: "u64 list"
  assume wf: "q_wf q"
  have cap: "q_cap (snd (op q)) = q_cap q" if "q_size (snd (op q)) = q_size q"
    for op :: "xq \<Rightarrow> u64 \<times> xq" using that by (simp add: q_cap_def)
  have ne: "xq_count q \<noteq> 0" if "q_list q \<noteq> []" using that by simp
  show "length (q_list q) \<le> q_cap q" using q_wf_len [OF wf] by simp
  show "length (q_list q) = q_cap q \<Longrightarrow>
      raw_xq_append_head q x = (Noneidx, q) \<and> raw_xq_append_tail q x = (Noneidx, q)"
    using wf by (simp add: append_head_full append_tail_full)
  show "length (q_list q) < q_cap q \<Longrightarrow>
      fst (raw_xq_append_head q x) = x \<and> q_list (snd (raw_xq_append_head q x)) = q_list q @ [x] \<and>
      q_cap (snd (raw_xq_append_head q x)) = q_cap q \<and> q_wf (snd (raw_xq_append_head q x))"
    using wf append_head_list [of q x] by (simp add: q_cap_def)
  show "length (q_list q) < q_cap q \<Longrightarrow>
      fst (raw_xq_append_tail q x) = x \<and> q_list (snd (raw_xq_append_tail q x)) = x # q_list q \<and>
      q_cap (snd (raw_xq_append_tail q x)) = q_cap q \<and> q_wf (snd (raw_xq_append_tail q x))"
    using wf append_tail_list [of q x] by (simp add: q_cap_def)
  show "q_list q = [] \<Longrightarrow> raw_xq_pop_head q = (Noneidx, q) \<and> raw_xq_pop_tail q = (Noneidx, q)"
    by (simp add: pop_empty)
  show "q_list q = xs @ [x] \<Longrightarrow>
      fst (raw_xq_pop_head q) = x \<and> q_list (snd (raw_xq_pop_head q)) = xs \<and>
      q_cap (snd (raw_xq_pop_head q)) = q_cap q \<and> q_wf (snd (raw_xq_pop_head q))"
    using pop_head_list [OF wf ne] cap [of raw_xq_pop_head] by auto
  show "q_list q = x # xs \<Longrightarrow>
      fst (raw_xq_pop_tail q) = x \<and> q_list (snd (raw_xq_pop_tail q)) = xs \<and>
      q_cap (snd (raw_xq_pop_tail q)) = q_cap q \<and> q_wf (snd (raw_xq_pop_tail q))"
    using pop_tail_list [OF wf ne] cap [of raw_xq_pop_tail] by auto
qed

text \<open>The lock field is not part of the abstract value.\<close>

lemma q_lock_irrelevant [simp]:
  "xq_count (q\<lparr>q_lock := l\<rparr>) = xq_count q" "q_list (q\<lparr>q_lock := l\<rparr>) = q_list q"
  "q_wf (q\<lparr>q_lock := l\<rparr>) = q_wf q" "q_len (q\<lparr>q_lock := l\<rparr>) = q_len q"
  "q_cap (q\<lparr>q_lock := l\<rparr>) = q_cap q"
  by (simp_all add: xq_count_def q_list_def q_len_def q_cap_def xq_element_def q_wf_def)

lemma with_lock_free:
  assumes "unlocked (q_lock q)"
  shows "\<exists>l. with_q_lock c f q =
    Some (fst (f (q\<lparr>q_lock := l\<rparr>)), (snd (f (q\<lparr>q_lock := l\<rparr>)))\<lparr>q_lock := free_lock\<rparr>)"
  using assms
  by (intro exI [of _ "\<lparr>lk_owner = caller_word c, lk_pc = c_pc c\<rparr>"])
    (simp add: with_q_lock_def split_beta Let_def)

lemma with_lock_held: "\<not> unlocked (q_lock q) \<Longrightarrow> with_q_lock c f q = None"
  by (simp add: with_q_lock_def)

section \<open>Properties\<close>

text \<open>
  Appends to a queue whose lock is free, at either end: the item is added at that end
  and returned while there is room; a full queue is unchanged and the answer is
  \<^verbatim>\<open>Noneidx\<close>. The queue stays well formed and its lock is free again.
\<close>

theorem xq_append_spec:
  assumes "q_wf q" and "unlocked (q_lock q)"
  shows "(\<exists>q'. xq_append_head c x q = Some (if q_len q < q_cap q then x else Noneidx, q') \<and>
            q_list q' = (if q_len q < q_cap q then q_list q @ [x] else q_list q) \<and>
            q_wf q' \<and> q_cap q' = q_cap q \<and> unlocked (q_lock q')) \<and>
         (\<exists>q'. xq_append_tail c x q = Some (if q_len q < q_cap q then x else Noneidx, q') \<and>
            q_list q' = (if q_len q < q_cap q then x # q_list q else q_list q) \<and>
            q_wf q' \<and> q_cap q' = q_cap q \<and> unlocked (q_lock q'))"
proof (cases "q_len q < q_cap q")
  case True
  from with_lock_free [OF assms(2), of c "\<lambda>q. raw_xq_append_head q x"]
    with_lock_free [OF assms(2), of c "\<lambda>q. raw_xq_append_tail q x"] True assms(1)
  show ?thesis
    by (auto simp: xq_append_head_def xq_append_tail_def xqd.app_head_room xqd.app_tail_room)
next
  case False
  then have "q_len q = q_cap q" using q_wf_len [OF assms(1)] by simp
  with with_lock_free [OF assms(2), of c "\<lambda>q. raw_xq_append_head q x"]
    with_lock_free [OF assms(2), of c "\<lambda>q. raw_xq_append_tail q x"] assms(1)
  show ?thesis
    by (auto simp: xq_append_head_def xq_append_tail_def append_head_full append_tail_full)
qed

text \<open>
  The queue of the witnesses: four slots, two items, and counters about to wrap (the tail is
  at \<open>2 ^ 64 - 2\<close>).
\<close>

definition demo_q :: xq where
  "demo_q = \<lparr>q_lock = free_lock, q_head = 1, q_tail = - 2, q_mem = [11, 12, 13, 14], q_size = 4\<rparr>"

definition demo_empty :: xq where
  "demo_empty = xq_init_empty 4 [0, 0, 0, 0] demo_q"

lemma demo_q_wf: "q_wf demo_q" "unlocked (q_lock demo_q)"
  by (auto simp: q_wf_def demo_q_def xq_count_def intro!: exI [of _ 2])

lemma demo_empty_wf: "q_wf demo_empty" "q_list demo_empty = []" "q_cap demo_empty = unat (snap 4)"
  "unlocked (q_lock demo_empty)"
  by (simp_all add: demo_empty_def init_empty_list)

lemma snap_4: "snap 4 = 4"
  by code_simp

lemma demo_q_list: "q_list demo_q = [14, 11]" "q_cap demo_q = 4" "q_len demo_q = 2"
  by (code_simp)+

theorem xq_append_spec_witness:
  "\<exists>q'. xq_append_tail (demo_caller 1) 5 demo_q = Some (5, q') \<and> q_list q' = [5, 14, 11]"
  using xq_append_spec [OF demo_q_wf, of "demo_caller 1" 5] demo_q_list by auto

text \<open>
  Pops from a queue whose lock is free: the item at that end is removed and returned; an
  empty queue is unchanged and the answer is \<^verbatim>\<open>Noneidx\<close>. A peek returns the same item
  and removes nothing.
\<close>

theorem xq_pop_spec:
  assumes "q_wf q" and "unlocked (q_lock q)"
  shows "(\<exists>q'. xq_pop_head c q = Some (if q_list q = [] then Noneidx else last (q_list q), q') \<and>
            q_list q' = butlast (q_list q) \<and> q_wf q' \<and> unlocked (q_lock q')) \<and>
         (\<exists>q'. xq_pop_tail c q = Some (if q_list q = [] then Noneidx else hd (q_list q), q') \<and>
            q_list q' = tl (q_list q) \<and> q_wf q' \<and> unlocked (q_lock q')) \<and>
         raw_xq_peek_head q = (if q_list q = [] then Noneidx else last (q_list q)) \<and>
         raw_xq_peek_tail q = (if q_list q = [] then Noneidx else hd (q_list q))"
proof (cases "xq_count q = 0")
  case True
  then have "q_list q = []" by simp
  with with_lock_free [OF assms(2), of c raw_xq_pop_head]
    with_lock_free [OF assms(2), of c raw_xq_pop_tail] True assms(1)
  show ?thesis by (auto simp: xq_pop_head_def xq_pop_tail_def pop_empty simp del: q_list_Nil)
next
  case False
  with with_lock_free [OF assms(2), of c raw_xq_pop_head]
    with_lock_free [OF assms(2), of c raw_xq_pop_tail] assms(1)
  show ?thesis
    by (auto simp: xq_pop_head_def xq_pop_tail_def pop_head_list pop_tail_list peek_list)
qed

theorem xq_pop_spec_witness:
  "\<exists>q'. xq_pop_head (demo_caller 1) demo_q = Some (11, q') \<and> q_list q' = [14]"
  using xq_pop_spec [OF demo_q_wf, of "demo_caller 1"] demo_q_list by auto

text \<open>
  C20. First in, first out: any list of at most \<open>q_cap\<close> items appended at the tail of an
  empty queue comes back from the head in the same order, wherever the counters stand, the
  wrap at \<open>2 ^ 64\<close> included.
\<close>

theorem xq_fifo:
  assumes "q_wf q" and "q_list q = []" and "length xs \<le> q_cap q"
  shows "fst (pop_n raw_xq_pop_head (length xs) (append_all raw_xq_append_tail q xs)) = xs"
  by (rule xqd.fifo [OF assms])

theorem xq_fifo_witness:
  "fst (pop_n raw_xq_pop_head 3 (append_all raw_xq_append_tail demo_empty [7, 8, 9])) = [7, 8, 9]"
  using xq_fifo [OF demo_empty_wf(1,2), of "[7, 8, 9]"] demo_empty_wf(3) snap_4
  by (simp add: numeral_3_eq_3)

text \<open>
  What \<^verbatim>\<open>xq_resize\<close> really does: all items are copied to the new queue in
  reversed order (the tail item ends up at the head), the old queue is unchanged, the count
  is returned. So a client that appends at the tail and pops at the head, and was to be
  served the oldest item first, is served the newest first after a resize.
\<close>

theorem xq_resize_reverses:
  assumes "q_wf q" and "unlocked (q_lock q)" and "q_wf newq" and "unlocked (q_lock newq)"
    and "q_list newq = []" and "q_len q \<le> q_cap newq"
  shows "\<exists>q' newq'. xq_resize c q newq = Some (xq_count q, q', newq') \<and>
           q_list q' = q_list q \<and> q_list newq' = rev (q_list q) \<and> q_wf newq' \<and>
           fst (pop_n raw_xq_pop_head (q_len q) q') = rev (q_list q) \<and>
           fst (pop_n raw_xq_pop_head (q_len q) newq') = q_list q"
proof -
  let ?l = "\<lparr>lk_owner = caller_word c, lk_pc = c_pc c\<rparr>"
  let ?q = "q\<lparr>q_lock := ?l\<rparr>" and ?n = "newq\<lparr>q_lock := ?l\<rparr>"
  let ?r = "snd (raw_xq_resize ?q ?n)\<lparr>q_lock := free_lock\<rparr>"
  have "q_len newq + q_len q \<le> q_cap newq"
    using assms(5,6) by (metis add_0 length_0_conv length_q_list)
  then have r: "fst (raw_xq_resize ?q ?n) = xq_count q" "q_list ?r = rev (q_list q)" "q_wf ?r"
    using raw_resize_list [of ?q ?n] assms(1,3,5) by simp_all
  have "xq_resize c q newq = Some (xq_count q, q\<lparr>q_lock := free_lock\<rparr>, ?r)"
    using r(1) assms(2,4) by (simp add: xq_resize_def split_beta Let_def)
  moreover have "q_len ?r = q_len q" using r(2) by (metis length_q_list length_rev)
  ultimately show ?thesis
    using r(2,3) assms(1) xqd.pop_n_head [of ?r "q_len q"]
      xqd.pop_n_head [of "q\<lparr>q_lock := free_lock\<rparr>" "q_len q"]
    by (auto simp: rev_swap)
qed

theorem xq_resize_reverses_witness:
  "\<exists>q' newq'. xq_resize (demo_caller 1) demo_q demo_empty = Some (2, q', newq') \<and>
     fst (pop_n raw_xq_pop_head 2 q') = [11, 14] \<and>
     fst (pop_n raw_xq_pop_head 2 newq') = [14, 11]"
proof -
  have "xq_count demo_q = 2" by code_simp
  with xq_resize_reverses [OF demo_q_wf demo_empty_wf(1,4,2), of "demo_caller 1"] demo_q_list
    demo_empty_wf(3) snap_4
  show ?thesis by auto
qed

text \<open>
  \<^verbatim>\<open>xq_head_to_tail\<close> moves exactly the \<open>nr\<close> items nearest the head of one queue,
  in order, to the tail of another, and answers 0; when one has too few or the other too
  little room it answers -1 and changes nothing.
\<close>

theorem xq_head_to_tail_spec:
  assumes "q_wf headq" and "q_wf tailq"
    and "unat nr + q_len tailq < 2 ^ 64"
    and "raw_xq_head_to_tail headq tailq nr = (r, headq', tailq')"
  shows "if unat nr \<le> q_len headq \<and> q_len tailq + unat nr \<le> q_cap tailq
     then r = 0 \<and> q_list headq' = take (q_len headq - unat nr) (q_list headq) \<and>
       q_list tailq' = drop (q_len headq - unat nr) (q_list headq) @ q_list tailq \<and>
       q_wf headq' \<and> q_wf tailq'
     else r = - 1 \<and> headq' = headq \<and> tailq' = tailq"
proof (cases "unat nr \<le> q_len headq \<and> q_len tailq + unat nr \<le> q_cap tailq")
  case True
  with raw_head_to_tail_list [OF assms(1,2) _ _ assms(4)] show ?thesis by simp
next
  case False
  have "unat (xq_count tailq + nr) = q_len tailq + unat nr"
    using assms(3) by (simp add: unat_word_ariths q_len_def)
  with False assms(4) show ?thesis
    by (auto simp: raw_xq_head_to_tail_def word_less_nat_alt q_len_def q_cap_def)
qed

theorem xq_head_to_tail_spec_witness:
  "case raw_xq_head_to_tail demo_q demo_empty 1 of
     (r, hq, tq) \<Rightarrow> r = 0 \<and> q_list hq = [14] \<and> q_list tq = [11]"
proof -
  obtain r hq tq where e: "raw_xq_head_to_tail demo_q demo_empty 1 = (r, hq, tq)"
    by (metis prod_cases3)
  have z: "q_len demo_empty = 0" using demo_empty_wf(2) by (metis length_0_conv length_q_list)
  have "unat (1 :: u64) + q_len demo_empty < 2 ^ 64" by (simp add: z)
  from xq_head_to_tail_spec [OF demo_q_wf(1) demo_empty_wf(1) this e]
  show ?thesis using z demo_q_list demo_empty_wf(2,3) snap_4 by (simp add: e)
qed

text \<open>
  \<^verbatim>\<open>xq_init_seq\<close> with a count that fills the queue: the queue holds each of
  \<open>0, ..., n - 1\<close> exactly once, 0 at the head. This is the use in \<^verbatim>\<open>xcache_init\<close>.
\<close>

theorem xq_init_seq_full:
  assumes "0 < unat sz" and "unat sz < 2 ^ 31" and "unat sz \<le> length mem"
    and "unat (snap sz) \<le> unat count"
  shows "q_wf (xq_init_seq sz count mem q) \<and>
    q_list (xq_init_seq sz count mem q) = map of_nat ([1..<unat (snap sz)] @ [0]) \<and>
    xq_count (xq_init_seq sz count mem q) = snap sz"
proof -
  let ?n = "unat (snap sz)"
  have n: "?n = min (unat count) ?n" using assms(4) by simp
  note m = init_map_list [OF assms(1-3) n, of "\<lambda>t. t" q]
  have "xq_count (xq_init_map sz count (\<lambda>t. t) mem q) = of_nat ?n"
    using m(2) by (metis q_count_len)
  with m(1) m(4) show ?thesis by (simp add: init_seq_map)
qed

theorem xq_init_seq_full_witness:
  "q_list (xq_init_seq 4 9 [0, 0, 0, 0] demo_q) = [1, 2, 3, 0]"
  using xq_init_seq_full [of 4 "[0, 0, 0, 0]" 9 demo_q] snap_4 by (simp add: upt_conv_Cons)

text \<open>
  \<^verbatim>\<open>xq_init_seq\<close> with a smaller count does not give the sequence: the values are
  written to slots \<open>0, ..., count - 1\<close> but the positions of the queue start at 1, so the
  value 0 is lost and the head item is whatever the memory held in slot \<open>count\<close>.
\<close>

theorem xq_init_seq_partial:
  assumes "0 < unat sz" and "unat sz < 2 ^ 31" and "unat sz \<le> length mem"
    and "0 < unat count" and "unat count < unat (snap sz)"
  shows "q_list (xq_init_seq sz count mem q) =
      map of_nat [1..<unat count] @ [mem ! unat count]"
proof -
  have n: "unat count = min (unat count) (unat (snap sz))" using assms(5) by simp
  from init_map_list(3) [OF assms(1-3) n, of "\<lambda>t. t" q] assms(4,5)
  show ?thesis by (simp add: init_seq_map)
qed

theorem xq_init_seq_partial_witness:
  "q_list (xq_init_seq 4 2 [90, 91, 92, 93] demo_q) = [1, 92]"
  using xq_init_seq_partial [of 4 "[90, 91, 92, 93]" 2 demo_q] snap_4 by (simp add: upt_conv_Cons)

text \<open>
  \<^verbatim>\<open>__snap\<close> rounds a size down to a power of two, for sizes from 1 to
  \<open>2 ^ 31 - 1\<close>.
\<close>

theorem xq_snap_spec:
  assumes "0 < unat sz" and "unat sz < 2 ^ 31"
  shows "\<exists>k<31. snap sz = 2 ^ k \<and> 2 ^ k \<le> unat sz \<and> unat sz < 2 ^ Suc k"
  by (rule snap_eq [OF assms])

theorem xq_snap_spec_witness: "\<exists>k<31. snap 100 = 2 ^ k \<and> 2 ^ k \<le> (100::nat) \<and> 100 < (2::nat) ^ Suc k"
  using xq_snap_spec [of 100] by simp

text \<open>
  \<^verbatim>\<open>__xq_check\<close> answers whether the item is in the queue; its loop, which runs
  until the position equals the head, stops for every queue.
\<close>

theorem xq_check_spec: "raw_xq_check q idx \<longleftrightarrow> idx \<in> set (q_list q)"
  by (rule raw_check_iff)

end
