(* ===== verification/Xpool.thy ===== *)
theory Xpool
  imports Xlock
begin

text \<open>
  The index pool of \<^verbatim>\<open>xtypes/xpool.c\<close>: an array of nodes, of which some are linked
  into a circular doubly linked list of used entries and the others into a singly linked
  free list. Indices are naturals with \<^verbatim>\<open>NoIndex\<close> the all-ones 64-bit value; the code
  only compares and stores them. The abstraction is the list of used indices in order,
  starting at \<^verbatim>\<open>xp->list\<close>, and the list of free ones.
\<close>

section \<open>Data and operations\<close>

definition NoIndex :: nat where "NoIndex = 2 ^ 64 - 1"

record xpool_node =
  pn_data :: u64
  pn_next :: nat
  pn_prev :: nat

record xpool =
  xp_lock :: xlock
  xp_list :: nat
  xp_free :: nat
  xp_size :: nat
  xp_mem :: "xpool_node list"

definition upd_node :: "nat \<Rightarrow> (xpool_node \<Rightarrow> xpool_node) \<Rightarrow> xpool \<Rightarrow> xpool" where
  "upd_node i f xp = xp\<lparr>xp_mem := (xp_mem xp)[i := f (xp_mem xp ! i)]\<rparr>"

definition validate_idx :: "xpool \<Rightarrow> nat \<Rightarrow> bool" where
  "validate_idx xp idx \<longleftrightarrow> idx < xp_size xp \<and> pn_prev (xp_mem xp ! idx) \<noteq> NoIndex"

text \<open>
  The loop of \<^verbatim>\<open>__xpool_clear\<close>, then the last node. A size of 0 makes the code write
  before the array; the theorems assume a positive size.
\<close>

definition raw_xpool_clear :: "xpool \<Rightarrow> xpool" where
  "raw_xpool_clear xp =
     (let n = xp_size xp;
          xp = xp\<lparr>xp_list := NoIndex\<rparr>;
          xp = fold (\<lambda>i. upd_node (i - 1) (\<lambda>v. v\<lparr>pn_prev := NoIndex, pn_next := i\<rparr>)) [1..<n] xp;
          xp = upd_node (n - 1) (\<lambda>v. v\<lparr>pn_prev := NoIndex, pn_next := NoIndex\<rparr>) xp
      in xp\<lparr>xp_free := 0\<rparr>)"

definition xpool_init :: "nat \<Rightarrow> xpool_node list \<Rightarrow> xpool \<Rightarrow> xpool" where
  "xpool_init n mem xp =
     (let xp = xp\<lparr>xp_size := n, xp_mem := mem\<rparr>;
          xp = xp\<lparr>xp_lock := xlock_release (xp_lock xp)\<rparr>
      in raw_xpool_clear xp)"

definition raw_xpool_add :: "u64 \<Rightarrow> xpool \<Rightarrow> nat \<times> xpool" where
  "raw_xpool_add data xp =
     (let idx = xp_free xp in
      if idx = NoIndex then (NoIndex, xp)
      else let xp = xp\<lparr>xp_free := pn_next (xp_mem xp ! idx)\<rparr>;
               xp = upd_node idx (\<lambda>v. v\<lparr>pn_data := data\<rparr>) xp
           in if xp_list xp \<noteq> NoIndex
              then let l = xp_list xp; lprev = pn_prev (xp_mem xp ! l);
                       xp = upd_node idx (\<lambda>v. v\<lparr>pn_next := l, pn_prev := lprev\<rparr>) xp;
                       xp = upd_node (pn_prev (xp_mem xp ! l)) (\<lambda>v. v\<lparr>pn_next := idx\<rparr>) xp
                   in (idx, upd_node l (\<lambda>v. v\<lparr>pn_prev := idx\<rparr>) xp)
              else let xp = upd_node idx (\<lambda>v. v\<lparr>pn_next := idx, pn_prev := idx\<rparr>) xp
                   in (idx, xp\<lparr>xp_list := idx\<rparr>))"

text \<open>The second result is what is written to \<^verbatim>\<open>*data\<close>; \<open>None\<close> when nothing is.\<close>

definition raw_xpool_remove :: "nat \<Rightarrow> xpool \<Rightarrow> (nat \<times> u64 option) \<times> xpool" where
  "raw_xpool_remove idx xp =
     (if \<not> validate_idx xp idx then ((NoIndex, None), xp)
      else let data = pn_data (xp_mem xp ! idx);
               xp = (if idx = xp_list xp
                     then if idx = pn_next (xp_mem xp ! idx) then xp\<lparr>xp_list := NoIndex\<rparr>
                          else xp\<lparr>xp_list := pn_next (xp_mem xp ! idx)\<rparr>
                     else xp);
               xp = upd_node (pn_prev (xp_mem xp ! idx))
                      (\<lambda>v. v\<lparr>pn_next := pn_next (xp_mem xp ! idx)\<rparr>) xp;
               xp = upd_node (pn_next (xp_mem xp ! idx))
                      (\<lambda>v. v\<lparr>pn_prev := pn_prev (xp_mem xp ! idx)\<rparr>) xp;
               xp = upd_node idx (\<lambda>v. v\<lparr>pn_prev := NoIndex, pn_next := xp_free xp\<rparr>) xp
           in ((idx, Some data), xp\<lparr>xp_free := idx\<rparr>))"

definition raw_xpool_peek :: "xpool \<Rightarrow> (nat \<times> u64 option) \<times> xpool" where
  "raw_xpool_peek xp =
     (if xp_list xp = NoIndex then ((NoIndex, None), xp)
      else ((xp_list xp, Some (pn_data (xp_mem xp ! xp_list xp))), xp))"

definition raw_xpool_peek_idx :: "nat \<Rightarrow> xpool \<Rightarrow> (nat \<times> u64 option) \<times> xpool" where
  "raw_xpool_peek_idx idx xp =
     (if \<not> validate_idx xp idx then ((NoIndex, None), xp)
      else ((idx, Some (pn_data (xp_mem xp ! idx))), xp))"

definition raw_xpool_peek_and_fwd :: "xpool \<Rightarrow> (nat \<times> u64 option) \<times> xpool" where
  "raw_xpool_peek_and_fwd xp =
     (if xp_list xp = NoIndex then ((NoIndex, None), xp)
      else let ret = xp_list xp; node = xp_mem xp ! ret
           in ((ret, Some (pn_data node)), xp\<lparr>xp_list := pn_next node\<rparr>))"

definition raw_xpool_set_idx :: "nat \<Rightarrow> u64 \<Rightarrow> xpool \<Rightarrow> nat \<times> xpool" where
  "raw_xpool_set_idx idx data xp =
     (if \<not> validate_idx xp idx then (NoIndex, xp)
      else (idx, upd_node idx (\<lambda>v. v\<lparr>pn_data := data\<rparr>) xp))"

definition with_xp_lock :: "caller \<Rightarrow> (xpool \<Rightarrow> 'r \<times> xpool) \<Rightarrow> xpool \<Rightarrow> ('r \<times> xpool) option" where
  "with_xp_lock c f xp =
     (case xlock_acquire c (xp_lock xp) of None \<Rightarrow> None
      | Some l \<Rightarrow> let (r, xp) = f (xp\<lparr>xp_lock := l\<rparr>)
                 in Some (r, xp\<lparr>xp_lock := xlock_release (xp_lock xp)\<rparr>))"

definition xpool_clear :: "caller \<Rightarrow> xpool \<Rightarrow> (unit \<times> xpool) option" where
  "xpool_clear c = with_xp_lock c (\<lambda>xp. ((), raw_xpool_clear xp))"

definition xpool_add :: "caller \<Rightarrow> u64 \<Rightarrow> xpool \<Rightarrow> (nat \<times> xpool) option" where
  "xpool_add c data = with_xp_lock c (raw_xpool_add data)"

definition xpool_remove :: "caller \<Rightarrow> nat \<Rightarrow> xpool \<Rightarrow> ((nat \<times> u64 option) \<times> xpool) option" where
  "xpool_remove c idx = with_xp_lock c (raw_xpool_remove idx)"

definition xpool_peek :: "caller \<Rightarrow> xpool \<Rightarrow> ((nat \<times> u64 option) \<times> xpool) option" where
  "xpool_peek c = with_xp_lock c raw_xpool_peek"

definition xpool_peek_idx :: "caller \<Rightarrow> nat \<Rightarrow> xpool \<Rightarrow> ((nat \<times> u64 option) \<times> xpool) option" where
  "xpool_peek_idx c idx = with_xp_lock c (raw_xpool_peek_idx idx)"

definition xpool_peek_and_fwd :: "caller \<Rightarrow> xpool \<Rightarrow> ((nat \<times> u64 option) \<times> xpool) option" where
  "xpool_peek_and_fwd c = with_xp_lock c raw_xpool_peek_and_fwd"

definition xpool_set_idx :: "caller \<Rightarrow> nat \<Rightarrow> u64 \<Rightarrow> xpool \<Rightarrow> (nat \<times> xpool) option" where
  "xpool_set_idx c idx data = with_xp_lock c (raw_xpool_set_idx idx data)"

section \<open>Chains and cycles\<close>

text \<open>
  \<open>chain nx xs e\<close>: every element of \<open>xs\<close> points to the next one and the last to \<open>e\<close>.
  A cycle is a chain in both directions that ends where it starts.
\<close>

fun chain :: "(nat \<Rightarrow> nat) \<Rightarrow> nat list \<Rightarrow> nat \<Rightarrow> bool" where
  "chain nx [] e \<longleftrightarrow> True"
| "chain nx (x # xs) e \<longleftrightarrow> nx x = hd (xs @ [e]) \<and> chain nx xs e"

definition cycle :: "(nat \<Rightarrow> nat) \<Rightarrow> (nat \<Rightarrow> nat) \<Rightarrow> nat list \<Rightarrow> bool" where
  "cycle nx pv xs \<longleftrightarrow> (xs \<noteq> [] \<longrightarrow> chain nx xs (hd xs) \<and> chain pv (rev xs) (last xs))"

lemma chain_append: "chain nx (xs @ ys) e \<longleftrightarrow> chain nx xs (hd (ys @ [e])) \<and> chain nx ys e"
  by (induction xs) (auto simp: hd_append)

lemma chain_cong: "(\<And>x. x \<in> set xs \<Longrightarrow> nx' x = nx x) \<Longrightarrow> chain nx' xs e = chain nx xs e"
  by (induction xs) auto

lemma chain_last: "xs \<noteq> [] \<Longrightarrow> chain nx xs e \<Longrightarrow> nx (last xs) = e"
  by (induction xs) (auto split: if_splits)

lemma chain_redirect:
  assumes "chain nx xs e" and "distinct xs" and "xs \<noteq> [] \<Longrightarrow> nx' (last xs) = e'"
    and "\<And>x. x \<in> set (butlast xs) \<Longrightarrow> nx' x = nx x"
  shows "chain nx' xs e'"
proof (cases "xs = []")
  case False
  then obtain ys y where xs: "xs = ys @ [y]" by (metis append_butlast_last_id)
  have "chain nx' ys y = chain nx ys y"
    by (rule chain_cong) (use assms(4) xs in auto)
  with assms(1,3) xs show ?thesis by (simp add: chain_append)
qed simp

lemma cycle_rotate: "cycle nx pv (xs @ ys) \<Longrightarrow> cycle nx pv (ys @ xs)"
  by (cases xs rule: rev_cases; cases ys rule: rev_cases; cases xs; cases ys)
    (auto simp: cycle_def chain_append hd_append)

lemma cycle_single [simp]: "cycle nx pv [x] \<longleftrightarrow> nx x = x \<and> pv x = x"
  by (simp add: cycle_def)

lemma cycle_hd:
  assumes "cycle nx pv (x # xs)" and "xs \<noteq> []"
  shows "nx x = hd xs" and "pv x = last xs" and "nx (last xs) = x" and "pv (hd xs) = x"
proof -
  from assms show "nx x = hd xs" by (cases xs) (auto simp: cycle_def)
  from assms show "nx (last xs) = x" using chain_last [of xs nx x] by (simp add: cycle_def)
  from assms show "pv x = last xs" by (simp add: cycle_def chain_append)
  from assms obtain y ys where xs: "xs = y # ys" by (cases xs) auto
  with assms show "pv (hd xs) = x" by (simp add: cycle_def chain_append)
qed

text \<open>Taking the first element out of a cycle, and putting one in before the first.\<close>

lemma cycle_unlink:
  assumes "cycle nx pv (x # xs)" and "xs \<noteq> []" and "distinct (x # xs)"
    and "nx' (last xs) = hd xs" and "pv' (hd xs) = last xs"
    and "\<And>y. y \<in> set (butlast xs) \<Longrightarrow> nx' y = nx y"
    and "\<And>y. y \<in> set (tl xs) \<Longrightarrow> pv' y = pv y"
  shows "cycle nx' pv' xs"
proof -
  have "chain nx xs x" "chain pv (rev xs) x"
    using assms(1) by (simp_all add: cycle_def chain_append)
  note c = this
  have "chain nx' xs (hd xs)"
    by (rule chain_redirect [OF c(1)]) (use assms(3) in \<open>simp_all add: assms(4,6)\<close>)
  moreover have "chain pv' (rev xs) (last xs)"
    by (rule chain_redirect [OF c(2)])
      (use assms(3) in \<open>simp_all add: last_rev butlast_rev assms(5,7)\<close>)
  ultimately show ?thesis by (simp add: cycle_def)
qed

lemma cycle_link:
  assumes "cycle nx pv xs" and "xs \<noteq> []" and "distinct (xs @ [x])"
    and "nx' x = hd xs" and "pv' x = last xs" and "nx' (last xs) = x" and "pv' (hd xs) = x"
    and "\<And>y. y \<in> set (butlast xs) \<Longrightarrow> nx' y = nx y"
    and "\<And>y. y \<in> set (tl xs) \<Longrightarrow> pv' y = pv y"
  shows "cycle nx' pv' (xs @ [x])"
proof -
  have "chain nx xs (hd xs)" "chain pv (rev xs) (last xs)"
    using assms(1,2) by (simp_all add: cycle_def)
  note c = this
  have "chain nx' xs x"
    by (rule chain_redirect [OF c(1)]) (use assms(3) in \<open>simp_all add: assms(6,8)\<close>)
  moreover have "chain pv' (rev xs) x"
    by (rule chain_redirect [OF c(2)])
      (use assms(3) in \<open>simp_all add: last_rev butlast_rev assms(7,9)\<close>)
  ultimately show ?thesis using assms(2,4,5) by (simp add: cycle_def chain_append hd_append hd_rev)
qed

section \<open>The abstraction\<close>

definition nx :: "xpool \<Rightarrow> nat \<Rightarrow> nat" where "nx xp i = pn_next (xp_mem xp ! i)"
definition pv :: "xpool \<Rightarrow> nat \<Rightarrow> nat" where "pv xp i = pn_prev (xp_mem xp ! i)"
definition dt :: "xpool \<Rightarrow> nat \<Rightarrow> u64" where "dt xp i = pn_data (xp_mem xp ! i)"

text \<open>
  \<open>pool_rep xp us fs\<close>: the used indices, in list order, are \<open>us\<close>, the free ones are
  \<open>fs\<close>, and every index of the array is in exactly one of the two.
\<close>

definition pool_rep :: "xpool \<Rightarrow> nat list \<Rightarrow> nat list \<Rightarrow> bool" where
  "pool_rep xp us fs \<longleftrightarrow>
     xp_size xp = length (xp_mem xp) \<and> xp_size xp \<le> NoIndex \<and>
     distinct (us @ fs) \<and> set (us @ fs) = {..<xp_size xp} \<and>
     xp_list xp = hd (us @ [NoIndex]) \<and> cycle (nx xp) (pv xp) us \<and>
     xp_free xp = hd (fs @ [NoIndex]) \<and> chain (nx xp) fs NoIndex \<and>
     (\<forall>i\<in>set fs. pv xp i = NoIndex)"

lemma upd_node_fields [simp]:
  "xp_list (upd_node i f xp) = xp_list xp" "xp_free (upd_node i f xp) = xp_free xp"
  "xp_size (upd_node i f xp) = xp_size xp" "xp_lock (upd_node i f xp) = xp_lock xp"
  "length (xp_mem (upd_node i f xp)) = length (xp_mem xp)"
  by (simp_all add: upd_node_def)

lemma upd_node_nth [simp]:
  "i < length (xp_mem xp) \<Longrightarrow>
   xp_mem (upd_node i f xp) ! j = (if j = i then f (xp_mem xp ! i) else xp_mem xp ! j)"
  by (simp add: upd_node_def)

lemma links_fields [simp]:
  "nx (xp\<lparr>xp_list := l\<rparr>) = nx xp" "pv (xp\<lparr>xp_list := l\<rparr>) = pv xp"
  "nx (xp\<lparr>xp_free := l\<rparr>) = nx xp" "pv (xp\<lparr>xp_free := l\<rparr>) = pv xp"
  "nx (xp\<lparr>xp_lock := k\<rparr>) = nx xp" "pv (xp\<lparr>xp_lock := k\<rparr>) = pv xp"
  "dt (xp\<lparr>xp_list := l\<rparr>) = dt xp" "dt (xp\<lparr>xp_free := l\<rparr>) = dt xp"
  "dt (xp\<lparr>xp_lock := k\<rparr>) = dt xp"
  by (simp_all add: nx_def pv_def dt_def fun_eq_iff)

lemma rep_length:
  assumes "pool_rep xp us fs"
  shows "length us + length fs = xp_size xp"
proof -
  from assms have "distinct (us @ fs)" "set (us @ fs) = {..<xp_size xp}" by (simp_all only: pool_rep_def)
  then have "length (us @ fs) = card {..<xp_size xp}" by (metis distinct_card)
  then show ?thesis by simp
qed

lemma cycle_closed:
  assumes "cycle f g us" and "x \<in> set us"
  shows "f x \<in> set us" and "g x \<in> set us"
proof -
  from assms(2) obtain as bs where us: "us = as @ x # bs" by (meson split_list)
  with assms(1) have c: "cycle f g (x # bs @ as)" using cycle_rotate [of f g as "x # bs"] by simp
  have "f x \<in> set (x # bs @ as) \<and> g x \<in> set (x # bs @ as)"
  proof (cases "bs @ as = []")
    case True
    with c show ?thesis by simp
  next
    case False
    from cycle_hd(1,2) [OF c False] False
    have "f x \<in> set (bs @ as)" "g x \<in> set (bs @ as)" by (metis hd_in_set, metis last_in_set)
    then show ?thesis by simp
  qed
  then show "f x \<in> set us" "g x \<in> set us" by (auto simp: us)
qed

lemma rep_in_range: "pool_rep xp us fs \<Longrightarrow> i \<in> set us \<or> i \<in> set fs \<Longrightarrow> i < length (xp_mem xp)"
  by (auto simp: pool_rep_def)

lemma rep_validate:
  assumes "pool_rep xp us fs"
  shows "validate_idx xp idx \<longleftrightarrow> idx \<in> set us"
proof
  assume "validate_idx xp idx"
  then have "idx < xp_size xp" "pv xp idx \<noteq> NoIndex" by (simp_all add: validate_idx_def pv_def)
  then show "idx \<in> set us" using assms by (auto simp: pool_rep_def)
next
  assume u: "idx \<in> set us"
  then have "pv xp idx \<in> set us" using assms cycle_closed(2) by (auto simp: pool_rep_def)
  then have "pv xp idx < xp_size xp" using assms by (auto simp: pool_rep_def)
  with assms u show "validate_idx xp idx" by (auto simp: validate_idx_def pv_def pool_rep_def)
qed

lemma rep_not_NoIndex: "pool_rep xp us fs \<Longrightarrow> i \<in> set us \<or> i \<in> set fs \<Longrightarrow> i \<noteq> NoIndex"
  using rep_in_range [of xp us fs i] by (auto simp: pool_rep_def)

lemma rep_list_NoIndex:
  assumes "pool_rep xp us fs"
  shows "xp_list xp = NoIndex \<longleftrightarrow> us = []" and "xp_free xp = NoIndex \<longleftrightarrow> fs = []"
proof -
  have l: "xp_list xp = hd (us @ [NoIndex])" "xp_free xp = hd (fs @ [NoIndex])"
    using assms by (simp_all add: pool_rep_def)
  show "xp_list xp = NoIndex \<longleftrightarrow> us = []"
    using rep_not_NoIndex [OF assms, of "hd us"] by (cases us) (simp_all add: l)
  show "xp_free xp = NoIndex \<longleftrightarrow> fs = []"
    using rep_not_NoIndex [OF assms, of "hd fs"] by (cases fs) (simp_all add: l)
qed

subsection \<open>Clearing\<close>

lemma clear_fold:
  assumes "n = xp_size xp" and "n = length (xp_mem xp)" and "Suc k \<le> n"
  defines "xp' \<equiv> fold (\<lambda>i. upd_node (i - 1) (\<lambda>v. v\<lparr>pn_prev := NoIndex, pn_next := i\<rparr>)) [1..<Suc k] xp"
  shows "length (xp_mem xp') = n \<and> xp_size xp' = n \<and> xp_list xp' = xp_list xp \<and>
    xp_lock xp' = xp_lock xp \<and> (\<forall>j<k. nx xp' j = Suc j \<and> pv xp' j = NoIndex)"
  unfolding xp'_def using assms(3)
proof (induction k)
  case 0
  then show ?case using assms(1,2) by simp
next
  case (Suc k)
  let ?f = "\<lambda>i. upd_node (i - 1) (\<lambda>v. v\<lparr>pn_prev := NoIndex, pn_next := i\<rparr>)"
  define y where "y = fold ?f [1..<Suc k] xp"
  from Suc have y: "length (xp_mem y) = n" "xp_size y = n" "xp_list y = xp_list xp"
    "xp_lock y = xp_lock xp" "\<forall>j<k. nx y j = Suc j \<and> pv y j = NoIndex"
    by (simp_all add: y_def)
  have "fold ?f [1..<Suc (Suc k)] xp = ?f (Suc k) y" by (simp add: y_def)
  with y Suc.prems show ?case by (auto simp: nx_def pv_def less_Suc_eq)
qed

lemma chain_upt:
  assumes "\<And>j. j < n \<Longrightarrow> Suc j < n \<Longrightarrow> f j = Suc j" and "0 < n \<Longrightarrow> f (n - 1) = e"
  shows "chain f [0..<n] e"
  using assms
proof (induction n arbitrary: e)
  case (Suc n)
  show ?case
  proof (cases n)
    case (Suc m)
    have "chain f [0..<n] n" by (rule Suc.IH) (use Suc.prems \<open>n = Suc m\<close> in auto)
    with Suc.prems(2) show ?thesis by (simp add: chain_append)
  qed (use Suc.prems in simp)
qed simp

lemma clear_rep [abs_simps]:
  assumes "xp_size xp = length (xp_mem xp)" and "0 < xp_size xp" and "xp_size xp \<le> NoIndex"
  shows "pool_rep (raw_xpool_clear xp) [] [0..<xp_size xp]"
    and "xp_lock (raw_xpool_clear xp) = xp_lock xp"
proof -
  let ?n = "xp_size xp" and ?x = "xp\<lparr>xp_list := NoIndex\<rparr>"
  let ?f = "\<lambda>i. upd_node (i - 1) (\<lambda>v. v\<lparr>pn_prev := NoIndex, pn_next := i\<rparr>)"
  define y where "y = fold ?f [1..<?n] ?x"
  from assms(2) obtain k where k: "?n = Suc k" by (cases ?n) auto
  have "length (xp_mem y) = ?n \<and> xp_size y = ?n \<and> xp_list y = xp_list ?x \<and>
      xp_lock y = xp_lock ?x \<and> (\<forall>j<k. nx y j = Suc j \<and> pv y j = NoIndex)"
    unfolding y_def k using assms(1) k by (intro clear_fold) simp_all
  then have y: "length (xp_mem y) = ?n" "xp_size y = ?n" "xp_list y = NoIndex"
    "xp_lock y = xp_lock xp" "\<forall>j<?n - 1. nx y j = Suc j \<and> pv y j = NoIndex"
    by (simp_all add: k)
  let ?z = "upd_node (?n - 1) (\<lambda>v. v\<lparr>pn_prev := NoIndex, pn_next := NoIndex\<rparr>) y"
  have c: "raw_xpool_clear xp = ?z\<lparr>xp_free := 0\<rparr>"
    by (simp add: raw_xpool_clear_def Let_def y_def)
  have z: "\<And>j. j < ?n \<Longrightarrow> Suc j < ?n \<Longrightarrow> nx ?z j = Suc j" "nx ?z (?n - 1) = NoIndex"
    "\<And>j. j < ?n \<Longrightarrow> pv ?z j = NoIndex"
    using y(1,5) assms(2) by (auto simp: nx_def pv_def)
  have "chain (nx ?z) [0..<?n] NoIndex" by (rule chain_upt) (use z in auto)
  then show "pool_rep (raw_xpool_clear xp) [] [0..<?n]"
    using y assms z(3) by (auto simp: pool_rep_def c cycle_def hd_append)
  show "xp_lock (raw_xpool_clear xp) = xp_lock xp" by (simp add: c y)
qed

subsection \<open>Adding and removing\<close>

lemma add_rep [abs_simps]:
  assumes rep: "pool_rep xp us (f # fs)"
  shows "fst (raw_xpool_add d xp) = f"
    and "pool_rep (snd (raw_xpool_add d xp)) (us @ [f]) fs"
    and "dt (snd (raw_xpool_add d xp)) = (dt xp)(f := d)"
proof -
  let ?n = "length (xp_mem xp)"
  have fr: "xp_free xp = f" "f < ?n" "f \<noteq> NoIndex" "f \<notin> set us" "f \<notin> set fs"
    using rep rep_in_range [OF rep, of f] rep_not_NoIndex [OF rep, of f]
    by (simp_all add: pool_rep_def)
  have fn: "nx xp f = hd (fs @ [NoIndex])"
    using rep by (simp add: pool_rep_def)
  show "fst (raw_xpool_add d xp) = f" using fr by (simp add: raw_xpool_add_def Let_def)
  have goal: "pool_rep (snd (raw_xpool_add d xp)) (us @ [f]) fs \<and>
      dt (snd (raw_xpool_add d xp)) = (dt xp)(f := d)"
  proof (cases us)
    case Nil
    let ?x = "upd_node f (\<lambda>v. v\<lparr>pn_next := f, pn_prev := f\<rparr>)
      (upd_node f (\<lambda>v. v\<lparr>pn_data := d\<rparr>) (xp\<lparr>xp_free := pn_next (xp_mem xp ! f)\<rparr>))"
    have e: "snd (raw_xpool_add d xp) = ?x\<lparr>xp_list := f\<rparr>"
      using fr rep_list_NoIndex(1) [OF rep] Nil by (simp add: raw_xpool_add_def Let_def)
    have l: "nx ?x i = (if i = f then f else nx xp i)" "pv ?x i = (if i = f then f else pv xp i)"
      "dt ?x i = (if i = f then d else dt xp i)" for i
      using fr(2) by (simp_all add: nx_def pv_def dt_def)
    have "chain (nx ?x) fs NoIndex = chain (nx xp) fs NoIndex"
      by (rule chain_cong) (use fr l in auto)
    with rep Nil fr fn l show ?thesis
      by (auto simp: pool_rep_def e nx_def [of xp f] fun_eq_iff)
  next
    case (Cons a as)
    have ua: "xp_list xp = a" "a < ?n" "a \<noteq> NoIndex" "a \<noteq> f"
      using rep rep_in_range [OF rep, of a] rep_not_NoIndex [OF rep, of a] fr(4) Cons
      by (simp_all add: pool_rep_def)
    have cyc: "cycle (nx xp) (pv xp) us" and du: "distinct us"
      using rep by (simp_all add: pool_rep_def)
    have z: "pv xp a = last us"
      using cyc Cons cycle_hd(2) [of "nx xp" "pv xp" a as] by (cases as) auto
    have zr: "last us < ?n" "last us \<in> set us" "last us \<noteq> f"
      using rep_in_range [OF rep, of "last us"] Cons fr(4) by (auto split: if_splits)
    define y where "y = upd_node a (\<lambda>v. v\<lparr>pn_prev := f\<rparr>)
      (upd_node (last us) (\<lambda>v. v\<lparr>pn_next := f\<rparr>)
        (upd_node f (\<lambda>v. v\<lparr>pn_next := a, pn_prev := last us\<rparr>)
          (upd_node f (\<lambda>v. v\<lparr>pn_data := d\<rparr>) (xp\<lparr>xp_free := pn_next (xp_mem xp ! f)\<rparr>))))"
    have e: "snd (raw_xpool_add d xp) = y"
      using fr ua z by (simp add: raw_xpool_add_def Let_def pv_def y_def)
    have l: "nx y i = (if i = last us then f else if i = f then a else nx xp i)"
      "pv y i = (if i = a then f else if i = f then last us else pv xp i)"
      "dt y i = (if i = f then d else dt xp i)" for i
      using fr(2) ua(2,4) zr by (simp_all add: nx_def pv_def dt_def y_def)
    have fl: "xp_size y = xp_size xp" "xp_list y = xp_list xp" "xp_free y = nx xp f"
      "length (xp_mem y) = length (xp_mem xp)"
      by (simp_all add: y_def nx_def)
    have "cycle (nx y) (pv y) (us @ [f])"
    proof (rule cycle_link [OF cyc])
      have "last us \<notin> set (butlast us)"
        using du Cons by (metis append_butlast_last_id distinct_append disjoint_iff
            list.distinct(1) list.set_intros(1))
      then show "nx y v = nx xp v" if "v \<in> set (butlast us)" for v
        using that fr(4) in_set_butlastD [OF that] by (auto simp: l)
      show "pv y v = pv xp v" if "v \<in> set (tl us)" for v
        using that du fr(4) Cons by (auto simp: l)
    qed (use du fr(4) zr ua Cons in \<open>simp_all add: l\<close>)
    moreover have "chain (nx y) fs NoIndex"
      using rep fr zr(2)
      by (subst chain_cong [of fs "nx y" "nx xp"]) (auto simp: l pool_rep_def)
    moreover have "\<forall>i\<in>set fs. pv y i = NoIndex"
      using rep fr(5) Cons by (auto simp: l pool_rep_def)
    moreover have "dt y = (dt xp)(f := d)" by (simp add: l fun_eq_iff)
    ultimately show ?thesis
      using rep fr(4,5) Cons by (auto simp: pool_rep_def e fl fn)
  qed
  from goal show "pool_rep (snd (raw_xpool_add d xp)) (us @ [f]) fs"
    and "dt (snd (raw_xpool_add d xp)) = (dt xp)(f := d)" by simp_all
qed

lemma add_full [abs_simps]: "pool_rep xp us [] \<Longrightarrow> raw_xpool_add d xp = (NoIndex, xp)"
  by (simp add: raw_xpool_add_def pool_rep_def)

lemma remove_single:
  assumes rep: "pool_rep xp [idx] fs"
  shows "fst (raw_xpool_remove idx xp) = (idx, Some (dt xp idx))"
    and "pool_rep (snd (raw_xpool_remove idx xp)) [] (idx # fs)"
    and "dt (snd (raw_xpool_remove idx xp)) = dt xp"
proof -
  have ix: "idx < length (xp_mem xp)" "validate_idx xp idx" "xp_list xp = idx"
    "nx xp idx = idx" "pv xp idx = idx" "idx \<notin> set fs"
    using rep rep_in_range [OF rep, of idx] rep_validate [OF rep] by (simp_all add: pool_rep_def)
  define y where "y = upd_node idx (\<lambda>v. v\<lparr>pn_prev := NoIndex, pn_next := xp_free xp\<rparr>)
    (upd_node idx (\<lambda>v. v\<lparr>pn_prev := idx\<rparr>)
      (upd_node idx (\<lambda>v. v\<lparr>pn_next := idx\<rparr>) (xp\<lparr>xp_list := NoIndex\<rparr>)))"
  have e: "raw_xpool_remove idx xp = ((idx, Some (dt xp idx)), y\<lparr>xp_free := idx\<rparr>)"
    using ix by (simp add: raw_xpool_remove_def Let_def nx_def pv_def dt_def y_def)
  have l: "nx y i = (if i = idx then xp_free xp else nx xp i)"
    "pv y i = (if i = idx then NoIndex else pv xp i)" "dt y i = dt xp i" for i
    using ix(1) by (simp_all add: nx_def pv_def dt_def y_def)
  have fl: "xp_size y = xp_size xp" "xp_list y = NoIndex"
    "length (xp_mem y) = length (xp_mem xp)"
    by (simp_all add: y_def)
  show "fst (raw_xpool_remove idx xp) = (idx, Some (dt xp idx))" by (simp add: e)
  show "dt (snd (raw_xpool_remove idx xp)) = dt xp" by (simp add: e l fun_eq_iff)
  have "chain (nx y) fs NoIndex"
    using rep ix(6) by (subst chain_cong [of fs "nx y" "nx xp"]) (auto simp: l pool_rep_def)
  note ch = this
  show "pool_rep (snd (raw_xpool_remove idx xp)) [] (idx # fs)"
    unfolding pool_rep_def
  proof (intro conjI)
    show "\<forall>i\<in>set (idx # fs). pv (snd (raw_xpool_remove idx xp)) i = NoIndex"
      using rep by (auto simp: e l pool_rep_def)
  qed (use rep ix(6) ch in \<open>simp_all add: pool_rep_def e fl l cycle_def\<close>)
qed

lemma remove_rep [abs_simps]:
  assumes rep: "pool_rep xp (as @ idx # bs) fs"
  shows "fst (raw_xpool_remove idx xp) = (idx, Some (dt xp idx))"
    and "pool_rep (snd (raw_xpool_remove idx xp)) (as @ bs) (idx # fs)"
    and "dt (snd (raw_xpool_remove idx xp)) = dt xp"
proof -
  let ?goal = "fst (raw_xpool_remove idx xp) = (idx, Some (dt xp idx)) \<and>
    pool_rep (snd (raw_xpool_remove idx xp)) (as @ bs) (idx # fs) \<and>
    dt (snd (raw_xpool_remove idx xp)) = dt xp"
  define zs where "zs = bs @ as"
  have ?goal
  proof (cases "zs = []")
    case True
    then have z: "as = []" "bs = []" by (simp_all add: zs_def)
    from rep z have "pool_rep xp [idx] fs" by simp
    from remove_single [OF this] z show ?thesis by simp
  next
    case False
    have ix: "idx < length (xp_mem xp)" "validate_idx xp idx" "idx \<notin> set fs" "idx \<notin> set zs"
      "distinct zs" "xp_list xp = hd (as @ [idx])"
      using rep rep_in_range [OF rep, of idx] rep_validate [OF rep]
      by (auto simp: pool_rep_def zs_def hd_append)
    have cyc: "cycle (nx xp) (pv xp) (idx # zs)"
      using rep cycle_rotate [of "nx xp" "pv xp" as "idx # bs"] by (simp add: pool_rep_def zs_def)
    note nb = cycle_hd(1,2) [OF cyc False]
    have hl: "hd zs \<in> set zs" "last zs \<in> set zs" using False by simp_all
    have inr: "i < length (xp_mem xp)" if "i \<in> set zs" for i
      using rep_in_range [OF rep, of i] that by (auto simp: zs_def)
    have ne: "hd zs \<noteq> idx" "last zs \<noteq> idx" using hl ix(4) by auto
    have lst: "(if idx = xp_list xp then hd zs else xp_list xp) = hd (as @ bs)"
      using False ix(4,6) by (cases as) (auto simp: zs_def)
    define x1 where "x1 = xp\<lparr>xp_list := hd (as @ bs)\<rparr>"
    define y where "y = upd_node idx (\<lambda>v. v\<lparr>pn_prev := NoIndex, pn_next := xp_free xp\<rparr>)
      (upd_node (hd zs) (\<lambda>v. v\<lparr>pn_prev := last zs\<rparr>)
        (upd_node (last zs) (\<lambda>v. v\<lparr>pn_next := hd zs\<rparr>) x1))"
    have "(if idx = xp_list xp
           then if idx = pn_next (xp_mem xp ! idx) then xp\<lparr>xp_list := NoIndex\<rparr>
                else xp\<lparr>xp_list := pn_next (xp_mem xp ! idx)\<rparr> else xp) = x1"
      using nb ne lst by (auto simp: x1_def nx_def)
    then have e: "raw_xpool_remove idx xp = ((idx, Some (dt xp idx)), y\<lparr>xp_free := idx\<rparr>)"
      using ix(1,2) ne nb inr [OF hl(1)] inr [OF hl(2)]
      by (simp add: raw_xpool_remove_def Let_def y_def dt_def)
        (simp add: x1_def nx_def pv_def)
    have l: "nx y i = (if i = idx then xp_free xp else if i = last zs then hd zs else nx xp i)"
      "pv y i = (if i = idx then NoIndex else if i = hd zs then last zs else pv xp i)"
      "dt y i = dt xp i" for i
      using ix(1) inr [OF hl(1)] inr [OF hl(2)] ne
      by (simp_all add: nx_def pv_def dt_def y_def x1_def)
    have fl: "xp_size y = xp_size xp" "xp_list y = hd (as @ bs)"
      "length (xp_mem y) = length (xp_mem xp)"
      by (simp_all add: y_def x1_def)
    have "cycle (nx y) (pv y) zs"
    proof (rule cycle_unlink [OF cyc False])
      have "last zs \<notin> set (butlast zs)"
        using ix(5) False by (metis append_butlast_last_id distinct_append disjoint_iff
            list.set_intros(1))
      then show "nx y v = nx xp v" if "v \<in> set (butlast zs)" for v
        using that ix(4) in_set_butlastD [OF that] by (auto simp: l)
      show "pv y v = pv xp v" if "v \<in> set (tl zs)" for v
        using that ix(4,5) by (cases zs) (auto simp: l)
    qed (use ix(4,5) ne in \<open>simp_all add: l\<close>)
    then have "cycle (nx y) (pv y) (as @ bs)" unfolding zs_def by (rule cycle_rotate)
    moreover have "chain (nx y) fs NoIndex" "\<forall>i\<in>set fs. pv y i = NoIndex"
    proof -
      have "i \<noteq> idx \<and> i \<noteq> last zs \<and> i \<noteq> hd zs" if "i \<in> set fs" for i
        using rep that hl by (auto simp: pool_rep_def zs_def)
      then show "chain (nx y) fs NoIndex" "\<forall>i\<in>set fs. pv y i = NoIndex"
        using rep chain_cong [of fs "nx y" "nx xp" NoIndex] by (auto simp: l pool_rep_def)
    qed
    moreover have "hd (as @ bs @ [NoIndex]) = hd (as @ bs)"
      using False by (cases as; cases bs) (auto simp: zs_def)
    moreover have "dt y = dt xp" by (simp add: l fun_eq_iff)
    ultimately show ?thesis
      using rep ix(3) by (auto simp: pool_rep_def e fl l)
  qed
  then show "fst (raw_xpool_remove idx xp) = (idx, Some (dt xp idx))"
    and "pool_rep (snd (raw_xpool_remove idx xp)) (as @ bs) (idx # fs)"
    and "dt (snd (raw_xpool_remove idx xp)) = dt xp" by simp_all
qed

lemma remove_invalid [abs_simps]:
  "pool_rep xp us fs \<Longrightarrow> idx \<notin> set us \<Longrightarrow> raw_xpool_remove idx xp = ((NoIndex, None), xp)"
  by (simp add: raw_xpool_remove_def rep_validate)

subsection \<open>Reading, moving the start, setting a value\<close>

lemma peek_rep [abs_simps]:
  assumes "pool_rep xp us fs"
  shows "raw_xpool_peek xp =
    ((if us = [] then (NoIndex, None) else (hd us, Some (dt xp (hd us)))), xp)"
  using assms rep_list_NoIndex(1) [OF assms]
  by (cases us) (simp_all add: raw_xpool_peek_def pool_rep_def dt_def)

lemma peek_idx_rep [abs_simps]:
  assumes "pool_rep xp us fs"
  shows "raw_xpool_peek_idx idx xp =
    ((if idx \<in> set us then (idx, Some (dt xp idx)) else (NoIndex, None)), xp)"
  by (simp add: raw_xpool_peek_idx_def rep_validate [OF assms] dt_def)

lemma fwd_rep [abs_simps]:
  assumes "pool_rep xp us fs"
  shows "fst (raw_xpool_peek_and_fwd xp) =
      (if us = [] then (NoIndex, None) else (hd us, Some (dt xp (hd us))))"
    and "pool_rep (snd (raw_xpool_peek_and_fwd xp)) (rotate1 us) fs"
    and "dt (snd (raw_xpool_peek_and_fwd xp)) = dt xp"
proof -
  have "fst (raw_xpool_peek_and_fwd xp) =
      (if us = [] then (NoIndex, None) else (hd us, Some (dt xp (hd us)))) \<and>
    pool_rep (snd (raw_xpool_peek_and_fwd xp)) (rotate1 us) fs \<and>
    dt (snd (raw_xpool_peek_and_fwd xp)) = dt xp"
  proof (cases us)
    case Nil
    then show ?thesis
      using assms rep_list_NoIndex(1) [OF assms] by (simp add: raw_xpool_peek_and_fwd_def)
  next
    case (Cons u vs)
    have l: "xp_list xp = u" "u \<noteq> NoIndex"
      using assms Cons rep_not_NoIndex [OF assms, of u] by (simp_all add: pool_rep_def)
    have c: "cycle (nx xp) (pv xp) (u # vs)" using assms Cons by (simp add: pool_rep_def)
    then have r: "cycle (nx xp) (pv xp) (vs @ [u])" using cycle_rotate [of _ _ "[u]" vs] by simp
    have "nx xp u = hd (vs @ [u])" using c by (simp add: cycle_def)
    moreover have "hd (vs @ u # [NoIndex]) = hd (vs @ [u])" by (cases vs) simp_all
    ultimately show ?thesis
      using assms Cons l r
      by (auto simp: raw_xpool_peek_and_fwd_def Let_def dt_def nx_def [of xp u] pool_rep_def)
  qed
  then show "fst (raw_xpool_peek_and_fwd xp) =
      (if us = [] then (NoIndex, None) else (hd us, Some (dt xp (hd us))))"
    and "pool_rep (snd (raw_xpool_peek_and_fwd xp)) (rotate1 us) fs"
    and "dt (snd (raw_xpool_peek_and_fwd xp)) = dt xp" by simp_all
qed

lemma set_idx_rep [abs_simps]:
  assumes rep: "pool_rep xp us fs"
  shows "fst (raw_xpool_set_idx idx d xp) = (if idx \<in> set us then idx else NoIndex)"
    and "pool_rep (snd (raw_xpool_set_idx idx d xp)) us fs"
    and "dt (snd (raw_xpool_set_idx idx d xp)) = (if idx \<in> set us then (dt xp)(idx := d) else dt xp)"
proof -
  let ?y = "upd_node idx (\<lambda>v. v\<lparr>pn_data := d\<rparr>) xp"
  have l: "nx ?y = nx xp" "pv ?y = pv xp"
    by (cases "idx < length (xp_mem xp)";
        auto simp: nx_def pv_def upd_node_def fun_eq_iff nth_list_update list_update_beyond)+
  have "dt ?y = (dt xp)(idx := d)" if "idx \<in> set us"
    using rep_in_range [OF rep, of idx] that by (simp add: dt_def fun_eq_iff)
  with rep l show "fst (raw_xpool_set_idx idx d xp) = (if idx \<in> set us then idx else NoIndex)"
    and "pool_rep (snd (raw_xpool_set_idx idx d xp)) us fs"
    and "dt (snd (raw_xpool_set_idx idx d xp)) = (if idx \<in> set us then (dt xp)(idx := d) else dt xp)"
    by (simp_all add: raw_xpool_set_idx_def rep_validate [OF rep])
      (simp add: pool_rep_def)
qed

section \<open>The pool as an abstract machine\<close>

text \<open>
  The abstract pool is a list of used indices with their values, in service order, and a
  stack of free indices. A call of the pool's interface is a value of \<open>pool_call\<close>;
  \<open>pool_exec\<close> runs the locked C operation, \<open>apool_exec\<close> the abstract one.
\<close>

datatype pool_call = P_add u64 | P_remove nat | P_peek | P_peek_idx nat | P_fwd
  | P_set nat u64 | P_clear

fun pool_exec :: "caller \<Rightarrow> pool_call \<Rightarrow> xpool \<Rightarrow> ((nat \<times> u64 option) \<times> xpool) option" where
  "pool_exec c (P_add d) xp = map_option (\<lambda>(r, xp). ((r, None), xp)) (xpool_add c d xp)"
| "pool_exec c (P_remove i) xp = xpool_remove c i xp"
| "pool_exec c P_peek xp = xpool_peek c xp"
| "pool_exec c (P_peek_idx i) xp = xpool_peek_idx c i xp"
| "pool_exec c P_fwd xp = xpool_peek_and_fwd c xp"
| "pool_exec c (P_set i d) xp = map_option (\<lambda>(r, xp). ((r, None), xp)) (xpool_set_idx c i d xp)"
| "pool_exec c P_clear xp = map_option (\<lambda>(r, xp). ((0, None), xp)) (xpool_clear c xp)"

type_synonym apool = "(nat \<times> u64) list \<times> nat list"

fun apool_exec :: "pool_call \<Rightarrow> apool \<Rightarrow> (nat \<times> u64 option) \<times> apool" where
  "apool_exec (P_add d) (its, []) = ((NoIndex, None), its, [])"
| "apool_exec (P_add d) (its, f # fs) = ((f, None), its @ [(f, d)], fs)"
| "apool_exec (P_remove i) (its, fs) =
     (case map_of its i of None \<Rightarrow> ((NoIndex, None), its, fs)
      | Some d \<Rightarrow> ((i, Some d), filter (\<lambda>p. fst p \<noteq> i) its, i # fs))"
| "apool_exec P_peek (its, fs) =
     (case its of [] \<Rightarrow> ((NoIndex, None), its, fs) | (i, d) # _ \<Rightarrow> ((i, Some d), its, fs))"
| "apool_exec (P_peek_idx i) (its, fs) =
     ((case map_of its i of None \<Rightarrow> (NoIndex, None) | Some d \<Rightarrow> (i, Some d)), its, fs)"
| "apool_exec P_fwd (its, fs) =
     (case its of [] \<Rightarrow> ((NoIndex, None), its, fs)
      | (i, d) # _ \<Rightarrow> ((i, Some d), rotate1 its, fs))"
| "apool_exec (P_set i d) (its, fs) =
     (case map_of its i of None \<Rightarrow> ((NoIndex, None), its, fs)
      | Some _ \<Rightarrow> ((i, None), map (\<lambda>(j, e). (j, if j = i then d else e)) its, fs))"
| "apool_exec P_clear (its, fs) = ((0, None), [], [0..<length its + length fs])"

fun pool_run :: "caller \<Rightarrow> pool_call list \<Rightarrow> xpool \<Rightarrow> ((nat \<times> u64 option) list \<times> xpool) option" where
  "pool_run c [] xp = Some ([], xp)"
| "pool_run c (p # ps) xp =
     (case pool_exec c p xp of None \<Rightarrow> None
      | Some (r, xp) \<Rightarrow> map_option (\<lambda>(rs, xp). (r # rs, xp)) (pool_run c ps xp))"

fun apool_run :: "pool_call list \<Rightarrow> apool \<Rightarrow> (nat \<times> u64 option) list \<times> apool" where
  "apool_run [] a = ([], a)"
| "apool_run (p # ps) a =
     (let (r, a) = apool_exec p a; (rs, a) = apool_run ps a in (r # rs, a))"

definition prel :: "xpool \<Rightarrow> apool \<Rightarrow> bool" where
  "prel xp a \<longleftrightarrow> unlocked (xp_lock xp) \<and> 0 < xp_size xp \<and>
     (\<exists>us. pool_rep xp us (snd a) \<and> fst a = map (\<lambda>i. (i, dt xp i)) us)"

lemma prelI:
  "pool_rep xp us fs \<Longrightarrow> its = map (\<lambda>i. (i, dt xp i)) us \<Longrightarrow> 0 < xp_size xp \<Longrightarrow>
   unlocked (xp_lock xp) \<Longrightarrow> prel xp (its, fs)"
  by (auto simp: prel_def)

lemma pool_rep_lock [simp]: "pool_rep (xp\<lparr>xp_lock := l\<rparr>) us fs = pool_rep xp us fs"
  by (simp add: pool_rep_def)

lemma with_xp_lock_free:
  assumes "unlocked (xp_lock xp)"
  shows "with_xp_lock c f xp =
    (let p = f (xp\<lparr>xp_lock := \<lparr>lk_owner = caller_word c, lk_pc = c_pc c\<rparr>\<rparr>)
     in Some (fst p, (snd p)\<lparr>xp_lock := free_lock\<rparr>))"
  using assms by (simp add: with_xp_lock_def split_beta Let_def)

lemmas pool_ops = xpool_add_def xpool_remove_def xpool_peek_def xpool_peek_idx_def
  xpool_peek_and_fwd_def xpool_set_idx_def xpool_clear_def

lemma map_of_graph: "map_of (map (\<lambda>i. (i, f i)) us) i = (if i \<in> set us then Some (f i) else None)"
  by (induction us) auto

lemma raw_size [simp]:
  "xp_size (snd (raw_xpool_add d xp)) = xp_size xp"
  "xp_size (snd (raw_xpool_remove i xp)) = xp_size xp"
  "xp_size (snd (raw_xpool_peek_and_fwd xp)) = xp_size xp"
  "xp_size (snd (raw_xpool_set_idx i d xp)) = xp_size xp"
  by (simp_all add: raw_xpool_add_def raw_xpool_remove_def raw_xpool_peek_and_fwd_def
      raw_xpool_set_idx_def Let_def)

lemma fold_upd_size: "xp_size (fold (\<lambda>i. upd_node (g i) (f i)) xs xp) = xp_size xp"
  by (induction xs arbitrary: xp) simp_all

lemma clear_size [simp]: "xp_size (raw_xpool_clear xp) = xp_size xp"
  by (simp add: raw_xpool_clear_def Let_def fold_upd_size)

lemma pool_exec_sim:
  assumes "prel xp a"
  shows "\<exists>xp'. pool_exec c p xp = Some (fst (apool_exec p a), xp') \<and> prel xp' (snd (apool_exec p a)) \<and>
    xp_size xp' = xp_size xp"
proof -
  obtain its fs where a: "a = (its, fs)" by fastforce
  from assms a obtain us where lk: "unlocked (xp_lock xp)" and sz: "0 < xp_size xp"
    and rep: "pool_rep xp us fs" and its: "its = map (\<lambda>i. (i, dt xp i)) us"
    by (auto simp: prel_def)
  define y where "y = xp\<lparr>xp_lock := \<lparr>lk_owner = caller_word c, lk_pc = c_pc c\<rparr>\<rparr>"
  have ry: "pool_rep y us fs" and dy: "dt y = dt xp" and sy: "xp_size y = xp_size xp"
    using rep by (simp_all add: y_def)
  note w = with_xp_lock_free [OF lk, of c, folded y_def, unfolded Let_def]
  show ?thesis
  proof (cases p)
    case (P_add d)
    show ?thesis
    proof (cases fs)
      case Nil
      with ry have "pool_rep y us []" by simp
      then show ?thesis using P_add Nil a its rep dy sy sz
        by (auto simp: pool_ops w add_full intro!: prelI [of _ us])
    next
      case (Cons f gs)
      with ry have r: "pool_rep y us (f # gs)" by simp
      then have "f \<notin> set us" by (simp add: pool_rep_def)
      then show ?thesis using P_add Cons a its add_rep [OF r, of d] dy sy sz
        by (auto simp: pool_ops w intro!: prelI [of _ "us @ [f]"])
    qed
  next
    case (P_remove i)
    show ?thesis
    proof (cases "i \<in> set us")
      case True
      then obtain as bs where us: "us = as @ i # bs" by (meson split_list)
      with ry have r: "pool_rep y (as @ i # bs) fs" by simp
      then have "i \<notin> set as" "i \<notin> set bs" by (simp_all add: pool_rep_def)
      then have "filter (\<lambda>x. x \<noteq> i) as = as" "filter (\<lambda>x. x \<noteq> i) bs = bs"
        by (metis (mono_tags, lifting) filter_True)+
      then have "filter (\<lambda>p. fst p \<noteq> i) its = map (\<lambda>i. (i, dt xp i)) (as @ bs)"
        by (simp add: its us filter_map comp_def)
      moreover have "map_of its i = Some (dt xp i)" by (simp add: its map_of_graph True)
      ultimately show ?thesis using P_remove a remove_rep [OF r] dy sy sz
        by (auto simp: pool_ops w intro!: prelI [of _ "as @ bs"])
    next
      case False
      then show ?thesis using P_remove a its remove_invalid [OF ry, of i] ry dy sy sz
        by (auto simp: pool_ops w map_of_graph intro!: prelI [of _ us])
    qed
  next
    case P_peek
    then show ?thesis using a its peek_rep [OF ry] ry dy sy sz
      by (cases us) (auto simp: pool_ops w intro!: prelI [of _ us])
  next
    case (P_peek_idx i)
    then show ?thesis using a its peek_idx_rep [OF ry, of i] ry dy sy sz
      by (auto simp: pool_ops w map_of_graph intro!: prelI [of _ us])
  next
    case P_fwd
    then show ?thesis using a its fwd_rep [OF ry] dy sy sz
      by (cases us) (auto simp: pool_ops w intro!: prelI [of _ "rotate1 us"])
  next
    case (P_set i d)
    then show ?thesis using a its set_idx_rep [OF ry, of i d] dy sy sz
      by (auto simp: pool_ops w map_of_graph intro!: prelI [of _ us])
  next
    case P_clear
    have len: "length us + length fs = xp_size xp" by (rule rep_length [OF rep])
    from ry have "xp_size y = length (xp_mem y)" "xp_size y \<le> NoIndex" by (simp_all add: pool_rep_def)
    with clear_rep [of y] sz sy have "pool_rep (raw_xpool_clear y) [] [0..<xp_size xp]" by simp
    then show ?thesis using P_clear a its sz len sy
      by (auto simp: pool_ops w intro!: prelI [of _ "[]"])
  qed
qed

lemma pool_run_sim:
  assumes "prel xp a"
  shows "\<exists>xp'. pool_run c ps xp = Some (fst (apool_run ps a), xp') \<and> prel xp' (snd (apool_run ps a)) \<and>
    xp_size xp' = xp_size xp"
  using assms
proof (induction ps arbitrary: xp a)
  case (Cons p ps)
  obtain r a1 where e: "apool_exec p a = (r, a1)" by (rule prod.exhaust)
  obtain rs a2 where f: "apool_run ps a1 = (rs, a2)" by (rule prod.exhaust)
  from pool_exec_sim [OF Cons.prems, of c p] e obtain x1
    where x1: "pool_exec c p xp = Some (r, x1)" "prel x1 a1" "xp_size x1 = xp_size xp" by auto
  from Cons.IH [OF x1(2)] f obtain x2 where "pool_run c ps x1 = Some (rs, x2)" "prel x2 a2" "xp_size x2 = xp_size x1" by auto
  with x1 e f show ?case by simp
qed simp

lemma init_prel:
  assumes "n = length mem" and "0 < n" and "n \<le> NoIndex"
  shows "prel (xpool_init n mem xp) ([], [0..<n])"
  using clear_rep [of "xp\<lparr>xp_size := n, xp_mem := mem, xp_lock := free_lock\<rparr>"] assms
  by (auto simp: xpool_init_def intro!: prelI [of _ "[]"])

lemma apool_partition:
  assumes "prel xp a"
  shows "distinct (map fst (fst a) @ snd a)" and "set (map fst (fst a) @ snd a) = {..<xp_size xp}"
proof -
  from assms obtain us where r: "pool_rep xp us (snd a)" and e: "fst a = map (\<lambda>i. (i, dt xp i)) us"
    by (auto simp: prel_def)
  have "map fst (fst a) = us" by (simp add: e comp_def)
  with r show "distinct (map fst (fst a) @ snd a)" "set (map fst (fst a) @ snd a) = {..<xp_size xp}"
    by (simp_all add: pool_rep_def)
qed

section \<open>Properties\<close>

text \<open>
  C9. Refinement: on a pool just initialised with \<open>n\<close> nodes, every sequence of the seven
  locked operations returns, call by call, what the abstract pool returns (indices, values
  and refusals), never blocks, and ends in a pool that represents the abstract one. The
  circular list, the free list and every link are kept consistent by each call.
\<close>

theorem xpool_refines_abstract:
  assumes "n = length mem" and "0 < n" and "n \<le> NoIndex"
  shows "\<exists>xp'. pool_run c ps (xpool_init n mem xp) = Some (fst (apool_run ps ([], [0..<n])), xp') \<and>
     prel xp' (snd (apool_run ps ([], [0..<n])))"
  using pool_run_sim [OF init_prel [OF assms], of c ps] by blast

definition demo_pool :: xpool where
  "demo_pool = xpool_init 3 (replicate 3 \<lparr>pn_data = 0, pn_next = 9, pn_prev = 9\<rparr>)
     \<lparr>xp_lock = free_lock, xp_list = 5, xp_free = 5, xp_size = 0, xp_mem = []\<rparr>"

theorem xpool_refines_abstract_witness:
  "\<exists>xp'. pool_run (demo_caller 1) [P_add 70, P_add 71, P_remove 0, P_peek, P_add 72, P_fwd, P_peek]
       demo_pool =
     Some ([(0, None), (1, None), (0, Some 70), (1, Some 71), (0, None), (1, Some 71), (0, Some 72)], xp')"
  using xpool_refines_abstract [of 3 "replicate 3 \<lparr>pn_data = 0, pn_next = 9, pn_prev = 9\<rparr>"
      "demo_caller 1" "[P_add 70, P_add 71, P_remove 0, P_peek, P_add 72, P_fwd, P_peek]"
      "\<lparr>xp_lock = free_lock, xp_list = 5, xp_free = 5, xp_size = 0, xp_mem = []\<rparr>"]
  by (auto simp: demo_pool_def NoIndex_def upt_conv_Cons)

text \<open>
  No index is ever lost or handed out twice: after any sequence of operations on an
  initialised pool, an add returns an index that is not in use, or \<^verbatim>\<open>NoIndex\<close> exactly
  when all \<open>n\<close> are.
\<close>

theorem xpool_add_fresh:
  assumes "n = length mem" and "0 < n" and "n \<le> NoIndex"
    and "pool_run c ps (xpool_init n mem xp) = Some (rs, xp1)"
    and "raw_xpool_add d xp1 = (i, xp2)"
  shows "if length (fst (snd (apool_run ps ([], [0..<n])))) = n then i = NoIndex \<and> xp2 = xp1
     else i < n \<and> i \<notin> set (map fst (fst (snd (apool_run ps ([], [0..<n])))))"
proof -
  let ?a = "snd (apool_run ps ([], [0..<n]))"
  from pool_run_sim [OF init_prel [OF assms(1-3), of xp], of c ps] assms(4)
  have "prel xp1 ?a \<and> xp_size xp1 = xp_size (xpool_init n mem xp)" by auto
  then have p: "prel xp1 ?a" and sz: "xp_size xp1 = n" by (simp_all add: xpool_init_def Let_def)
  then obtain us where rep: "pool_rep xp1 us (snd ?a)" and us: "us = map fst (fst ?a)"
    by (auto simp: prel_def comp_def)
  have "length us + length (snd ?a) = xp_size xp1" by (rule rep_length [OF rep])
  moreover have "length us = length (fst ?a)" by (simp add: us)
  ultimately have len: "length (fst ?a) = n \<longleftrightarrow> snd ?a = []" using sz by auto
  show ?thesis
  proof (cases "snd ?a")
    case Nil
    with rep assms(5) len show ?thesis by (simp add: add_full)
  next
    case (Cons f fs)
    with rep have r: "pool_rep xp1 us (f # fs)" by simp
    from add_rep(1) [OF r, of d] assms(5) have "i = f" by simp
    moreover have "f \<notin> set us" and "set us \<union> set (f # fs) = {..<n}"
      using r sz by (simp_all add: pool_rep_def)
    then have "f < n" by (metis UnCI lessThan_iff list.set_intros(1))
    ultimately show ?thesis using Cons len us \<open>f \<notin> set us\<close> by simp
  qed
qed

theorem xpool_add_fresh_witness:
  "fst (raw_xpool_add 9 demo_pool) < 3"
proof -
  let ?m = "replicate 3 \<lparr>pn_data = 0, pn_next = 9, pn_prev = 9\<rparr> :: xpool_node list"
  have "pool_run (demo_caller 1) [] demo_pool = Some ([], demo_pool)" by simp
  from xpool_add_fresh [of 3 ?m, OF _ _ _ this [unfolded demo_pool_def], of 9
      "fst (raw_xpool_add 9 demo_pool)" "snd (raw_xpool_add 9 demo_pool)"]
  show ?thesis by (simp add: NoIndex_def demo_pool_def)
qed

end
