(* ===== verification/Prioq.thy ===== *)
theory Prioq
  imports Prelude "HOL-Library.Multiset"
begin

text \<open>
  The interface of a priority queue with handles, as the clients of \<^verbatim>\<open>xbinheap\<close> use it:
  \<open>ents\<close> is the partial map from the handles in use to key and value, \<open>rank\<close> turns a key
  into the integer that an extraction minimises (the key itself for a minimum heap, its
  negation for a maximum heap). From the laws alone: draining a queue returns every entry
  once, best first.
\<close>

fun drain :: "('s \<Rightarrow> ('v \<times> 's) option) \<Rightarrow> nat \<Rightarrow> 's \<Rightarrow> 'v list \<times> 's" where
  "drain ext 0 s = ([], s)"
| "drain ext (Suc n) s =
     (case ext s of None \<Rightarrow> ([], s) | Some (v, s) \<Rightarrow> let (vs, s) = drain ext n s in (v # vs, s))"

fun insert_all :: "('k \<Rightarrow> 'v \<Rightarrow> 's \<Rightarrow> (nat \<times> 's) option) \<Rightarrow> ('k \<times> 'v) list \<Rightarrow> 's \<Rightarrow> 's option" where
  "insert_all ins [] s = Some s"
| "insert_all ins ((k, v) # kvs) s =
     (case ins k v s of None \<Rightarrow> None | Some (h, s) \<Rightarrow> insert_all ins kvs s)"

text \<open>The entries of a finite map, without their handles.\<close>

definition entries :: "(nat \<Rightarrow> 'a option) \<Rightarrow> 'a multiset" where
  "entries m = image_mset (\<lambda>h. the (m h)) (mset_set (dom m))"

lemma entries_empty [simp]: "entries Map.empty = {#}"
  by (simp add: entries_def)

lemma entries_upd:
  assumes "finite (dom m)" and "h \<notin> dom m"
  shows "entries (m(h \<mapsto> x)) = add_mset x (entries m)"
proof -
  have "image_mset (\<lambda>k. the ((m(h \<mapsto> x)) k)) (mset_set (dom m)) = entries m"
    unfolding entries_def
  proof (rule image_mset_cong)
    fix k assume "k \<in># mset_set (dom m)"
    then have "k \<noteq> h" using assms by auto
    then show "the ((m(h \<mapsto> x)) k) = the (m k)" by simp
  qed
  then show ?thesis using assms by (simp add: entries_def)
qed

lemma entries_list:
  assumes "distinct hs" and "set hs = dom m"
  shows "entries m = mset (map (\<lambda>h. the (m h)) hs)"
  using assms by (metis entries_def mset_map mset_set_set)

locale prio_queue =
  fixes ents :: "'s \<Rightarrow> nat \<Rightarrow> ('k \<times> 'v) option"
    and ins :: "'k \<Rightarrow> 'v \<Rightarrow> 's \<Rightarrow> (nat \<times> 's) option"
    and ext :: "'s \<Rightarrow> ('v \<times> 's) option"
    and chg :: "nat \<Rightarrow> 'k \<Rightarrow> 's \<Rightarrow> 's"
    and rank :: "'k \<Rightarrow> int"
    and room :: "'s \<Rightarrow> nat"
    and invar :: "'s \<Rightarrow> bool"
  assumes fin: "invar s \<Longrightarrow> finite (dom (ents s))"
    and ins_full: "invar s \<Longrightarrow> card (dom (ents s)) = room s \<Longrightarrow> ins k v s = None"
    and ins_room: "invar s \<Longrightarrow> card (dom (ents s)) < room s \<Longrightarrow>
        \<exists>h s'. ins k v s = Some (h, s') \<and> h \<notin> dom (ents s) \<and> invar s' \<and>
          ents s' = (ents s)(h \<mapsto> (k, v)) \<and> room s' = room s"
    and ext_none: "invar s \<Longrightarrow> ents s = Map.empty \<Longrightarrow> ext s = None"
    and ext_some: "invar s \<Longrightarrow> ents s \<noteq> Map.empty \<Longrightarrow>
        \<exists>h k v s'. ext s = Some (v, s') \<and> ents s h = Some (k, v) \<and> invar s' \<and>
          ents s' = (ents s)(h := None) \<and> room s' = room s \<and>
          (\<forall>j k' v'. ents s j = Some (k', v') \<longrightarrow> rank k \<le> rank k')"
    and chg: "invar s \<Longrightarrow> ents s h = Some (k, v) \<Longrightarrow> rank k \<le> rank k' \<Longrightarrow>
        invar (chg h k' s) \<and> ents (chg h k' s) = (ents s)(h \<mapsto> (k', v)) \<and> room (chg h k' s) = room s"
begin

lemma drain_sorted:
  assumes "invar s" and "card (dom (ents s)) = n"
  shows "\<exists>hs. distinct hs \<and> set hs = dom (ents s) \<and>
    fst (drain ext n s) = map (\<lambda>h. snd (the (ents s h))) hs \<and>
    sorted (map (\<lambda>h. rank (fst (the (ents s h)))) hs) \<and>
    invar (snd (drain ext n s)) \<and> ents (snd (drain ext n s)) = Map.empty"
  using assms
proof (induction n arbitrary: s)
  case 0
  then have "ents s = Map.empty" using fin by simp
  with 0 show ?case by simp
next
  case (Suc n)
  then have "ents s \<noteq> Map.empty" by auto
  from ext_some [OF Suc.prems(1) this] obtain h k v s'
    where e: "ext s = Some (v, s')" and h: "ents s h = Some (k, v)" and i: "invar s'"
      and s': "ents s' = (ents s)(h := None)"
      and mn: "\<And>j k' v'. ents s j = Some (k', v') \<Longrightarrow> rank k \<le> rank k'" by blast
  have "card (dom (ents s')) = n"
    using Suc.prems fin h by (simp add: s' card_Diff_singleton domI)
  from Suc.IH [OF i this] obtain hs where hs: "distinct hs" "set hs = dom (ents s')"
    "fst (drain ext n s') = map (\<lambda>h. snd (the (ents s' h))) hs"
    "sorted (map (\<lambda>h. rank (fst (the (ents s' h)))) hs)"
    "invar (snd (drain ext n s'))" "ents (snd (drain ext n s')) = Map.empty" by blast
  have nh: "h \<notin> set hs" by (simp add: hs(2) s')
  then have eq: "\<And>j. j \<in> set hs \<Longrightarrow> ents s' j = ents s j" by (auto simp: s')
  have "\<And>j. j \<in> set hs \<Longrightarrow> rank k \<le> rank (fst (the (ents s j)))"
  proof -
    fix j assume "j \<in> set hs"
    then have "j \<in> dom (ents s)" by (simp add: hs(2) s')
    then show "rank k \<le> rank (fst (the (ents s j)))" using mn by auto
  qed
  moreover have "map (\<lambda>h. rank (fst (the (ents s' h)))) hs = map (\<lambda>h. rank (fst (the (ents s h)))) hs"
    "map (\<lambda>h. snd (the (ents s' h))) hs = map (\<lambda>h. snd (the (ents s h))) hs"
    by (simp_all add: eq)
  note m = this
  moreover have "set (h # hs) = dom (ents s)" using h hs(2) s' by auto
  ultimately have "sorted (map (\<lambda>h. rank (fst (the (ents s h)))) (h # hs))"
    using hs(4) h unfolding m(1) by simp
  moreover have "fst (drain ext (Suc n) s) = map (\<lambda>h. snd (the (ents s h))) (h # hs)"
    using e h hs(3) unfolding m(2) by (simp add: split_beta)
  moreover have "snd (drain ext (Suc n) s) = snd (drain ext n s')" using e by (simp add: split_beta)
  ultimately show ?case using hs(1,5,6) nh \<open>set (h # hs) = dom (ents s)\<close>
    by (metis distinct.simps(2))
qed

lemma insert_all_entries:
  assumes "invar s" and "card (dom (ents s)) + length kvs \<le> room s"
  shows "\<exists>s'. insert_all ins kvs s = Some s' \<and> invar s' \<and> room s' = room s \<and>
    entries (ents s') = entries (ents s) + mset kvs \<and>
    card (dom (ents s')) = card (dom (ents s)) + length kvs"
  using assms
proof (induction kvs arbitrary: s)
  case (Cons kv kvs)
  obtain k v where kv: "kv = (k, v)" by (rule prod.exhaust)
  from Cons.prems have "card (dom (ents s)) < room s" by simp
  from ins_room [OF Cons.prems(1) this, of k v] obtain h s1 where s1: "ins k v s = Some (h, s1)"
    "h \<notin> dom (ents s)" "invar s1" "ents s1 = (ents s)(h \<mapsto> (k, v))" "room s1 = room s" by blast
  have c: "card (dom (ents s1)) = Suc (card (dom (ents s)))"
    using s1(2) fin [OF Cons.prems(1)] by (simp add: s1(4) del: fun_upd_apply domIff)
  have e: "entries (ents s1) = add_mset (k, v) (entries (ents s))"
    unfolding s1(4) by (rule entries_upd [OF fin [OF Cons.prems(1)] s1(2)])
  have "card (dom (ents s1)) + length kvs \<le> room s1" using Cons.prems(2) by (simp add: c s1(5))
  from Cons.IH [OF s1(3) this] obtain s' where "insert_all ins kvs s1 = Some s'" "invar s'"
    "room s' = room s1" "entries (ents s') = entries (ents s1) + mset kvs"
    "card (dom (ents s')) = card (dom (ents s1)) + length kvs" by blast
  then show ?case by (simp add: kv s1(1,5) c e)
qed simp

text \<open>Sorting through the queue: the values come out with keys in order of rank.\<close>

lemma sort_through:
  assumes "invar s" and "ents s = Map.empty" and "length kvs \<le> room s"
  shows "\<exists>s' ks. insert_all ins kvs s = Some s' \<and>
    length ks = length (fst (drain ext (length kvs) s')) \<and>
    mset (zip ks (fst (drain ext (length kvs) s'))) = mset kvs \<and> sorted (map rank ks)"
proof -
  from assms(2) have "card (dom (ents s)) = 0" by simp
  with insert_all_entries [of s kvs] assms obtain s' where s': "insert_all ins kvs s = Some s'"
    "invar s'" "entries (ents s') = mset kvs" "card (dom (ents s')) = length kvs" by auto
  from drain_sorted [OF s'(2,4)] obtain hs where hs: "distinct hs" "set hs = dom (ents s')"
    "fst (drain ext (length kvs) s') = map (\<lambda>h. snd (the (ents s' h))) hs"
    "sorted (map (\<lambda>h. rank (fst (the (ents s' h)))) hs)" by blast
  let ?ks = "map (\<lambda>h. fst (the (ents s' h))) hs"
  have "zip ?ks (fst (drain ext (length kvs) s')) = map (\<lambda>h. the (ents s' h)) hs"
    unfolding hs(3) by (simp add: zip_map_map zip_same_conv_map)
  moreover have "entries (ents s') = mset (map (\<lambda>h. the (ents s' h)) hs)"
    by (rule entries_list [OF hs(1,2)])
  ultimately have "mset (zip ?ks (fst (drain ext (length kvs) s'))) = mset kvs" using s'(3) by simp
  moreover have "sorted (map rank ?ks)" using hs(4) by (simp add: comp_def)
  moreover have "length ?ks = length (fst (drain ext (length kvs) s'))" by (simp add: hs(3))
  ultimately show ?thesis using s'(1) by blast
qed

end

end
