(* ===== verification/Probe.thy ===== *)
theory Probe
  imports Prelude
begin

text \<open>
  The probe sequence of the hash table of \<^verbatim>\<open>xtypes/xhash.c\<close>: from slot \<open>hash & mask\<close>,
  the next slot is \<open>(5 * idx + 1 + perturb) & mask\<close> and \<open>perturb\<close> is shifted right by 5
  after each step. Once \<open>perturb\<close> is 0 (after 13 steps) the sequence is the linear
  congruential one with multiplier 5 and increment 1, which runs through all slots of a
  table whose size is a power of two. So a loop that stops at some slot stops.
\<close>

section \<open>The period of \<open>x \<mapsto> 5 x + 1\<close> modulo a power of two\<close>

fun geo5 :: "nat \<Rightarrow> nat" where
  "geo5 0 = 0"
| "geo5 (Suc n) = 5 * geo5 n + 1"

lemma geo5_add: "geo5 (m + n) = geo5 m + 5 ^ m * geo5 n"
  by (induction m) (simp_all add: algebra_simps)

lemma geo5_even: "even (geo5 n) \<longleftrightarrow> even n"
  by (induction n) auto

lemma pow5_mod4: "(5 :: nat) ^ n mod 4 = 1"
proof (induction n)
  case (Suc n)
  have "(5 :: nat) ^ Suc n mod 4 = 5 * (5 ^ n mod 4) mod 4" by (simp only: power_Suc mod_mult_right_eq)
  with Suc show ?case by simp
qed simp

lemma geo5_dvd: "2 ^ k dvd geo5 n \<Longrightarrow> 2 ^ k dvd n"
proof (induction k arbitrary: n)
  case (Suc k)
  then have "even (geo5 n)" by (meson dvd_mult_left dvd_power dvd_trans zero_less_Suc)
  then obtain m where n: "n = m + m" using geo5_even by (metis evenE mult_2)
  obtain q where "(5 :: nat) ^ m = 4 * q + 1" using pow5_mod4 [of m] by (metis mult_div_mod_eq)
  then have "geo5 n = 2 * ((2 * q + 1) * geo5 m)" by (simp add: n geo5_add algebra_simps)
  with Suc.prems have "2 * 2 ^ k dvd 2 * ((2 * q + 1) * geo5 m)" by (simp only: power_Suc)
  then have "2 ^ k dvd (2 * q + 1) * geo5 m" by (simp only: dvd_mult_cancel1 dvd_times_left_cancel_iff)
  moreover have "coprime (2 ^ k) (2 * q + 1)" by simp
  ultimately have "2 ^ k dvd geo5 m" using coprime_dvd_mult_right_iff by blast
  then have "2 ^ k dvd m" by (rule Suc.IH)
  then show ?case by (simp add: n flip: mult_2)
qed simp

lemma lcg_iterate:
  assumes "\<And>n. s (Suc n) = (5 * s n + 1) mod (2 ^ k :: nat)"
  shows "s (a + n) mod 2 ^ k = (5 ^ n * s a + geo5 n) mod 2 ^ k"
proof (induction n)
  case (Suc n)
  have "s (a + Suc n) mod 2 ^ k = (5 * s (a + n) + 1) mod 2 ^ k" by (simp add: assms)
  also have "\<dots> = (5 * (s (a + n) mod 2 ^ k) + 1) mod 2 ^ k"
    by (metis mod_add_left_eq mod_mult_right_eq)
  also have "\<dots> = (5 * ((5 ^ n * s a + geo5 n) mod 2 ^ k) + 1) mod 2 ^ k" by (simp only: Suc)
  also have "\<dots> = (5 ^ Suc n * s a + geo5 (Suc n)) mod 2 ^ k"
  proof -
    have "(5 * ((5 ^ n * s a + geo5 n) mod 2 ^ k) + 1) mod 2 ^ k =
        (5 * (5 ^ n * s a + geo5 n) + 1) mod 2 ^ k" by (metis mod_add_left_eq mod_mult_right_eq)
    then show ?thesis by (simp add: algebra_simps)
  qed
  finally show ?case .
qed simp

lemma pow5_geo5: "(5 :: nat) ^ n = 4 * geo5 n + 1"
  by (induction n) simp_all

lemma lcg_inj:
  assumes s: "\<And>n. s (Suc n) = (5 * s n + 1) mod (2 ^ k :: nat)"
    and "s a mod 2 ^ k = s (a + n) mod 2 ^ k"
  shows "2 ^ k dvd n"
proof -
  have "s a + geo5 n * (4 * s a + 1) = 5 ^ n * s a + geo5 n" by (simp add: pow5_geo5 algebra_simps)
  with lcg_iterate [where s = s and k = k, OF s, of a n] assms(2)
  have "(s a + geo5 n * (4 * s a + 1)) mod 2 ^ k = s a mod 2 ^ k" by argo
  then have "2 ^ k dvd geo5 n * (4 * s a + 1)"
    by (metis add_diff_cancel_left' le_add1 mod_eq_dvd_iff_nat)
  moreover have "coprime (2 ^ k) (4 * s a + 1)" by simp
  ultimately have "2 ^ k dvd geo5 n" using coprime_dvd_mult_left_iff by blast
  then show ?thesis by (rule geo5_dvd)
qed

lemma lcg_all_slots:
  assumes s: "\<And>n. s (Suc n) = (5 * s n + 1) mod (2 ^ k :: nat)" and "s 0 < 2 ^ k" and "i < 2 ^ k"
  shows "\<exists>n<2 ^ k. s n = i"
proof -
  have lt: "s n < 2 ^ k" for n using assms(2) by (cases n) (simp_all add: s)
  have "inj_on s {..<2 ^ k}"
  proof (rule linorder_inj_onI)
    fix a b :: nat assume ab: "a < b" "a \<in> {..<2 ^ k}" "b \<in> {..<2 ^ k}"
    show "s a \<noteq> s b"
    proof
      assume "s a = s b"
      then have "2 ^ k dvd b - a" using lcg_inj [where s = s and k = k, OF s, of a "b - a"] ab by simp
      with ab show False by (auto dest: dvd_imp_le)
    qed
  qed auto
  then have "s ` {..<2 ^ k} = {..<2 ^ k}" using lt by (intro endo_inj_surj) auto
  with assms(3) show ?thesis by (metis imageE lessThan_iff)
qed

section \<open>The probe loop\<close>

definition PERTURB_SHIFT :: nat where "PERTURB_SHIFT = 5"

definition probe_next :: "u64 \<Rightarrow> u64 \<Rightarrow> u64 \<Rightarrow> u64" where
  "probe_next msk idx perturb = (push_bit 2 idx + idx + 1 + perturb) AND msk"

text \<open>
  The loop the four operations share: \<open>stop idx\<close> is what the body returns at a slot, or
  \<open>None\<close> when it goes on. The body has no other effect before it returns. A loop that
  never returns has the value \<open>None\<close>.
\<close>

partial_function (option) probe ::
  "(nat \<Rightarrow> 'r option) \<Rightarrow> u64 \<Rightarrow> u64 \<Rightarrow> u64 \<Rightarrow> 'r option" where
  "probe stop msk idx perturb =
     (case stop (unat idx) of Some r \<Rightarrow> Some r
      | None \<Rightarrow> probe stop msk (probe_next msk idx perturb) (drop_bit PERTURB_SHIFT perturb))"

declare probe.simps [code]

fun probe_state :: "u64 \<Rightarrow> u64 \<Rightarrow> nat \<Rightarrow> u64 \<times> u64" where
  "probe_state msk hv 0 = (hv AND msk, hv)"
| "probe_state msk hv (Suc n) =
     (let (idx, perturb) = probe_state msk hv n
      in (probe_next msk idx perturb, drop_bit PERTURB_SHIFT perturb))"

definition pseq :: "nat \<Rightarrow> u64 \<Rightarrow> nat \<Rightarrow> nat" where
  "pseq k hv n = unat (fst (probe_state (2 ^ k - 1) hv n))"

lemma pseq_less [simp]: "pseq k hv n < 2 ^ k"
  by (cases n) (simp_all add: pseq_def probe_next_def split_beta Let_def)

lemma perturb_gone: "snd (probe_state msk hv n) = drop_bit (5 * n) hv"
  by (induction n) (simp_all add: split_beta Let_def PERTURB_SHIFT_def add.commute)

lemma drop_bit_64: "64 \<le> n \<Longrightarrow> drop_bit n (hv :: u64) = 0"
  by (rule bit_eqI) (auto simp: bit_drop_bit_eq dest: bit_imp_le_length)

lemma pseq_step:
  assumes "13 \<le> n" and "k < 64"
  shows "pseq k hv (Suc n) = (5 * pseq k hv n + 1) mod 2 ^ k"
proof -
  let ?i = "fst (probe_state (2 ^ k - 1) hv n)"
  have "snd (probe_state (2 ^ k - 1) hv n) = 0"
    unfolding perturb_gone by (rule drop_bit_64) (use assms in simp)
  then have "fst (probe_state (2 ^ k - 1) hv (Suc n)) = (5 * ?i + 1) AND (2 ^ k - 1)"
    by (simp add: split_beta Let_def probe_next_def push_bit_eq_mult algebra_simps)
  then have "pseq k hv (Suc n) = unat (5 * ?i + 1) mod 2 ^ k"
    by (simp add: pseq_def unat_slot)
  also have "\<dots> = (5 * unat ?i + 1) mod 2 ^ 64 mod 2 ^ k"
    by (simp add: unat_word_ariths mod_simps)
  also have "\<dots> = (5 * unat ?i + 1) mod 2 ^ k"
    using assms(2) le_imp_power_dvd [of k 64 "2 :: nat"] by (intro mod_mod_cancel) simp
  finally show ?thesis by (simp add: pseq_def)
qed

text \<open>Every slot is probed, after at most \<open>13 + 2 ^ k\<close> steps.\<close>

lemma pseq_all_slots:
  assumes "k < 64" and "i < 2 ^ k"
  shows "\<exists>n<13 + 2 ^ k. pseq k hv n = i"
proof -
  define s where "s n = pseq k hv (13 + n)" for n
  have "s (Suc n) = (5 * s n + 1) mod 2 ^ k" for n
    using pseq_step [of "13 + n" k hv] assms(1) by (simp add: s_def)
  then obtain n where "n < 2 ^ k" "s n = i"
    using lcg_all_slots [of s k i] assms(2) by (auto simp: s_def)
  then show ?thesis by (intro exI [of _ "13 + n"]) (simp add: s_def)
qed

definition probe_from :: "(nat \<Rightarrow> 'r option) \<Rightarrow> nat \<Rightarrow> u64 \<Rightarrow> 'r option" where
  "probe_from stop k hv = probe stop (2 ^ k - 1) (hv AND (2 ^ k - 1)) hv"

lemma probe_skip:
  assumes "\<And>j. j < n \<Longrightarrow> stop (pseq k hv j) = None"
  shows "probe_from stop k hv =
    probe stop (2 ^ k - 1) (fst (probe_state (2 ^ k - 1) hv n)) (snd (probe_state (2 ^ k - 1) hv n))"
  using assms
proof (induction n)
  case 0
  then show ?case by (simp add: probe_from_def)
next
  case (Suc n)
  then have "probe_from stop k hv =
    probe stop (2 ^ k - 1) (fst (probe_state (2 ^ k - 1) hv n)) (snd (probe_state (2 ^ k - 1) hv n))"
    by simp
  moreover have "stop (unat (fst (probe_state (2 ^ k - 1) hv n))) = None"
    using Suc.prems [of n] by (simp add: pseq_def)
  ultimately show ?case
    using probe.simps [of stop "2 ^ k - 1" "fst (probe_state (2 ^ k - 1) hv n)"
        "snd (probe_state (2 ^ k - 1) hv n)"]
    by (simp add: split_beta Let_def)
qed

lemma probe_first:
  assumes "\<And>j. j < n \<Longrightarrow> stop (pseq k hv j) = None" and "stop (pseq k hv n) = Some r"
  shows "probe_from stop k hv = Some r"
  using assms(2) probe_skip [of n stop k hv, OF assms(1)]
    probe.simps [of stop "2 ^ k - 1" "fst (probe_state (2 ^ k - 1) hv n)"
        "snd (probe_state (2 ^ k - 1) hv n)"]
  by (simp add: pseq_def)

lemma probe_first_slot:
  assumes "k < 64" and "i < 2 ^ k" and "stop i \<noteq> None"
  shows "\<exists>n r. stop (pseq k hv n) = Some r \<and> (\<forall>j<n. stop (pseq k hv j) = None) \<and>
    probe_from stop k hv = Some r \<and> n < 13 + 2 ^ k"
proof -
  from pseq_all_slots [OF assms(1,2), of hv] obtain n where n: "n < 13 + 2 ^ k" "pseq k hv n = i" by auto
  have ex: "stop (pseq k hv n) \<noteq> None" using assms(3) n(2) by simp
  define m where "m = (LEAST n. stop (pseq k hv n) \<noteq> None)"
  have "stop (pseq k hv m) \<noteq> None" unfolding m_def using ex by (rule LeastI)
  then obtain r where r: "stop (pseq k hv m) = Some r" by blast
  have lt: "\<And>j. j < m \<Longrightarrow> stop (pseq k hv j) = None" unfolding m_def using not_less_Least by blast
  have "m \<le> n" unfolding m_def using ex by (rule Least_le)
  then have "m < 13 + 2 ^ k" using n(1) by simp
  then show ?thesis using r lt probe_first [of m stop k hv r, OF lt r] by blast
qed

text \<open>A loop that has no stop on any slot of the table does not return.\<close>

lemma probe_bound:
  "probe stop msk idx perturb = Some r \<Longrightarrow>
   unat idx < 2 ^ k \<longrightarrow> msk = 2 ^ k - 1 \<longrightarrow> (\<exists>i<2 ^ k. stop i = Some r)"
proof (erule probe.raw_induct [where
      P = "\<lambda>stop msk idx perturb r. unat idx < 2 ^ k \<longrightarrow> msk = 2 ^ k - 1 \<longrightarrow> (\<exists>i<2 ^ k. stop i = Some r)",
      rotated])
  fix pr :: "(nat \<Rightarrow> 'a option) \<Rightarrow> u64 \<Rightarrow> u64 \<Rightarrow> u64 \<Rightarrow> 'a option"
    and stop :: "nat \<Rightarrow> 'a option" and msk idx perturb :: u64 and r :: 'a
  assume IH: "\<And>stop msk idx perturb r. pr stop msk idx perturb = Some r \<Longrightarrow>
      unat idx < 2 ^ k \<longrightarrow> msk = 2 ^ k - 1 \<longrightarrow> (\<exists>i<2 ^ k. stop i = Some r)"
    and r: "(case stop (unat idx) of Some r \<Rightarrow> Some r
      | None \<Rightarrow> pr stop msk (probe_next msk idx perturb) (drop_bit PERTURB_SHIFT perturb)) = Some r"
  show "unat idx < 2 ^ k \<longrightarrow> msk = 2 ^ k - 1 \<longrightarrow> (\<exists>i<2 ^ k. stop i = Some r)"
  proof (intro impI)
    assume "unat idx < 2 ^ k" "msk = 2 ^ k - 1"
    moreover from this have "unat (probe_next msk idx perturb) < 2 ^ k" by (simp add: probe_next_def)
    ultimately show "\<exists>i<2 ^ k. stop i = Some r" using r IH by (auto split: option.splits)
  qed
qed

end
