(* ===== verification/Dict.thy ===== *)
theory Dict
  imports Prelude
begin

text \<open>
  The interface of a dictionary as the clients of \<^verbatim>\<open>xhash\<close> use it: keys are compared
  through \<open>cls\<close>, a new entry is put only under a key that is absent, and there is room for
  a number of puts. The client lemmas follow from the laws alone.
\<close>

fun put_all :: "('s \<Rightarrow> 'k \<Rightarrow> 'v \<Rightarrow> 's option) \<Rightarrow> ('k \<times> 'v) list \<Rightarrow> 's \<Rightarrow> 's option" where
  "put_all put [] s = Some s"
| "put_all put ((k, v) # kvs) s = (case put s k v of None \<Rightarrow> None | Some s \<Rightarrow> put_all put kvs s)"

locale dictionary =
  fixes find :: "'s \<Rightarrow> 'k \<Rightarrow> 'v option"
    and put :: "'s \<Rightarrow> 'k \<Rightarrow> 'v \<Rightarrow> 's option"
    and del :: "'s \<Rightarrow> 'k \<Rightarrow> 's option"
    and cls :: "'k \<Rightarrow> 'c"
    and okv :: "'v \<Rightarrow> bool"
    and mp :: "'s \<Rightarrow> 'c \<Rightarrow> 'v option"
    and invar :: "'s \<Rightarrow> bool"
    and room :: "'s \<Rightarrow> nat"
  assumes find: "invar s \<Longrightarrow> find s k = mp s (cls k)"
    and put: "invar s \<Longrightarrow> mp s (cls k) = None \<Longrightarrow> okv v \<Longrightarrow> 0 < room s \<Longrightarrow>
        \<exists>s'. put s k v = Some s' \<and> invar s' \<and> mp s' = (mp s)(cls k \<mapsto> v) \<and> room s \<le> Suc (room s')"
    and del: "invar s \<Longrightarrow> mp s (cls k) \<noteq> None \<Longrightarrow>
        \<exists>s'. del s k = Some s' \<and> invar s' \<and> mp s' = (mp s)(cls k := None)"
begin

lemma put_all_finds:
  assumes "invar s" and "distinct (map (\<lambda>p. cls (fst p)) kvs)" and "\<forall>(k, v)\<in>set kvs. okv v"
    and "\<forall>(k, v)\<in>set kvs. mp s (cls k) = None" and "length kvs \<le> room s"
  shows "\<exists>s'. put_all put kvs s = Some s' \<and> invar s' \<and> (\<forall>(k, v)\<in>set kvs. find s' k = Some v) \<and>
    (\<forall>k. cls k \<notin> (\<lambda>p. cls (fst p)) ` set kvs \<longrightarrow> find s' k = find s k)"
  using assms
proof (induction kvs arbitrary: s)
  case (Cons kv kvs)
  obtain k v where kv: "kv = (k, v)" by (rule prod.exhaust)
  have "mp s (cls k) = None" "okv v" "0 < room s" using Cons.prems(3-5) kv by auto
  from put [OF Cons.prems(1) this] obtain s1 where s1: "put s k v = Some s1" "invar s1"
    "mp s1 = (mp s)(cls k \<mapsto> v)" "room s \<le> Suc (room s1)" by blast
  have d: "distinct (map (\<lambda>p. cls (fst p)) kvs)" and k: "cls k \<notin> (\<lambda>p. cls (fst p)) ` set kvs"
    using Cons.prems(2) kv by auto
  have "mp s1 (cls (fst p)) = None" if "p \<in> set kvs" for p
  proof -
    have "cls (fst p) \<noteq> cls k" using k that by (metis image_eqI)
    moreover have "mp s (cls (fst p)) = None" using Cons.prems(4) that by (cases p) auto
    ultimately show ?thesis by (simp add: s1(3))
  qed
  then have "\<forall>(k, v)\<in>set kvs. mp s1 (cls k) = None" by auto
  moreover have "\<forall>(k, v)\<in>set kvs. okv v" "length kvs \<le> room s1" using Cons.prems(3,5) s1(4) by auto
  ultimately obtain s' where s': "put_all put kvs s1 = Some s'" "invar s'"
    "\<forall>(k, v)\<in>set kvs. find s' k = Some v"
    "\<forall>k. cls k \<notin> (\<lambda>p. cls (fst p)) ` set kvs \<longrightarrow> find s' k = find s1 k"
    using Cons.IH [OF s1(2) d] by blast
  have "find s' k = Some v" using s'(4) k find [OF s1(2)] by (simp add: s1(3))
  moreover have "find s' j = find s j" if "cls j \<notin> (\<lambda>p. cls (fst p)) ` set (kv # kvs)" for j
    using that s'(4) find [OF s1(2)] find [OF Cons.prems(1)] by (auto simp: s1(3) kv)
  ultimately show ?case using s' s1(1) kv by auto
qed simp

lemma put_del:
  assumes "invar s" and "mp s (cls k) = None" and "okv v" and "0 < room s"
  shows "\<exists>s1 s2. put s k v = Some s1 \<and> del s1 k = Some s2 \<and> find s1 k = Some v \<and>
    (\<forall>j. find s2 j = find s j)"
proof -
  from put [OF assms] obtain s1 where s1: "put s k v = Some s1" "invar s1" "mp s1 = (mp s)(cls k \<mapsto> v)"
    by blast
  moreover from this have "mp s1 (cls k) \<noteq> None" by simp
  from del [OF s1(2) this] obtain s2 where s2: "del s1 k = Some s2" "invar s2"
    "mp s2 = (mp s1)(cls k := None)" by blast
  have "mp s2 = mp s" using assms(2) by (auto simp: s2(3) s1(3))
  with s1 s2 show ?thesis by (simp add: find [OF s1(2)] find [OF s2(2)] find [OF assms(1)])
qed

end

end
