(* ===== verification/Xhash.thy ===== *)
theory Xhash
  imports Probe Dict
begin

text \<open>
  The hash table of \<^verbatim>\<open>xtypes/xhash.c\<close>, as the build configures it
  (\<^verbatim>\<open>VAL_OVERLOAD\<close>: with values, the two reserved values mark the unused and the deleted
  slots). The key and value arrays are the two halves of the block after the structure. A
  string key is an address; \<open>str\<close> gives the bytes of the string there, without the final
  zero. Counters are 64-bit words, \<^verbatim>\<open>size_shift\<close> is a natural below 64, and a loop that
  never returns has the value \<open>None\<close>. The statistics counters are compiled out.
\<close>

section \<open>Data\<close>

definition UNUSED :: u64 where "UNUSED = NOT 0"
definition DUMMY :: u64 where "DUMMY = NOT 0 - 1"
definition Noxhashidx :: u64 where "Noxhashidx = - 1"

definition XHASH_ERESIZE :: int where "XHASH_ERESIZE = 1"
definition XHASH_EEXIST :: int where "XHASH_EEXIST = 2"
definition XHASH_ENOSPC :: int where "XHASH_ENOSPC = 3"
definition XHASH_ENOENT :: int where "XHASH_ENOENT = 4"

lemmas xhash_errors = XHASH_ERESIZE_def XHASH_EEXIST_def XHASH_ENOSPC_def XHASH_ENOENT_def

datatype xhash_type = XHASH_INTEGER | XHASH_STRING

record xhash =
  xh_size_shift :: nat
  xh_minsize_shift :: nat
  xh_used :: u64
  xh_dummies :: u64
  xh_limit :: u64
  xh_type :: xhash_type
  xh_kvs :: "u64 list"
  xh_vals :: "u64 list"

type_synonym strings = "u64 \<Rightarrow> 8 word list"

definition xhash_elements :: "xhash \<Rightarrow> u64" where "xhash_elements h = xh_used h"

definition xhash_size :: "xhash \<Rightarrow> nat" where "xhash_size h = 2 ^ xh_size_shift h"

definition hash_int :: "u64 \<Rightarrow> u64" where "hash_int key = key"

definition cmp_int :: "u64 \<Rightarrow> u64 \<Rightarrow> bool" where "cmp_int key1 key2 \<longleftrightarrow> key1 = key2"

text \<open>A byte of a string, the final zero included, as a signed \<^verbatim>\<open>char\<close> is widened.\<close>

definition char_at :: "8 word list \<Rightarrow> nat \<Rightarrow> u64" where
  "char_at s i = (if i < length s then signed_take_bit 7 (ucast (s ! i)) else 0)"

definition hash_string :: "strings \<Rightarrow> u64 \<Rightarrow> u64" where
  "hash_string str key =
     (let string = str key; len = length string;
          hv = push_bit 7 (char_at string 0);
          hv = fold (\<lambda>i hv. (hv * 1000003) XOR char_at string i) [1..<len + 1] hv
      in if hv = Noxhashidx then Noxhashidx - 1 else hv)"

definition cmp_string :: "strings \<Rightarrow> u64 \<Rightarrow> u64 \<Rightarrow> bool" where
  "cmp_string str key1 key2 \<longleftrightarrow> str key1 = str key2"

definition cmp_fun :: "strings \<Rightarrow> xhash_type \<Rightarrow> u64 \<Rightarrow> u64 \<Rightarrow> bool" where
  "cmp_fun str t = (case t of XHASH_INTEGER \<Rightarrow> cmp_int | XHASH_STRING \<Rightarrow> cmp_string str)"

definition hash_fun :: "strings \<Rightarrow> xhash_type \<Rightarrow> u64 \<Rightarrow> u64" where
  "hash_fun str t = (case t of XHASH_INTEGER \<Rightarrow> hash_int | XHASH_STRING \<Rightarrow> hash_string str)"

section \<open>Slots\<close>

definition item_dummy :: "xhash \<Rightarrow> nat \<Rightarrow> bool \<Rightarrow> bool" where
  "item_dummy h idx vals = (if \<not> vals then xh_kvs h ! idx = DUMMY else xh_vals h ! idx = DUMMY)"

definition item_unused :: "xhash \<Rightarrow> nat \<Rightarrow> bool \<Rightarrow> bool" where
  "item_unused h idx vals = (if \<not> vals then xh_kvs h ! idx = UNUSED else xh_vals h ! idx = UNUSED)"

definition item_valid :: "xhash \<Rightarrow> nat \<Rightarrow> bool \<Rightarrow> bool" where
  "item_valid h idx vals \<longleftrightarrow> \<not> (item_dummy h idx vals \<or> item_unused h idx vals)"

definition set_dummy_item :: "nat \<Rightarrow> bool \<Rightarrow> xhash \<Rightarrow> xhash" where
  "set_dummy_item idx vals h =
     (if \<not> vals then h\<lparr>xh_kvs := (xh_kvs h)[idx := DUMMY]\<rparr>
      else h\<lparr>xh_vals := (xh_vals h)[idx := DUMMY]\<rparr>)"

section \<open>Creation\<close>

text \<open>\<open>mem\<close> is the block behind the structure, not initialised.\<close>

definition raw_xhash_init ::
  "u64 list \<Rightarrow> nat \<Rightarrow> nat \<Rightarrow> u64 \<Rightarrow> xhash_type \<Rightarrow> bool \<Rightarrow> xhash" where
  "raw_xhash_init mem size_shift minsize_shift limit t vals =
     (let nr_items = 2 ^ size_shift; ks = take nr_items mem; vs = drop nr_items mem;
          ks = (if \<not> vals then fill (\<lambda>i. i) (\<lambda>i. UNUSED) nr_items ks else ks);
          vs = (if vals then fill (\<lambda>i. i) (\<lambda>i. UNUSED) nr_items vs else vs)
      in \<lparr>xh_size_shift = size_shift, xh_minsize_shift = minsize_shift, xh_used = 0,
          xh_dummies = 0, xh_limit = limit, xh_type = t, xh_kvs = ks, xh_vals = vs\<rparr>)"

text \<open>The structure has 64 bytes: six words, the type, and the pointer.\<close>

definition get_alloc_size :: "nat \<Rightarrow> bool \<Rightarrow> nat" where
  "get_alloc_size size_shift vals =
     (let nr_items = 2 ^ size_shift; keys_size = nr_items * 8;
          alloc_size = (if vals then 2 * keys_size else keys_size)
      in 64 + alloc_size)"

definition raw_xhash_new ::
  "u64 list option \<Rightarrow> nat \<Rightarrow> nat \<Rightarrow> u64 \<Rightarrow> xhash_type \<Rightarrow> bool \<Rightarrow> xhash option" where
  "raw_xhash_new mem size_shift minsize_shift limit t vals =
     (case mem of None \<Rightarrow> None
      | Some block \<Rightarrow> Some (raw_xhash_init block size_shift minsize_shift limit t vals))"

definition raw_xhash_resize :: "u64 list option \<Rightarrow> xhash \<Rightarrow> nat \<Rightarrow> u64 \<Rightarrow> bool \<Rightarrow> xhash option" where
  "raw_xhash_resize mem h new_size_shift new_limit vals =
     raw_xhash_new mem new_size_shift (xh_minsize_shift h) new_limit (xh_type h) vals"

definition xhash_get_alloc_size :: "nat \<Rightarrow> nat" where
  "xhash_get_alloc_size size_shift = get_alloc_size size_shift True"

definition xhash_new :: "u64 list option \<Rightarrow> nat \<Rightarrow> u64 \<Rightarrow> xhash_type \<Rightarrow> xhash option" where
  "xhash_new mem minsize_shift limit t = raw_xhash_new mem minsize_shift minsize_shift limit t True"

definition xhash_init :: "u64 list \<Rightarrow> nat \<Rightarrow> u64 \<Rightarrow> xhash_type \<Rightarrow> xhash" where
  "xhash_init mem minsize_shift limit t = raw_xhash_init mem minsize_shift minsize_shift limit t True"

section \<open>Lookup and deletion\<close>

definition raw_xhash_lookup :: "strings \<Rightarrow> xhash \<Rightarrow> u64 \<Rightarrow> bool \<Rightarrow> (int \<times> nat option) option" where
  "raw_xhash_lookup str h key vals =
     (let hv = hash_fun str (xh_type h) key
      in probe_from (\<lambda>idx. if item_unused h idx vals then Some (- XHASH_EEXIST, None)
           else if \<not> item_dummy h idx vals \<and> cmp_fun str (xh_type h) (xh_kvs h ! idx) key
           then Some (0, Some idx) else None) (xh_size_shift h) hv)"

definition xhash_lookup :: "strings \<Rightarrow> xhash \<Rightarrow> u64 \<Rightarrow> (int \<times> u64 option) option" where
  "xhash_lookup str h key =
     map_option (\<lambda>(ret, idx). (ret, map_option (\<lambda>idx. xh_vals h ! idx) idx))
       (raw_xhash_lookup str h key True)"

definition raw_xhash_delete :: "strings \<Rightarrow> xhash \<Rightarrow> u64 \<Rightarrow> bool \<Rightarrow> (int \<times> xhash) option" where
  "raw_xhash_delete str h key vals =
     (let hv = hash_fun str (xh_type h) key
      in probe_from (\<lambda>idx. if item_unused h idx vals then Some (- XHASH_ENOENT, h)
           else if \<not> item_dummy h idx vals \<and> cmp_fun str (xh_type h) (xh_kvs h ! idx) key
           then let h = set_dummy_item idx vals h; h = h\<lparr>xh_dummies := xh_dummies h + 1\<rparr>
                in Some (0, h\<lparr>xh_used := xh_used h - 1\<rparr>)
           else None) (xh_size_shift h) hv)"

definition xhash_grow_size_shift :: "xhash \<Rightarrow> nat" where
  "xhash_grow_size_shift h =
     (let old_size_shift = xh_size_shift h; u = xh_used h
      in if u div 2 + u \<ge> 2 ^ old_size_shift then old_size_shift + 1 else old_size_shift)"

text \<open>\<open>old_size_shift - 1\<close> wraps for a shift of 0, and is then not below the minimum.\<close>

definition xhash_shrink_size_shift :: "xhash \<Rightarrow> nat" where
  "xhash_shrink_size_shift h =
     (let old_size_shift = xh_size_shift h;
          new_size_shift = (if old_size_shift = 0 then 2 ^ 64 - 1 else old_size_shift - 1)
      in if new_size_shift < xh_minsize_shift h then xh_minsize_shift h else new_size_shift)"

definition grow_check :: "xhash \<Rightarrow> bool" where
  "grow_check h = (let u = xh_used h + xh_dummies h in u div 2 + u \<ge> 2 ^ xh_size_shift h)"

definition shrink_check :: "xhash \<Rightarrow> bool" where
  "shrink_check h =
     (let u = xh_used h in 4 * u < 2 ^ xh_size_shift h \<and> xh_size_shift h > xh_minsize_shift h)"

definition xhash_delete :: "strings \<Rightarrow> xhash \<Rightarrow> u64 \<Rightarrow> (int \<times> xhash) option" where
  "xhash_delete str h key =
     (if shrink_check h then Some (- XHASH_ERESIZE, h) else raw_xhash_delete str h key True)"

section \<open>Insertion and update\<close>

definition set_val :: "nat \<Rightarrow> u64 \<Rightarrow> u64 \<Rightarrow> xhash \<Rightarrow> xhash" where
  "set_val idx key val h = h\<lparr>xh_kvs := (xh_kvs h)[idx := key], xh_vals := (xh_vals h)[idx := val]\<rparr>"

definition xhash_upd_set :: "nat \<Rightarrow> u64 \<Rightarrow> u64 \<Rightarrow> xhash \<Rightarrow> xhash" where
  "xhash_upd_set idx key val h =
     (let h = (if item_dummy h idx True then h\<lparr>xh_dummies := xh_dummies h - 1\<rparr> else h);
          h = h\<lparr>xh_used := xh_used h + 1\<rparr>
      in h\<lparr>xh_kvs := (xh_kvs h)[idx := key], xh_vals := (xh_vals h)[idx := val]\<rparr>)"

definition inc_val :: "nat \<Rightarrow> u64 \<Rightarrow> xhash \<Rightarrow> xhash" where
  "inc_val idx val h = h\<lparr>xh_vals := (xh_vals h)[idx := xh_vals h ! idx + val]\<rparr>"

text \<open>
  The macro \<^verbatim>\<open>PHASH_UPDATE\<close>: \<open>sets\<close> is \<^verbatim>\<open>PHUPD_SET__\<close> (\<open>None\<close> for \<^verbatim>\<open>goto again\<close>) and
  \<open>upd\<close> is \<^verbatim>\<open>PHUPD_UPDATE__\<close>.
\<close>

definition PHASH_UPDATE ::
  "strings \<Rightarrow> (nat \<Rightarrow> xhash \<Rightarrow> xhash) option \<Rightarrow> (nat \<Rightarrow> xhash \<Rightarrow> xhash) \<Rightarrow> xhash \<Rightarrow> u64 \<Rightarrow> bool \<Rightarrow>
   xhash option" where
  "PHASH_UPDATE str sets upd h key vals =
     (let hv = hash_fun str (xh_type h) key
      in probe_from (\<lambda>idx. if \<not> item_valid h idx vals then map_option (\<lambda>f. f idx h) sets
           else if cmp_fun str (xh_type h) (xh_kvs h ! idx) key then Some (upd idx h)
           else None) (xh_size_shift h) hv)"

definition raw_xhash_insert :: "strings \<Rightarrow> xhash \<Rightarrow> u64 \<Rightarrow> u64 \<Rightarrow> xhash option" where
  "raw_xhash_insert str h key val =
     PHASH_UPDATE str (Some (\<lambda>idx. xhash_upd_set idx key val)) (\<lambda>idx. set_val idx key val) h key True"

definition xhash_insert :: "strings \<Rightarrow> xhash \<Rightarrow> u64 \<Rightarrow> u64 \<Rightarrow> (int \<times> xhash) option" where
  "xhash_insert str h key val =
     (if xh_limit h \<noteq> 0 \<and> xh_used h \<ge> xh_limit h then Some (- XHASH_ENOSPC, h)
      else if grow_check h then Some (- XHASH_ERESIZE, h)
      else map_option (\<lambda>h. (0, h)) (raw_xhash_insert str h key val))"

definition raw_xhash_freql_update :: "strings \<Rightarrow> xhash \<Rightarrow> u64 \<Rightarrow> u64 \<Rightarrow> xhash option" where
  "raw_xhash_freql_update str h key val =
     PHASH_UPDATE str (Some (\<lambda>idx. xhash_upd_set idx key val)) (\<lambda>idx. inc_val idx val) h key True"

definition xhash_freql_update :: "strings \<Rightarrow> xhash \<Rightarrow> u64 \<Rightarrow> u64 \<Rightarrow> (int \<times> xhash) option" where
  "xhash_freql_update str h key val =
     (if grow_check h then Some (- XHASH_ERESIZE, h)
      else map_option (\<lambda>h. (0, h)) (raw_xhash_freql_update str h key val))"

definition xhash_update :: "strings \<Rightarrow> xhash \<Rightarrow> u64 \<Rightarrow> u64 \<Rightarrow> (int \<times> xhash) option" where
  "xhash_update str h key val =
     map_option (\<lambda>h. (1, h)) (PHASH_UPDATE str None (\<lambda>idx. set_val idx key val) h key True)"

text \<open>
  The memory of the new table is the caller's or what the allocation returns (\<open>None\<close> for a
  failed one). The outer option is the loop, the inner one the null pointer.
\<close>

definition resize_step :: "strings \<Rightarrow> xhash \<Rightarrow> nat \<Rightarrow> xhash option \<Rightarrow> xhash option" where
  "resize_step str h i new =
     (case new of None \<Rightarrow> None
      | Some t \<Rightarrow> if item_valid h i True then raw_xhash_insert str t (xh_kvs h ! i) (xh_vals h ! i)
                 else Some t)"

definition xhash_resize ::
  "strings \<Rightarrow> xhash \<Rightarrow> nat \<Rightarrow> u64 \<Rightarrow> u64 list option \<Rightarrow> xhash option option" where
  "xhash_resize str h new_size_shift new_limit mem =
     (case raw_xhash_resize mem h new_size_shift new_limit True of None \<Rightarrow> Some None
      | Some new \<Rightarrow> map_option Some (fold (resize_step str h) [0..<xhash_size h] (Some new)))"

section \<open>Iteration\<close>

record xhash_iter =
  it_loc :: nat
  it_cnt :: u64

definition xhash_iter_init :: xhash_iter where "xhash_iter_init = \<lparr>it_loc = 0, it_cnt = 0\<rparr>"

text \<open>The loop over the slots; the result is the slot found, if any, and the iterator.\<close>

function iterate_from :: "xhash \<Rightarrow> bool \<Rightarrow> nat \<Rightarrow> xhash_iter \<Rightarrow> nat option \<times> xhash_iter" where
  "iterate_from h vals idx pi =
     (if xh_used h = it_cnt pi \<or> idx \<ge> xhash_size h then (None, pi)
      else if item_valid h idx vals then (Some idx, \<lparr>it_loc = idx + 1, it_cnt = it_cnt pi + 1\<rparr>)
      else iterate_from h vals (idx + 1) pi)"
  by pat_completeness auto
termination by (relation "measure (\<lambda>(h, vals, idx, pi). xhash_size h - idx)") auto

declare iterate_from.simps [simp del]

definition raw_xhash_iterate :: "xhash \<Rightarrow> bool \<Rightarrow> xhash_iter \<Rightarrow> (u64 \<times> nat) option \<times> xhash_iter" where
  "raw_xhash_iterate h vals pi =
     (let (r, pi) = iterate_from h vals (it_loc pi) pi
      in (map_option (\<lambda>idx. (xh_kvs h ! idx, idx)) r, pi))"

definition xhash_iterate :: "xhash \<Rightarrow> xhash_iter \<Rightarrow> (u64 \<times> u64) option \<times> xhash_iter" where
  "xhash_iterate h pi =
     (let (r, pi) = raw_xhash_iterate h True pi
      in (map_option (\<lambda>(key, idx). (key, xh_vals h ! idx)) r, pi))"

lemma iterate_from_loc:
  "iterate_from h vals idx pi = (Some i, pi') \<Longrightarrow> idx \<le> i \<and> i < xhash_size h \<and> it_loc pi' = Suc i"
proof (induction h vals idx pi rule: iterate_from.induct)
  case (1 h vals idx pi)
  then show ?case by (subst (asm) (2) iterate_from.simps) (fastforce split: if_splits)
qed

text \<open>The pairs that \<^verbatim>\<open>xhash_print\<close> logs, in order.\<close>

function xhash_print :: "xhash \<Rightarrow> xhash_iter \<Rightarrow> (u64 \<times> u64) list" where
  "xhash_print h pi =
     (case xhash_iterate h pi of (None, _) \<Rightarrow> [] | (Some kv, pi) \<Rightarrow> kv # xhash_print h pi)"
  by pat_completeness auto
termination
proof (relation "measure (\<lambda>(h, pi). xhash_size h - it_loc pi)")
  fix h pi r pi' kv assume "(r, pi') = xhash_iterate h pi" "r = Some kv"
  then obtain i where "iterate_from h True (it_loc pi) pi = (Some i, pi')"
    by (cases "iterate_from h True (it_loc pi) pi"; cases "fst (iterate_from h True (it_loc pi) pi)")
      (auto simp: xhash_iterate_def raw_xhash_iterate_def)
  then show "((h, pi'), h, pi) \<in> measure (\<lambda>(h, pi). xhash_size h - it_loc pi)"
    by (auto dest: iterate_from_loc)
qed simp

declare xhash_print.simps [simp del]

section \<open>Keys up to comparison\<close>

text \<open>What the comparison distinguishes: the number, or the bytes of the string.\<close>

type_synonym key_class = "u64 + 8 word list"

definition key_of :: "strings \<Rightarrow> xhash_type \<Rightarrow> u64 \<Rightarrow> key_class" where
  "key_of str t k = (case t of XHASH_INTEGER \<Rightarrow> Inl k | XHASH_STRING \<Rightarrow> Inr (str k))"

lemma cmp_key_of: "cmp_fun str t a b \<longleftrightarrow> key_of str t a = key_of str t b"
  by (cases t) (simp_all add: cmp_fun_def key_of_def cmp_int_def cmp_string_def)

lemma hash_key_of: "key_of str t a = key_of str t b \<Longrightarrow> hash_fun str t a = hash_fun str t b"
  by (cases t) (simp_all add: hash_fun_def key_of_def hash_int_def hash_string_def)

section \<open>The table invariant\<close>

abbreviation unusedp :: "xhash \<Rightarrow> nat \<Rightarrow> bool" where "unusedp h i \<equiv> item_unused h i True"
abbreviation dummyp :: "xhash \<Rightarrow> nat \<Rightarrow> bool" where "dummyp h i \<equiv> item_dummy h i True"
abbreviation validp :: "xhash \<Rightarrow> nat \<Rightarrow> bool" where "validp h i \<equiv> item_valid h i True"

definition slots_of :: "xhash \<Rightarrow> (nat \<Rightarrow> bool) \<Rightarrow> nat set" where
  "slots_of h P = {i. i < xhash_size h \<and> P i}"

definition slot_key :: "strings \<Rightarrow> xhash \<Rightarrow> nat \<Rightarrow> key_class" where
  "slot_key str h i = key_of str (xh_type h) (xh_kvs h ! i)"

definition slot_seq :: "strings \<Rightarrow> xhash \<Rightarrow> u64 \<Rightarrow> nat \<Rightarrow> nat" where
  "slot_seq str h k = pseq (xh_size_shift h) (hash_fun str (xh_type h) k)"

text \<open>
  Every entry is on the probe sequence of its key before any unused slot, no key has two
  entries, the counters count, and at least one slot is unused.
\<close>

definition reach_ok :: "strings \<Rightarrow> xhash \<Rightarrow> bool" where
  "reach_ok str h \<longleftrightarrow> (\<forall>i<xhash_size h. validp h i \<longrightarrow>
     (\<exists>n. slot_seq str h (xh_kvs h ! i) n = i \<and> (\<forall>j<n. \<not> unusedp h (slot_seq str h (xh_kvs h ! i) j))))"

definition uniq_ok :: "strings \<Rightarrow> xhash \<Rightarrow> bool" where
  "uniq_ok str h \<longleftrightarrow> (\<forall>i<xhash_size h. \<forall>j<xhash_size h. validp h i \<longrightarrow> validp h j \<longrightarrow>
     slot_key str h i = slot_key str h j \<longrightarrow> i = j)"

definition xh_wf :: "xhash \<Rightarrow> bool" where
  "xh_wf h \<longleftrightarrow> xh_size_shift h < 63 \<and> length (xh_kvs h) = xhash_size h \<and>
     length (xh_vals h) = xhash_size h \<and>
     unat (xh_used h) = card (slots_of h (validp h)) \<and>
     unat (xh_dummies h) = card (slots_of h (dummyp h)) \<and>
     unat (xh_used h) + unat (xh_dummies h) < xhash_size h"

definition xh_inv :: "strings \<Rightarrow> xhash \<Rightarrow> bool" where
  "xh_inv str h \<longleftrightarrow> xh_wf h \<and> reach_ok str h \<and> uniq_ok str h"

text \<open>The contents: a map from keys, up to comparison, to values.\<close>

definition has :: "strings \<Rightarrow> xhash \<Rightarrow> key_class \<Rightarrow> nat \<Rightarrow> bool" where
  "has str h c i \<longleftrightarrow> i < xhash_size h \<and> validp h i \<and> slot_key str h i = c"

definition xh_map :: "strings \<Rightarrow> xhash \<Rightarrow> key_class \<Rightarrow> u64 option" where
  "xh_map str h = map_of (map (\<lambda>i. (slot_key str h i, xh_vals h ! i)) (filter (validp h) [0..<xhash_size h]))"

lemma slot_cases: "validp h i \<or> dummyp h i \<or> unusedp h i" "\<not> (dummyp h i \<and> unusedp h i)"
  "validp h i \<Longrightarrow> \<not> dummyp h i \<and> \<not> unusedp h i"
  by (auto simp: item_valid_def item_dummy_def item_unused_def UNUSED_def DUMMY_def)

lemma xh_map_has:
  assumes "uniq_ok str h"
  shows "has str h c i \<Longrightarrow> xh_map str h c = Some (xh_vals h ! i)"
    and "(\<nexists>i. has str h c i) \<Longrightarrow> xh_map str h c = None"
proof -
  let ?l = "map (\<lambda>i. (slot_key str h i, xh_vals h ! i)) (filter (validp h) [0..<xhash_size h])"
  have "distinct (map fst ?l)"
    using assms by (auto simp: distinct_map inj_on_def uniq_ok_def)
  moreover assume "has str h c i"
  then have "(c, xh_vals h ! i) \<in> set ?l" by (auto simp: has_def)
  ultimately show "xh_map str h c = Some (xh_vals h ! i)" by (simp add: xh_map_def)
next
  assume "\<nexists>i. has str h c i"
  then show "xh_map str h c = None" by (auto simp: xh_map_def map_of_eq_None_iff has_def)
qed

lemma xh_map_Some:
  assumes "uniq_ok str h"
  shows "xh_map str h c = Some v \<longleftrightarrow> (\<exists>i. has str h c i \<and> xh_vals h ! i = v)"
  using xh_map_has [OF assms] by (metis option.distinct(1) option.inject)

lemma has_uniq: "uniq_ok str h \<Longrightarrow> has str h c i \<Longrightarrow> has str h c j \<Longrightarrow> i = j"
  by (auto simp: uniq_ok_def has_def)

lemma slot_seq_less [simp]: "slot_seq str h k n < xhash_size h"
  by (simp add: slot_seq_def xhash_size_def)

lemma slot_seq_cong:
  "key_of str (xh_type h) a = key_of str (xh_type h) b \<Longrightarrow> slot_seq str h a = slot_seq str h b"
  using hash_key_of by (metis slot_seq_def)

text \<open>Counting slots: there is one that was never used.\<close>

lemma finite_slots [simp]: "finite (slots_of h P)"
  by (simp add: slots_of_def)

lemma slots_partition:
  "card (slots_of h (validp h)) + card (slots_of h (dummyp h)) + card (slots_of h (unusedp h)) = xhash_size h"
proof -
  have u: "{..<xhash_size h} = slots_of h (validp h) \<union> (slots_of h (dummyp h) \<union> slots_of h (unusedp h))"
    using slot_cases(1) by (auto simp: slots_of_def)
  have d: "slots_of h (validp h) \<inter> (slots_of h (dummyp h) \<union> slots_of h (unusedp h)) = {}"
    "slots_of h (dummyp h) \<inter> slots_of h (unusedp h) = {}"
    using slot_cases(2,3) by (auto simp: slots_of_def)
  have "card {..<xhash_size h} = card (slots_of h (validp h)) +
      (card (slots_of h (dummyp h)) + card (slots_of h (unusedp h)))"
    unfolding u using d by (simp add: card_Un_disjoint)
  then show ?thesis by simp
qed

lemma unused_exists:
  assumes "xh_wf h"
  obtains i where "i < xhash_size h" "unusedp h i"
proof -
  from assms slots_partition [of h] have "card (slots_of h (unusedp h)) \<noteq> 0"
    unfolding xh_wf_def by linarith
  then have "slots_of h (unusedp h) \<noteq> {}" by auto
  with that show ?thesis by (auto simp: slots_of_def)
qed

text \<open>
  The search the lookup and the deletion make: it always ends, at the entry of the key if
  there is one and otherwise at an unused slot.
\<close>

lemma search_result:
  fixes miss :: 'r and hit :: "nat \<Rightarrow> 'r"
  assumes "xh_inv str h" and "hv = hash_fun str (xh_type h) key"
  defines "stop \<equiv> \<lambda>idx. if unusedp h idx then Some miss
      else if \<not> dummyp h idx \<and> cmp_fun str (xh_type h) (xh_kvs h ! idx) key then Some (hit idx) else None"
  shows "has str h (key_of str (xh_type h) key) i \<Longrightarrow> probe_from stop (xh_size_shift h) hv = Some (hit i)"
    and "(\<nexists>i. has str h (key_of str (xh_type h) key) i) \<Longrightarrow> probe_from stop (xh_size_shift h) hv = Some miss"
proof -
  from assms(1) have wf: "xh_wf h" and r: "reach_ok str h" and u: "uniq_ok str h"
    by (simp_all add: xh_inv_def)
  have sq: "slot_seq str h key = pseq (xh_size_shift h) hv" by (simp add: slot_seq_def assms(2) fun_eq_iff)
  have st: "stop j = (if unusedp h j then Some miss
      else if has str h (key_of str (xh_type h) key) j then Some (hit j) else None)" if "j < xhash_size h" for j
    using that slot_cases [of h j] by (auto simp: stop_def has_def slot_key_def cmp_key_of)
  {
    assume h: "has str h (key_of str (xh_type h) key) i"
    then have i: "i < xhash_size h" "validp h i" and k: "key_of str (xh_type h) (xh_kvs h ! i) = key_of str (xh_type h) key"
      by (simp_all add: has_def slot_key_def)
    from r i obtain n where n: "slot_seq str h key n = i" "\<forall>j<n. \<not> unusedp h (slot_seq str h key j)"
      unfolding reach_ok_def using slot_seq_cong [OF k] by metis
    define m where "m = (LEAST n. slot_seq str h key n = i)"
    have m: "slot_seq str h key m = i" "m \<le> n" "\<And>j. j < m \<Longrightarrow> slot_seq str h key j \<noteq> i"
      unfolding m_def using n(1) by (auto intro: LeastI Least_le dest: not_less_Least)
    show "probe_from stop (xh_size_shift h) hv = Some (hit i)"
    proof (rule probe_first [of m])
      show "stop (pseq (xh_size_shift h) hv j) = None" if "j < m" for j
      proof -
        have "\<not> has str h (key_of str (xh_type h) key) (slot_seq str h key j)"
          using has_uniq [OF u _ h] m(3) [OF that] by blast
        moreover have "\<not> unusedp h (slot_seq str h key j)" using n(2) m(2) that by simp
        ultimately show ?thesis using st [of "slot_seq str h key j"] by (simp add: sq [symmetric])
      qed
      show "stop (pseq (xh_size_shift h) hv m) = Some (hit i)"
        using m(1) st [OF i(1)] h slot_cases(3) [OF i(2)] by (simp add: sq)
    qed
  }
  assume no: "\<nexists>i. has str h (key_of str (xh_type h) key) i"
  obtain i where i: "i < xhash_size h" "unusedp h i" by (rule unused_exists [OF wf])
  have "stop i \<noteq> None" using i by (simp add: stop_def)
  moreover have "xh_size_shift h < 64" "i < 2 ^ xh_size_shift h"
    using wf i by (simp_all add: xh_wf_def xhash_size_def)
  ultimately obtain n x where "stop (pseq (xh_size_shift h) hv n) = Some x"
    "probe_from stop (xh_size_shift h) hv = Some x" by (metis probe_first_slot)
  then show "probe_from stop (xh_size_shift h) hv = Some miss"
    using no st [of "slot_seq str h key n"] by (auto simp: sq [symmetric] split: if_splits)
qed

lemma lookup_result:
  assumes "xh_inv str h"
  shows "xhash_lookup str h key =
    Some (case xh_map str h (key_of str (xh_type h) key) of None \<Rightarrow> (- XHASH_EEXIST, None)
          | Some v \<Rightarrow> (0, Some v))"
proof -
  from assms have u: "uniq_ok str h" by (simp add: xh_inv_def)
  note s = search_result [OF assms refl, where key = key and
      miss = "(- XHASH_EEXIST, None)" and hit = "\<lambda>i. (0, Some i)"]
  show ?thesis
  proof (cases "\<exists>i. has str h (key_of str (xh_type h) key) i")
    case True
    then obtain i where i: "has str h (key_of str (xh_type h) key) i" by blast
    with s(1) [OF i] xh_map_has(1) [OF u i] show ?thesis
      by (simp add: xhash_lookup_def raw_xhash_lookup_def Let_def)
  next
    case False
    with s(2) xh_map_has(2) [OF u] show ?thesis
      by (simp add: xhash_lookup_def raw_xhash_lookup_def Let_def)
  qed
qed

section \<open>Writing a slot\<close>

text \<open>
  The table with one slot rewritten: every operation that changes the table does this, and
  adjusts the counters.
\<close>

definition put_slot :: "xhash \<Rightarrow> nat \<Rightarrow> u64 \<Rightarrow> u64 \<Rightarrow> u64 \<Rightarrow> u64 \<Rightarrow> xhash" where
  "put_slot h i key val us ds = h\<lparr>xh_kvs := (xh_kvs h)[i := key], xh_vals := (xh_vals h)[i := val],
     xh_used := us, xh_dummies := ds\<rparr>"

lemma put_slot_simps [simp]:
  "xh_size_shift (put_slot h i key val us ds) = xh_size_shift h"
  "xh_type (put_slot h i key val us ds) = xh_type h"
  "xh_limit (put_slot h i key val us ds) = xh_limit h"
  "xh_minsize_shift (put_slot h i key val us ds) = xh_minsize_shift h"
  "xh_used (put_slot h i key val us ds) = us" "xh_dummies (put_slot h i key val us ds) = ds"
  "xhash_size (put_slot h i key val us ds) = xhash_size h"
  "slot_seq str (put_slot h i key val us ds) = slot_seq str h"
  by (simp_all add: put_slot_def xhash_size_def slot_seq_def fun_eq_iff)

lemma wf_small: "xh_wf h \<Longrightarrow> xhash_size h < 2 ^ 63"
  using power_strict_increasing [of "xh_size_shift h" 63 "2 :: nat"] by (simp add: xh_wf_def xhash_size_def)

lemma put_slot_nth:
  assumes "xh_wf h" and "i < xhash_size h"
  shows "xh_kvs (put_slot h i key val us ds) ! j = (if j = i then key else xh_kvs h ! j)"
    and "xh_vals (put_slot h i key val us ds) ! j = (if j = i then val else xh_vals h ! j)"
  using assms by (simp_all add: put_slot_def xh_wf_def)

lemma put_slot_preds:
  assumes "xh_wf h" and "i < xhash_size h"
  shows "validp (put_slot h i key val us ds) j \<longleftrightarrow> (if j = i then val \<noteq> DUMMY \<and> val \<noteq> UNUSED else validp h j)"
    and "dummyp (put_slot h i key val us ds) j \<longleftrightarrow> (if j = i then val = DUMMY else dummyp h j)"
    and "unusedp (put_slot h i key val us ds) j \<longleftrightarrow> (if j = i then val = UNUSED else unusedp h j)"
    and "slot_key str (put_slot h i key val us ds) j = (if j = i then key_of str (xh_type h) key else slot_key str h j)"
  using put_slot_nth [OF assms]
  by (simp_all add: item_valid_def item_dummy_def item_unused_def slot_key_def)

lemma put_slot_has:
  assumes "xh_wf h" and "i < xhash_size h"
  shows "has str (put_slot h i key val us ds) c j \<longleftrightarrow>
    (if j = i then val \<noteq> DUMMY \<and> val \<noteq> UNUSED \<and> key_of str (xh_type h) key = c else has str h c j)"
  using assms by (auto simp: has_def put_slot_preds)

lemma xh_map_changed:
  assumes "uniq_ok str t" and "uniq_ok str h"
    and "\<And>j. has str t c j \<longleftrightarrow> x \<noteq> None \<and> j = i" and "\<And>v. x = Some v \<Longrightarrow> xh_vals t ! i = v"
    and "\<And>d j. d \<noteq> c \<Longrightarrow> has str t d j \<longleftrightarrow> has str h d j"
    and "\<And>d j. d \<noteq> c \<Longrightarrow> has str h d j \<Longrightarrow> xh_vals t ! j = xh_vals h ! j"
  shows "xh_map str t = (xh_map str h)(c := x)"
proof
  fix d
  have "xh_map str t d = Some v \<longleftrightarrow> ((xh_map str h)(c := x)) d = Some v" for v
  proof (cases "d = c")
    case True
    then show ?thesis using assms(3,4) by (auto simp: xh_map_Some [OF assms(1)])
  next
    case False
    then show ?thesis unfolding fun_upd_other [OF False] xh_map_Some [OF assms(1)] xh_map_Some [OF assms(2)]
      using assms(5,6) by metis
  qed
  then show "xh_map str t d = ((xh_map str h)(c := x)) d" by (metis not_None_eq)
qed

text \<open>Writing an entry over an unused or deleted slot that ends the search of its key.\<close>

lemma slots_put:
  assumes "xh_wf h" and "i < xhash_size h"
  shows "slots_of (put_slot h i key val us ds) (validp (put_slot h i key val us ds)) =
      (if val \<noteq> DUMMY \<and> val \<noteq> UNUSED then insert i (slots_of h (validp h)) else slots_of h (validp h) - {i})"
    and "slots_of (put_slot h i key val us ds) (dummyp (put_slot h i key val us ds)) =
      (if val = DUMMY then insert i (slots_of h (dummyp h)) else slots_of h (dummyp h) - {i})"
  using assms by (auto simp: slots_of_def put_slot_preds)

lemma put_new:
  assumes inv: "xh_inv str h" and n: "slot_seq str h key n = i"
    and path: "\<And>j. j < n \<Longrightarrow> \<not> unusedp h (slot_seq str h key j)"
    and nv: "\<not> validp h i" and absent: "\<nexists>j. has str h (key_of str (xh_type h) key) j"
    and val: "val \<noteq> DUMMY" "val \<noteq> UNUSED"
    and room: "unat (xh_used h) + unat (xh_dummies h) + 1 < xhash_size h"
    and t: "t = put_slot h i key val (xh_used h + 1) (if dummyp h i then xh_dummies h - 1 else xh_dummies h)"
  shows "xh_inv str t" and "unat (xh_used t) = unat (xh_used h) + 1"
    and "xh_map str t = (xh_map str h)(key_of str (xh_type h) key \<mapsto> val)"
proof -
  from inv have wf: "xh_wf h" and r: "reach_ok str h" and u: "uniq_ok str h" by (simp_all add: xh_inv_def)
  have i: "i < xhash_size h" using n by auto
  note w = wf [unfolded xh_wf_def] and p = put_slot_preds [OF wf i] and nth = put_slot_nth [OF wf i]
  note small = wf_small [OF wf]
  have us: "unat (xh_used h + 1) = unat (xh_used h) + 1"
    using room small by (subst unat_word_ariths(1)) simp
  have iv: "i \<notin> slots_of h (validp h)" using nv by (simp add: slots_of_def)
  have ds: "unat (xh_dummies t) = card (slots_of h (dummyp h) - {i})"
  proof (cases "dummyp h i")
    case True
    then have "i \<in> slots_of h (dummyp h)" using i by (simp add: slots_of_def)
    moreover from this w have "unat (xh_dummies h) \<noteq> 0" by (metis card_0_eq empty_iff finite_slots)
    then have "unat (xh_dummies h - 1) = unat (xh_dummies h) - 1"
      by (metis One_nat_def unat_eq_zero unat_minus_one)
    ultimately show ?thesis using w True by (simp add: t)
  next
    case False
    then have "i \<notin> slots_of h (dummyp h)" by (simp add: slots_of_def)
    then show ?thesis using w False by (simp add: t)
  qed
  have "card (slots_of h (dummyp h) - {i}) \<le> unat (xh_dummies h)" using w by (simp add: card_Diff1_le)
  moreover have "length (xh_kvs t) = xhash_size h" "length (xh_vals t) = xhash_size h"
    using w by (simp_all add: t put_slot_def)
  ultimately have "xh_wf t"
    using w us iv val ds room slots_put [OF wf i, of key val "xh_used t" "xh_dummies t"]
    unfolding xh_wf_def by (simp add: t)
  moreover have "reach_ok str t" unfolding reach_ok_def
  proof (intro allI impI)
    fix j assume j: "j < xhash_size t" "validp t j"
    show "\<exists>n. slot_seq str t (xh_kvs t ! j) n = j \<and> (\<forall>m<n. \<not> unusedp t (slot_seq str t (xh_kvs t ! j) m))"
    proof (cases "j = i")
      case True
      then show ?thesis using n path val by (intro exI [of _ n]) (auto simp: t nth p)
    next
      case False
      then have "j < xhash_size h" "validp h j" using j by (simp_all add: t p)
      with r obtain m where "slot_seq str h (xh_kvs h ! j) m = j"
        "\<forall>l<m. \<not> unusedp h (slot_seq str h (xh_kvs h ! j) l)" unfolding reach_ok_def by blast
      with False val show ?thesis by (intro exI [of _ m]) (auto simp: t nth p)
    qed
  qed
  moreover have ut: "uniq_ok str t"
  proof -
    have eq: "a = b" if "a < xhash_size h" "b < xhash_size h" "validp t a" "validp t b"
      "slot_key str t a = slot_key str t b" for a b
    proof -
      have new: "j = i" if "j < xhash_size h" "validp t j" "slot_key str t j = key_of str (xh_type h) key" for j
        using that absent unfolding t p has_def by metis
      have old: "validp h j \<and> slot_key str t j = slot_key str h j" if "validp t j" "j \<noteq> i" for j
        using that by (simp add: t p)
      have ki: "slot_key str t i = key_of str (xh_type h) key" by (simp add: t p)
      show "a = b"
      proof (cases "a = i \<or> b = i")
        case True
        then show ?thesis using new ki that by metis
      next
        case False
        then show ?thesis using old [of a] old [of b] u that unfolding uniq_ok_def by metis
      qed
    qed
    have "xhash_size t = xhash_size h" by (simp add: t)
    then show ?thesis unfolding uniq_ok_def using eq by metis
  qed
  ultimately show "xh_inv str t" by (simp add: xh_inv_def)
  show "unat (xh_used t) = unat (xh_used h) + 1" using us by (simp add: t)
  have hs: "has str t c j \<longleftrightarrow> (if j = i then key_of str (xh_type h) key = c else has str h c j)" for c j
    using val by (simp add: t put_slot_has [OF wf i])
  have ni: "\<not> has str h c i" for c using nv by (simp add: has_def)
  have nt: "xh_vals t ! j = (if j = i then val else xh_vals h ! j)" for j by (simp add: t nth)
  have hk: "has str h d j \<Longrightarrow> j \<noteq> i" for d j using ni by blast
  show "xh_map str t = (xh_map str h)(key_of str (xh_type h) key \<mapsto> val)"
  proof (rule xh_map_changed [OF ut u, of _ _ i])
    show "has str t (key_of str (xh_type h) key) j \<longleftrightarrow> Some val \<noteq> None \<and> j = i" for j
      using absent by (auto simp: hs)
    show "has str t d j \<longleftrightarrow> has str h d j" if "d \<noteq> key_of str (xh_type h) key" for d j
      using that hk by (auto simp: hs)
    show "xh_vals t ! j = xh_vals h ! j" if "has str h d j" for d j using hk [OF that] by (simp add: nt)
  qed (simp add: nt)
qed

text \<open>Rewriting the value of the entry of a key, and turning the entry into a deleted slot.\<close>

lemma put_old:
  assumes inv: "xh_inv str h" and hs: "has str h (key_of str (xh_type h) key) i"
    and val: "val \<noteq> DUMMY" "val \<noteq> UNUSED" and t: "t = put_slot h i key val (xh_used h) (xh_dummies h)"
  shows "xh_inv str t" and "xh_map str t = (xh_map str h)(key_of str (xh_type h) key \<mapsto> val)"
proof -
  from inv have wf: "xh_wf h" and r: "reach_ok str h" and u: "uniq_ok str h" by (simp_all add: xh_inv_def)
  have i: "i < xhash_size h" "validp h i" and k: "slot_key str h i = key_of str (xh_type h) key"
    using hs by (simp_all add: has_def)
  note w = wf [unfolded xh_wf_def] and p = put_slot_preds [OF wf i(1)] and nth = put_slot_nth [OF wf i(1)]
  have "i \<in> slots_of h (validp h)" "i \<notin> slots_of h (dummyp h)"
    using i slot_cases(3) [OF i(2)] by (simp_all add: slots_of_def)
  then have "slots_of t (validp t) = slots_of h (validp h)" "slots_of t (dummyp t) = slots_of h (dummyp h)"
    using val unfolding t by (simp_all add: slots_put [OF wf i(1)] insert_absorb)
  moreover have "length (xh_kvs t) = xhash_size h" "length (xh_vals t) = xhash_size h"
    using w by (simp_all add: t put_slot_def)
  ultimately have "xh_wf t" using w unfolding xh_wf_def by (simp add: t)
  moreover have sk: "slot_seq str h (xh_kvs t ! j) = slot_seq str h (xh_kvs h ! j)" for j
    using slot_seq_cong [of str h "xh_kvs h ! i" key] k by (simp add: t nth slot_key_def)
  have vt: "validp t j \<longleftrightarrow> validp h j" "unusedp t j \<longleftrightarrow> unusedp h j" for j
    using i slot_cases(3) [OF i(2)] val by (simp_all add: t p)
  have st: "slot_key str t j = slot_key str h j" for j using k by (simp add: t p)
  have "reach_ok str t" using r unfolding reach_ok_def by (simp add: vt) (simp add: t sk [unfolded t])
  moreover have ut: "uniq_ok str t" using u unfolding uniq_ok_def by (simp add: vt st) (simp add: t)
  ultimately show "xh_inv str t" by (simp add: xh_inv_def)
  have ht: "has str t c j \<longleftrightarrow> has str h c j" for c j by (simp add: has_def vt st) (simp add: t)
  have nt: "xh_vals t ! j = (if j = i then val else xh_vals h ! j)" for j by (simp add: t nth)
  have hi: "has str h c i \<longleftrightarrow> c = key_of str (xh_type h) key" for c using hs by (auto simp: has_def)
  show "xh_map str t = (xh_map str h)(key_of str (xh_type h) key \<mapsto> val)"
  proof (rule xh_map_changed [OF ut u, of _ _ i])
    show "has str t (key_of str (xh_type h) key) j \<longleftrightarrow> Some val \<noteq> None \<and> j = i" for j
      unfolding ht using has_uniq [OF u hs] hs by blast
    show "xh_vals t ! j = xh_vals h ! j" if "d \<noteq> key_of str (xh_type h) key" "has str h d j" for d j
      using that hi by (auto simp: nt)
  qed (simp_all add: nt ht)
qed

lemma put_dummy:
  assumes inv: "xh_inv str h" and hs: "has str h c i"
    and t: "t = put_slot h i (xh_kvs h ! i) DUMMY (xh_used h - 1) (xh_dummies h + 1)"
  shows "xh_inv str t" and "xh_map str t = (xh_map str h)(c := None)"
    and "unat (xh_used t) + 1 = unat (xh_used h)"
proof -
  from inv have wf: "xh_wf h" and r: "reach_ok str h" and u: "uniq_ok str h" by (simp_all add: xh_inv_def)
  have i: "i < xhash_size h" "validp h i" using hs by (simp_all add: has_def)
  note w = wf [unfolded xh_wf_def] and p = put_slot_preds [OF wf i(1)] and nth = put_slot_nth [OF wf i(1)]
  have iv: "i \<in> slots_of h (validp h)" "i \<notin> slots_of h (dummyp h)"
    using i slot_cases(3) [OF i(2)] by (simp_all add: slots_of_def)
  have sl: "slots_of t (validp t) = slots_of h (validp h) - {i}"
    "slots_of t (dummyp t) = insert i (slots_of h (dummyp h))"
    unfolding t by (simp_all add: slots_put [OF wf i(1)])
  have "unat (xh_used h) \<noteq> 0" using iv w by (metis card_0_eq empty_iff finite_slots)
  then have us: "unat (xh_used h - 1) = unat (xh_used h) - 1"
    by (metis One_nat_def unat_eq_zero unat_minus_one)
  note small = wf_small [OF wf]
  have ds: "unat (xh_dummies h + 1) = unat (xh_dummies h) + 1"
    using w small by (subst unat_word_ariths(1)) simp
  show "unat (xh_used t) + 1 = unat (xh_used h)" using us \<open>unat (xh_used h) \<noteq> 0\<close> by (simp add: t)
  have "length (xh_kvs t) = xhash_size h" "length (xh_vals t) = xhash_size h"
    using w by (simp_all add: t put_slot_def)
  moreover have "unat (xh_used t) = card (slots_of t (validp t))"
    using us w iv by (simp add: sl) (simp add: t)
  moreover have "unat (xh_dummies t) = card (slots_of t (dummyp t))"
    using ds w iv by (simp add: sl) (simp add: t)
  moreover have "unat (xh_used t) + unat (xh_dummies t) < xhash_size h"
    unfolding t put_slot_simps using us ds w \<open>unat (xh_used h) \<noteq> 0\<close> by linarith
  ultimately have "xh_wf t" using w unfolding xh_wf_def by (simp add: t)
  moreover have "DUMMY \<noteq> UNUSED" by (simp add: DUMMY_def UNUSED_def)
  then have vt: "validp t j \<longleftrightarrow> j \<noteq> i \<and> validp h j" "unusedp t j \<longleftrightarrow> unusedp h j" for j
    using slot_cases(3) [OF i(2)] by (auto simp: t p)
  have kt: "xh_kvs t ! j = xh_kvs h ! j" for j by (simp add: t nth)
  have "reach_ok str t" using r unfolding reach_ok_def by (simp add: vt kt) (simp add: t)
  moreover have ut: "uniq_ok str t" using u unfolding uniq_ok_def
    by (simp add: vt kt slot_key_def) (simp add: t)
  ultimately show "xh_inv str t" by (simp add: xh_inv_def)
  have ht: "has str t d j \<longleftrightarrow> j \<noteq> i \<and> has str h d j" for d j
    by (simp add: has_def vt kt slot_key_def) (auto simp: t)
  have nt: "j \<noteq> i \<Longrightarrow> xh_vals t ! j = xh_vals h ! j" for j by (simp add: t nth)
  have hi: "has str h d i \<longleftrightarrow> d = c" for d using hs by (auto simp: has_def)
  show "xh_map str t = (xh_map str h)(c := None)"
  proof (rule xh_map_changed [OF ut u, of _ _ i])
    show "has str t c j \<longleftrightarrow> (None :: u64 option) \<noteq> None \<and> j = i" for j
      using has_uniq [OF u hs] by (auto simp: ht)
    show "has str t d j \<longleftrightarrow> has str h d j" if "d \<noteq> c" for d j using that hi by (auto simp: ht)
    show "xh_vals t ! j = xh_vals h ! j" if "d \<noteq> c" "has str h d j" for d j
      using that hi by (intro nt) auto
  qed simp
qed

section \<open>The operations on the contents\<close>

lemma update_absent:
  assumes inv: "xh_inv str h" and absent: "\<nexists>j. has str h (key_of str (xh_type h) key) j"
  shows "\<exists>n i. slot_seq str h key n = i \<and> (\<forall>j<n. \<not> unusedp h (slot_seq str h key j)) \<and>
    \<not> validp h i \<and> PHASH_UPDATE str (Some f) upd h key True = Some (f i h)"
proof -
  from inv have wf: "xh_wf h" by (simp add: xh_inv_def)
  define stop where "stop = (\<lambda>idx. if \<not> validp h idx then map_option (\<lambda>f. f idx h) (Some f)
      else if cmp_fun str (xh_type h) (xh_kvs h ! idx) key then Some (upd idx h) else None)"
  obtain i where i: "i < xhash_size h" "unusedp h i" by (rule unused_exists [OF wf])
  have st: "stop i \<noteq> None" using i slot_cases(3) [of h i] by (auto simp: stop_def)
  have sh: "xh_size_shift h < 64" "i < 2 ^ xh_size_shift h"
    using wf i by (simp_all add: xh_wf_def xhash_size_def)
  from probe_first_slot [of _ i stop "hash_fun str (xh_type h) key", OF sh st]
  obtain n x where n: "stop (slot_seq str h key n) = Some x"
    "\<forall>j<n. stop (slot_seq str h key j) = None"
    "probe_from stop (xh_size_shift h) (hash_fun str (xh_type h) key) = Some x"
    unfolding slot_seq_def by blast
  have "validp h (slot_seq str h key j) \<Longrightarrow> \<not> cmp_fun str (xh_type h) (xh_kvs h ! slot_seq str h key j) key" for j
    using absent by (auto simp: cmp_key_of has_def slot_key_def)
  then have "\<not> validp h (slot_seq str h key n)" "x = f (slot_seq str h key n) h"
    using n(1) by (auto simp: stop_def split: if_splits)
  moreover have "\<not> unusedp h (slot_seq str h key j)" if "j < n" for j
    using n(2) that slot_cases(3) by (auto simp: stop_def split: if_splits)
  moreover have "PHASH_UPDATE str (Some f) upd h key True = Some x"
    using n(3) by (simp add: PHASH_UPDATE_def stop_def Let_def)
  ultimately show ?thesis by blast
qed

lemma update_present:
  assumes inv: "xh_inv str h" and hs: "has str h (key_of str (xh_type h) key) i"
    and nd: "sets \<noteq> None \<Longrightarrow> xh_dummies h = 0"
  shows "PHASH_UPDATE str sets upd h key True = Some (upd i h)"
proof -
  from inv have wf: "xh_wf h" and r: "reach_ok str h" and u: "uniq_ok str h" by (simp_all add: xh_inv_def)
  have i: "i < xhash_size h" "validp h i"
    and k: "key_of str (xh_type h) (xh_kvs h ! i) = key_of str (xh_type h) key"
    using hs by (simp_all add: has_def slot_key_def)
  from r i obtain n where n: "slot_seq str h key n = i" "\<forall>j<n. \<not> unusedp h (slot_seq str h key j)"
    unfolding reach_ok_def using slot_seq_cong [OF k] by metis
  define m where "m = (LEAST n. slot_seq str h key n = i)"
  have m: "slot_seq str h key m = i" "m \<le> n" "\<And>j. j < m \<Longrightarrow> slot_seq str h key j \<noteq> i"
    unfolding m_def using n(1) by (auto intro: LeastI Least_le dest: not_less_Least)
  have nodummy: "\<not> dummyp h j" if "sets \<noteq> None" "j < xhash_size h" for j
    using nd [OF that(1)] wf that(2) by (auto simp: xh_wf_def slots_of_def)
  show ?thesis unfolding PHASH_UPDATE_def Let_def
  proof (rule probe_first [of m])
    fix j assume j: "j < m"
    let ?s = "slot_seq str h key j"
    have nu: "\<not> unusedp h ?s" using n(2) m(2) j by simp
    have "\<not> has str h (key_of str (xh_type h) key) ?s" using has_uniq [OF u _ hs] m(3) [OF j] by blast
    then have nc: "validp h ?s \<Longrightarrow> \<not> cmp_fun str (xh_type h) (xh_kvs h ! ?s) key"
      by (auto simp: has_def slot_key_def cmp_key_of)
    have "sets \<noteq> None \<Longrightarrow> validp h ?s" using nodummy [of ?s] nu slot_cases(1) [of h ?s] by auto
    with nc show "(if \<not> validp h (pseq (xh_size_shift h) (hash_fun str (xh_type h) key) j)
        then map_option (\<lambda>f. f (pseq (xh_size_shift h) (hash_fun str (xh_type h) key) j) h) sets
        else if cmp_fun str (xh_type h) (xh_kvs h ! pseq (xh_size_shift h) (hash_fun str (xh_type h) key) j) key
             then Some (upd (pseq (xh_size_shift h) (hash_fun str (xh_type h) key) j) h) else None) = None"
      unfolding slot_seq_def by (cases sets) auto
  qed (use m(1) i k in \<open>simp add: slot_seq_def cmp_key_of\<close>)
qed

lemma update_absent_diverges:
  assumes "\<nexists>j. has str h (key_of str (xh_type h) key) j"
  shows "PHASH_UPDATE str None upd h key True = None"
proof -
  have step: "probe stop (2 ^ k - 1) idx p = None"
    if "\<And>i. i < 2 ^ k \<Longrightarrow> stop i = None" "unat idx < 2 ^ k" for stop :: "nat \<Rightarrow> 'b option" and k idx p
  proof (rule ccontr)
    assume "probe stop (2 ^ k - 1) idx p \<noteq> None"
    then obtain r where r: "probe stop (2 ^ k - 1) idx p = Some r" by blast
    have "unat idx < 2 ^ k \<longrightarrow> 2 ^ k - 1 = (2 ^ k - 1 :: u64) \<longrightarrow> (\<exists>i<2 ^ k. stop i = Some r)"
      by (rule probe_bound [OF r])
    with that show False by auto
  qed
  show ?thesis unfolding PHASH_UPDATE_def Let_def probe_from_def
    by (rule step) (use assms in \<open>auto simp: has_def slot_key_def cmp_key_of xhash_size_def\<close>)
qed

lemma upd_set_put:
  "xhash_upd_set i key val h =
     put_slot h i key val (xh_used h + 1) (if dummyp h i then xh_dummies h - 1 else xh_dummies h)"
  by (simp add: xhash_upd_set_def put_slot_def Let_def)

lemma set_val_put: "set_val i key val h = put_slot h i key val (xh_used h) (xh_dummies h)"
  by (simp add: set_val_def put_slot_def)

lemma map_of_has:
  assumes "xh_inv str h"
  shows "xh_map str h c = None \<longleftrightarrow> (\<nexists>i. has str h c i)"
    and "xh_map str h c = Some v \<longleftrightarrow> (\<exists>i. has str h c i \<and> xh_vals h ! i = v)"
proof -
  from assms have u: "uniq_ok str h" by (simp add: xh_inv_def)
  show "xh_map str h c = Some v \<longleftrightarrow> (\<exists>i. has str h c i \<and> xh_vals h ! i = v)" by (rule xh_map_Some [OF u])
  show "xh_map str h c = None \<longleftrightarrow> (\<nexists>i. has str h c i)"
    using xh_map_has [OF u] by (metis option.distinct(1))
qed

text \<open>Values that are not the two marks.\<close>

definition proper :: "u64 \<Rightarrow> bool" where "proper v \<longleftrightarrow> v \<noteq> DUMMY \<and> v \<noteq> UNUSED"

lemma insert_absent:
  assumes "xh_inv str h" and "xh_map str h (key_of str (xh_type h) key) = None" and "proper val"
    and "unat (xh_used h) + unat (xh_dummies h) + 1 < xhash_size h"
    and "ins = raw_xhash_insert str h key val \<or> ins = raw_xhash_freql_update str h key val"
  shows "\<exists>t. ins = Some t \<and> xh_inv str t \<and>
    xh_map str t = (xh_map str h)(key_of str (xh_type h) key \<mapsto> val) \<and>
    unat (xh_used t) = unat (xh_used h) + 1 \<and> xh_type t = xh_type h \<and>
    xh_size_shift t = xh_size_shift h \<and> xh_limit t = xh_limit h \<and>
    xh_minsize_shift t = xh_minsize_shift h \<and> (xh_dummies h = 0 \<longrightarrow> xh_dummies t = 0) \<and>
    unat (xh_dummies t) \<le> unat (xh_dummies h)"
proof -
  let ?c = "key_of str (xh_type h) key"
  from assms(2) have absent: "\<nexists>j. has str h ?c j" using map_of_has(1) [OF assms(1)] by simp
  have wf: "xh_wf h" using assms(1) by (simp add: xh_inv_def)
  from assms(5) obtain upd where
    ins: "ins = PHASH_UPDATE str (Some (\<lambda>idx. xhash_upd_set idx key val)) upd h key True"
    by (auto simp: raw_xhash_insert_def raw_xhash_freql_update_def)
  from update_absent [OF assms(1) absent, of "\<lambda>idx. xhash_upd_set idx key val" upd]
  obtain n i where n: "slot_seq str h key n = i" "\<And>j. j < n \<Longrightarrow> \<not> unusedp h (slot_seq str h key j)"
    "\<not> validp h i" "ins = Some (xhash_upd_set i key val h)"
    unfolding ins by blast
  note p = put_new [OF assms(1) n(1,2,3) absent _ _ assms(4) upd_set_put]
  have "dummyp h i \<Longrightarrow> xh_dummies h \<noteq> 0"
    using wf n(1) by (auto simp: xh_wf_def slots_of_def)
  moreover from this have "unat (if dummyp h i then xh_dummies h - 1 else xh_dummies h) \<le> unat (xh_dummies h)"
    by (auto simp: unat_minus_one)
  ultimately show ?thesis using n(4) p assms(3) by (auto simp: proper_def upd_set_put)
qed

lemma insert_present:
  assumes "xh_inv str h" and "xh_map str h (key_of str (xh_type h) key) = Some w" and "proper val"
    and "xh_dummies h = 0"
  shows "\<exists>t. raw_xhash_insert str h key val = Some t \<and> xh_inv str t \<and>
    xh_map str t = (xh_map str h)(key_of str (xh_type h) key \<mapsto> val) \<and> xh_used t = xh_used h"
proof -
  from assms(2) obtain i where i: "has str h (key_of str (xh_type h) key) i"
    using map_of_has(2) [OF assms(1)] by auto
  have "raw_xhash_insert str h key val = Some (set_val i key val h)"
    unfolding raw_xhash_insert_def by (rule update_present [OF assms(1) i]) (simp add: assms(4))
  with put_old [OF assms(1) i _ _ set_val_put] assms(3) show ?thesis by (simp add: proper_def set_val_put)
qed

lemma update_result:
  assumes "xh_inv str h" and "proper val"
  shows "xh_map str h (key_of str (xh_type h) key) = Some w \<Longrightarrow>
      \<exists>t. xhash_update str h key val = Some (1, t) \<and> xh_inv str t \<and>
        xh_map str t = (xh_map str h)(key_of str (xh_type h) key \<mapsto> val)"
    and "xh_map str h (key_of str (xh_type h) key) = None \<Longrightarrow> xhash_update str h key val = None"
proof -
  assume "xh_map str h (key_of str (xh_type h) key) = Some w"
  then obtain i where i: "has str h (key_of str (xh_type h) key) i"
    using map_of_has(2) [OF assms(1)] by auto
  have "xhash_update str h key val = Some (1, set_val i key val h)"
    unfolding xhash_update_def by (subst update_present [OF assms(1) i]) simp_all
  with put_old [OF assms(1) i _ _ set_val_put] assms(2)
  show "\<exists>t. xhash_update str h key val = Some (1, t) \<and> xh_inv str t \<and>
      xh_map str t = (xh_map str h)(key_of str (xh_type h) key \<mapsto> val)" by (simp add: proper_def)
next
  assume "xh_map str h (key_of str (xh_type h) key) = None"
  then show "xhash_update str h key val = None"
    using map_of_has(1) [OF assms(1)] by (simp add: xhash_update_def update_absent_diverges)
qed

lemma freql_present:
  assumes "xh_inv str h" and "xh_map str h (key_of str (xh_type h) key) = Some w" and "proper (w + val)"
    and "xh_dummies h = 0"
  shows "\<exists>t. raw_xhash_freql_update str h key val = Some t \<and> xh_inv str t \<and>
    xh_map str t = (xh_map str h)(key_of str (xh_type h) key \<mapsto> w + val)"
proof -
  from assms(2) obtain i where i: "has str h (key_of str (xh_type h) key) i" "xh_vals h ! i = w"
    using map_of_has(2) [OF assms(1)] by auto
  have wf: "xh_wf h" "i < xhash_size h" using assms(1) i by (simp_all add: xh_inv_def has_def)
  have "raw_xhash_freql_update str h key val = Some (inc_val i val h)"
    unfolding raw_xhash_freql_update_def by (rule update_present [OF assms(1) i(1)]) (simp add: assms(4))
  moreover have k: "key_of str (xh_type h) (xh_kvs h ! i) = key_of str (xh_type h) key"
    using i by (simp add: has_def slot_key_def)
  moreover have "inc_val i val h = put_slot h i (xh_kvs h ! i) (w + val) (xh_used h) (xh_dummies h)"
    using i(2) by (simp add: inc_val_def put_slot_def)
  ultimately show ?thesis
    using put_old [OF assms(1), of "xh_kvs h ! i" i "w + val", OF _ _ _ refl] i assms(3)
    by (simp add: proper_def)
qed

lemma delete_result:
  assumes "xh_inv str h"
  shows "xh_map str h (key_of str (xh_type h) key) = None \<Longrightarrow>
      raw_xhash_delete str h key True = Some (- XHASH_ENOENT, h)"
    and "xh_map str h (key_of str (xh_type h) key) = Some w \<Longrightarrow>
      \<exists>t. raw_xhash_delete str h key True = Some (0, t) \<and> xh_inv str t \<and>
        xh_map str t = (xh_map str h)(key_of str (xh_type h) key := None) \<and>
        unat (xh_used t) + 1 = unat (xh_used h) \<and> xh_type t = xh_type h \<and>
        xh_size_shift t = xh_size_shift h \<and> xh_limit t = xh_limit h \<and> xh_minsize_shift t = xh_minsize_shift h"
proof -
  let ?c = "key_of str (xh_type h) key"
  define hit where "hit = (\<lambda>idx. let h = set_dummy_item idx True h; h = h\<lparr>xh_dummies := xh_dummies h + 1\<rparr>
                in (0 :: int, h\<lparr>xh_used := xh_used h - 1\<rparr>))"
  have del: "raw_xhash_delete str h key True = probe_from (\<lambda>idx. if unusedp h idx then Some (- XHASH_ENOENT, h)
      else if \<not> dummyp h idx \<and> cmp_fun str (xh_type h) (xh_kvs h ! idx) key then Some (hit idx) else None)
      (xh_size_shift h) (hash_fun str (xh_type h) key)"
    unfolding raw_xhash_delete_def hit_def Let_def by (rule refl)
  note s = search_result [OF assms refl, where key = key and miss = "(- XHASH_ENOENT, h)" and hit = hit,
      folded del]
  show "xh_map str h ?c = None \<Longrightarrow> raw_xhash_delete str h key True = Some (- XHASH_ENOENT, h)"
    using s(2) map_of_has(1) [OF assms] by simp
  assume "xh_map str h ?c = Some w"
  then obtain i where i: "has str h ?c i" using map_of_has(2) [OF assms] by auto
  have "hit i = (0, put_slot h i (xh_kvs h ! i) DUMMY (xh_used h - 1) (xh_dummies h + 1))"
    by (simp add: hit_def set_dummy_item_def put_slot_def Let_def)
  with s(1) [OF i] put_dummy [OF assms i refl]
  show "\<exists>t. raw_xhash_delete str h key True = Some (0, t) \<and> xh_inv str t \<and>
        xh_map str t = (xh_map str h)(?c := None) \<and> unat (xh_used t) + 1 = unat (xh_used h) \<and>
        xh_type t = xh_type h \<and> xh_size_shift t = xh_size_shift h \<and> xh_limit t = xh_limit h \<and> xh_minsize_shift t = xh_minsize_shift h" by simp
qed

text \<open>The load check leaves a free slot in tables of at least four slots.\<close>

lemma load_arith: "(x :: nat) div 2 + x < 4 * q \<Longrightarrow> x + 1 < 4 * q"
  by presburger

lemma grow_check_room:
  assumes "xh_wf h" and "\<not> grow_check h" and "2 \<le> xh_size_shift h"
  shows "unat (xh_used h) + unat (xh_dummies h) + 1 < xhash_size h"
proof -
  let ?k = "xh_size_shift h" and ?x = "unat (xh_used h) + unat (xh_dummies h)"
  have k: "?k < 63" and lt: "?x < 2 ^ ?k" using assms(1) by (simp_all add: xh_wf_def xhash_size_def)
  have small: "(2 :: nat) ^ ?k < 2 ^ 63" using wf_small [OF assms(1)] by (simp add: xhash_size_def)
  define u where "u = xh_used h + xh_dummies h"
  have u: "unat u = ?x" unfolding u_def using lt small by (subst unat_word_ariths(1)) simp
  have "unat (u div 2 + u) = ?x div 2 + ?x"
    using u lt small by (subst unat_word_ariths(1)) (simp add: unat_div)
  moreover have "u div 2 + u < 2 ^ ?k" using assms(2) by (simp add: grow_check_def u_def Let_def not_le)
  ultimately have "?x div 2 + ?x < 2 ^ ?k" using k by (simp add: word_less_nat_alt unat_pow2)
  moreover obtain q :: nat where "2 ^ ?k = 4 * q"
    using assms(3) le_imp_power_dvd [of 2 ?k "2 :: nat"] by (auto elim: dvdE)
  ultimately have "?x + 1 < 2 ^ ?k" using load_arith by metis
  then show ?thesis by (simp add: xhash_size_def)
qed

lemma hash_init_inv:
  assumes "length mem = 2 * 2 ^ k" and "k < 63"
  shows "xh_inv str (raw_xhash_init mem k mn lim t True)"
    and "xh_map str (raw_xhash_init mem k mn lim t True) = Map.empty"
    and "xhash_size (raw_xhash_init mem k mn lim t True) = 2 ^ k"
proof -
  let ?h = "raw_xhash_init mem k mn lim t True"
  have sz: "xhash_size ?h = 2 ^ k" by (simp add: xhash_size_def raw_xhash_init_def Let_def)
  have "xh_vals ?h ! i = UNUSED" if "i < 2 ^ k" for i
  proof -
    have "fill (\<lambda>i. i) (\<lambda>i. UNUSED) (2 ^ k) (drop (2 ^ k) mem) ! i = UNUSED"
      by (rule fill_nth [of i "2 ^ k" "\<lambda>i. i"]) (use that assms(1) in auto)
    then show ?thesis by (simp add: raw_xhash_init_def Let_def)
  qed
  then have un: "unusedp ?h i" "\<not> validp ?h i" "\<not> dummyp ?h i" if "i < 2 ^ k" for i
    using that by (simp_all add: item_unused_def item_valid_def item_dummy_def DUMMY_def UNUSED_def)
  then have sl: "slots_of ?h (validp ?h) = {}" "slots_of ?h (dummyp ?h) = {}"
    by (auto simp: slots_of_def sz)
  have "xh_wf ?h" unfolding xh_wf_def sl
    using assms by (simp add: xhash_size_def raw_xhash_init_def Let_def)
  then show "xh_inv str ?h" using un by (simp add: xh_inv_def reach_ok_def uniq_ok_def sz)
  show "xh_map str ?h = Map.empty" using un by (simp add: xh_map_def sz filter_empty_conv)
  show "xhash_size ?h = 2 ^ k" by (rule sz)
qed

text \<open>The copy loop of a resize, after \<open>n\<close> slots.\<close>

lemma resize_loop:
  assumes inv: "xh_inv str h" and inv0: "xh_inv str t0" "xh_map str t0 = Map.empty" "xh_type t0 = xh_type h"
    "xh_used t0 = 0" "xh_dummies t0 = 0" and room: "unat (xh_used h) < xhash_size t0" and "n \<le> xhash_size h"
  shows "\<exists>t. fold (resize_step str h) [0..<n] (Some t0) = Some t \<and> xh_inv str t \<and>
    (\<forall>c. xh_map str t c = (if \<exists>i<n. has str h c i then xh_map str h c else None)) \<and>
    unat (xh_used t) = card {i. i < n \<and> validp h i} \<and> xh_dummies t = 0 \<and> xh_type t = xh_type h \<and>
    xh_size_shift t = xh_size_shift t0 \<and> xh_limit t = xh_limit t0 \<and>
    xh_minsize_shift t = xh_minsize_shift t0"
  using assms(8)
proof (induction n)
  case 0
  then show ?case using inv0 by simp
next
  case (Suc n)
  then obtain t where t: "fold (resize_step str h) [0..<n] (Some t0) = Some t" "xh_inv str t"
    "\<And>c. xh_map str t c = (if \<exists>i<n. has str h c i then xh_map str h c else None)"
    "unat (xh_used t) = card {i. i < n \<and> validp h i}" "xh_dummies t = 0" "xh_type t = xh_type h"
    "xh_size_shift t = xh_size_shift t0" "xh_limit t = xh_limit t0"
    "xh_minsize_shift t = xh_minsize_shift t0" by auto
  have u: "uniq_ok str h" and wf: "xh_wf h" using inv by (simp_all add: xh_inv_def)
  show ?case
  proof (cases "validp h n")
    case False
    then have "(\<exists>i<Suc n. has str h c i) \<longleftrightarrow> (\<exists>i<n. has str h c i)" for c
      by (auto simp: less_Suc_eq has_def)
    moreover have "{i. i < Suc n \<and> validp h i} = {i. i < n \<and> validp h i}"
      using False by (auto simp: less_Suc_eq)
    moreover have "resize_step str h n (Some t) = Some t" using False by (simp add: resize_step_def)
    ultimately show ?thesis using t by simp
  next
    case True
    let ?c = "slot_key str h n"
    have hn: "has str h ?c n" using True Suc.prems by (simp add: has_def)
    have none: "xh_map str t (key_of str (xh_type t) (xh_kvs h ! n)) = None"
      using has_uniq [OF u hn] t(3) [of ?c] by (auto simp: t(6) slot_key_def)
    have pr: "proper (xh_vals h ! n)"
      using True by (simp add: proper_def item_valid_def item_dummy_def item_unused_def)
    have sub: "insert n {i. i < n \<and> validp h i} \<subseteq> slots_of h (validp h)"
      using True Suc.prems by (auto simp: slots_of_def)
    from card_mono [OF finite_slots sub] have "card {i. i < n \<and> validp h i} < unat (xh_used h)"
      using wf by (simp add: xh_wf_def)
    then have "unat (xh_used t) + unat (xh_dummies t) + 1 < xhash_size t"
      using room t(4,5,7) by (simp add: xhash_size_def)
    from insert_absent [OF t(2) none pr this disjI1 [OF refl]] obtain t' where
      t': "raw_xhash_insert str t (xh_kvs h ! n) (xh_vals h ! n) = Some t'" "xh_inv str t'"
      "xh_map str t' = (xh_map str t)(?c \<mapsto> xh_vals h ! n)" "unat (xh_used t') = unat (xh_used t) + 1"
      "xh_type t' = xh_type t" "xh_size_shift t' = xh_size_shift t" "xh_limit t' = xh_limit t"
      "xh_minsize_shift t' = xh_minsize_shift t" "xh_dummies t' = 0"
      using t(5,6) by (auto simp: slot_key_def)
    have "fold (resize_step str h) [0..<Suc n] (Some t0) = Some t'"
      using t(1) t'(1) True by (simp add: resize_step_def [of str h n])
    moreover have "xh_map str t' c = (if \<exists>i<Suc n. has str h c i then xh_map str h c else None)" for c
    proof (cases "c = ?c")
      case True
      then show ?thesis using hn xh_map_has(1) [OF u hn] by (auto simp: t'(3))
    next
      case False
      then have "(\<exists>i<Suc n. has str h c i) \<longleftrightarrow> (\<exists>i<n. has str h c i)"
        by (auto simp: less_Suc_eq has_def)
      then show ?thesis using False t(3) by (simp add: t'(3))
    qed
    moreover have "{i. i < Suc n \<and> validp h i} = insert n {i. i < n \<and> validp h i}"
      using True by (auto simp: less_Suc_eq)
    then have "unat (xh_used t') = card {i. i < Suc n \<and> validp h i}" using t(4) t'(4) by simp
    ultimately show ?thesis using t t' by auto
  qed
qed

lemma resize_result:
  assumes inv: "xh_inv str h" and room: "unat (xh_used h) < 2 ^ k" and k: "k < 63"
    and mem: "length mem = 2 * 2 ^ k"
  shows "\<exists>t. xhash_resize str h k lim (Some mem) = Some (Some t) \<and> xh_inv str t \<and>
    xh_map str t = xh_map str h \<and> xh_used t = xh_used h \<and> xh_dummies t = 0 \<and>
    xh_size_shift t = k \<and> xh_limit t = lim \<and> xh_type t = xh_type h \<and>
    xh_minsize_shift t = xh_minsize_shift h"
proof -
  let ?t0 = "raw_xhash_init mem k (xh_minsize_shift h) lim (xh_type h) True"
  note i0 = hash_init_inv(1,2) [OF mem k, of str "xh_minsize_shift h" lim "xh_type h"]
    hash_init_inv(3) [OF mem k, of "xh_minsize_shift h" lim "xh_type h"]
  have f0: "xh_used ?t0 = 0" "xh_dummies ?t0 = 0" "xh_type ?t0 = xh_type h" "xh_size_shift ?t0 = k"
    "xh_limit ?t0 = lim" "xh_minsize_shift ?t0 = xh_minsize_shift h"
    by (simp_all add: raw_xhash_init_def Let_def)
  have "unat (xh_used h) < xhash_size ?t0" using room i0(3) by simp
  from resize_loop [OF inv i0(1,2) f0(3,1,2) this order_refl] obtain t where
    t: "fold (resize_step str h) [0..<xhash_size h] (Some ?t0) = Some t" "xh_inv str t"
    "\<And>c. xh_map str t c = (if \<exists>i<xhash_size h. has str h c i then xh_map str h c else None)"
    "unat (xh_used t) = card {i. i < xhash_size h \<and> validp h i}" "xh_dummies t = 0" "xh_type t = xh_type h"
    "xh_size_shift t = k" "xh_limit t = lim" "xh_minsize_shift t = xh_minsize_shift h"
    using f0 by auto
  have "xh_map str t c = xh_map str h c" for c
    using t(3) [of c] map_of_has(1) [OF inv, of c] by (auto simp: has_def)
  then have "xh_map str t = xh_map str h" by auto
  moreover have "xh_used t = xh_used h"
    using t(4) inv by (simp add: xh_inv_def xh_wf_def slots_of_def word_unat_eq_iff)
  ultimately show ?thesis using t
    by (simp add: xhash_resize_def raw_xhash_resize_def raw_xhash_new_def)
qed

section \<open>Iteration\<close>

lemma iterate_skip:
  assumes "idx \<le> xhash_size h" and "xh_used h \<noteq> it_cnt pi"
  shows "filter (validp h) [idx..<xhash_size h] = [] \<Longrightarrow> iterate_from h True idx pi = (None, pi)"
    and "filter (validp h) [idx..<xhash_size h] = i # is \<Longrightarrow>
      iterate_from h True idx pi = (Some i, \<lparr>it_loc = Suc i, it_cnt = it_cnt pi + 1\<rparr>) \<and>
      is = filter (validp h) [Suc i..<xhash_size h] \<and> Suc i \<le> xhash_size h"
  using assms
proof (induction "xhash_size h - idx" arbitrary: idx)
  case 0
  {
    case 1
    then show ?case using 0 by (subst iterate_from.simps) simp
  next
    case 2
    then show ?case using 0 by simp
  }
next
  case (Suc d)
  then have lt: "idx < xhash_size h" and d: "d = xhash_size h - Suc idx" by linarith+
  have up: "[idx..<xhash_size h] = idx # [Suc idx..<xhash_size h]" using lt by (rule upt_conv_Cons)
  {
    case 1
    then show ?case using Suc.hyps(1) [OF d] lt up by (subst iterate_from.simps) (auto split: if_splits)
  next
    case 2
    then show ?case using Suc.hyps(2) [OF d] lt up by (subst iterate_from.simps) (auto split: if_splits)
  }
qed

lemma iterate_used: "xh_used h = it_cnt pi \<Longrightarrow> iterate_from h vals idx pi = (None, pi)"
  by (subst iterate_from.simps) simp

lemma print_from:
  assumes "it_loc pi \<le> xhash_size h"
    and "unat (xh_used h) = unat (it_cnt pi) + length (filter (validp h) [it_loc pi..<xhash_size h])"
  shows "xhash_print h pi =
    map (\<lambda>i. (xh_kvs h ! i, xh_vals h ! i)) (filter (validp h) [it_loc pi..<xhash_size h])"
  using assms
proof (induction "filter (validp h) [it_loc pi..<xhash_size h]" arbitrary: pi)
  case Nil
  then have "xh_used h = it_cnt pi" by (simp add: word_unat_eq_iff flip: Nil.hyps)
  then have "iterate_from h True (it_loc pi) pi = (None, pi)" by (rule iterate_used)
  then have "xhash_print h pi = []"
    by (subst xhash_print.simps) (simp add: xhash_iterate_def raw_xhash_iterate_def)
  then show ?case by (simp flip: Nil.hyps)
next
  case (Cons i js)
  then have ne: "xh_used h \<noteq> it_cnt pi" by (metis add_cancel_right_right length_Cons nat.distinct(1))
  let ?pi = "\<lparr>it_loc = Suc i, it_cnt = it_cnt pi + 1\<rparr>"
  from iterate_skip(2) [OF Cons.prems(1) ne Cons.hyps(2) [symmetric]]
  have it: "iterate_from h True (it_loc pi) pi = (Some i, ?pi)"
    "js = filter (validp h) [Suc i..<xhash_size h]" "Suc i \<le> xhash_size h" by auto
  have "unat (it_cnt pi) + 1 \<le> unat (xh_used h)"
    using Cons.prems(2) by (metis Cons.hyps(2) add_left_mono le_add1 length_Cons plus_1_eq_Suc)
  then have "unat (it_cnt pi + 1) = unat (it_cnt pi) + 1"
    using unat_u64_less [of "xh_used h"] by (subst unat_word_ariths(1)) simp
  then have "unat (xh_used h) = unat (it_cnt ?pi) + length (filter (validp h) [it_loc ?pi..<xhash_size h])"
    using Cons.prems(2) it(2) by (simp flip: Cons.hyps(2))
  then have "xhash_print h ?pi = map (\<lambda>i. (xh_kvs h ! i, xh_vals h ! i)) js"
    using Cons.hyps(1) [of ?pi] it(2,3) by simp
  moreover have "xhash_print h pi = (xh_kvs h ! i, xh_vals h ! i) # xhash_print h ?pi"
    by (subst xhash_print.simps) (simp add: xhash_iterate_def raw_xhash_iterate_def it(1))
  ultimately show ?case by (simp flip: Cons.hyps(2))
qed

section \<open>The table is a dictionary\<close>

definition find_hash :: "strings \<Rightarrow> xhash \<Rightarrow> u64 \<Rightarrow> u64 option" where
  "find_hash str h key = (case xhash_lookup str h key of None \<Rightarrow> None | Some (ret, v) \<Rightarrow> v)"

definition put_hash :: "strings \<Rightarrow> xhash \<Rightarrow> u64 \<Rightarrow> u64 \<Rightarrow> xhash option" where
  "put_hash str h key val =
     (case xhash_insert str h key val of None \<Rightarrow> None | Some (ret, h) \<Rightarrow> if ret = 0 then Some h else None)"

definition del_hash :: "strings \<Rightarrow> xhash \<Rightarrow> u64 \<Rightarrow> xhash option" where
  "del_hash str h key =
     (case raw_xhash_delete str h key True of None \<Rightarrow> None
      | Some (ret, h) \<Rightarrow> if ret = 0 then Some h else None)"

text \<open>How many insertions the load check still allows, without a limit.\<close>

definition hash_room :: "xhash \<Rightarrow> nat" where
  "hash_room h = (2 * xhash_size h) div 3 - (unat (xh_used h) + unat (xh_dummies h))"

definition dict_ok :: "strings \<Rightarrow> xhash_type \<Rightarrow> xhash \<Rightarrow> bool" where
  "dict_ok str t h \<longleftrightarrow> xh_inv str h \<and> xh_type h = t \<and> 2 \<le> xh_size_shift h \<and> xh_limit h = 0"

lemma room_arith: "0 < 2 * n div 3 - x \<Longrightarrow> x + x div 2 < (n :: nat)"
proof -
  assume "0 < 2 * n div 3 - x"
  then have "x + 1 \<le> 2 * n div 3" by simp
  then have "(x + 1) * 3 \<le> 2 * n" by (simp add: less_eq_div_iff_mult_less_eq)
  moreover define d where "d = x div 2"
  have "2 * d \<le> x" by (simp add: d_def)
  ultimately have "x + d < n" by simp
  then show "x + x div 2 < n" by (simp add: d_def)
qed

lemma room_grow:
  assumes "xh_wf h" and "0 < hash_room h"
  shows "\<not> grow_check h"
proof -
  let ?k = "xh_size_shift h" and ?x = "unat (xh_used h) + unat (xh_dummies h)"
  have k: "?k < 63" and lt: "?x < 2 ^ ?k" using assms(1) by (simp_all add: xh_wf_def xhash_size_def)
  have small: "(2 :: nat) ^ ?k < 2 ^ 63" using wf_small [OF assms(1)] by (simp add: xhash_size_def)
  define u where "u = xh_used h + xh_dummies h"
  have u: "unat u = ?x" unfolding u_def using lt small by (subst unat_word_ariths(1)) simp
  have "?x + ?x div 2 < 2 ^ ?k"
    using room_arith assms(2) by (simp add: hash_room_def xhash_size_def)
  moreover have "unat (u div 2 + u) = ?x div 2 + ?x"
    using u lt small by (subst unat_word_ariths(1)) (simp add: unat_div)
  ultimately have "u div 2 + u < 2 ^ ?k" using k by (simp add: word_less_nat_alt unat_pow2)
  then show ?thesis by (simp add: grow_check_def u_def Let_def not_le)
qed

interpretation xhd: dictionary "find_hash str" "put_hash str" "del_hash str" "key_of str t" proper
  "xh_map str" "dict_ok str t" hash_room for str t
proof
  fix h k v
  assume ok: "dict_ok str t h"
  then have inv: "xh_inv str h" and ty: "xh_type h = t" and sh: "2 \<le> xh_size_shift h" and lim: "xh_limit h = 0"
    by (simp_all add: dict_ok_def)
  have wf: "xh_wf h" using inv by (simp add: xh_inv_def)
  show "find_hash str h k = xh_map str h (key_of str t k)"
    using lookup_result [OF inv, of k] ty by (simp add: find_hash_def split: option.splits)
  show "\<exists>s'. del_hash str h k = Some s' \<and> dict_ok str t s' \<and> xh_map str s' = (xh_map str h)(key_of str t k := None)"
    if some: "xh_map str h (key_of str t k) \<noteq> None"
  proof -
    from some obtain w where "xh_map str h (key_of str (xh_type h) k) = Some w" using ty by auto
    from delete_result(2) [OF inv this] obtain s' where "raw_xhash_delete str h k True = Some (0, s')"
      "xh_inv str s'" "xh_map str s' = (xh_map str h)(key_of str t k := None)" "xh_type s' = t"
      "xh_size_shift s' = xh_size_shift h" "xh_limit s' = xh_limit h" using ty by auto
    then show ?thesis using sh lim by (simp add: del_hash_def dict_ok_def)
  qed
  show "\<exists>s'. put_hash str h k v = Some s' \<and> dict_ok str t s' \<and>
      xh_map str s' = (xh_map str h)(key_of str t k \<mapsto> v) \<and> hash_room h \<le> Suc (hash_room s')"
    if new: "xh_map str h (key_of str t k) = None" "proper v" "0 < hash_room h"
  proof -
    have g: "\<not> grow_check h" using new(3) by (rule room_grow [OF wf])
    from insert_absent [OF inv _ new(2) grow_check_room [OF wf g sh], of k, OF _ disjI1 [OF refl]] new(1) ty
    obtain s' where s': "raw_xhash_insert str h k v = Some s'" "xh_inv str s'"
      "xh_map str s' = (xh_map str h)(key_of str t k \<mapsto> v)" "unat (xh_used s') = unat (xh_used h) + 1"
      "xh_type s' = t" "xh_size_shift s' = xh_size_shift h" "xh_limit s' = 0"
      "unat (xh_dummies s') \<le> unat (xh_dummies h)"
      using lim by auto
    then show ?thesis using g sh lim
      by (auto simp: put_hash_def xhash_insert_def dict_ok_def hash_room_def xhash_size_def)
  qed
qed

section \<open>Insertion behind a deleted slot\<close>

lemma put_mark:
  assumes inv: "xh_inv str h" and i: "i < xhash_size h" "dummyp h i"
    and t: "t = put_slot h i key DUMMY (xh_used h) (xh_dummies h)"
  shows "xh_inv str t" and "xh_map str t = xh_map str h"
proof -
  from inv have wf: "xh_wf h" and r: "reach_ok str h" and u: "uniq_ok str h" by (simp_all add: xh_inv_def)
  note p = put_slot_preds [OF wf i(1)] and nth = put_slot_nth [OF wf i(1)]
  have ni: "\<not> validp h i" "\<not> unusedp h i" using i(2) slot_cases by blast+
  have pt: "validp t j \<longleftrightarrow> validp h j" "dummyp t j \<longleftrightarrow> dummyp h j" "unusedp t j \<longleftrightarrow> unusedp h j" for j
    using ni i(2) by (auto simp: t p DUMMY_def UNUSED_def)
  have kt: "validp h j \<Longrightarrow> xh_kvs t ! j = xh_kvs h ! j \<and> xh_vals t ! j = xh_vals h ! j" for j
    using ni by (auto simp: t nth)
  have st: "validp h j \<Longrightarrow> slot_key str t j = slot_key str h j" for j using ni by (auto simp: t p)
  have sz: "xhash_size t = xhash_size h" "slot_seq str t = slot_seq str h" by (simp_all add: t)
  have "xh_wf t" using wf unfolding xh_wf_def slots_of_def pt sz by (simp add: t put_slot_def)
  moreover have "reach_ok str t" using r kt unfolding reach_ok_def pt sz by metis
  moreover have ut: "uniq_ok str t" using u st unfolding uniq_ok_def pt sz by metis
  ultimately show "xh_inv str t" by (simp add: xh_inv_def)
  show "xh_map str t = xh_map str h"
    unfolding xh_map_def pt sz
    by (rule arg_cong [where f = map_of], rule map_cong) (auto simp: kt st)
qed

lemma insert_shadow:
  assumes inv: "xh_inv str h" and dm: "dummyp h (slot_seq str h key n)"
    and before: "\<And>j. j < n \<Longrightarrow> validp h (slot_seq str h key j) \<and>
      slot_key str h (slot_seq str h key j) \<noteq> key_of str (xh_type h) key"
    and val: "proper val"
  defines "i \<equiv> slot_seq str h key n"
  defines "t \<equiv> put_slot h i key val (xh_used h + 1) (xh_dummies h - 1)"
  shows "raw_xhash_insert str h key val = Some t"
    and "xhash_lookup str t key = Some (0, Some val)"
    and "raw_xhash_delete str t key True = Some (0, put_slot h i key DUMMY (xh_used h) (xh_dummies h))"
proof -
  have wf: "xh_wf h" and i: "i < xhash_size h" using inv by (simp_all add: xh_inv_def i_def)
  note p = put_slot_preds [OF wf i] and nth = put_slot_nth [OF wf i]
  have ni: "\<not> validp h i" using dm slot_cases(3) by (auto simp: i_def)
  have sq: "slot_seq str h key j = pseq (xh_size_shift h) (hash_fun str (xh_type h) key) j" for j
    by (simp add: slot_seq_def)
  have tf: "xh_size_shift t = xh_size_shift h" "xh_type t = xh_type h" by (simp_all add: t_def)
  show "raw_xhash_insert str h key val = Some t"
    unfolding raw_xhash_insert_def PHASH_UPDATE_def Let_def
  proof (rule probe_first [of n])
    fix j assume "j < n"
    from before [OF this] show "(if \<not> validp h (pseq (xh_size_shift h) (hash_fun str (xh_type h) key) j)
        then map_option (\<lambda>f. f (pseq (xh_size_shift h) (hash_fun str (xh_type h) key) j) h)
          (Some (\<lambda>idx. xhash_upd_set idx key val))
        else if cmp_fun str (xh_type h) (xh_kvs h ! pseq (xh_size_shift h) (hash_fun str (xh_type h) key) j) key
             then Some (set_val (pseq (xh_size_shift h) (hash_fun str (xh_type h) key) j) key val h)
             else None) = None"
      by (simp add: sq [symmetric] cmp_key_of slot_key_def)
  qed (use ni dm in \<open>simp add: sq [symmetric] t_def upd_set_put i_def\<close>)
  have bt: "\<not> unusedp t (slot_seq str h key j) \<and> \<not> cmp_fun str (xh_type h) (xh_kvs t ! slot_seq str h key j) key"
    if "j < n" for j
  proof -
    have "slot_seq str h key j \<noteq> i" using before [OF that] ni by auto
    then show ?thesis using before [OF that] slot_cases(3) [of h "slot_seq str h key j"]
      by (simp add: t_def p nth cmp_key_of slot_key_def)
  qed
  have it: "\<not> unusedp t i" "\<not> dummyp t i" "xh_kvs t ! i = key" "xh_vals t ! i = val"
    using val by (simp_all add: t_def p nth proper_def)
  have "raw_xhash_lookup str t key True = Some (0, Some i)"
    unfolding raw_xhash_lookup_def Let_def tf
    by (rule probe_first [of n]) (use bt it in \<open>simp_all add: sq [symmetric] i_def [symmetric] cmp_key_of\<close>)
  then show "xhash_lookup str t key = Some (0, Some val)" by (simp add: xhash_lookup_def it)
  have "raw_xhash_delete str t key True = Some (0, put_slot t i (xh_kvs t ! i) DUMMY (xh_used t - 1) (xh_dummies t + 1))"
    unfolding raw_xhash_delete_def Let_def tf
    by (rule probe_first [of n])
      (use bt it list_update_id [of "xh_kvs t" i] in
        \<open>simp_all add: sq [symmetric] i_def [symmetric] cmp_key_of set_dummy_item_def put_slot_def\<close>)
  moreover have "put_slot t i (xh_kvs t ! i) DUMMY (xh_used t - 1) (xh_dummies t + 1) =
      put_slot h i key DUMMY (xh_used h) (xh_dummies h)"
    using it by (simp add: t_def put_slot_def)
  ultimately show "raw_xhash_delete str t key True = Some (0, put_slot h i key DUMMY (xh_used h) (xh_dummies h))"
    by simp
qed

text \<open>A table without an unused slot: a search for an absent key does not return.\<close>

lemma lookup_full:
  assumes "\<And>i. i < xhash_size h \<Longrightarrow> \<not> unusedp h i"
    and "\<nexists>i. has str h (key_of str (xh_type h) key) i"
  shows "xhash_lookup str h key = None"
proof -
  have no: "i < 2 ^ xh_size_shift h \<Longrightarrow> \<not> unusedp h i \<and>
      \<not> (\<not> dummyp h i \<and> cmp_fun str (xh_type h) (xh_kvs h ! i) key)" for i
    using assms slot_cases(1) [of h i] by (auto simp: has_def slot_key_def cmp_key_of xhash_size_def)
  have "raw_xhash_lookup str h key True \<noteq> Some r" for r
  proof
    assume "raw_xhash_lookup str h key True = Some r"
    from probe_bound [OF this [unfolded raw_xhash_lookup_def Let_def probe_from_def], of "xh_size_shift h"]
    show False using no by (auto split: if_splits)
  qed
  then have "raw_xhash_lookup str h key True = None" by (metis not_None_eq)
  then show ?thesis by (simp add: xhash_lookup_def)
qed

section \<open>Properties\<close>

text \<open>A small table to evaluate on.\<close>

definition demo_hash :: "xhash_type \<Rightarrow> nat \<Rightarrow> xhash" where
  "demo_hash t k = xhash_init (replicate (2 * 2 ^ k) 0) k 0 t"

definition demo_str :: strings where "demo_str k = [ucast k]"

lemma demo_hash_ok: "k < 63 \<Longrightarrow> xh_inv str (demo_hash t k) \<and> xh_map str (demo_hash t k) = Map.empty \<and>
    xh_used (demo_hash t k) = 0 \<and> xh_dummies (demo_hash t k) = 0 \<and> xh_type (demo_hash t k) = t \<and>
    xh_size_shift (demo_hash t k) = k \<and> xh_limit (demo_hash t k) = 0"
  using hash_init_inv(1,2) [of "replicate (2 * 2 ^ k) 0" k str k 0 t]
  by (simp add: demo_hash_def xhash_init_def raw_xhash_init_def Let_def)

text \<open>
  C12. A lookup always returns (the probe sequence meets an unused slot), with the value
  of the key, or with \<^verbatim>\<open>-XHASH_EEXIST\<close> when the key has none. Integer and string keys.
\<close>

theorem xhash_lookup_total:
  assumes "xh_inv str h"
  shows "xhash_lookup str h key =
    Some (case xh_map str h (key_of str (xh_type h) key) of None \<Rightarrow> (- XHASH_EEXIST, None)
          | Some v \<Rightarrow> (0, Some v))"
  by (rule lookup_result [OF assms])

theorem xhash_lookup_total_witness:
  "xhash_lookup demo_str (demo_hash XHASH_STRING 3) 77 = Some (-2, None)"
  using xhash_lookup_total [of demo_str "demo_hash XHASH_STRING 3" 77] demo_hash_ok [of 3 demo_str XHASH_STRING]
  by (simp add: xhash_errors)



text \<open>
  C14. Deletion, on every branch: a sparse table asks for a resize and is unchanged, an
  absent key gives \<^verbatim>\<open>-XHASH_ENOENT\<close>, and otherwise exactly that key is gone.
\<close>

theorem xhash_delete_spec:
  assumes "xh_inv str h"
  shows "if shrink_check h then xhash_delete str h key = Some (- XHASH_ERESIZE, h)
     else case xh_map str h (key_of str (xh_type h) key) of
       None \<Rightarrow> xhash_delete str h key = Some (- XHASH_ENOENT, h)
     | Some w \<Rightarrow> (\<exists>t. xhash_delete str h key = Some (0, t) \<and> xh_inv str t \<and>
         xh_map str t = (xh_map str h)(key_of str (xh_type h) key := None) \<and>
         unat (xh_used t) + 1 = unat (xh_used h))"
  using delete_result [OF assms, of key] by (auto simp: xhash_delete_def split: option.splits)

theorem xhash_delete_spec_witness:
  "xhash_delete demo_str (demo_hash XHASH_INTEGER 2) 5 = Some (-4, demo_hash XHASH_INTEGER 2)"
proof -
  have "\<not> shrink_check (demo_hash XHASH_INTEGER 2)"
    by (simp add: shrink_check_def demo_hash_def xhash_init_def raw_xhash_init_def Let_def)
  with xhash_delete_spec [of demo_str "demo_hash XHASH_INTEGER 2" 5] demo_hash_ok [of 2 demo_str XHASH_INTEGER]
  show ?thesis by (simp add: xhash_errors)
qed

text \<open>
  C33. Resizing into a table that is large enough, growing or shrinking, terminates, keeps
  every key and value, drops the deleted slots and sets size and limit; with no memory the
  answer is a null pointer.
\<close>

theorem xhash_resize_spec:
  assumes "xh_inv str h" and "unat (xh_used h) < 2 ^ k" and "k < 63" and "length mem = 2 * 2 ^ k"
  shows "xhash_resize str h k lim None = Some None \<and>
    (\<exists>t. xhash_resize str h k lim (Some mem) = Some (Some t) \<and> xh_inv str t \<and>
       xh_map str t = xh_map str h \<and> xh_used t = xh_used h \<and> xh_dummies t = 0 \<and>
       xh_size_shift t = k \<and> xh_limit t = lim)"
  using resize_result [OF assms]
  by (auto simp: xhash_resize_def raw_xhash_resize_def raw_xhash_new_def)

theorem xhash_resize_spec_witness:
  "\<exists>t. xhash_resize demo_str (demo_hash XHASH_STRING 4) 2 9 (Some (replicate 8 0)) = Some (Some t) \<and>
     xh_size_shift t = 2"
  using xhash_resize_spec [of demo_str "demo_hash XHASH_STRING 4" 2 "replicate 8 0" 9]
    demo_hash_ok [of 4 demo_str XHASH_STRING] by auto

text \<open>
  \<^verbatim>\<open>xhash_update\<close> replaces the value of a key that is present and returns 1; for a
  key that is absent it does not return: the branch that should end the loop jumps back
  into it.
\<close>

theorem xhash_update_spec:
  assumes "xh_inv str h" and "proper val"
  shows "case xh_map str h (key_of str (xh_type h) key) of
     None \<Rightarrow> xhash_update str h key val = None
   | Some w \<Rightarrow> (\<exists>t. xhash_update str h key val = Some (1, t) \<and> xh_inv str t \<and>
       xh_map str t = (xh_map str h)(key_of str (xh_type h) key \<mapsto> val))"
  using update_result [OF assms, of key] by (auto split: option.splits)

theorem xhash_update_spec_witness:
  "xhash_update demo_str (demo_hash XHASH_INTEGER 2) 5 50 = None"
  using xhash_update_spec [of demo_str "demo_hash XHASH_INTEGER 2" 50 5]
    demo_hash_ok [of 2 demo_str XHASH_INTEGER] by (simp add: proper_def DUMMY_def UNUSED_def)

text \<open>
  Iterating from the start lists every entry exactly once: the pairs have distinct
  keys and are the contents of the table.
\<close>

theorem xhash_print_spec:
  assumes "xh_inv str h"
  shows "distinct (map (\<lambda>p. key_of str (xh_type h) (fst p)) (xhash_print h xhash_iter_init)) \<and>
    map_of (map (\<lambda>(k, v). (key_of str (xh_type h) k, v)) (xhash_print h xhash_iter_init)) = xh_map str h"
proof -
  from assms have u: "uniq_ok str h" and wf: "xh_wf h" by (simp_all add: xh_inv_def)
  have "slots_of h (validp h) = set (filter (validp h) [0..<xhash_size h])" by (auto simp: slots_of_def)
  then have "unat (xh_used h) = length (filter (validp h) [0..<xhash_size h])"
    using wf by (metis distinct_card distinct_filter distinct_upt xh_wf_def)
  then have p: "xhash_print h xhash_iter_init =
      map (\<lambda>i. (xh_kvs h ! i, xh_vals h ! i)) (filter (validp h) [0..<xhash_size h])"
    using print_from [of xhash_iter_init h] by (simp add: xhash_iter_init_def)
  have "inj_on (slot_key str h) (set (filter (validp h) [0..<xhash_size h]))"
    using u by (auto simp: inj_on_def uniq_ok_def)
  then show ?thesis
    unfolding p by (simp add: distinct_map comp_def xh_map_def inj_on_def slot_key_def)
qed

theorem xhash_print_spec_witness:
  "distinct (map (\<lambda>p. key_of demo_str (xh_type (demo_hash XHASH_STRING 2)) (fst p))
     (xhash_print (demo_hash XHASH_STRING 2) xhash_iter_init))"
  using xhash_print_spec [of demo_str "demo_hash XHASH_STRING 2"] demo_hash_ok [of 2 demo_str XHASH_STRING]
  by simp

text \<open>
  Any list of distinct keys that the load check admits can be inserted into a fresh
  table, one after the other; every key is then found with its value, and no other key is.
\<close>

theorem xhash_insert_many:
  assumes "length mem = 2 * 2 ^ k" and "2 \<le> k" and "k < 63"
    and "distinct (map (\<lambda>p. key_of str t (fst p)) kvs)" and "\<forall>(key, v)\<in>set kvs. proper v"
    and "length kvs \<le> 2 * 2 ^ k div 3"
  shows "\<exists>h. put_all (put_hash str) kvs (xhash_init mem k 0 t) = Some h \<and>
    (\<forall>(key, v)\<in>set kvs. find_hash str h key = Some v) \<and>
    (\<forall>key. key_of str t key \<notin> (\<lambda>p. key_of str t (fst p)) ` set kvs \<longrightarrow> find_hash str h key = None)"
proof -
  let ?h = "xhash_init mem k 0 t"
  have f: "xh_used ?h = 0" "xh_dummies ?h = 0" "xh_type ?h = t" "xh_size_shift ?h = k" "xh_limit ?h = 0"
    by (simp_all add: xhash_init_def raw_xhash_init_def Let_def)
  have inv: "xh_inv str ?h" "xh_map str ?h = Map.empty"
    using hash_init_inv(1,2) [OF assms(1,3), of str k 0 t] by (simp_all add: xhash_init_def)
  have ok: "dict_ok str t ?h" using inv(1) f assms(2) by (simp add: dict_ok_def)
  have "length kvs \<le> hash_room ?h" using f assms(6) by (simp add: hash_room_def xhash_size_def)
  moreover have "\<forall>(key, v)\<in>set kvs. xh_map str ?h (key_of str t key) = None" by (simp add: inv(2))
  moreover have "find_hash str ?h key = None" for key using xhd.find [OF ok] by (simp add: inv(2))
  ultimately show ?thesis using xhd.put_all_finds [OF ok assms(4,5)] by auto
qed

theorem xhash_insert_many_witness:
  "\<exists>h. put_all (put_hash demo_str) [(9, 90), (5, 50)] (xhash_init (replicate 8 0) 2 0 XHASH_INTEGER) = Some h \<and>
     find_hash demo_str h 5 = Some 50 \<and> find_hash demo_str h 1 = None"
  using xhash_insert_many [of "replicate 8 0" 2 demo_str XHASH_INTEGER "[(9, 90), (5, 50)]"]
  by (auto simp: key_of_def proper_def DUMMY_def UNUSED_def)

text \<open>
  C34. Inserting a key that is present, when the search meets a deleted slot before its
  entry, writes a second entry: the new value is found, but deleting the key once brings
  the old value back.
\<close>

theorem xhash_insert_shadows:
  assumes "xh_inv str h" and "xh_map str h (key_of str (xh_type h) key) = Some w" and "proper val"
    and "dummyp h (slot_seq str h key n)"
    and "\<forall>j<n. validp h (slot_seq str h key j) \<and>
      slot_key str h (slot_seq str h key j) \<noteq> key_of str (xh_type h) key"
  shows "\<exists>t1 t2. raw_xhash_insert str h key val = Some t1 \<and>
    xhash_lookup str t1 key = Some (0, Some val) \<and>
    raw_xhash_delete str t1 key True = Some (0, t2) \<and> xhash_lookup str t2 key = Some (0, Some w)"
proof -
  let ?t2 = "put_slot h (slot_seq str h key n) key DUMMY (xh_used h) (xh_dummies h)"
  have before: "j < n \<Longrightarrow> validp h (slot_seq str h key j) \<and>
      slot_key str h (slot_seq str h key j) \<noteq> key_of str (xh_type h) key" for j using assms(5) by blast
  note s = insert_shadow [OF assms(1,4) before assms(3)]
  note m = put_mark [OF assms(1) slot_seq_less assms(4) refl, of key]
  have "xhash_lookup str ?t2 key = Some (0, Some w)"
    using lookup_result [OF m(1), of key] m(2) assms(2) by simp
  with s show ?thesis by blast
qed

text \<open>Keys 1 and 5 of a table of four slots collide; key 1 is deleted again.\<close>

definition demo_shadow :: xhash where
  "demo_shadow = (let h1 = the (raw_xhash_insert demo_str (demo_hash XHASH_INTEGER 2) 1 10);
     h2 = the (raw_xhash_insert demo_str h1 5 50) in snd (the (raw_xhash_delete demo_str h2 1 True)))"

lemma demo_shadow_ok:
  "xh_inv demo_str demo_shadow" "xh_map demo_str demo_shadow (Inl 5) = Some 50"
  "xh_type demo_shadow = XHASH_INTEGER"
proof -
  let ?h0 = "demo_hash XHASH_INTEGER 2"
  note ok = demo_hash_ok [of 2 demo_str XHASH_INTEGER]
  have pr: "proper 10" "proper 50" by (simp_all add: proper_def DUMMY_def UNUSED_def)
  have k: "key_of demo_str XHASH_INTEGER x = Inl x" for x by (simp add: key_of_def)
  from insert_absent [of demo_str ?h0 1 10, OF _ _ _ _ disjI1 [OF refl]] ok pr
  obtain h1 where h1: "raw_xhash_insert demo_str ?h0 1 10 = Some h1" "xh_inv demo_str h1"
    "xh_map demo_str h1 = [Inl 1 \<mapsto> 10]" "unat (xh_used h1) = 1" "xh_type h1 = XHASH_INTEGER"
    "xh_size_shift h1 = 2" "xh_dummies h1 = 0" by (auto simp: k xhash_size_def)
  from insert_absent [of demo_str h1 5 50, OF _ _ _ _ disjI1 [OF refl]] h1 pr
  obtain h2 where h2: "raw_xhash_insert demo_str h1 5 50 = Some h2" "xh_inv demo_str h2"
    "xh_map demo_str h2 = [Inl 1 \<mapsto> 10, Inl 5 \<mapsto> 50]" "xh_type h2 = XHASH_INTEGER"
    by (auto simp: k xhash_size_def)
  from delete_result(2) [OF h2(2), of 1 10] h2 obtain h where "raw_xhash_delete demo_str h2 1 True = Some (0, h)"
    "xh_inv demo_str h" "xh_map demo_str h (Inl 5) = Some 50" "xh_type h = XHASH_INTEGER" by (auto simp: k)
  then show "xh_inv demo_str demo_shadow" "xh_map demo_str demo_shadow (Inl 5) = Some 50"
    "xh_type demo_shadow = XHASH_INTEGER" by (simp_all add: demo_shadow_def h1(1) h2(1))
qed

theorem xhash_insert_shadows_witness:
  "\<exists>t1 t2. raw_xhash_insert demo_str demo_shadow 5 51 = Some t1 \<and>
     raw_xhash_delete demo_str t1 5 True = Some (0, t2) \<and> xhash_lookup demo_str t2 5 = Some (0, Some 50)"
proof -
  have "dummyp demo_shadow (slot_seq demo_str demo_shadow 5 0)" by code_simp
  moreover have "proper 51" by (simp add: proper_def DUMMY_def UNUSED_def)
  ultimately show ?thesis
    using xhash_insert_shadows [of demo_str demo_shadow 5 50 51 0] demo_shadow_ok by (auto simp: key_of_def)
qed

text \<open>
  In a table of two slots the load check admits a second key, and then no slot is
  unused: a lookup of any third key does not return.
\<close>

theorem xhash_two_slots_hang:
  assumes "xh_inv str h" and "xh_size_shift h = 1" and "xh_used h = 1" and "xh_dummies h = 0"
    and "xh_limit h = 0" and "xh_map str h (key_of str (xh_type h) key) = None" and "proper val"
    and "xh_map str h (key_of str (xh_type h) other) = None"
    and "key_of str (xh_type h) other \<noteq> key_of str (xh_type h) key"
  shows "\<exists>t. xhash_insert str h key val = Some (0, t) \<and> xhash_lookup str t other = None"
proof -
  from assms(1) have wf: "xh_wf h" by (simp add: xh_inv_def)
  have sz: "xhash_size h = 2" using assms(2) by (simp add: xhash_size_def)
  from assms(6) have absent: "\<nexists>j. has str h (key_of str (xh_type h) key) j"
    using map_of_has(1) [OF assms(1)] by simp
  from update_absent [OF assms(1) absent, of "\<lambda>idx. xhash_upd_set idx key val" "\<lambda>idx. set_val idx key val"]
  obtain n i where n: "slot_seq str h key n = i" "\<not> validp h i"
    "raw_xhash_insert str h key val = Some (xhash_upd_set i key val h)"
    unfolding raw_xhash_insert_def by blast
  define t where "t = xhash_upd_set i key val h"
  have i: "i < xhash_size h" using n(1) by auto
  note p = put_slot_preds [OF wf i]
  have g: "\<not> grow_check h" using assms(2-4) by (simp add: grow_check_def) (simp add: word_le_nat_alt)
  have "card (slots_of h (validp h)) = 1" using wf assms(3) by (simp add: xh_wf_def)
  then obtain j where j: "slots_of h (validp h) = {j}" by (rule card_1_singletonE)
  then have "validp h j" "j < 2" "i < 2" using i sz by (auto simp: slots_of_def)
  then have valid: "validp t l" if "l < 2" for l
  proof -
    have "l = i \<or> l = j" using \<open>validp h j\<close> n(2) \<open>j < 2\<close> \<open>i < 2\<close> that by (cases "i = j") auto
    then show ?thesis using \<open>validp h j\<close> assms(7) by (auto simp: t_def upd_set_put p proper_def)
  qed
  have "xhash_size t = 2" "xh_type t = xh_type h" using sz by (simp_all add: t_def upd_set_put)
  moreover have "\<not> has str t (key_of str (xh_type h) other) l" for l
    using assms(9) map_of_has(1) [OF assms(1), of "key_of str (xh_type h) other"] assms(8)
    by (auto simp: t_def upd_set_put put_slot_has [OF wf i])
  ultimately have "xhash_lookup str t other = None"
    using valid slot_cases(3) by (intro lookup_full) auto
  moreover have "xhash_insert str h key val = Some (0, t)"
    using g assms(5) n(3) by (simp add: xhash_insert_def t_def)
  ultimately show ?thesis by blast
qed

theorem xhash_two_slots_hang_witness:
  "\<exists>h1 t. xhash_insert demo_str (demo_hash XHASH_INTEGER 1) 1 10 = Some (0, h1) \<and>
     xhash_insert demo_str h1 2 20 = Some (0, t) \<and> xhash_lookup demo_str t 3 = None"
proof -
  let ?h0 = "demo_hash XHASH_INTEGER 1"
  have g: "\<not> grow_check ?h0" using demo_hash_ok [of 1 demo_str XHASH_INTEGER] by (simp add: grow_check_def)
  have pr: "proper 10" "proper 20" by (simp_all add: proper_def DUMMY_def UNUSED_def)
  have k: "key_of demo_str XHASH_INTEGER x = Inl x" for x by (simp add: key_of_def)
  from insert_absent [of demo_str ?h0 1 10, OF _ _ _ _ disjI1 [OF refl]] demo_hash_ok [of 1 demo_str XHASH_INTEGER] pr
  obtain h1 where h1: "raw_xhash_insert demo_str ?h0 1 10 = Some h1" "xh_inv demo_str h1"
    "xh_map demo_str h1 = [Inl 1 \<mapsto> 10]" "unat (xh_used h1) = 1" "xh_type h1 = XHASH_INTEGER"
    "xh_size_shift h1 = 1" "xh_dummies h1 = 0" "xh_limit h1 = 0" by (auto simp: k xhash_size_def)
  have "xh_used h1 = 1" using h1(4) by (simp add: word_unat_eq_iff)
  moreover have "xhash_insert demo_str ?h0 1 10 = Some (0, h1)"
    using g h1(1) demo_hash_ok [of 1 demo_str XHASH_INTEGER] by (simp add: xhash_insert_def)
  ultimately show ?thesis
    using xhash_two_slots_hang [of demo_str h1 2 20 3] h1 pr by (auto simp: k)
qed

end
