(* ===== verification/Xheap.thy ===== *)
theory Xheap
  imports Xlock
begin

text \<open>
  The heap of \<^verbatim>\<open>xtypes/xheap.c\<close>: a region that begins with an array of free-list heads,
  one per size class, followed by chunks, each behind a header of three words (magic, heap,
  size). Addresses are byte offsets from \<^verbatim>\<open>heap->mem\<close>, the memory is the map from the
  offset of a 64-bit word to its value, and a free chunk holds the offset of the next free
  chunk of its list in its first word. Offsets and sizes are naturals; every addition and
  subtraction of the code that can leave 64 bits is reduced explicitly.
\<close>

section \<open>Data and sizes\<close>

definition w64 :: "nat \<Rightarrow> nat" where "w64 x = x mod 2 ^ 64"

definition SMALL_LIMIT :: nat where "SMALL_LIMIT = 5"
definition MEDIUM_LIMIT :: nat where "MEDIUM_LIMIT = 10"
definition MEDIUM_AL_UNIT :: nat where "MEDIUM_AL_UNIT = SMALL_LIMIT - 3"
definition LARGE_AL_UNIT :: nat where "LARGE_AL_UNIT = MEDIUM_LIMIT - 3"

lemmas xheap_limits = SMALL_LIMIT_def MEDIUM_LIMIT_def MEDIUM_AL_UNIT_def LARGE_AL_UNIT_def

text \<open>The size of \<^verbatim>\<open>struct xheap_header\<close>.\<close>

definition HDR :: nat where "HDR = 24"

definition MAGIC :: nat where "MAGIC = 0xdeadbeaf"

record xheap =
  hp_unit :: nat
  hp_size :: nat
  hp_cur :: nat
  hp_lock :: xlock
  hp_self :: nat
  hp_mem :: "nat \<Rightarrow> nat"

text \<open>The macro \<^verbatim>\<open>__align\<close> on naturals, with its wrap-around at 0 and at the top.\<close>

definition align64 :: "nat \<Rightarrow> nat \<Rightarrow> nat" where
  "align64 x shift = w64 ((w64 (x + 2 ^ 64 - 1) div 2 ^ shift + 1) * 2 ^ shift)"

definition get_alloc_bytes :: "nat \<Rightarrow> nat \<Rightarrow> nat" where
  "get_alloc_bytes unit bytes =
     (if bytes < 2 ^ (unit + SMALL_LIMIT) then align64 (w64 (bytes + HDR)) unit
      else if bytes < 2 ^ (unit + MEDIUM_LIMIT) then align64 (w64 (bytes + HDR)) (unit + MEDIUM_AL_UNIT)
      else align64 (w64 (bytes + HDR)) (unit + LARGE_AL_UNIT))"

definition get_index :: "nat \<Rightarrow> nat \<Rightarrow> nat" where
  "get_index unit bytes =
     (let bytes = w64 (get_alloc_bytes unit bytes + 2 ^ 64 - HDR) in
      if bytes < 2 ^ (unit + SMALL_LIMIT) then bytes div 2 ^ unit
      else if bytes < 2 ^ (unit + MEDIUM_LIMIT)
      then 2 ^ SMALL_LIMIT - 2 ^ (SMALL_LIMIT - MEDIUM_AL_UNIT) + bytes div 2 ^ (unit + MEDIUM_AL_UNIT)
      else 2 ^ SMALL_LIMIT + 2 ^ MEDIUM_LIMIT - 2 ^ (SMALL_LIMIT - MEDIUM_AL_UNIT)
             - 2 ^ (MEDIUM_LIMIT - (LARGE_AL_UNIT - MEDIUM_AL_UNIT))
             + bytes div 2 ^ (unit + LARGE_AL_UNIT))"

section \<open>Operations\<close>

definition put_word :: "nat \<Rightarrow> nat \<Rightarrow> xheap \<Rightarrow> xheap" where
  "put_word a v h = h\<lparr>hp_mem := (hp_mem h)(a := v)\<rparr>"

definition get_header :: "nat \<Rightarrow> nat" where "get_header ptr = ptr - HDR"

text \<open>The words of a header: magic, the pointer to the heap, the size.\<close>

definition xheap_get_chunk_size :: "xheap \<Rightarrow> nat \<Rightarrow> nat" where
  "xheap_get_chunk_size h ptr = hp_mem h (get_header ptr + 16)"

definition free_list :: "nat \<Rightarrow> nat" where "free_list r = 8 * r"

text \<open>
  The part of \<^verbatim>\<open>xheap_allocate\<close> under the lock, and the whole function: the two size
  checks follow the release. \<open>None\<close> as address is the null pointer.
\<close>

definition raw_xheap_allocate :: "nat \<Rightarrow> xheap \<Rightarrow> nat option \<times> xheap" where
  "raw_xheap_allocate bytes h =
     (let r = get_index (hp_unit h) bytes; head = hp_mem h (free_list r) in
      if head = 0 then
        let bytes = get_alloc_bytes (hp_unit h) bytes in
        if w64 (hp_cur h + bytes) > hp_size h then (None, h)
        else let addr = hp_cur h + HDR;
                 h = put_word (hp_cur h + 16) (w64 (bytes + 2 ^ 64 - HDR)) h;
                 h = put_word (hp_cur h) MAGIC h;
                 h = put_word (hp_cur h + 8) (hp_self h) h
             in (Some addr, h\<lparr>hp_cur := w64 (hp_cur h + bytes)\<rparr>)
      else if head > hp_cur h then (None, h)
      else let nxt = hp_mem h head in (Some head, put_word (free_list r) nxt h))"

definition xheap_allocate :: "caller \<Rightarrow> nat \<Rightarrow> xheap \<Rightarrow> (nat option \<times> xheap) option" where
  "xheap_allocate c bytes h =
     (case xlock_acquire c (hp_lock h) of None \<Rightarrow> None
      | Some l \<Rightarrow>
        let (addr, h) = raw_xheap_allocate bytes (h\<lparr>hp_lock := l\<rparr>);
            h = h\<lparr>hp_lock := xlock_release (hp_lock h)\<rparr>;
            addr = (case addr of None \<Rightarrow> None
                    | Some a \<Rightarrow> if xheap_get_chunk_size h a < bytes then None else Some a);
            addr = (case addr of None \<Rightarrow> None
                    | Some a \<Rightarrow> if xheap_get_chunk_size h a \<noteq> w64 (get_alloc_bytes (hp_unit h) bytes + 2 ^ 64 - HDR)
                               then None else Some a)
        in Some (addr, h))"

definition add_in_free_list :: "caller \<Rightarrow> nat \<Rightarrow> nat \<Rightarrow> xheap \<Rightarrow> xheap option" where
  "add_in_free_list c list ptr h =
     (case xlock_acquire c (hp_lock h) of None \<Rightarrow> None
      | Some l \<Rightarrow>
        let h = h\<lparr>hp_lock := l\<rparr>; cur = hp_mem h list;
            h = put_word ptr cur h;
            h = put_word list ptr h
        in Some (h\<lparr>hp_lock := xlock_release (hp_lock h)\<rparr>))"

text \<open>A wrong magic is only logged.\<close>

definition xheap_free :: "caller \<Rightarrow> nat \<Rightarrow> xheap \<Rightarrow> xheap option" where
  "xheap_free c ptr h =
     (let sz = xheap_get_chunk_size h ptr; r = get_index (hp_unit h) sz
      in add_in_free_list c (free_list r) ptr h)"

text \<open>The loop that reserves the index array; a page has at least one byte.\<close>

function skip_index :: "nat \<Rightarrow> nat \<Rightarrow> nat \<Rightarrow> nat" where
  "skip_index page need cur = (if cur < need \<and> 0 < page then skip_index page need (cur + page) else cur)"
  by pat_completeness auto
termination by (relation "measure (\<lambda>(page, need, cur). need - cur)") auto

declare skip_index.simps [simp del]

definition xheap_init :: "nat \<Rightarrow> nat \<Rightarrow> nat \<Rightarrow> xheap \<Rightarrow> int \<times> xheap" where
  "xheap_init sz unit mem h =
     (let al_mem = align64 mem unit; diff = w64 (al_mem + 2 ^ 64 - mem); heap_page = 2 ^ unit;
          h = h\<lparr>hp_cur := diff, hp_size := sz, hp_unit := unit\<rparr>;
          r = get_index (hp_unit h) sz
      in if heap_page < HDR then (-1, h)
         else
           let cur = (if diff < HDR then diff + heap_page else diff);
               cur = cur - HDR;
               cur = skip_index heap_page (8 * r) cur;
               h = h\<lparr>hp_cur := cur\<rparr>;
               h = fold (\<lambda>i. put_word (free_list i) 0) [0..<r] h
           in if hp_cur h \<ge> w64 (sz + 2 ^ 64 - heap_page) then (-1, h)
              else (0, h\<lparr>hp_lock := xlock_release (hp_lock h)\<rparr>))"

section \<open>Sizes and classes\<close>

lemma w64_less [simp]: "x < 2 ^ 64 \<Longrightarrow> w64 x = x"
  by (simp add: w64_def)

lemma align64_eq:
  assumes "0 < x" and "x < 2 ^ 63" and "s < 60"
  shows "align64 x s = ((x - 1) div 2 ^ s + 1) * 2 ^ s" and "align64 x s < 2 ^ 64"
    and "x \<le> align64 x s" and "align64 x s < x + 2 ^ s" and "2 ^ s dvd align64 x s"
proof -
  have p: "(2 :: nat) ^ s < 2 ^ 60" using assms(3) by (rule power_strict_increasing) simp
  from assms(1) obtain y where y: "x = Suc y" by (cases x) auto
  have "w64 (x + 2 ^ 64 - 1) = x - 1" using assms(2) unfolding w64_def y by simp
  moreover have le: "(x - 1) div 2 ^ s * 2 ^ s \<le> x - 1" by simp
  have ex: "((x - 1) div 2 ^ s + 1) * 2 ^ s = (x - 1) div 2 ^ s * 2 ^ s + 2 ^ s" by simp
  have "((x - 1) div 2 ^ s + 1) * 2 ^ s < 2 ^ 64" 
  proof -
    have "(x - 1) div 2 ^ s * 2 ^ s + 2 ^ s < 2 ^ 63 + (2 :: nat) ^ 60" using le p assms(2) by linarith
    then show ?thesis unfolding ex by simp
  qed
  ultimately show eq: "align64 x s = ((x - 1) div 2 ^ s + 1) * 2 ^ s" and "align64 x s < 2 ^ 64"
    by (simp_all add: align64_def)
  show "2 ^ s dvd align64 x s" unfolding eq by simp
  show "align64 x s < x + 2 ^ s" unfolding eq ex using le assms(1) by linarith
  have "x - 1 < ((x - 1) div 2 ^ s + 1) * 2 ^ s"
    by (metis add.commute dividend_less_div_times less_exp mult.commute plus_1_eq_Suc mult_Suc
        zero_less_numeral zero_less_power)
  then show "x \<le> align64 x s" unfolding eq by simp
qed

text \<open>
  The alignment a request of \<open>b\<close> bytes gets, the payload of the chunk made for it, and what
  holds of both for requests below \<open>2 ^ 62\<close> in a heap with an alignment unit below 20.
\<close>

definition class_unit :: "nat \<Rightarrow> nat \<Rightarrow> nat" where
  "class_unit unit b = (if b < 2 ^ (unit + SMALL_LIMIT) then unit
     else if b < 2 ^ (unit + MEDIUM_LIMIT) then unit + MEDIUM_AL_UNIT else unit + LARGE_AL_UNIT)"

definition payload :: "nat \<Rightarrow> nat \<Rightarrow> nat" where
  "payload unit b = get_alloc_bytes unit b - HDR"

lemma alloc_bytes_eq:
  assumes "b < 2 ^ 62" and "unit < 20"
  shows "get_alloc_bytes unit b = align64 (b + HDR) (class_unit unit b)"
  using assms by (simp add: get_alloc_bytes_def class_unit_def HDR_def)

lemma class_unit_bound: "unit < 20 \<Longrightarrow> class_unit unit b < 60" "unit \<le> class_unit unit b"
  by (simp_all add: class_unit_def xheap_limits)

lemma alloc_bytes:
  assumes "b < 2 ^ 62" and "unit < 20"
  shows "b + HDR \<le> get_alloc_bytes unit b" and "get_alloc_bytes unit b < 2 ^ 63"
    and "2 ^ unit dvd get_alloc_bytes unit b" and "b \<le> payload unit b"
    and "w64 (get_alloc_bytes unit b + 2 ^ 64 - HDR) = payload unit b"
    and "payload unit b + HDR = get_alloc_bytes unit b"
proof -
  have h: "0 < b + HDR" "b + HDR < 2 ^ 63" using assms(1) by (simp_all add: HDR_def)
  note a = align64_eq [OF h class_unit_bound(1) [OF assms(2), of b], folded alloc_bytes_eq [OF assms]]
  show le: "b + HDR \<le> get_alloc_bytes unit b" by (rule a(3))
  have "(2 :: nat) ^ class_unit unit b \<le> 2 ^ 60"
    using class_unit_bound(1) [OF assms(2), of b] by (intro power_increasing) auto
  with a(4) assms(1) show lt: "get_alloc_bytes unit b < 2 ^ 63" by (simp add: HDR_def)
  show "2 ^ unit dvd get_alloc_bytes unit b"
    using a(5) class_unit_bound(2) [of unit b] by (meson dvd_trans le_imp_power_dvd)
  show "b \<le> payload unit b" "payload unit b + HDR = get_alloc_bytes unit b"
    using le by (simp_all add: payload_def)
  show "w64 (get_alloc_bytes unit b + 2 ^ 64 - HDR) = payload unit b"
    using le lt by (simp add: w64_def payload_def mod_if)
qed

section \<open>Chunks and free lists\<close>

text \<open>
  The heap is tiled by chunks: each has its header right before its payload and the next
  header right behind it. \<open>linked m F\<close> says that list \<open>r\<close> of the index array holds the
  chunks \<open>F r\<close>, in order.
\<close>

fun tiled :: "nat \<Rightarrow> (nat \<times> nat) list \<Rightarrow> nat \<Rightarrow> bool" where
  "tiled s [] e \<longleftrightarrow> s = e"
| "tiled s ((a, n) # cs) e \<longleftrightarrow> a = s + HDR \<and> tiled (a + n) cs e"

fun linked :: "(nat \<Rightarrow> nat) \<Rightarrow> nat \<Rightarrow> nat list \<Rightarrow> bool" where
  "linked m p [] \<longleftrightarrow> m p = 0"
| "linked m p (a # as) \<longleftrightarrow> m p = a \<and> a \<noteq> 0 \<and> linked m a as"

lemma linked_cong:
  "linked m p as \<Longrightarrow> m' p = m p \<Longrightarrow> (\<And>a. a \<in> set as \<Longrightarrow> m' a = m a) \<Longrightarrow> linked m' p as"
  by (induction as arbitrary: p) auto

definition classes :: "xheap \<Rightarrow> nat" where "classes h = get_index (hp_unit h) (hp_size h)"

definition heap_rep :: "xheap \<Rightarrow> nat \<Rightarrow> (nat \<times> nat) list \<Rightarrow> (nat \<Rightarrow> nat list) \<Rightarrow> bool" where
  "heap_rep h s cs F \<longleftrightarrow>
     5 \<le> hp_unit h \<and> hp_unit h < 20 \<and> hp_size h < 2 ^ 61 \<and> hp_cur h \<le> hp_size h \<and>
     8 * classes h \<le> s \<and> tiled s cs (hp_cur h) \<and>
     (\<forall>(a, n)\<in>set cs. 8 \<le> n \<and> hp_mem h (a - 8) = n \<and> get_index (hp_unit h) n < classes h) \<and>
     (\<forall>r<classes h. linked (hp_mem h) (8 * r) (F r) \<and> distinct (F r) \<and>
        (\<forall>a\<in>set (F r). \<exists>n. (a, n) \<in> set cs \<and> get_index (hp_unit h) n = r))"

definition live :: "xheap \<Rightarrow> (nat \<times> nat) list \<Rightarrow> (nat \<Rightarrow> nat list) \<Rightarrow> (nat \<times> nat) set" where
  "live h cs F = {(a, n) \<in> set cs. a \<notin> (\<Union>r<classes h. set (F r))}"

definition span :: "nat \<times> nat \<Rightarrow> nat set" where "span c = {fst c - HDR..<fst c + snd c}"

lemma tiled_append: "tiled s (cs @ ds) e \<longleftrightarrow> (\<exists>m. tiled s cs m \<and> tiled m ds e)"
  by (induction cs arbitrary: s) auto

lemma tiled_le: "tiled s cs e \<Longrightarrow> s \<le> e"
proof (induction cs arbitrary: s)
  case (Cons c cs)
  obtain b k where c: "c = (b, k)" by (rule prod.exhaust)
  from Cons.prems have "tiled (s + HDR + k) cs e" unfolding c tiled.simps by blast
  from Cons.IH [OF this] show ?case by simp
qed simp

lemma tiled_bounds:
  "tiled s cs e \<Longrightarrow> (a, n) \<in> set cs \<Longrightarrow> s + HDR \<le> a \<and> a + n \<le> e"
proof (induction cs arbitrary: s)
  case (Cons c cs)
  obtain b k where c: "c = (b, k)" by (rule prod.exhaust)
  from Cons.prems(1) have t: "b = s + HDR" "tiled (b + k) cs e" unfolding c tiled.simps by blast+
  from Cons.prems(2) c consider "a = b" "n = k" | "(a, n) \<in> set cs" by auto
  then show ?case using Cons.IH [OF t(2)] tiled_le [OF t(2)] t(1) by cases auto
qed simp

text \<open>Chunks do not overlap, headers included, and an address determines its chunk.\<close>

lemma tiled_disjoint:
  assumes "tiled s cs e" and "c \<in> set cs" and "d \<in> set cs"
  shows "c = d \<or> fst c + snd c + HDR \<le> fst d \<or> fst d + snd d + HDR \<le> fst c"
  using assms
proof (induction cs arbitrary: s)
  case (Cons x cs)
  obtain b k where x: "x = (b, k)" by (rule prod.exhaust)
  from Cons.prems(1) have t: "tiled (b + k) cs e" unfolding x tiled.simps by blast
  have later: "b + k + HDR \<le> fst y" if "y \<in> set cs" for y
    using tiled_bounds [OF t, of "fst y" "snd y"] that by simp
  from Cons.prems(2,3) consider "c = x" "d = x" | "c = x" "d \<in> set cs" | "c \<in> set cs" "d = x"
    | "c \<in> set cs" "d \<in> set cs" by auto
  then show ?case using later [of c] later [of d] Cons.IH [OF t] by cases (simp_all add: x)
qed simp

lemma chunk_bounds:
  assumes "heap_rep h s cs F" and "(a, n) \<in> set cs"
  shows "s + HDR \<le> a" and "a + n \<le> hp_cur h" and "8 \<le> n" and "hp_mem h (a - 8) = n"
    and "8 * classes h + HDR \<le> a" and "get_index (hp_unit h) n < classes h"
proof -
  from assms have "tiled s cs (hp_cur h)" "8 * classes h \<le> s" by (simp_all add: heap_rep_def)
  with tiled_bounds assms(2) show "s + HDR \<le> a" "a + n \<le> hp_cur h" "8 * classes h + HDR \<le> a"
    by (fastforce)+
  from assms show "8 \<le> n" "hp_mem h (a - 8) = n" "get_index (hp_unit h) n < classes h"
    by (auto simp: heap_rep_def)
qed

lemma chunk_fun:
  assumes "heap_rep h s cs F" and "(a, n) \<in> set cs" and "(a, k) \<in> set cs"
  shows "n = k"
  using chunk_bounds(4) [OF assms(1,2)] chunk_bounds(4) [OF assms(1,3)] by simp

text \<open>A chunk is in one list only.\<close>

lemma list_class:
  assumes "heap_rep h s cs F" and "r < classes h" and "a \<in> set (F r)" and "(a, n) \<in> set cs"
  shows "get_index (hp_unit h) n = r"
proof -
  from assms(1-3) obtain k where "(a, k) \<in> set cs" "get_index (hp_unit h) k = r"
    unfolding heap_rep_def by blast
  with chunk_fun [OF assms(1,4)] show ?thesis by blast
qed

text \<open>
  What the representation reads of the memory: the index array, the size words, and the
  first words of free chunks. In particular a program that writes only inside its own
  chunks does not disturb it.
\<close>

lemma rep_cong:
  assumes "heap_rep h s cs F"
    and "\<And>r. r < classes h \<Longrightarrow> m' (8 * r) = hp_mem h (8 * r)"
    and "\<And>a n. (a, n) \<in> set cs \<Longrightarrow> m' (a - 8) = hp_mem h (a - 8)"
    and "\<And>r a. r < classes h \<Longrightarrow> a \<in> set (F r) \<Longrightarrow> m' a = hp_mem h a"
  shows "heap_rep (h\<lparr>hp_mem := m'\<rparr>) s cs F"
  using assms linked_cong [of "hp_mem h"] by (auto simp: heap_rep_def classes_def)

lemma user_write:
  assumes rep: "heap_rep h s cs F" and own: "(a, n) \<in> live h cs F" and x: "a \<le> x" "x + 8 \<le> a + n"
  shows "heap_rep (put_word x v h) s cs F"
  unfolding put_word_def
proof (rule rep_cong [OF rep])
  from own have an: "(a, n) \<in> set cs" by (simp add: live_def)
  note b = chunk_bounds [OF rep an]
  show "((hp_mem h)(x := v)) (8 * r) = hp_mem h (8 * r)" if "r < classes h" for r
    using b(5) x that by simp
  have t: "tiled s cs (hp_cur h)" using rep by (simp add: heap_rep_def)
  show "((hp_mem h)(x := v)) (c - 8) = hp_mem h (c - 8)" if "(c, k) \<in> set cs" for c k
    using tiled_disjoint [OF t an that] x chunk_bounds(1) [OF rep that] by (auto simp: HDR_def)
  show "((hp_mem h)(x := v)) c = hp_mem h c" if r: "r < classes h" "c \<in> set (F r)" for r c
  proof -
    from rep r obtain k where k: "(c, k) \<in> set cs" by (fastforce simp: heap_rep_def)
    have "c \<noteq> a" using own r by (auto simp: live_def)
    with tiled_disjoint [OF t an k] x chunk_bounds(3) [OF rep k] show ?thesis by (auto simp: HDR_def)
  qed
qed

section \<open>Allocation and release\<close>

lemma payload_ge:
  assumes "5 \<le> unit" and "unit < 20" and "b < 2 ^ 62"
  shows "8 \<le> payload unit b"
proof -
  have "(2 :: nat) ^ 5 dvd get_alloc_bytes unit b"
    using alloc_bytes(3) [OF assms(3,2)] le_imp_power_dvd [OF assms(1)] by (rule dvd_trans [rotated])
  then obtain q where q: "get_alloc_bytes unit b = 32 * q" by (auto elim: dvdE)
  have "24 \<le> get_alloc_bytes unit b" using alloc_bytes(1) [OF assms(3,2)] by (simp add: HDR_def)
  then have "32 \<le> get_alloc_bytes unit b" unfolding q by (cases q) auto
  then show ?thesis by (simp add: payload_def HDR_def)
qed

lemma rep_fields: "heap_rep h s cs F \<Longrightarrow> hp_unit h < 20 \<and> hp_size h < 2 ^ 61 \<and> hp_cur h \<le> hp_size h"
  by (simp add: heap_rep_def)

lemma rep_lock [simp]: "heap_rep (h\<lparr>hp_lock := l\<rparr>) s cs F = heap_rep h s cs F"
  by (simp add: heap_rep_def classes_def)

lemma raw_allocate_new:
  assumes rep: "heap_rep h s cs F" and b: "b < 2 ^ 62"
    and r: "get_index (hp_unit h) b < classes h" "get_index (hp_unit h) (payload (hp_unit h) b) < classes h"
    and nil: "F (get_index (hp_unit h) b) = []" and fits: "hp_cur h + get_alloc_bytes (hp_unit h) b \<le> hp_size h"
  shows "\<exists>h'. raw_xheap_allocate b h = (Some (hp_cur h + HDR), h') \<and>
    heap_rep h' s (cs @ [(hp_cur h + HDR, payload (hp_unit h) b)]) F \<and>
    hp_unit h' = hp_unit h \<and> hp_size h' = hp_size h \<and> hp_cur h' = hp_cur h + get_alloc_bytes (hp_unit h) b \<and>
    hp_lock h' = hp_lock h \<and> xheap_get_chunk_size h' (hp_cur h + HDR) = payload (hp_unit h) b \<and>
    (\<forall>x<hp_cur h. hp_mem h' x = hp_mem h x)"
proof -
  let ?u = "hp_unit h" and ?c = "hp_cur h"
  from rep have u: "?u < 20" and sz: "hp_size h < 2 ^ 61" and t: "tiled s cs ?c" by (simp_all add: heap_rep_def)
  note ab = alloc_bytes [OF b u]
  have pl: "8 \<le> payload ?u b" using rep b by (intro payload_ge) (simp_all add: heap_rep_def)
  have lt: "?c + get_alloc_bytes ?u b < 2 ^ 64" using fits sz by simp
  define m where "m = (hp_mem h)(?c + 16 := payload ?u b, ?c := MAGIC, ?c + 8 := hp_self h)"
  define h' where "h' = h\<lparr>hp_mem := m, hp_cur := ?c + get_alloc_bytes ?u b\<rparr>"
  have "hp_mem h (8 * get_index ?u b) = 0" using rep r(1) nil by (auto simp: heap_rep_def)
  then have res: "raw_xheap_allocate b h = (Some (?c + HDR), h')"
    using fits lt ab(5) by (simp add: raw_xheap_allocate_def Let_def free_list_def put_word_def h'_def m_def)
  have s: "8 * classes h \<le> s" "s \<le> ?c" using rep tiled_le [OF t] by (simp_all add: heap_rep_def)
  have m: "m x = hp_mem h x" if "x < ?c" for x using that by (simp add: m_def)
  have ms: "m (?c + 16) = payload ?u b" by (simp add: m_def)
  have F: "heap_rep (h\<lparr>hp_mem := m\<rparr>) s cs F"
  proof (rule rep_cong [OF rep])
    show "m (8 * r) = hp_mem h (8 * r)" if "r < classes h" for r using that s by (intro m) simp
    show "m (a - 8) = hp_mem h (a - 8)" if "(a, n) \<in> set cs" for a n
      using chunk_bounds(1-3) [OF rep that] by (intro m) (simp add: HDR_def)
    show "m a = hp_mem h a" if x: "r < classes h" "a \<in> set (F r)" for r a
    proof -
      from rep x obtain n where "(a, n) \<in> set cs" unfolding heap_rep_def by blast
      from chunk_bounds(2,3) [OF rep this] show ?thesis by (intro m) simp
    qed
  qed
  have c': "classes h' = classes h" by (simp add: classes_def h'_def)
  have tl: "tiled s (cs @ [(?c + HDR, payload ?u b)]) (?c + get_alloc_bytes ?u b)"
    unfolding tiled_append using t ab(6) by (auto simp: add.assoc)
  have "heap_rep h' s (cs @ [(?c + HDR, payload ?u b)]) F"
    unfolding heap_rep_def c'
  proof (intro conjI)
    show "\<forall>(a, n)\<in>set (cs @ [(?c + HDR, payload ?u b)]). 8 \<le> n \<and> hp_mem h' (a - 8) = n \<and>
        get_index (hp_unit h') n < classes h"
      using F ms pl r(2) by (auto simp: heap_rep_def classes_def h'_def HDR_def add.commute)
    show "\<forall>r<classes h. linked (hp_mem h') (8 * r) (F r) \<and> distinct (F r) \<and>
        (\<forall>a\<in>set (F r). \<exists>n. (a, n) \<in> set (cs @ [(?c + HDR, payload ?u b)]) \<and> get_index (hp_unit h') n = r)"
      using F by (fastforce simp: heap_rep_def classes_def h'_def)
  qed (use rep fits s tl in \<open>simp_all add: heap_rep_def h'_def\<close>)
  moreover have "xheap_get_chunk_size h' (?c + HDR) = payload ?u b"
    using ms by (simp add: xheap_get_chunk_size_def get_header_def h'_def HDR_def)
  moreover have "\<forall>x<?c. hp_mem h' x = hp_mem h x" using m by (simp add: h'_def)
  ultimately show ?thesis using res by (auto simp: h'_def)
qed

lemma raw_allocate_full:
  assumes "heap_rep h s cs F" and "b < 2 ^ 62" and "get_index (hp_unit h) b < classes h"
    and "F (get_index (hp_unit h) b) = []" and "hp_size h < hp_cur h + get_alloc_bytes (hp_unit h) b"
  shows "raw_xheap_allocate b h = (None, h)"
proof -
  have "hp_mem h (8 * get_index (hp_unit h) b) = 0" using assms by (auto simp: heap_rep_def)
  moreover have "hp_cur h + get_alloc_bytes (hp_unit h) b < 2 ^ 64"
    using alloc_bytes(2) [OF assms(2), of "hp_unit h"] rep_fields [OF assms(1)] by simp
  ultimately show ?thesis using assms(5) by (simp add: raw_xheap_allocate_def Let_def free_list_def)
qed

lemma raw_allocate_reuse:
  assumes rep: "heap_rep h s cs F" and r: "r < classes h" "r = get_index (hp_unit h) b" and Fr: "F r = a # as"
  shows "\<exists>h'. raw_xheap_allocate b h = (Some a, h') \<and> heap_rep h' s cs (F(r := as)) \<and>
    hp_unit h' = hp_unit h \<and> hp_size h' = hp_size h \<and> hp_cur h' = hp_cur h \<and> hp_lock h' = hp_lock h \<and>
    xheap_get_chunk_size h' a = xheap_get_chunk_size h a \<and>
    (\<forall>x. 8 * classes h \<le> x \<longrightarrow> hp_mem h' x = hp_mem h x)"
proof -
  from rep r Fr have ln: "linked (hp_mem h) (8 * r) (a # as)" and d: "distinct (a # as)"
    by (metis heap_rep_def)+
  from rep r Fr obtain n where an: "(a, n) \<in> set cs" "get_index (hp_unit h) n = r"
    unfolding heap_rep_def by (metis list.set_intros(1))
  note b = chunk_bounds [OF rep an(1)]
  define h' where "h' = put_word (8 * r) (hp_mem h a) h"
  have hm: "hp_mem h' x = (if x = 8 * r then hp_mem h a else hp_mem h x)" for x
    by (simp add: h'_def put_word_def)
  have "raw_xheap_allocate b h = (Some a, h')"
    using ln b(2) r(2) by (simp add: raw_xheap_allocate_def Let_def free_list_def h'_def)
  moreover have ge: "8 * classes h + HDR \<le> c" if "(c, k) \<in> set cs" for c k
    by (rule chunk_bounds(5) [OF rep that])
  have fl: "hp_mem h' c = hp_mem h c" if "r' < classes h" "c \<in> set (F r')" for r' c
  proof -
    from rep that obtain k where "(c, k) \<in> set cs" unfolding heap_rep_def by blast
    from ge [OF this] r(1) show ?thesis by (simp add: hm)
  qed
  have "linked (hp_mem h') (8 * r') ((F(r := as)) r') \<and> distinct ((F(r := as)) r') \<and>
      (\<forall>c\<in>set ((F(r := as)) r'). \<exists>k. (c, k) \<in> set cs \<and> get_index (hp_unit h) k = r')"
    if r': "r' < classes h" for r'
  proof (cases "r' = r")
    case True
    have "linked (hp_mem h') (8 * r) as"
    proof (cases as)
      case Nil
      then show ?thesis using ln by (simp add: hm)
    next
      case (Cons c cs')
      then have "linked (hp_mem h) c cs'" "hp_mem h a = c" "c \<noteq> 0" using ln by simp_all
      moreover have "linked (hp_mem h') c cs'"
        using \<open>linked (hp_mem h) c cs'\<close> by (rule linked_cong) (use fl r(1) Fr Cons in auto)
      ultimately show ?thesis using Cons by (simp add: hm)
    qed
    moreover have "\<forall>c\<in>set as. \<exists>k. (c, k) \<in> set cs \<and> get_index (hp_unit h) k = r"
      using rep r(1) Fr unfolding heap_rep_def by (metis list.set_intros(2))
    ultimately show ?thesis using True d by simp
  next
    case False
    from rep r' have F': "linked (hp_mem h) (8 * r') (F r')" "distinct (F r')"
      "\<forall>c\<in>set (F r'). \<exists>k. (c, k) \<in> set cs \<and> get_index (hp_unit h) k = r'"
      unfolding heap_rep_def by blast+
    have "linked (hp_mem h') (8 * r') (F r')"
      using F'(1) by (rule linked_cong) (use fl r' False in \<open>auto simp: hm\<close>)
    with F' False show ?thesis by simp
  qed
  moreover have sizes: "hp_mem h' (c - 8) = k" if "(c, k) \<in> set cs" for c k
  proof -
    have "c - 8 \<noteq> 8 * r" using ge [OF that] r(1) by (simp add: HDR_def)
    then show ?thesis using chunk_bounds(4) [OF rep that] by (simp add: hm)
  qed
  ultimately have "heap_rep h' s cs (F(r := as))"
    using rep unfolding heap_rep_def by (auto simp: h'_def put_word_def classes_def)
  moreover have "hp_mem h' (a - 8) = hp_mem h (a - 8)" using sizes [OF an(1)] b(4) by simp
  then have "xheap_get_chunk_size h' a = xheap_get_chunk_size h a"
    using b(1) by (simp add: xheap_get_chunk_size_def get_header_def HDR_def)
  moreover have "\<forall>x. 8 * classes h \<le> x \<longrightarrow> hp_mem h' x = hp_mem h x" using r(1) by (simp add: hm)
  ultimately show ?thesis
    using \<open>raw_xheap_allocate b h = (Some a, h')\<close> by (auto simp: h'_def put_word_def)
qed

lemma add_in_free_list_rep:
  assumes rep: "heap_rep h s cs F" and own: "(a, n) \<in> live h cs F" and lk: "unlocked (hp_lock h)"
    and r: "r = get_index (hp_unit h) n"
  shows "\<exists>h'. xheap_free c a h = Some h' \<and> heap_rep h' s cs (F(r := a # F r)) \<and> hp_lock h' = free_lock \<and>
    hp_unit h' = hp_unit h \<and> hp_size h' = hp_size h \<and> hp_cur h' = hp_cur h"
proof -
  from own have an: "(a, n) \<in> set cs" and nf: "\<And>r. r < classes h \<Longrightarrow> a \<notin> set (F r)" by (auto simp: live_def)
  note b = chunk_bounds [OF rep an]
  have rc: "r < classes h" using b(6) r by simp
  define m where "m = (hp_mem h)(a := hp_mem h (8 * r), 8 * r := a)"
  define h' where "h' = h\<lparr>hp_mem := m, hp_lock := free_lock\<rparr>"
  have "xheap_get_chunk_size h a = n"
    using b(1,4) by (simp add: xheap_get_chunk_size_def get_header_def HDR_def)
  then have res: "xheap_free c a h = Some h'"
    using lk r by (simp add: xheap_free_def add_in_free_list_def Let_def put_word_def free_list_def h'_def m_def)
  have t: "tiled s cs (hp_cur h)" using rep by (simp add: heap_rep_def)
  have a8: "a \<noteq> 8 * i" if "i < classes h" for i using b(5) that by simp
  have mi: "m (8 * i) = hp_mem h (8 * i)" if "i < classes h" "i \<noteq> r" for i
    using a8 [OF that(1)] that(2) by (simp add: m_def)
  have ms: "m (x - 8) = k" if x: "(x, k) \<in> set cs" for x k
  proof -
    have "x - 8 \<noteq> 8 * r" using chunk_bounds(5) [OF rep x] rc by (simp add: HDR_def)
    moreover have "x - 8 \<noteq> a"
      using tiled_disjoint [OF t an x] b(3) chunk_bounds(1,3) [OF rep x] by (auto simp: HDR_def)
    ultimately show ?thesis using chunk_bounds(4) [OF rep x] by (simp add: m_def)
  qed
  have mf: "m x = hp_mem h x" if "i < classes h" "x \<in> set (F i)" for i x
  proof -
    from rep that obtain k where k: "(x, k) \<in> set cs" unfolding heap_rep_def by blast
    have "x \<noteq> 8 * r" using chunk_bounds(5) [OF rep k] rc by simp
    moreover have "x \<noteq> a" using nf that by auto
    ultimately show ?thesis by (simp add: m_def)
  qed
  have "linked m (8 * i) ((F(r := a # F r)) i) \<and> distinct ((F(r := a # F r)) i) \<and>
      (\<forall>x\<in>set ((F(r := a # F r)) i). \<exists>k. (x, k) \<in> set cs \<and> get_index (hp_unit h) k = i)"
    if i: "i < classes h" for i
  proof -
    from rep i have Fi: "linked (hp_mem h) (8 * i) (F i)" "distinct (F i)"
      "\<forall>x\<in>set (F i). \<exists>k. (x, k) \<in> set cs \<and> get_index (hp_unit h) k = i" unfolding heap_rep_def by blast+
    show ?thesis
    proof (cases "i = r")
      case True
      have "linked m a (F r)"
      proof (cases "F r")
        case Nil
        then show ?thesis using Fi(1) True a8 [OF rc] by (simp add: m_def)
      next
        case (Cons x xs)
        then have "hp_mem h (8 * r) = x" "x \<noteq> 0" "linked (hp_mem h) x xs" using Fi(1) True by simp_all
        moreover have "linked m x xs"
          using \<open>linked (hp_mem h) x xs\<close> by (rule linked_cong) (use mf rc Cons in auto)
        ultimately show ?thesis using Cons a8 [OF rc] by (simp add: m_def)
      qed
      moreover have "m (8 * r) = a" "a \<noteq> 0" using b(1) by (simp_all add: m_def HDR_def)
      ultimately show ?thesis using True Fi nf [OF rc] an r by auto
    next
      case False
      have "linked m (8 * i) (F i)" using Fi(1) by (rule linked_cong) (use mi mf i False in auto)
      with False Fi show ?thesis by simp
    qed
  qed
  then have "heap_rep h' s cs (F(r := a # F r))"
    using rep ms unfolding heap_rep_def by (auto simp: h'_def classes_def)
  with res show ?thesis by (auto simp: h'_def)
qed

text \<open>The whole allocation, case by case.\<close>

lemma allocate_of_raw:
  assumes "unlocked (hp_lock h)" and y: "y = h\<lparr>hp_lock := \<lparr>lk_owner = caller_word c, lk_pc = c_pc c\<rparr>\<rparr>"
  shows "xheap_allocate c b h =
    (let (addr, t) = raw_xheap_allocate b y; t = t\<lparr>hp_lock := xlock_release (hp_lock t)\<rparr>
     in Some (case addr of None \<Rightarrow> None
        | Some a \<Rightarrow> if xheap_get_chunk_size t a < b \<or>
                      xheap_get_chunk_size t a \<noteq> w64 (get_alloc_bytes (hp_unit t) b + 2 ^ 64 - HDR)
                   then None else Some a, t))"
  using assms(1) by (auto simp: xheap_allocate_def y Let_def split: prod.splits option.splits)

lemma chunk_size_lock [simp]: "xheap_get_chunk_size (h\<lparr>hp_lock := l\<rparr>) a = xheap_get_chunk_size h a"
  by (simp add: xheap_get_chunk_size_def)

text \<open>The words between the index array and the last chunk are kept.\<close>

definition keeps :: "xheap \<Rightarrow> xheap \<Rightarrow> bool" where
  "keeps h h' \<longleftrightarrow> (\<forall>x. 8 * classes h \<le> x \<longrightarrow> x < hp_cur h \<longrightarrow> hp_mem h' x = hp_mem h x)"

lemma allocate_cases:
  assumes rep: "heap_rep h s cs F" and lk: "unlocked (hp_lock h)" and b: "b < 2 ^ 62"
    and rb: "r = get_index (hp_unit h) b" "r < classes h"
    and rp: "get_index (hp_unit h) (payload (hp_unit h) b) < classes h"
  shows "F r = [] \<Longrightarrow> hp_cur h + get_alloc_bytes (hp_unit h) b \<le> hp_size h \<Longrightarrow>
      \<exists>h'. xheap_allocate c b h = Some (Some (hp_cur h + HDR), h') \<and> hp_lock h' = free_lock \<and>
        heap_rep h' s (cs @ [(hp_cur h + HDR, payload (hp_unit h) b)]) F \<and>
        hp_unit h' = hp_unit h \<and> hp_size h' = hp_size h \<and> keeps h h'"
    and "F r = [] \<Longrightarrow> hp_size h < hp_cur h + get_alloc_bytes (hp_unit h) b \<Longrightarrow>
      xheap_allocate c b h = Some (None, h\<lparr>hp_lock := free_lock\<rparr>)"
    and "F r = a # as \<Longrightarrow> (a, n) \<in> set cs \<Longrightarrow>
      \<exists>h'. xheap_allocate c b h = Some (if n = payload (hp_unit h) b then Some a else None, h') \<and>
        hp_lock h' = free_lock \<and> heap_rep h' s cs (F(r := as)) \<and>
        hp_unit h' = hp_unit h \<and> hp_size h' = hp_size h \<and> keeps h h'"
proof -
  define y where "y = h\<lparr>hp_lock := \<lparr>lk_owner = caller_word c, lk_pc = c_pc c\<rparr>\<rparr>"
  have ry: "heap_rep y s cs F" using rep by (simp add: y_def)
  have yf: "hp_unit y = hp_unit h" "hp_size y = hp_size h" "hp_cur y = hp_cur h" "classes y = classes h"
    by (simp_all add: y_def classes_def)
  have u: "hp_unit h < 20" using rep by (simp add: heap_rep_def)
  note al = allocate_of_raw [OF lk y_def, of b] and ab = alloc_bytes(4,5) [OF b u]
  {
    assume nil: "F r = []" and fits: "hp_cur h + get_alloc_bytes (hp_unit h) b \<le> hp_size h"
    from raw_allocate_new [OF ry b] rb rp nil fits obtain t where
      t: "raw_xheap_allocate b y = (Some (hp_cur h + HDR), t)"
      "heap_rep t s (cs @ [(hp_cur h + HDR, payload (hp_unit h) b)]) F" "hp_unit t = hp_unit h"
      "hp_size t = hp_size h" "xheap_get_chunk_size t (hp_cur h + HDR) = payload (hp_unit h) b"
      "\<forall>x<hp_cur h. hp_mem t x = hp_mem y x" by (auto simp: yf)
    then show "\<exists>h'. xheap_allocate c b h = Some (Some (hp_cur h + HDR), h') \<and> hp_lock h' = free_lock \<and>
        heap_rep h' s (cs @ [(hp_cur h + HDR, payload (hp_unit h) b)]) F \<and>
        hp_unit h' = hp_unit h \<and> hp_size h' = hp_size h \<and> keeps h h'"
      using ab by (simp add: al keeps_def) (simp add: y_def)
  next
    assume "F r = []" "hp_size h < hp_cur h + get_alloc_bytes (hp_unit h) b"
    with raw_allocate_full [OF ry b] rb have "raw_xheap_allocate b y = (None, y)" by (simp add: yf)
    then show "xheap_allocate c b h = Some (None, h\<lparr>hp_lock := free_lock\<rparr>)" by (simp add: al) (simp add: y_def)
  next
    assume Fr: "F r = a # as" and an: "(a, n) \<in> set cs"
    from raw_allocate_reuse [OF ry, of r b a as] rb Fr obtain t where
      t: "raw_xheap_allocate b y = (Some a, t)" "heap_rep t s cs (F(r := as))" "hp_unit t = hp_unit h"
      "hp_size t = hp_size h" "xheap_get_chunk_size t a = xheap_get_chunk_size y a"
      "\<forall>x. 8 * classes h \<le> x \<longrightarrow> hp_mem t x = hp_mem y x" by (auto simp: yf)
    moreover have "xheap_get_chunk_size y a = n"
      using chunk_bounds(1,4) [OF rep an]
      by (simp add: xheap_get_chunk_size_def get_header_def HDR_def y_def)
    ultimately show "\<exists>h'. xheap_allocate c b h = Some (if n = payload (hp_unit h) b then Some a else None, h') \<and>
        hp_lock h' = free_lock \<and> heap_rep h' s cs (F(r := as)) \<and>
        hp_unit h' = hp_unit h \<and> hp_size h' = hp_size h \<and> keeps h h'"
      using ab by (auto simp: al keeps_def y_def)
  }
qed

lemma span_disjoint:
  assumes "tiled s cs e" and "c \<in> set cs" and "d \<in> set cs" and "c \<noteq> d"
  shows "span c \<inter> span d = {}"
  using tiled_disjoint [OF assms(1-3)] tiled_bounds [OF assms(1), of "fst c" "snd c"]
    tiled_bounds [OF assms(1), of "fst d" "snd d"] assms(2-4)
  by (auto simp: span_def)

lemma live_iff: "p \<in> live h cs F \<longleftrightarrow> p \<in> set cs \<and> (\<forall>i<classes h. fst p \<notin> set (F i))"
  by (cases p) (auto simp: live_def)

text \<open>Requests and chunks of a request must have their class inside the index array.\<close>

definition in_classes :: "xheap \<Rightarrow> nat \<Rightarrow> bool" where
  "in_classes h b \<longleftrightarrow> b < 2 ^ 62 \<and> get_index (hp_unit h) b < classes h \<and>
     get_index (hp_unit h) (payload (hp_unit h) b) < classes h"

lemma init_fold:
  "hp_mem (fold (\<lambda>i. put_word (free_list i) 0) [0..<r] h) = (\<lambda>x. if \<exists>i<r. x = 8 * i then 0 else hp_mem h x)
   \<and> hp_cur (fold (\<lambda>i. put_word (free_list i) 0) [0..<r] h) = hp_cur h
   \<and> hp_size (fold (\<lambda>i. put_word (free_list i) 0) [0..<r] h) = hp_size h
   \<and> hp_unit (fold (\<lambda>i. put_word (free_list i) 0) [0..<r] h) = hp_unit h"
  by (induction r) (auto simp: put_word_def free_list_def fun_eq_iff less_Suc_eq)

lemma skip_index_ge: "0 < page \<Longrightarrow> need \<le> skip_index page need cur"
proof (induction page need cur rule: skip_index.induct)
  case (1 page need cur)
  then show ?case by (subst skip_index.simps) auto
qed

lemma skip_index_less: "0 < page \<Longrightarrow> cur < need + page \<Longrightarrow> skip_index page need cur < need + page"
proof (induction page need cur rule: skip_index.induct)
  case (1 page need cur)
  then show ?case by (subst skip_index.simps) auto
qed

text \<open>The initialisation: where the chunks begin, and what the two checks test.\<close>

definition heap_start :: "nat \<Rightarrow> nat \<Rightarrow> nat \<Rightarrow> nat" where
  "heap_start sz unit mem =
     (let d = w64 (align64 mem unit + 2 ^ 64 - mem)
      in skip_index (2 ^ unit) (8 * get_index unit sz) ((if d < HDR then d + 2 ^ unit else d) - HDR))"

lemma heap_init_eq:
  assumes "5 \<le> unit" and "sz < 2 ^ 61" and "2 ^ unit \<le> sz"
  shows "\<exists>h1. xheap_init sz unit mem h = (if heap_start sz unit mem \<ge> sz - 2 ^ unit then (-1, h1)
       else (0, h1\<lparr>hp_lock := free_lock\<rparr>)) \<and>
    hp_cur h1 = heap_start sz unit mem \<and> hp_size h1 = sz \<and> hp_unit h1 = unit \<and>
    (\<forall>i<get_index unit sz. hp_mem h1 (8 * i) = 0)"
proof -
  let ?r = "get_index unit sz"
  have "(2 :: nat) ^ 5 \<le> 2 ^ unit" using assms(1) by (intro power_increasing) auto
  then have page: "\<not> 2 ^ unit < HDR" by (simp add: HDR_def)
  have wz: "w64 (sz + 2 ^ 64 - 2 ^ unit) = sz - 2 ^ unit" using assms(2,3) by (simp add: w64_def mod_if)
  define d where "d = w64 (align64 mem unit + 2 ^ 64 - mem)"
  define cur where "cur = skip_index (2 ^ unit) (8 * ?r) ((if d < HDR then d + 2 ^ unit else d) - HDR)"
  define h1 where "h1 = fold (\<lambda>i. put_word (free_list i) 0) [0..<?r] (h\<lparr>hp_size := sz, hp_unit := unit, hp_cur := cur\<rparr>)"
  have cs: "cur = heap_start sz unit mem" by (simp add: cur_def heap_start_def d_def Let_def)
  have f: "hp_cur h1 = cur" "hp_size h1 = sz" "hp_unit h1 = unit"
    "\<And>i. i < ?r \<Longrightarrow> hp_mem h1 (8 * i) = 0"
    using init_fold [of ?r "h\<lparr>hp_size := sz, hp_unit := unit, hp_cur := cur\<rparr>"] by (auto simp: h1_def)
  have "xheap_init sz unit mem h =
      (if hp_cur h1 \<ge> w64 (sz + 2 ^ 64 - 2 ^ unit) then (-1, h1)
       else (0, h1\<lparr>hp_lock := xlock_release (hp_lock h1)\<rparr>))"
    unfolding xheap_init_def Let_def d_def [symmetric] using page
    by (simp add: cur_def [symmetric] h1_def [symmetric] del: if_split)
  then show ?thesis using f cs wz by (intro exI [of _ h1]) simp
qed

lemma heap_init_rep:
  assumes "5 \<le> unit" and "unit < 20" and "sz < 2 ^ 61" and "2 ^ unit \<le> sz"
    and "heap_start sz unit mem < sz - 2 ^ unit"
  shows "\<exists>h'. xheap_init sz unit mem h = (0, h') \<and> heap_rep h' (hp_cur h') [] (\<lambda>_. []) \<and>
    unlocked (hp_lock h') \<and> hp_size h' = sz \<and> hp_unit h' = unit \<and> hp_cur h' = heap_start sz unit mem"
proof -
  from heap_init_eq [OF assms(1,3,4), of mem h]
  obtain h1 where h1: "xheap_init sz unit mem h = (if heap_start sz unit mem \<ge> sz - 2 ^ unit then (-1, h1)
       else (0, h1\<lparr>hp_lock := free_lock\<rparr>))"
    "hp_cur h1 = heap_start sz unit mem" "hp_size h1 = sz" "hp_unit h1 = unit"
    "\<forall>i<get_index unit sz. hp_mem h1 (8 * i) = 0" by blast
  have "8 * get_index unit sz \<le> heap_start sz unit mem"
    unfolding heap_start_def Let_def by (rule skip_index_ge) simp
  then have "heap_rep (h1\<lparr>hp_lock := free_lock\<rparr>) (hp_cur h1) [] (\<lambda>_. [])"
    using h1(2-5) assms by (simp add: heap_rep_def classes_def)
  with h1 assms(5) show ?thesis by (intro exI [of _ "h1\<lparr>hp_lock := free_lock\<rparr>"]) simp
qed

section \<open>The boundary between small and medium chunks\<close>

lemma boundary_page: "5 \<le> u \<Longrightarrow> (32 :: nat) \<le> 2 ^ u"
  using power_increasing [of 5 u "2 :: nat"] by simp

lemma div_between: "q * m \<le> x \<Longrightarrow> x < (q + 1) * m \<Longrightarrow> x div m = (q :: nat)"
  by (metis div_nat_eqI add.commute mult.commute plus_1_eq_Suc)

lemma boundary_small:
  assumes u: "5 \<le> u" "u < 20" and b: "2 ^ (u + 5) < b + HDR" "b < 2 ^ (u + 5)"
  shows "get_alloc_bytes u b = 33 * 2 ^ u" and "get_index u b = 32"
proof -
  let ?U = "2 ^ u :: nat"
  have U: "32 \<le> ?U" by (rule boundary_page [OF u(1)])
  have b62: "b < 2 ^ 62" using b(2) u power_strict_increasing [of "u + 5" 62 "2 :: nat"] by simp
  have cu: "class_unit u b = u" using b by (simp add: class_unit_def SMALL_LIMIT_def)
  have q: "(b + HDR - 1) div ?U = 32"
    using b U by (intro div_between) (simp_all add: power_add HDR_def)
  have "align64 (b + HDR) u = ((b + HDR - 1) div ?U + 1) * ?U"
    using b62 u by (intro align64_eq(1)) (simp_all add: HDR_def)
  then show al: "get_alloc_bytes u b = 33 * ?U" unfolding q using alloc_bytes_eq [OF b62 u(2)] by (simp add: cu)
  have "w64 (get_alloc_bytes u b + 2 ^ 64 - HDR) = 33 * ?U - HDR"
    using alloc_bytes(5) [OF b62 u(2)] by (simp add: payload_def al)
  moreover have "(33 * ?U - HDR) div (4 * ?U) = 8"
    using U by (intro div_between) (simp_all add: HDR_def)
  moreover have "\<not> 33 * ?U - HDR < ?U * 32" "33 * ?U - HDR < ?U * 1024" using U by (simp_all add: HDR_def)
  ultimately show "get_index u b = 32" by (simp add: get_index_def xheap_limits power_add)
qed

lemma boundary_medium:
  assumes u: "5 \<le> u" "u < 20" and k: "2 ^ (u + 5) + 2 ^ u \<le> k + HDR" "k + HDR \<le> 2 ^ (u + 5) + 2 ^ (u + 2)"
  shows "get_alloc_bytes u k = 36 * 2 ^ u" and "get_index u k = 32"
proof -
  let ?U = "2 ^ u :: nat"
  have U: "32 \<le> ?U" by (rule boundary_page [OF u(1)])
  have "k + HDR \<le> 2 ^ (u + 6)" using k(2) by (simp add: power_add)
  then have k62: "k < 2 ^ 62" using u power_strict_increasing [of "u + 6" 62 "2 :: nat"] by simp
  have kU: "?U * 32 \<le> k" "k < ?U * 1024" "33 * ?U \<le> k + HDR" "k + HDR \<le> 36 * ?U"
    using k U by (simp_all add: power_add HDR_def)
  have cu: "class_unit u k = u + 2" using kU by (simp add: class_unit_def xheap_limits power_add)
  have q: "(k + HDR - 1) div (?U * 4) = 8"
    using kU U by (intro div_between) (simp_all add: HDR_def)
  have "align64 (k + HDR) (u + 2) = ((k + HDR - 1) div 2 ^ (u + 2) + 1) * 2 ^ (u + 2)"
    using k62 u by (intro align64_eq(1)) (simp_all add: HDR_def)
  moreover have "(k + HDR - 1) div 2 ^ (u + 2) = 8" using q by (simp only: power_add) simp
  ultimately show al: "get_alloc_bytes u k = 36 * ?U"
    using alloc_bytes_eq [OF k62 u(2)] by (simp only: cu) (simp add: power_add)
  have "w64 (get_alloc_bytes u k + 2 ^ 64 - HDR) = 36 * ?U - HDR"
    using alloc_bytes(5) [OF k62 u(2)] by (simp add: payload_def al)
  moreover have "(36 * ?U - HDR) div (4 * ?U) = 8"
    using U by (intro div_between) (simp_all add: HDR_def)
  moreover have "\<not> 36 * ?U - HDR < ?U * 32" "36 * ?U - HDR < ?U * 1024" using U by (simp_all add: HDR_def)
  ultimately show "get_index u k = 32" by (simp add: get_index_def xheap_limits power_add)
qed

section \<open>What an allocation does to the chunks in use\<close>

lemma live_new:
  assumes rep: "heap_rep h s cs F" and rep': "heap_rep h' s (cs @ [(hp_cur h + HDR, n)]) F"
    and cl: "classes h' = classes h"
  shows "live h' (cs @ [(hp_cur h + HDR, n)]) F = insert (hp_cur h + HDR, n) (live h cs F)"
    and "(hp_cur h + HDR, n) \<notin> live h cs F"
    and "d \<in> live h cs F \<Longrightarrow> span (hp_cur h + HDR, n) \<inter> span d = {}"
proof -
  let ?n = "(hp_cur h + HDR, n)"
  have t: "tiled s cs (hp_cur h)" and t': "tiled s (cs @ [?n]) (hp_cur h')"
    using rep rep' by (simp_all add: heap_rep_def)
  have new: "?n \<notin> set cs" using tiled_bounds [OF t, of "fst ?n" "snd ?n"] by (auto simp: HDR_def)
  have nf: "fst ?n \<notin> set (F i)" if "i < classes h" for i
  proof
    assume "fst ?n \<in> set (F i)"
    with rep that obtain k where "(fst ?n, k) \<in> set cs" unfolding heap_rep_def by blast
    from chunk_bounds(2,3) [OF rep this] show False by (simp add: HDR_def)
  qed
  show "live h' (cs @ [?n]) F = insert ?n (live h cs F)" using nf by (auto simp: live_iff cl)
  show "?n \<notin> live h cs F" using new by (simp add: live_iff)
  show "span ?n \<inter> span d = {}" if "d \<in> live h cs F"
    using that new by (intro span_disjoint [OF t']) (auto simp: live_iff)
qed

lemma live_reuse:
  assumes rep: "heap_rep h s cs F" and r: "r < classes h" and Fr: "F r = x # xs" and xn: "(x, n) \<in> set cs"
    and cl: "classes h' = classes h"
  shows "live h' cs (F(r := xs)) = insert (x, n) (live h cs F)" and "(x, n) \<notin> live h cs F"
    and "d \<in> live h cs F \<Longrightarrow> span (x, n) \<inter> span d = {}"
proof -
  have d: "distinct (F r)" and t: "tiled s cs (hp_cur h)" using rep r by (simp_all add: heap_rep_def)
  have xr: "x \<in> set (F r)" using Fr by simp
  then show nl: "(x, n) \<notin> live h cs F" using r by (auto simp: live_iff)
  have only: "x \<notin> set (F i)" if "i < classes h" "i \<noteq> r" for i
    using list_class [OF rep that(1) _ xn] list_class [OF rep r xr xn] that(2) by blast
  show "live h' cs (F(r := xs)) = insert (x, n) (live h cs F)"
  proof (intro set_eqI iffI)
    fix p assume "p \<in> live h' cs (F(r := xs))"
    then have p: "p \<in> set cs" "\<And>i. i < classes h \<Longrightarrow> fst p \<notin> set ((F(r := xs)) i)"
      by (auto simp: live_iff cl)
    show "p \<in> insert (x, n) (live h cs F)"
    proof (cases "fst p = x")
      case True
      then have "p = (x, n)" using chunk_fun [OF rep xn, of "snd p"] p(1) by (metis prod.collapse)
      then show ?thesis by simp
    next
      case False
      have "fst p \<notin> set (F i)" if "i < classes h" for i
        using p(2) [OF that] False Fr by (cases "i = r") auto
      then show ?thesis using p(1) by (auto simp: live_iff)
    qed
  next
    fix p assume p: "p \<in> insert (x, n) (live h cs F)"
    then have "p \<in> set cs" using xn by (auto simp: live_iff)
    moreover have "fst p \<notin> set ((F(r := xs)) i)" if "i < classes h" for i
      using p that only d Fr by (cases "i = r") (auto simp: live_iff)
    ultimately show "p \<in> live h' cs (F(r := xs))" by (simp add: live_iff cl)
  qed
  show "span (x, n) \<inter> span d = {}" if "d \<in> live h cs F"
    using that nl xn by (intro span_disjoint [OF t]) (auto simp: live_iff)
qed

lemma allocate_safe:
  assumes rep: "heap_rep h s cs F" and lk: "unlocked (hp_lock h)" and cls: "in_classes h b"
    and al: "xheap_allocate c b h = Some (Some a, h')"
  shows "\<exists>n cs' F'. heap_rep h' s cs' F' \<and> hp_lock h' = free_lock \<and> b \<le> n \<and> (a, n) \<notin> live h cs F \<and>
    live h' cs' F' = insert (a, n) (live h cs F) \<and> (\<forall>d\<in>live h cs F. span (a, n) \<inter> span d = {}) \<and>
    keeps h h' \<and> n = payload (hp_unit h) b \<and> hp_unit h' = hp_unit h \<and> hp_size h' = hp_size h"
proof -
  let ?u = "hp_unit h" and ?r = "get_index (hp_unit h) b"
  from cls have b: "b < 2 ^ 62" and r: "?r < classes h" "get_index ?u (payload ?u b) < classes h"
    by (simp_all add: in_classes_def)
  note ac = allocate_cases [OF rep lk b refl r, where c = c]
  have bp: "b \<le> payload ?u b" using rep b by (intro alloc_bytes(4)) (simp_all add: heap_rep_def)
  have cl: "hp_unit h' = hp_unit h \<Longrightarrow> hp_size h' = hp_size h \<Longrightarrow> classes h' = classes h"
    by (simp add: classes_def)
  show ?thesis
  proof (cases "F ?r")
    case Nil
    have fits: "hp_cur h + get_alloc_bytes ?u b \<le> hp_size h"
      using ac(2) [OF Nil] al by (cases "hp_cur h + get_alloc_bytes ?u b \<le> hp_size h") auto
    from ac(1) [OF Nil fits] al have h': "a = hp_cur h + HDR" "hp_lock h' = free_lock"
      "heap_rep h' s (cs @ [(hp_cur h + HDR, payload ?u b)]) F" "hp_unit h' = ?u" "hp_size h' = hp_size h"
      "keeps h h'" by auto
    from live_new [OF rep h'(3) cl [OF h'(4,5)]] h' bp show ?thesis by blast
  next
    case (Cons x xs)
    from rep r(1) Cons obtain n where xn: "(x, n) \<in> set cs" unfolding heap_rep_def
      by (metis list.set_intros(1))
    from ac(3) [OF Cons xn] al have h': "a = x" "n = payload ?u b" "hp_lock h' = free_lock"
      "heap_rep h' s cs (F(?r := xs))" "hp_unit h' = ?u" "hp_size h' = hp_size h" "keeps h h'"
      by (auto split: if_splits)
    from live_reuse [OF rep r(1) Cons xn cl [OF h'(5,6)]] h' bp show ?thesis by blast
  qed
qed

section \<open>Properties\<close>

text \<open>
  C7. Safety of allocation: a chunk that is returned holds at least the requested bytes,
  is not in use, and overlaps, headers included, no chunk in use; it is then in use, all the
  others still are, and no word of theirs has changed. The heap keeps its structure.
\<close>

theorem xheap_allocate_safe:
  assumes "heap_rep h s cs F" and "unlocked (hp_lock h)" and "in_classes h b"
    and "xheap_allocate c b h = Some (Some a, h')"
  shows "\<exists>n cs' F'. heap_rep h' s cs' F' \<and> unlocked (hp_lock h') \<and> b \<le> n \<and> (a, n) \<notin> live h cs F \<and>
    live h' cs' F' = insert (a, n) (live h cs F) \<and> (\<forall>d\<in>live h cs F. span (a, n) \<inter> span d = {}) \<and>
    (\<forall>(x, k)\<in>live h cs F. \<forall>y. x \<le> y \<longrightarrow> y < x + k \<longrightarrow> hp_mem h' y = hp_mem h y)"
proof -
  from allocate_safe [OF assms] obtain n cs' F' where n: "heap_rep h' s cs' F'" "hp_lock h' = free_lock"
    "b \<le> n" "(a, n) \<notin> live h cs F" "live h' cs' F' = insert (a, n) (live h cs F)"
    "\<forall>d\<in>live h cs F. span (a, n) \<inter> span d = {}" "keeps h h'" by blast
  have "hp_mem h' y = hp_mem h y" if "(x, k) \<in> live h cs F" "x \<le> y" "y < x + k" for x k y
    using n(7) that chunk_bounds(2,5) [OF assms(1), of x k] by (auto simp: keeps_def live_iff)
  then have "\<forall>(x, k)\<in>live h cs F. \<forall>y. x \<le> y \<longrightarrow> y < x + k \<longrightarrow> hp_mem h' y = hp_mem h y" by blast
  moreover have "unlocked (hp_lock h')" by (simp add: n(2))
  ultimately show ?thesis using n(1,3-6) by blast
qed

text \<open>A heap of 256 KiB with pages of 32 bytes.\<close>

definition demo_xheap :: xheap where
  "demo_xheap = snd (xheap_init 262144 5 4096
     \<lparr>hp_unit = 0, hp_size = 0, hp_cur = 0, hp_lock = free_lock, hp_self = 0, hp_mem = \<lambda>_. 7\<rparr>)"

lemma demo_index: "get_index 5 262144 = 1080"
  by (simp add: get_index_def get_alloc_bytes_def align64_def w64_def xheap_limits HDR_def)

lemma demo_start: "heap_start 262144 5 4096 < 8672"
proof -
  have "align64 4096 5 = 4096" by (simp add: align64_def w64_def)
  then show ?thesis using skip_index_less [of 32 8 8640]
    by (simp add: heap_start_def Let_def demo_index HDR_def w64_def)
qed

lemma demo_xheap_ok:
  "heap_rep demo_xheap (hp_cur demo_xheap) [] (\<lambda>_. [])" "unlocked (hp_lock demo_xheap)"
  "hp_size demo_xheap = 262144" "hp_unit demo_xheap = 5" "hp_cur demo_xheap < 8672"
  "classes demo_xheap = 1080"
  using heap_init_rep [of 5 262144 4096
      "\<lparr>hp_unit = 0, hp_size = 0, hp_cur = 0, hp_lock = free_lock, hp_self = 0, hp_mem = \<lambda>_. 7\<rparr>"] demo_start
  by (auto simp: demo_xheap_def classes_def demo_index)

lemma demo_class: "in_classes demo_xheap 100" "payload 5 100 = 104" "get_index 5 100 = 3"
  "get_alloc_bytes 5 100 = 128"
  by (simp_all add: in_classes_def demo_xheap_ok payload_def get_index_def get_alloc_bytes_def align64_def
      w64_def xheap_limits HDR_def)

theorem xheap_allocate_safe_witness:
  "\<exists>a h' n cs' F'. xheap_allocate (demo_caller 1) 100 demo_xheap = Some (Some a, h') \<and>
     heap_rep h' (hp_cur demo_xheap) cs' F' \<and> 100 \<le> n \<and> live h' cs' F' = {(a, n)}"
proof -
  note ok = demo_xheap_ok
  have "get_index (hp_unit demo_xheap) 100 = 3" "3 < classes demo_xheap"
    "get_index (hp_unit demo_xheap) (payload (hp_unit demo_xheap) 100) < classes demo_xheap"
    using demo_class by (simp_all add: ok in_classes_def)
  with allocate_cases(1) [OF ok(1,2), of 100 3 "demo_caller 1"] ok obtain h' where
    a: "xheap_allocate (demo_caller 1) 100 demo_xheap = Some (Some (hp_cur demo_xheap + HDR), h')"
    by (auto simp: demo_class)
  have "live demo_xheap [] (\<lambda>_. []) = {}" by (simp add: live_def)
  with xheap_allocate_safe [OF ok(1,2) demo_class(1) a] a show ?thesis by auto
qed

text \<open>
  Freeing a chunk and asking again for the same number of bytes returns the same
  chunk, for every size whose chunk stays in the class it was made for.
\<close>

theorem xheap_free_reuse:
  assumes "heap_rep h s cs F" and "unlocked (hp_lock h)" and "in_classes h b"
    and "(a, payload (hp_unit h) b) \<in> live h cs F"
    and "get_index (hp_unit h) (payload (hp_unit h) b) = get_index (hp_unit h) b"
  shows "\<exists>h1 h2. xheap_free c a h = Some h1 \<and> xheap_allocate c b h1 = Some (Some a, h2) \<and>
    heap_rep h2 s cs F"
proof -
  let ?r = "get_index (hp_unit h) b" and ?n = "payload (hp_unit h) b"
  from assms(4) have an: "(a, ?n) \<in> set cs" by (simp add: live_def)
  from add_in_free_list_rep [OF assms(1,4,2) assms(5) [symmetric], of c] obtain h1 where
    h1: "xheap_free c a h = Some h1" "heap_rep h1 s cs (F(?r := a # F ?r))" "hp_lock h1 = free_lock"
    "hp_unit h1 = hp_unit h" "hp_size h1 = hp_size h" by blast
  have b: "b < 2 ^ 62" and r: "?r < classes h1" "get_index (hp_unit h1) (payload (hp_unit h1) b) < classes h1"
    using assms(3) by (simp_all add: in_classes_def classes_def h1(4,5))
  have "unlocked (hp_lock h1)" "get_index (hp_unit h) b = get_index (hp_unit h1) b" by (simp_all add: h1(3,4))
  from allocate_cases(3) [OF h1(2) this(1) b this(2) r, of a "F ?r" ?n c] an
  obtain h2 where "xheap_allocate c b h1 = Some (Some a, h2)" "heap_rep h2 s cs (F(?r := a # F ?r, ?r := F ?r))"
    by (auto simp: h1(4))
  then show ?thesis using h1(1) by auto
qed

theorem xheap_free_reuse_witness:
  "\<exists>a h0 h1 h2. xheap_allocate (demo_caller 1) 100 demo_xheap = Some (Some a, h0) \<and>
     xheap_free (demo_caller 1) a h0 = Some h1 \<and> xheap_allocate (demo_caller 1) 100 h1 = Some (Some a, h2)"
proof -
  note ok = demo_xheap_ok
  have "get_index (hp_unit demo_xheap) 100 = 3" "3 < classes demo_xheap"
    "get_index (hp_unit demo_xheap) (payload (hp_unit demo_xheap) 100) < classes demo_xheap"
    using demo_class by (simp_all add: ok in_classes_def)
  with allocate_cases(1) [OF ok(1,2), of 100 3 "demo_caller 1"] ok obtain h' where
    h': "xheap_allocate (demo_caller 1) 100 demo_xheap = Some (Some (hp_cur demo_xheap + HDR), h')"
    "hp_lock h' = free_lock" "heap_rep h' (hp_cur demo_xheap) [(hp_cur demo_xheap + HDR, 104)] (\<lambda>_. [])"
    "hp_unit h' = 5" "hp_size h' = 262144"
    by (auto simp: demo_class)
  have "get_index 5 104 = 3"
    by (simp add: get_index_def get_alloc_bytes_def align64_def w64_def xheap_limits HDR_def)
  moreover have "in_classes h' 100" using demo_class(1) by (simp add: in_classes_def classes_def h'(4,5) ok)
  ultimately show ?thesis
    using xheap_free_reuse [OF h'(3) _ _, of 100 "hp_cur demo_xheap + HDR" "demo_caller 1"] h'
    by (auto simp: live_def demo_class)
qed



end
