(* ===== verification/Xobj.thy ===== *)
theory Xobj
  imports Xheap Xhash "HOL-Library.Monad_Syntax"
begin

text \<open>
  The object handler of \<^verbatim>\<open>xtypes/xobj.c\<close>: objects of one size, cut from chunks of a heap,
  with a list of the free ones linked through the objects themselves and a hash table of the
  chunks. Pointers are offsets from the container; the memory of the heap begins at offset
  \<open>oh_base\<close>, so the word of an object at pointer \<open>p\<close> is the heap word \<open>p - oh_base\<close>. The
  hash table is kept as a value beside the heap chunk that holds it. A call that blocks on
  a lock or does not return is \<open>None\<close>.
\<close>

section \<open>Data and operations\<close>

definition X_ALLOC :: u32 where "X_ALLOC = 1"

text \<open>The size of \<^verbatim>\<open>struct xobject\<close>: magic at 0, size at 8, next at 16.\<close>

definition XOBJ_SIZE :: nat where "XOBJ_SIZE = 24"

record xobject_h =
  oh_lock :: xlock
  oh_magic :: nat
  oh_obj_size :: nat
  oh_flags :: u32
  oh_base :: nat
  oh_allocated :: nat
  oh_nr_allocated :: nat
  oh_allocated_space :: nat
  oh_list :: nat
  oh_nr_free :: nat
  oh_heap :: xheap
  oh_hash :: xhash

definition put_field :: "nat \<Rightarrow> nat \<Rightarrow> nat \<Rightarrow> xobject_h \<Rightarrow> xobject_h" where
  "put_field p off v h = h\<lparr>oh_heap := put_word (p - oh_base h + off) v (oh_heap h)\<rparr>"

definition get_next :: "xobject_h \<Rightarrow> nat \<Rightarrow> nat" where
  "get_next h p = hp_mem (oh_heap h) (p - oh_base h + 16)"

text \<open>\<open>junk\<close> is the contents of the memory an allocation returns.\<close>

definition xobj_handler_init ::
  "(nat \<Rightarrow> u64 list) \<Rightarrow> caller \<Rightarrow> nat \<Rightarrow> nat \<Rightarrow> nat \<Rightarrow> xheap \<Rightarrow> xobject_h \<Rightarrow> (int \<times> xobject_h) option" where
  "xobj_handler_init junk c base magic sz heap h =
     (let h = h\<lparr>oh_magic := magic\<rparr>;
          h = h\<lparr>oh_obj_size := (if sz < XOBJ_SIZE then XOBJ_SIZE else sz)\<rparr> in
      do {
        (a, heap) \<leftarrow> xheap_allocate c (xhash_get_alloc_size 3) heap;
        case a of None \<Rightarrow> Some (-1, h\<lparr>oh_heap := heap\<rparr>)
        | Some a \<Rightarrow>
            let h = h\<lparr>oh_hash := xhash_init (junk (2 * 2 ^ 3)) 3 0 XHASH_INTEGER,
                      oh_allocated := a + base, oh_list := 0, oh_flags := 0, oh_nr_free := 0,
                      oh_nr_allocated := 0, oh_allocated_space := 0, oh_heap := heap, oh_base := base\<rparr>
            in Some (0, h\<lparr>oh_lock := xlock_release (oh_lock h)\<rparr>)
      })"

text \<open>
  The loop that cuts a chunk into objects; the first result is the last object made, if
  any. An object has at least one byte.
\<close>

function carve :: "nat \<Rightarrow> nat \<Rightarrow> nat \<Rightarrow> nat option \<Rightarrow> xobject_h \<Rightarrow> nat option \<times> xobject_h" where
  "carve mem bytes used prev h =
     (if used + oh_obj_size h < bytes \<and> 0 < oh_obj_size h then
        let obj = mem + used; used = used + oh_obj_size h;
            h = put_field obj 0 (oh_magic h) h;
            h = put_field obj 8 (oh_obj_size h) h;
            h = put_field obj 16 (mem + used) h
        in carve mem bytes used (Some obj) h
      else (prev, h))"
  by pat_completeness auto
termination
  by (relation "measure (\<lambda>(mem, bytes, used, prev, h). bytes - used)") (auto simp: put_field_def)

declare carve.simps [simp del]

text \<open>The error exit: the chunk goes back to the heap.\<close>

definition alloc_err :: "caller \<Rightarrow> nat \<Rightarrow> xobject_h \<Rightarrow> (int \<times> xobject_h) option" where
  "alloc_err c a h = do { heap \<leftarrow> xheap_free c a (oh_heap h); Some (-1, h\<lparr>oh_heap := heap\<rparr>) }"

text \<open>Entering the chunk into the table, which may have to grow.\<close>

definition track_chunk ::
  "(nat \<Rightarrow> u64 list) \<Rightarrow> caller \<Rightarrow> nat \<Rightarrow> xobject_h \<Rightarrow> (int option \<times> xobject_h) option" where
  "track_chunk junk c ptr h =
     (let str = (\<lambda>_. []); key = of_nat ptr :: u64 in
      do {
        (r, t) \<leftarrow> xhash_insert str (oh_hash h) key key;
        let h = h\<lparr>oh_hash := t\<rparr>;
        if r = - XHASH_ERESIZE then do {
          let sizeshift = xhash_grow_size_shift (oh_hash h);
          (new, heap) \<leftarrow> xheap_allocate c (xhash_get_alloc_size sizeshift) (oh_heap h);
          let h = h\<lparr>oh_heap := heap\<rparr>;
          case new of None \<Rightarrow> Some (None, h)
          | Some new \<Rightarrow> do {
              t \<leftarrow> xhash_resize str (oh_hash h) sizeshift 0 (Some (junk (2 * 2 ^ sizeshift)));
              heap \<leftarrow> xheap_free c (oh_allocated h - oh_base h) (oh_heap h);
              let h = h\<lparr>oh_heap := heap, oh_hash := the t, oh_allocated := new + oh_base h\<rparr>;
              (r, t) \<leftarrow> xhash_insert str (oh_hash h) key key;
              Some (Some r, h\<lparr>oh_hash := t\<rparr>) }
        } else Some (Some r, h)
      })"

definition xobj_alloc_obj ::
  "(nat \<Rightarrow> u64 list) \<Rightarrow> caller \<Rightarrow> nat \<Rightarrow> xobject_h \<Rightarrow> (int \<times> xobject_h) option" where
  "xobj_alloc_obj junk c nr h =
     (let bytes = w64 (nr * oh_obj_size h) in
      do {
        (a, heap) \<leftarrow> xheap_allocate c bytes (oh_heap h);
        let h = h\<lparr>oh_heap := heap\<rparr>;
        case a of None \<Rightarrow> Some (-1, h)
        | Some a \<Rightarrow>
            let bytes = xheap_get_chunk_size (oh_heap h) a;
                (obj, h) = carve (a + oh_base h) bytes 0 None h in
            case obj of None \<Rightarrow> alloc_err c a h
            | Some obj \<Rightarrow> do {
                let ptr = a + oh_base h;
                (r, h) \<leftarrow> track_chunk junk c ptr h;
                case r of None \<Rightarrow> alloc_err c a h
                | Some r \<Rightarrow>
                    if r < 0 then alloc_err c a h
                    else
                      let h = h\<lparr>oh_allocated_space := w64 (oh_allocated_space h + bytes),
                                oh_nr_free := w64 (oh_nr_free h + bytes div oh_obj_size h),
                                oh_nr_allocated := w64 (oh_nr_allocated h + bytes div oh_obj_size h)\<rparr>;
                          h = put_field obj 16 (oh_list h) h
                      in Some (0, h\<lparr>oh_list := ptr\<rparr>)
              }
      })"

definition xobj_put_obj :: "caller \<Rightarrow> nat \<Rightarrow> xobject_h \<Rightarrow> xobject_h option" where
  "xobj_put_obj c p h =
     do {
       l \<leftarrow> xlock_acquire c (oh_lock h);
       let h = h\<lparr>oh_lock := l\<rparr>;
       let list = oh_list h;
       let h = put_field p 0 (oh_magic h) h;
       let h = put_field p 8 (oh_obj_size h) h;
       let h = put_field p 16 list h;
       let h = h\<lparr>oh_list := p, oh_nr_free := w64 (oh_nr_free h + 1)\<rparr>;
       Some (h\<lparr>oh_lock := xlock_release (oh_lock h)\<rparr>)
     }"

partial_function (option) get_retry ::
  "(nat \<Rightarrow> u64 list) \<Rightarrow> caller \<Rightarrow> u32 \<Rightarrow> xobject_h \<Rightarrow> (nat option \<times> xobject_h) option" where
  "get_retry junk c flags h =
     (let list = oh_list h in
      if list \<noteq> 0 then
        let objptr = get_next h list
        in Some (Some list, h\<lparr>oh_list := objptr, oh_nr_free := w64 (oh_nr_free h + 2 ^ 64 - 1)\<rparr>)
      else if flags AND X_ALLOC = 0 then Some (None, h)
      else Option.bind (xobj_alloc_obj junk c 64 h) (\<lambda>(r, h).
             if r < 0 then Some (None, h) else get_retry junk c flags h))"

declare get_retry.simps [code]

definition xobj_get_obj ::
  "(nat \<Rightarrow> u64 list) \<Rightarrow> caller \<Rightarrow> u32 \<Rightarrow> xobject_h \<Rightarrow> (nat option \<times> xobject_h) option" where
  "xobj_get_obj junk c flags h =
     do {
       l \<leftarrow> xlock_acquire c (oh_lock h);
       (obj, h) \<leftarrow> get_retry junk c flags (h\<lparr>oh_lock := l\<rparr>);
       Some (obj, h\<lparr>oh_lock := xlock_release (oh_lock h)\<rparr>)
     }"

section \<open>Iteration and membership\<close>

record xobject_iter =
  oi_xhash_it :: xhash_iter
  oi_chunk :: nat
  oi_cnt :: nat

definition xobj_iter_init :: xobject_iter where
  "xobj_iter_init = \<lparr>oi_xhash_it = xhash_iter_init, oi_chunk = 0, oi_cnt = 0\<rparr>"

definition chunk_objs :: "xobject_h \<Rightarrow> nat \<Rightarrow> nat" where
  "chunk_objs h chunk = xheap_get_chunk_size (oh_heap h) (chunk - oh_base h) div oh_obj_size h"

definition xobj_iterate :: "xobject_h \<Rightarrow> xobject_iter \<Rightarrow> nat option \<times> xobject_iter" where
  "xobj_iterate h it =
     (if oi_chunk it = 0 \<or> oi_cnt it \<ge> chunk_objs h (oi_chunk it) then
        (case xhash_iterate (oh_hash h) (oi_xhash_it it) of
           (None, xit) \<Rightarrow> (None, it\<lparr>oi_xhash_it := xit\<rparr>)
         | (Some (key, val), xit) \<Rightarrow>
             let it = it\<lparr>oi_xhash_it := xit, oi_chunk := unat key, oi_cnt := 0\<rparr>
             in (Some (oi_chunk it + oi_cnt it * oh_obj_size h), it\<lparr>oi_cnt := oi_cnt it + 1\<rparr>))
      else (Some (oi_chunk it + oi_cnt it * oh_obj_size h), it\<lparr>oi_cnt := oi_cnt it + 1\<rparr>))"

definition raw_xobj_check :: "xobject_h \<Rightarrow> nat \<Rightarrow> bool" where
  "raw_xobj_check h p =
     list_ex (\<lambda>(key, val). let mem = unat key in
         list_ex (\<lambda>i. mem + i * oh_obj_size h = p) [0..<chunk_objs h mem])
       (xhash_print (oh_hash h) xhash_iter_init)"

definition xobj_check :: "caller \<Rightarrow> nat \<Rightarrow> xobject_h \<Rightarrow> (bool \<times> xobject_h) option" where
  "xobj_check c p h =
     do {
       l \<leftarrow> xlock_acquire c (oh_lock h);
       let h = h\<lparr>oh_lock := l\<rparr>;
       let r = raw_xobj_check h p;
       Some (r, h\<lparr>oh_lock := xlock_release (oh_lock h)\<rparr>)
     }"

partial_function (option) is_free_from :: "xobject_h \<Rightarrow> nat \<Rightarrow> nat \<Rightarrow> bool option" where
  "is_free_from h p node =
     (if node = 0 then Some False
      else if node = p then Some True
      else is_free_from h p (get_next h node))"

declare is_free_from.simps [code]

definition raw_xobj_isFree :: "xobject_h \<Rightarrow> nat \<Rightarrow> bool option" where
  "raw_xobj_isFree h p = is_free_from h p (oh_list h)"

definition xobj_isFree :: "caller \<Rightarrow> nat \<Rightarrow> xobject_h \<Rightarrow> (bool \<times> xobject_h) option" where
  "xobj_isFree c p h =
     do {
       l \<leftarrow> xlock_acquire c (oh_lock h);
       let h = h\<lparr>oh_lock := l\<rparr>;
       r \<leftarrow> raw_xobj_isFree h p;
       Some (r, h\<lparr>oh_lock := xlock_release (oh_lock h)\<rparr>)
     }"

section \<open>Objects in chunks\<close>

text \<open>
  \<open>slot h cs F p\<close>: pointer \<open>p\<close> is the place of an object inside a chunk in use.
  \<open>ochain h p fl\<close>: the list that begins at \<open>p\<close> holds the objects \<open>fl\<close>.
\<close>

definition slot :: "xobject_h \<Rightarrow> (nat \<times> nat) list \<Rightarrow> (nat \<Rightarrow> nat list) \<Rightarrow> nat \<Rightarrow> bool" where
  "slot h cs F p \<longleftrightarrow> (\<exists>a n i. (a, n) \<in> live (oh_heap h) cs F \<and> p = a + oh_base h + i * oh_obj_size h \<and>
     (i + 1) * oh_obj_size h \<le> n)"

fun ochain :: "xobject_h \<Rightarrow> nat \<Rightarrow> nat list \<Rightarrow> bool" where
  "ochain h p [] \<longleftrightarrow> p = 0"
| "ochain h p (q # qs) \<longleftrightarrow> p = q \<and> q \<noteq> 0 \<and> ochain h (get_next h q) qs"

definition obj_rep ::
  "xobject_h \<Rightarrow> nat \<Rightarrow> (nat \<times> nat) list \<Rightarrow> (nat \<Rightarrow> nat list) \<Rightarrow> nat list \<Rightarrow> bool" where
  "obj_rep h s cs F fl \<longleftrightarrow> heap_rep (oh_heap h) s cs F \<and> XOBJ_SIZE \<le> oh_obj_size h \<and>
     ochain h (oh_list h) fl \<and> distinct fl \<and> (\<forall>p\<in>set fl. slot h cs F p)"

lemma ochain_cong: "ochain h p fl \<Longrightarrow> (\<And>q. q \<in> set fl \<Longrightarrow> get_next h' q = get_next h q) \<Longrightarrow> ochain h' p fl"
  by (induction fl arbitrary: p) auto

lemma live_in: "(a, n) \<in> live h cs F \<Longrightarrow> (a, n) \<in> set cs"
  by (simp add: live_iff)

lemma mult_apart: "i \<noteq> j \<Longrightarrow> i * w + w \<le> j * w \<or> j * w + w \<le> i * (w :: nat)"
  by (cases "i < j") (metis Suc_leI add.commute mult_Suc mult_le_mono1,
      metis Suc_leI add.commute linorder_neqE_nat mult_Suc mult_le_mono1)

lemma slots_apart:
  assumes "heap_rep (oh_heap h) s cs F" and "slot h cs F p" and "slot h cs F q" and "p \<noteq> q"
  shows "p + oh_obj_size h \<le> q \<or> q + oh_obj_size h \<le> p"
proof -
  let ?w = "oh_obj_size h"
  from assms(2) obtain a n i where a: "(a, n) \<in> live (oh_heap h) cs F" "p = a + oh_base h + i * ?w"
    "(i + 1) * ?w \<le> n" by (auto simp: slot_def)
  from assms(3) obtain b k j where b: "(b, k) \<in> live (oh_heap h) cs F" "q = b + oh_base h + j * ?w"
    "(j + 1) * ?w \<le> k" by (auto simp: slot_def)
  have t: "tiled s cs (hp_cur (oh_heap h))" using assms(1) by (simp add: heap_rep_def)
  show ?thesis
  proof (cases "(a, n) = (b, k)")
    case True
    then have "i \<noteq> j" using assms(4) a(2) b(2) by auto
    then show ?thesis using mult_apart [of i j ?w] a(2) b(2) True by auto
  next
    case False
    with tiled_disjoint [OF t live_in [OF a(1)] live_in [OF b(1)]]
    have "a + n + HDR \<le> b \<or> b + k + HDR \<le> a" by auto
    then show ?thesis using a(2,3) b(2,3) by auto
  qed
qed

lemma put_field_simps [simp]:
  "oh_lock (put_field p off v h) = oh_lock h" "oh_magic (put_field p off v h) = oh_magic h"
  "oh_obj_size (put_field p off v h) = oh_obj_size h" "oh_base (put_field p off v h) = oh_base h"
  "oh_list (put_field p off v h) = oh_list h" "oh_nr_free (put_field p off v h) = oh_nr_free h"
  "oh_hash (put_field p off v h) = oh_hash h"
  "oh_nr_allocated (put_field p off v h) = oh_nr_allocated h"
  "oh_allocated_space (put_field p off v h) = oh_allocated_space h"
  "hp_lock (oh_heap (put_field p off v h)) = hp_lock (oh_heap h)"
  "hp_unit (oh_heap (put_field p off v h)) = hp_unit (oh_heap h)"
  "hp_size (oh_heap (put_field p off v h)) = hp_size (oh_heap h)"
  "classes (oh_heap (put_field p off v h)) = classes (oh_heap h)"
  "live (oh_heap (put_field p off v h)) cs F = live (oh_heap h) cs F"
  "slot (put_field p off v h) cs F q = slot h cs F q"
  by (simp_all add: put_field_def put_word_def classes_def live_def slot_def)

lemma put_field_mem:
  "hp_mem (oh_heap (put_field p off v h)) x = (if x = p - oh_base h + off then v else hp_mem (oh_heap h) x)"
  by (simp add: put_field_def put_word_def)

lemma slot_bounds:
  assumes "slot h cs F p"
  obtains a n where "(a, n) \<in> live (oh_heap h) cs F" "a \<le> p - oh_base h" "p - oh_base h + oh_obj_size h \<le> a + n"
    "oh_base h \<le> p"
proof -
  from assms obtain a n i where a: "(a, n) \<in> live (oh_heap h) cs F" "p = a + oh_base h + i * oh_obj_size h"
    "(i + 1) * oh_obj_size h \<le> n" by (auto simp: slot_def)
  then show ?thesis using that [of a n] by simp
qed

lemma put_field_heap:
  assumes "heap_rep (oh_heap h) s cs F" and "slot h cs F p" and "off + 8 \<le> oh_obj_size h"
  shows "heap_rep (oh_heap (put_field p off v h)) s cs F"
proof -
  obtain a n where a: "(a, n) \<in> live (oh_heap h) cs F" "a \<le> p - oh_base h"
    "p - oh_base h + oh_obj_size h \<le> a + n" "oh_base h \<le> p" by (rule slot_bounds [OF assms(2)])
  have "heap_rep (put_word (p - oh_base h + off) v (oh_heap h)) s cs F"
    by (rule user_write [OF assms(1) a(1)]) (use a assms(3) in auto)
  then show ?thesis by (simp add: put_field_def)
qed

lemma put_field_next:
  assumes "heap_rep (oh_heap h) s cs F" and "slot h cs F p" and "slot h cs F q" and "p \<noteq> q"
    and "off + 8 \<le> oh_obj_size h" and "XOBJ_SIZE \<le> oh_obj_size h"
  shows "get_next (put_field p off v h) q = get_next h q"
proof -
  obtain a n where a: "a \<le> p - oh_base h" "oh_base h \<le> p" by (rule slot_bounds [OF assms(2)])
  obtain b k where b: "b \<le> q - oh_base h" "oh_base h \<le> q" by (rule slot_bounds [OF assms(3)])
  have "q - oh_base h + 16 \<noteq> p - oh_base h + off"
    using slots_apart [OF assms(1-4)] a b assms(5,6) by (auto simp: XOBJ_SIZE_def)
  then show ?thesis by (simp add: get_next_def put_field_mem)
qed

text \<open>Writing the three words of an object that is not in the list, then linking it in.\<close>

lemma write_object:
  assumes rep: "obj_rep h s cs F fl" and p: "slot h cs F p" "p \<notin> set fl"
    and g: "g = put_field p 16 v (put_field p 8 w (put_field p 0 x h))"
  shows "heap_rep (oh_heap g) s cs F" and "ochain g (oh_list h) fl" and "get_next g p = v"
    and "slot g cs F q = slot h cs F q"
proof -
  let ?h1 = "put_field p 0 x h" and ?h2 = "put_field p 8 w (put_field p 0 x h)"
  from rep have r: "heap_rep (oh_heap h) s cs F" and w: "XOBJ_SIZE \<le> oh_obj_size h"
    and ch: "ochain h (oh_list h) fl" and sl: "\<And>q. q \<in> set fl \<Longrightarrow> slot h cs F q" by (simp_all add: obj_rep_def)
  have r1: "heap_rep (oh_heap ?h1) s cs F" 
    by (rule put_field_heap) (use r p(1) w in \<open>simp_all add: XOBJ_SIZE_def\<close>)
  have r2: "heap_rep (oh_heap ?h2) s cs F" 
    by (rule put_field_heap) (use r1 p(1) w in \<open>simp_all add: XOBJ_SIZE_def\<close>)
  show "heap_rep (oh_heap g) s cs F" unfolding g
    by (rule put_field_heap) (use r2 p(1) w in \<open>simp_all add: XOBJ_SIZE_def\<close>)
  have "get_next g q = get_next h q" if "q \<in> set fl" for q
  proof -
    have ne: "p \<noteq> q" and sq: "slot h cs F q" using that p(2) sl by auto
    have "get_next g q = get_next ?h2 q" unfolding g
      by (rule put_field_next [OF r2]) (use p(1) sq ne w in \<open>simp_all add: XOBJ_SIZE_def\<close>)
    also have "\<dots> = get_next ?h1 q"
      by (rule put_field_next [OF r1]) (use p(1) sq ne w in \<open>simp_all add: XOBJ_SIZE_def\<close>)
    also have "\<dots> = get_next h q"
      by (rule put_field_next [OF r]) (use p(1) sq ne w in \<open>simp_all add: XOBJ_SIZE_def\<close>)
    finally show ?thesis .
  qed
  with ch show "ochain g (oh_list h) fl" by (rule ochain_cong)
  show "get_next g p = v" by (simp add: g get_next_def put_field_mem)
  show "slot g cs F q = slot h cs F q" by (simp add: g)
qed

lemma obj_rep_fields:
  "obj_rep h s cs F fl \<Longrightarrow> obj_rep (h\<lparr>oh_lock := l, oh_nr_free := k\<rparr>) s cs F fl"
proof -
  have "ochain (h\<lparr>oh_lock := l, oh_nr_free := k\<rparr>) p fl = ochain h p fl" for p fl
    by (induction fl arbitrary: p) (simp_all add: get_next_def)
  then show "obj_rep h s cs F fl \<Longrightarrow> obj_rep (h\<lparr>oh_lock := l, oh_nr_free := k\<rparr>) s cs F fl"
    by (simp add: obj_rep_def slot_def)
qed

lemma ochain_same_heap:
  "oh_heap h' = oh_heap h \<Longrightarrow> oh_base h' = oh_base h \<Longrightarrow> ochain h' p fl = ochain h p fl"
  by (induction fl arbitrary: p) (simp_all add: get_next_def)

lemma slot_same_heap:
  "oh_heap h' = oh_heap h \<Longrightarrow> oh_base h' = oh_base h \<Longrightarrow> oh_obj_size h' = oh_obj_size h \<Longrightarrow>
   slot h' cs F p = slot h cs F p"
  by (simp add: slot_def)

lemma put_obj_rep:
  assumes rep: "obj_rep h s cs F fl" and lk: "unlocked (oh_lock h)" and p: "slot h cs F p" "p \<notin> set fl" "p \<noteq> 0"
  shows "\<exists>h'. xobj_put_obj c p h = Some h' \<and> obj_rep h' s cs F (p # fl) \<and> oh_lock h' = free_lock \<and>
    oh_nr_free h' = w64 (oh_nr_free h + 1)"
proof -
  define y where "y = h\<lparr>oh_lock := \<lparr>lk_owner = caller_word c, lk_pc = c_pc c\<rparr>\<rparr>"
  define g where "g = put_field p 16 (oh_list h) (put_field p 8 (oh_obj_size h) (put_field p 0 (oh_magic h) y))"
  define h' where "h' = g\<lparr>oh_list := p, oh_nr_free := w64 (oh_nr_free h + 1), oh_lock := free_lock\<rparr>"
  have yf: "oh_heap y = oh_heap h" "oh_base y = oh_base h" "oh_obj_size y = oh_obj_size h"
    "oh_list y = oh_list h" "oh_magic y = oh_magic h" "oh_nr_free y = oh_nr_free h" by (simp_all add: y_def)
  have ry: "obj_rep y s cs F fl"
    using rep by (simp add: obj_rep_def yf ochain_same_heap [OF yf(1,2)] slot_same_heap [OF yf(1-3)])
  have py: "slot y cs F p" using p(1) by (simp add: slot_same_heap [OF yf(1-3)])
  note w = write_object [OF ry py p(2) g_def]
  have res: "xobj_put_obj c p h = Some h'"
    using lk by (simp add: xobj_put_obj_def Let_def y_def [symmetric] h'_def g_def yf)
  have hf: "oh_heap h' = oh_heap g" "oh_base h' = oh_base g" "oh_obj_size h' = oh_obj_size g"
    by (simp_all add: h'_def)
  have "get_next h' p = oh_list h" using w(3) by (simp add: get_next_def hf)
  then have "ochain h' (oh_list h') (p # fl)"
    using w(2) p(3) by (simp add: ochain_same_heap [OF hf(1,2)] yf) (simp add: h'_def)
  moreover have "slot h' cs F q \<longleftrightarrow> slot h cs F q" for q
    by (simp add: slot_same_heap [OF hf] w(4) slot_same_heap [OF yf(1-3)])
  moreover have "XOBJ_SIZE \<le> oh_obj_size h'" using ry by (simp add: obj_rep_def h'_def g_def)
  ultimately have "obj_rep h' s cs F (p # fl)"
    using rep p w(1) unfolding obj_rep_def hf(1) by auto
  with res show ?thesis by (simp add: h'_def)
qed

lemma get_obj_rep:
  assumes rep: "obj_rep h s cs F (p # fl)" and lk: "unlocked (oh_lock h)"
  shows "\<exists>h'. xobj_get_obj junk c flags h = Some (Some p, h') \<and> obj_rep h' s cs F fl \<and> slot h' cs F p \<and>
    p \<notin> set fl \<and> oh_lock h' = free_lock \<and> oh_nr_free h' = w64 (oh_nr_free h + 2 ^ 64 - 1) \<and> oh_heap h' = oh_heap h"
proof -
  from rep have l: "oh_list h = p" "p \<noteq> 0" "ochain h (get_next h p) fl" by (simp_all add: obj_rep_def)
  define h' where "h' = h\<lparr>oh_list := get_next h p, oh_nr_free := w64 (oh_nr_free h + 2 ^ 64 - 1), oh_lock := free_lock\<rparr>"
  have hf: "oh_heap h' = oh_heap h" "oh_base h' = oh_base h" "oh_obj_size h' = oh_obj_size h"
    by (simp_all add: h'_def)
  have "xobj_get_obj junk c flags h = Some (Some p, h')"
    using lk l(1,2) by (simp add: xobj_get_obj_def get_retry.simps [of junk c flags "h\<lparr>oh_lock := _\<rparr>"] Let_def
        h'_def get_next_def)
  moreover have "obj_rep h' s cs F fl"
    using rep l(3) unfolding obj_rep_def
    by (simp add: hf ochain_same_heap [OF hf(1,2)] slot_same_heap [OF hf]) (simp add: h'_def)
  moreover have "slot h' cs F p" "p \<notin> set fl" using rep by (simp_all add: obj_rep_def slot_same_heap [OF hf])
  ultimately show ?thesis by (simp add: h'_def)
qed

lemma isFree_rep: "ochain h q fl \<Longrightarrow> is_free_from h p q = Some (p \<in> set fl)"
proof (induction fl arbitrary: q)
  case Nil
  then show ?case by (subst is_free_from.simps) simp
next
  case (Cons x fl)
  then show ?case by (subst is_free_from.simps) auto
qed

section \<open>Cutting a chunk into objects\<close>

text \<open>
  From the \<open>i\<close>-th object on, the loop makes the objects up to number \<open>(bytes - 1) div size\<close>,
  each linked to the next place, and writes nothing else.
\<close>

lemma carve_spec:
  assumes "heap_rep (oh_heap h) s cs F" and "(a, n) \<in> live (oh_heap h) cs F" and "XOBJ_SIZE \<le> oh_obj_size h"
    and "i \<le> (n - 1) div oh_obj_size h"
  shows "\<exists>g. carve (a + oh_base h) n (i * oh_obj_size h) prev h =
      (if i < (n - 1) div oh_obj_size h
       then Some (a + oh_base h + ((n - 1) div oh_obj_size h - 1) * oh_obj_size h) else prev, g) \<and>
    heap_rep (oh_heap g) s cs F \<and> live (oh_heap g) cs F = live (oh_heap h) cs F \<and>
    (\<forall>j. i \<le> j \<longrightarrow> j < (n - 1) div oh_obj_size h \<longrightarrow>
       get_next g (a + oh_base h + j * oh_obj_size h) = a + oh_base h + (j + 1) * oh_obj_size h) \<and>
    (\<forall>x. x < a + i * oh_obj_size h \<or> a + n \<le> x \<longrightarrow> hp_mem (oh_heap g) x = hp_mem (oh_heap h) x) \<and>
    (\<exists>m. g = h\<lparr>oh_heap := (oh_heap h)\<lparr>hp_mem := m\<rparr>\<rparr>)"
  using assms
proof (induction "(n - 1) div oh_obj_size h - i" arbitrary: i h prev)
  case 0
  let ?w = "oh_obj_size h"
  have w0: "0 < ?w" using "0.prems"(3) by (simp add: XOBJ_SIZE_def)
  have i: "i = (n - 1) div ?w" using "0.hyps" "0.prems"(4) by simp
  have "n - 1 < ((n - 1) div ?w + 1) * ?w"
    using dividend_less_times_div [OF w0, of "n - 1"] by (simp add: mult.commute)
  then have "n - 1 < (i + 1) * ?w" using i by simp
  then have "\<not> i * ?w + ?w < n" by simp
  then have c: "carve (a + oh_base h) n (i * ?w) prev h = (prev, h)" by (subst carve.simps) simp
  show ?case
  proof (intro exI [of _ h] conjI)
    show "carve (a + oh_base h) n (i * ?w) prev h = (if i < (n - 1) div ?w
       then Some (a + oh_base h + ((n - 1) div ?w - 1) * ?w) else prev, h)" using c i by simp
    show "\<exists>m. h = h\<lparr>oh_heap := (oh_heap h)\<lparr>hp_mem := m\<rparr>\<rparr>"
      by (rule exI [of _ "hp_mem (oh_heap h)"]) simp
  qed (use "0.prems"(1) i in simp_all)
next
  case (Suc d)
  let ?w = "oh_obj_size h" and ?K = "(n - 1) div oh_obj_size h" and ?b = "oh_base h"
  have w: "24 \<le> ?w" using Suc.prems(3) by (simp add: XOBJ_SIZE_def)
  have iK: "i < ?K" using Suc.hyps(2) by simp
  have "(i + 1) * ?w \<le> ?K * ?w" using iK by (intro mult_le_mono1) simp
  also have "\<dots> \<le> n - 1" by simp
  finally have bound: "i * ?w + ?w \<le> n - 1" by simp
  then have lt: "i * ?w + ?w < n" using w by linarith
  define p where "p = a + ?b + i * ?w"
  define g1 where "g1 = put_field p 16 (a + ?b + (i * ?w + ?w)) (put_field p 8 ?w (put_field p 0 (oh_magic h) h))"
  have sp: "slot h cs F p" unfolding slot_def p_def using Suc.prems(2) lt
    by (intro exI [of _ a] exI [of _ n] exI [of _ i]) simp
  have f1: "oh_obj_size g1 = ?w" "oh_base g1 = ?b" "live (oh_heap g1) cs F = live (oh_heap h) cs F"
    by (simp_all add: g1_def)
  have m1: "hp_mem (oh_heap g1) x = hp_mem (oh_heap h) x" if "x < a + i * ?w \<or> a + i * ?w + ?w \<le> x" for x
    using that w by (auto simp: g1_def put_field_mem p_def)
  have nx: "get_next g1 p = a + ?b + (i * ?w + ?w)" by (simp add: g1_def get_next_def put_field_mem)
  have r1: "heap_rep (oh_heap g1) s cs F"
  proof -
    have "obj_rep (h\<lparr>oh_list := 0\<rparr>) s cs F []" using Suc.prems(1,3) by (simp add: obj_rep_def)
    moreover have "slot (h\<lparr>oh_list := 0\<rparr>) cs F p" using sp by (simp add: slot_def)
    ultimately have "heap_rep (oh_heap (put_field p 16 (a + ?b + (i * ?w + ?w)) (put_field p 8 ?w
        (put_field p 0 (oh_magic h) (h\<lparr>oh_list := 0\<rparr>))))) s cs F"
      by (rule write_object(1)) simp_all
    moreover have "oh_heap (put_field p 16 (a + ?b + (i * ?w + ?w)) (put_field p 8 ?w
        (put_field p 0 (oh_magic h) (h\<lparr>oh_list := 0\<rparr>)))) = oh_heap g1" by (simp add: g1_def put_field_def)
    ultimately show ?thesis by simp
  qed
  have step: "carve (a + ?b) n (i * ?w) prev h = carve (a + ?b) n ((i + 1) * ?w) (Some p) g1"
    using lt w by (subst carve.simps) (simp add: Let_def p_def g1_def add.assoc add.commute)
  have "d = (n - 1) div oh_obj_size g1 - (i + 1)" using Suc.hyps(2) by (simp add: f1)
  note IH = Suc.hyps(1) [OF this r1, of "Some p", unfolded f1]
  have "i + 1 \<le> ?K" using iK by simp
  from IH [OF Suc.prems(2,3) this] obtain g where
    g: "carve (a + ?b) n ((i + 1) * ?w) (Some p) g1 =
        (if i + 1 < ?K then Some (a + ?b + (?K - 1) * ?w) else Some p, g)"
    "heap_rep (oh_heap g) s cs F" "live (oh_heap g) cs F = live (oh_heap h) cs F"
    "\<forall>j. i + 1 \<le> j \<longrightarrow> j < ?K \<longrightarrow> get_next g (a + ?b + j * ?w) = a + ?b + (j + 1) * ?w"
    "\<forall>x. x < a + (i + 1) * ?w \<or> a + n \<le> x \<longrightarrow> hp_mem (oh_heap g) x = hp_mem (oh_heap g1) x"
    "\<exists>m. g = g1\<lparr>oh_heap := (oh_heap g1)\<lparr>hp_mem := m\<rparr>\<rparr>" by blast
  have "carve (a + ?b) n (i * ?w) prev h = (Some (a + ?b + (?K - 1) * ?w), g)"
  proof (cases "i + 1 < ?K")
    case False
    then have "?K - 1 = i" using iK by simp
    then show ?thesis using False g(1) step p_def by simp
  qed (use g(1) step in simp)
  moreover have gb: "oh_base g = ?b" using g(6) by (auto simp: f1)
  have "get_next g p = get_next g1 p"
    using g(5) w bound by (simp add: get_next_def gb f1 p_def)
  then have "get_next g (a + ?b + j * ?w) = a + ?b + (j + 1) * ?w" if "i \<le> j" "j < ?K" for j
    using g(4) that nx by (cases "j = i") (simp_all add: p_def)
  moreover have "hp_mem (oh_heap g) x = hp_mem (oh_heap h) x" if "x < a + i * ?w \<or> a + n \<le> x" for x
  proof -
    have "hp_mem (oh_heap g) x = hp_mem (oh_heap g1) x" using g(5) that by auto
    also have "\<dots> = hp_mem (oh_heap h) x" using that bound by (intro m1) auto
    finally show ?thesis .
  qed
  moreover have "\<exists>m. g = h\<lparr>oh_heap := (oh_heap h)\<lparr>hp_mem := m\<rparr>\<rparr>"
    using g(6) by (auto simp: g1_def put_field_def put_word_def)
  ultimately show ?case using g(2,3) iK by auto
qed

text \<open>The list of the objects of a chunk, as the loop links them.\<close>

definition objs :: "nat \<Rightarrow> nat \<Rightarrow> nat \<Rightarrow> nat list" where
  "objs mem w k = map (\<lambda>j. mem + j * w) [0..<k]"

lemma objs_chain:
  assumes "\<And>j. j + 1 < k \<Longrightarrow> get_next h (mem + j * w) = mem + (j + 1) * w" and "0 < k"
    and "get_next h (mem + (k - 1) * w) = q" and "0 < mem" and "ochain h q fl"
  shows "ochain h mem (objs mem w k @ fl)"
proof -
  have "j < k \<Longrightarrow> ochain h (mem + (k - 1 - j) * w) (map (\<lambda>j. mem + j * w) [k - 1 - j..<k] @ fl)" for j
  proof (induction j)
    case 0
    have "[k - 1..<k] = [k - 1]" using assms(2) by (simp add: upt_rec)
    then show ?case using assms(3-5) by simp
  next
    case (Suc j)
    let ?i = "k - 1 - Suc j"
    have i: "Suc ?i = k - 1 - j" "?i + 1 < k" using Suc.prems by simp_all
    have "[?i..<k] = ?i # [k - 1 - j..<k]" using i by (metis add_lessD1 upt_conv_Cons)
    moreover have "(?i + 1) * w = (k - 1 - j) * w" using i(1) by simp
    then have "get_next h (mem + ?i * w) = mem + (k - 1 - j) * w" using assms(1) [OF i(2)] by metis
    ultimately show ?case using Suc assms(4) by simp
  qed
  from this [of "k - 1"] assms(2) show ?thesis by (simp add: objs_def)
qed

lemma distinct_objs: "0 < w \<Longrightarrow> distinct (objs mem w k)"
  by (auto simp: objs_def distinct_map inj_on_def)

text \<open>
  An allocation that succeeds without growing the table. The new chunk is \<open>(a, n)\<close>; the
  table of chunks gets its pointer.
\<close>

lemma track_chunk_new:
  assumes "xh_inv (\<lambda>_. []) (oh_hash h)" and "2 \<le> xh_size_shift (oh_hash h)" and "\<not> grow_check (oh_hash h)"
    and "xh_limit (oh_hash h) = 0" and "xh_type (oh_hash h) = XHASH_INTEGER"
    and "xh_map (\<lambda>_. []) (oh_hash h) (Inl (of_nat ptr)) = None" and "proper (of_nat ptr)"
  shows "\<exists>t. track_chunk junk c ptr h = Some (Some 0, h\<lparr>oh_hash := t\<rparr>) \<and> xh_inv (\<lambda>_. []) t \<and>
    xh_map (\<lambda>_. []) t = (xh_map (\<lambda>_. []) (oh_hash h))(Inl (of_nat ptr) \<mapsto> of_nat ptr)"
proof -
  have wf: "xh_wf (oh_hash h)" using assms(1) by (simp add: xh_inv_def)
  have k: "key_of (\<lambda>_. []) (xh_type (oh_hash h)) (of_nat ptr) = Inl (of_nat ptr)"
    by (simp add: assms(5) key_of_def)
  from insert_absent [OF assms(1) _ assms(7) grow_check_room [OF wf assms(3,2)] disjI1 [OF refl],
      of "of_nat ptr"] assms(6) k
  obtain t where t: "raw_xhash_insert (\<lambda>_. []) (oh_hash h) (of_nat ptr) (of_nat ptr) = Some t"
    "xh_inv (\<lambda>_. []) t" "xh_map (\<lambda>_. []) t = (xh_map (\<lambda>_. []) (oh_hash h))(Inl (of_nat ptr) \<mapsto> of_nat ptr)"
    by auto
  then have "xhash_insert (\<lambda>_. []) (oh_hash h) (of_nat ptr) (of_nat ptr) = Some (0, t)"
    using assms(3,4) by (simp add: xhash_insert_def)
  then show ?thesis using t(2,3) by (intro exI [of _ t]) (simp add: track_chunk_def Let_def XHASH_ERESIZE_def)
qed

lemma alloc_obj_core:
  assumes rep: "obj_rep h s cs F fl" and nr: "2 \<le> nr" "nr * oh_obj_size h < 2 ^ 64"
    and alloc: "xheap_allocate c (nr * oh_obj_size h) (oh_heap h) = Some (Some a, heap)"
    and n: "heap_rep heap s cs' F'" "nr * oh_obj_size h \<le> n"
      "live heap cs' F' = insert (a, n) (live (oh_heap h) cs F)"
      "\<forall>d\<in>live (oh_heap h) cs F. span (a, n) \<inter> span d = {}" "keeps (oh_heap h) heap"
    and hash: "xh_inv (\<lambda>_. []) (oh_hash h)" "2 \<le> xh_size_shift (oh_hash h)" "\<not> grow_check (oh_hash h)"
      "xh_limit (oh_hash h) = 0" "xh_type (oh_hash h) = XHASH_INTEGER"
      "xh_map (\<lambda>_. []) (oh_hash h) (Inl (of_nat (a + oh_base h))) = None" "proper (of_nat (a + oh_base h))"
  defines "w \<equiv> oh_obj_size h" and "b \<equiv> oh_base h"
  shows "\<exists>h'. xobj_alloc_obj junk c nr h = Some (0, h') \<and> (a, n) \<in> live (oh_heap h') cs' F' \<and>
    obj_rep h' s cs' F' (objs (a + b) w ((n - 1) div w) @ fl) \<and>
    oh_nr_free h' = w64 (oh_nr_free h + n div w) \<and> oh_obj_size h' = w \<and>
    oh_base h' = b \<and> oh_lock h' = oh_lock h \<and> (\<exists>m. oh_heap h' = heap\<lparr>hp_mem := m\<rparr>)"
proof -
  from rep have hr: "heap_rep (oh_heap h) s cs F" and w24: "XOBJ_SIZE \<le> w" and ch: "ochain h (oh_list h) fl"
    and dfl: "distinct fl" and sfl: "\<And>q. q \<in> set fl \<Longrightarrow> slot h cs F q" by (simp_all add: obj_rep_def w_def)
  have w: "24 \<le> w" using w24 by (simp add: XOBJ_SIZE_def)
  note n = n [folded w_def]
  define K where "K = (n - 1) div w"
  have "2 * w \<le> n" using n(2) nr(1) by (meson le_trans mult_le_mono1)
  then have "w \<le> n - 1" using w by linarith
  then have K: "0 < K" using w by (simp add: K_def div_greater_zero_iff)
  have Kw: "K * w \<le> n - 1" unfolding K_def by simp
  have lvn: "(a, n) \<in> live heap cs' F'" using n(3) by simp
  note anb = chunk_bounds [OF n(1) live_in [OF lvn]]
  define h1 where "h1 = h\<lparr>oh_heap := heap\<rparr>"
  have f1: "oh_heap h1 = heap" "oh_obj_size h1 = w" "oh_base h1 = b" "oh_hash h1 = oh_hash h"
    "oh_list h1 = oh_list h" "oh_nr_free h1 = oh_nr_free h" "oh_lock h1 = oh_lock h"
    by (simp_all add: h1_def w_def b_def)
  have csz: "xheap_get_chunk_size heap a = n"
    using anb(1,4) by (simp add: xheap_get_chunk_size_def get_header_def HDR_def)
  from carve_spec [of h1 s cs' F' a n 0 None, unfolded f1, OF n(1) lvn w24] K obtain g where
    g: "carve (a + b) n 0 None h1 = (Some (a + b + (K - 1) * w), g)" "heap_rep (oh_heap g) s cs' F'"
    "live (oh_heap g) cs' F' = live heap cs' F'"
    "\<And>j. j < K \<Longrightarrow> get_next g (a + b + j * w) = a + b + (j + 1) * w"
    "\<And>x. x < a \<or> a + n \<le> x \<Longrightarrow> hp_mem (oh_heap g) x = hp_mem heap x"
    "\<exists>m. g = h1\<lparr>oh_heap := heap\<lparr>hp_mem := m\<rparr>\<rparr>"
    by (auto simp: K_def)
  from g(6) have gf: "oh_obj_size g = w" "oh_base g = b" "oh_hash g = oh_hash h" "oh_list g = oh_list h"
    "oh_nr_free g = oh_nr_free h" "oh_lock g = oh_lock h" by (auto simp: f1)
  from track_chunk_new [of g "a + b" junk c] hash obtain t where
    t: "track_chunk junk c (a + b) g = Some (Some 0, g\<lparr>oh_hash := t\<rparr>)" by (auto simp: gf b_def)
  define obj where "obj = a + b + (K - 1) * w"
  define h3 where "h3 = g\<lparr>oh_hash := t, oh_allocated_space := w64 (oh_allocated_space g + n),
      oh_nr_free := w64 (oh_nr_free g + n div w), oh_nr_allocated := w64 (oh_nr_allocated g + n div w)\<rparr>"
  define h' where "h' = (put_field obj 16 (oh_list h3) h3)\<lparr>oh_list := a + b\<rparr>"
  have res: "xobj_alloc_obj junk c nr h = Some (0, h')"
    using alloc t g(1) nr(2) by (simp add: xobj_alloc_obj_def Let_def h1_def [symmetric] w_def [symmetric] f1 csz gf
        b_def [symmetric] obj_def h'_def h3_def)
  have f3: "oh_heap h3 = oh_heap g" "oh_obj_size h3 = w" "oh_base h3 = b" "oh_list h3 = oh_list h"
    "oh_lock h3 = oh_lock h" by (simp_all add: h3_def gf)
  have sl: "slot h3 cs' F' (a + b + j * w)" if "j < K" for j
  proof -
    have "(j + 1) * w \<le> K * w" using that by (intro mult_le_mono1) simp
    then show ?thesis unfolding slot_def f3 using lvn Kw g(3)
      by (intro exI [of _ a] exI [of _ n] exI [of _ j]) (simp add: add.assoc)
  qed
  have sobj: "slot h3 cs' F' obj" unfolding obj_def using K by (intro sl) simp
  have r3: "heap_rep (oh_heap h3) s cs' F'" using g(2) by (simp add: f3)
  let ?p = "put_field obj 16 (oh_list h3) h3"
  have hf: "oh_heap h' = oh_heap ?p" "oh_base h' = oh_base ?p" "oh_obj_size h' = oh_obj_size ?p"
    by (simp_all add: h'_def)
  have r': "heap_rep (oh_heap h') s cs' F'" unfolding hf
    by (rule put_field_heap [OF r3 sobj]) (use w in \<open>simp add: f3\<close>)
  have old: "q - b + 16 < a \<or> a + n \<le> q - b + 16" "hp_mem heap (q - b + 16) = hp_mem (oh_heap h) (q - b + 16)"
    "slot h3 cs' F' q" "q \<noteq> a + b + j * w" if "q \<in> set fl" "j < K" for q j
  proof -
    from sfl [OF that(1)] obtain x k i where x: "(x, k) \<in> live (oh_heap h) cs F" "q = x + b + i * w"
      "(i + 1) * w \<le> k" by (auto simp: slot_def w_def b_def)
    have dis: "span (a, n) \<inter> span (x, k) = {}" using n(4) x(1) by blast
    have qx: "x \<le> q - b" "q - b + 24 \<le> x + k" "b \<le> q" using x(2,3) w by simp_all
    then have "q - b + 16 \<in> span (x, k)" "q - b \<in> span (x, k)" by (auto simp: span_def)
    with dis have ni: "q - b + 16 \<notin> span (a, n)" "q - b \<notin> span (a, n)" by blast+
    then show "q - b + 16 < a \<or> a + n \<le> q - b + 16" by (auto simp: span_def HDR_def)
    have "(j + 1) * w \<le> K * w" using that(2) by (intro mult_le_mono1) simp
    then have "a + j * w \<in> span (a, n)" using Kw w by (auto simp: span_def)
    then show "q \<noteq> a + b + j * w" using ni(2) by auto
    from chunk_bounds(2,5) [OF hr live_in [OF x(1)]] n(5) qx
    show "hp_mem heap (q - b + 16) = hp_mem (oh_heap h) (q - b + 16)" by (simp add: keeps_def)
    show "slot h3 cs' F' q" unfolding slot_def f3 using x g(3) n(3) by blast
  qed
  have nx: "get_next h' q = get_next h3 q" if "slot h3 cs' F' q" "q \<noteq> obj" for q
  proof -
    have "get_next h' q = get_next ?p q" by (simp add: get_next_def hf)
    also have "\<dots> = get_next h3 q"
      by (rule put_field_next [OF r3 sobj that(1)]) (use that(2) w w24 in \<open>auto simp: f3\<close>)
    finally show ?thesis .
  qed
  have fl: "get_next h' q = get_next h q" if q: "q \<in> set fl" for q
  proof -
    have "get_next h' q = get_next h3 q"
      using old(3) [OF q K] old(4) [OF q, of "K - 1"] K by (intro nx) (simp_all add: obj_def)
    also have "\<dots> = hp_mem (oh_heap g) (q - b + 16)" by (simp add: get_next_def f3)
    also have "\<dots> = hp_mem (oh_heap h) (q - b + 16)" using g(5) [OF old(1) [OF q K]] old(2) [OF q K] by simp
    finally show ?thesis by (simp add: get_next_def b_def)
  qed
  have "ochain h' (a + b) (objs (a + b) w K @ fl)"
  proof (rule objs_chain)
    show "get_next h' (a + b + j * w) = a + b + (j + 1) * w" if "j + 1 < K" for j
    proof -
      have "j * w \<noteq> (K - 1) * w" using that w by auto
      then have "get_next h' (a + b + j * w) = get_next h3 (a + b + j * w)"
        using that by (intro nx sl) (simp_all add: obj_def)
      also have "\<dots> = get_next g (a + b + j * w)" by (simp add: get_next_def f3 gf)
      also have "\<dots> = a + b + (j + 1) * w" using that by (intro g(4)) simp
      finally show ?thesis .
    qed
    show "get_next h' (a + b + (K - 1) * w) = oh_list h"
      unfolding obj_def [symmetric] by (simp add: get_next_def hf put_field_mem f3)
    show "ochain h' (oh_list h) fl" using ch fl by (rule ochain_cong)
    show "0 < a + b" using anb(1) by (simp add: HDR_def)
  qed (rule K)
  moreover have "distinct (objs (a + b) w K @ fl)"
    unfolding distinct_append
  proof (intro conjI)
    show "distinct (objs (a + b) w K)" using w by (simp add: distinct_objs)
    show "set (objs (a + b) w K) \<inter> set fl = {}" using old(4) by (fastforce simp: objs_def)
  qed (rule dfl)
  moreover have "slot h' cs' F' q \<longleftrightarrow> slot h3 cs' F' q" for q by (simp add: slot_same_heap [OF hf])
  then have "\<forall>q\<in>set (objs (a + b) w K @ fl). slot h' cs' F' q"
    using sl old(3) K by (auto simp: objs_def)
  ultimately have "obj_rep h' s cs' F' (objs (a + b) w K @ fl)"
    using r' w24 unfolding obj_rep_def by (simp add: h'_def f3)
  moreover have "(a, n) \<in> live (oh_heap h') cs' F'" using lvn g(3) by (simp add: hf f3)
  moreover have "\<exists>m. oh_heap h' = heap\<lparr>hp_mem := m\<rparr>"
    using g(6) by (auto simp: hf put_field_def put_word_def f3)
  ultimately show ?thesis using res
    by (intro exI [of _ h']) (simp add: K_def h'_def h3_def gf)
qed

lemma alloc_obj_rep:
  assumes rep: "obj_rep h s cs F fl" and lk: "unlocked (hp_lock (oh_heap h))"
    and cls: "in_classes (oh_heap h) (nr * oh_obj_size h)" and nr: "2 \<le> nr"
    and alloc: "xheap_allocate c (nr * oh_obj_size h) (oh_heap h) = Some (Some a, heap)"
    and hash: "xh_inv (\<lambda>_. []) (oh_hash h)" "2 \<le> xh_size_shift (oh_hash h)" "\<not> grow_check (oh_hash h)"
      "xh_limit (oh_hash h) = 0" "xh_type (oh_hash h) = XHASH_INTEGER"
      "xh_map (\<lambda>_. []) (oh_hash h) (Inl (of_nat (a + oh_base h))) = None" "proper (of_nat (a + oh_base h))"
  defines "w \<equiv> oh_obj_size h" and "b \<equiv> oh_base h"
  shows "\<exists>h' n cs' F'. xobj_alloc_obj junk c nr h = Some (0, h') \<and>
    (a, n) \<in> live (oh_heap h') cs' F' \<and> n = payload (hp_unit (oh_heap h)) (nr * w) \<and>
    obj_rep h' s cs' F' (objs (a + b) w ((n - 1) div w) @ fl) \<and>
    oh_nr_free h' = w64 (oh_nr_free h + n div w) \<and> oh_obj_size h' = w \<and>
    oh_base h' = b \<and> oh_lock h' = oh_lock h"
proof -
  from rep have hr: "heap_rep (oh_heap h) s cs F" by (simp add: obj_rep_def)
  from allocate_safe [OF hr lk cls alloc] obtain n cs' F' where
    n: "heap_rep heap s cs' F'" "nr * oh_obj_size h \<le> n" "live heap cs' F' = insert (a, n) (live (oh_heap h) cs F)"
    "\<forall>d\<in>live (oh_heap h) cs F. span (a, n) \<inter> span d = {}" "keeps (oh_heap h) heap"
    "n = payload (hp_unit (oh_heap h)) (nr * oh_obj_size h)" by blast
  have "nr * oh_obj_size h < 2 ^ 64" using cls by (simp add: in_classes_def)
  from alloc_obj_core [OF rep nr this alloc n(1-5) hash, of junk] n(6) show ?thesis
    unfolding w_def b_def by blast
qed

section \<open>Properties\<close>

text \<open>
  C17. The free list is a stack of distinct objects inside chunks in use: getting an object
  returns the top one, which is then in no list, and putting it back restores the list and
  the count; an empty list without the flag gives a null pointer and changes nothing. The
  test for free objects ends and is right.
\<close>

theorem xobj_get_put:
  assumes "obj_rep h s cs F fl" and "unlocked (oh_lock h)" and "oh_nr_free h < 2 ^ 64" and "0 < oh_nr_free h"
  shows "(case fl of
      [] \<Rightarrow> (flags AND X_ALLOC = 0 \<longrightarrow>
        xobj_get_obj junk c flags h = Some (None, h\<lparr>oh_lock := free_lock\<rparr>))
    | p # ps \<Rightarrow> (\<exists>h1 h2. xobj_get_obj junk c flags h = Some (Some p, h1) \<and> obj_rep h1 s cs F ps \<and>
        p \<notin> set ps \<and> xobj_put_obj c p h1 = Some h2 \<and> obj_rep h2 s cs F (p # ps) \<and>
        oh_nr_free h2 = oh_nr_free h)) \<and>
    raw_xobj_isFree h q = Some (q \<in> set fl)"
proof (intro conjI)
  have ch: "ochain h (oh_list h) fl" using assms(1) by (simp add: obj_rep_def)
  then show "raw_xobj_isFree h q = Some (q \<in> set fl)" by (simp add: raw_xobj_isFree_def isFree_rep)
  show "case fl of [] \<Rightarrow> flags AND X_ALLOC = 0 \<longrightarrow>
        xobj_get_obj junk c flags h = Some (None, h\<lparr>oh_lock := free_lock\<rparr>)
    | p # ps \<Rightarrow> \<exists>h1 h2. xobj_get_obj junk c flags h = Some (Some p, h1) \<and> obj_rep h1 s cs F ps \<and>
        p \<notin> set ps \<and> xobj_put_obj c p h1 = Some h2 \<and> obj_rep h2 s cs F (p # ps) \<and>
        oh_nr_free h2 = oh_nr_free h"
  proof (cases fl)
    case Nil
    then have "oh_list h = 0" using ch by simp
    then show ?thesis using Nil assms(2)
      by (simp add: xobj_get_obj_def get_retry.simps [of junk c flags "h\<lparr>oh_lock := _\<rparr>"])
  next
    case (Cons p ps)
    with assms(1) have r: "obj_rep h s cs F (p # ps)" by simp
    then have p0: "p \<noteq> 0" by (simp add: obj_rep_def)
    from get_obj_rep [OF r assms(2), of junk c flags] obtain h1 where
      h1: "xobj_get_obj junk c flags h = Some (Some p, h1)" "obj_rep h1 s cs F ps" "slot h1 cs F p"
      "p \<notin> set ps" "oh_lock h1 = free_lock" "oh_nr_free h1 = w64 (oh_nr_free h + 2 ^ 64 - 1)" by blast
    have "unlocked (oh_lock h1)" by (simp add: h1(5))
    from put_obj_rep [OF h1(2) this h1(3,4) p0, of c] obtain h2 where
      h2: "xobj_put_obj c p h1 = Some h2" "obj_rep h2 s cs F (p # ps)"
      "oh_nr_free h2 = w64 (oh_nr_free h1 + 1)" by blast
    have "oh_nr_free h1 = oh_nr_free h - 1" using h1(6) assms(3,4) by (simp add: w64_def mod_if)
    then have "oh_nr_free h2 = oh_nr_free h" using h2(3) assms(3,4) by simp
    with h1 h2 Cons show ?thesis by auto
  qed
qed

definition demo_obj :: xobject_h where
  "demo_obj = \<lparr>oh_lock = free_lock, oh_magic = 7, oh_obj_size = 24, oh_flags = 0, oh_base = 4096,
     oh_allocated = 0, oh_nr_allocated = 0, oh_allocated_space = 0, oh_list = 0, oh_nr_free = 1,
     oh_heap = demo_xheap, oh_hash = demo_hash XHASH_INTEGER 3\<rparr>"

lemma demo_obj_rep: "obj_rep demo_obj (hp_cur demo_xheap) [] (\<lambda>_. []) []"
  using demo_xheap_ok(1) by (simp add: obj_rep_def demo_obj_def XOBJ_SIZE_def)

theorem xobj_get_put_witness:
  "xobj_get_obj (\<lambda>_. []) (demo_caller 1) 0 demo_obj = Some (None, demo_obj\<lparr>oh_lock := free_lock\<rparr>)"
  using xobj_get_put [OF demo_obj_rep, of 0 "\<lambda>_. []" "demo_caller 1" 5] by (simp add: demo_obj_def)

text \<open>
  Allocation of objects: a new chunk is cut into \<open>(n - 1) div size\<close> objects, all put in
  front of the free list, distinct from each other and from the objects already there, none
  of which is disturbed. The counter grows by \<open>n div size\<close>, which is one too many whenever
  the object size divides the chunk.
\<close>

theorem xobj_alloc_count:
  assumes "obj_rep h s cs F fl" and "unlocked (hp_lock (oh_heap h))"
    and "in_classes (oh_heap h) (nr * oh_obj_size h)" and "2 \<le> nr"
    and "xheap_allocate c (nr * oh_obj_size h) (oh_heap h) = Some (Some a, heap)"
    and "xh_inv (\<lambda>_. []) (oh_hash h)" and "2 \<le> xh_size_shift (oh_hash h)" and "\<not> grow_check (oh_hash h)"
    and "xh_limit (oh_hash h) = 0" and "xh_type (oh_hash h) = XHASH_INTEGER"
    and "xh_map (\<lambda>_. []) (oh_hash h) (Inl (of_nat (a + oh_base h))) = None"
    and "proper (of_nat (a + oh_base h))"
  shows "\<exists>h' n cs' F' new. xobj_alloc_obj junk c nr h = Some (0, h') \<and>
    n = payload (hp_unit (oh_heap h)) (nr * oh_obj_size h) \<and> obj_rep h' s cs' F' (new @ fl) \<and>
    length new = (n - 1) div oh_obj_size h \<and>
    oh_nr_free h' = w64 (oh_nr_free h + n div oh_obj_size h) \<and>
    (oh_obj_size h dvd n \<longrightarrow> n div oh_obj_size h = length new + 1)"
proof -
  let ?w = "oh_obj_size h"
  from alloc_obj_rep [OF assms, of junk] obtain h' n cs' F' where h': "xobj_alloc_obj junk c nr h = Some (0, h')"
    "n = payload (hp_unit (oh_heap h)) (nr * ?w)"
    "obj_rep h' s cs' F' (objs (a + oh_base h) ?w ((n - 1) div ?w) @ fl)"
    "oh_nr_free h' = w64 (oh_nr_free h + n div ?w)" by blast
  have "0 < ?w" using assms(1) by (simp add: obj_rep_def XOBJ_SIZE_def)
  have "0 < n"
    using assms(1,3) unfolding h'(2) by (intro less_le_trans [OF _ payload_ge [of _ "nr * ?w"]])
      (simp_all add: obj_rep_def heap_rep_def in_classes_def)
  have "n div ?w = (n - 1) div ?w + 1" if "?w dvd n"
  proof -
    from that obtain q where q: "n = ?w * q" by (rule dvdE)
    with \<open>0 < n\<close> obtain r where r: "q = Suc r" by (cases q) auto
    have "n = r * ?w + ?w" by (simp add: q r)
    then have "r * ?w \<le> n - 1" "n - 1 < (r + 1) * ?w" using \<open>0 < ?w\<close> by (simp_all add: distrib_right)
    then have "(n - 1) div ?w = r" by (rule div_between)
    then show ?thesis using \<open>0 < ?w\<close> by (simp add: q r)
  qed
  then show ?thesis using h'
    by (intro exI [of _ h'] exI [of _ n] exI [of _ cs'] exI [of _ F']
        exI [of _ "objs (a + oh_base h) ?w ((n - 1) div ?w)"]) (simp add: objs_def)
qed

theorem xobj_alloc_count_witness:
  "\<exists>h' cs' F' new. xobj_alloc_obj (\<lambda>_. []) (demo_caller 1) 3 demo_obj = Some (0, h') \<and>
     obj_rep h' (hp_cur demo_xheap) cs' F' new \<and> length new = 2 \<and> oh_nr_free h' = oh_nr_free demo_obj + 3"
proof -
  note ok = demo_xheap_ok
  have cls: "in_classes demo_xheap 72" "payload 5 72 = 72" "get_index 5 72 = 2" "get_alloc_bytes 5 72 = 96"
    by (simp_all add: in_classes_def ok payload_def get_index_def get_alloc_bytes_def align64_def
        w64_def xheap_limits HDR_def)
  then have "(72 :: nat) < 2 ^ 62" "2 = get_index (hp_unit demo_xheap) 72" "2 < classes demo_xheap"
    "get_index (hp_unit demo_xheap) (payload (hp_unit demo_xheap) 72) < classes demo_xheap" by (simp_all add: ok)
  from allocate_cases(1) [OF ok(1,2) this, of "demo_caller 1"] ok cls obtain heap where
    a: "xheap_allocate (demo_caller 1) 72 demo_xheap = Some (Some (hp_cur demo_xheap + HDR), heap)" by auto
  let ?p = "hp_cur demo_xheap + HDR + 4096"
  have small: "?p < 2 ^ 32" using ok(5) by (simp add: HDR_def)
  then have u: "unat (of_nat ?p :: u64) = ?p" by (intro unat_of_nat_u64) simp
  have far: "unat DUMMY = 2 ^ 64 - 2" "unat UNUSED = 2 ^ 64 - 1" 
    by (simp_all add: DUMMY_def UNUSED_def unsigned_minus_1_eq_mask mask_eq_exp_minus_1)
  have "(of_nat ?p :: u64) \<noteq> DUMMY" "(of_nat ?p :: u64) \<noteq> UNUSED"
    using small far u by auto
  then have "proper (of_nat ?p)" by (simp add: proper_def)
  moreover have "xh_inv (\<lambda>_. []) (demo_hash XHASH_INTEGER 3)" "\<not> grow_check (demo_hash XHASH_INTEGER 3)"
    using demo_hash_ok [of 3 "\<lambda>_. []" XHASH_INTEGER] by (simp_all add: grow_check_def)
  ultimately show ?thesis
    using xobj_alloc_count [OF demo_obj_rep, of 3 "demo_caller 1" "hp_cur demo_xheap + HDR" heap "\<lambda>_. []"]
      a cls ok demo_hash_ok [of 3 "\<lambda>_. []" XHASH_INTEGER]
    by (auto simp: demo_obj_def w64_def)
qed

end
