(* ===== verification/Xwork.thy ===== *)
theory Xwork
  imports Xq "HOL-Library.Monad_Syntax"
begin

text \<open>
  The two queues of pending work, \<^verbatim>\<open>xtypes/xworkq.c\<close> and \<^verbatim>\<open>xtypes/xwaitq.c\<close>, both
  clients of \<^verbatim>\<open>xq\<close>. A queued item is a pointer to a \<^verbatim>\<open>struct work\<close>; the structs
  are the map \<open>ks_works\<close> (\<open>ws_works\<close>). The job functions and the condition are the
  client's code: \<open>run f j s\<close> calls the function pointer \<open>f\<close> on the job pointer \<open>j\<close> and may
  change the whole state, the queue included; \<open>cond arg\<close> reads and may change the
  client's world. A call that spins on a held lock, follows a dangling pointer or never
  returns is \<open>None\<close>. What \<^verbatim>\<open>xtypes_malloc\<close> returns is an argument.
\<close>

section \<open>Work items\<close>

record work =
  wk_job :: u64
  wk_job_fn :: u64

text \<open>
  The enqueue of both files: append at the tail, and when the queue is full double it.
  \<open>new\<close> is the memory for the new \<^verbatim>\<open>struct xq\<close>, \<open>tab\<close> the memory for a table of the
  given size.
\<close>

definition enqueue_grow :: "xq option \<Rightarrow> (u64 \<Rightarrow> u64 list option) \<Rightarrow> u64 \<Rightarrow> xq \<Rightarrow> u64 \<times> xq" where
  "enqueue_grow new tab w q =
     (let (r, q) = raw_xq_append_tail q w in
      if r = Noneidx then
        (case new of None \<Rightarrow> (Noneidx, q)
         | Some newq \<Rightarrow>
             let sz = q_size q * 2; (ok, newq) = xq_alloc_empty sz (tab sz) newq in
             if \<not> ok then (Noneidx, q)
             else let (n, newq) = raw_xq_resize q newq in
               if n = Noneidx then (Noneidx, q)
               else raw_xq_append_tail newq w)
      else (r, q))"

section \<open>The work queue\<close>

record xworkq =
  kq_q_lock :: xlock
  kq_flags :: u32
  kq_q :: xq
  kq_lock :: "xlock option"

record 'w kstate =
  ks_q :: xworkq
  ks_works :: "u64 \<Rightarrow> work option"
  ks_world :: 'w

definition xworkq_init ::
  "xq option \<Rightarrow> (u64 \<Rightarrow> u64 list option) \<Rightarrow> xlock option \<Rightarrow> u32 \<Rightarrow> xworkq \<Rightarrow> int \<times> xworkq" where
  "xworkq_init new tab lock flags wq =
     (let wq = wq\<lparr>kq_lock := lock, kq_flags := flags\<rparr>;
          wq = wq\<lparr>kq_q_lock := xlock_release (kq_q_lock wq)\<rparr>
      in case new of None \<Rightarrow> (-1, wq)
         | Some q \<Rightarrow>
             let (ok, q) = xq_alloc_empty 8 (tab 8) q
             in if \<not> ok then (-1, wq) else (0, wq\<lparr>kq_q := q\<rparr>))"

definition xworkq_destroy :: "xworkq \<Rightarrow> xworkq" where
  "xworkq_destroy wq = wq\<lparr>kq_q := xq_free (kq_q wq)\<rparr>"

definition raw_xworkq_enqueue ::
  "caller \<Rightarrow> xq option \<Rightarrow> (u64 \<Rightarrow> u64 list option) \<Rightarrow> u64 \<Rightarrow> xworkq \<Rightarrow> (int \<times> xworkq) option" where
  "raw_xworkq_enqueue c new tab w wq =
     do {
       l \<leftarrow> xlock_acquire c (kq_q_lock wq);
       let (r, q) = enqueue_grow new tab w (kq_q wq);
       let wq = wq\<lparr>kq_q_lock := l, kq_q := q\<rparr>;
       Some (if r = Noneidx then -1 else 0, wq\<lparr>kq_q_lock := xlock_release (kq_q_lock wq)\<rparr>)
     }"

text \<open>\<open>mem\<close> is the new work item, not yet in use. On failure it is not freed.\<close>

definition xworkq_enqueue ::
  "caller \<Rightarrow> xq option \<Rightarrow> (u64 \<Rightarrow> u64 list option) \<Rightarrow> u64 option \<Rightarrow> u64 \<Rightarrow> u64 \<Rightarrow> 'w kstate \<Rightarrow>
     (int \<times> 'w kstate) option" where
  "xworkq_enqueue c new tab mem job_fn job s =
     (case mem of None \<Rightarrow> Some (-1, s)
      | Some w \<Rightarrow> do {
          let s = s\<lparr>ks_works := (ks_works s)(w \<mapsto> \<lparr>wk_job = job, wk_job_fn = job_fn\<rparr>)\<rparr>;
          (r, wq) \<leftarrow> raw_xworkq_enqueue c new tab w (ks_q s);
          let s = s\<lparr>ks_q := wq\<rparr>;
          Some (if r < 0 then -1 else 0, s) })"

definition pop_work :: "caller \<Rightarrow> 'w kstate \<Rightarrow> (u64 \<times> 'w kstate) option" where
  "pop_work c s =
     do {
       l \<leftarrow> xlock_acquire c (kq_q_lock (ks_q s));
       let (xqi, q) = raw_xq_pop_head (kq_q (ks_q s));
       let wq = (ks_q s)\<lparr>kq_q_lock := l, kq_q := q\<rparr>;
       Some (xqi, s\<lparr>ks_q := wq\<lparr>kq_q_lock := xlock_release (kq_q_lock wq)\<rparr>\<rparr>)
     }"

partial_function (option) run_works ::
  "(u64 \<Rightarrow> u64 \<Rightarrow> 'w kstate \<Rightarrow> 'w kstate option) \<Rightarrow> caller \<Rightarrow> u64 \<Rightarrow> 'w kstate \<Rightarrow> 'w kstate option" where
  "run_works run c xqi s =
     (if xqi = Noneidx then Some s
      else Option.bind (ks_works s xqi) (\<lambda>w.
           Option.bind (run (wk_job_fn w) (wk_job w) s) (\<lambda>s.
           Option.bind (pop_work c (s\<lparr>ks_works := (ks_works s)(xqi := None)\<rparr>)) (\<lambda>(xqi, s).
             run_works run c xqi s))))"

declare run_works.simps [code]

text \<open>The optional outer lock.\<close>

definition try_outer :: "caller \<Rightarrow> 'w kstate \<Rightarrow> bool \<times> 'w kstate" where
  "try_outer c s =
     (case kq_lock (ks_q s) of None \<Rightarrow> (True, s)
      | Some l \<Rightarrow> let (b, l) = xlock_try_lock c l in (b, s\<lparr>ks_q := (ks_q s)\<lparr>kq_lock := Some l\<rparr>\<rparr>))"

definition release_outer :: "'w kstate \<Rightarrow> 'w kstate" where
  "release_outer s =
     (case kq_lock (ks_q s) of None \<Rightarrow> s
      | Some l \<Rightarrow> s\<lparr>ks_q := (ks_q s)\<lparr>kq_lock := Some (xlock_release l)\<rparr>\<rparr>)"

partial_function (option) xworkq_signal ::
  "(u64 \<Rightarrow> u64 \<Rightarrow> 'w kstate \<Rightarrow> 'w kstate option) \<Rightarrow> caller \<Rightarrow> 'w kstate \<Rightarrow> 'w kstate option" where
  "xworkq_signal run c s =
     (if xq_count (kq_q (ks_q s)) = 0 then Some s
      else if \<not> fst (try_outer c s) then Some (snd (try_outer c s))
      else Option.bind (pop_work c (snd (try_outer c s))) (\<lambda>(xqi, s).
           Option.bind (run_works run c xqi s) (\<lambda>s. xworkq_signal run c (release_outer s))))"

declare xworkq_signal.simps [code]

section \<open>The wait queue\<close>

definition XWAIT_SIGNAL_ONE :: u32 where "XWAIT_SIGNAL_ONE = 1"

record xwaitq =
  wq_cond_fn :: u64
  wq_cond_arg :: u64
  wq_flags :: u32
  wq_q :: xq
  wq_lock :: xlock

record 'w wstate =
  ws_q :: xwaitq
  ws_works :: "u64 \<Rightarrow> work option"
  ws_world :: 'w

text \<open>The condition: function pointer and argument, on the client's world.\<close>

definition check_cond :: "(u64 \<Rightarrow> u64 \<Rightarrow> 'w \<Rightarrow> bool \<times> 'w) \<Rightarrow> 'w wstate \<Rightarrow> bool \<times> 'w wstate" where
  "check_cond cond s =
     (let (b, w) = cond (wq_cond_fn (ws_q s)) (wq_cond_arg (ws_q s)) (ws_world s)
      in (b, s\<lparr>ws_world := w\<rparr>))"

definition xwaitq_init ::
  "xq option \<Rightarrow> (u64 \<Rightarrow> u64 list option) \<Rightarrow> u64 \<Rightarrow> u64 \<Rightarrow> u32 \<Rightarrow> xwaitq \<Rightarrow> int \<times> xwaitq" where
  "xwaitq_init new tab cond_fn arg flags wq =
     (let wq = wq\<lparr>wq_cond_fn := cond_fn, wq_cond_arg := arg, wq_flags := flags\<rparr>
      in case new of None \<Rightarrow> (-1, wq)
         | Some q \<Rightarrow>
             let wq = wq\<lparr>wq_lock := xlock_release (wq_lock wq)\<rparr>;
                 (ok, q) = xq_alloc_empty 8 (tab 8) q
             in if \<not> ok then (-1, wq) else (0, wq\<lparr>wq_q := q\<rparr>))"

definition xwaitq_destroy :: "xwaitq \<Rightarrow> xwaitq" where
  "xwaitq_destroy wq = wq\<lparr>wq_q := xq_free (wq_q wq)\<rparr>"

definition raw_xwaitq_enqueue ::
  "xq option \<Rightarrow> (u64 \<Rightarrow> u64 list option) \<Rightarrow> u64 \<Rightarrow> xwaitq \<Rightarrow> int \<times> xwaitq" where
  "raw_xwaitq_enqueue new tab w wq =
     (let (r, q) = enqueue_grow new tab w (wq_q wq)
      in (if r = Noneidx then -1 else 0, wq\<lparr>wq_q := q\<rparr>))"

text \<open>Taking the lock: one attempt with \<^verbatim>\<open>XWAIT_SIGNAL_ONE\<close>, spinning otherwise.\<close>

definition wait_lock :: "caller \<Rightarrow> 'w wstate \<Rightarrow> (bool \<times> 'w wstate) option" where
  "wait_lock c s =
     (let wq = ws_q s in
      if wq_flags wq AND XWAIT_SIGNAL_ONE \<noteq> 0 then
        let (b, l) = xlock_try_lock c (wq_lock wq) in Some (b, s\<lparr>ws_q := wq\<lparr>wq_lock := l\<rparr>\<rparr>)
      else do { l \<leftarrow> xlock_acquire c (wq_lock wq); Some (True, s\<lparr>ws_q := wq\<lparr>wq_lock := l\<rparr>\<rparr>) })"

definition wait_unlock :: "'w wstate \<Rightarrow> 'w wstate" where
  "wait_unlock s = s\<lparr>ws_q := (ws_q s)\<lparr>wq_lock := xlock_release (wq_lock (ws_q s))\<rparr>\<rparr>"

definition call_work ::
  "(u64 \<Rightarrow> u64 \<Rightarrow> 'w wstate \<Rightarrow> 'w wstate option) \<Rightarrow> u64 \<Rightarrow> 'w wstate \<Rightarrow> 'w wstate option" where
  "call_work run p s = do { w \<leftarrow> ws_works s p; run (wk_job_fn w) (wk_job w) s }"

text \<open>The loop of \<^verbatim>\<open>xwaitq_signal\<close>, entered with the lock held.\<close>

partial_function (option) signal_loop ::
  "(u64 \<Rightarrow> u64 \<Rightarrow> 'w wstate \<Rightarrow> 'w wstate option) \<Rightarrow> (u64 \<Rightarrow> u64 \<Rightarrow> 'w \<Rightarrow> bool \<times> 'w) \<Rightarrow> caller \<Rightarrow>
     'w wstate \<Rightarrow> 'w wstate option" where
  "signal_loop run cond c s =
     (if xq_count (wq_q (ws_q s)) = 0 then Some (wait_unlock s)
      else if \<not> fst (check_cond cond s) then Some (wait_unlock (snd (check_cond cond s)))
      else let s = snd (check_cond cond s); r = raw_xq_pop_head (wq_q (ws_q s)); xqi = fst r;
               s = s\<lparr>ws_q := (ws_q s)\<lparr>wq_q := snd r\<rparr>\<rparr>
           in if xqi = Noneidx then Some (wait_unlock s)
              else Option.bind (call_work run xqi (wait_unlock s)) (\<lambda>s.
                   Option.bind (wait_lock c s) (\<lambda>(b, s).
                     if \<not> b then Some s else signal_loop run cond c s)))"

declare signal_loop.simps [code]

definition xwaitq_signal ::
  "(u64 \<Rightarrow> u64 \<Rightarrow> 'w wstate \<Rightarrow> 'w wstate option) \<Rightarrow> (u64 \<Rightarrow> u64 \<Rightarrow> 'w \<Rightarrow> bool \<times> 'w) \<Rightarrow> caller \<Rightarrow>
     'w wstate \<Rightarrow> 'w wstate option" where
  "xwaitq_signal run cond c s =
     (if xq_count (wq_q (ws_q s)) = 0 then Some s
      else do { (b, s) \<leftarrow> wait_lock c s; if \<not> b then Some s else signal_loop run cond c s })"

definition xwaitq_enqueue ::
  "(u64 \<Rightarrow> u64 \<Rightarrow> 'w wstate \<Rightarrow> 'w wstate option) \<Rightarrow> (u64 \<Rightarrow> u64 \<Rightarrow> 'w \<Rightarrow> bool \<times> 'w) \<Rightarrow> caller \<Rightarrow>
     xq option \<Rightarrow> (u64 \<Rightarrow> u64 list option) \<Rightarrow> u64 \<Rightarrow> 'w wstate \<Rightarrow> (int \<times> 'w wstate) option" where
  "xwaitq_enqueue run cond c new tab w s =
     (let (b, s) = check_cond cond s in
      if b then do { s \<leftarrow> call_work run w s; Some (0, s) }
      else do {
        l \<leftarrow> xlock_acquire c (wq_lock (ws_q s));
        let (r, wq) = raw_xwaitq_enqueue new tab w ((ws_q s)\<lparr>wq_lock := l\<rparr>);
        let s = wait_unlock (s\<lparr>ws_q := wq\<rparr>);
        s \<leftarrow> xwaitq_signal run cond c s;
        Some (r, s) })"

section \<open>Enqueueing\<close>

lemma count_0_list [simp]: "xq_count q = 0 \<Longrightarrow> q_list q = []"
  by simp

lemma enqueue_room:
  assumes "q_wf q" and "q_len q < q_cap q" and "w \<noteq> Noneidx"
  shows "\<exists>q'. enqueue_grow new tab w q = (w, q') \<and> q_list q' = w # q_list q \<and> q_wf q' \<and> q_cap q' = q_cap q"
  using append_tail_list [OF assms(1,2), of w] assms(3)
  by (auto simp: enqueue_grow_def split_beta Let_def q_cap_def)

lemma enqueue_no_memory:
  assumes "q_wf q" and "q_len q = q_cap q" and "new = None \<or> tab (q_size q * 2) = None"
  shows "enqueue_grow new tab w q = (Noneidx, q)"
  using assms by (auto simp: enqueue_grow_def append_tail_full xq_alloc_empty_def split: option.split)

lemma enqueue_double:
  assumes wf: "q_wf q" and full: "q_len q = q_cap q" and w: "w \<noteq> Noneidx"
    and small: "q_cap q < 2 ^ 30" and mem: "tab (q_size q * 2) = Some mem" "2 * q_cap q \<le> length mem"
  shows "\<exists>q'. enqueue_grow (Some new) tab w q = (w, q') \<and> q_list q' = w # rev (q_list q) \<and> q_wf q' \<and>
    q_cap q' = 2 * q_cap q"
proof -
  let ?sz = "q_size q * 2" and ?e = "xq_init_empty (q_size q * 2) mem new"
  obtain k where k: "k < 64" "q_size q = 2 ^ k" "q_cap q = 2 ^ k" using wf by (elim q_wfE)
  have k30: "k < 30" using small unfolding k(3) by (rule power_less_imp_less_exp [rotated]) simp
  have sz: "?sz = 2 ^ Suc k" by (simp add: k(2) mult.commute)
  have u: "unat ?sz = 2 ^ Suc k" unfolding sz using k30 by (intro unat_pow2) simp
  have lt: "(2::nat) ^ Suc k < 2 ^ 31" using k30 by (intro power_strict_increasing) simp_all
  have pos: "0 < unat ?sz" "unat ?sz < 2 ^ 31" "unat ?sz \<le> length mem"
    using lt mem(2) k(3) unfolding u by simp_all
  note e = init_empty_list [OF pos, of new]
  obtain m where m: "snap ?sz = 2 ^ m" "2 ^ m \<le> unat ?sz" "unat ?sz < 2 ^ Suc m" "m < 31"
    using snap_eq [OF pos(1,2)] by blast
  have "m = Suc k" using m(2,3) unfolding u
    by (metis Suc_leI le_antisym less_Suc_eq_le one_less_numeral_iff power_le_imp_le_exp
        power_less_imp_less_exp semiring_norm(76))
  then have cap: "q_cap ?e = 2 * q_cap q" using e(4) m(1,4) k(3) unat_pow2 [of m] by simp
  have e0: "q_len ?e = 0" using e(2) by (metis length_0_conv length_q_list)
  have room: "q_len ?e + q_len q \<le> q_cap ?e" unfolding e0 full cap by simp
  note r = raw_resize_list [OF wf e(1) room]
  define nq where "nq = snd (raw_xq_resize q ?e)"
  have nq: "q_list nq = rev (q_list q)" "q_wf nq" "q_cap nq = 2 * q_cap q"
    using r e(2) cap by (simp_all add: nq_def q_cap_def)
  have "q_len nq = q_len q" using arg_cong [OF nq(1), of length] by simp
  then have lt2: "q_len nq < q_cap nq" using full nq(3) k(3) by simp
  have "xq_count q \<noteq> Noneidx"
  proof
    assume "xq_count q = Noneidx"
    then have "q_len q = 2 ^ 64 - 1" by (simp add: q_len_def unsigned_minus_1_eq_mask mask_eq_exp_minus_1)
    then show False using full small by simp
  qed
  then have "enqueue_grow (Some new) tab w q = raw_xq_append_tail nq w"
    using r(1) by (simp add: enqueue_grow_def append_tail_full [OF wf full] xq_alloc_empty_def mem(1)
        split_beta Let_def nq_def)
  then show ?thesis using append_tail_list [OF nq(2) lt2, of w] nq
    by (intro exI [of _ "snd (raw_xq_append_tail nq w)"]) (auto simp: q_cap_def intro: prod_eqI)
qed

section \<open>Running the queue\<close>

text \<open>A job of the client that changes the client's world only.\<close>

definition neutral_k :: "(u64 \<Rightarrow> u64 \<Rightarrow> 'w kstate \<Rightarrow> 'w kstate option) \<Rightarrow> (u64 \<Rightarrow> u64 \<Rightarrow> 'w \<Rightarrow> 'w) \<Rightarrow> bool" where
  "neutral_k run g \<longleftrightarrow> (\<forall>f j s. run f j s = Some (s\<lparr>ks_world := g f j (ks_world s)\<rparr>))"

definition neutral_w :: "(u64 \<Rightarrow> u64 \<Rightarrow> 'w wstate \<Rightarrow> 'w wstate option) \<Rightarrow> (u64 \<Rightarrow> u64 \<Rightarrow> 'w \<Rightarrow> 'w) \<Rightarrow> bool" where
  "neutral_w run g \<longleftrightarrow> (\<forall>f j s. run f j s = Some (s\<lparr>ws_world := g f j (ws_world s)\<rparr>))"

text \<open>What the work at a pointer does to the world.\<close>

definition effect :: "(u64 \<Rightarrow> u64 \<Rightarrow> 'w \<Rightarrow> 'w) \<Rightarrow> (u64 \<Rightarrow> work option) \<Rightarrow> u64 \<Rightarrow> 'w \<Rightarrow> 'w" where
  "effect g M p = (case M p of Some w \<Rightarrow> g (wk_job_fn w) (wk_job w) | None \<Rightarrow> id)"

text \<open>Queued pointers that can be served: real pointers, each to its own work item.\<close>

definition served :: "(u64 \<Rightarrow> work option) \<Rightarrow> u64 list \<Rightarrow> bool" where
  "served M ps \<longleftrightarrow> distinct ps \<and> (\<forall>p\<in>set ps. p \<noteq> Noneidx \<and> M p \<noteq> None)"

lemma fold_effect_cong:
  "(\<And>p. p \<in> set ps \<Longrightarrow> M p = M' p) \<Longrightarrow> fold (effect g M) ps w = fold (effect g M') ps w"
  by (intro fold_cong) (simp_all add: effect_def fun_eq_iff)

lemma pop_head_rev:
  assumes "q_wf q" and "rev (q_list q) = x # xs"
  shows "\<exists>q'. raw_xq_pop_head q = (x, q') \<and> rev (q_list q') = xs \<and> q_wf q'"
proof -
  have "q_list q = rev xs @ [x]" using assms(2) by (metis rev_eq_Cons_iff rev.simps(2))
  from xqd.pop_head_some [OF assms(1) this] show ?thesis
    by (intro exI [of _ "snd (raw_xq_pop_head q)"]) (auto intro: prod_eqI)
qed

lemma pop_work_cons:
  assumes "q_wf (kq_q (ks_q s))" and "unlocked (kq_q_lock (ks_q s))" and "rev (q_list (kq_q (ks_q s))) = x # xs"
  shows "\<exists>q'. pop_work c s = Some (x, s\<lparr>ks_q := (ks_q s)\<lparr>kq_q := q', kq_q_lock := free_lock\<rparr>\<rparr>) \<and>
    rev (q_list q') = xs \<and> q_wf q'"
  using pop_head_rev [OF assms(1,3)] assms(2) by (auto simp: pop_work_def)

lemma pop_work_nil:
  assumes "q_list (kq_q (ks_q s)) = []" and "unlocked (kq_q_lock (ks_q s))"
  shows "pop_work c s = Some (Noneidx, s\<lparr>ks_q := (ks_q s)\<lparr>kq_q_lock := free_lock\<rparr>\<rparr>)"
  using assms by (simp add: pop_work_def pop_empty)

lemma run_works_all:
  assumes run: "neutral_k run g"
    and "q_wf (kq_q (ks_q s))" and "unlocked (kq_q_lock (ks_q s))"
    and "served (ks_works s) (x # rev (q_list (kq_q (ks_q s))))" and "rev (q_list (kq_q (ks_q s))) = xs"
  shows "\<exists>q'. q_wf q' \<and> q_list q' = [] \<and> run_works run c x s =
    Some (s\<lparr>ks_q := (ks_q s)\<lparr>kq_q := q', kq_q_lock := free_lock\<rparr>,
            ks_works := ks_works s |` (- set (x # xs)),
            ks_world := fold (effect g (ks_works s)) (x # xs) (ks_world s)\<rparr>)"
  using assms(2-)
proof (induction xs arbitrary: x s)
  case Nil
  then obtain w where w: "x \<noteq> Noneidx" "ks_works s x = Some w" "q_list (kq_q (ks_q s)) = []"
    by (auto simp: served_def)
  let ?t = "s\<lparr>ks_world := g (wk_job_fn w) (wk_job w) (ks_world s), ks_works := (ks_works s)(x := None)\<rparr>"
  have "pop_work c ?t = Some (Noneidx, ?t\<lparr>ks_q := (ks_q ?t)\<lparr>kq_q_lock := free_lock\<rparr>\<rparr>)"
    using Nil.prems(2) w(3) by (intro pop_work_nil) simp_all
  then have "run_works run c x s = Some (?t\<lparr>ks_q := (ks_q ?t)\<lparr>kq_q_lock := free_lock\<rparr>\<rparr>)"
    using w run by (subst run_works.simps) (simp add: neutral_k_def run_works.simps [of run c Noneidx])
  then show ?case using w Nil.prems(1)
    by (intro exI [of _ "kq_q (ks_q s)"]) (auto simp: effect_def restrict_map_def fun_eq_iff)
next
  case (Cons y ys)
  then obtain w where w: "x \<noteq> Noneidx" "ks_works s x = Some w" by (auto simp: served_def)
  define t where "t = s\<lparr>ks_world := g (wk_job_fn w) (wk_job w) (ks_world s), ks_works := (ks_works s)(x := None)\<rparr>"
  have t: "ks_q t = ks_q s" "ks_works t = (ks_works s)(x := None)"
    "ks_world t = effect g (ks_works s) x (ks_world s)" by (simp_all add: t_def effect_def w)
  have "\<exists>q1. pop_work c t = Some (y, t\<lparr>ks_q := (ks_q t)\<lparr>kq_q := q1, kq_q_lock := free_lock\<rparr>\<rparr>) \<and>
    rev (q_list q1) = ys \<and> q_wf q1"
    by (rule pop_work_cons) (use Cons.prems t in simp_all)
  then obtain q1 where q1:
    "pop_work c t = Some (y, t\<lparr>ks_q := (ks_q t)\<lparr>kq_q := q1, kq_q_lock := free_lock\<rparr>\<rparr>)"
    "rev (q_list q1) = ys" "q_wf q1" by blast
  define u where "u = t\<lparr>ks_q := (ks_q t)\<lparr>kq_q := q1, kq_q_lock := free_lock\<rparr>\<rparr>"
  have u: "kq_q (ks_q u) = q1" "kq_q_lock (ks_q u) = free_lock" "ks_works u = (ks_works s)(x := None)"
    "ks_world u = effect g (ks_works s) x (ks_world s)" by (simp_all add: u_def t)
  have "run_works run c x s = run_works run c y u"
    using w run q1(1) by (subst run_works.simps) (simp add: neutral_k_def t_def [symmetric] u_def)
  moreover have "q_wf (kq_q (ks_q u))" "unlocked (kq_q_lock (ks_q u))" "rev (q_list (kq_q (ks_q u))) = ys"
    "served (ks_works u) (y # rev (q_list (kq_q (ks_q u))))"
    using Cons.prems(3,4) q1 by (auto simp: served_def u)
  note Cons.IH [OF this(1,2,4,3)]
  ultimately obtain q' where q': "q_wf q'" "q_list q' = []" "run_works run c x s =
    Some (u\<lparr>ks_q := (ks_q u)\<lparr>kq_q := q', kq_q_lock := free_lock\<rparr>,
            ks_works := ks_works u |` (- set (y # ys)),
            ks_world := fold (effect g (ks_works u)) (y # ys) (ks_world u)\<rparr>)"
    by metis
  have "fold (effect g (ks_works u)) (y # ys) (ks_world u) = fold (effect g (ks_works s)) (y # ys) (ks_world u)"
    by (rule fold_effect_cong) (use Cons.prems(3,4) in \<open>auto simp: served_def u\<close>)
  then have "fold (effect g (ks_works u)) (y # ys) (ks_world u) = fold (effect g (ks_works s)) (x # y # ys) (ks_world s)"
    by (simp add: u)
  moreover have "ks_works u |` (- set (y # ys)) = ks_works s |` (- set (x # y # ys))"
    by (auto simp: u restrict_map_def fun_eq_iff)
  ultimately show ?case using q' by (intro exI [of _ q']) (simp add: u_def t_def)
qed

text \<open>The reference behaviour of a signal: serve from the front while the condition holds.\<close>

fun serve :: "('w \<Rightarrow> bool \<times> 'w) \<Rightarrow> (u64 \<Rightarrow> 'w \<Rightarrow> 'w) \<Rightarrow> u64 list \<Rightarrow> 'w \<Rightarrow> u64 list \<times> 'w" where
  "serve cond f [] w = ([], w)"
| "serve cond f (x # xs) w =
     (let (b, w) = cond w in if b then serve cond f xs (f x w) else (x # xs, w))"

lemma signal_loop_serve:
  assumes run: "neutral_w run g"
    and "q_wf (wq_q (ws_q s))" and "served (ws_works s) (rev (q_list (wq_q (ws_q s))))"
    and "rev (q_list (wq_q (ws_q s))) = xs"
    and "serve (cond (wq_cond_fn (ws_q s)) (wq_cond_arg (ws_q s))) (effect g (ws_works s)) xs (ws_world s) = (ys, w)"
  shows "\<exists>q'. q_wf q' \<and> rev (q_list q') = ys \<and>
    signal_loop run cond c s = Some (s\<lparr>ws_q := (ws_q s)\<lparr>wq_q := q', wq_lock := free_lock\<rparr>, ws_world := w\<rparr>)"
  using assms(2-)
proof (induction xs arbitrary: s)
  case Nil
  then have "q_list (wq_q (ws_q s)) = []" by simp
  then show ?case using Nil
    by (subst signal_loop.simps) (auto simp: wait_unlock_def intro!: exI [of _ "wq_q (ws_q s)"])
next
  case (Cons x xs)
  obtain b w1 where cw: "cond (wq_cond_fn (ws_q s)) (wq_cond_arg (ws_q s)) (ws_world s) = (b, w1)" by fastforce
  then have cc: "check_cond cond s = (b, s\<lparr>ws_world := w1\<rparr>)" by (simp add: check_cond_def)
  have ne: "xq_count (wq_q (ws_q s)) \<noteq> 0" using Cons.prems(3) by (metis list.distinct(1) q_list_Nil rev.simps(1))
  show ?case
  proof (cases b)
    case False
    with Cons.prems cw have "ys = x # xs" "w = w1" by simp_all
    then show ?thesis using False cc ne Cons.prems(1,3)
      by (subst signal_loop.simps) (auto simp: wait_unlock_def intro!: exI [of _ "wq_q (ws_q s)"])
  next
    case True
    from pop_head_rev [OF Cons.prems(1,3)] obtain q1 where
      q1: "raw_xq_pop_head (wq_q (ws_q s)) = (x, q1)" "rev (q_list q1) = xs" "q_wf q1" by blast
    from Cons.prems(2,3) obtain wk where wk: "x \<noteq> Noneidx" "ws_works s x = Some wk" by (auto simp: served_def)
    define t where "t = s\<lparr>ws_world := effect g (ws_works s) x w1,
      ws_q := (ws_q s)\<lparr>wq_q := q1, wq_lock := \<lparr>lk_owner = caller_word c, lk_pc = c_pc c\<rparr>\<rparr>\<rparr>"
    let ?v = "wait_unlock (s\<lparr>ws_world := w1, ws_q := (ws_q s)\<lparr>wq_q := q1\<rparr>\<rparr>)"
    have call: "call_work run x ?v = Some (?v\<lparr>ws_world := effect g (ws_works s) x w1\<rparr>)"
      using run wk by (simp add: call_work_def neutral_w_def wait_unlock_def effect_def)
    have "wait_lock c (?v\<lparr>ws_world := effect g (ws_works s) x w1\<rparr>) = Some (True, t)"
      by (simp add: wait_lock_def wait_unlock_def t_def xlock_try_lock_def free_lock_def Let_def)
    then have step: "signal_loop run cond c s = signal_loop run cond c t"
      using True cc ne q1(1) wk(1) call by (subst signal_loop.simps) (simp add: Let_def)
    have "q_wf (wq_q (ws_q t))" "served (ws_works t) (rev (q_list (wq_q (ws_q t))))"
      "rev (q_list (wq_q (ws_q t))) = xs"
      "serve (cond (wq_cond_fn (ws_q t)) (wq_cond_arg (ws_q t))) (effect g (ws_works t)) xs (ws_world t) = (ys, w)"
      using Cons.prems True cw q1 by (auto simp: t_def served_def)
    from Cons.IH [OF this] show ?thesis unfolding step by (simp add: t_def)
  qed
qed

section \<open>Properties\<close>

text \<open>
  Enqueueing work: while there is room the item is added at the tail; a full queue is
  doubled and the item added at its tail, but the items that were queued come out of the
  doubling in reversed order; when memory for the doubling is missing the answer is an error
  and the queue is as before, while the work item stays allocated.
\<close>

theorem xworkq_enqueue_spec:
  assumes "q_wf q" and "unlocked (kq_q_lock wq)" and "kq_q wq = q" and "w \<noteq> Noneidx" and "q_cap q < 2 ^ 30"
    and "\<forall>mem. tab (q_size q * 2) = Some mem \<longrightarrow> 2 * q_cap q \<le> length mem"
  shows "\<exists>r q'. xworkq_enqueue c new tab (Some w) f j \<lparr>ks_q = wq, ks_works = M, ks_world = v\<rparr> =
      Some (r, \<lparr>ks_q = wq\<lparr>kq_q := q', kq_q_lock := free_lock\<rparr>,
                ks_works = M(w \<mapsto> \<lparr>wk_job = j, wk_job_fn = f\<rparr>), ks_world = v\<rparr>) \<and> q_wf q' \<and>
    (if q_len q < q_cap q then r = 0 \<and> q_list q' = w # q_list q \<and> q_cap q' = q_cap q
     else if new = None \<or> tab (q_size q * 2) = None then r = -1 \<and> q' = q
     else r = 0 \<and> q_list q' = w # rev (q_list q) \<and> q_cap q' = 2 * q_cap q)"
proof -
  have sum: "xworkq_enqueue c new tab (Some w) f j \<lparr>ks_q = wq, ks_works = M, ks_world = v\<rparr> =
      Some (if fst e = Noneidx then -1 else 0, \<lparr>ks_q = wq\<lparr>kq_q := snd e, kq_q_lock := free_lock\<rparr>,
                ks_works = M(w \<mapsto> \<lparr>wk_job = j, wk_job_fn = f\<rparr>), ks_world = v\<rparr>)"
    if "e = enqueue_grow new tab w q" for e
    using that assms(2,3) by (simp add: xworkq_enqueue_def raw_xworkq_enqueue_def split_beta Let_def)
  have full: "q_len q = q_cap q" if "\<not> q_len q < q_cap q" using that q_wf_len [OF assms(1)] by simp
  consider "q_len q < q_cap q" | "\<not> q_len q < q_cap q" "new = None \<or> tab (q_size q * 2) = None"
    | n mem where "\<not> q_len q < q_cap q" "new = Some n" "tab (q_size q * 2) = Some mem" by fastforce
  then show ?thesis
  proof cases
    case 1
    from enqueue_room [OF assms(1) 1 assms(4), of new tab] sum assms(4) 1 show ?thesis by fastforce
  next
    case 2
    then have "enqueue_grow new tab w q = (Noneidx, q)"
      using enqueue_no_memory assms(1) full by blast
    with sum assms(1) 2 show ?thesis by fastforce
  next
    case 3
    have "2 * q_cap q \<le> length mem" using assms(6) 3(3) by blast
    from enqueue_double [where tab = tab and new = n, OF assms(1) full [OF 3(1)] assms(4,5) 3(3) this]
      assms(4) sum 3 show ?thesis by fastforce
  qed
qed

text \<open>
  The demonstration: jobs write their argument into a trace; three queued items.
\<close>

definition demo_jobs :: "u64 \<Rightarrow> u64 \<Rightarrow> u64 list \<Rightarrow> u64 list" where
  "demo_jobs f j w = w @ [f + j]"

definition demo_wq :: xworkq where
  "demo_wq = \<lparr>kq_q_lock = free_lock, kq_flags = 0, kq_q = demo_q, kq_lock = Some free_lock\<rparr>"

definition demo_works :: "u64 \<Rightarrow> work option" where
  "demo_works = [11 \<mapsto> \<lparr>wk_job = 1, wk_job_fn = 100\<rparr>, 14 \<mapsto> \<lparr>wk_job = 2, wk_job_fn = 200\<rparr>]"

theorem xworkq_enqueue_spec_witness:
  "\<exists>q'. xworkq_enqueue (demo_caller 1) None (\<lambda>_. None) (Some 5) 300 3
     \<lparr>ks_q = demo_wq, ks_works = demo_works, ks_world = ()\<rparr> =
       Some (0, \<lparr>ks_q = demo_wq\<lparr>kq_q := q', kq_q_lock := free_lock\<rparr>,
         ks_works = demo_works(5 \<mapsto> \<lparr>wk_job = 3, wk_job_fn = 300\<rparr>), ks_world = ()\<rparr>) \<and> q_list q' = [5, 14, 11]"
  using xworkq_enqueue_spec [of demo_q demo_wq 5 "\<lambda>_. None" "demo_caller 1" None 300 3 demo_works "()"]
    demo_q_wf demo_q_list by (auto simp: demo_wq_def)

text \<open>
  C21. Signalling a work queue with free locks, whose jobs leave the queue alone: the call
  returns, and has run every queued job exactly once, in queue order, freed their work
  items and no others, and left the queue empty and all locks free.
\<close>

theorem xworkq_signal_runs_all:
  assumes "neutral_k run g" and "q_wf (kq_q (ks_q s))" and "unlocked (kq_q_lock (ks_q s))"
    and "\<forall>l. kq_lock (ks_q s) = Some l \<longrightarrow> l = free_lock"
    and "served (ks_works s) (rev (q_list (kq_q (ks_q s))))"
  shows "\<exists>s'. xworkq_signal run c s = Some s' \<and>
    ks_world s' = fold (effect g (ks_works s)) (rev (q_list (kq_q (ks_q s)))) (ks_world s) \<and>
    ks_works s' = ks_works s |` (- set (q_list (kq_q (ks_q s)))) \<and>
    q_list (kq_q (ks_q s')) = [] \<and> q_wf (kq_q (ks_q s')) \<and>
    unlocked (kq_q_lock (ks_q s')) \<and> kq_lock (ks_q s') = kq_lock (ks_q s)"
proof (cases "rev (q_list (kq_q (ks_q s)))")
  case Nil
  then have "q_list (kq_q (ks_q s)) = []" by simp
  then show ?thesis using assms by (subst xworkq_signal.simps) (auto simp: restrict_map_def)
next
  case (Cons x xs)
  then have ne: "xq_count (kq_q (ks_q s)) \<noteq> 0" by (metis list.distinct(1) q_list_Nil rev.simps(1))
  define t where "t = snd (try_outer c s)"
  have t: "try_outer c s = (True, t)" "kq_q (ks_q t) = kq_q (ks_q s)" "kq_q_lock (ks_q t) = kq_q_lock (ks_q s)"
    "ks_works t = ks_works s" "ks_world t = ks_world s" "map_option (\<lambda>_. free_lock) (kq_lock (ks_q t)) = kq_lock (ks_q s)"
    using assms(4) by (auto simp: t_def try_outer_def release_outer_def xlock_try_lock_def split: option.split)
  have "\<exists>q1. pop_work c t = Some (x, t\<lparr>ks_q := (ks_q t)\<lparr>kq_q := q1, kq_q_lock := free_lock\<rparr>\<rparr>) \<and>
    rev (q_list q1) = xs \<and> q_wf q1"
    by (rule pop_work_cons) (use assms(2,3) t Cons in simp_all)
  then obtain q1 where q1: "pop_work c t = Some (x, t\<lparr>ks_q := (ks_q t)\<lparr>kq_q := q1, kq_q_lock := free_lock\<rparr>\<rparr>)"
    "rev (q_list q1) = xs" "q_wf q1" by blast
  define u where "u = t\<lparr>ks_q := (ks_q t)\<lparr>kq_q := q1, kq_q_lock := free_lock\<rparr>\<rparr>"
  have u: "q_wf (kq_q (ks_q u))" "unlocked (kq_q_lock (ks_q u))" "rev (q_list (kq_q (ks_q u))) = xs"
    "served (ks_works u) (x # rev (q_list (kq_q (ks_q u))))"
    using q1 assms(5) Cons t by (simp_all add: u_def)
  from run_works_all [OF assms(1) u(1,2,4,3), of c] obtain q2 where q2: "q_wf q2" "q_list q2 = []"
    "run_works run c x u = Some (u\<lparr>ks_q := (ks_q u)\<lparr>kq_q := q2, kq_q_lock := free_lock\<rparr>,
       ks_works := ks_works u |` (- set (x # xs)), ks_world := fold (effect g (ks_works u)) (x # xs) (ks_world u)\<rparr>)"
    by blast
  define v where "v = release_outer (u\<lparr>ks_q := (ks_q u)\<lparr>kq_q := q2, kq_q_lock := free_lock\<rparr>,
       ks_works := ks_works u |` (- set (x # xs)), ks_world := fold (effect g (ks_works u)) (x # xs) (ks_world u)\<rparr>)"
  have "xworkq_signal run c s = xworkq_signal run c v"
    using ne t(1) q1(1) q2(3) by (subst xworkq_signal.simps) (simp add: u_def [symmetric] v_def)
  moreover have v: "kq_q (ks_q v) = q2" "kq_q_lock (ks_q v) = free_lock" "kq_lock (ks_q v) = map_option (\<lambda>_. free_lock) (kq_lock (ks_q t))"
    "ks_works v = ks_works s |` (- set (x # xs))" "ks_world v = fold (effect g (ks_works s)) (x # xs) (ks_world s)"
    using t by (auto simp: v_def release_outer_def u_def split: option.splits)
  ultimately have "xworkq_signal run c s = Some v"
    using q2(2) by (subst (asm) (2) xworkq_signal.simps) simp
  moreover have "set (q_list (kq_q (ks_q s))) = set (x # xs)" using arg_cong [OF Cons, of set] by simp
  ultimately show ?thesis using v q2 t(6) by (intro exI [of _ v]) (simp add: Cons)
qed

theorem xworkq_signal_runs_all_witness:
  "\<exists>s'. xworkq_signal (\<lambda>f j s. Some (s\<lparr>ks_world := demo_jobs f j (ks_world s)\<rparr>)) (demo_caller 1)
     \<lparr>ks_q = demo_wq, ks_works = demo_works, ks_world = []\<rparr> = Some s' \<and> ks_world s' = [101, 202] \<and>
     q_list (kq_q (ks_q s')) = []"
  using xworkq_signal_runs_all [of "\<lambda>f j s. Some (s\<lparr>ks_world := demo_jobs f j (ks_world s)\<rparr>)" demo_jobs
      "\<lparr>ks_q = demo_wq, ks_works = demo_works, ks_world = []\<rparr>" "demo_caller 1"] demo_q_wf demo_q_list
  by (auto simp: demo_wq_def neutral_k_def served_def demo_works_def effect_def demo_jobs_def)

text \<open>
  C22. Signalling a wait queue whose lock is free: the jobs are run from the front of the queue,
  each after the condition was found to hold, until it does not hold or the queue is empty;
  the rest stays queued in order and the lock is free again. The call returns.
\<close>

theorem xwaitq_signal_serves:
  assumes "neutral_w run g" and "q_wf (wq_q (ws_q s))" and "wq_lock (ws_q s) = free_lock"
    and "served (ws_works s) (rev (q_list (wq_q (ws_q s))))"
  shows "\<exists>q'. q_wf q' \<and> (let (ys, w) = serve (cond (wq_cond_fn (ws_q s)) (wq_cond_arg (ws_q s)))
        (effect g (ws_works s)) (rev (q_list (wq_q (ws_q s)))) (ws_world s)
      in rev (q_list q') = ys \<and> xwaitq_signal run cond c s =
        Some (s\<lparr>ws_q := (ws_q s)\<lparr>wq_q := q', wq_lock := free_lock\<rparr>, ws_world := w\<rparr>))"
proof (cases "xq_count (wq_q (ws_q s)) = 0")
  case True
  then have "q_list (wq_q (ws_q s)) = []" by simp
  moreover have "s\<lparr>ws_q := (ws_q s)\<lparr>wq_q := wq_q (ws_q s), wq_lock := free_lock\<rparr>, ws_world := ws_world s\<rparr> = s"
    using assms(3) by simp
  ultimately show ?thesis using True assms(2)
    by (intro exI [of _ "wq_q (ws_q s)"]) (simp add: xwaitq_signal_def)
next
  case False
  let ?l = "\<lparr>lk_owner = caller_word c, lk_pc = c_pc c\<rparr>" and ?xs = "rev (q_list (wq_q (ws_q s)))"
  define t where "t = s\<lparr>ws_q := (ws_q s)\<lparr>wq_lock := ?l\<rparr>\<rparr>"
  have "wait_lock c s = Some (True, t)"
    using assms(3) by (simp add: wait_lock_def xlock_try_lock_def free_lock_def Let_def t_def)
  then have sig: "xwaitq_signal run cond c s = signal_loop run cond c t"
    using False by (simp add: xwaitq_signal_def)
  obtain ys w where sv: "serve (cond (wq_cond_fn (ws_q t)) (wq_cond_arg (ws_q t))) (effect g (ws_works t)) ?xs
    (ws_world t) = (ys, w)" by fastforce
  have "\<exists>q'. q_wf q' \<and> rev (q_list q') = ys \<and>
    signal_loop run cond c t = Some (t\<lparr>ws_q := (ws_q t)\<lparr>wq_q := q', wq_lock := free_lock\<rparr>, ws_world := w\<rparr>)"
    by (rule signal_loop_serve [where cond = cond, OF assms(1) _ _ _ sv]) (use assms(2,4) in \<open>simp_all add: t_def\<close>)
  then show ?thesis unfolding sig using sv by (auto simp: t_def)
qed

theorem xwaitq_signal_serves_witness:
  "\<exists>q'. rev (q_list q') = [14] \<and> xwaitq_signal (\<lambda>f j s. Some (s\<lparr>ws_world := demo_jobs f j (ws_world s)\<rparr>))
      (\<lambda>f a w. (length w < 1, w)) (demo_caller 1)
      \<lparr>ws_q = \<lparr>wq_cond_fn = 0, wq_cond_arg = 0, wq_flags = 1, wq_q = demo_q, wq_lock = free_lock\<rparr>,
        ws_works = demo_works, ws_world = []\<rparr> =
      Some \<lparr>ws_q = \<lparr>wq_cond_fn = 0, wq_cond_arg = 0, wq_flags = 1, wq_q = q', wq_lock = free_lock\<rparr>,
        ws_works = demo_works, ws_world = [101]\<rparr>"
  using xwaitq_signal_serves [of "\<lambda>f j s. Some (s\<lparr>ws_world := demo_jobs f j (ws_world s)\<rparr>)" demo_jobs
      "\<lparr>ws_q = \<lparr>wq_cond_fn = 0, wq_cond_arg = 0, wq_flags = 1, wq_q = demo_q, wq_lock = free_lock\<rparr>,
        ws_works = demo_works, ws_world = []\<rparr>" "\<lambda>f a w. (length w < 1, w)" "demo_caller 1"] demo_q_wf demo_q_list
  by (auto simp: neutral_w_def served_def demo_works_def effect_def demo_jobs_def)

end
