(* ===== verification/Xcache.thy ===== *)
theory Xcache
  imports Xq Xhash Xbinheap "HOL-Library.Monad_Syntax"
begin

text \<open>
  The cache of \<^verbatim>\<open>xtypes/xcache.c\<close>, on top of \<^verbatim>\<open>xhash\<close> (the tables of the active and
  of the evicted entries), \<^verbatim>\<open>xq\<close> (the free nodes) and, for the second of its two ways to
  find the least recently used entry, \<^verbatim>\<open>xbinheap\<close>.

  The strings are a memory \<open>cc_mem\<close> from addresses to bytes, in which \<open>cc_name_at i\<close> is
  the address of the \<^verbatim>\<open>name\<close> field of node \<open>i\<close>; the tables store these addresses as keys.
  The hooks of \<^verbatim>\<open>struct xcache_ops\<close> are the client's code and may change the whole
  state, in which \<open>cc_world\<close> is the client's part. \<open>mem k\<close> is the memory that the rebuilding
  of a table of \<open>2 ^ k\<close> slots gets. \<open>None\<close> is a call that does not return.
\<close>

section \<open>Data\<close>

definition XCACHE_LRU_ARRAY :: u32 where "XCACHE_LRU_ARRAY = 1"
definition XCACHE_LRU_HEAP :: u32 where "XCACHE_LRU_HEAP = 2"
definition XCACHE_USE_RMTABLE :: u32 where "XCACHE_USE_RMTABLE = 4"
definition XCACHE_LRU_MAX :: u64 where "XCACHE_LRU_MAX = - 1"
definition XSEG_MAX_TARGETLEN :: nat where "XSEG_MAX_TARGETLEN = 256"

abbreviation (input) NoEntry :: u64 where "NoEntry \<equiv> Noneidx"

definition NODE_ACTIVE :: u32 where "NODE_ACTIVE = 0"
definition NODE_EVICTED :: u32 where "NODE_EVICTED = 1"

record xcache_entry =
  ce_lock :: xlock
  ce_ref :: u32
  ce_state :: u32
  ce_h :: "nat option"
  ce_priv :: u64

record 'w xcache =
  cc_lock :: xlock
  cc_size :: u32
  cc_nr_nodes :: u32
  cc_free_nodes :: xq
  cc_entries :: xhash
  cc_rm_entries :: xhash
  cc_rm_lock :: xlock
  cc_nodes :: "xcache_entry list"
  cc_time :: u64
  cc_times :: "u64 list"
  cc_binheap :: xbinheap
  cc_flags :: u32
  cc_priv :: u64
  cc_mem :: strings
  cc_name_at :: "nat \<Rightarrow> u64"
  cc_world :: 'w

text \<open>A hook gets the cache's and the entry's private pointer; \<open>None\<close> is a null pointer.\<close>

type_synonym ('w, 'r) hook = "(u64 \<Rightarrow> u64 \<Rightarrow> 'w xcache \<Rightarrow> ('r \<times> 'w xcache) option) option"

record 'w xcache_ops =
  on_init :: "('w, int) hook"
  on_evict :: "('w, int) hook"
  on_finalize :: "('w, int) hook"
  on_reinsert :: "('w, unit) hook"
  on_put :: "('w, unit) hook"
  on_free :: "('w, unit) hook"
  on_node_init :: "('w, u64) hook"

definition has_flag :: "u32 \<Rightarrow> 'w xcache \<Rightarrow> bool" where
  "has_flag fl c \<longleftrightarrow> cc_flags c AND fl \<noteq> 0"

definition node :: "'w xcache \<Rightarrow> u64 \<Rightarrow> xcache_entry" where
  "node c idx = cc_nodes c ! unat idx"

definition upd_entry :: "u64 \<Rightarrow> (xcache_entry \<Rightarrow> xcache_entry) \<Rightarrow> 'w xcache \<Rightarrow> 'w xcache" where
  "upd_entry idx f c = c\<lparr>cc_nodes := (cc_nodes c)[unat idx := f (node c idx)]\<rparr>"

definition name_of :: "'w xcache \<Rightarrow> u64 \<Rightarrow> u64" where
  "name_of c idx = cc_name_at c (unat idx)"

definition call_hook :: "('w, 'r) hook \<Rightarrow> 'r \<Rightarrow> u64 \<Rightarrow> 'w xcache \<Rightarrow> ('r \<times> 'w xcache) option" where
  "call_hook hk dflt idx c =
     (case hk of None \<Rightarrow> Some (dflt, c) | Some f \<Rightarrow> f (cc_priv c) (ce_priv (node c idx)) c)"

section \<open>Table helpers\<close>

definition table_lookup :: "strings \<Rightarrow> xhash \<Rightarrow> u64 \<Rightarrow> u64 option" where
  "table_lookup str table name =
     do {
       (r, xqi) \<leftarrow> xhash_lookup str table name;
       Some (if r < 0 then NoEntry else case xqi of None \<Rightarrow> Noneidx | Some v \<Rightarrow> v)
     }"

definition table_insert ::
  "(nat \<Rightarrow> u64 list option) \<Rightarrow> 'w xcache \<Rightarrow> u64 \<Rightarrow> xhash \<Rightarrow> (int \<times> xhash) option" where
  "table_insert mem c idx table =
     do {
       (r, table) \<leftarrow> xhash_insert (cc_mem c) table (name_of c idx) idx;
       if r = - XHASH_ERESIZE then do {
         new \<leftarrow> xhash_resize (cc_mem c) table (xh_size_shift table) (xh_limit table) (mem (xh_size_shift table));
         case new of None \<Rightarrow> Some (-1, table)
         | Some table \<Rightarrow> do {
             (r, table) \<leftarrow> xhash_insert (cc_mem c) table (name_of c idx) idx;
             Some (if r = - XHASH_ERESIZE then -1 else r, table) }
       } else Some (r, table)
     }"

definition table_remove :: "strings \<Rightarrow> xhash \<Rightarrow> u64 \<Rightarrow> (int \<times> xhash) option" where
  "table_remove str table name = xhash_delete str table name"

section \<open>Free nodes\<close>

definition alloc_cache_entry :: "caller \<Rightarrow> 'w xcache \<Rightarrow> (u64 \<times> 'w xcache) option" where
  "alloc_cache_entry cl c =
     do { (idx, q) \<leftarrow> xq_pop_head cl (cc_free_nodes c); Some (idx, c\<lparr>cc_free_nodes := q\<rparr>) }"

definition raw_free_cache_entry :: "caller \<Rightarrow> u64 \<Rightarrow> 'w xcache \<Rightarrow> 'w xcache option" where
  "raw_free_cache_entry cl idx c =
     do { (r, q) \<leftarrow> xq_append_head cl idx (cc_free_nodes c); Some (c\<lparr>cc_free_nodes := q\<rparr>) }"

definition free_cache_entry :: "'w xcache_ops \<Rightarrow> caller \<Rightarrow> u64 \<Rightarrow> 'w xcache \<Rightarrow> 'w xcache option" where
  "free_cache_entry ops cl idx c =
     do {
       c \<leftarrow> raw_free_cache_entry cl idx c;
       (_, c) \<leftarrow> call_hook (on_free ops) () idx c;
       Some c
     }"

definition count_free_nodes :: "'w xcache \<Rightarrow> u64" where
  "count_free_nodes c = xq_count (cc_free_nodes c)"

section \<open>Access times\<close>

definition reset_array_step :: "nat \<Rightarrow> 'w xcache \<Rightarrow> 'w xcache" where
  "reset_array_step i c =
     (if cc_times c ! i \<noteq> XCACHE_LRU_MAX
      then c\<lparr>cc_times := (cc_times c)[i := cc_time c], cc_time := cc_time c + 1\<rparr> else c)"

definition reset_heap_step :: "nat \<Rightarrow> 'w xcache \<Rightarrow> 'w xcache" where
  "reset_heap_step i c =
     (case ce_h (cc_nodes c ! i) of None \<Rightarrow> c
      | Some h \<Rightarrow>
          let time = xbinheap_getkey (cc_binheap c) h in
          if time < cc_time c then c\<lparr>cc_binheap := xbinheap_increasekey (cc_binheap c) h (cc_time c)\<rparr>
          else c\<lparr>cc_binheap := xbinheap_decreasekey (cc_binheap c) h (cc_time c)\<rparr>)"

definition reset_times :: "'w xcache \<Rightarrow> 'w xcache" where
  "reset_times c =
     (if has_flag XCACHE_LRU_ARRAY c then fold reset_array_step [0..<unat (cc_size c)] c
      else if has_flag XCACHE_LRU_HEAP c then fold reset_heap_step [0..<unat (cc_size c)] c
      else c)"

definition update_access_time :: "u64 \<Rightarrow> 'w xcache \<Rightarrow> 'w xcache" where
  "update_access_time idx c =
     (let c = c\<lparr>cc_time := cc_time c + 1\<rparr> in
      if cc_time c = XCACHE_LRU_MAX then reset_times (c\<lparr>cc_time := 0\<rparr>)
      else if has_flag XCACHE_LRU_ARRAY c
      then c\<lparr>cc_times := (cc_times c)[unat idx := cc_time c]\<rparr>
      else if has_flag XCACHE_LRU_HEAP c
      then (case ce_h (node c idx) of
              Some h \<Rightarrow> c\<lparr>cc_binheap := xbinheap_increasekey (cc_binheap c) h (cc_time c)\<rparr>
            | None \<Rightarrow>
                let (h, bh) = xbinheap_insert (cc_binheap c) (cc_time c) idx
                in upd_entry idx (ce_h_update (\<lambda>_. h)) (c\<lparr>cc_binheap := bh\<rparr>))
      else c)"

definition raw_xcache_entry_get :: "u64 \<Rightarrow> 'w xcache \<Rightarrow> 'w xcache" where
  "raw_xcache_entry_get idx c = upd_entry idx (\<lambda>ce. ce\<lparr>ce_ref := ce_ref ce + 1\<rparr>) c"

definition raw_xcache_entry_get_and_update :: "u64 \<Rightarrow> 'w xcache \<Rightarrow> 'w xcache" where
  "raw_xcache_entry_get_and_update idx c = update_access_time idx (raw_xcache_entry_get idx c)"

section \<open>Removal and lookup in the two tables\<close>

definition raw_xcache_remove_entries :: "u64 \<Rightarrow> 'w xcache \<Rightarrow> (int \<times> 'w xcache) option" where
  "raw_xcache_remove_entries h c =
     do {
       (r, t) \<leftarrow> table_remove (cc_mem c) (cc_entries c) (name_of c h);
       let c = c\<lparr>cc_entries := t\<rparr>;
       if r < 0 then Some (r, c)
       else if has_flag XCACHE_LRU_ARRAY c
       then Some (0, c\<lparr>cc_times := (cc_times c)[unat h := XCACHE_LRU_MAX]\<rparr>)
       else if has_flag XCACHE_LRU_HEAP c
       then (case ce_h (node c h) of None \<Rightarrow> Some (0, c)
             | Some bh \<Rightarrow>
                 let c = c\<lparr>cc_binheap := xbinheap_increasekey (cc_binheap c) bh XCACHE_LRU_MAX\<rparr>;
                     c = c\<lparr>cc_binheap := snd (xbinheap_extract (cc_binheap c))\<rparr>
                 in Some (0, upd_entry h (ce_h_update (\<lambda>_. None)) c))
       else Some (0, c)
     }"

definition raw_xcache_remove_rm :: "u64 \<Rightarrow> 'w xcache \<Rightarrow> (int \<times> 'w xcache) option" where
  "raw_xcache_remove_rm h c =
     do {
       (r, t) \<leftarrow> table_remove (cc_mem c) (cc_rm_entries c) (name_of c h);
       Some (r, c\<lparr>cc_rm_entries := t\<rparr>)
     }"

definition raw_xcache_lookup_rm :: "u64 \<Rightarrow> 'w xcache \<Rightarrow> u64 option" where
  "raw_xcache_lookup_rm name c = table_lookup (cc_mem c) (cc_rm_entries c) name"

definition raw_xcache_lookup_entries :: "u64 \<Rightarrow> 'w xcache \<Rightarrow> u64 option" where
  "raw_xcache_lookup_entries name c = table_lookup (cc_mem c) (cc_entries c) name"

definition raw_xcache_lookup_and_get_entries :: "u64 \<Rightarrow> 'w xcache \<Rightarrow> (u64 \<times> 'w xcache) option" where
  "raw_xcache_lookup_and_get_entries name c =
     do {
       h \<leftarrow> raw_xcache_lookup_entries name c;
       Some (h, if h \<noteq> NoEntry then raw_xcache_entry_get_and_update h c else c)
     }"

definition raw_xcache_insert_rm ::
  "(nat \<Rightarrow> u64 list option) \<Rightarrow> u64 \<Rightarrow> 'w xcache \<Rightarrow> (int \<times> 'w xcache) option" where
  "raw_xcache_insert_rm mem h c =
     do { (r, t) \<leftarrow> table_insert mem c h (cc_rm_entries c); Some (r, c\<lparr>cc_rm_entries := t\<rparr>) }"

definition raw_xcache_insert_entries ::
  "(nat \<Rightarrow> u64 list option) \<Rightarrow> u64 \<Rightarrow> 'w xcache \<Rightarrow> (int \<times> 'w xcache) option" where
  "raw_xcache_insert_entries mem h c =
     do { (r, t) \<leftarrow> table_insert mem c h (cc_entries c); Some (r, c\<lparr>cc_entries := t\<rparr>) }"

section \<open>References\<close>

definition rm_acquire :: "caller \<Rightarrow> 'w xcache \<Rightarrow> 'w xcache option" where
  "rm_acquire cl c = do { l \<leftarrow> xlock_acquire cl (cc_rm_lock c); Some (c\<lparr>cc_rm_lock := l\<rparr>) }"

definition rm_release :: "'w xcache \<Rightarrow> 'w xcache" where
  "rm_release c = c\<lparr>cc_rm_lock := xlock_release (cc_rm_lock c)\<rparr>"

definition put_ref :: "u64 \<Rightarrow> 'w xcache \<Rightarrow> 'w xcache" where
  "put_ref idx c = upd_entry idx (\<lambda>ce. ce\<lparr>ce_ref := ce_ref ce - 1\<rparr>) c"

text \<open>The end of a last put: the hook, and the node goes back to the free queue.\<close>

definition entry_put_last :: "'w xcache_ops \<Rightarrow> caller \<Rightarrow> u64 \<Rightarrow> 'w xcache \<Rightarrow> 'w xcache option" where
  "entry_put_last ops cl idx c =
     do { (_, c) \<leftarrow> call_hook (on_put ops) () idx c; free_cache_entry ops cl idx c }"

definition xcache_entry_put :: "'w xcache_ops \<Rightarrow> caller \<Rightarrow> u64 \<Rightarrow> 'w xcache \<Rightarrow> 'w xcache option" where
  "xcache_entry_put ops cl idx c =
     (if has_flag XCACHE_USE_RMTABLE c then do {
        c \<leftarrow> rm_acquire cl c;
        let c = put_ref idx c;
        if ce_ref (node c idx) > 0 then Some (rm_release c)
        else do {
          (_, c) \<leftarrow> call_hook (on_finalize ops) 0 idx c;
          if ce_ref (node c idx) \<noteq> 0 then Some (rm_release c)
          else do {
            (r, c) \<leftarrow> raw_xcache_remove_rm idx c;
            if r < 0 then Some (rm_release c)
            else entry_put_last ops cl idx (rm_release c) } }
      } else
        let c = put_ref idx c in
        if ce_ref (node c idx) > 0 then Some c else entry_put_last ops cl idx c)"

text \<open>\<^verbatim>\<open>strncpy\<close> and the final zero: at most \<^verbatim>\<open>XSEG_MAX_TARGETLEN\<close> bytes.\<close>

definition xcache_entry_init :: "'w xcache_ops \<Rightarrow> u64 \<Rightarrow> u64 \<Rightarrow> 'w xcache \<Rightarrow> (int \<times> 'w xcache) option" where
  "xcache_entry_init ops idx name c =
     (let c = upd_entry idx (\<lambda>ce. ce\<lparr>ce_lock := xlock_release (ce_lock ce), ce_ref := 1\<rparr>) c;
          c = c\<lparr>cc_mem := (cc_mem c)(name_of c idx := take XSEG_MAX_TARGETLEN (cc_mem c name))\<rparr>;
          c = upd_entry idx (\<lambda>ce. ce\<lparr>ce_h := None, ce_state := NODE_ACTIVE\<rparr>) c
      in call_hook (on_init ops) 0 idx c)"

section \<open>Eviction\<close>

definition lru_step :: "'w xcache \<Rightarrow> nat \<Rightarrow> u64 \<times> u64 \<Rightarrow> u64 \<times> u64" where
  "lru_step c i ml =
     (case ml of (mn, lru) \<Rightarrow> if mn > cc_times c ! i then (cc_times c ! i, of_nat i) else (mn, lru))"

definition raw_xcache_lru :: "'w xcache \<Rightarrow> u64 \<times> 'w xcache" where
  "raw_xcache_lru c =
     (if has_flag XCACHE_LRU_ARRAY c
      then (snd (fold (lru_step c) [0..<unat (cc_nr_nodes c)] (- 2, Noneidx)), c)
      else if has_flag XCACHE_LRU_HEAP c
      then let (lru, bh) = xbinheap_extract (cc_binheap c); c = c\<lparr>cc_binheap := bh\<rparr> in
        if lru = NoNode then (Noneidx, c) else (lru, upd_entry lru (ce_h_update (\<lambda>_. None)) c)
      else (Noneidx, c))"

definition raw_xcache_evict ::
  "(nat \<Rightarrow> u64 list option) \<Rightarrow> caller \<Rightarrow> u64 \<Rightarrow> 'w xcache \<Rightarrow> (int \<times> 'w xcache) option" where
  "raw_xcache_evict mem cl h c =
     do {
       (r, c) \<leftarrow> raw_xcache_remove_entries h c;
       if r < 0 then Some (-1, c)
       else if \<not> has_flag XCACHE_USE_RMTABLE c then Some (0, c)
       else do {
         let c = upd_entry h (ce_state_update (\<lambda>_. NODE_EVICTED)) c;
         c \<leftarrow> rm_acquire cl c;
         (r, c) \<leftarrow> raw_xcache_insert_rm mem h c;
         let c = rm_release c;
         Some (if r < 0 then (-1, upd_entry h (ce_state_update (\<lambda>_. NODE_ACTIVE)) c) else (0, c)) }
     }"

definition raw_xcache_evict_lru ::
  "(nat \<Rightarrow> u64 list option) \<Rightarrow> caller \<Rightarrow> 'w xcache \<Rightarrow> (u64 \<times> 'w xcache) option" where
  "raw_xcache_evict_lru mem cl c =
     (let (lru, c) = raw_xcache_lru c in
      if lru = NoEntry then Some (NoEntry, c)
      else do { (r, c) \<leftarrow> raw_xcache_evict mem cl lru c; Some (if r < 0 then NoEntry else lru, c) })"

definition raw_xcache_remove :: "u64 \<Rightarrow> 'w xcache \<Rightarrow> (int \<times> 'w xcache) option" where
  "raw_xcache_remove h c = raw_xcache_remove_entries h c"

section \<open>Insertion\<close>

text \<open>
  The part from the label \<^verbatim>\<open>insert\<close>; the result is the handler and the evicted handler.
\<close>

definition insert_evicting ::
  "(nat \<Rightarrow> u64 list option) \<Rightarrow> caller \<Rightarrow> u64 \<Rightarrow> 'w xcache \<Rightarrow> (u64 \<times> u64 \<times> 'w xcache) option" where
  "insert_evicting mem cl h c =
     do {
       (r, c) \<leftarrow> raw_xcache_insert_entries mem h c;
       if r = - XHASH_ENOSPC then do {
         (lru, c) \<leftarrow> raw_xcache_evict_lru mem cl c;
         if lru = NoEntry then Some (NoEntry, NoEntry, c)
         else do {
           (r, c) \<leftarrow> raw_xcache_insert_entries mem h c;
           if r < 0 then Some (NoEntry, lru, c)
           else Some (h, lru, raw_xcache_entry_get_and_update h c) }
       } else if r \<ge> 0 then Some (h, NoEntry, raw_xcache_entry_get_and_update h c)
       else Some (NoEntry, NoEntry, c)
     }"

text \<open>The result: the handler, the evicted handler and the re-inserted handler.\<close>

definition raw_xcache_insert ::
  "(nat \<Rightarrow> u64 list option) \<Rightarrow> caller \<Rightarrow> u64 \<Rightarrow> 'w xcache \<Rightarrow> (u64 \<times> u64 \<times> u64 \<times> 'w xcache) option" where
  "raw_xcache_insert mem cl h c =
     do {
       (tmp_h, c) \<leftarrow> raw_xcache_lookup_and_get_entries (name_of c h) c;
       if tmp_h \<noteq> NoEntry then Some (tmp_h, NoEntry, NoEntry, c)
       else if \<not> has_flag XCACHE_USE_RMTABLE c then do {
         (ret, lru, c) \<leftarrow> insert_evicting mem cl h c;
         Some (ret, lru, NoEntry, c) }
       else do {
         c \<leftarrow> rm_acquire cl c;
         tmp_h \<leftarrow> raw_xcache_lookup_rm (name_of c h) c;
         if tmp_h = NoEntry then do {
           (ret, lru, c) \<leftarrow> insert_evicting mem cl h (rm_release c);
           Some (ret, lru, NoEntry, c) }
         else do {
           (r, c) \<leftarrow> raw_xcache_remove_rm tmp_h c;
           if r < 0 then Some (NoEntry, NoEntry, NoEntry, rm_release c)
           else do {
             let c = upd_entry tmp_h (ce_state_update (\<lambda>_. NODE_ACTIVE)) c;
             let c = raw_xcache_entry_get tmp_h c;
             (ret, lru, c) \<leftarrow> insert_evicting mem cl tmp_h (rm_release c);
             Some (ret, lru, tmp_h, c) } } }
     }"

definition with_cc_lock :: "caller \<Rightarrow> ('w xcache \<Rightarrow> ('r \<times> 'w xcache) option) \<Rightarrow> 'w xcache \<Rightarrow> ('r \<times> 'w xcache) option" where
  "with_cc_lock cl f c =
     do {
       l \<leftarrow> xlock_acquire cl (cc_lock c);
       (r, c) \<leftarrow> f (c\<lparr>cc_lock := l\<rparr>);
       Some (r, c\<lparr>cc_lock := xlock_release (cc_lock c)\<rparr>)
     }"

definition xcache_insert ::
  "'w xcache_ops \<Rightarrow> (nat \<Rightarrow> u64 list option) \<Rightarrow> caller \<Rightarrow> u64 \<Rightarrow> 'w xcache \<Rightarrow> (u64 \<times> 'w xcache) option" where
  "xcache_insert ops mem cl h c =
     do {
       ((ret, lru, reinsert_handler), c) \<leftarrow> with_cc_lock cl (\<lambda>c. do {
           (ret, lru, re, c) \<leftarrow> raw_xcache_insert mem cl h c; Some ((ret, lru, re), c) }) c;
       c \<leftarrow> (if lru \<noteq> NoEntry then do {
               (_, c) \<leftarrow> call_hook (on_evict ops) 0 lru c;
               xcache_entry_put ops cl lru c }
             else Some c);
       c \<leftarrow> (if reinsert_handler \<noteq> NoEntry then do {
               (_, c) \<leftarrow> call_hook (on_reinsert ops) () reinsert_handler c; Some c }
             else Some c);
       Some (ret, c)
     }"

definition xcache_lookup :: "caller \<Rightarrow> u64 \<Rightarrow> 'w xcache \<Rightarrow> (u64 \<times> 'w xcache) option" where
  "xcache_lookup cl name c = with_cc_lock cl (raw_xcache_lookup_and_get_entries name) c"

definition xcache_alloc_init ::
  "'w xcache_ops \<Rightarrow> caller \<Rightarrow> u64 \<Rightarrow> 'w xcache \<Rightarrow> (u64 \<times> 'w xcache) option" where
  "xcache_alloc_init ops cl name c =
     do {
       (idx, c) \<leftarrow> alloc_cache_entry cl c;
       if idx = Noneidx then Some (NoEntry, c)
       else do {
         (r, c) \<leftarrow> xcache_entry_init ops idx name c;
         if r < 0 then do { c \<leftarrow> free_cache_entry ops cl idx c; Some (NoEntry, c) }
         else Some (idx, c) }
     }"

definition xcache_remove :: "caller \<Rightarrow> u64 \<Rightarrow> 'w xcache \<Rightarrow> (int \<times> 'w xcache) option" where
  "xcache_remove cl h c = with_cc_lock cl (raw_xcache_remove h) c"

definition xcache_get :: "u64 \<Rightarrow> 'w xcache \<Rightarrow> 'w xcache" where
  "xcache_get h c = raw_xcache_entry_get h c"

definition xcache_put :: "'w xcache_ops \<Rightarrow> caller \<Rightarrow> u64 \<Rightarrow> 'w xcache \<Rightarrow> 'w xcache option" where
  "xcache_put ops cl h c = xcache_entry_put ops cl h c"

definition xcache_invalidate ::
  "'w xcache_ops \<Rightarrow> caller \<Rightarrow> u64 \<Rightarrow> 'w xcache \<Rightarrow> (int \<times> 'w xcache) option" where
  "xcache_invalidate ops cl name c =
     do {
       l \<leftarrow> xlock_acquire cl (cc_lock c);
       let c = c\<lparr>cc_lock := l\<rparr>;
       h \<leftarrow> raw_xcache_lookup_entries name c;
       if h \<noteq> NoEntry then do {
         (r, c) \<leftarrow> raw_xcache_remove_entries h c;
         let c = c\<lparr>cc_lock := xlock_release (cc_lock c)\<rparr>;
         if r \<ge> 0 then do { c \<leftarrow> xcache_put ops cl h c; Some (r, c) } else Some (r, c) }
       else if has_flag XCACHE_USE_RMTABLE c then do {
         c \<leftarrow> rm_acquire cl c;
         let c = c\<lparr>cc_lock := xlock_release (cc_lock c)\<rparr>;
         h \<leftarrow> raw_xcache_lookup_rm name c;
         (r, c) \<leftarrow> (if h \<noteq> NoEntry then raw_xcache_remove_rm h c else Some (0, c));
         Some (r, rm_release c) }
       else Some (0, c\<lparr>cc_lock := xlock_release (cc_lock c)\<rparr>)
     }"

definition xcache_free_new :: "'w xcache_ops \<Rightarrow> caller \<Rightarrow> u64 \<Rightarrow> 'w xcache \<Rightarrow> 'w xcache option" where
  "xcache_free_new ops cl h c = free_cache_entry ops cl h (upd_entry h (ce_ref_update (\<lambda>_. 0)) c)"

definition close_step :: "'w xcache_ops \<Rightarrow> caller \<Rightarrow> nat \<Rightarrow> 'w xcache option \<Rightarrow> 'w xcache option" where
  "close_step ops cl i c =
     do {
       c \<leftarrow> c;
       if ce_ref (cc_nodes c ! i) = 0 then Some c
       else do {
         (_, c) \<leftarrow> xcache_invalidate ops cl (cc_name_at c i) c;
         xcache_entry_put ops cl (of_nat i) c }
     }"

definition xcache_close :: "'w xcache_ops \<Rightarrow> caller \<Rightarrow> 'w xcache \<Rightarrow> 'w xcache option" where
  "xcache_close ops cl c = fold (close_step ops cl) [0..<unat (cc_nr_nodes c)] (Some c)"

definition xcache_free_nodes :: "'w xcache \<Rightarrow> u64" where
  "xcache_free_nodes c = count_free_nodes c"

definition xcache_get_entry :: "'w xcache \<Rightarrow> u64 \<Rightarrow> u64 option" where
  "xcache_get_entry c h = (if h < ucast (cc_nr_nodes c) then Some (ce_priv (node c h)) else None)"

section \<open>Initialisation\<close>

text \<open>What the allocations return, \<open>None\<close> for a null pointer; the contents is arbitrary.\<close>

record cache_mem =
  cm_queue :: "u64 list option"
  cm_entries :: "nat \<Rightarrow> u64 list option"
  cm_rm :: "nat \<Rightarrow> u64 list option"
  cm_nodes :: "xcache_entry list option"
  cm_times :: "u64 list option"
  cm_bh_indexes :: "nat list option"
  cm_bh_nodes :: "xbinheap_node list option"

definition nearest_size :: "u32 \<Rightarrow> u32" where
  "nearest_size xcache_size =
     (let floor_size = shl_int (32 - builtin_clz xcache_size - 1);
          ceil_size = shl_int (32 - builtin_clz xcache_size)
      in if xcache_size - floor_size < ceil_size - xcache_size then floor_size else ceil_size)"

definition table_shift :: "u32 \<Rightarrow> nat" where
  "table_shift sz = (let tmp_size = 3 * sz div 2 in 32 - builtin_clz tmp_size + 3)"

text \<open>The loop over \<^verbatim>\<open>on_node_init\<close>; the flag says that no call returned a null pointer.\<close>

definition node_init_step ::
  "(u64 \<Rightarrow> u64 \<Rightarrow> 'w xcache \<Rightarrow> (u64 \<times> 'w xcache) option) \<Rightarrow> nat \<Rightarrow> (bool \<times> 'w xcache) option \<Rightarrow>
     (bool \<times> 'w xcache) option" where
  "node_init_step f i s =
     do {
       (ok, c) \<leftarrow> s;
       if \<not> ok then Some (ok, c)
       else do {
         let c = upd_entry (of_nat i) (ce_ref_update (\<lambda>_. 0)) c;
         (p, c) \<leftarrow> f (cc_priv c) (of_nat i) c;
         Some (p \<noteq> 0, upd_entry (of_nat i) (ce_priv_update (\<lambda>_. p)) c) }
     }"

definition xcache_init ::
  "cache_mem \<Rightarrow> 'w xcache_ops \<Rightarrow> u32 \<Rightarrow> u32 \<Rightarrow> u64 \<Rightarrow> 'w xcache \<Rightarrow> (int \<times> 'w xcache) option" where
  "xcache_init m ops xcache_size flags priv c =
     (if xcache_size = 0 then Some (-1, c)
      else
        let c = c\<lparr>cc_size := nearest_size xcache_size\<rparr>;
            shift = table_shift (cc_size c);
            c = c\<lparr>cc_lock := xlock_release (cc_lock c), cc_rm_lock := xlock_release (cc_rm_lock c),
                   cc_nr_nodes := cc_size c * 2, cc_time := 0, cc_priv := priv, cc_flags := flags\<rparr>;
            (ok, q) = xq_alloc_seq (ucast (cc_nr_nodes c)) (ucast (cc_nr_nodes c)) (cm_queue m) (cc_free_nodes c)
        in if \<not> ok then Some (-1, c)
        else let c = c\<lparr>cc_free_nodes := q\<rparr> in
        case xhash_new (cm_entries m shift) shift (ucast (cc_size c)) XHASH_STRING of None \<Rightarrow> Some (-1, c)
        | Some t \<Rightarrow>
        let c = c\<lparr>cc_entries := t\<rparr>;
            rm = (if flags AND XCACHE_USE_RMTABLE \<noteq> 0
                  then xhash_new (cm_rm m shift) shift (ucast (cc_size c)) XHASH_STRING
                  else Some (cc_rm_entries c))
        in case rm of None \<Rightarrow> Some (-1, c)
        | Some t \<Rightarrow>
        let c = c\<lparr>cc_rm_entries := t\<rparr> in
        case cm_nodes m of None \<Rightarrow> Some (-1, c)
        | Some nds \<Rightarrow>
        let c = c\<lparr>cc_nodes := nds\<rparr>;
            tm = (if flags AND XCACHE_LRU_ARRAY \<noteq> 0
                  then map_option (fill (\<lambda>i. i) (\<lambda>_. XCACHE_LRU_MAX) (unat (cc_nr_nodes c))) (cm_times m)
                  else Some (cc_times c))
        in case tm of None \<Rightarrow> Some (-1, c)
        | Some tm \<Rightarrow>
        do {
          let c = c\<lparr>cc_times := tm\<rparr>;
          (ok, c) \<leftarrow> (case on_node_init ops of None \<Rightarrow> Some (True, c)
                      | Some f \<Rightarrow> fold (node_init_step f) [0..<unat (cc_nr_nodes c)] (Some (True, c)));
          if \<not> ok then Some (-1, c)
          else if flags AND XCACHE_LRU_HEAP \<noteq> 0 then
            let (r, bh) = xbinheap_init (cm_bh_indexes m) (cm_bh_nodes m) (unat (cc_size c)) XBINHEAP_MIN (cc_binheap c);
                c = c\<lparr>cc_binheap := bh\<rparr>
            in Some (if r < 0 then -1 else 0, c)
          else Some (0, c) })"

definition xcache_free :: "'w xcache \<Rightarrow> 'w xcache" where
  "xcache_free c =
     (let c = (if has_flag XCACHE_LRU_HEAP c then c\<lparr>cc_binheap := xbinheap_free (cc_binheap c)\<rparr>
               else if has_flag XCACHE_LRU_ARRAY c then c\<lparr>cc_times := []\<rparr> else c)
      in c\<lparr>cc_nodes := []\<rparr>)"

section \<open>The tables of the cache\<close>

text \<open>
  A table of the cache: string keys, never shrinking, with a limit that its size can take
  without growing.
\<close>

definition tab_ok :: "strings \<Rightarrow> xhash \<Rightarrow> bool" where
  "tab_ok str t \<longleftrightarrow> xh_inv str t \<and> xh_type t = XHASH_STRING \<and> xh_minsize_shift t = xh_size_shift t \<and>
     2 \<le> xh_size_shift t \<and> 0 < unat (xh_limit t) \<and> unat (xh_used t) \<le> unat (xh_limit t) \<and>
     unat (xh_limit t) + unat (xh_limit t) div 2 < 2 ^ xh_size_shift t"

definition tab :: "strings \<Rightarrow> xhash \<Rightarrow> 8 word list \<Rightarrow> u64 option" where
  "tab str t s = xh_map str t (Inr s)"

lemma tab_okD:
  assumes "tab_ok str t"
  shows "xh_inv str t" "xh_wf t" "xh_type t = XHASH_STRING" "\<not> shrink_check t"
    "key_of str (xh_type t) k = Inr (str k)"
  using assms by (simp_all add: tab_ok_def xh_inv_def shrink_check_def key_of_def)

lemma no_grow:
  assumes "xh_wf t" and "xh_dummies t = 0" and "unat (xh_used t) \<le> n" and "n + n div 2 < 2 ^ xh_size_shift t"
  shows "\<not> grow_check t"
proof -
  let ?k = "xh_size_shift t" and ?u = "xh_used t"
  have k: "?k < 63" using assms(1) by (simp add: xh_wf_def)
  then have p: "(2 :: nat) ^ ?k < 2 ^ 63" by (intro power_strict_increasing) simp_all
  have "unat ?u div 2 + unat ?u \<le> n div 2 + n" using assms(3) by (intro add_mono div_le_mono)
  then have lt: "unat ?u div 2 + unat ?u < 2 ^ ?k" using assms(4) by simp
  then have "unat (?u div 2 + ?u) = unat ?u div 2 + unat ?u"
    using p by (subst unat_word_ariths(1)) (simp add: unat_div)
  then have "?u div 2 + ?u < 2 ^ ?k" using lt k by (simp add: word_less_nat_alt unat_pow2)
  then show ?thesis by (simp add: grow_check_def assms(2) Let_def not_le)
qed

lemma table_lookup_ok:
  assumes "tab_ok str t"
  shows "table_lookup str t name = Some (case tab str t (str name) of None \<Rightarrow> NoEntry | Some v \<Rightarrow> v)"
  using lookup_result [OF tab_okD(1) [OF assms], of name] tab_okD(5) [OF assms]
  by (simp add: table_lookup_def tab_def xhash_errors split: option.split)

lemma table_remove_ok:
  assumes "tab_ok str t" and "tab str t (str name) = Some w"
  shows "\<exists>t'. table_remove str t name = Some (0, t') \<and> tab_ok str t' \<and> tab str t' = (tab str t)(str name := None) \<and>
    unat (xh_used t') + 1 = unat (xh_used t) \<and> xh_limit t' = xh_limit t \<and> xh_size_shift t' = xh_size_shift t"
proof -
  note d = tab_okD [OF assms(1)]
  have "xh_map str t (key_of str (xh_type t) name) = Some w" using assms(2) by (simp add: d(5) tab_def)
  from delete_result(2) [OF d(1) this] obtain t' where t': "raw_xhash_delete str t name True = Some (0, t')"
    "xh_inv str t'" "xh_map str t' = (xh_map str t)(Inr (str name) := None)" "unat (xh_used t') + 1 = unat (xh_used t)"
    "xh_type t' = xh_type t" "xh_size_shift t' = xh_size_shift t" "xh_limit t' = xh_limit t"
    "xh_minsize_shift t' = xh_minsize_shift t" unfolding d(5) by blast
  have "tab_ok str t'" using assms(1) t' by (simp add: tab_ok_def)
  moreover have "tab str t' = (tab str t)(str name := None)" by (auto simp: tab_def t'(3) fun_eq_iff)
  ultimately show ?thesis using t' d(4) by (simp add: table_remove_def xhash_delete_def)
qed

lemma table_remove_absent:
  assumes "tab_ok str t" and "tab str t (str name) = None"
  shows "table_remove str t name = Some (- XHASH_ENOENT, t)"
  using delete_result(1) [OF tab_okD(1) [OF assms(1)], of name] tab_okD(4,5) [OF assms(1)] assms(2)
  by (simp add: table_remove_def xhash_delete_def tab_def)

lemma table_insert_full:
  assumes "tab_ok (cc_mem c) t" and "xh_used t = xh_limit t"
  shows "table_insert mem c idx t = Some (- XHASH_ENOSPC, t)"
  using assms by (simp add: table_insert_def xhash_insert_def xhash_errors tab_ok_def unat_gt_0)

text \<open>One insertion that finds room below the limit and a table that need not grow.\<close>

lemma insert_once:
  assumes "tab_ok str t" and "tab str t (str key) = None" and "proper v"
    and "unat (xh_used t) < unat (xh_limit t)" and "\<not> grow_check t"
  shows "\<exists>t'. xhash_insert str t key v = Some (0, t') \<and> tab_ok str t' \<and> tab str t' = (tab str t)(str key \<mapsto> v) \<and>
    unat (xh_used t') = unat (xh_used t) + 1 \<and> xh_limit t' = xh_limit t \<and> xh_size_shift t' = xh_size_shift t"
proof -
  note d = tab_okD [OF assms(1)]
  have "xh_map str t (key_of str (xh_type t) key) = None" using assms(2) by (simp add: d(5) tab_def)
  moreover have "unat (xh_used t) + unat (xh_dummies t) + 1 < xhash_size t"
    using assms(1) by (intro grow_check_room [OF d(2) assms(5)]) (simp add: tab_ok_def)
  ultimately obtain t' where t': "raw_xhash_insert str t key v = Some t'" "xh_inv str t'"
    "xh_map str t' = (xh_map str t)(Inr (str key) \<mapsto> v)" "unat (xh_used t') = unat (xh_used t) + 1"
    "xh_type t' = xh_type t" "xh_size_shift t' = xh_size_shift t" "xh_limit t' = xh_limit t"
    "xh_minsize_shift t' = xh_minsize_shift t"
    using insert_absent [OF d(1) _ assms(3) _ disjI1 [OF refl]] unfolding d(5) by blast
  have "\<not> xh_used t \<ge> xh_limit t" using assms(4) by (simp add: word_le_nat_alt)
  moreover have "tab_ok str t'" using assms(1,4) t' by (simp add: tab_ok_def)
  moreover have "tab str t' = (tab str t)(str key \<mapsto> v)" by (auto simp: tab_def t'(3) fun_eq_iff)
  ultimately show ?thesis using t' assms(5) by (simp add: xhash_insert_def)
qed

lemma table_insert_ok:
  assumes ok: "tab_ok (cc_mem c) t" and ab: "tab (cc_mem c) t (cc_mem c (name_of c idx)) = None" and v: "proper idx"
    and room: "unat (xh_used t) < unat (xh_limit t)"
    and mem: "mem (xh_size_shift t) = Some m" "length m = 2 * 2 ^ xh_size_shift t"
  shows "\<exists>t'. table_insert mem c idx t = Some (0, t') \<and> tab_ok (cc_mem c) t' \<and>
    tab (cc_mem c) t' = (tab (cc_mem c) t)(cc_mem c (name_of c idx) \<mapsto> idx) \<and>
    unat (xh_used t') = unat (xh_used t) + 1 \<and> xh_limit t' = xh_limit t \<and> xh_size_shift t' = xh_size_shift t"
proof (cases "grow_check t")
  case False
  from insert_once [OF ok ab v room False] show ?thesis by (auto simp: table_insert_def xhash_errors)
next
  case True
  let ?k = "xh_size_shift t"
  note d = tab_okD [OF ok]
  have lim: "\<not> xh_used t \<ge> xh_limit t" using room by (simp add: word_le_nat_alt)
  have k: "?k < 63" using d(2) by (simp add: xh_wf_def)
  have "unat (xh_used t) < 2 ^ ?k" using ok by (simp add: tab_ok_def)
  from resize_result [OF d(1) this k mem(2), of "xh_limit t"] obtain t1 where t1:
    "xhash_resize (cc_mem c) t ?k (xh_limit t) (Some m) = Some (Some t1)" "xh_inv (cc_mem c) t1"
    "xh_map (cc_mem c) t1 = xh_map (cc_mem c) t" "xh_used t1 = xh_used t" "xh_dummies t1 = 0"
    "xh_size_shift t1 = ?k" "xh_limit t1 = xh_limit t" "xh_type t1 = xh_type t"
    "xh_minsize_shift t1 = xh_minsize_shift t" by blast
  have ok1: "tab_ok (cc_mem c) t1" using ok t1 by (simp add: tab_ok_def)
  have "tab (cc_mem c) t1 = tab (cc_mem c) t" by (simp add: tab_def fun_eq_iff t1(3))
  moreover have "\<not> grow_check t1"
    using ok t1 tab_okD(2) [OF ok1] by (intro no_grow [of _ "unat (xh_limit t)"]) (simp_all add: tab_ok_def)
  ultimately obtain t2 where "xhash_insert (cc_mem c) t1 (name_of c idx) idx = Some (0, t2)"
    "tab_ok (cc_mem c) t2" "tab (cc_mem c) t2 = (tab (cc_mem c) t)(cc_mem c (name_of c idx) \<mapsto> idx)"
    "unat (xh_used t2) = unat (xh_used t) + 1" "xh_limit t2 = xh_limit t" "xh_size_shift t2 = xh_size_shift t"
    using insert_once [OF ok1 _ v, of "name_of c idx"] ab room t1 by auto
  then show ?thesis using True lim t1(1) mem(1)
    by (simp add: table_insert_def xhash_insert_def xhash_errors)
qed

section \<open>The least recently used entry\<close>

lemma lru_scan:
  assumes "n \<le> 2 ^ 32"
  shows "case fold (lru_step c) [0..<n] (- 2, Noneidx) of (mn, lru) \<Rightarrow>
    (\<forall>i<n. mn \<le> cc_times c ! i) \<and> mn \<le> - 2 \<and>
    (if \<exists>i<n. cc_times c ! i < - 2 then \<exists>j<n. lru = of_nat j \<and> mn = cc_times c ! j else mn = - 2 \<and> lru = Noneidx)"
  using assms
proof (induction n)
  case (Suc n)
  obtain mn lru where f: "fold (lru_step c) [0..<n] (- 2, Noneidx) = (mn, lru)" by fastforce
  with Suc have ih: "\<forall>i<n. mn \<le> cc_times c ! i" "mn \<le> - 2"
    "if \<exists>i<n. cc_times c ! i < - 2 then \<exists>j<n. lru = of_nat j \<and> mn = cc_times c ! j else mn = - 2 \<and> lru = Noneidx"
    by auto
  show ?case
  proof (cases "mn > cc_times c ! n")
    case True
    then have "\<forall>i<Suc n. cc_times c ! n \<le> cc_times c ! i" "cc_times c ! n < - 2"
      using ih(1,2) by (auto simp: less_Suc_eq)
    moreover have "fold (lru_step c) [0..<Suc n] (- 2, Noneidx) = (cc_times c ! n, of_nat n)"
      using True by (simp add: f lru_step_def)
    ultimately show ?thesis by auto
  next
    case False
    then have "\<forall>i<Suc n. mn \<le> cc_times c ! i" using ih(1) by (auto simp: less_Suc_eq)
    moreover have "(\<exists>i<Suc n. cc_times c ! i < - 2) \<longleftrightarrow> (\<exists>i<n. cc_times c ! i < - 2)"
      using False ih by (auto simp: less_Suc_eq split: if_splits)
    with ih(3) have "if \<exists>i<Suc n. cc_times c ! i < - 2
      then \<exists>j<Suc n. lru = of_nat j \<and> mn = cc_times c ! j else mn = - 2 \<and> lru = Noneidx" by (metis less_SucI)
    moreover have "fold (lru_step c) [0..<Suc n] (- 2, Noneidx) = (mn, lru)"
      using False by (simp add: f lru_step_def)
    ultimately show ?thesis using ih(2) by simp
  qed
qed simp

text \<open>
  The invariant with the array of access times: the table indexes exactly the nodes that
  have an access time, by their names, and no access time is later than the clock.
\<close>

definition active :: "'w xcache \<Rightarrow> nat \<Rightarrow> bool" where
  "active c i \<longleftrightarrow> i < unat (cc_nr_nodes c) \<and> cc_times c ! i \<noteq> XCACHE_LRU_MAX"

definition cached :: "'w xcache \<Rightarrow> 8 word list \<Rightarrow> u64 option" where
  "cached c = tab (cc_mem c) (cc_entries c)"

definition node_name :: "'w xcache \<Rightarrow> nat \<Rightarrow> 8 word list" where
  "node_name c i = cc_mem c (cc_name_at c i)"

definition cache_ok :: "'w xcache \<Rightarrow> bool" where
  "cache_ok c \<longleftrightarrow> tab_ok (cc_mem c) (cc_entries c) \<and> length (cc_nodes c) = unat (cc_nr_nodes c) \<and>
     length (cc_times c) = unat (cc_nr_nodes c) \<and>
     (\<forall>s v. cached c s = Some v \<longleftrightarrow> (\<exists>i. active c i \<and> v = of_nat i \<and> s = node_name c i)) \<and>
     (\<forall>i. active c i \<longrightarrow> cc_times c ! i \<le> cc_time c)"

lemma cache_okD:
  assumes "cache_ok c"
  shows "tab_ok (cc_mem c) (cc_entries c)" "length (cc_nodes c) = unat (cc_nr_nodes c)"
    "length (cc_times c) = unat (cc_nr_nodes c)"
    "\<And>i. active c i \<Longrightarrow> cached c (node_name c i) = Some (of_nat i)"
    "\<And>s v. cached c s = Some v \<Longrightarrow> \<exists>i. active c i \<and> v = of_nat i \<and> s = node_name c i"
    "\<And>i. active c i \<Longrightarrow> cc_times c ! i \<le> cc_time c"
  using assms by (auto simp: cache_ok_def)

lemma nr_nodes_less: "unat (n :: u32) < 2 ^ 32"
  using unsigned_less [of n] by simp

lemma of_nat_node:
  assumes "i < unat (cc_nr_nodes c)"
  shows "unat (of_nat i :: u64) = i" "(of_nat i :: u64) \<noteq> NoEntry" "proper (of_nat i)"
proof -
  have lt: "i < 2 ^ 32" using assms nr_nodes_less [of "cc_nr_nodes c"] by simp
  then show u: "unat (of_nat i :: u64) = i" by (intro unat_of_nat_u64) simp
  have far: "unat DUMMY = 2 ^ 64 - 2" "unat UNUSED = 2 ^ 64 - 1"
    by (simp_all add: DUMMY_def UNUSED_def unsigned_minus_1_eq_mask mask_eq_exp_minus_1)
  show "proper (of_nat i)" unfolding proper_def using lt far u by auto
  then show "(of_nat i :: u64) \<noteq> NoEntry" by (auto simp: proper_def UNUSED_def)
qed

lemma active_uniq:
  assumes "cache_ok c" and "active c i" and "active c j" and "node_name c i = node_name c j"
  shows "i = j"
proof -
  have "(of_nat i :: u64) = of_nat j" using cache_okD(4) [OF assms(1)] assms(2-4) by (metis option.inject)
  moreover have "unat (of_nat i :: u64) = i" "unat (of_nat j :: u64) = j"
    using assms(2,3) of_nat_node(1) by (auto simp only: active_def)
  ultimately show ?thesis by metis
qed

text \<open>A used table has an entry.\<close>

lemma used_cached:
  assumes "cache_ok c" and "0 < unat (xh_used (cc_entries c))"
  shows "\<exists>i. active c i"
proof -
  let ?t = "cc_entries c"
  note d = tab_okD [OF cache_okD(1) [OF assms(1)]]
  have "0 < card (slots_of ?t (validp ?t))" using d(2) assms(2) by (simp only: xh_wf_def)
  then obtain i where "i \<in> slots_of ?t (validp ?t)" unfolding card_gt_0_iff by blast
  then have "has (cc_mem c) ?t (slot_key (cc_mem c) ?t i) i" by (simp add: has_def slots_of_def)
  then have "xh_map (cc_mem c) ?t (slot_key (cc_mem c) ?t i) \<noteq> None"
    using map_of_has(2) [OF d(1)] by auto
  moreover have "slot_key (cc_mem c) ?t i = Inr (cc_mem c (xh_kvs ?t ! i))" by (simp add: slot_key_def d(5))
  ultimately obtain v where "cached c (cc_mem c (xh_kvs ?t ! i)) = Some v" by (auto simp: cached_def tab_def)
  from cache_okD(5) [OF assms(1) this] show ?thesis by blast
qed

lemma lru_active:
  assumes "cache_ok c" and "has_flag XCACHE_LRU_ARRAY c" and "active c i" and "unat (cc_time c) < 2 ^ 64 - 2"
  shows "\<exists>l. raw_xcache_lru c = (of_nat l, c) \<and> active c l \<and> (\<forall>j. active c j \<longrightarrow> cc_times c ! l \<le> cc_times c ! j)"
proof -
  let ?n = "unat (cc_nr_nodes c)"
  have far: "unat (- 2 :: u64) = 2 ^ 64 - 2" by simp
  have "cc_times c ! i < - 2"
    using cache_okD(6) [OF assms(1,3)] assms(4) far unfolding word_le_nat_alt word_less_nat_alt by linarith
  then have ex: "\<exists>i<?n. cc_times c ! i < - 2" using assms(3) by (auto simp: active_def)
  obtain mn lru where f: "fold (lru_step c) [0..<?n] (- 2, Noneidx) = (mn, lru)" by fastforce
  from lru_scan [of ?n c] nr_nodes_less [of "cc_nr_nodes c"] f ex obtain j where
    j: "j < ?n" "lru = of_nat j" "mn = cc_times c ! j" "\<forall>i<?n. mn \<le> cc_times c ! i" "mn \<le> - 2" by auto
  have "XCACHE_LRU_MAX > (- 2 :: u64)" by (simp add: XCACHE_LRU_MAX_def word_less_nat_alt far unsigned_minus_1_eq_mask mask_eq_exp_minus_1)
  then have "active c j" using j by (auto simp: active_def)
  then show ?thesis using j f assms(2) by (intro exI [of _ j]) (auto simp: raw_xcache_lru_def active_def)
qed

section \<open>Insertion\<close>

text \<open>The state after an access to node \<open>i\<close>, with the array.\<close>

definition touch :: "nat \<Rightarrow> 'w xcache \<Rightarrow> 'w xcache" where
  "touch i c = c\<lparr>cc_nodes := (cc_nodes c)[i := (cc_nodes c ! i)\<lparr>ce_ref := ce_ref (cc_nodes c ! i) + 1\<rparr>],
     cc_time := cc_time c + 1, cc_times := (cc_times c)[i := cc_time c + 1]\<rparr>"

definition calm :: "'w xcache \<Rightarrow> bool" where
  "calm c \<longleftrightarrow> has_flag XCACHE_LRU_ARRAY c \<and> \<not> has_flag XCACHE_USE_RMTABLE c \<and> unat (cc_time c) < 2 ^ 64 - 2"

lemma unat_max: "unat XCACHE_LRU_MAX = 2 ^ 64 - 1"
  by (simp add: XCACHE_LRU_MAX_def unsigned_minus_1_eq_mask mask_eq_exp_minus_1)

lemma clock:
  assumes "calm c"
  shows "cc_time c + 1 \<noteq> XCACHE_LRU_MAX" "x \<le> cc_time c \<Longrightarrow> x < cc_time c + 1"
proof -
  have u: "unat (cc_time c + 1) = unat (cc_time c) + 1"
    using assms by (subst unat_word_ariths(1)) (simp add: calm_def)
  then show "cc_time c + 1 \<noteq> XCACHE_LRU_MAX" using assms unat_max by (auto simp: calm_def)
  show "x < cc_time c + 1" if "x \<le> cc_time c" using that u unfolding word_less_nat_alt word_le_nat_alt by simp
qed

lemma get_and_update_touch:
  assumes "calm c" and "i < unat (cc_nr_nodes c)"
  shows "raw_xcache_entry_get_and_update (of_nat i) c = touch i c"
  using assms clock(1) [OF assms(1)] of_nat_node(1) [OF assms(2)]
  by (simp add: raw_xcache_entry_get_and_update_def raw_xcache_entry_get_def update_access_time_def
      upd_entry_def node_def touch_def has_flag_def calm_def Let_def)

text \<open>Touching an entry of the cache, or one that the table already has.\<close>

lemma touch_ok:
  assumes "tab_ok (cc_mem c) (cc_entries c)" and "length (cc_nodes c) = unat (cc_nr_nodes c)"
    and "length (cc_times c) = unat (cc_nr_nodes c)" and "calm c" and "i < unat (cc_nr_nodes c)"
    and cov: "\<And>s v. cached c s = Some v \<longleftrightarrow> (\<exists>j. (active c j \<or> j = i) \<and> v = of_nat j \<and> s = node_name c j)"
    and "\<And>j. active c j \<Longrightarrow> cc_times c ! j \<le> cc_time c"
  shows "cache_ok (touch i c)"
proof -
  have act: "active (touch i c) j \<longleftrightarrow> active c j \<or> j = i" for j
    using assms(3,5) clock(1) [OF assms(4)] by (auto simp: active_def touch_def nth_list_update)
  have same: "cached (touch i c) = cached c" "node_name (touch i c) = node_name c"
    by (simp_all add: cached_def node_name_def touch_def fun_eq_iff)
  have "cc_times (touch i c) ! j \<le> cc_time (touch i c)" if "active (touch i c) j" for j
    using that assms(3,5,7) clock(2) [OF assms(4)] unfolding act
    by (auto simp: touch_def nth_list_update less_imp_le)
  then show ?thesis using assms(1-3) unfolding cache_ok_def same by (simp add: cov act) (simp add: touch_def)
qed

lemma lookup_cached:
  assumes "cache_ok c"
  shows "raw_xcache_lookup_entries name c = Some (case cached c (cc_mem c name) of None \<Rightarrow> NoEntry | Some v \<Rightarrow> v)"
  by (simp add: raw_xcache_lookup_entries_def table_lookup_ok [OF cache_okD(1) [OF assms]] cached_def)

lemma lookup_and_get:
  assumes "cache_ok c" and "calm c"
  shows "case cached c (cc_mem c name) of None \<Rightarrow> raw_xcache_lookup_and_get_entries name c = Some (NoEntry, c)
    | Some v \<Rightarrow> active c (unat v) \<and> raw_xcache_lookup_and_get_entries name c = Some (v, touch (unat v) c) \<and>
        cache_ok (touch (unat v) c)"
proof (cases "cached c (cc_mem c name)")
  case None
  then show ?thesis using lookup_cached [OF assms(1)] by (simp add: raw_xcache_lookup_and_get_entries_def)
next
  case (Some v)
  from cache_okD(5) [OF assms(1) Some] obtain i where i: "active c i" "v = of_nat i" by blast
  then have lt: "i < unat (cc_nr_nodes c)" by (simp add: active_def)
  note o = of_nat_node [OF lt]
  have "cached c s = Some v \<longleftrightarrow> (\<exists>j. (active c j \<or> j = i) \<and> v = of_nat j \<and> s = node_name c j)" for s v
    using assms(1) i(1) by (auto simp: cache_ok_def)
  from touch_ok [OF cache_okD(1,2,3) [OF assms(1)] assms(2) lt this cache_okD(6) [OF assms(1)]]
  have "cache_ok (touch i c)" by simp
  then show ?thesis using Some lookup_cached [OF assms(1), of name] i o get_and_update_touch [OF assms(2) lt]
    by (simp add: raw_xcache_lookup_and_get_entries_def)
qed

text \<open>The memory that a rebuilding of the table asks for is there.\<close>

definition mem_ok :: "(nat \<Rightarrow> u64 list option) \<Rightarrow> xhash \<Rightarrow> bool" where
  "mem_ok mem t \<longleftrightarrow> (\<exists>m. mem (xh_size_shift t) = Some m \<and> length m = 2 * 2 ^ xh_size_shift t)"

lemma cache_insert_room:
  assumes ok: "cache_ok c" and "calm c" and lt: "i < unat (cc_nr_nodes c)" and "\<not> active c i"
    and ab: "cached c (node_name c i) = None" and room: "unat (xh_used (cc_entries c)) < unat (xh_limit (cc_entries c))"
    and "mem_ok mem (cc_entries c)"
  shows "\<exists>t. raw_xcache_insert_entries mem (of_nat i) c = Some (0, c\<lparr>cc_entries := t\<rparr>) \<and>
    cached (touch i (c\<lparr>cc_entries := t\<rparr>)) = (cached c)(node_name c i \<mapsto> of_nat i) \<and>
    cache_ok (touch i (c\<lparr>cc_entries := t\<rparr>)) \<and> calm (c\<lparr>cc_entries := t\<rparr>)"
proof -
  note o = of_nat_node [OF lt]
  have nm: "cc_mem c (name_of c (of_nat i)) = node_name c i" by (simp add: name_of_def node_name_def o(1))
  from assms(7) obtain m where m: "mem (xh_size_shift (cc_entries c)) = Some m"
    "length m = 2 * 2 ^ xh_size_shift (cc_entries c)" by (auto simp: mem_ok_def)
  have ab': "tab (cc_mem c) (cc_entries c) (cc_mem c (name_of c (of_nat i))) = None"
    using ab by (simp add: nm cached_def)
  from table_insert_ok [where mem = mem, OF cache_okD(1) [OF ok] ab' o(3) room m] obtain t where
    t: "table_insert mem c (of_nat i) (cc_entries c) = Some (0, t)" "tab_ok (cc_mem c) t"
    "tab (cc_mem c) t = (cached c)(node_name c i \<mapsto> of_nat i)" unfolding nm cached_def by blast
  define d where "d = c\<lparr>cc_entries := t\<rparr>"
  have d: "cc_mem d = cc_mem c" "cc_entries d = t" "cc_nodes d = cc_nodes c" "cc_times d = cc_times c"
    "cc_nr_nodes d = cc_nr_nodes c" "cc_time d = cc_time c" "active d = active c" "node_name d = node_name c"
    "cached d = (cached c)(node_name c i \<mapsto> of_nat i)"
    by (simp_all add: d_def active_def node_name_def fun_eq_iff cached_def t(3))
  have cd: "calm d" using assms(2) by (simp add: calm_def d_def has_flag_def)
  have ne: "node_name c j \<noteq> node_name c i" if "active c j" for j
    using that cache_okD(4) [OF ok that] ab by auto
  have cov: "cached d s = Some v \<longleftrightarrow> (\<exists>j. (active d j \<or> j = i) \<and> v = of_nat j \<and> s = node_name d j)" for s v
  proof (cases "s = node_name c i")
    case True
    then have "cached d s = Some v \<longleftrightarrow> v = of_nat i" by (auto simp: d(9))
    then show ?thesis using ne True unfolding d(7,8) by metis
  next
    case False
    then have "cached d s = cached c s" by (simp add: d(9))
    also have "cached c s = Some v \<longleftrightarrow> (\<exists>j. active c j \<and> v = of_nat j \<and> s = node_name c j)"
      using ok by (simp add: cache_ok_def)
    finally show ?thesis using False by (auto simp: d(7,8))
  qed
  have "cache_ok (touch i d)"
    by (rule touch_ok [OF _ _ _ cd _ cov]) (use t(2) cache_okD [OF ok] lt in \<open>simp_all add: d\<close>)
  moreover have "cached (touch i d) = cached d" by (simp add: cached_def touch_def)
  ultimately show ?thesis using t(1) cd d(9) unfolding d_def
    by (intro exI [of _ t]) (simp add: raw_xcache_insert_entries_def)
qed

lemma evict_lru:
  assumes ok: "cache_ok c" and cm: "calm c" and "active c i"
  shows "\<exists>l t. active c l \<and> (\<forall>j. active c j \<longrightarrow> cc_times c ! l \<le> cc_times c ! j) \<and>
    raw_xcache_evict_lru mem cl c = Some (of_nat l, c\<lparr>cc_entries := t, cc_times := (cc_times c)[l := XCACHE_LRU_MAX]\<rparr>) \<and>
    (let d = c\<lparr>cc_entries := t, cc_times := (cc_times c)[l := XCACHE_LRU_MAX]\<rparr> in
       cache_ok d \<and> calm d \<and> cached d = (cached c)(node_name c l := None) \<and>
       unat (xh_used t) + 1 = unat (xh_used (cc_entries c)) \<and> xh_limit t = xh_limit (cc_entries c) \<and>
       xh_size_shift t = xh_size_shift (cc_entries c))"
proof -
  have fl: "has_flag XCACHE_LRU_ARRAY c" "\<not> has_flag XCACHE_USE_RMTABLE c" "unat (cc_time c) < 2 ^ 64 - 2"
    using cm by (simp_all add: calm_def)
  from lru_active [OF ok fl(1) assms(3) fl(3)] obtain l where l: "raw_xcache_lru c = (of_nat l, c)" "active c l"
    "\<forall>j. active c j \<longrightarrow> cc_times c ! l \<le> cc_times c ! j" by blast
  have lt: "l < unat (cc_nr_nodes c)" using l(2) by (simp add: active_def)
  note o = of_nat_node [OF lt]
  have nm: "cc_mem c (name_of c (of_nat l)) = node_name c l" by (simp add: name_of_def node_name_def o(1))
  have pr: "tab (cc_mem c) (cc_entries c) (cc_mem c (name_of c (of_nat l))) = Some (of_nat l)"
    using cache_okD(4) [OF ok l(2)] by (simp add: cached_def nm)
  from table_remove_ok [OF cache_okD(1) [OF ok] pr] obtain t where
    t: "table_remove (cc_mem c) (cc_entries c) (name_of c (of_nat l)) = Some (0, t)" "tab_ok (cc_mem c) t"
    "tab (cc_mem c) t = (cached c)(node_name c l := None)" "unat (xh_used t) + 1 = unat (xh_used (cc_entries c))"
    "xh_limit t = xh_limit (cc_entries c)" "xh_size_shift t = xh_size_shift (cc_entries c)"
    unfolding nm cached_def by blast
  define d where "d = c\<lparr>cc_entries := t, cc_times := (cc_times c)[l := XCACHE_LRU_MAX]\<rparr>"
  have act: "active d j \<longleftrightarrow> active c j \<and> j \<noteq> l" for j
    using cache_okD(3) [OF ok] lt by (auto simp: active_def d_def nth_list_update)
  have cd: "cached d = (cached c)(node_name c l := None)" "node_name d = node_name c"
    using t(3) by (simp_all add: d_def cached_def node_name_def fun_eq_iff)
  have cov: "cached d s = Some v \<longleftrightarrow> (\<exists>j. active d j \<and> v = of_nat j \<and> s = node_name d j)" for s v
    using active_uniq [OF ok l(2)] ok by (auto simp: cd act cache_ok_def)
  have "cc_times d ! j \<le> cc_time d" if "active d j" for j
    using that cache_okD(6) [OF ok] by (simp add: act) (simp add: d_def)
  then have "cache_ok d" using cov t(2) cache_okD(2,3) [OF ok] by (simp add: cache_ok_def) (simp add: d_def)
  moreover have "calm d" using cm by (simp add: calm_def d_def has_flag_def)
  moreover have "raw_xcache_evict_lru mem cl c = Some (of_nat l, d)"
    using l(1) o fl t(1)
    by (simp add: raw_xcache_evict_lru_def raw_xcache_evict_def raw_xcache_remove_entries_def d_def has_flag_def)
  ultimately show ?thesis using l t(4-6) cd(1) unfolding d_def Let_def by blast
qed

lemma insert_evicting_room:
  assumes "cache_ok c" and "calm c" and "i < unat (cc_nr_nodes c)" and "\<not> active c i"
    and "cached c (node_name c i) = None" and "xh_used (cc_entries c) < xh_limit (cc_entries c)"
    and "mem_ok mem (cc_entries c)"
  shows "\<exists>t. insert_evicting mem cl (of_nat i) c = Some (of_nat i, NoEntry, touch i (c\<lparr>cc_entries := t\<rparr>)) \<and>
    cached (touch i (c\<lparr>cc_entries := t\<rparr>)) = (cached c)(node_name c i \<mapsto> of_nat i) \<and>
    cache_ok (touch i (c\<lparr>cc_entries := t\<rparr>))"
proof -
  have "unat (xh_used (cc_entries c)) < unat (xh_limit (cc_entries c))" using assms(6) by (simp add: word_less_nat_alt)
  from cache_insert_room [OF assms(1-5) this assms(7)] obtain t where
    t: "raw_xcache_insert_entries mem (of_nat i) c = Some (0, c\<lparr>cc_entries := t\<rparr>)"
    "cached (touch i (c\<lparr>cc_entries := t\<rparr>)) = (cached c)(node_name c i \<mapsto> of_nat i)"
    "cache_ok (touch i (c\<lparr>cc_entries := t\<rparr>))" "calm (c\<lparr>cc_entries := t\<rparr>)" by blast
  have "raw_xcache_entry_get_and_update (of_nat i) (c\<lparr>cc_entries := t\<rparr>) = touch i (c\<lparr>cc_entries := t\<rparr>)"
    by (rule get_and_update_touch [OF t(4)]) (simp add: assms(3))
  then show ?thesis using t by (auto simp: insert_evicting_def xhash_errors)
qed

lemma cache_full:
  assumes "cache_ok c" and "\<not> xh_used (cc_entries c) < xh_limit (cc_entries c)"
  shows "xh_used (cc_entries c) = xh_limit (cc_entries c)" "\<exists>k. active c k"
proof -
  have le: "unat (xh_used (cc_entries c)) \<le> unat (xh_limit (cc_entries c))" "0 < unat (xh_limit (cc_entries c))"
    using cache_okD(1) [OF assms(1)] by (simp_all add: tab_ok_def)
  with assms(2) show full: "xh_used (cc_entries c) = xh_limit (cc_entries c)"
    by (metis le_neq_trans word_le_nat_alt)
  with le used_cached [OF assms(1)] show "\<exists>k. active c k" by auto
qed

lemma insert_evicting_full:
  assumes "cache_ok c" and "calm c" and "i < unat (cc_nr_nodes c)" and "\<not> active c i"
    and "cached c (node_name c i) = None" and "\<not> xh_used (cc_entries c) < xh_limit (cc_entries c)"
    and "mem_ok mem (cc_entries c)"
  shows "\<exists>l t. active c l \<and> (\<forall>j. active c j \<longrightarrow> cc_times c ! l \<le> cc_times c ! j) \<and>
    (let c' = touch i (c\<lparr>cc_times := (cc_times c)[l := XCACHE_LRU_MAX], cc_entries := t\<rparr>) in
       insert_evicting mem cl (of_nat i) c = Some (of_nat i, of_nat l, c') \<and>
       cached c' = (cached c)(node_name c l := None, node_name c i \<mapsto> of_nat i) \<and> cache_ok c')"
proof -
  note full = cache_full [OF assms(1,6)]
  from full(2) obtain k where k: "active c k" by blast
  from evict_lru [OF assms(1,2) k, of mem cl] obtain l t0 where l: "active c l"
    "\<forall>j. active c j \<longrightarrow> cc_times c ! l \<le> cc_times c ! j" and ev: "raw_xcache_evict_lru mem cl c =
      Some (of_nat l, c\<lparr>cc_entries := t0, cc_times := (cc_times c)[l := XCACHE_LRU_MAX]\<rparr>)"
    and d0: "let d = c\<lparr>cc_entries := t0, cc_times := (cc_times c)[l := XCACHE_LRU_MAX]\<rparr> in
   cache_ok d \<and> calm d \<and> cached d = (cached c)(node_name c l := None) \<and>
   unat (xh_used t0) + 1 = unat (xh_used (cc_entries c)) \<and> xh_limit t0 = xh_limit (cc_entries c) \<and>
   xh_size_shift t0 = xh_size_shift (cc_entries c)" by blast
  define d where "d = c\<lparr>cc_entries := t0, cc_times := (cc_times c)[l := XCACHE_LRU_MAX]\<rparr>"
  have d: "cache_ok d" "calm d" "cached d = (cached c)(node_name c l := None)"
    "unat (xh_used t0) < unat (xh_limit t0)" "mem_ok mem t0" "node_name d = node_name c"
    "cc_nr_nodes d = cc_nr_nodes c" "cc_entries d = t0"
    using d0 full(1) assms(7) by (simp_all add: d_def [symmetric] Let_def mem_ok_def) (simp_all add: d_def node_name_def fun_eq_iff)
  have na: "\<not> active d i" using assms(3,4) cache_okD(3) [OF assms(1)]
    by (cases "l = i") (auto simp: active_def d_def)
  have "\<exists>t. raw_xcache_insert_entries mem (of_nat i) d = Some (0, d\<lparr>cc_entries := t\<rparr>) \<and>
    cached (touch i (d\<lparr>cc_entries := t\<rparr>)) = (cached d)(node_name d i \<mapsto> of_nat i) \<and>
    cache_ok (touch i (d\<lparr>cc_entries := t\<rparr>)) \<and> calm (d\<lparr>cc_entries := t\<rparr>)"
    by (rule cache_insert_room) (use d na assms(3,5) in simp_all)
  then obtain t where t: "raw_xcache_insert_entries mem (of_nat i) d = Some (0, d\<lparr>cc_entries := t\<rparr>)"
    "cached (touch i (d\<lparr>cc_entries := t\<rparr>)) = (cached d)(node_name d i \<mapsto> of_nat i)"
    "cache_ok (touch i (d\<lparr>cc_entries := t\<rparr>))" "calm (d\<lparr>cc_entries := t\<rparr>)" by blast
  have up: "raw_xcache_entry_get_and_update (of_nat i) (d\<lparr>cc_entries := t\<rparr>) = touch i (d\<lparr>cc_entries := t\<rparr>)"
    by (rule get_and_update_touch [OF t(4)]) (simp add: assms(3) d(7))
  have e1: "raw_xcache_insert_entries mem (of_nat i) c = Some (- XHASH_ENOSPC, c)"
    using table_insert_full [OF cache_okD(1) [OF assms(1)] full(1)] by (simp add: raw_xcache_insert_entries_def)
  have "(of_nat l :: u64) \<noteq> NoEntry" using l(1) of_nat_node(2) by (auto simp: active_def)
  then have "insert_evicting mem cl (of_nat i) c = Some (of_nat i, of_nat l, touch i (d\<lparr>cc_entries := t\<rparr>))"
    using e1 ev up t(1) by (simp add: insert_evicting_def xhash_errors d_def [symmetric])
  moreover have "d\<lparr>cc_entries := t\<rparr> = c\<lparr>cc_times := (cc_times c)[l := XCACHE_LRU_MAX], cc_entries := t\<rparr>"
    by (simp add: d_def)
  ultimately show ?thesis using t(2,3) d(3,6) l by (intro exI [of _ l] exI [of _ t]) (simp add: Let_def)
qed

section \<open>Properties\<close>

text \<open>
  C11. Inserting a prepared node into a cache with the access-time array: when the name is
  cached already, its entry is returned, with one reference more and the newest access
  time; else, below the limit, the node is entered; else the least recently used entry is
  evicted and the node entered in its place. Nothing else changes in the table, and the
  invariant of the cache is kept.
\<close>

theorem xcache_insert_lru:
  assumes "cache_ok c" and "calm c" and "i < unat (cc_nr_nodes c)" and "\<not> active c i"
    and "mem_ok mem (cc_entries c)"
  shows "case cached c (node_name c i) of
      Some v \<Rightarrow> active c (unat v) \<and> cache_ok (touch (unat v) c) \<and>
        raw_xcache_insert mem cl (of_nat i) c = Some (v, NoEntry, NoEntry, touch (unat v) c)
    | None \<Rightarrow>
        if xh_used (cc_entries c) < xh_limit (cc_entries c)
        then \<exists>t. raw_xcache_insert mem cl (of_nat i) c = Some (of_nat i, NoEntry, NoEntry, touch i (c\<lparr>cc_entries := t\<rparr>)) \<and>
          cached (touch i (c\<lparr>cc_entries := t\<rparr>)) = (cached c)(node_name c i \<mapsto> of_nat i) \<and>
          cache_ok (touch i (c\<lparr>cc_entries := t\<rparr>))
        else \<exists>l t. active c l \<and> (\<forall>j. active c j \<longrightarrow> cc_times c ! l \<le> cc_times c ! j) \<and>
          (let c' = touch i (c\<lparr>cc_times := (cc_times c)[l := XCACHE_LRU_MAX], cc_entries := t\<rparr>) in
             raw_xcache_insert mem cl (of_nat i) c = Some (of_nat i, of_nat l, NoEntry, c') \<and>
             cached c' = (cached c)(node_name c l := None, node_name c i \<mapsto> of_nat i) \<and> cache_ok c')"
proof -
  note o = of_nat_node [OF assms(3)]
  have fl: "\<not> has_flag XCACHE_USE_RMTABLE c" using assms(2) by (simp add: calm_def)
  have nm: "cc_mem c (name_of c (of_nat i)) = node_name c i" by (simp add: name_of_def node_name_def o(1))
  note lk = lookup_and_get [OF assms(1,2), of "name_of c (of_nat i)", unfolded nm]
  show ?thesis
  proof (cases "cached c (node_name c i)")
    case (Some v)
    with lk have v: "active c (unat v)" "cache_ok (touch (unat v) c)"
      "raw_xcache_lookup_and_get_entries (name_of c (of_nat i)) c = Some (v, touch (unat v) c)" by simp_all
    have "v \<noteq> NoEntry" using cache_okD(5) [OF assms(1) Some] of_nat_node(2) [of _ c] by (auto simp: active_def)
    then show ?thesis using Some v by (simp add: raw_xcache_insert_def)
  next
    case None
    with lk have go: "raw_xcache_insert mem cl (of_nat i) c =
        do { (ret, lru, c) \<leftarrow> insert_evicting mem cl (of_nat i) c; Some (ret, lru, NoEntry, c) }"
      using fl by (simp add: raw_xcache_insert_def)
    show ?thesis
    proof (cases "xh_used (cc_entries c) < xh_limit (cc_entries c)")
      case True
      from insert_evicting_room [OF assms(1-4) None True assms(5), of cl] show ?thesis
        using None True go by auto
    next
      case False
      from insert_evicting_full [OF assms(1-4) None False assms(5), of cl] obtain l t where
        "active c l" "\<forall>j. active c j \<longrightarrow> cc_times c ! l \<le> cc_times c ! j"
        "let c' = touch i (c\<lparr>cc_times := (cc_times c)[l := XCACHE_LRU_MAX], cc_entries := t\<rparr>) in
           insert_evicting mem cl (of_nat i) c = Some (of_nat i, of_nat l, c') \<and>
           cached c' = (cached c)(node_name c l := None, node_name c i \<mapsto> of_nat i) \<and> cache_ok c'" by blast
      then show ?thesis using None False go by (auto simp: Let_def)
    qed
  qed
qed

text \<open>
  A cache of the demonstrations: four nodes named by one byte each, an empty table of eight
  slots with limit 2, three free nodes.
\<close>

definition demo_cache :: "u32 \<Rightarrow> unit xcache" where
  "demo_cache fl = \<lparr>cc_lock = free_lock, cc_size = 2, cc_nr_nodes = 4, cc_free_nodes = demo_q,
     cc_entries = xhash_init (replicate 16 0) 3 2 XHASH_STRING,
     cc_rm_entries = xhash_init (replicate 16 0) 3 2 XHASH_STRING, cc_rm_lock = free_lock,
     cc_nodes = replicate 4 \<lparr>ce_lock = free_lock, ce_ref = 1, ce_state = NODE_ACTIVE, ce_h = None, ce_priv = 9\<rparr>,
     cc_time = 0, cc_times = replicate 4 XCACHE_LRU_MAX, cc_binheap = demo_heap XBINHEAP_MIN 2, cc_flags = fl,
     cc_priv = 0, cc_mem = demo_str, cc_name_at = (\<lambda>i. of_nat i), cc_world = ()\<rparr>"

lemma demo_tab: "tab_ok str (xhash_init (replicate 16 0) 3 2 XHASH_STRING)"
  "tab str (xhash_init (replicate 16 0) 3 2 XHASH_STRING) = Map.empty"
  "xh_used (xhash_init (replicate 16 0) 3 2 XHASH_STRING) = 0"
  "xh_limit (xhash_init (replicate 16 0) 3 2 XHASH_STRING) = 2"
  "xh_size_shift (xhash_init (replicate 16 0) 3 2 XHASH_STRING) = 3"
  using hash_init_inv(1,2) [of "replicate 16 0" 3 str 3 2 XHASH_STRING]
  by (simp_all add: tab_ok_def tab_def fun_eq_iff xhash_init_def) (simp_all add: raw_xhash_init_def Let_def)

lemma demo_cache_ok: "cache_ok (demo_cache fl)" "\<not> active (demo_cache fl) i" "cached (demo_cache fl) = Map.empty"
proof -
  have t: "cc_times (demo_cache fl) = replicate 4 XCACHE_LRU_MAX" "unat (cc_nr_nodes (demo_cache fl)) = 4"
    by (simp_all add: demo_cache_def)
  show act: "\<not> active (demo_cache fl) i" for i unfolding active_def t by simp
  show em: "cached (demo_cache fl) = Map.empty" using demo_tab(2) by (simp add: cached_def demo_cache_def)
  show "cache_ok (demo_cache fl)" using demo_tab(1) unfolding cache_ok_def t
    by (simp add: act em) (simp add: demo_cache_def)
qed

theorem xcache_insert_lru_witness:
  "\<exists>c'. raw_xcache_insert (\<lambda>k. Some (replicate (2 * 2 ^ k) 0)) (demo_caller 1) 1 (demo_cache 1) =
     Some (1, NoEntry, NoEntry, c') \<and> cached c' = [[1] \<mapsto> 1]"
proof -
  have "calm (demo_cache 1)" "mem_ok (\<lambda>k. Some (replicate (2 * 2 ^ k) 0)) (cc_entries (demo_cache 1))"
    by (simp_all add: calm_def has_flag_def demo_cache_def XCACHE_LRU_ARRAY_def XCACHE_USE_RMTABLE_def mem_ok_def)
  with xcache_insert_lru [of "demo_cache 1" 1 "\<lambda>k. Some (replicate (2 * 2 ^ k) 0)" "demo_caller 1"]
    demo_cache_ok [of 1] demo_tab show ?thesis
    by (auto simp: demo_cache_def node_name_def demo_str_def)
qed

text \<open>
  Removing an entry while the least recently used entry is tracked by the heap: the key of
  the entry is raised to the maximum and then the root of the minimum heap is extracted, so
  that whenever another entry is tracked it is one of those that is dropped from the heap,
  while the removed entry stays there under the maximal key.
\<close>

theorem xcache_remove_heap_wrong:
  assumes "has_flag XCACHE_LRU_HEAP c" and "\<not> has_flag XCACHE_LRU_ARRAY c" and "unat h < length (cc_nodes c)"
    and "tab_ok (cc_mem c) (cc_entries c)" and "tab (cc_mem c) (cc_entries c) (cc_mem c (name_of c h)) = Some w"
    and "bh_inv (cc_binheap c)" and "bh_flags (cc_binheap c) = XBINHEAP_MIN" and "ce_h (node c h) = Some y"
    and "bh_map (cc_binheap c) y = Some (k, h)" and "bh_map (cc_binheap c) z = Some (kz, hz)" and "z \<noteq> y"
    and "kz \<noteq> XCACHE_LRU_MAX"
  shows "\<exists>c' z'. raw_xcache_remove_entries h c = Some (0, c') \<and> z' \<noteq> y \<and> bh_map (cc_binheap c) z' \<noteq> None \<and>
    bh_map (cc_binheap c') = (bh_map (cc_binheap c))(y \<mapsto> (XCACHE_LRU_MAX, h), z' := None) \<and>
    ce_h (node c' h) = None"
proof -
  let ?b = "cc_binheap c" and ?r = "key_rank XBINHEAP_MIN"
  have rk: "?r a = uint a" for a by (simp add: key_rank_def XBINHEAP_MIN_def XBINHEAP_MAX_def)
  have top: "uint a \<le> uint XCACHE_LRU_MAX" for a :: u64
    by (simp add: XCACHE_LRU_MAX_def flip: word_le_def)
  define b1 where "b1 = worsen ?b y XCACHE_LRU_MAX"
  have w: "b1 = xbinheap_increasekey ?b y XCACHE_LRU_MAX"
    using assms(7) by (simp add: b1_def worsen_def isMaxHeap_def XBINHEAP_MIN_def XBINHEAP_MAX_def)
  have "bh_inv ?b \<and> bh_flags ?b = XBINHEAP_MIN" using assms(6,7) by simp
  from bhq.chg [OF this assms(9), of XCACHE_LRU_MAX] rk top have
    b1: "bh_inv b1 \<and> bh_flags b1 = XBINHEAP_MIN" "bh_map b1 = (bh_map ?b)(y \<mapsto> (XCACHE_LRU_MAX, h))"
    by (auto simp: b1_def)
  then have "bh_map b1 \<noteq> Map.empty" by auto
  from bhq.ext_some [OF b1(1) this] obtain z' k' v' b2 where b2: "bh_ext b1 = Some (v', b2)"
    "bh_map b1 z' = Some (k', v')" "bh_map b2 = (bh_map b1)(z' := None)"
    "\<forall>j ka va. bh_map b1 j = Some (ka, va) \<longrightarrow> ?r k' \<le> ?r ka" by blast
  have "bh_map b1 z = Some (kz, hz)" using assms(10,11) b1(2) by simp
  with b2(4) have "?r k' \<le> ?r kz" by blast
  then have "uint k' \<le> uint kz" by (simp add: rk)
  have "z' \<noteq> y"
  proof
    assume "z' = y"
    then have "k' = XCACHE_LRU_MAX" using b2(2) b1(2) by simp
    then have "kz = XCACHE_LRU_MAX" using \<open>uint k' \<le> uint kz\<close> top [of kz] by (simp add: word_uint_eq_iff)
    with assms(12) show False by simp
  qed
  moreover have "bh_map ?b z' \<noteq> None" using b2(2) b1(2) \<open>z' \<noteq> y\<close> by simp
  moreover obtain t where t: "table_remove (cc_mem c) (cc_entries c) (name_of c h) = Some (0, t)"
    using table_remove_ok [OF assms(4,5)] by blast
  moreover have "snd (xbinheap_extract b1) = b2" using b2(1) by (simp add: bh_ext_def split: if_splits)
  ultimately show ?thesis using assms(1-3,8) b1(2) b2(3)
    by (intro exI conjI) (auto simp: raw_xcache_remove_entries_def has_flag_def node_def upd_entry_def w Let_def)
qed

definition demo_lru_heap :: xbinheap where
  "demo_lru_heap = snd (xbinheap_insert (snd (xbinheap_insert (demo_heap XBINHEAP_MIN 2) 5 7)) 6 0)"

definition demo_heap_cache :: "unit xcache" where
  "demo_heap_cache = (demo_cache 2)\<lparr>cc_binheap := demo_lru_heap,
     cc_nodes := (cc_nodes (demo_cache 2))[0 := (cc_nodes (demo_cache 2) ! 0)\<lparr>ce_h := Some 1\<rparr>],
     cc_entries := snd (the (table_insert (\<lambda>k. Some (replicate (2 * 2 ^ k) 0)) (demo_cache 2) 0 (cc_entries (demo_cache 2))))\<rparr>"

lemma demo_lru_heap_ok: "bh_inv demo_lru_heap" "bh_flags demo_lru_heap = XBINHEAP_MIN"
  "bh_map demo_lru_heap 0 = Some (5, 7)" "bh_map demo_lru_heap 1 = Some (6, 0)"
  by (code_simp)+

theorem xcache_remove_heap_wrong_witness:
  "\<exists>c'. raw_xcache_remove_entries 0 demo_heap_cache = Some (0, c') \<and> bh_map (cc_binheap c') 0 = None \<and>
     bh_map (cc_binheap c') 1 = Some (XCACHE_LRU_MAX, 0)"
proof -
  let ?c = "demo_cache 2"
  have e: "cc_entries ?c = xhash_init (replicate 16 0) 3 2 XHASH_STRING" "cc_mem ?c = demo_str"
    by (simp_all add: demo_cache_def)
  obtain t where t: "table_insert (\<lambda>k. Some (replicate (2 * 2 ^ k) 0)) ?c 0 (cc_entries ?c) = Some (0, t)"
    "tab_ok (cc_mem ?c) t" "tab (cc_mem ?c) t = Map.empty(cc_mem ?c (name_of ?c 0) \<mapsto> 0)"
    using table_insert_ok [where mem = "\<lambda>k. Some (replicate (2 * 2 ^ k) 0)", of ?c "cc_entries ?c" 0
        "replicate (2 * 2 ^ 3) 0"] demo_tab of_nat_node(3) [of 0 ?c] by (auto simp: e demo_cache_def)
  define d where "d = demo_heap_cache"
  have d: "cc_entries d = t" "cc_mem d = cc_mem ?c" "name_of d 0 = name_of ?c 0" "cc_binheap d = demo_lru_heap"
    "ce_h (node d 0) = Some 1" "unat 0 < length (cc_nodes d)" "has_flag XCACHE_LRU_HEAP d" "\<not> has_flag XCACHE_LRU_ARRAY d"
    by (simp_all add: d_def demo_heap_cache_def t(1) name_of_def node_def has_flag_def XCACHE_LRU_HEAP_def
        XCACHE_LRU_ARRAY_def) (simp_all add: demo_cache_def)
  have dom: "bh_map demo_lru_heap z \<noteq> None \<Longrightarrow> z \<noteq> 1 \<Longrightarrow> z = 0" for z
  proof -
    have "bh_size demo_lru_heap = 2" by code_simp
    then show "bh_map demo_lru_heap z \<noteq> None \<Longrightarrow> z \<noteq> 1 \<Longrightarrow> z = 0" by (auto simp: bh_map_def split: if_splits)
  qed
  have "(5 :: u64) \<noteq> XCACHE_LRU_MAX" by (simp add: XCACHE_LRU_MAX_def)
  then have "\<exists>c' z'. raw_xcache_remove_entries 0 d = Some (0, c') \<and> z' \<noteq> 1 \<and> bh_map (cc_binheap d) z' \<noteq> None \<and>
    bh_map (cc_binheap c') = (bh_map (cc_binheap d))(1 \<mapsto> (XCACHE_LRU_MAX, 0), z' := None) \<and> ce_h (node c' 0) = None"
    by (intro xcache_remove_heap_wrong [where w = 0 and k = 6 and z = 0 and kz = 5 and hz = 7])
      (use d t(2,3) demo_lru_heap_ok in simp_all)
  then obtain c' z' where c': "raw_xcache_remove_entries 0 d = Some (0, c')" "z' \<noteq> 1"
    "bh_map demo_lru_heap z' \<noteq> None"
    "bh_map (cc_binheap c') = (bh_map demo_lru_heap)(1 \<mapsto> (XCACHE_LRU_MAX, 0), z' := None)"
    unfolding d(4) by blast
  have "z' = 0" by (rule dom [OF c'(3,2)])
  then show ?thesis using c'(1,4) unfolding d_def by simp
qed

section \<open>Putting a reference\<close>

text \<open>A hook that changes the client's world only.\<close>

definition world_only :: "('w, 'r) hook \<Rightarrow> bool" where
  "world_only hk \<longleftrightarrow> (\<forall>f. hk = Some f \<longrightarrow> (\<forall>p e c. \<exists>r w. f p e c = Some (r, c\<lparr>cc_world := w\<rparr>)))"

lemma call_world_only: "world_only hk \<Longrightarrow> \<exists>r w. call_hook hk d idx c = Some (r, c\<lparr>cc_world := w\<rparr>)"
proof (cases hk)
  case None
  then show ?thesis by (intro exI [of _ d] exI [of _ "cc_world c"]) (simp add: call_hook_def)
qed (auto simp: call_hook_def world_only_def)

lemma put_last:
  assumes "world_only (on_put ops)" and "world_only (on_free ops)" and "q_wf (cc_free_nodes c)"
    and "unlocked (q_lock (cc_free_nodes c))" and "q_len (cc_free_nodes c) < q_cap (cc_free_nodes c)"
  shows "\<exists>q' w. entry_put_last ops cl idx c = Some (c\<lparr>cc_free_nodes := q', cc_world := w\<rparr>) \<and>
    q_list q' = q_list (cc_free_nodes c) @ [idx]"
proof -
  let ?q = "cc_free_nodes c"
  from call_world_only [OF assms(1), of "()" idx c] obtain w where
    w: "call_hook (on_put ops) () idx c = Some ((), c\<lparr>cc_world := w\<rparr>)" by auto
  from with_lock_free [OF assms(4), of cl "\<lambda>q. raw_xq_append_head q idx"] obtain l where
    l: "xq_append_head cl idx ?q = Some (fst (raw_xq_append_head (?q\<lparr>q_lock := l\<rparr>) idx),
      (snd (raw_xq_append_head (?q\<lparr>q_lock := l\<rparr>) idx))\<lparr>q_lock := free_lock\<rparr>)" by (auto simp: xq_append_head_def)
  define q' where "q' = (snd (raw_xq_append_head (?q\<lparr>q_lock := l\<rparr>) idx))\<lparr>q_lock := free_lock\<rparr>"
  have q': "q_list q' = q_list ?q @ [idx]"
    using xqd.app_head_room [of "?q\<lparr>q_lock := l\<rparr>" idx] assms(3,5) by (simp add: q'_def)
  from call_world_only [OF assms(2), of "()" idx "c\<lparr>cc_world := w, cc_free_nodes := q'\<rparr>"] obtain w' where
    w': "call_hook (on_free ops) () idx (c\<lparr>cc_world := w, cc_free_nodes := q'\<rparr>) =
      Some ((), c\<lparr>cc_free_nodes := q', cc_world := w'\<rparr>)" by auto
  then show ?thesis using w l q' unfolding q'_def [symmetric]
    by (auto simp: entry_put_last_def free_cache_entry_def raw_free_cache_entry_def)
qed

lemma put_ref_fields [simp]:
  "cc_free_nodes (put_ref h c) = cc_free_nodes c" "cc_rm_entries (put_ref h c) = cc_rm_entries c"
  "cc_mem (put_ref h c) = cc_mem c" "cc_entries (put_ref h c) = cc_entries c" "cc_rm_lock (put_ref h c) = cc_rm_lock c"
  "cc_name_at (put_ref h c) = cc_name_at c"
  by (simp_all add: put_ref_def upd_entry_def)

lemma put_ref_ref:
  "unat h < length (cc_nodes c) \<Longrightarrow> ce_ref (node (put_ref h c) h) = ce_ref (node c h) - 1"
  by (simp add: put_ref_def upd_entry_def node_def)

lemma ref_pos: "(r :: u32) - 1 > 0 \<longleftrightarrow> r \<noteq> 1"
  by (simp add: word_neq_0_conv [symmetric])

text \<open>What a put needs: hooks that leave the cache alone, and a free queue with room.\<close>

definition put_ready :: "'w xcache_ops \<Rightarrow> u64 \<Rightarrow> 'w xcache \<Rightarrow> bool" where
  "put_ready ops h c \<longleftrightarrow> world_only (on_put ops) \<and> world_only (on_free ops) \<and> world_only (on_finalize ops) \<and>
     q_wf (cc_free_nodes c) \<and> unlocked (q_lock (cc_free_nodes c)) \<and>
     q_len (cc_free_nodes c) < q_cap (cc_free_nodes c) \<and> unat h < length (cc_nodes c) \<and> unlocked (cc_rm_lock c)"

lemma put_plain:
  assumes "put_ready ops h c" and "\<not> has_flag XCACHE_USE_RMTABLE c"
  shows "\<exists>q' w. q_list q' = q_list (cc_free_nodes c) @ [h] \<and> xcache_put ops cl h c =
    Some (if ce_ref (node c h) \<noteq> 1 then put_ref h c else (put_ref h c)\<lparr>cc_free_nodes := q', cc_world := w\<rparr>)"
proof -
  have "\<exists>q' w. entry_put_last ops cl h (put_ref h c) = Some ((put_ref h c)\<lparr>cc_free_nodes := q', cc_world := w\<rparr>) \<and>
      q_list q' = q_list (cc_free_nodes (put_ref h c)) @ [h]"
    by (rule put_last) (use assms(1) in \<open>simp_all add: put_ready_def\<close>)
  then show ?thesis using assms put_ref_ref [of h c]
    by (auto simp: xcache_put_def xcache_entry_put_def Let_def ref_pos put_ready_def)
qed

lemma put_rm:
  assumes "put_ready ops h c" and "has_flag XCACHE_USE_RMTABLE c"
  shows "\<exists>d. cc_free_nodes d = cc_free_nodes c \<and> cc_rm_entries d = cc_rm_entries c \<and> cc_mem d = cc_mem c \<and>
    cc_entries d = cc_entries c \<and> ce_ref (node d h) = ce_ref (node c h) - 1 \<and> name_of d h = name_of c h \<and>
    xcache_put ops cl h c = (if ce_ref (node c h) \<noteq> 1 then Some (rm_release d)
       else do { (r, d) \<leftarrow> raw_xcache_remove_rm h d;
            if r < 0 then Some (rm_release d) else entry_put_last ops cl h (rm_release d) })"
proof -
  define d where "d = put_ref h (c\<lparr>cc_rm_lock := \<lparr>lk_owner = caller_word cl, lk_pc = c_pc cl\<rparr>\<rparr>)"
  have d: "ce_ref (node d h) = ce_ref (node c h) - 1"
    using put_ref_ref [of h "c\<lparr>cc_rm_lock := \<lparr>lk_owner = caller_word cl, lk_pc = c_pc cl\<rparr>\<rparr>"] assms(1)
    by (simp add: d_def put_ready_def node_def)
  from assms(1) call_world_only [of "on_finalize ops" 0 h d] obtain r w where
    w: "call_hook (on_finalize ops) 0 h d = Some (r, d\<lparr>cc_world := w\<rparr>)" by (auto simp: put_ready_def)
  define e where "e = (if ce_ref (node c h) \<noteq> 1 then d else d\<lparr>cc_world := w\<rparr>)"
  have "cc_free_nodes e = cc_free_nodes c" "cc_rm_entries e = cc_rm_entries c" "cc_mem e = cc_mem c"
    "cc_entries e = cc_entries c" "name_of e h = name_of c h" by (simp_all add: e_def d_def name_of_def)
  moreover have "ce_ref (node e h) = ce_ref (node c h) - 1" using d by (simp add: e_def node_def)
  moreover have "xcache_put ops cl h c = (if ce_ref (node c h) \<noteq> 1 then Some (rm_release e)
       else do { (r, d) \<leftarrow> raw_xcache_remove_rm h e;
            if r < 0 then Some (rm_release d) else entry_put_last ops cl h (rm_release d) })"
    using assms d ref_pos [of "ce_ref (node c h)"] w
    by (simp add: xcache_put_def xcache_entry_put_def rm_acquire_def put_ready_def d_def [symmetric] e_def)
      (auto simp: node_def)
  ultimately show ?thesis by blast
qed



end
