(* ===== verification/Xdomain.thy ===== *)
theory Xdomain
  imports Prelude
begin

text \<open>
  The parts of \<^verbatim>\<open>xseg.c\<close> that belong to the process and not to a segment: the two tables
  of registered segment types and peer types, and the parsing of a segment specification.
  A registered structure is a pointer (a natural, 0 for null); \<open>nm\<close> gives the name in the
  structure. The domain lock and \<^verbatim>\<open>__load_plugin\<close> come from the domain
  (\<^verbatim>\<open>xseg_user.c\<close>): the plugin loader is a parameter, which may register more types.
\<close>

section \<open>Registries\<close>

definition XSEG_NR_TYPES :: nat where "XSEG_NR_TYPES = 16"
definition XSEG_NR_PEER_TYPES :: nat where "XSEG_NR_PEER_TYPES = 64"
definition XSEG_TNAMESIZE :: nat where "XSEG_TNAMESIZE = 32"
definition XSEG_NAMESIZE :: nat where "XSEG_NAMESIZE = 256"

text \<open>The arrays have a fixed size; the slots behind the count are not read.\<close>

record domain =
  dm_types :: "nat list"
  dm_nr_types :: nat
  dm_peer_types :: "nat list"
  dm_nr_peer_types :: nat

text \<open>\<^verbatim>\<open>strncmp\<close> of two C strings is 0.\<close>

definition strncmp_eq :: "string \<Rightarrow> string \<Rightarrow> nat \<Rightarrow> bool" where
  "strncmp_eq a b n \<longleftrightarrow> take n a = take n b"

text \<open>The loops return the entry, or null, and the index where they stopped.\<close>

fun find_from :: "(nat \<Rightarrow> string) \<Rightarrow> string \<Rightarrow> nat list \<Rightarrow> nat \<Rightarrow> nat \<Rightarrow> nat \<times> nat" where
  "find_from nm name a 0 i = (0, i)"
| "find_from nm name a (Suc k) i =
     (if strncmp_eq (nm (a ! i)) name XSEG_TNAMESIZE then (a ! i, i) else find_from nm name a k (i + 1))"

definition find_type :: "(nat \<Rightarrow> string) \<Rightarrow> string \<Rightarrow> domain \<Rightarrow> nat \<times> nat" where
  "find_type nm name d = find_from nm name (dm_types d) (dm_nr_types d) 0"

definition find_peer_type :: "(nat \<Rightarrow> string) \<Rightarrow> string \<Rightarrow> domain \<Rightarrow> nat \<times> nat" where
  "find_peer_type nm name d = find_from nm name (dm_peer_types d) (dm_nr_peer_types d) 0"

definition xseg_report_peer_types :: "(nat \<Rightarrow> string) \<Rightarrow> domain \<Rightarrow> (nat \<times> string) list" where
  "xseg_report_peer_types nm d = map (\<lambda>i. (i, nm (dm_peer_types d ! i))) [0..<dm_nr_peer_types d]"

definition find_or_load_type ::
  "(nat \<Rightarrow> string) \<Rightarrow> (string \<Rightarrow> domain \<Rightarrow> domain) \<Rightarrow> string option \<Rightarrow> domain \<Rightarrow> nat \<times> domain" where
  "find_or_load_type nm load_plugin name d =
     (case name of None \<Rightarrow> (0, d)
      | Some name \<Rightarrow>
          let ty = fst (find_type nm name d) in
          if ty \<noteq> 0 then (ty, d)
          else let d = load_plugin name d in (fst (find_type nm name d), d))"

definition find_or_load_peer_type ::
  "(nat \<Rightarrow> string) \<Rightarrow> (string \<Rightarrow> domain \<Rightarrow> domain) \<Rightarrow> string option \<Rightarrow> domain \<Rightarrow> nat \<times> domain" where
  "find_or_load_peer_type nm load_plugin name d =
     (case name of None \<Rightarrow> (0, d)
      | Some name \<Rightarrow>
          let ty = fst (find_peer_type nm name d) in
          if ty \<noteq> 0 then (ty, d)
          else let d = load_plugin name d in (fst (find_peer_type nm name d), d))"

text \<open>
  Registration cuts the name at \<^verbatim>\<open>XSEG_TNAMESIZE - 1\<close> bytes: the results are the code, the
  names and the domain.
\<close>

definition cut_name :: "nat \<Rightarrow> (nat \<Rightarrow> string) \<Rightarrow> nat \<Rightarrow> string" where
  "cut_name ty nm = nm(ty := take (XSEG_TNAMESIZE - 1) (nm ty))"

definition xseg_register_type :: "nat \<Rightarrow> (nat \<Rightarrow> string) \<Rightarrow> domain \<Rightarrow> int \<times> (nat \<Rightarrow> string) \<times> domain" where
  "xseg_register_type ty nm d =
     (if ty = 0 then (-1, nm, d)
      else if fst (find_type nm (nm ty) d) \<noteq> 0 then (-1, nm, d)
      else if dm_nr_types d \<ge> XSEG_NR_TYPES then (-2, nm, d)
      else (0, cut_name ty nm,
            d\<lparr>dm_types := (dm_types d)[dm_nr_types d := ty], dm_nr_types := dm_nr_types d + 1\<rparr>))"

definition xseg_unregister_type :: "string option \<Rightarrow> (nat \<Rightarrow> string) \<Rightarrow> domain \<Rightarrow> int \<times> domain" where
  "xseg_unregister_type name nm d =
     (case name of None \<Rightarrow> (-1, d)
      | Some name \<Rightarrow>
          let (ty, i) = find_type nm name d in
          if ty = 0 then (-1, d)
          else let n = dm_nr_types d - 1; a = dm_types d in
            (0, d\<lparr>dm_nr_types := n, dm_types := (a[i := a ! n])[n := 0]\<rparr>))"

text \<open>\<open>init\<close> is the result of the peer type's \<^verbatim>\<open>remote_signal_init\<close>.\<close>

definition xseg_register_peer ::
  "(nat \<Rightarrow> int) \<Rightarrow> nat \<Rightarrow> (nat \<Rightarrow> string) \<Rightarrow> domain \<Rightarrow> int \<times> (nat \<Rightarrow> string) \<times> domain" where
  "xseg_register_peer init ty nm d =
     (if ty = 0 then (-1, nm, d)
      else if fst (find_peer_type nm (nm ty) d) \<noteq> 0 then (-1, nm, d)
      else if dm_nr_peer_types d \<ge> XSEG_NR_PEER_TYPES then (-2, nm, d)
      else if init ty \<noteq> 0 then (-2, nm, d)
      else (0, cut_name ty nm,
            d\<lparr>dm_peer_types := (dm_peer_types d)[dm_nr_peer_types d := ty],
              dm_nr_peer_types := dm_nr_peer_types d + 1\<rparr>))"

text \<open>The first result besides the code is the peer type whose \<^verbatim>\<open>remote_signal_quit\<close> is called.\<close>

definition xseg_unregister_peer :: "string option \<Rightarrow> (nat \<Rightarrow> string) \<Rightarrow> domain \<Rightarrow> int \<times> nat option \<times> domain" where
  "xseg_unregister_peer name nm d =
     (case name of None \<Rightarrow> (-1, None, d)
      | Some name \<Rightarrow>
          let (ty, i) = find_peer_type nm name d in
          if ty = 0 then (-1, None, d)
          else let n = dm_nr_peer_types d - 1; a = dm_peer_types d in
            (0, Some ty, d\<lparr>dm_nr_peer_types := n, dm_peer_types := (a[i := a ! n])[n := 0]\<rparr>))"

section \<open>Segment specifications\<close>

record xseg_config =
  cf_heap_size :: u64
  cf_nr_ports :: u32
  cf_dynports :: u32
  cf_page_shift :: u32
  cf_type :: string
  cf_name :: string

text \<open>
  \<^verbatim>\<open>TOK\<close>: the characters up to a colon, which is overwritten by the end of the string and
  skipped; where the string ends first, the default. The results are the token and what is
  left of the specification.
\<close>

fun TOK :: "string \<Rightarrow> string \<Rightarrow> string \<Rightarrow> string \<times> string" where
  "TOK def acc [] = (def, [])"
| "TOK def acc (c # sp) = (if c = CHR '':'' then (rev acc, sp) else TOK def (c # acc) sp)"

text \<open>\<^verbatim>\<open>strul\<close>: decimal digits, wrapping at \<open>2 ^ 64\<close>, up to the first other character.\<close>

definition digit :: "char \<Rightarrow> 8 word" where
  "digit c = of_nat (of_char c) - 48"

fun strul_from :: "u64 \<Rightarrow> string \<Rightarrow> u64" where
  "strul_from n [] = n"
| "strul_from n (c # s) = (if digit c \<ge> 10 then n else strul_from (n * 10 + ucast (digit c)) s)"

definition strul :: "string \<Rightarrow> u64" where
  "strul s = strul_from 0 s"

definition xseg_parse_spec :: "string \<Rightarrow> xseg_config \<Rightarrow> int \<times> xseg_config" where
  "xseg_parse_spec segspec config =
     (let sp = segspec;
          (s, sp) = TOK ''posix'' [] sp;
          config = config\<lparr>cf_type := take (XSEG_TNAMESIZE - 1) s\<rparr>;
          (s, sp) = TOK ''globalxseg'' [] sp;
          config = config\<lparr>cf_name := take (XSEG_NAMESIZE - 1) s\<rparr>;
          (s, sp) = TOK ''64'' [] sp;
          config = config\<lparr>cf_dynports := ucast (strul s)\<rparr>;
          (s, sp) = TOK ''128'' [] sp;
          config = config\<lparr>cf_nr_ports := ucast (strul s)\<rparr>;
          (s, sp) = TOK ''256'' [] sp;
          config = config\<lparr>cf_heap_size := strul s * 1024 * 1024\<rparr>;
          (s, sp) = TOK ''12'' [] sp
      in (0, config\<lparr>cf_page_shift := ucast (strul s)\<rparr>))"

text \<open>
  \<^verbatim>\<open>page_size\<close> is a 32-bit number; \<^verbatim>\<open>2 * page_size\<close> is computed in 32 bits before the
  heap size is added.
\<close>

definition calculate_segment_size :: "xseg_config \<Rightarrow> u64" where
  "calculate_segment_size config =
     (let page_shift = cf_page_shift config in
      if page_shift < 9 then 0
      else let page_size = shl_int (unat page_shift); sz = ucast (2 * page_size) + cf_heap_size config
           in align sz (unat page_shift))"

section \<open>Reading back a specification\<close>

text \<open>The decimal digits of a number, and the fields of a specification.\<close>

definition digit_char :: "nat \<Rightarrow> char" where "digit_char k = char_of (48 + k)"

fun dec :: "nat \<Rightarrow> string" where
  "dec n = (if n < 10 then [digit_char n] else dec (n div 10) @ [digit_char (n mod 10)])"

declare dec.simps [simp del]

definition digits :: "string \<Rightarrow> bool" where "digits s \<longleftrightarrow> (\<forall>c\<in>set s. \<exists>k<10. c = digit_char k)"

lemma digit_digit_char: "k < 10 \<Longrightarrow> digit (digit_char k) = of_nat k"
  by (simp add: digit_def digit_char_def)

lemma digit_small: "k < 10 \<Longrightarrow> \<not> digit (digit_char k) \<ge> 10"
  by (simp add: digit_digit_char word_le_nat_alt unat_of_nat)

lemma digit_char_colon: "k < 10 \<Longrightarrow> digit_char k \<noteq> CHR '':''"
proof
  assume "k < 10" "digit_char k = CHR '':''"
  then have "(of_char (digit_char k) :: nat) = of_char (CHR '':'')" by simp
  with \<open>k < 10\<close> show False by (simp add: digit_char_def)
qed

lemma digits_dec: "digits (dec n)"
proof (induction n rule: dec.induct)
  case (1 n)
  have "n mod 10 < 10" by simp
  then have "\<exists>k<10. digit_char (n mod 10) = digit_char k" by blast
  with 1 show ?case by (subst dec.simps) (auto simp: digits_def)
qed

lemma colon_dec: "CHR '':'' \<notin> set (dec n)"
  using digits_dec [of n] digit_char_colon unfolding digits_def by metis

lemma strul_from_append: "digits xs \<Longrightarrow> strul_from n (xs @ ys) = strul_from (strul_from n xs) ys"
  by (induction xs arbitrary: n) (auto simp: digits_def digit_small)

lemma strul_dec: "strul (dec n) = of_nat n"
proof (induction n rule: dec.induct)
  case (1 n)
  have last: "strul_from a [digit_char k] = a * 10 + of_nat k" if "k < 10" for a k
    using that digit_small [OF that] by (simp add: digit_digit_char unsigned_of_nat take_bit_nat_eq_self)
  show ?case
  proof (cases "n < 10")
    case True
    then show ?thesis using last [OF True, of 0] by (simp add: strul_def dec.simps)
  next
    case False
    then have "strul (dec n) = strul_from (of_nat (n div 10)) [digit_char (n mod 10)]"
      using 1 [OF False] strul_from_append [OF digits_dec, of 0 "n div 10"] by (subst dec.simps) (simp add: strul_def)
    also have "\<dots> = of_nat (n div 10) * 10 + of_nat (n mod 10)" by (rule last) simp
    also have "\<dots> = of_nat (n div 10 * 10 + n mod 10)" by (simp only: of_nat_add of_nat_mult of_nat_numeral)
    finally show ?thesis by (simp only: div_mult_mod_eq)
  qed
qed

lemma TOK_field: "CHR '':'' \<notin> set s \<Longrightarrow> TOK def acc (s @ CHR '':'' # sp) = (rev acc @ s, sp)"
  by (induction s arbitrary: acc) auto

lemma TOK_end: "CHR '':'' \<notin> set s \<Longrightarrow> TOK def acc s = (def, [])"
  by (induction s arbitrary: acc) auto

definition spec_fields :: "string \<Rightarrow> string \<Rightarrow> nat \<Rightarrow> nat \<Rightarrow> nat \<Rightarrow> string" where
  "spec_fields ty nm d p h = ty @ '':'' @ nm @ '':'' @ dec d @ '':'' @ dec p @ '':'' @ dec h @ '':''"

text \<open>
  C37. A specification whose fields all end in a colon is read back exactly: type, name, number
  of dynamic ports and of ports, heap size in megabytes, page shift. A last field that is
  not followed by a colon is not read at all but replaced by the default, here the page
  shift by 12; in the same way a specification of the type alone is that of a type
  \<open>posix\<close>, whatever it says.
\<close>

theorem parse_spec_roundtrip:
  assumes "CHR '':'' \<notin> set ty" and "length ty < XSEG_TNAMESIZE" and "CHR '':'' \<notin> set nm"
    and "length nm < XSEG_NAMESIZE"
  shows "xseg_parse_spec (spec_fields ty nm d p h @ dec sh @ '':'') cfg =
      (0, cfg\<lparr>cf_type := ty, cf_name := nm, cf_dynports := of_nat d, cf_nr_ports := of_nat p,
              cf_heap_size := of_nat (h * 1024 * 1024), cf_page_shift := of_nat sh\<rparr>) \<and>
    xseg_parse_spec (spec_fields ty nm d p h @ dec sh) cfg =
      (0, cfg\<lparr>cf_type := ty, cf_name := nm, cf_dynports := of_nat d, cf_nr_ports := of_nat p,
              cf_heap_size := of_nat (h * 1024 * 1024), cf_page_shift := 12\<rparr>) \<and>
    cf_type (snd (xseg_parse_spec ty cfg)) = ''posix''"
proof -
  have u: "ucast (of_nat k :: u64) = (of_nat k :: u32)" for k by (rule bit_word_eqI) (auto simp: bit_simps)
  have d12: "strul ''12'' = 12" by code_simp
  have cut: "length ty \<le> XSEG_TNAMESIZE - Suc 0" "length nm \<le> XSEG_NAMESIZE - Suc 0"
    "Suc (Suc (Suc (Suc (Suc 0)))) \<le> XSEG_TNAMESIZE - Suc 0"
    using assms(2,4) by (simp_all add: XSEG_TNAMESIZE_def)
  show ?thesis
    by (intro conjI) (simp_all add: xseg_parse_spec_def spec_fields_def TOK_field TOK_end assms colon_dec strul_dec
        u cut d12)
qed

theorem parse_spec_roundtrip_witness:
  "xseg_parse_spec ''pthread:seg:8:32:4:16:'' \<lparr>cf_heap_size = 0, cf_nr_ports = 0, cf_dynports = 0,
      cf_page_shift = 0, cf_type = '''', cf_name = ''''\<rparr> =
    (0, \<lparr>cf_heap_size = 4194304, cf_nr_ports = 32, cf_dynports = 8, cf_page_shift = 16,
      cf_type = ''pthread'', cf_name = ''seg''\<rparr>)"
proof -
  have e: "spec_fields ''pthread'' ''seg'' 8 32 4 @ dec 16 @ '':'' = ''pthread:seg:8:32:4:16:''" by code_simp
  show ?thesis
    using parse_spec_roundtrip [of "''pthread''" "''seg''" 8 32 4 16 "\<lparr>cf_heap_size = 0, cf_nr_ports = 0,
        cf_dynports = 0, cf_page_shift = 0, cf_type = '''', cf_name = ''''\<rparr>"]
    by (simp add: e XSEG_TNAMESIZE_def XSEG_NAMESIZE_def)
qed

section \<open>What a registry holds\<close>

text \<open>
  A registry of \<open>n\<close> entries: no null pointer, and names that differ within the compared
  length. Looking up a name is then a map lookup.
\<close>

definition same_name :: "string \<Rightarrow> string \<Rightarrow> bool" where
  "same_name a b \<longleftrightarrow> take XSEG_TNAMESIZE a = take XSEG_TNAMESIZE b"

definition reg_ok :: "(nat \<Rightarrow> string) \<Rightarrow> nat list \<Rightarrow> nat \<Rightarrow> bool" where
  "reg_ok nm a n \<longleftrightarrow> n \<le> length a \<and> (\<forall>i<n. a ! i \<noteq> 0) \<and>
     (\<forall>i<n. \<forall>j<n. same_name (nm (a ! i)) (nm (a ! j)) \<longrightarrow> i = j)"

definition registered :: "(nat \<Rightarrow> string) \<Rightarrow> nat list \<Rightarrow> nat \<Rightarrow> string \<Rightarrow> nat \<Rightarrow> bool" where
  "registered nm a n name t \<longleftrightarrow> (\<exists>i<n. a ! i = t \<and> same_name (nm t) name)"

lemma find_from_cases:
  "(case find_from nm name a k i of (t, j) \<Rightarrow>
     (i \<le> j \<and> j < i + k \<and> t = a ! j \<and> same_name (nm t) name \<or>
      t = 0 \<and> j = i + k \<and> (\<forall>l. i \<le> l \<and> l < i + k \<longrightarrow> \<not> same_name (nm (a ! l)) name)))"
proof (induction k arbitrary: i)
  case (Suc k)
  show ?case
  proof (cases "same_name (nm (a ! i)) name")
    case True
    then show ?thesis by (simp add: strncmp_eq_def same_name_def)
  next
    case False
    then have "l = i \<or> Suc i \<le> l" if "i \<le> l" for l using that by auto
    with Suc [of "Suc i"] False show ?thesis by (fastforce simp: strncmp_eq_def same_name_def)
  qed
qed auto

lemma find_registered:
  assumes "reg_ok nm a n"
  shows "fst (find_from nm name a n 0) = t \<and> t \<noteq> 0 \<longleftrightarrow> registered nm a n name t"
proof -
  obtain u j where f: "find_from nm name a n 0 = (u, j)" by fastforce
  show ?thesis
  proof (cases "j < n")
    case True
    then have u: "u = a ! j" "same_name (nm u) name" using find_from_cases [where nm = nm and name = name and a = a and k = n and i = 0] f by auto
    have "registered nm a n name t \<longleftrightarrow> t = u"
    proof
      assume "registered nm a n name t"
      then obtain i where i: "i < n" "a ! i = t" "same_name (nm t) name" by (auto simp: registered_def)
      then have "same_name (nm (a ! i)) (nm (a ! j))" using u by (simp add: same_name_def)
      then have "i = j" using assms i(1) True by (auto simp: reg_ok_def)
      then show "t = u" using i u by simp
    qed (use u True in \<open>auto simp: registered_def\<close>)
    moreover have "u \<noteq> 0" using assms True u by (simp add: reg_ok_def)
    ultimately show ?thesis using f by auto
  next
    case False
    then have "u = 0" "\<forall>l<n. \<not> same_name (nm (a ! l)) name" using find_from_cases [where nm = nm and name = name and a = a and k = n and i = 0] f by auto
    then show ?thesis using f by (auto simp: registered_def)
  qed
qed

lemma reg_add:
  assumes ok: "reg_ok nm a n" and lt: "n < length a" and t: "t \<noteq> 0" "length (nm t) < XSEG_TNAMESIZE"
    and new: "fst (find_from nm (nm t) a n 0) = 0"
  shows "reg_ok (cut_name t nm) (a[n := t]) (Suc n)"
    and "registered (cut_name t nm) (a[n := t]) (Suc n) name u \<longleftrightarrow>
      registered nm a n name u \<or> u = t \<and> same_name (nm t) name"
proof -
  have nm: "cut_name t nm = nm" using t(2) by (auto simp: cut_name_def)
  have no: "\<not> same_name (nm (a ! i)) (nm t)" if "i < n" for i
    using find_registered [OF ok, of "nm t" "a ! i"] new that ok by (auto simp: registered_def reg_ok_def)
  then have no': "\<not> same_name (nm t) (nm (a ! i))" if "i < n" for i using that by (metis same_name_def)
  show "reg_ok (cut_name t nm) (a[n := t]) (Suc n)"
    using ok lt t(1) no no' unfolding nm by (auto simp: reg_ok_def less_Suc_eq nth_list_update)
  show "registered (cut_name t nm) (a[n := t]) (Suc n) name u \<longleftrightarrow>
      registered nm a n name u \<or> u = t \<and> same_name (nm t) name"
    using lt unfolding nm by (auto simp: registered_def less_Suc_eq nth_list_update)
qed

lemma reg_del:
  assumes ok: "reg_ok nm a n" and f: "find_from nm name0 a n 0 = (t, i)" "t \<noteq> 0"
  shows "reg_ok nm (a[i := a ! (n - 1), n - 1 := 0]) (n - 1)"
    and "registered nm (a[i := a ! (n - 1), n - 1 := 0]) (n - 1) name u \<longleftrightarrow> registered nm a n name u \<and> u \<noteq> t"
proof -
  let ?b = "a[i := a ! (n - 1), n - 1 := 0]"
  have i: "i < n" "t = a ! i" "same_name (nm t) name0" using find_from_cases [where nm = nm and name = name0 and a = a and k = n and i = 0] f by auto
  have b: "?b ! j = (if j = i then a ! (n - 1) else a ! j)" if "j < n - 1" for j
    using that i ok by (auto simp: reg_ok_def nth_list_update)
  have inj: "l = m" if "l < n" "m < n" "same_name (nm (a ! l)) (nm (a ! m))" for l m
    using ok that by (auto simp: reg_ok_def)
  show "reg_ok nm ?b (n - 1)" unfolding reg_ok_def
  proof (intro conjI allI impI)
    show "n - 1 \<le> length ?b" using ok by (auto simp: reg_ok_def)
    show "?b ! j \<noteq> 0" if "j < n - 1" for j using that ok i b by (auto simp: reg_ok_def)
    show "j = l" if "j < n - 1" "l < n - 1" "same_name (nm (?b ! j)) (nm (?b ! l))" for j l
    proof -
      have "(if j = i then n - 1 else j) = (if l = i then n - 1 else l)"
        by (rule inj) (use that(1,2) that(3) [unfolded b [OF that(1)] b [OF that(2)]] in \<open>auto split: if_splits\<close>)
      then show ?thesis using that(1,2) by (auto split: if_splits)
    qed
  qed
  show "registered nm ?b (n - 1) name u \<longleftrightarrow> registered nm a n name u \<and> u \<noteq> t"
  proof
    assume "registered nm ?b (n - 1) name u"
    then obtain j where j: "j < n - 1" "?b ! j = u" "same_name (nm u) name" by (auto simp: registered_def)
    define k where "k = (if j = i then n - 1 else j)"
    have k: "k < n" "a ! k = u" "k \<noteq> i" using j b [OF j(1)] by (auto simp: k_def)
    have "u \<noteq> t" using inj [OF k(1) i(1)] k i by (auto simp: same_name_def)
    then show "registered nm a n name u \<and> u \<noteq> t" using k j(3) by (auto simp: registered_def)
  next
    assume r: "registered nm a n name u \<and> u \<noteq> t"
    then obtain j where j: "j < n" "a ! j = u" "same_name (nm u) name" by (auto simp: registered_def)
    define k where "k = (if j = n - 1 then i else j)"
    have "j \<noteq> i" using r j(2) i(2) by auto
    then have "k < n - 1" "?b ! k = u" using j i b [of k] by (auto simp: k_def split: if_splits)
    then show "registered nm ?b (n - 1) name u" using j(3) by (auto simp: registered_def)
  qed
qed

lemma find_eqI:
  assumes "reg_ok nm a n" and "\<And>u. registered nm a n name u \<longleftrightarrow> u = v \<and> v \<noteq> 0"
  shows "fst (find_from nm name a n 0) = v"
  using find_registered [OF assms(1), of name] assms(2) by (metis (full_types))

lemma find_add:
  assumes "reg_ok nm a n" and "n < length a" and "ty \<noteq> 0" and "length (nm ty) < XSEG_TNAMESIZE"
    and "fst (find_from nm (nm ty) a n 0) = 0"
  shows "fst (find_from (cut_name ty nm) name (a[n := ty]) (Suc n) 0) =
    (if same_name (nm ty) name then ty else fst (find_from nm name a n 0))"
proof -
  note r = reg_add [OF assms] and fr = find_registered [OF assms(1)]
  have "fst (find_from nm name a n 0) = 0" if "same_name (nm ty) name"
  proof (rule ccontr)
    assume "fst (find_from nm name a n 0) \<noteq> 0"
    then obtain u where "registered nm a n name u" using fr by blast
    with that have "registered nm a n (nm ty) u" by (auto simp: registered_def same_name_def)
    then have "fst (find_from nm (nm ty) a n 0) = u \<and> u \<noteq> 0" using fr by blast
    with assms(5) show False by simp
  qed
  then show ?thesis by (intro find_eqI [OF r(1)]) (unfold r(2) fr [symmetric], use assms(3) in auto)
qed

lemma find_del:
  assumes "reg_ok nm a n" and "find_from nm name0 a n 0 = (t, i)" and "t \<noteq> 0"
  shows "fst (find_from nm name (a[i := a ! (n - 1), n - 1 := 0]) (n - 1) 0) =
    (if fst (find_from nm name a n 0) = t then 0 else fst (find_from nm name a n 0))"
proof -
  note r = reg_del [OF assms] and fr = find_registered [OF assms(1)]
  show ?thesis by (intro find_eqI [OF r(1)]) (unfold r(2) fr [symmetric], use assms(3) in auto)
qed

text \<open>
  The registry of segment types (names of up to 31 bytes): a type whose name is taken is
  refused, and so is one beyond the sixteenth; otherwise registering makes exactly the new
  type found under its name, and unregistering a name removes exactly the type found under
  it, keeping all others. Both keep the registry free of null entries and of duplicates.
\<close>

theorem type_registry:
  assumes "reg_ok nm (dm_types d) (dm_nr_types d)" and "length (dm_types d) = XSEG_NR_TYPES"
    and "ty \<noteq> 0" and "length (nm ty) < XSEG_TNAMESIZE"
  shows "(case xseg_register_type ty nm d of (r, nm', d') \<Rightarrow>
      if fst (find_type nm (nm ty) d) \<noteq> 0 then r = -1 \<and> nm' = nm \<and> d' = d
      else if dm_nr_types d = XSEG_NR_TYPES then r = -2 \<and> nm' = nm \<and> d' = d
      else r = 0 \<and> reg_ok nm' (dm_types d') (dm_nr_types d') \<and>
        (\<forall>name. fst (find_type nm' name d') = (if same_name (nm ty) name then ty else fst (find_type nm name d)))) \<and>
    (case xseg_unregister_type (Some name0) nm d of (r, d') \<Rightarrow>
      let t = fst (find_type nm name0 d) in
      if t = 0 then r = -1 \<and> d' = d
      else r = 0 \<and> reg_ok nm (dm_types d') (dm_nr_types d') \<and>
        (\<forall>name. fst (find_type nm name d') = (if fst (find_type nm name d) = t then 0 else fst (find_type nm name d))))"
proof (intro conjI)
  have le: "dm_nr_types d \<le> XSEG_NR_TYPES" using assms(1,2) by (simp add: reg_ok_def)
  show "case xseg_register_type ty nm d of (r, nm', d') \<Rightarrow>
    if fst (find_type nm (nm ty) d) \<noteq> 0 then r = -1 \<and> nm' = nm \<and> d' = d
    else if dm_nr_types d = XSEG_NR_TYPES then r = -2 \<and> nm' = nm \<and> d' = d
    else r = 0 \<and> reg_ok nm' (dm_types d') (dm_nr_types d') \<and>
      (\<forall>name. fst (find_type nm' name d') = (if same_name (nm ty) name then ty else fst (find_type nm name d)))"
    using le assms reg_add(1) [OF assms(1) _ assms(3,4)] find_add [OF assms(1) _ assms(3,4)]
    by (auto simp: xseg_register_type_def find_type_def)
  show "case xseg_unregister_type (Some name0) nm d of (r, d') \<Rightarrow>
    let t = fst (find_type nm name0 d) in
    if t = 0 then r = -1 \<and> d' = d
    else r = 0 \<and> reg_ok nm (dm_types d') (dm_nr_types d') \<and>
      (\<forall>name. fst (find_type nm name d') = (if fst (find_type nm name d) = t then 0 else fst (find_type nm name d)))"
    using reg_del(1) [OF assms(1)] find_del [OF assms(1)]
    by (auto simp: xseg_unregister_type_def Let_def find_type_def split: prod.splits)
qed

theorem type_registry_witness:
  "fst (find_type (\<lambda>_. ''posix'') ''posix'' (snd (snd (xseg_register_type 7 (\<lambda>_. ''posix'')
     \<lparr>dm_types = replicate 16 0, dm_nr_types = 0, dm_peer_types = [], dm_nr_peer_types = 0\<rparr>)))) = 7"
proof -
  let ?d = "\<lparr>dm_types = replicate 16 0, dm_nr_types = 0, dm_peer_types = [], dm_nr_peer_types = 0\<rparr>"
  have c: "cut_name 7 (\<lambda>_. ''posix'') = (\<lambda>_. ''posix'')" by (simp add: cut_name_def XSEG_TNAMESIZE_def fun_eq_iff)
  then show ?thesis
    using type_registry [of "\<lambda>_. ''posix''" ?d 7 "''x''"]
    by (simp add: reg_ok_def XSEG_NR_TYPES_def XSEG_TNAMESIZE_def find_type_def xseg_register_type_def same_name_def)
qed

end
