(* ===== verification/Xsys.thy ===== *)
theory Xsys
  imports Xlock
begin

text \<open>
  What the peer types of \<^verbatim>\<open>xseg_posix.c\<close>, \<^verbatim>\<open>xseg_pthread.c\<close> and \<^verbatim>\<open>xseg_posixfd.c\<close> use of the
  system, and what they keep outside the segment. A system or library call is recorded in
  the history of the process, and \<open>env\<close>, a parameter, gives its result from that history:
  what the system does is arbitrary. The pointers of a call are numbers; of the memory
  behind them only what the code reads back is in the result.
\<close>

section \<open>System calls\<close>

text \<open>A \<^verbatim>\<open>pid_t\<close> is a signed 32-bit number.\<close>

type_synonym pid_t = "32 word"

datatype mask_how = Sig_block | Sig_setmask

datatype tls_key = K_pid | K_xpidx | K_mask | K_act | K_id

datatype syscall =
  Gettid
| Tkill pid_t
| Sig_handler bool
| Sigprocmask mask_how
| Sigaction nat nat
| Pthread_sigmask mask_how nat nat
| Sigtimedwait nat nat
| Malloc nat
| Realloc nat nat
| Mfree nat
| Key_create tls_key
| Setspecific tls_key
| Shm_open string bool
| Ftruncate int u64
| Shm_unlink string
| Mmap int u64
| Munmap nat u64
| Mkfifo string
| Open_rdwr string
| Open_wronly string
| Unlink string
| Fclose int
| Stat string
| Chmod string u32
| Read int
| Write int
| Select int nat nat
| Open_append string
| Dup2 int int
| Write_part int nat nat
| Dlopen string
| Dlsym int string
| Call_function int

text \<open>
  The result of a call, the error number it leaves, and what it writes for the caller: the
  number of the signal that was received, the mode of a file, the contents of a mapping.
\<close>

record sysres =
  sr_ret :: int
  sr_errno :: int
  sr_info :: int

type_synonym env = "syscall list \<Rightarrow> sysres"

definition EINTR :: int where "EINTR = 4"
definition EEXIST :: int where "EEXIST = 17"

section \<open>The state of a process\<close>

text \<open>
  The newest call comes first. \<open>pp_pid\<close> is the variable \<^verbatim>\<open>pid\<close> of \<^verbatim>\<open>xseg_posix.c\<close>; the rest is
  of \<^verbatim>\<open>xseg_pthread.c\<close>: whether \<^verbatim>\<open>keys_init\<close> has run and its result, the next identifier and, for every
  thread, what it has stored under the keys, nothing or 0 at first.
\<close>

record thread_data =
  td_pid :: pid_t
  td_id :: int
  td_mask :: nat
  td_act :: nat

record peer_proc =
  pp_calls :: "syscall list"
  pp_pid :: pid_t
  pp_once :: bool
  pp_is_init :: bool
  pp_next_id :: int
  pp_threads :: "u32 \<Rightarrow> thread_data"

definition no_thread :: thread_data where
  "no_thread = \<lparr>td_pid = 0, td_id = 0, td_mask = 0, td_act = 0\<rparr>"

definition new_proc :: peer_proc where
  "new_proc = \<lparr>pp_calls = [], pp_pid = 0, pp_once = False, pp_is_init = False, pp_next_id = 0, pp_threads = \<lambda>_. no_thread\<rparr>"

definition sys :: "env \<Rightarrow> syscall \<Rightarrow> peer_proc \<Rightarrow> sysres \<times> peer_proc" where
  "sys env c p = (let cs = c # pp_calls p in (env cs, p\<lparr>pp_calls := cs\<rparr>))"

text \<open>The result of a call, for the many callers that look at nothing else.\<close>

definition sys_ret :: "env \<Rightarrow> syscall \<Rightarrow> peer_proc \<Rightarrow> int \<times> peer_proc" where
  "sys_ret env c p = (let (r, p) = sys env c p in (sr_ret r, p))"

definition sys_do :: "env \<Rightarrow> syscall \<Rightarrow> peer_proc \<Rightarrow> peer_proc" where
  "sys_do env c p = snd (sys env c p)"

lemma sys_simps [simp]:
  "sys env c p = (env (c # pp_calls p), p\<lparr>pp_calls := c # pp_calls p\<rparr>)"
  "sys_ret env c p = (sr_ret (env (c # pp_calls p)), p\<lparr>pp_calls := c # pp_calls p\<rparr>)"
  "sys_do env c p = p\<lparr>pp_calls := c # pp_calls p\<rparr>"
  by (simp_all add: sys_def sys_ret_def sys_do_def Let_def)

section \<open>Calls that are repeated\<close>

text \<open>A call is made until its result is final; each result is folded into a value.\<close>

partial_function (option) repeat_call ::
  "env \<Rightarrow> syscall \<Rightarrow> (sysres \<Rightarrow> bool) \<Rightarrow> (sysres \<Rightarrow> 'a \<Rightarrow> 'a) \<Rightarrow> 'a \<Rightarrow> peer_proc \<Rightarrow> ('a \<times> peer_proc) option" where
  "repeat_call env c again f x p =
     (let (r, p) = sys env c p; x = f r x in
      if again r then repeat_call env c again f x p else Some (x, p))"

declare repeat_call.simps [code]

text \<open>The result of the \<open>n\<close>-th of these calls, counted from 0.\<close>

definition nth_result :: "env \<Rightarrow> syscall \<Rightarrow> syscall list \<Rightarrow> nat \<Rightarrow> sysres" where
  "nth_result env c cs n = env (replicate (Suc n) c @ cs)"

lemma nth_result_Suc: "nth_result env c cs (Suc n) = nth_result env c (c # cs) n"
  by (simp add: nth_result_def replicate_app_Cons_same)

text \<open>The calls end exactly if one of the results is final, and the first such result ends them.\<close>

lemma repeat_call_ends:
  assumes "\<not> again (nth_result env c (pp_calls p) n)" and "\<forall>i<n. again (nth_result env c (pp_calls p) i)"
  shows "repeat_call env c again f x p =
    Some (fold f (map (nth_result env c (pp_calls p)) [0..<Suc n]) x, p\<lparr>pp_calls := replicate (Suc n) c @ pp_calls p\<rparr>)"
  using assms
proof (induction n arbitrary: x p)
  case 0
  then show ?case by (subst repeat_call.simps) (simp add: nth_result_def)
next
  case (Suc n)
  define g where "g = nth_result env c (pp_calls p)"
  define y where "y = env (c # pp_calls p)"
  define q where "q = p\<lparr>pp_calls := c # pp_calls p\<rparr>"
  have g: "g 0 = y" "g (Suc i) = nth_result env c (pp_calls q) i" for i
    by (simp_all add: g_def y_def q_def nth_result_Suc) (simp add: nth_result_def)
  then have q: "nth_result env c (pp_calls q) = (\<lambda>i. g (Suc i))" by simp
  have a: "again y" "\<not> again (g (Suc n))" "\<forall>i<n. again (g (Suc i))"
    using Suc.prems g(1) by (auto simp: g_def)
  have "repeat_call env c again f x p = repeat_call env c again f (f y x) q"
    using a(1) by (subst repeat_call.simps) (simp add: y_def q_def)
  also have "\<dots> = Some (fold f (map (\<lambda>i. g (Suc i)) [0..<Suc n]) (f y x), q\<lparr>pp_calls := replicate (Suc n) c @ pp_calls q\<rparr>)"
    using a(2,3) unfolding q [symmetric] by (intro Suc.IH) (simp_all add: q)
  also have "map (\<lambda>i. g (Suc i)) [0..<Suc n] = map g [1..<Suc (Suc n)]"
    by (simp only: map_Suc_upt [symmetric] map_map comp_def One_nat_def)
  also have "fold f (map g [1..<Suc (Suc n)]) (f y x) = fold f (map g [0..<Suc (Suc n)]) x"
    by (simp only: upt_conv_Cons [OF zero_less_Suc] list.map fold_simps g(1) One_nat_def)
  finally show ?case by (simp add: q_def g_def replicate_app_Cons_same del: upt_Suc)
qed

lemma repeat_call_some:
  assumes "repeat_call env c again f x p = Some y"
  shows "\<exists>n. \<not> again (nth_result env c (pp_calls p) n)"
proof (rule repeat_call.raw_induct
    [where P = "\<lambda>env c again f x p y. \<exists>n. \<not> again (nth_result env c (pp_calls p) n)"
       and xa = "(((((env, c), again), f), x), p)", unfolded prod.case, OF _ assms])
  fix rec env c again f p y and x :: 'a
  assume 1: "\<And>env c again f x p y. rec env c again f x p = Some y \<Longrightarrow> \<exists>n. \<not> again (nth_result env c (pp_calls p) n)"
    "(let (r, p) = sys env c p; x = f r x in if again r then rec env c again f x p else Some (x, p)) = Some y"
  show "\<exists>n. \<not> again (nth_result env c (pp_calls p) n)"
  proof (cases "again (env (c # pp_calls p))")
    case True
    with 1(2) have "rec env c again f (f (env (c # pp_calls p)) x) (p\<lparr>pp_calls := c # pp_calls p\<rparr>) = Some y" by simp
    from 1(1) [OF this] obtain n where "\<not> again (nth_result env c (c # pp_calls p) n)" by auto
    then show ?thesis by (metis nth_result_Suc)
  next
    case False
    then show ?thesis by (intro exI [of _ 0]) (simp add: nth_result_def)
  qed
qed

lemma first_final:
  assumes "\<not> again (g (n :: nat))"
  shows "\<exists>m\<le>n. \<not> again (g m) \<and> (\<forall>i<m. again (g i))"
  using Least_le [of "\<lambda>i. \<not> again (g i)", OF assms] LeastI [of "\<lambda>i. \<not> again (g i)", OF assms]
    not_less_Least [of _ "\<lambda>i. \<not> again (g i)"] by blast

section \<open>Signal descriptors\<close>

text \<open>What the three peer types keep in the segment for a port.\<close>

definition MAX_WAITERS :: nat where "MAX_WAITERS = 64"

record posix_signal_desc =
  ps_waitcue :: u64

record pthread_signal_desc =
  pth_pids :: "pid_t list"

record posixfd_signal_desc =
  fd_signal_file :: string
  fd_fd :: int
  fd_flag :: int

lemma repeat_call_calls:
  assumes "repeat_call env c again f x p = Some (y, q)"
  shows "\<exists>n. q = p\<lparr>pp_calls := replicate (Suc n) c @ pp_calls p\<rparr>"
proof -
  obtain m where "\<not> again (nth_result env c (pp_calls p) m)" using repeat_call_some [OF assms] by blast
  with first_final [of again "nth_result env c (pp_calls p)"] obtain n where
    "\<not> again (nth_result env c (pp_calls p) n)" "\<forall>i<n. again (nth_result env c (pp_calls p) i)" by blast
  from repeat_call_ends [of again env c p n f x, OF this] assms show ?thesis by (intro exI [of _ n]) simp
qed

end
