(* ===== verification/Xseg.thy ===== *)
theory Xseg
  imports Xobj Xq Xdomain Xsys
begin

text \<open>
  The segment of \<^verbatim>\<open>xseg.c\<close>: ports with their three queues, requests, and the protocol
  submit, accept, respond, receive. A pointer into the segment is its offset (an
  \<^verbatim>\<open>xptr\<close>, a natural; 0 is the null pointer); the memory of the heap begins at offset
  \<open>sg_base\<close>. Placement of everything is decided by the models of the heap and of the
  object handlers; the contents of ports, requests and queues are typed stores indexed by
  pointer. The words that the free list writes into a returned object are in the heap model
  only: the typed contents of an object that is not handed out has no meaning here.
  The three object handlers share one heap, which is put into a handler for the call.
  The record \<open>xseg\<close> holds the shared structure (\<^verbatim>\<open>struct xseg\<close> and
  \<^verbatim>\<open>struct xseg_shared\<close>) and, in the fields \<open>pv_*\<close>, \<open>sg_req_data\<close> and \<open>sg_reqdatalock\<close>, what
  one process keeps in \<^verbatim>\<open>struct xseg_private\<close>; \<open>pv_proc\<close> is what its peer types keep in static
  and thread-specific variables. The signal descriptors of the peer types are typed stores too.

  \<open>junk\<close> is the contents of fresh memory, \<open>cl\<close> the calling thread. A call that spins on a
  held lock or does not return is \<open>None\<close>. The segment pointer itself is never null.
\<close>

section \<open>Data\<close>

type_synonym xport = u32

definition NoPort :: xport where "NoPort = - 1"
definition NoOwner :: u64 where "NoOwner = - 1"
definition X_LOCAL :: u32 where "X_LOCAL = 2"
definition X_NONBLOCK :: u32 where "X_NONBLOCK = 4"
definition CAN_ACCEPT :: u32 where "CAN_ACCEPT = 1"
definition CAN_RECEIVE :: u32 where "CAN_RECEIVE = 2"
definition MAX_PATH_LEN :: u64 where "MAX_PATH_LEN = 32"
definition XSEG_DEF_REQS :: nat where "XSEG_DEF_REQS = 256"
definition XSEG_DEF_MAX_ALLOCATED_REQS :: u64 where "XSEG_DEF_MAX_ALLOCATED_REQS = 1024"
definition XSEG_MAX_ALLOCATED_REQS :: u64 where "XSEG_MAX_ALLOCATED_REQS = 10000"

text \<open>The size of \<^verbatim>\<open>struct xq\<close>.\<close>

definition XQ_SIZE :: nat where "XQ_SIZE = 48"

record xseg_port =
  pt_fq_lock :: xlock
  pt_rq_lock :: xlock
  pt_pq_lock :: xlock
  pt_free_queue :: nat
  pt_request_queue :: nat
  pt_reply_queue :: nat
  pt_owner :: u64
  pt_peer_type :: u64
  pt_portno :: xport
  pt_max_alloc_reqs :: u64
  pt_alloc_reqs :: u64
  pt_port_lock :: xlock
  pt_signal_desc :: nat
  pt_flags :: u32

record xseg_request =
  rq_serial :: u64
  rq_offset :: u64
  rq_size :: u64
  rq_serviced :: u64
  rq_v0_size :: u64
  rq_data :: nat
  rq_datalen :: u64
  rq_target :: nat
  rq_targetlen :: u32
  rq_op :: u32
  rq_state :: u32
  rq_flags :: u32
  rq_src_portno :: xport
  rq_transit_portno :: xport
  rq_dst_portno :: xport
  rq_effective_dst_portno :: xport
  rq_path :: xq
  rq_buffer :: nat
  rq_bufferlen :: nat
  rq_task :: u64
  rq_priv :: u64
  rq_timestamp :: "int \<times> int"
  rq_elapsed :: u64

record xseg_counters =
  ct_avg_req_lat :: u64
  ct_req_cnt :: u64

text \<open>The places of the structures in the segment.\<close>

record xseg_ptrs =
  sp_heap :: nat
  sp_object_handlers :: nat
  sp_request_h :: nat
  sp_port_h :: nat
  sp_ports :: nat
  sp_path_next :: nat
  sp_dst_gw :: nat
  sp_shared :: nat
  sp_peer_types :: nat
  sp_peer_type_data :: nat

record xseg =
  sg_version :: u64
  sg_segment_size :: nat
  sg_segment :: nat
  sg_ptrs :: xseg_ptrs
  sg_base :: nat
  sg_heap :: xheap
  sg_object_handlers :: xobject_h
  sg_request_h :: xobject_h
  sg_port_h :: xobject_h
  sg_ports :: "nat list"
  sg_path_next :: "xport list"
  sg_dst_gw :: "xport list"
  sg_config :: xseg_config
  sg_segment_lock :: xlock
  sg_counters :: xseg_counters
  sg_shared_flags :: u64
  sg_peer_types :: "string list"
  sg_peer_type_data :: "nat list"
  sg_nr_peer_types :: nat
  sg_max_peer_types :: nat
  pv_peer_type :: nat
  pv_peer_types :: "nat list"
  pv_peer_type_data :: "nat list"
  sg_req_data :: xhash
  sg_reqdatalock :: xlock
  sg_port_at :: "nat \<Rightarrow> xseg_port"
  sg_req_at :: "nat \<Rightarrow> xseg_request"
  sg_queue_at :: "nat \<Rightarrow> xq"
  sg_objh_at :: "nat \<Rightarrow> xobject_h"
  sg_posix_sd :: "nat \<Rightarrow> posix_signal_desc"
  sg_pthread_sd :: "nat \<Rightarrow> pthread_signal_desc"
  sg_posixfd_sd :: "nat \<Rightarrow> posixfd_signal_desc"
  pv_proc :: peer_proc

definition upd_port :: "nat \<Rightarrow> (xseg_port \<Rightarrow> xseg_port) \<Rightarrow> xseg \<Rightarrow> xseg" where
  "upd_port p f s = s\<lparr>sg_port_at := (sg_port_at s)(p := f (sg_port_at s p))\<rparr>"

definition upd_req :: "nat \<Rightarrow> (xseg_request \<Rightarrow> xseg_request) \<Rightarrow> xseg \<Rightarrow> xseg" where
  "upd_req p f s = s\<lparr>sg_req_at := (sg_req_at s)(p := f (sg_req_at s p))\<rparr>"

definition set_queue :: "nat \<Rightarrow> xq \<Rightarrow> xseg \<Rightarrow> xseg" where
  "set_queue p q s = s\<lparr>sg_queue_at := (sg_queue_at s)(p := q)\<rparr>"

section \<open>The heap and the object handlers of the segment\<close>

definition seg_alloc :: "caller \<Rightarrow> nat \<Rightarrow> xseg \<Rightarrow> (nat \<times> xseg) option" where
  "seg_alloc cl bytes s =
     do {
       (a, heap) \<leftarrow> xheap_allocate cl bytes (sg_heap s);
       Some (case a of None \<Rightarrow> 0 | Some a \<Rightarrow> a + sg_base s, s\<lparr>sg_heap := heap\<rparr>)
     }"

definition seg_free :: "caller \<Rightarrow> nat \<Rightarrow> xseg \<Rightarrow> xseg option" where
  "seg_free cl p s =
     do { heap \<leftarrow> xheap_free cl (p - sg_base s) (sg_heap s); Some (s\<lparr>sg_heap := heap\<rparr>) }"

definition chunk_size :: "xseg \<Rightarrow> nat \<Rightarrow> nat" where
  "chunk_size s p = xheap_get_chunk_size (sg_heap s) (p - sg_base s)"

definition get_req_obj :: "(nat \<Rightarrow> u64 list) \<Rightarrow> caller \<Rightarrow> u32 \<Rightarrow> xseg \<Rightarrow> (nat \<times> xseg) option" where
  "get_req_obj junk cl flags s =
     do {
       (p, h) \<leftarrow> xobj_get_obj junk cl flags ((sg_request_h s)\<lparr>oh_heap := sg_heap s\<rparr>);
       Some (case p of None \<Rightarrow> 0 | Some p \<Rightarrow> p, s\<lparr>sg_request_h := h, sg_heap := oh_heap h\<rparr>)
     }"

definition put_req_obj :: "caller \<Rightarrow> nat \<Rightarrow> xseg \<Rightarrow> xseg option" where
  "put_req_obj cl p s =
     do {
       h \<leftarrow> xobj_put_obj cl p ((sg_request_h s)\<lparr>oh_heap := sg_heap s\<rparr>);
       Some (s\<lparr>sg_request_h := h, sg_heap := oh_heap h\<rparr>)
     }"

definition get_port_obj :: "(nat \<Rightarrow> u64 list) \<Rightarrow> caller \<Rightarrow> u32 \<Rightarrow> xseg \<Rightarrow> (nat \<times> xseg) option" where
  "get_port_obj junk cl flags s =
     do {
       (p, h) \<leftarrow> xobj_get_obj junk cl flags ((sg_port_h s)\<lparr>oh_heap := sg_heap s\<rparr>);
       Some (case p of None \<Rightarrow> 0 | Some p \<Rightarrow> p, s\<lparr>sg_port_h := h, sg_heap := oh_heap h\<rparr>)
     }"

definition put_port_obj :: "caller \<Rightarrow> nat \<Rightarrow> xseg \<Rightarrow> xseg option" where
  "put_port_obj cl p s =
     do {
       h \<leftarrow> xobj_put_obj cl p ((sg_port_h s)\<lparr>oh_heap := sg_heap s\<rparr>);
       Some (s\<lparr>sg_port_h := h, sg_heap := oh_heap h\<rparr>)
     }"

section \<open>Locks\<close>

definition lock_segment :: "caller \<Rightarrow> xseg \<Rightarrow> xseg option" where
  "lock_segment cl s = do { l \<leftarrow> xlock_acquire cl (sg_segment_lock s); Some (s\<lparr>sg_segment_lock := l\<rparr>) }"

definition unlock_segment :: "xseg \<Rightarrow> xseg" where
  "unlock_segment s = s\<lparr>sg_segment_lock := xlock_release (sg_segment_lock s)\<rparr>"

text \<open>The lock fields of a port, and their acquisition, plain or with \<^verbatim>\<open>X_NONBLOCK\<close>.\<close>

datatype port_lock = FQ | RQ | PQ | PL

fun get_lock :: "port_lock \<Rightarrow> xseg_port \<Rightarrow> xlock" where
  "get_lock FQ p = pt_fq_lock p"
| "get_lock RQ p = pt_rq_lock p"
| "get_lock PQ p = pt_pq_lock p"
| "get_lock PL p = pt_port_lock p"

fun put_lock :: "port_lock \<Rightarrow> xlock \<Rightarrow> xseg_port \<Rightarrow> xseg_port" where
  "put_lock FQ l p = p\<lparr>pt_fq_lock := l\<rparr>"
| "put_lock RQ l p = p\<lparr>pt_rq_lock := l\<rparr>"
| "put_lock PQ l p = p\<lparr>pt_pq_lock := l\<rparr>"
| "put_lock PL l p = p\<lparr>pt_port_lock := l\<rparr>"

definition acquire_port :: "caller \<Rightarrow> port_lock \<Rightarrow> nat \<Rightarrow> xseg \<Rightarrow> xseg option" where
  "acquire_port cl k p s =
     do { l \<leftarrow> xlock_acquire cl (get_lock k (sg_port_at s p)); Some (upd_port p (put_lock k l) s) }"

definition try_port :: "caller \<Rightarrow> u32 \<Rightarrow> port_lock \<Rightarrow> nat \<Rightarrow> xseg \<Rightarrow> (bool \<times> xseg) option" where
  "try_port cl flags k p s =
     (if flags AND X_NONBLOCK \<noteq> 0
      then let (b, l) = xlock_try_lock cl (get_lock k (sg_port_at s p)) in Some (b, upd_port p (put_lock k l) s)
      else do { s \<leftarrow> acquire_port cl k p s; Some (True, s) })"

definition release_port :: "port_lock \<Rightarrow> nat \<Rightarrow> xseg \<Rightarrow> xseg" where
  "release_port k p s = upd_port p (\<lambda>pt. put_lock k (xlock_release (get_lock k pt)) pt) s"

section \<open>Ports and their queues\<close>

definition validate_port :: "xseg \<Rightarrow> xport \<Rightarrow> bool" where
  "validate_port s portno \<longleftrightarrow> portno < cf_nr_ports (sg_config s)"

definition validate_ptr :: "xseg \<Rightarrow> nat \<Rightarrow> bool" where
  "validate_ptr s ptr \<longleftrightarrow> ptr < sg_segment_size s"

definition xseg_get_port :: "xseg \<Rightarrow> xport \<Rightarrow> nat" where
  "xseg_get_port s portno = (if \<not> validate_port s portno then 0 else sg_ports s ! unat portno)"

definition xseg_portno :: "xseg \<Rightarrow> nat \<Rightarrow> xport" where
  "xseg_portno s port = pt_portno (sg_port_at s port)"

definition xseg_get_target :: "xseg \<Rightarrow> nat \<Rightarrow> nat" where
  "xseg_get_target s req = sg_segment s + rq_target (sg_req_at s req)"

definition xseg_get_data :: "xseg \<Rightarrow> nat \<Rightarrow> nat" where
  "xseg_get_data s req = sg_segment s + rq_data (sg_req_at s req)"

definition xseg_get_signal_desc :: "xseg \<Rightarrow> nat \<Rightarrow> nat" where
  "xseg_get_signal_desc s port = sg_segment s + pt_signal_desc (sg_port_at s port)"

definition alloc_queue :: "(nat \<Rightarrow> u64 list) \<Rightarrow> caller \<Rightarrow> nat \<Rightarrow> xseg \<Rightarrow> (nat \<times> xseg) option" where
  "alloc_queue junk cl nr_reqs s =
     do {
       (p, s) \<leftarrow> seg_alloc cl (w64 (XQ_SIZE + nr_reqs * 8)) s;
       if p = 0 then Some (0, s)
       else let bytes = w64 (chunk_size s p + 2 ^ 64 - XQ_SIZE); n = bytes div 8
            in Some (p, set_queue p (xq_init_empty (of_nat n) (junk n) (sg_queue_at s p)) s)
     }"

definition xseg_alloc_port :: "(nat \<Rightarrow> u64 list) \<Rightarrow> caller \<Rightarrow> u32 \<Rightarrow> nat \<Rightarrow> xseg \<Rightarrow> (nat \<times> xseg) option" where
  "xseg_alloc_port junk cl flags nr_reqs s =
     do {
       (port, s) \<leftarrow> get_port_obj junk cl flags s;
       if port = 0 then Some (0, s)
       else do {
         (q, s) \<leftarrow> alloc_queue junk cl nr_reqs s;
         if q = 0 then do { s \<leftarrow> put_port_obj cl port s; Some (0, s) }
         else do {
           let s = upd_port port (\<lambda>p. p\<lparr>pt_free_queue := q\<rparr>) s;
           (q, s) \<leftarrow> alloc_queue junk cl nr_reqs s;
           if q = 0 then do {
             s \<leftarrow> seg_free cl (pt_free_queue (sg_port_at s port)) s;
             s \<leftarrow> put_port_obj cl port (upd_port port (\<lambda>p. p\<lparr>pt_free_queue := 0\<rparr>) s);
             Some (0, s) }
           else do {
             let s = upd_port port (\<lambda>p. p\<lparr>pt_request_queue := q\<rparr>) s;
             (q, s) \<leftarrow> alloc_queue junk cl nr_reqs s;
             if q = 0 then do {
               s \<leftarrow> seg_free cl (pt_request_queue (sg_port_at s port)) s;
               let s = upd_port port (\<lambda>p. p\<lparr>pt_request_queue := 0\<rparr>) s;
               s \<leftarrow> seg_free cl (pt_free_queue (sg_port_at s port)) s;
               s \<leftarrow> put_port_obj cl port (upd_port port (\<lambda>p. p\<lparr>pt_free_queue := 0\<rparr>) s);
               Some (0, s) }
             else
               Some (port, upd_port port (\<lambda>p. p\<lparr>pt_reply_queue := q,
                 pt_fq_lock := xlock_release (pt_fq_lock p), pt_rq_lock := xlock_release (pt_rq_lock p),
                 pt_pq_lock := xlock_release (pt_pq_lock p), pt_port_lock := xlock_release (pt_port_lock p),
                 pt_owner := NoOwner, pt_portno := NoPort, pt_peer_type := 0, pt_alloc_reqs := 0,
                 pt_max_alloc_reqs := XSEG_DEF_MAX_ALLOCATED_REQS, pt_flags := 0, pt_signal_desc := 0\<rparr>) s) } } }
     }"

text \<open>Freeing one of the three queues, when it is there.\<close>

definition free_queue_of ::
  "caller \<Rightarrow> (xseg_port \<Rightarrow> nat) \<Rightarrow> (xseg_port \<Rightarrow> xseg_port) \<Rightarrow> nat \<Rightarrow> xseg \<Rightarrow> xseg option" where
  "free_queue_of cl get clear port s =
     (let q = get (sg_port_at s port) in
      if q \<noteq> 0 then do { s \<leftarrow> seg_free cl q s; Some (upd_port port clear s) } else Some s)"

definition xseg_free_port :: "caller \<Rightarrow> nat \<Rightarrow> xseg \<Rightarrow> xseg option" where
  "xseg_free_port cl port s =
     (if port = 0 then Some s
      else do {
        s \<leftarrow> free_queue_of cl pt_request_queue (\<lambda>p. p\<lparr>pt_request_queue := 0\<rparr>) port s;
        s \<leftarrow> free_queue_of cl pt_free_queue (\<lambda>p. p\<lparr>pt_free_queue := 0\<rparr>) port s;
        s \<leftarrow> free_queue_of cl pt_reply_queue (\<lambda>p. p\<lparr>pt_reply_queue := 0\<rparr>) port s;
        put_port_obj cl port s })"

definition xseg_alloc_buffer :: "caller \<Rightarrow> nat \<Rightarrow> xseg \<Rightarrow> (nat \<times> xseg) option" where
  "xseg_alloc_buffer cl sz s =
     do {
       (mem, s) \<leftarrow> seg_alloc cl sz s;
       if mem \<noteq> 0 \<and> chunk_size s mem < sz then do { s \<leftarrow> seg_free cl mem s; Some (0, s) }
       else Some (mem, s)
     }"

definition xseg_free_buffer :: "caller \<Rightarrow> nat \<Rightarrow> xseg \<Rightarrow> xseg option" where
  "xseg_free_buffer cl ptr s = (if ptr = 0 then Some s else seg_free cl ptr s)"

section \<open>Requests\<close>

definition free_q :: "xseg \<Rightarrow> nat \<Rightarrow> nat" where "free_q s port = pt_free_queue (sg_port_at s port)"

text \<open>
  The loop of \<^verbatim>\<open>xseg_alloc_requests\<close>: an object is taken before the counter is compared
  with \<^verbatim>\<open>nr\<close>. The first argument is the number of iterations left.
\<close>

fun alloc_loop :: "(nat \<Rightarrow> u64 list) \<Rightarrow> caller \<Rightarrow> nat \<Rightarrow> nat \<Rightarrow> nat \<Rightarrow> xseg \<Rightarrow> (nat \<times> xseg) option" where
  "alloc_loop junk cl q 0 i s = do { (req, s) \<leftarrow> get_req_obj junk cl X_ALLOC s; Some (i, s) }"
| "alloc_loop junk cl q (Suc n) i s =
     do {
       (req, s) \<leftarrow> get_req_obj junk cl X_ALLOC s;
       if req = 0 then Some (i, s)
       else let (xqi, xq) = raw_xq_append_tail (sg_queue_at s q) (of_nat req); s = set_queue q xq s in
         if xqi = Noneidx then do { s \<leftarrow> put_req_obj cl req s; Some (i, s) }
         else alloc_loop junk cl q n (i + 1) s
     }"

definition xseg_alloc_requests :: "(nat \<Rightarrow> u64 list) \<Rightarrow> caller \<Rightarrow> xport \<Rightarrow> u32 \<Rightarrow> xseg \<Rightarrow> (int \<times> xseg) option" where
  "xseg_alloc_requests junk cl portno nr s =
     (let port = xseg_get_port s portno in
      if port = 0 then Some (-1, s)
      else do {
        s \<leftarrow> acquire_port cl FQ port s;
        (i, s) \<leftarrow> alloc_loop junk cl (free_q s port) (unat nr) 0 s;
        Some (if i = 0 then -1 else int i, release_port FQ port s) })"

fun free_loop :: "caller \<Rightarrow> nat \<Rightarrow> nat \<Rightarrow> nat \<Rightarrow> xseg \<Rightarrow> (nat \<times> xseg) option" where
  "free_loop cl q 0 i s = (let (xqi, xq) = raw_xq_pop_head (sg_queue_at s q) in Some (i, set_queue q xq s))"
| "free_loop cl q (Suc n) i s =
     (let (xqi, xq) = raw_xq_pop_head (sg_queue_at s q); s = set_queue q xq s in
      if xqi = Noneidx then Some (i, s)
      else do { s \<leftarrow> put_req_obj cl (unat xqi) s; free_loop cl q n (i + 1) s })"

text \<open>With no request freed the function returns while it still holds the lock of the queue.\<close>

definition xseg_free_requests :: "caller \<Rightarrow> xport \<Rightarrow> int \<Rightarrow> xseg \<Rightarrow> (int \<times> xseg) option" where
  "xseg_free_requests cl portno nr s =
     (let port = xseg_get_port s portno in
      if port = 0 then Some (-1, s)
      else do {
        s \<leftarrow> acquire_port cl FQ port s;
        (i, s) \<leftarrow> free_loop cl (free_q s port) (nat nr) 0 s;
        if i = 0 then Some (-1, s)
        else do {
          let s = release_port FQ port s;
          s \<leftarrow> acquire_port cl PL port s;
          let s = upd_port port (\<lambda>p. p\<lparr>pt_alloc_reqs := pt_alloc_reqs p - of_nat i\<rparr>) s;
          Some (int i, release_port PL port s) } })"

definition xseg_prep_ports :: "nat \<Rightarrow> xport \<Rightarrow> xport \<Rightarrow> xseg \<Rightarrow> int \<times> xseg" where
  "xseg_prep_ports xreq src dst s =
     (if xreq = 0 then (-1, s)
      else if \<not> validate_port s src then (-1, s)
      else if \<not> validate_port s dst then (-1, s)
      else (0, upd_req xreq (\<lambda>r. r\<lparr>rq_src_portno := src, rq_transit_portno := src,
                                     rq_dst_portno := dst, rq_effective_dst_portno := dst\<rparr>) s))"

text \<open>An empty path in the buffer of the request.\<close>

definition empty_path :: "xseg_request \<Rightarrow> xq" where
  "empty_path r = xq_init_empty MAX_PATH_LEN (q_mem (rq_path r)) (rq_path r)"

definition xseg_put_request :: "caller \<Rightarrow> nat \<Rightarrow> xport \<Rightarrow> xseg \<Rightarrow> (int \<times> xseg) option" where
  "xseg_put_request cl xreq portno s =
     (if xreq = 0 then Some (-1, s)
      else
        let port = xseg_get_port s (rq_src_portno (sg_req_at s xreq)) in
        if port = 0 then Some (-1, s)
        else do {
          s \<leftarrow> (if rq_buffer (sg_req_at s xreq) \<noteq> 0
               then xseg_free_buffer cl (rq_buffer (sg_req_at s xreq)) s else Some s);
          let s = upd_req xreq (\<lambda>r. r\<lparr>rq_path := empty_path r, rq_buffer := 0, rq_bufferlen := 0,
            rq_target := 0, rq_data := 0, rq_datalen := 0, rq_targetlen := 0, rq_state := 0,
            rq_src_portno := NoPort, rq_dst_portno := NoPort, rq_transit_portno := NoPort,
            rq_effective_dst_portno := NoPort, rq_serviced := 0\<rparr>) s;
          s \<leftarrow> (if rq_elapsed (sg_req_at s xreq) \<noteq> 0 then do {
                 s \<leftarrow> lock_segment cl s;
                 let ct = sg_counters s;
                 let s = s\<lparr>sg_counters := ct\<lparr>ct_req_cnt := ct_req_cnt ct + 1,
                   ct_avg_req_lat := ct_avg_req_lat ct + rq_elapsed (sg_req_at s xreq)\<rparr>\<rparr>;
                 Some (unlock_segment s) }
               else Some s);
          s \<leftarrow> acquire_port cl FQ port s;
          let q = free_q s port;
          let (xqi, xq) = raw_xq_append_head (sg_queue_at s q) (of_nat xreq);
          let s = release_port FQ port (set_queue q xq s);
          if xqi \<noteq> Noneidx then Some (0, s)
          else do {
            s \<leftarrow> put_req_obj cl xreq s;
            s \<leftarrow> acquire_port cl PL port s;
            let s = upd_port port (\<lambda>p. p\<lparr>pt_alloc_reqs := pt_alloc_reqs p - 1\<rparr>) s;
            Some (0, release_port PL port s) } })"

text \<open>
  The end of \<^verbatim>\<open>xseg_get_request\<close>, from the label \<^verbatim>\<open>done\<close>.
\<close>

definition init_request :: "caller \<Rightarrow> nat \<Rightarrow> xport \<Rightarrow> xport \<Rightarrow> xseg \<Rightarrow> (nat \<times> xseg) option" where
  "init_request cl req src dst s =
     (let s = upd_req req (\<lambda>r. r\<lparr>rq_buffer := 0, rq_bufferlen := 0, rq_target := 0, rq_data := 0,
            rq_datalen := 0, rq_targetlen := 0\<rparr>) s;
          (r, s) = xseg_prep_ports req src dst s
      in if r < 0 then do { (_, s) \<leftarrow> xseg_put_request cl req src s; Some (0, s) }
         else Some (req, upd_req req (\<lambda>r. r\<lparr>rq_state := 0, rq_elapsed := 0, rq_timestamp := (0, 0),
            rq_flags := 0, rq_serviced := 0, rq_v0_size := - 1, rq_path := empty_path r\<rparr>) s))"

definition xseg_get_request ::
  "(nat \<Rightarrow> u64 list) \<Rightarrow> caller \<Rightarrow> xport \<Rightarrow> xport \<Rightarrow> u32 \<Rightarrow> xseg \<Rightarrow> (nat \<times> xseg) option" where
  "xseg_get_request junk cl src dst flags s =
     (let port = xseg_get_port s src in
      if port = 0 then Some (0, s)
      else do {
        s \<leftarrow> acquire_port cl FQ port s;
        let q = free_q s port;
        let (xqi, xq) = raw_xq_pop_head (sg_queue_at s q);
        let s = release_port FQ port (set_queue q xq s);
        if xqi \<noteq> Noneidx then init_request cl (unat xqi) src dst s
        else if flags AND X_LOCAL \<noteq> 0 then Some (0, s)
        else do {
          s \<leftarrow> acquire_port cl PL port s;
          (req, s) \<leftarrow> (if pt_alloc_reqs (sg_port_at s port) < pt_max_alloc_reqs (sg_port_at s port) then do {
               (req, s) \<leftarrow> get_req_obj junk cl (flags AND X_ALLOC) s;
               Some (req, if req \<noteq> 0 then upd_port port (\<lambda>p. p\<lparr>pt_alloc_reqs := pt_alloc_reqs p + 1\<rparr>) s else s) }
             else Some (0, s));
          let s = release_port PL port s;
          if req = 0 then Some (0, s) else init_request cl req src dst s } })"

text \<open>
  The request is written before it is compared with the null pointer: a null request is a
  crash, \<open>None\<close> here.
\<close>

definition xseg_prep_request :: "caller \<Rightarrow> nat \<Rightarrow> u32 \<Rightarrow> u64 \<Rightarrow> xseg \<Rightarrow> (int \<times> xseg) option" where
  "xseg_prep_request cl req targetlen datalen s =
     (let bufferlen = ucast targetlen + datalen;
          s = upd_req req (\<lambda>r. r\<lparr>rq_buffer := 0, rq_bufferlen := 0\<rparr>) s
      in if req = 0 then None
         else do {
           (buf, s) \<leftarrow> xseg_alloc_buffer cl (unat bufferlen) s;
           if buf = 0 then Some (-1, s)
           else Some (0, upd_req req (\<lambda>r. r\<lparr>rq_bufferlen := chunk_size s buf, rq_buffer := buf, rq_data := buf,
                  rq_target := w64 (buf + chunk_size s buf + 2 ^ 64 - unat targetlen), rq_datalen := datalen,
                  rq_targetlen := targetlen\<rparr>) s) })"

definition xseg_resize_request :: "caller \<Rightarrow> nat \<Rightarrow> u32 \<Rightarrow> u64 \<Rightarrow> xseg \<Rightarrow> (int \<times> xseg) option" where
  "xseg_resize_request cl req new_targetlen new_datalen s =
     (if req = 0 then Some (-1, s)
      else
        let r = sg_req_at s req in
        if rq_bufferlen r \<ge> unat (new_datalen + ucast new_targetlen) then
          Some (0, upd_req req (\<lambda>r. r\<lparr>rq_data := rq_buffer r,
                  rq_target := w64 (rq_buffer r + rq_bufferlen r + 2 ^ 64 - unat new_targetlen),
                  rq_datalen := new_datalen, rq_targetlen := new_targetlen\<rparr>) s)
        else do {
          s \<leftarrow> (if rq_buffer r \<noteq> 0 then xseg_free_buffer cl (rq_buffer r) s else Some s);
          xseg_prep_request cl req new_targetlen new_datalen
            (upd_req req (\<lambda>r. r\<lparr>rq_buffer := 0, rq_bufferlen := 0\<rparr>) s) })"

section \<open>Submitting and responding\<close>

text \<open>
  The search for the port that gets the request. The condition of the loop is
  \<^verbatim>\<open>(!port->flags & CAN_ACCEPT)\<close>: \<^verbatim>\<open>!\<close> binds stronger than \<^verbatim>\<open>&\<close>, so that it holds
  exactly when no flag at all is set. The result is the port number and the port, \<open>None\<close>
  inside for the error exits.
\<close>

definition path_step :: "xseg \<Rightarrow> xport \<Rightarrow> xport \<Rightarrow> xport" where
  "path_step s dst nxt = (if sg_path_next s ! unat nxt \<noteq> NoPort then sg_path_next s ! unat nxt else dst)"

partial_function (option) find_next :: "xseg \<Rightarrow> xport \<Rightarrow> xport \<Rightarrow> (xport \<times> nat) option option" where
  "find_next s dst nxt =
     (if nxt = dst then Some None
      else let nxt = path_step s dst nxt; port = xseg_get_port s nxt in
        if port = 0 then Some None
        else if (if pt_flags (sg_port_at s port) = 0 then 1 else 0) AND CAN_ACCEPT \<noteq> 0 then find_next s dst nxt
        else Some (Some (nxt, port)))"

declare find_next.simps [code]

text \<open>
  Appending a request to the queue of a port, doubling it when it is full and
  \<^verbatim>\<open>X_ALLOC\<close> is given: the code of \<^verbatim>\<open>xseg_submit\<close> and \<^verbatim>\<open>xseg_respond\<close> between the
  acquisition and the release of the lock.
\<close>

definition append_request ::
  "(nat \<Rightarrow> u64 list) \<Rightarrow> caller \<Rightarrow> u32 \<Rightarrow> (xseg_port \<Rightarrow> nat) \<Rightarrow> (nat \<Rightarrow> xseg_port \<Rightarrow> xseg_port) \<Rightarrow> nat \<Rightarrow> nat \<Rightarrow>
     xseg \<Rightarrow> (u64 \<times> xseg) option" where
  "append_request junk cl flags get put port xreq s =
     (let q = get (sg_port_at s port); (serial, xq) = raw_xq_append_tail (sg_queue_at s q) (of_nat xreq);
          s = set_queue q xq s in
      if flags AND X_ALLOC \<noteq> 0 \<and> serial = Noneidx then do {
        (newq, s) \<leftarrow> alloc_queue junk cl (unat (xq_size (sg_queue_at s q) * 2)) s;
        if newq = 0 then Some (Noneidx, s)
        else let (r, nq) = raw_xq_resize (sg_queue_at s q) (sg_queue_at s newq); s = set_queue newq nq s in
          if r = Noneidx then do { s \<leftarrow> seg_free cl newq s; Some (Noneidx, s) }
          else do {
            s \<leftarrow> seg_free cl q (upd_port port (put newq) s);
            let (serial, nq) = raw_xq_append_tail (sg_queue_at s newq) (of_nat xreq);
            Some (serial, set_queue newq nq s) }
      } else Some (serial, s))"

definition pop_path :: "nat \<Rightarrow> xseg \<Rightarrow> xseg" where
  "pop_path xreq s = upd_req xreq (\<lambda>r. r\<lparr>rq_path := snd (raw_xq_pop_head (rq_path r))\<rparr>) s"

definition xseg_submit ::
  "(nat \<Rightarrow> u64 list) \<Rightarrow> caller \<Rightarrow> nat \<Rightarrow> xport \<Rightarrow> u32 \<Rightarrow> xseg \<Rightarrow> (xport \<times> xseg) option" where
  "xseg_submit junk cl xreq portno flags s =
     (if xreq = 0 then Some (NoPort, s)
      else
        let r = sg_req_at s xreq; cur = rq_transit_portno r in
        if \<not> validate_port s cur then Some (NoPort, s)
        else if \<not> validate_port s (rq_effective_dst_portno r) then Some (NoPort, s)
        else do {
          found \<leftarrow> find_next s (rq_effective_dst_portno r) cur;
          case found of None \<Rightarrow> Some (NoPort, s)
          | Some (nxt, port) \<Rightarrow> do {
              let (serial, path) = raw_xq_append_head (rq_path r) (ucast cur);
              let s = upd_req xreq (\<lambda>r. r\<lparr>rq_path := path\<rparr>) s;
              if serial = Noneidx then Some (NoPort, s)
              else do {
                s \<leftarrow> acquire_port cl RQ port s;
                (serial, s) \<leftarrow> append_request junk cl flags pt_request_queue
                  (\<lambda>q p. p\<lparr>pt_request_queue := q\<rparr>) port xreq s;
                let s = release_port RQ port s;
                if serial = Noneidx then Some (NoPort, pop_path xreq s) else Some (nxt, s) } } })"

partial_function (option) xseg_receive :: "caller \<Rightarrow> xport \<Rightarrow> u32 \<Rightarrow> xseg \<Rightarrow> (nat \<times> xseg) option" where
  "xseg_receive cl portno flags s =
     (let port = xseg_get_port s portno in
      if port = 0 then Some (0, s)
      else Option.bind (try_port cl flags PQ port s) (\<lambda>(b, s).
        if \<not> b then Some (0, s)
        else let q = pt_reply_queue (sg_port_at s port); r = raw_xq_pop_head (sg_queue_at s q); xqi = fst r;
                 s = release_port PQ port (set_queue q (snd r) s) in
          if xqi = Noneidx then Some (0, s)
          else let req = unat xqi; pr = raw_xq_pop_head (rq_path (sg_req_at s req));
                   s = upd_req req (\<lambda>r. r\<lparr>rq_path := snd pr\<rparr>) s in
            if fst pr = Noneidx then xseg_receive cl portno flags s else Some (req, s)))"

declare xseg_receive.simps [code]

definition xseg_accept :: "caller \<Rightarrow> xport \<Rightarrow> u32 \<Rightarrow> xseg \<Rightarrow> (nat \<times> xseg) option" where
  "xseg_accept cl portno flags s =
     (let port = xseg_get_port s portno in
      if port = 0 then Some (0, s)
      else do {
        (b, s) \<leftarrow> try_port cl flags RQ port s;
        if \<not> b then Some (0, s)
        else
          let q = pt_request_queue (sg_port_at s port); (xqi, xq) = raw_xq_pop_head (sg_queue_at s q);
              s = release_port RQ port (set_queue q xq s)
          in if xqi = Noneidx then Some (0, s)
             else Some (unat xqi, upd_req (unat xqi) (\<lambda>r. r\<lparr>rq_transit_portno := portno\<rparr>) s) })"

text \<open>
  The search along the path for a port that receives; ports that do not are taken off the
  path. The results are the port, if any, and the state.
\<close>

partial_function (option) find_receiver :: "nat \<Rightarrow> xseg \<Rightarrow> ((xport \<times> nat) option \<times> xseg) option" where
  "find_receiver xreq s =
     (let serial = raw_xq_peek_head (rq_path (sg_req_at s xreq)) in
      if serial = Noneidx then Some (None, s)
      else let dst = ucast serial :: xport; port = xseg_get_port s dst in
        if port = 0 then Some (None, s)
        else if pt_flags (sg_port_at s port) AND CAN_RECEIVE = 0 then find_receiver xreq (pop_path xreq s)
        else Some (Some (dst, port), s))"

declare find_receiver.simps [code]

definition xseg_respond ::
  "(nat \<Rightarrow> u64 list) \<Rightarrow> caller \<Rightarrow> nat \<Rightarrow> xport \<Rightarrow> u32 \<Rightarrow> xseg \<Rightarrow> (xport \<times> xseg) option" where
  "xseg_respond junk cl xreq portno flags s =
     (if xreq = 0 then Some (NoPort, s)
      else do {
        (found, s) \<leftarrow> find_receiver xreq s;
        case found of None \<Rightarrow> Some (NoPort, s)
        | Some (dst, port) \<Rightarrow> do {
            s \<leftarrow> acquire_port cl PQ port s;
            (serial, s) \<leftarrow> append_request junk cl flags pt_reply_queue
              (\<lambda>q p. p\<lparr>pt_reply_queue := q\<rparr>) port xreq s;
            let s = release_port PQ port s;
            Some (if serial = Noneidx then NoPort else dst, s) } })"

definition xseg_forward ::
  "(nat \<Rightarrow> u64 list) \<Rightarrow> caller \<Rightarrow> nat \<Rightarrow> xport \<Rightarrow> xport \<Rightarrow> u32 \<Rightarrow> xseg \<Rightarrow> (xport \<times> xseg) option" where
  "xseg_forward junk cl req new_dst portno flags s =
     (if req = 0 then Some (NoPort, s)
      else if \<not> validate_port s new_dst then Some (NoPort, s)
      else xseg_submit junk cl req portno flags (upd_req req (\<lambda>r. r\<lparr>rq_effective_dst_portno := new_dst\<rparr>) s))"

definition xseg_set_path_next :: "xport \<Rightarrow> xport \<Rightarrow> xseg \<Rightarrow> int \<times> xseg" where
  "xseg_set_path_next portno nxt s =
     (if \<not> validate_port s portno then (-1, s)
      else if \<not> validate_port s nxt then (-1, s)
      else (0, s\<lparr>sg_path_next := (sg_path_next s)[unat portno := nxt]\<rparr>))"

section \<open>Locks that are not held\<close>

text \<open>
  A released lock is always \<open>free_lock\<close>. Taking such a lock and releasing it leaves the
  port as it was, whatever happens to queues and requests in between.
\<close>

lemma put_lock_get [simp]: "put_lock k (get_lock k p) p = p"
  by (cases k) simp_all

lemma put_lock_twice [simp]: "put_lock k a (put_lock k b p) = put_lock k a p"
  by (cases k) simp_all

lemma get_put_lock [simp]: "get_lock k (put_lock k a p) = a"
  by (cases k) simp_all

lemma acquire_release:
  assumes "get_lock k (sg_port_at s p) = free_lock"
  shows "\<exists>s'. acquire_port cl k p s = Some s' \<and> try_port cl flags k p s = Some (True, s') \<and>
    (\<exists>l. s' = upd_port p (put_lock k l) s)"
  using assms
  by (auto simp: acquire_port_def try_port_def try_lock_acquire)

lemma upd_port_simps [simp]:
  "sg_queue_at (upd_port p f s) = sg_queue_at s" "sg_req_at (upd_port p f s) = sg_req_at s"
  "sg_ports (upd_port p f s) = sg_ports s" "sg_path_next (upd_port p f s) = sg_path_next s"
  "sg_config (upd_port p f s) = sg_config s" "sg_heap (upd_port p f s) = sg_heap s"
  "sg_port_at (upd_port p f s) = (sg_port_at s)(p := f (sg_port_at s p))"
  by (simp_all add: upd_port_def)

lemma set_queue_simps [simp]:
  "sg_queue_at (set_queue q x s) = (sg_queue_at s)(q := x)" "sg_req_at (set_queue q x s) = sg_req_at s"
  "sg_ports (set_queue q x s) = sg_ports s" "sg_path_next (set_queue q x s) = sg_path_next s"
  "sg_config (set_queue q x s) = sg_config s" "sg_heap (set_queue q x s) = sg_heap s"
  "sg_port_at (set_queue q x s) = sg_port_at s"
  by (simp_all add: set_queue_def)

lemma upd_req_simps [simp]:
  "sg_queue_at (upd_req r f s) = sg_queue_at s" "sg_port_at (upd_req r f s) = sg_port_at s"
  "sg_ports (upd_req r f s) = sg_ports s" "sg_path_next (upd_req r f s) = sg_path_next s"
  "sg_config (upd_req r f s) = sg_config s" "sg_heap (upd_req r f s) = sg_heap s"
  "sg_req_at (upd_req r f s) = (sg_req_at s)(r := f (sg_req_at s r))"
  by (simp_all add: upd_req_def)

lemma get_port_cong [simp]:
  "xseg_get_port (upd_port p f s) n = xseg_get_port s n" "xseg_get_port (set_queue q x s) n = xseg_get_port s n"
  "xseg_get_port (upd_req r g s) n = xseg_get_port s n"
  "validate_port (upd_port p f s) n = validate_port s n" "validate_port (set_queue q x s) n = validate_port s n"
  "validate_port (upd_req r g s) n = validate_port s n"
  by (simp_all add: xseg_get_port_def validate_port_def)

lemma release_after:
  assumes "get_lock k (sg_port_at s p) = free_lock"
  shows "release_port k p (set_queue q x (upd_port p (put_lock k l) s)) = set_queue q x s"
    and "release_port k p (upd_port p (put_lock k l) s) = s"
proof -
  have "put_lock k free_lock (sg_port_at s p) = sg_port_at s p"
    using put_lock_get [of k "sg_port_at s p"] assms by simp
  then show "release_port k p (set_queue q x (upd_port p (put_lock k l) s)) = set_queue q x s"
    "release_port k p (upd_port p (put_lock k l) s) = s"
    by (simp_all add: release_port_def upd_port_def set_queue_def fun_upd_idem)
qed

lemma put_lock_fields [simp]:
  "pt_request_queue (put_lock k l p) = pt_request_queue p" "pt_reply_queue (put_lock k l p) = pt_reply_queue p"
  "pt_free_queue (put_lock k l p) = pt_free_queue p" "pt_flags (put_lock k l p) = pt_flags p"
  by (cases k; simp)+

section \<open>A segment for the examples\<close>

text \<open>
  Three ports, numbers 0, 1 and 2, in a segment with an empty heap; all queues are empty and
  hold up to four requests. The request at 5000 is held by port 0.
\<close>

definition demo_path :: xq where
  "demo_path = xq_init_empty MAX_PATH_LEN (replicate 32 0) demo_empty"

definition demo_port :: "nat \<Rightarrow> xseg_port" where
  "demo_port p = \<lparr>pt_fq_lock = free_lock, pt_rq_lock = free_lock, pt_pq_lock = free_lock, pt_free_queue = p + 100,
     pt_request_queue = p + 200, pt_reply_queue = p + 300, pt_owner = 1, pt_peer_type = 0, pt_portno = of_nat (p div 1000 - 1),
     pt_max_alloc_reqs = 8, pt_alloc_reqs = 0, pt_port_lock = free_lock, pt_signal_desc = 4000,
     pt_flags = CAN_ACCEPT OR CAN_RECEIVE\<rparr>"

definition demo_request :: xseg_request where
  "demo_request = \<lparr>rq_serial = 0, rq_offset = 0, rq_size = 0, rq_serviced = 0, rq_v0_size = 0, rq_data = 0,
     rq_datalen = 0, rq_target = 0, rq_targetlen = 0, rq_op = 0, rq_state = 0, rq_flags = 0, rq_src_portno = 0,
     rq_transit_portno = 0, rq_dst_portno = 2, rq_effective_dst_portno = 2, rq_path = demo_path, rq_buffer = 0,
     rq_bufferlen = 0, rq_task = 0, rq_priv = 0, rq_timestamp = (0, 0), rq_elapsed = 0\<rparr>"

definition demo_seg :: xseg where
  "demo_seg = \<lparr>sg_version = 1, sg_segment_size = 300000, sg_segment = 65536,
     sg_ptrs = \<lparr>sp_heap = 4096, sp_object_handlers = 8192, sp_request_h = 8300, sp_port_h = 8400, sp_ports = 8500,
       sp_path_next = 8600, sp_dst_gw = 8700, sp_shared = 8800, sp_peer_types = 8900, sp_peer_type_data = 9000\<rparr>,
     sg_base = 4096, sg_heap = demo_xheap, sg_object_handlers = demo_obj, sg_request_h = demo_obj,
     sg_port_h = demo_obj, sg_ports = [1000, 2000, 3000], sg_path_next = [NoPort, NoPort, NoPort],
     sg_dst_gw = [NoPort, NoPort, NoPort],
     sg_config = \<lparr>cf_heap_size = 262144, cf_nr_ports = 3, cf_dynports = 2, cf_page_shift = 12, cf_type = ''posix'',
       cf_name = ''seg''\<rparr>,
     sg_segment_lock = free_lock, sg_counters = \<lparr>ct_avg_req_lat = 0, ct_req_cnt = 0\<rparr>, sg_shared_flags = 0,
     sg_peer_types = [''posix'', ''''], sg_peer_type_data = [9100, 0], sg_nr_peer_types = 1, sg_max_peer_types = 2,
     pv_peer_type = 77, pv_peer_types = [77, 0], pv_peer_type_data = [9100, 0],
     sg_req_data = demo_hash XHASH_INTEGER 3, sg_reqdatalock = free_lock, sg_port_at = demo_port,
     sg_req_at = (\<lambda>_. demo_request), sg_queue_at = (\<lambda>_. demo_empty), sg_objh_at = (\<lambda>_. demo_obj),
     sg_posix_sd = (\<lambda>_. \<lparr>ps_waitcue = 0\<rparr>), sg_pthread_sd = (\<lambda>_. \<lparr>pth_pids = replicate MAX_WAITERS 0\<rparr>),
     sg_posixfd_sd = (\<lambda>_. \<lparr>fd_signal_file = [], fd_fd = -1, fd_flag = 0\<rparr>), pv_proc = new_proc\<rparr>"

lemma demo_path_ok: "q_wf demo_path" "q_list demo_path = []" "q_cap demo_path = 32"
proof -
  have "snap 32 = 32" by code_simp
  then show "q_wf demo_path" "q_list demo_path = []" "q_cap demo_path = 32"
    using init_empty_list [of 32 "replicate 32 0" demo_empty] by (simp_all add: demo_path_def MAX_PATH_LEN_def)
qed

lemmas demo_seg_simps = demo_seg_def demo_port_def demo_request_def CAN_ACCEPT_def CAN_RECEIVE_def

end
