(* ===== verification/Relay.thy ===== *)
theory Relay
  imports Prelude "HOL-Library.Monad_Syntax"
begin

text \<open>
  The interface of a transport that remembers the way back: an item is passed from place to
  place and can be handed back to where it came from. \<open>here\<close> is where the item was passed
  to last, \<open>trail\<close> the places that wait for it, the nearest first.
\<close>

fun pass_all :: "('p \<Rightarrow> 's \<Rightarrow> 's option) \<Rightarrow> 'p list \<Rightarrow> 's \<Rightarrow> 's option" where
  "pass_all pass [] s = Some s"
| "pass_all pass (q # qs) s = do { s \<leftarrow> pass q s; pass_all pass qs s }"

fun bring_n :: "('s \<Rightarrow> ('p \<times> 's) option) \<Rightarrow> nat \<Rightarrow> 's \<Rightarrow> ('p list \<times> 's) option" where
  "bring_n bring 0 s = Some ([], s)"
| "bring_n bring (Suc n) s = do { (p, s) \<leftarrow> bring s; (ps, s) \<leftarrow> bring_n bring n s; Some (p # ps, s) }"

text \<open>A way from a place: no place is passed to itself.\<close>

fun way :: "'p \<Rightarrow> 'p list \<Rightarrow> bool" where
  "way p [] \<longleftrightarrow> True"
| "way p (q # qs) \<longleftrightarrow> q \<noteq> p \<and> way q qs"

locale relay =
  fixes pass :: "'p \<Rightarrow> 's \<Rightarrow> 's option"
    and bring :: "'s \<Rightarrow> ('p \<times> 's) option"
    and here :: "'s \<Rightarrow> 'p"
    and trail :: "'s \<Rightarrow> 'p list"
    and cap :: nat
    and known :: "'p \<Rightarrow> bool"
    and invar :: "'s \<Rightarrow> bool"
  assumes pass_some: "invar s \<Longrightarrow> known q \<Longrightarrow> q \<noteq> here s \<Longrightarrow> length (trail s) < cap \<Longrightarrow>
        \<exists>s'. pass q s = Some s' \<and> invar s' \<and> here s' = q \<and> trail s' = here s # trail s"
    and bring_some: "invar s \<Longrightarrow> trail s = p # ps \<Longrightarrow>
        \<exists>s'. bring s = Some (p, s') \<and> invar s' \<and> here s' = here s \<and> trail s' = ps"
begin

lemma pass_all_trail:
  assumes "invar s" and "\<forall>q\<in>set qs. known q" and "way (here s) qs" and "length (trail s) + length qs \<le> cap"
  shows "\<exists>s'. pass_all pass qs s = Some s' \<and> invar s' \<and> here s' = last (here s # qs) \<and>
    trail s' = rev (butlast (here s # qs)) @ trail s"
  using assms
proof (induction qs arbitrary: s)
  case (Cons q qs)
  have room: "length (trail s) < cap" using Cons.prems(4) by simp
  obtain s1 where s1: "pass q s = Some s1" "invar s1" "here s1 = q" "trail s1 = here s # trail s"
    using pass_some [OF Cons.prems(1) _ _ room, of q] Cons.prems(2,3) by auto
  obtain s' where "pass_all pass qs s1 = Some s'" "invar s'" "here s' = last (q # qs)"
    "trail s' = rev (butlast (q # qs)) @ here s # trail s"
    using Cons.IH [of s1] Cons.prems(2,3,4) s1 by auto
  then show ?case using s1(1) by simp
qed simp

lemma bring_n_trail:
  assumes "invar s" and "trail s = ps @ qs"
  shows "\<exists>s'. bring_n bring (length ps) s = Some (ps, s') \<and> invar s' \<and> here s' = here s \<and> trail s' = qs"
  using assms
proof (induction ps arbitrary: s)
  case (Cons p ps)
  obtain s1 where s1: "bring s = Some (p, s1)" "invar s1" "here s1 = here s" "trail s1 = ps @ qs"
    using bring_some [OF Cons.prems(1), of p "ps @ qs"] Cons.prems(2) by auto
  then show ?case using Cons.IH [of s1] by fastforce
qed simp

lemma round_trip:
  assumes "invar s" and "\<forall>q\<in>set qs. known q" and "way (here s) qs" and "length (trail s) + length qs \<le> cap"
  shows "\<exists>s1 s2. pass_all pass qs s = Some s1 \<and> here s1 = last (here s # qs) \<and>
    bring_n bring (length qs) s1 = Some (rev (butlast (here s # qs)), s2) \<and>
    invar s2 \<and> here s2 = here s1 \<and> trail s2 = trail s"
proof -
  obtain s1 where s1: "pass_all pass qs s = Some s1" "invar s1" "here s1 = last (here s # qs)"
    "trail s1 = rev (butlast (here s # qs)) @ trail s"
    using pass_all_trail [OF assms] by blast
  show ?thesis using bring_n_trail [OF s1(2,4)] s1(1,3) by auto
qed

end

end
