(* ===== verification/Xproto.thy ===== *)
theory Xproto
  imports Xseg Relay
begin

text \<open>
  The request protocol: what submit, accept, respond and receive do when the queues have
  room and no lock is held, and the way of a request through a chain of ports and back.
\<close>

section \<open>One message\<close>

text \<open>Putting a request into a queue, and taking the oldest one out.\<close>

definition enq :: "nat \<Rightarrow> nat \<Rightarrow> xseg \<Rightarrow> xseg" where
  "enq q xreq s = set_queue q (snd (raw_xq_append_tail (sg_queue_at s q) (of_nat xreq))) s"

definition deq :: "nat \<Rightarrow> xseg \<Rightarrow> xseg" where
  "deq q s = set_queue q (snd (raw_xq_pop_head (sg_queue_at s q))) s"

definition push_path :: "xport \<Rightarrow> nat \<Rightarrow> xseg \<Rightarrow> xseg" where
  "push_path n xreq s = upd_req xreq (\<lambda>r. r\<lparr>rq_path := snd (raw_xq_append_head (rq_path r) (ucast n))\<rparr>) s"

definition has_room :: "xq \<Rightarrow> bool" where "has_room q \<longleftrightarrow> q_wf q \<and> q_len q < q_cap q"

text \<open>A request pointer whose offset is not the mark \<^verbatim>\<open>Noneidx\<close>.\<close>

definition req_ptr :: "nat \<Rightarrow> bool" where "req_ptr xreq \<longleftrightarrow> 0 < xreq \<and> xreq < 2 ^ 64 - 1"

lemma req_ptr_word:
  assumes "req_ptr xreq"
  shows "of_nat xreq \<noteq> Noneidx" and "unat (of_nat xreq :: u64) = xreq" and "xreq \<noteq> 0"
proof -
  show u: "unat (of_nat xreq :: u64) = xreq" using assms by (intro unat_of_nat_u64) (simp add: req_ptr_def)
  have "unat Noneidx = 2 ^ 64 - 1" by (simp add: unsigned_minus_1_eq_mask mask_eq_exp_minus_1)
  then show "of_nat xreq \<noteq> Noneidx" using u assms unfolding req_ptr_def by (metis less_irrefl)
  show "xreq \<noteq> 0" using assms by (simp add: req_ptr_def)
qed

lemma port_word:
  fixes n :: xport
  shows "(ucast n :: u64) \<noteq> Noneidx" and "ucast (ucast n :: u64) = n"
proof -
  show "(ucast n :: u64) \<noteq> Noneidx"
  proof
    assume "(ucast n :: u64) = Noneidx"
    then have "bit (ucast n :: u64) 40" by simp
    then show False by (auto simp: bit_simps dest: bit_imp_le_length)
  qed
  show "ucast (ucast n :: u64) = n" by (rule bit_word_eqI) (auto simp: bit_simps)
qed

lemma append_request_room:
  assumes "has_room (sg_queue_at s (get (sg_port_at s port)))" and "req_ptr xreq"
  shows "append_request junk cl flags get put port xreq s = Some (of_nat xreq, enq (get (sg_port_at s port)) xreq s)"
proof -
  let ?q = "sg_queue_at s (get (sg_port_at s port))"
  obtain w q' where "raw_xq_append_tail ?q (of_nat xreq) = (w, q')" by fastforce
  moreover have "fst (raw_xq_append_tail ?q (of_nat xreq)) = of_nat xreq"
    using append_tail_list(1) assms(1) by (simp add: has_room_def)
  ultimately show ?thesis
    using req_ptr_word [OF assms(2)] by (simp add: append_request_def enq_def)
qed

text \<open>The request goes to \<open>nxt\<close>, and the port it came from is remembered.\<close>

lemma submit_eq:
  assumes r: "req_ptr xreq" "sg_req_at s xreq = r" and v: "validate_port s (rq_transit_portno r)"
    "validate_port s (rq_effective_dst_portno r)"
    and nxt: "find_next s (rq_effective_dst_portno r) (rq_transit_portno r) = Some (Some (nxt, port))"
    and path: "has_room (rq_path r)" and q: "pt_request_queue (sg_port_at s port) = q" "has_room (sg_queue_at s q)"
    and l: "pt_rq_lock (sg_port_at s port) = free_lock"
  shows "xseg_submit junk cl xreq portno flags s =
    Some (nxt, enq q xreq (push_path (rq_transit_portno r) xreq s))"
proof -
  let ?n = "rq_transit_portno r"
  obtain w p where wp: "raw_xq_append_head (rq_path r) (ucast ?n) = (w, p)" by fastforce
  then have w: "w = ucast ?n" using append_head_list(1) [of "rq_path r" "ucast ?n"] path by (simp add: has_room_def)
  define s1 where "s1 = push_path ?n xreq s"
  have s1: "s1 = upd_req xreq (\<lambda>r. r\<lparr>rq_path := p\<rparr>) s"
    using wp r(2) by (simp add: s1_def push_path_def upd_req_def)
  have l1: "get_lock RQ (sg_port_at s1 port) = free_lock" using l by (simp add: s1)
  obtain k where a: "acquire_port cl RQ port s1 = Some (upd_port port (put_lock RQ k) s1)"
    using acquire_release [OF l1] by blast
  have e: "append_request junk cl flags pt_request_queue (\<lambda>q p. p\<lparr>pt_request_queue := q\<rparr>) port xreq
      (upd_port port (put_lock RQ k) s1) = Some (of_nat xreq, enq q xreq (upd_port port (put_lock RQ k) s1))"
    by (subst append_request_room) (use q r(1) in \<open>simp_all add: s1 del: put_lock.simps\<close>)
  have f: "release_port RQ port (enq q xreq (upd_port port (put_lock RQ k) s1)) = enq q xreq s1"
    using release_after(1) [OF l1] by (simp add: enq_def del: put_lock.simps)
  show ?thesis
    using req_ptr_word [OF r(1)] r(2) v nxt wp w port_word(1) [of ?n] a e f
    by (simp add: xseg_submit_def s1 [symmetric] s1_def [symmetric] Let_def del: put_lock.simps)
qed

text \<open>The oldest item of a queue is at the end of its list.\<close>

definition oldest :: "xq \<Rightarrow> u64 \<Rightarrow> bool" where
  "oldest q x \<longleftrightarrow> q_wf q \<and> (\<exists>xs. q_list q = xs @ [x])"

lemma oldest_pop:
  assumes "oldest q x"
  shows "\<exists>q'. raw_xq_pop_head q = (x, q') \<and> raw_xq_peek_head q = x \<and> q_wf q' \<and> q_list q' = butlast (q_list q) \<and>
    q_cap q' = q_cap q"
proof -
  from assms obtain xs where q: "q_wf q" "q_list q = xs @ [x]" by (auto simp: oldest_def)
  then have "xq_count q \<noteq> 0" by (metis append_is_Nil_conv list.distinct(1) q_list_Nil)
  with q show ?thesis
    using pop_head_list [OF q(1)] peek_list(1) [OF q(1)] by (cases "raw_xq_pop_head q") (simp add: q_cap_def)
qed

lemma accept_eq:
  assumes port: "xseg_get_port s portno = port" "port \<noteq> 0" and l: "pt_rq_lock (sg_port_at s port) = free_lock"
    and q: "pt_request_queue (sg_port_at s port) = q" "oldest (sg_queue_at s q) (of_nat xreq)" and r: "req_ptr xreq"
  shows "xseg_accept cl portno flags s =
    Some (xreq, upd_req xreq (\<lambda>r. r\<lparr>rq_transit_portno := portno\<rparr>) (deq q s))"
proof -
  have l1: "get_lock RQ (sg_port_at s port) = free_lock" using l by simp
  obtain k where a: "try_port cl flags RQ port s = Some (True, upd_port port (put_lock RQ k) s)"
    using acquire_release [OF l1] by blast
  obtain q' where q': "raw_xq_pop_head (sg_queue_at s q) = (of_nat xreq, q')"
    using oldest_pop [OF q(2)] by blast
  have "release_port RQ port (set_queue q q' (upd_port port (put_lock RQ k) s)) = set_queue q q' s"
    by (rule release_after [OF l1])
  then show ?thesis
    using a q' port q(1) req_ptr_word [OF r]
    by (simp add: xseg_accept_def deq_def Let_def del: put_lock.simps)
qed

lemma respond_eq:
  assumes r: "req_ptr xreq" "oldest (rq_path (sg_req_at s xreq)) (ucast dst)"
    and port: "xseg_get_port s dst = port" "port \<noteq> 0" "pt_flags (sg_port_at s port) AND CAN_RECEIVE \<noteq> 0"
    and q: "pt_reply_queue (sg_port_at s port) = q" "has_room (sg_queue_at s q)"
    and l: "pt_pq_lock (sg_port_at s port) = free_lock"
  shows "xseg_respond junk cl xreq portno flags s = Some (dst, enq q xreq s)"
proof -
  have l1: "get_lock PQ (sg_port_at s port) = free_lock" using l by simp
  obtain k where a: "acquire_port cl PQ port s = Some (upd_port port (put_lock PQ k) s)"
    using acquire_release [OF l1] by blast
  have f: "find_receiver xreq s = Some (Some (dst, port), s)"
    using oldest_pop [OF r(2)] port port_word [of dst] by (subst find_receiver.simps) (auto simp: Let_def)
  have e: "append_request junk cl flags pt_reply_queue (\<lambda>q p. p\<lparr>pt_reply_queue := q\<rparr>) port xreq
      (upd_port port (put_lock PQ k) s) = Some (of_nat xreq, enq q xreq (upd_port port (put_lock PQ k) s))"
    by (subst append_request_room) (use q r(1) in \<open>simp_all del: put_lock.simps\<close>)
  have "release_port PQ port (enq q xreq (upd_port port (put_lock PQ k) s)) = enq q xreq s"
    using release_after(1) [OF l1] by (simp add: enq_def del: put_lock.simps)
  then show ?thesis
    using req_ptr_word [OF r(1)] f a e by (simp add: xseg_respond_def Let_def del: put_lock.simps)
qed

lemma receive_eq:
  assumes port: "xseg_get_port s portno = port" "port \<noteq> 0" and l: "pt_pq_lock (sg_port_at s port) = free_lock"
    and q: "pt_reply_queue (sg_port_at s port) = q" "oldest (sg_queue_at s q) (of_nat xreq)" and r: "req_ptr xreq"
    and path: "oldest (rq_path (sg_req_at s xreq)) (ucast (n :: xport))"
  shows "xseg_receive cl portno flags s = Some (xreq, pop_path xreq (deq q s))"
proof -
  have l1: "get_lock PQ (sg_port_at s port) = free_lock" using l by simp
  obtain k where a: "try_port cl flags PQ port s = Some (True, upd_port port (put_lock PQ k) s)"
    using acquire_release [OF l1] by blast
  obtain q' where q': "raw_xq_pop_head (sg_queue_at s q) = (of_nat xreq, q')"
    using oldest_pop [OF q(2)] by blast
  obtain p' where p': "raw_xq_pop_head (rq_path (sg_req_at s xreq)) = (ucast n, p')"
    using oldest_pop [OF path] by blast
  have "release_port PQ port (set_queue q q' (upd_port port (put_lock PQ k) s)) = set_queue q q' s"
    by (rule release_after [OF l1])
  then show ?thesis
    using a q' p' port q(1) req_ptr_word [OF r] port_word(1) [of n]
    by (subst xseg_receive.simps) (simp add: deq_def pop_path_def upd_req_def Let_def del: put_lock.simps)
qed

section \<open>The way of a request\<close>

text \<open>
  A port that is ready to take part: bound, with its own place in the routing table unset,
  willing to accept and to receive, with empty queues and free locks.
\<close>

definition empty_q :: "xq \<Rightarrow> bool" where "empty_q q \<longleftrightarrow> q_wf q \<and> q_list q = [] \<and> 0 < q_cap q"

definition port_ready :: "xseg \<Rightarrow> xport \<Rightarrow> bool" where
  "port_ready s n \<longleftrightarrow>
     (let p = xseg_get_port s n; pt = sg_port_at s p in
      validate_port s n \<and> p \<noteq> 0 \<and> sg_path_next s ! unat n = NoPort \<and> pt_flags pt AND CAN_RECEIVE \<noteq> 0 \<and>
      pt_rq_lock pt = free_lock \<and> pt_pq_lock pt = free_lock \<and>
      empty_q (sg_queue_at s (pt_request_queue pt)) \<and> empty_q (sg_queue_at s (pt_reply_queue pt)))"

definition path_ports :: "xseg \<Rightarrow> nat \<Rightarrow> xport list" where
  "path_ports s xreq = map ucast (rev (q_list (rq_path (sg_req_at s xreq))))"

definition proto_ok :: "xport set \<Rightarrow> nat \<Rightarrow> xseg \<Rightarrow> bool" where
  "proto_ok P xreq s \<longleftrightarrow>
     (let r = sg_req_at s xreq in
      req_ptr xreq \<and> rq_transit_portno r \<in> P \<and> q_wf (rq_path r) \<and> q_cap (rq_path r) = unat MAX_PATH_LEN \<and>
      (\<forall>x\<in>set (q_list (rq_path r)). \<exists>n\<in>P. x = ucast n) \<and> (\<forall>n\<in>P. port_ready s n))"

text \<open>One hop: the holder of the request forwards it and the next port accepts it; on the way back a port responds and the one before receives.\<close>

definition pass_on ::
  "(nat \<Rightarrow> u64 list) \<Rightarrow> caller \<Rightarrow> u32 \<Rightarrow> nat \<Rightarrow> xport \<Rightarrow> xseg \<Rightarrow> xseg option" where
  "pass_on junk cl flags xreq q s =
     do {
       (n, s) \<leftarrow> xseg_forward junk cl xreq q (rq_transit_portno (sg_req_at s xreq)) flags s;
       if n \<noteq> q then None
       else do { (r, s) \<leftarrow> xseg_accept cl q flags s; if r = xreq then Some s else None }
     }"

definition hand_back ::
  "(nat \<Rightarrow> u64 list) \<Rightarrow> caller \<Rightarrow> u32 \<Rightarrow> nat \<Rightarrow> xseg \<Rightarrow> (xport \<times> xseg) option" where
  "hand_back junk cl flags xreq s =
     do {
       (n, s) \<leftarrow> xseg_respond junk cl xreq (rq_transit_portno (sg_req_at s xreq)) flags s;
       (r, s) \<leftarrow> xseg_receive cl n flags s;
       if r = xreq then Some (n, s) else None
     }"

lemma empty_enq:
  assumes e: "empty_q (sg_queue_at s q)"
  shows "has_room (sg_queue_at s q)" and "oldest (sg_queue_at (enq q xreq s) q) (of_nat xreq)"
    and "empty_q (sg_queue_at (deq q (enq q xreq s)) q)"
proof -
  show room: "has_room (sg_queue_at s q)" using e by (auto simp: empty_q_def has_room_def q_len_def)
  let ?q = "snd (raw_xq_append_tail (sg_queue_at s q) (of_nat xreq))"
  have q: "q_wf ?q" "q_list ?q = [of_nat xreq]" "q_cap ?q = q_cap (sg_queue_at s q)"
    using append_tail_list [of "sg_queue_at s q" "of_nat xreq"] room e
    by (simp_all add: has_room_def empty_q_def q_cap_def)
  then show o: "oldest (sg_queue_at (enq q xreq s) q) (of_nat xreq)" by (simp add: enq_def oldest_def)
  from oldest_pop [OF o] q e show "empty_q (sg_queue_at (deq q (enq q xreq s)) q)"
    by (auto simp: enq_def deq_def empty_q_def)
qed

text \<open>States that differ in requests and, as long as they are empty, in queues.\<close>

definition same_seg :: "xseg \<Rightarrow> xseg \<Rightarrow> bool" where
  "same_seg s s' \<longleftrightarrow> sg_config s' = sg_config s \<and> sg_ports s' = sg_ports s \<and> sg_path_next s' = sg_path_next s \<and>
     sg_port_at s' = sg_port_at s \<and> (\<forall>q. empty_q (sg_queue_at s q) \<longrightarrow> empty_q (sg_queue_at s' q))"

lemma port_ready_same:
  assumes "same_seg s s'" and "port_ready s n"
  shows "port_ready s' n"
proof -
  have "xseg_get_port s' n = xseg_get_port s n" "validate_port s' n = validate_port s n"
    using assms(1) by (simp_all add: same_seg_def xseg_get_port_def validate_port_def)
  then show ?thesis using assms by (simp add: port_ready_def same_seg_def Let_def)
qed

lemma find_next_direct:
  assumes "port_ready s n" and "port_ready s m" and "m \<noteq> n"
  shows "find_next s m n = Some (Some (m, xseg_get_port s m))"
proof -
  have "pt_flags (sg_port_at s (xseg_get_port s m)) \<noteq> 0" using assms(2) by (auto simp: port_ready_def Let_def)
  then show ?thesis
    using assms by (subst find_next.simps) (simp add: port_ready_def path_step_def Let_def)
qed

lemma enq_other [simp]:
  "sg_req_at (enq q x s) = sg_req_at s" "sg_port_at (enq q x s) = sg_port_at s"
  "xseg_get_port (enq q x s) n = xseg_get_port s n" "sg_req_at (deq q s) = sg_req_at s"
  "sg_port_at (deq q s) = sg_port_at s" "xseg_get_port (deq q s) n = xseg_get_port s n"
  by (simp_all add: enq_def deq_def)

lemma pass_on_some:
  assumes ok: "proto_ok P xreq s" and m: "m \<in> P" "m \<noteq> rq_transit_portno (sg_req_at s xreq)"
    and room: "q_len (rq_path (sg_req_at s xreq)) < unat MAX_PATH_LEN"
  shows "\<exists>s'. pass_on junk cl flags xreq m s = Some s' \<and> same_seg s s' \<and>
    sg_req_at s' xreq = (sg_req_at s xreq)\<lparr>rq_effective_dst_portno := m, rq_transit_portno := m,
      rq_path := snd (raw_xq_append_head (rq_path (sg_req_at s xreq)) (ucast (rq_transit_portno (sg_req_at s xreq))))\<rparr>"
proof -
  define n where "n = rq_transit_portno (sg_req_at s xreq)"
  define port where "port = xseg_get_port s m"
  define q where "q = pt_request_queue (sg_port_at s port)"
  define s1 where "s1 = upd_req xreq (\<lambda>r. r\<lparr>rq_effective_dst_portno := m\<rparr>) s"
  define s2 where "s2 = push_path n xreq s1"
  define s3 where "s3 = deq q (enq q xreq s2)"
  define s4 where "s4 = upd_req xreq (\<lambda>r. r\<lparr>rq_transit_portno := m\<rparr>) s3"
  from ok m(1) have rdy: "port_ready s n" "port_ready s m" and r: "req_ptr xreq"
    and path: "q_wf (rq_path (sg_req_at s xreq))" "q_cap (rq_path (sg_req_at s xreq)) = unat MAX_PATH_LEN"
    by (simp_all add: proto_ok_def n_def Let_def)
  have s1: "port_ready s1 n" "port_ready s1 m" "sg_req_at s1 xreq = (sg_req_at s xreq)\<lparr>rq_effective_dst_portno := m\<rparr>"
    "rq_transit_portno (sg_req_at s1 xreq) = n"
    using port_ready_same [of s s1] rdy by (simp_all add: s1_def same_seg_def n_def)
  have nxt: "find_next s1 m n = Some (Some (m, port))"
    using find_next_direct [OF s1(1,2)] m(2) by (simp add: n_def port_def s1_def)
  from s1(2) have pm: "validate_port s1 m" "port \<noteq> 0" "pt_rq_lock (sg_port_at s1 port) = free_lock"
    "empty_q (sg_queue_at s2 q)" "pt_request_queue (sg_port_at s1 port) = q" "sg_queue_at s1 = sg_queue_at s2"
    by (auto simp: port_ready_def Let_def port_def q_def s1_def s2_def push_path_def)
  have sub: "xseg_submit junk cl xreq n flags s1 = Some (m, enq q xreq s2)"
    unfolding s2_def s1(4) [symmetric]
  proof (rule submit_eq [OF r refl])
    show "has_room (sg_queue_at s1 q)" using empty_enq(1) [OF pm(4)] pm(6) by simp
    show "validate_port s1 (rq_transit_portno (sg_req_at s1 xreq))" using s1(1,4) by (simp add: port_ready_def Let_def)
  qed (use pm nxt s1(3,4) path room in \<open>simp_all add: has_room_def\<close>)
  have acc: "xseg_accept cl m flags (enq q xreq s2) = Some (xreq, s4)"
    unfolding s4_def s3_def
    by (rule accept_eq [where port = port])
      (use pm r empty_enq(2) [OF pm(4)] in \<open>simp_all add: s2_def s1_def push_path_def port_def q_def\<close>)
  have "pass_on junk cl flags xreq m s = Some s4"
    using sub acc pm(1) req_ptr_word(3) [OF r] unfolding pass_on_def xseg_forward_def s1_def n_def by auto
  moreover have "same_seg s s4"
    using empty_enq(3) [OF pm(4), of xreq]
    by (auto simp: same_seg_def s4_def s3_def s2_def s1_def push_path_def enq_def deq_def)
  ultimately show ?thesis
    by (intro exI [of _ s4]) (simp add: s4_def s3_def s2_def s1_def push_path_def n_def)
qed

lemma hand_back_some:
  assumes ok: "proto_ok P xreq s" and path: "path_ports s xreq = m # ps"
  shows "\<exists>s'. hand_back junk cl flags xreq s = Some (m, s') \<and> same_seg s s' \<and>
    sg_req_at s' xreq = (sg_req_at s xreq)\<lparr>rq_path := snd (raw_xq_pop_head (rq_path (sg_req_at s xreq)))\<rparr> \<and>
    oldest (rq_path (sg_req_at s xreq)) (ucast m)"
proof -
  define port where "port = xseg_get_port s m"
  define q where "q = pt_reply_queue (sg_port_at s port)"
  define s1 where "s1 = deq q (enq q xreq s)"
  let ?p = "rq_path (sg_req_at s xreq)"
  from ok have r: "req_ptr xreq" and wf: "q_wf ?p" and P: "\<forall>x\<in>set (q_list ?p). \<exists>n\<in>P. x = ucast n" "\<forall>n\<in>P. port_ready s n"
    by (simp_all add: proto_ok_def Let_def)
  obtain x xs where x: "q_list ?p = xs @ [x]" "ucast x = m"
    using path by (cases "q_list ?p" rule: rev_cases) (auto simp: path_ports_def)
  with P(1) obtain n where "n \<in> P" "x = ucast n" by auto
  with x(2) P(2) have m: "x = ucast m" "port_ready s m" by (auto simp: port_word)
  with wf x(1) have old: "oldest ?p (ucast m)" by (simp add: oldest_def)
  from m(2) have pm: "port \<noteq> 0" "pt_pq_lock (sg_port_at s port) = free_lock" "empty_q (sg_queue_at s q)"
    "pt_flags (sg_port_at s port) AND CAN_RECEIVE \<noteq> 0"
    by (simp_all add: port_ready_def Let_def port_def q_def)
  have res: "xseg_respond junk cl xreq (rq_transit_portno (sg_req_at s xreq)) flags s = Some (m, enq q xreq s)"
    by (rule respond_eq [OF r old, where port = port])
      (use pm empty_enq(1) [OF pm(3)] in \<open>simp_all add: port_def q_def\<close>)
  have rec: "xseg_receive cl m flags (enq q xreq s) = Some (xreq, pop_path xreq s1)"
    unfolding s1_def
    by (rule receive_eq [where port = port and n = m])
      (use pm r old empty_enq(2) [OF pm(3)] in \<open>simp_all add: port_def q_def\<close>)
  have "hand_back junk cl flags xreq s = Some (m, pop_path xreq s1)"
    using res rec by (simp add: hand_back_def)
  moreover have "same_seg s (pop_path xreq s1)"
    using empty_enq(3) [OF pm(3), of xreq]
    by (auto simp: same_seg_def pop_path_def s1_def enq_def deq_def)
  ultimately show ?thesis using old by (intro exI [of _ "pop_path xreq s1"]) (simp add: s1_def pop_path_def)
qed

abbreviation transit :: "nat \<Rightarrow> xseg \<Rightarrow> xport" where
  "transit xreq s \<equiv> rq_transit_portno (sg_req_at s xreq)"

text \<open>The protocol is a relay: the path of the request is the way back.\<close>

interpretation xrelay: relay "pass_on junk cl flags xreq" "hand_back junk cl flags xreq" "transit xreq"
  "\<lambda>s. path_ports s xreq" "unat MAX_PATH_LEN" "\<lambda>n. n \<in> P" "proto_ok P xreq" for junk cl flags xreq P
proof
  fix s q
  assume ok: "proto_ok P xreq s" and q: "q \<in> P" "q \<noteq> transit xreq s"
    and "length (path_ports s xreq) < unat MAX_PATH_LEN"
  then have room: "q_len (rq_path (sg_req_at s xreq)) < unat MAX_PATH_LEN" by (simp add: path_ports_def)
  obtain s' where s': "pass_on junk cl flags xreq q s = Some s'" "same_seg s s'"
    "sg_req_at s' xreq = (sg_req_at s xreq)\<lparr>rq_effective_dst_portno := q, rq_transit_portno := q,
      rq_path := snd (raw_xq_append_head (rq_path (sg_req_at s xreq)) (ucast (transit xreq s)))\<rparr>"
    using pass_on_some [OF ok q room] by blast
  note app = append_head_list [of "rq_path (sg_req_at s xreq)" "ucast (transit xreq s)"]
  have "proto_ok P xreq s'" "path_ports s' xreq = transit xreq s # path_ports s xreq"
    using ok q room app s'(3) port_ready_same [OF s'(2)]
    by (auto simp: proto_ok_def path_ports_def Let_def q_cap_def port_word)
  with s' show "\<exists>s'. pass_on junk cl flags xreq q s = Some s' \<and> proto_ok P xreq s' \<and> transit xreq s' = q \<and>
    path_ports s' xreq = transit xreq s # path_ports s xreq" by simp
next
  fix s p ps
  assume ok: "proto_ok P xreq s" and path: "path_ports s xreq = p # ps"
  obtain s' where s': "hand_back junk cl flags xreq s = Some (p, s')" "same_seg s s'"
    "sg_req_at s' xreq = (sg_req_at s xreq)\<lparr>rq_path := snd (raw_xq_pop_head (rq_path (sg_req_at s xreq)))\<rparr>"
    "oldest (rq_path (sg_req_at s xreq)) (ucast p)"
    using hand_back_some [OF ok path] by blast
  obtain xs where xs: "q_list (rq_path (sg_req_at s xreq)) = xs @ [ucast p]" using s'(4) by (auto simp: oldest_def)
  have "proto_ok P xreq s'" "path_ports s' xreq = ps"
    using ok path s'(3) port_ready_same [OF s'(2)] oldest_pop [OF s'(4)] xs
    by (auto simp: proto_ok_def path_ports_def Let_def)
  with s' show "\<exists>s'. hand_back junk cl flags xreq s = Some (p, s') \<and> proto_ok P xreq s' \<and>
    transit xreq s' = transit xreq s \<and> path_ports s' xreq = ps" by simp
qed

text \<open>
  C1. A request can travel along any chain of ready ports, no port passing it to itself, as
  long as the path has room for the chain (32 entries): every forward is delivered to the port it is addressed
  to, which accepts that very request. As many responses then bring it back through the
  same ports in the opposite order, to the port that held it first, with the path that it
  had at the start. But the request then still records the end of the chain as the port
  it is at: receiving does not update \<^verbatim>\<open>transit_portno\<close>.
\<close>

theorem request_round_trip:
  assumes "proto_ok P xreq s" and "\<forall>q\<in>set qs. q \<in> P" and "way (transit xreq s) qs"
    and "length (path_ports s xreq) + length qs \<le> unat MAX_PATH_LEN"
  shows "\<exists>s1 s2. pass_all (pass_on junk cl flags xreq) qs s = Some s1 \<and>
    transit xreq s1 = last (transit xreq s # qs) \<and>
    bring_n (hand_back junk cl flags xreq) (length qs) s1 = Some (rev (butlast (transit xreq s # qs)), s2) \<and>
    proto_ok P xreq s2 \<and> transit xreq s2 = transit xreq s1 \<and> path_ports s2 xreq = path_ports s xreq"
  using xrelay.round_trip [OF assms(1,2) _ assms(4)] assms(3) by blast

lemma demo_path_set: "set (q_list demo_path) = {}"
  by (simp only: demo_path_ok list.set)

lemma demo_proto_ok: "proto_ok {0, 1, 2} 5000 demo_seg"
proof -
  have "port_ready demo_seg n" if "n \<in> {0, 1, 2}" for n
    using that demo_empty_wf snap_4
    by (auto simp: port_ready_def demo_seg_simps validate_port_def xseg_get_port_def empty_q_def Let_def)
  then show ?thesis
    using demo_path_ok(1,3)
    by (simp add: proto_ok_def req_ptr_def MAX_PATH_LEN_def) (simp add: demo_seg_simps demo_path_set)
qed

theorem request_round_trip_witness:
  "\<exists>s1 s2. pass_all (pass_on (\<lambda>_. []) (demo_caller 1) 0 5000) [1, 2, 1] demo_seg = Some s1 \<and> transit 5000 s1 = 1 \<and>
     bring_n (hand_back (\<lambda>_. []) (demo_caller 1) 0 5000) 3 s1 = Some ([2, 1, 0], s2) \<and> path_ports s2 5000 = []"
proof -
  have s: "transit 5000 demo_seg = 0" "path_ports demo_seg 5000 = []"
    using demo_path_ok by (simp_all add: path_ports_def) (simp_all add: demo_seg_simps)
  have w: "way (transit 5000 demo_seg) [1, 2, 1]" "length (path_ports demo_seg 5000) + length [1, 2, 1 :: xport] \<le> unat MAX_PATH_LEN"
    by (simp_all add: s MAX_PATH_LEN_def)
  have l: "length [1, 2, 1 :: xport] = 3" "rev (butlast (0 # [1, 2, 1])) = [2, 1, 0 :: xport]"
    "last (0 # [1, 2, 1]) = (1 :: xport)" by simp_all
  have p: "\<forall>q\<in>set [1, 2, 1]. q \<in> {0, 1, 2 :: xport}" by simp
  from request_round_trip [OF demo_proto_ok p w, of "\<lambda>_. []" "demo_caller 1" 0]
  show ?thesis unfolding s l by blast
qed

section \<open>Who gets a request\<close>

text \<open>
  Whether a port accepts requests is decided by its having any flag at all, not by
  \<^verbatim>\<open>CAN_ACCEPT\<close>: a request for a port that may only receive replies is delivered to its
  request queue, the submit reporting success. Only a port without any flag is passed
  over; at the end of the route the submit then fails and changes nothing.
\<close>

theorem submit_ignores_accept:
  assumes r: "req_ptr xreq" "sg_req_at s xreq = r" and n: "validate_port s (rq_transit_portno r)"
    "sg_path_next s ! unat (rq_transit_portno r) = NoPort"
    and dst: "rq_effective_dst_portno r = dst" "dst \<noteq> rq_transit_portno r" "validate_port s dst"
    and port: "xseg_get_port s dst = port" "port \<noteq> 0" "pt_rq_lock (sg_port_at s port) = free_lock"
    and q: "pt_request_queue (sg_port_at s port) = q" "has_room (sg_queue_at s q)" "has_room (rq_path r)"
  shows "xseg_submit junk cl xreq portno flags s =
    (if pt_flags (sg_port_at s port) \<noteq> 0 then Some (dst, enq q xreq (push_path (rq_transit_portno r) xreq s))
     else Some (NoPort, s))"
proof (cases "pt_flags (sg_port_at s port) = 0")
  case True
  have stop: "find_next s dst dst = Some None" by (subst find_next.simps) simp
  have "find_next s dst (rq_transit_portno r) = Some None"
    using True n dst port stop
    by (subst find_next.simps) (simp add: path_step_def Let_def CAN_ACCEPT_def)
  then show ?thesis
    using True r n dst req_ptr_word(3) [OF r(1)] by (simp add: xseg_submit_def Let_def)
next
  case False
  then have "find_next s dst (rq_transit_portno r) = Some (Some (dst, port))"
    using n dst port by (subst find_next.simps) (simp add: path_step_def Let_def)
  then show ?thesis
    using submit_eq [OF r n(1) _ _ q(3) q(1,2) port(3)] dst False by simp
qed

theorem submit_ignores_accept_witness:
  "let s = upd_port 3000 (\<lambda>p. p\<lparr>pt_flags := CAN_RECEIVE\<rparr>) demo_seg in
   pt_flags (sg_port_at s 3000) AND CAN_ACCEPT = 0 \<and>
   xseg_submit (\<lambda>_. []) (demo_caller 1) 5000 0 0 s = Some (2, enq 3200 5000 (push_path 0 5000 s))"
proof -
  define s where "s = upd_port 3000 (\<lambda>p. p\<lparr>pt_flags := CAN_RECEIVE\<rparr>) demo_seg"
  have f: "pt_flags (sg_port_at s 3000) = 2" by (simp add: s_def CAN_RECEIVE_def)
  have "xseg_submit (\<lambda>_. []) (demo_caller 1) 5000 0 0 s =
    (if pt_flags (sg_port_at s 3000) \<noteq> 0 then Some (2, enq 3200 5000 (push_path (rq_transit_portno demo_request) 5000 s))
     else Some (NoPort, s))"
    using demo_path_ok demo_empty_wf snap_4
    by (intro submit_ignores_accept)
      (simp_all add: s_def demo_seg_simps req_ptr_def validate_port_def xseg_get_port_def has_room_def q_len_def)
  then show ?thesis using f unfolding s_def [symmetric] Let_def by (simp add: demo_request_def CAN_ACCEPT_def)
qed

end
