(* ===== verification/Xreqs.thy ===== *)
theory Xreqs
  imports Xproto
begin

text \<open>
  The memory of requests: where data and target of a request lie in its buffer, and what
  happens to a request between being taken from a port and being returned.
\<close>

section \<open>Buffers\<close>

text \<open>
  The buffer of a request is a chunk of the heap in use; the data begin at its start, the
  target ends at its end, and the two do not overlap.
\<close>

definition req_layout :: "xseg \<Rightarrow> nat \<Rightarrow> (nat \<times> nat) list \<Rightarrow> (nat \<Rightarrow> nat list) \<Rightarrow> bool" where
  "req_layout s req cs F \<longleftrightarrow>
     (let r = sg_req_at s req in
      sg_base s \<le> rq_buffer r \<and> (rq_buffer r - sg_base s, rq_bufferlen r) \<in> live (sg_heap s) cs F \<and>
      rq_data r = rq_buffer r \<and> rq_data r + unat (rq_datalen r) \<le> rq_target r \<and>
      rq_target r + unat (rq_targetlen r) = rq_buffer r + rq_bufferlen r)"

text \<open>A segment whose heap is in order and not in use, and whose offsets do not wrap.\<close>

definition heap_ready :: "xseg \<Rightarrow> nat \<Rightarrow> (nat \<times> nat) list \<Rightarrow> (nat \<Rightarrow> nat list) \<Rightarrow> bool" where
  "heap_ready s st cs F \<longleftrightarrow> heap_rep (sg_heap s) st cs F \<and> unlocked (hp_lock (sg_heap s)) \<and>
     0 < sg_base s \<and> sg_base s + hp_size (sg_heap s) < 2 ^ 64"

lemma alloc_total:
  assumes rep: "heap_rep h st cs F" and lk: "unlocked (hp_lock h)" and cls: "in_classes h b"
  shows "\<exists>a h'. xheap_allocate c b h = Some (a, h') \<and>
    (a = None \<longrightarrow> (\<exists>F'. heap_rep h' st cs F' \<and> live h cs F \<subseteq> live h' cs F') \<and> hp_lock h' = free_lock \<and> hp_size h' = hp_size h \<and>
      hp_unit h' = hp_unit h)"
proof -
  from cls have b: "b < 2 ^ 62" and r: "get_index (hp_unit h) b < classes h"
    "get_index (hp_unit h) (payload (hp_unit h) b) < classes h" by (simp_all add: in_classes_def)
  note ac = allocate_cases [OF rep lk b refl r, where c = c]
  show ?thesis
  proof (cases "F (get_index (hp_unit h) b)")
    case Nil
    show ?thesis
    proof (cases "hp_cur h + get_alloc_bytes (hp_unit h) b \<le> hp_size h")
      case True
      from ac(1) [OF Nil True] show ?thesis by blast
    next
      case False
      then have "xheap_allocate c b h = Some (None, h\<lparr>hp_lock := free_lock\<rparr>)" using ac(2) [OF Nil] by simp
      moreover have "heap_rep (h\<lparr>hp_lock := free_lock\<rparr>) st cs F" "live (h\<lparr>hp_lock := free_lock\<rparr>) cs F = live h cs F"
        using rep by (simp_all add: live_def classes_def)
      ultimately show ?thesis by (intro exI [of _ None] exI [of _ "h\<lparr>hp_lock := free_lock\<rparr>"]) auto
    qed
  next
    case (Cons a as)
    from rep r(1) Cons obtain n where "(a, n) \<in> set cs" unfolding heap_rep_def by (metis list.set_intros(1))
    from ac(3) [OF Cons this] obtain h' where h': "heap_rep h' st cs (F(get_index (hp_unit h) b := as))"
      "xheap_allocate c b h = Some (if n = payload (hp_unit h) b then Some a else None, h')" "hp_lock h' = free_lock"
      "hp_unit h' = hp_unit h" "hp_size h' = hp_size h" by blast
    have "live h cs F \<subseteq> live h' cs (F(get_index (hp_unit h) b := as))"
      using Cons by (fastforce simp: live_iff classes_def h'(4,5) split: if_splits)
    with h' show ?thesis by blast
  qed
qed

lemma seg_alloc_ok:
  assumes rdy: "heap_ready s st cs F" and cls: "in_classes (sg_heap s) b"
  shows "\<exists>p s' cs' F'. seg_alloc cl b s = Some (p, s') \<and> s' = s\<lparr>sg_heap := sg_heap s'\<rparr> \<and> heap_ready s' st cs' F' \<and>
    hp_unit (sg_heap s') = hp_unit (sg_heap s) \<and> hp_size (sg_heap s') = hp_size (sg_heap s) \<and>
    live (sg_heap s) cs F \<subseteq> live (sg_heap s') cs' F' \<and>
    (p \<noteq> 0 \<longrightarrow> sg_base s \<le> p \<and> b \<le> chunk_size s' p \<and> p + chunk_size s' p < 2 ^ 64 \<and>
      live (sg_heap s') cs' F' = insert (p - sg_base s, chunk_size s' p) (live (sg_heap s) cs F) \<and>
      (\<forall>d\<in>live (sg_heap s) cs F. span (p - sg_base s, chunk_size s' p) \<inter> span d = {}))"
proof -
  from rdy have rep: "heap_rep (sg_heap s) st cs F" and lk: "unlocked (hp_lock (sg_heap s))"
    and base: "0 < sg_base s" "sg_base s + hp_size (sg_heap s) < 2 ^ 64" by (simp_all add: heap_ready_def)
  obtain a h' where al: "xheap_allocate cl b (sg_heap s) = Some (a, h')"
    and none: "a = None \<longrightarrow> (\<exists>F'. heap_rep h' st cs F' \<and> live (sg_heap s) cs F \<subseteq> live h' cs F') \<and> hp_lock h' = free_lock \<and> hp_size h' = hp_size (sg_heap s) \<and>
      hp_unit h' = hp_unit (sg_heap s)"
    using alloc_total [OF rep lk cls] by blast
  show ?thesis
  proof (cases a)
    case None
    with none obtain F' where "heap_rep h' st cs F'" "live (sg_heap s) cs F \<subseteq> live h' cs F'" "hp_lock h' = free_lock" "hp_size h' = hp_size (sg_heap s)"
      "hp_unit h' = hp_unit (sg_heap s)" by blast
    with al None base show ?thesis
      by (intro exI [of _ 0] exI [of _ "s\<lparr>sg_heap := h'\<rparr>"])
        (auto simp: seg_alloc_def heap_ready_def)
  next
    case (Some x)
    obtain n cs' F' where n: "heap_rep h' st cs' F'" "hp_lock h' = free_lock" "b \<le> n"
      "live h' cs' F' = insert (x, n) (live (sg_heap s) cs F)" "hp_size h' = hp_size (sg_heap s)"
      "hp_unit h' = hp_unit (sg_heap s)" "\<forall>d\<in>live (sg_heap s) cs F. span (x, n) \<inter> span d = {}"
      using allocate_safe [OF rep lk cls al [unfolded Some]] by blast
    have "(x, n) \<in> set cs'" using n(4) by (auto simp: live_def)
    note cb = chunk_bounds [OF n(1) this]
    have ch: "chunk_size (s\<lparr>sg_heap := h'\<rparr>) (x + sg_base s) = n"
      using cb(1,4) by (simp add: chunk_size_def xheap_get_chunk_size_def get_header_def HDR_def)
    have "x + sg_base s + n < 2 ^ 64" using cb(2) n(5) rep_fields [OF n(1)] base by simp
    with al Some base n ch show ?thesis
      by (intro exI [of _ "x + sg_base s"] exI [of _ "s\<lparr>sg_heap := h'\<rparr>"] exI [of _ cs'] exI [of _ F'])
        (auto simp: seg_alloc_def heap_ready_def)
  qed
qed

lemma alloc_buffer_ok:
  assumes "heap_ready s st cs F" and "in_classes (sg_heap s) b"
  shows "\<exists>p s' cs' F'. xseg_alloc_buffer cl b s = Some (p, s') \<and> s' = s\<lparr>sg_heap := sg_heap s'\<rparr> \<and> heap_ready s' st cs' F' \<and>
    live (sg_heap s) cs F \<subseteq> live (sg_heap s') cs' F' \<and>
    (p \<noteq> 0 \<longrightarrow> sg_base s \<le> p \<and> b \<le> chunk_size s' p \<and> p + chunk_size s' p < 2 ^ 64 \<and>
      live (sg_heap s') cs' F' = insert (p - sg_base s, chunk_size s' p) (live (sg_heap s) cs F) \<and>
      (\<forall>d\<in>live (sg_heap s) cs F. span (p - sg_base s, chunk_size s' p) \<inter> span d = {}))"
proof -
  obtain p s' cs' F' where p: "seg_alloc cl b s = Some (p, s')" "s' = s\<lparr>sg_heap := sg_heap s'\<rparr>" "heap_ready s' st cs' F'"
    "live (sg_heap s) cs F \<subseteq> live (sg_heap s') cs' F'"
    "p \<noteq> 0 \<longrightarrow> sg_base s \<le> p \<and> b \<le> chunk_size s' p \<and> p + chunk_size s' p < 2 ^ 64 \<and>
      live (sg_heap s') cs' F' = insert (p - sg_base s, chunk_size s' p) (live (sg_heap s) cs F) \<and>
      (\<forall>d\<in>live (sg_heap s) cs F. span (p - sg_base s, chunk_size s' p) \<inter> span d = {})"
    using seg_alloc_ok [OF assms, of cl] by blast
  then have "xseg_alloc_buffer cl b s = Some (p, s')" by (auto simp: xseg_alloc_buffer_def)
  with p(2-5) show ?thesis by blast
qed

lemma unat_ucast_u32 [simp]: "unat (ucast (t :: u32) :: u64) = unat t"
proof -
  have "unat t < 2 ^ LENGTH(32)" by (rule unsigned_less)
  then have "unat t < 2 ^ 64" by simp
  then show ?thesis by (simp add: unsigned_ucast_eq take_bit_nat_eq_self)
qed

lemma unat_buffer_len:
  fixes t :: u32 and d :: u64
  assumes "unat t + unat d < 2 ^ 64"
  shows "unat (ucast t + d) = unat t + unat d" and "unat (d + ucast t) = unat t + unat d"
proof -
  have "unat (ucast t + d) = (unat t + unat d) mod 2 ^ 64"
    using unat_word_ariths(1) [of "ucast t :: u64" d] by simp
  then show "unat (ucast t + d) = unat t + unat d" using assms by (simp only: mod_less)
  then show "unat (d + ucast t) = unat t + unat d" by (simp only: add.commute)
qed

lemma w64_back: "t \<le> x \<Longrightarrow> x < 2 ^ 64 \<Longrightarrow> w64 (x + 2 ^ 64 - t) = x - t"
  by (simp add: w64_def mod_if)

lemma prep_layout:
  assumes rdy: "heap_ready s st cs F" and cls: "in_classes (sg_heap s) (unat targetlen + unat datalen)" and req: "req \<noteq> 0"
  shows "\<exists>ret s' cs' F'. xseg_prep_request cl req targetlen datalen s = Some (ret, s') \<and> heap_ready s' st cs' F' \<and>
    live (sg_heap s) cs F \<subseteq> live (sg_heap s') cs' F' \<and>
    (ret = 0 \<and> req_layout s' req cs' F' \<and> rq_datalen (sg_req_at s' req) = datalen \<and>
       rq_targetlen (sg_req_at s' req) = targetlen \<and>
       (\<exists>c. live (sg_heap s') cs' F' = insert c (live (sg_heap s) cs F) \<and>
         (\<forall>d\<in>live (sg_heap s) cs F. span c \<inter> span d = {})) \<or>
     ret = -1 \<and> rq_buffer (sg_req_at s' req) = 0)"
proof -
  have len: "unat (ucast targetlen + datalen) = unat targetlen + unat datalen"
    using cls by (intro unat_buffer_len) (simp add: in_classes_def)
  define s0 where "s0 = upd_req req (\<lambda>r. r\<lparr>rq_buffer := 0, rq_bufferlen := 0\<rparr>) s"
  have s0: "heap_ready s0 st cs F" "sg_heap s0 = sg_heap s" "sg_base s0 = sg_base s"
    using rdy by (simp_all add: s0_def heap_ready_def upd_req_def)
  obtain p s1 cs' F' where al: "xseg_alloc_buffer cl (unat targetlen + unat datalen) s0 = Some (p, s1)"
    "s1 = s0\<lparr>sg_heap := sg_heap s1\<rparr>" "heap_ready s1 st cs' F'" "live (sg_heap s) cs F \<subseteq> live (sg_heap s1) cs' F'"
    and p: "p \<noteq> 0 \<longrightarrow> sg_base s \<le> p \<and> unat targetlen + unat datalen \<le> chunk_size s1 p \<and> p + chunk_size s1 p < 2 ^ 64 \<and>
      live (sg_heap s1) cs' F' = insert (p - sg_base s, chunk_size s1 p) (live (sg_heap s) cs F) \<and>
      (\<forall>d\<in>live (sg_heap s) cs F. span (p - sg_base s, chunk_size s1 p) \<inter> span d = {})"
    using alloc_buffer_ok [OF s0(1), of "unat targetlen + unat datalen" cl] cls s0(2,3) by auto
  have b1: "sg_base s1 = sg_base s" "sg_req_at s1 = sg_req_at s0"
    by (subst al(2), simp add: s0_def upd_req_def)+
  show ?thesis
  proof (cases "p = 0")
    case True
    have "xseg_prep_request cl req targetlen datalen s = Some (-1, s1)"
      using al(1) True req by (simp add: xseg_prep_request_def len s0_def)
    then show ?thesis using al(3,4) b1 by (auto simp: s0_def)
  next
    case False
    define n where "n = chunk_size s1 p"
    define s2 where "s2 = upd_req req (\<lambda>r. r\<lparr>rq_bufferlen := n, rq_buffer := p, rq_data := p,
      rq_target := w64 (p + n + 2 ^ 64 - unat targetlen), rq_datalen := datalen, rq_targetlen := targetlen\<rparr>) s1"
    have e: "xseg_prep_request cl req targetlen datalen s = Some (0, s2)"
      using al(1) False req by (simp add: xseg_prep_request_def len s0_def s2_def n_def)
    have t: "w64 (p + n + 2 ^ 64 - unat targetlen) = p + n - unat targetlen"
      using p False by (intro w64_back) (simp_all add: n_def)
    have "heap_ready s2 st cs' F'" "sg_heap s2 = sg_heap s1" "sg_base s2 = sg_base s"
      using al(3) b1(1) by (simp_all add: s2_def heap_ready_def upd_req_def)
    moreover have "p + unat datalen \<le> p + n - unat targetlen" "p + n - unat targetlen + unat targetlen = p + n"
      using p False unfolding n_def by auto
    ultimately have "heap_ready s2 st cs' F'" "sg_heap s2 = sg_heap s1" "req_layout s2 req cs' F'"
      using p False t by (simp_all add: req_layout_def Let_def) (simp_all add: s2_def n_def)
    then show ?thesis
      using e p False al(4) by (intro exI [of _ 0] exI [of _ s2] exI [of _ cs'] exI [of _ F']) (auto simp: s2_def)
  qed
qed

lemma seg_free_ok:
  assumes rdy: "heap_ready s st cs F" and own: "(p - sg_base s, n) \<in> live (sg_heap s) cs F"
  shows "\<exists>h F'. seg_free cl p s = Some (s\<lparr>sg_heap := h\<rparr>) \<and> heap_ready (s\<lparr>sg_heap := h\<rparr>) st cs F' \<and>
    live h cs F' = live (sg_heap s) cs F - {(p - sg_base s, n)} \<and> hp_unit h = hp_unit (sg_heap s) \<and> hp_size h = hp_size (sg_heap s)"
proof -
  let ?a = "p - sg_base s" and ?h = "sg_heap s"
  let ?r = "get_index (hp_unit ?h) n"
  from rdy have rep: "heap_rep ?h st cs F" "unlocked (hp_lock ?h)" by (simp_all add: heap_ready_def)
  obtain h' where h': "xheap_free cl ?a ?h = Some h'" "heap_rep h' st cs (F(?r := ?a # F ?r))" "hp_lock h' = free_lock"
    "hp_unit h' = hp_unit ?h" "hp_size h' = hp_size ?h"
    using add_in_free_list_rep [OF rep(1) own rep(2) refl] by blast
  have an: "(?a, n) \<in> set cs" using own by (simp add: live_iff)
  have cl: "classes h' = classes ?h" by (simp only: classes_def h'(4,5))
  have only: "fst d = ?a \<longleftrightarrow> d = (?a, n)" if "d \<in> set cs" for d
    using chunk_fun [OF rep(1) an] that by (cases d) auto
  have "live h' cs (F(?r := ?a # F ?r)) = live ?h cs F - {(?a, n)}"
    using only chunk_bounds(6) [OF rep(1) an] unfolding set_eq_iff live_iff cl by (auto simp: live_iff) blast+
  moreover have "heap_ready (s\<lparr>sg_heap := h'\<rparr>) st cs (F(?r := ?a # F ?r))"
    using h'(2,3,5) rdy by (simp add: heap_ready_def)
  ultimately show ?thesis using h' by (auto simp: seg_free_def)
qed

lemma free_buffer_ok:
  assumes rdy: "heap_ready s st cs F" and p: "sg_base s < p" "(p - sg_base s, n) \<in> live (sg_heap s) cs F"
  shows "\<exists>s' F'. xseg_free_buffer cl p s = Some s' \<and> s' = s\<lparr>sg_heap := sg_heap s'\<rparr> \<and> heap_ready s' st cs F' \<and>
    live (sg_heap s) cs F - {(p - sg_base s, n)} \<subseteq> live (sg_heap s') cs F' \<and>
    hp_unit (sg_heap s') = hp_unit (sg_heap s) \<and> hp_size (sg_heap s') = hp_size (sg_heap s)"
proof -
  obtain h F' where "seg_free cl p s = Some (s\<lparr>sg_heap := h\<rparr>)" "heap_ready (s\<lparr>sg_heap := h\<rparr>) st cs F'"
    "live h cs F' = live (sg_heap s) cs F - {(p - sg_base s, n)}" "hp_unit h = hp_unit (sg_heap s)" "hp_size h = hp_size (sg_heap s)"
    using seg_free_ok [OF rdy p(2), of cl] by blast
  then show ?thesis using p(1)
    by (intro exI [of _ "s\<lparr>sg_heap := h\<rparr>"] exI [of _ F']) (simp add: xseg_free_buffer_def)
qed

lemma layout_bound:
  assumes "heap_ready s st cs F" and "req_layout s req cs F"
  shows "rq_buffer (sg_req_at s req) + rq_bufferlen (sg_req_at s req) < 2 ^ 64"
    and "sg_base s < rq_buffer (sg_req_at s req)"
proof -
  let ?r = "sg_req_at s req"
  have "(rq_buffer ?r - sg_base s, rq_bufferlen ?r) \<in> set cs" and b: "sg_base s \<le> rq_buffer ?r"
    using assms(2) by (auto simp: req_layout_def live_def Let_def)
  with assms(1) chunk_bounds [OF _ this(1)] rep_fields
  have "HDR \<le> rq_buffer ?r - sg_base s" "rq_buffer ?r - sg_base s + rq_bufferlen ?r \<le> hp_size (sg_heap s)"
    "sg_base s + hp_size (sg_heap s) < 2 ^ 64"
    unfolding heap_ready_def by (fastforce)+
  with b show "rq_buffer ?r + rq_bufferlen ?r < 2 ^ 64" "sg_base s < rq_buffer ?r" by (auto simp: HDR_def)
qed

lemma drop_buffer:
  assumes rdy: "heap_ready s st cs F" and cls: "in_classes (sg_heap s) b"
    and old: "req_layout s req cs F \<or> rq_buffer (sg_req_at s req) = 0 \<and> rq_bufferlen (sg_req_at s req) = 0"
  defines "r \<equiv> sg_req_at s req"
  shows "\<exists>s1 F1. (if rq_buffer r \<noteq> 0 then xseg_free_buffer cl (rq_buffer r) s else Some s) = Some s1 \<and>
    heap_ready s1 st cs F1 \<and> in_classes (sg_heap s1) b \<and>
    live (sg_heap s) cs F - {(rq_buffer r - sg_base s, rq_bufferlen r)} \<subseteq> live (sg_heap s1) cs F1"
proof (cases "rq_buffer r = 0")
  case True
  then show ?thesis using rdy cls by auto
next
  case False
  with old have lay: "req_layout s req cs F" by (simp add: r_def)
  then have "(rq_buffer r - sg_base s, rq_bufferlen r) \<in> live (sg_heap s) cs F"
    by (simp add: req_layout_def r_def Let_def)
  from free_buffer_ok [OF rdy _ this, of cl] layout_bound(2) [OF rdy lay] False cls show ?thesis
    by (auto simp: r_def in_classes_def classes_def)
qed

text \<open>
  C15. A request that has no buffer, or one laid out as \<open>req_layout\<close> says, can be resized to
  any target and data length: afterwards it is laid out for the new lengths in a chunk of
  the heap that is in use and holds both without overlap, or, where the memory does not
  suffice, it has no buffer and the result is \<^verbatim>\<open>-1\<close>. Every other chunk that was in use
  stays in use, and the heap stays in order.
\<close>

theorem resize_request_layout:
  assumes rdy: "heap_ready s st cs F" and cls: "in_classes (sg_heap s) (unat targetlen + unat datalen)" and req: "req \<noteq> 0"
    and old: "req_layout s req cs F \<or> rq_buffer (sg_req_at s req) = 0 \<and> rq_bufferlen (sg_req_at s req) = 0"
    and new: "0 < unat targetlen + unat datalen"
  shows "\<exists>ret s' cs' F'. xseg_resize_request cl req targetlen datalen s = Some (ret, s') \<and> heap_ready s' st cs' F' \<and>
    live (sg_heap s) cs F - {(rq_buffer (sg_req_at s req) - sg_base s, rq_bufferlen (sg_req_at s req))}
      \<subseteq> live (sg_heap s') cs' F' \<and>
    (ret = 0 \<and> req_layout s' req cs' F' \<and> rq_datalen (sg_req_at s' req) = datalen \<and>
       rq_targetlen (sg_req_at s' req) = targetlen \<or>
     ret = -1 \<and> rq_buffer (sg_req_at s' req) = 0)"
proof -
  define r where "r = sg_req_at s req"
  have len: "unat (datalen + ucast targetlen) = unat targetlen + unat datalen"
    using cls by (intro unat_buffer_len) (simp add: in_classes_def)
  show ?thesis
  proof (cases "unat targetlen + unat datalen \<le> rq_bufferlen r")
    case True
    with old new have lay: "req_layout s req cs F" by (auto simp: r_def)
    define s' where "s' = upd_req req (\<lambda>r. r\<lparr>rq_data := rq_buffer r,
      rq_target := w64 (rq_buffer r + rq_bufferlen r + 2 ^ 64 - unat targetlen),
      rq_datalen := datalen, rq_targetlen := targetlen\<rparr>) s"
    have e: "xseg_resize_request cl req targetlen datalen s = Some (0, s')"
      using True req by (simp add: xseg_resize_request_def len r_def s'_def)
    have "rq_buffer r + rq_bufferlen r < 2 ^ 64" using layout_bound [OF rdy lay] by (simp add: r_def)
    then have t: "w64 (rq_buffer r + rq_bufferlen r + 2 ^ 64 - unat targetlen) = rq_buffer r + rq_bufferlen r - unat targetlen"
      using True by (intro w64_back) simp_all
    have f: "heap_ready s' st cs F" "sg_heap s' = sg_heap s" "sg_base s' = sg_base s"
      using rdy by (simp_all add: s'_def heap_ready_def upd_req_def)
    have "req_layout s' req cs F"
      using lay t f(3) True by (simp add: req_layout_def Let_def r_def) (simp add: s'_def)
    then show ?thesis using e f by (intro exI [of _ 0] exI [of _ s'] exI [of _ cs] exI [of _ F]) (simp add: s'_def)
  next
    case False
    obtain s1 F1 where s1: "(if rq_buffer r \<noteq> 0 then xseg_free_buffer cl (rq_buffer r) s else Some s) = Some s1"
      "heap_ready s1 st cs F1" "in_classes (sg_heap s1) (unat targetlen + unat datalen)"
      "live (sg_heap s) cs F - {(rq_buffer r - sg_base s, rq_bufferlen r)} \<subseteq> live (sg_heap s1) cs F1"
      using drop_buffer [OF rdy cls old] unfolding r_def by blast
    define s2 where "s2 = upd_req req (\<lambda>r. r\<lparr>rq_buffer := 0, rq_bufferlen := 0\<rparr>) s1"
    have s2: "heap_ready s2 st cs F1" "sg_heap s2 = sg_heap s1"
      using s1(2) by (simp_all add: s2_def heap_ready_def upd_req_def)
    have e: "xseg_resize_request cl req targetlen datalen s = xseg_prep_request cl req targetlen datalen s2"
      using False req s1(1)
      by (cases "rq_buffer r = 0") (simp_all add: xseg_resize_request_def len s2_def Let_def r_def)
    obtain ret s' cs' F' where s': "xseg_prep_request cl req targetlen datalen s2 = Some (ret, s')" "heap_ready s' st cs' F'"
      "live (sg_heap s1) cs F1 \<subseteq> live (sg_heap s') cs' F'"
      "ret = 0 \<and> req_layout s' req cs' F' \<and> rq_datalen (sg_req_at s' req) = datalen \<and>
         rq_targetlen (sg_req_at s' req) = targetlen \<or> ret = -1 \<and> rq_buffer (sg_req_at s' req) = 0"
      using prep_layout [OF s2(1) _ req, of targetlen datalen cl] s1(3) unfolding s2(2) by blast
    show ?thesis unfolding e
    proof (intro exI conjI)
      show "live (sg_heap s) cs F - {(rq_buffer (sg_req_at s req) - sg_base s, rq_bufferlen (sg_req_at s req))}
        \<subseteq> live (sg_heap s') cs' F'"
        using s1(4) s'(3) unfolding r_def by (rule subset_trans)
    qed (rule s')+
  qed
qed

lemma demo_heap_ready: "heap_ready demo_seg (hp_cur demo_xheap) [] (\<lambda>_. [])"
  using demo_xheap_ok by (simp add: heap_ready_def demo_seg_def)

theorem resize_request_layout_witness:
  "\<exists>ret s' cs' F'. xseg_resize_request (demo_caller 1) 5000 20 80 demo_seg = Some (ret, s') \<and>
     (ret = 0 \<and> req_layout s' 5000 cs' F' \<and> rq_datalen (sg_req_at s' 5000) = 80 \<and> rq_targetlen (sg_req_at s' 5000) = 20 \<or>
      ret = -1 \<and> rq_buffer (sg_req_at s' 5000) = 0)"
proof -
  have cls: "in_classes (sg_heap demo_seg) (unat (20 :: u32) + unat (80 :: u64))" and pos: "0 < unat (20 :: u32) + unat (80 :: u64)"
    using demo_class(1) by (simp_all add: demo_seg_def)
  have none: "req_layout demo_seg 5000 [] (\<lambda>_. []) \<or> rq_buffer (sg_req_at demo_seg 5000) = 0 \<and> rq_bufferlen (sg_req_at demo_seg 5000) = 0"
    by (simp add: demo_seg_simps)
  have req: "(5000 :: nat) \<noteq> 0" by simp
  show ?thesis
    using resize_request_layout [OF demo_heap_ready cls req none pos, of "demo_caller 1"] by blast
qed

section \<open>Taking and returning a request\<close>

text \<open>The fields a request has when it is taken, and what returning it resets.\<close>

definition taken :: "xport \<Rightarrow> xport \<Rightarrow> xseg_request \<Rightarrow> xseg_request" where
  "taken src dst r = r\<lparr>rq_buffer := 0, rq_bufferlen := 0, rq_target := 0, rq_data := 0, rq_datalen := 0,
     rq_targetlen := 0, rq_src_portno := src, rq_transit_portno := src, rq_dst_portno := dst,
     rq_effective_dst_portno := dst, rq_state := 0, rq_elapsed := 0, rq_timestamp := (0, 0), rq_flags := 0,
     rq_serviced := 0, rq_v0_size := - 1, rq_path := empty_path r\<rparr>"

definition returned :: "xseg_request \<Rightarrow> xseg_request" where
  "returned r = r\<lparr>rq_path := empty_path r, rq_buffer := 0, rq_bufferlen := 0, rq_target := 0, rq_data := 0,
     rq_datalen := 0, rq_targetlen := 0, rq_state := 0, rq_src_portno := NoPort, rq_dst_portno := NoPort,
     rq_transit_portno := NoPort, rq_effective_dst_portno := NoPort, rq_serviced := 0\<rparr>"

text \<open>A port with free locks and a cache of requests whose next one is \<open>xreq\<close>.\<close>

definition cached :: "xseg \<Rightarrow> xport \<Rightarrow> nat \<Rightarrow> bool" where
  "cached s n xreq \<longleftrightarrow>
     (let p = xseg_get_port s n in p \<noteq> 0 \<and> pt_fq_lock (sg_port_at s p) = free_lock \<and> req_ptr xreq \<and>
      oldest (sg_queue_at s (free_q s p)) (of_nat xreq))"

lemma get_cached:
  assumes c: "cached s src xreq"
  shows "xseg_get_request junk cl src dst flags s = init_request cl xreq src dst (deq (free_q s (xseg_get_port s src)) s)"
proof -
  define p where "p = xseg_get_port s src"
  define q where "q = free_q s p"
  from c have p: "p \<noteq> 0" and l: "get_lock FQ (sg_port_at s p) = free_lock" and r: "req_ptr xreq"
    and old: "oldest (sg_queue_at s q) (of_nat xreq)" by (simp_all add: cached_def Let_def p_def q_def)
  obtain k where a: "acquire_port cl FQ p s = Some (upd_port p (put_lock FQ k) s)"
    using acquire_release [OF l] by blast
  obtain q' where q': "raw_xq_pop_head (sg_queue_at s q) = (of_nat xreq, q')" using oldest_pop [OF old] by blast
  have "release_port FQ p (set_queue q q' (upd_port p (put_lock FQ k) s)) = set_queue q q' s"
    by (rule release_after [OF l])
  then show ?thesis
    using a q' p req_ptr_word [OF r] unfolding p_def [symmetric] q_def [symmetric]
    by (simp add: xseg_get_request_def free_q_def deq_def Let_def p_def [symmetric] q_def [unfolded free_q_def, symmetric]
        del: put_lock.simps)
qed

lemma put_room:
  assumes r: "req_ptr xreq" "sg_req_at s xreq = r" "rq_buffer r = 0" "rq_elapsed r = 0"
    and p: "xseg_get_port s (rq_src_portno r) = p" "p \<noteq> 0" "pt_fq_lock (sg_port_at s p) = free_lock"
    and q: "free_q s p = q" "has_room (sg_queue_at s q)"
  shows "xseg_put_request cl xreq portno s =
    Some (0, set_queue q (snd (raw_xq_append_head (sg_queue_at s q) (of_nat xreq))) (upd_req xreq returned s))"
proof -
  define s1 where "s1 = upd_req xreq returned s"
  have l: "get_lock FQ (sg_port_at s1 p) = free_lock" using p(3) by (simp add: s1_def)
  obtain k where a: "acquire_port cl FQ p s1 = Some (upd_port p (put_lock FQ k) s1)"
    using acquire_release [OF l] by blast
  obtain w q' where q': "raw_xq_append_head (sg_queue_at s q) (of_nat xreq) = (w, q')" by fastforce
  then have w: "w = of_nat xreq"
    using append_head_list(1) [of "sg_queue_at s q" "of_nat xreq"] q(2) by (simp add: has_room_def)
  have f: "release_port FQ p (set_queue q q' (upd_port p (put_lock FQ k) s1)) = set_queue q q' s1"
    by (rule release_after [OF l])
  have e: "rq_elapsed (sg_req_at s1 xreq) = 0" "sg_queue_at s1 = sg_queue_at s" "free_q (upd_port p (put_lock FQ k) s1) p = q"
    using r q(1) by (simp_all add: s1_def returned_def free_q_def del: put_lock.simps)
  have s1': "upd_req xreq (\<lambda>r. r\<lparr>rq_path := empty_path r, rq_buffer := 0, rq_bufferlen := 0, rq_target := 0, rq_data := 0,
     rq_datalen := 0, rq_targetlen := 0, rq_state := 0, rq_src_portno := NoPort, rq_dst_portno := NoPort,
     rq_transit_portno := NoPort, rq_effective_dst_portno := NoPort, rq_serviced := 0\<rparr>) s = s1"
    unfolding s1_def returned_def ..
  show ?thesis
    using a q' w f e r p req_ptr_word [OF r(1)]
    by (simp add: xseg_put_request_def s1' Let_def s1_def [symmetric] del: put_lock.simps)
qed

lemma get_port_valid: "xseg_get_port s n \<noteq> 0 \<Longrightarrow> validate_port s n"
  by (auto simp: xseg_get_port_def split: if_splits)

lemma init_request_valid:
  assumes "req \<noteq> 0" and "validate_port s src" and "validate_port s dst"
  shows "init_request cl req src dst s = Some (req, upd_req req (taken src dst) s)"
  using assms
  by (simp add: init_request_def xseg_prep_ports_def taken_def upd_req_def empty_path_def validate_port_def Let_def)

text \<open>
  C16. Taking a request from the cache of a port gives the one that was returned last, with no
  buffer, addressed from the port to the destination and with an empty path, so that it is
  ready to be submitted. Returning it puts it back on top of the cache, which then
  holds what it held before; no other queue, no other request and no port changes.
\<close>

theorem get_put_request:
  assumes c: "cached s src xreq" and dst: "validate_port s dst" and bufs: "32 \<le> length (q_mem (rq_path (sg_req_at s xreq)))"
    and q: "q = free_q s (xseg_get_port s src)"
  shows "\<exists>s1 s2. xseg_get_request junk cl src dst flags s = Some (xreq, s1) \<and>
    sg_req_at s1 xreq = taken src dst (sg_req_at s xreq) \<and> path_ports s1 xreq = [] \<and>
    q_list (sg_queue_at s1 q) = butlast (q_list (sg_queue_at s q)) \<and>
    xseg_put_request cl xreq src s1 = Some (0, s2) \<and> q_list (sg_queue_at s2 q) = q_list (sg_queue_at s q) \<and>
    sg_req_at s2 xreq = returned (sg_req_at s1 xreq) \<and> (\<forall>x. x \<noteq> q \<longrightarrow> sg_queue_at s2 x = sg_queue_at s x) \<and>
    (\<forall>x. x \<noteq> xreq \<longrightarrow> sg_req_at s2 x = sg_req_at s x) \<and> sg_port_at s2 = sg_port_at s"
proof -
  define p where "p = xseg_get_port s src"
  from c have p: "p \<noteq> 0" "pt_fq_lock (sg_port_at s p) = free_lock" and r: "req_ptr xreq"
    and old: "oldest (sg_queue_at s q) (of_nat xreq)" by (simp_all add: cached_def Let_def p_def q)
  define s1 where "s1 = upd_req xreq (taken src dst) (deq q s)"
  obtain q' where q': "raw_xq_pop_head (sg_queue_at s q) = (of_nat xreq, q')" "q_wf q'"
    "q_list q' = butlast (q_list (sg_queue_at s q))" "q_cap q' = q_cap (sg_queue_at s q)"
    using oldest_pop [OF old] by blast
  obtain xs where xs: "q_list (sg_queue_at s q) = xs @ [of_nat xreq]" "q_wf (sg_queue_at s q)"
    using old by (auto simp: oldest_def)
  have "q_len (sg_queue_at s q) = Suc (length xs)" using arg_cong [OF xs(1), of length] by simp
  moreover have "q_len q' = length xs" using arg_cong [OF q'(3), of length] xs(1) by simp
  ultimately have room: "has_room q'" using q_wf_len [OF xs(2)] q'(2,4) by (simp add: has_room_def)
  have get: "xseg_get_request junk cl src dst flags s = Some (xreq, s1)"
    using get_cached [OF c, of junk cl dst flags] init_request_valid [of xreq "deq q s" src dst cl] req_ptr_word(3) [OF r]
      get_port_valid [of s src] p(1) dst unfolding p_def q s1_def by (simp add: deq_def)
  have s1: "sg_queue_at s1 q = q'" "sg_req_at s1 xreq = taken src dst (sg_req_at s xreq)" "sg_port_at s1 = sg_port_at s"
    "free_q s1 p = q" "xseg_get_port s1 src = p"
    using q'(1) by (simp_all add: s1_def deq_def free_q_def q p_def)
  define q2 where "q2 = snd (raw_xq_append_head q' (of_nat xreq))"
  have put: "xseg_put_request cl xreq src s1 = Some (0, set_queue q q2 (upd_req xreq returned s1))"
    unfolding q2_def s1(1) [symmetric]
    by (rule put_room [where p = p, OF r refl]) (use s1 p room in \<open>simp_all add: taken_def\<close>)
  have e: "q_list (rq_path (sg_req_at s1 xreq)) = []"
    using init_empty_list(2) [of 32 "q_mem (rq_path (sg_req_at s xreq))" "rq_path (sg_req_at s xreq)"] bufs
    unfolding s1(2) by (simp add: taken_def empty_path_def MAX_PATH_LEN_def)
  have "q_list q2 = q_list (sg_queue_at s q)"
    using append_head_list(2) room q'(3) xs(1) by (simp add: q2_def has_room_def)
  with e get put s1 q'(3) show ?thesis
    by (intro exI [of _ s1] exI [of _ "set_queue q q2 (upd_req xreq returned s1)"])
      (simp add: path_ports_def, simp add: s1_def deq_def)
qed

text \<open>
  A request asked for with a destination that is no port is lost: it has left the cache of
  the port, and since its source was reset when it was last returned, the attempt to put
  it back finds no port and leaves it there. It is in no queue and not returned to the
  object handler, and the port still counts it among its requests.
\<close>

theorem get_request_leak:
  assumes c: "cached s src xreq" and dst: "\<not> validate_port s dst"
    and src: "rq_src_portno (sg_req_at s xreq) = NoPort" "\<not> validate_port s NoPort"
    and q: "q = free_q s (xseg_get_port s src)"
  shows "\<exists>s'. xseg_get_request junk cl src dst flags s = Some (0, s') \<and>
    q_list (sg_queue_at s' q) = butlast (q_list (sg_queue_at s q)) \<and> (\<forall>x. x \<noteq> q \<longrightarrow> sg_queue_at s' x = sg_queue_at s x) \<and>
    sg_request_h s' = sg_request_h s \<and> sg_heap s' = sg_heap s \<and> sg_port_at s' = sg_port_at s"
proof -
  from c have r: "req_ptr xreq" and old: "oldest (sg_queue_at s q) (of_nat xreq)" by (simp_all add: cached_def Let_def q)
  have "xseg_get_port s NoPort = 0" using src(2) by (simp add: xseg_get_port_def)
  then have "\<exists>f. init_request cl xreq src dst (deq q s) = Some (0, upd_req xreq f (deq q s))"
    using dst src(1) req_ptr_word(3) [OF r]
    by (auto simp: init_request_def xseg_prep_ports_def xseg_put_request_def deq_def Let_def)
  then obtain f where "xseg_get_request junk cl src dst flags s = Some (0, upd_req xreq f (deq q s))"
    using get_cached [OF c, of junk cl dst flags] unfolding q by auto
  moreover have "q_list (sg_queue_at (deq q s) q) = butlast (q_list (sg_queue_at s q))"
    using oldest_pop [OF old] by (auto simp: deq_def)
  ultimately show ?thesis by (intro exI [of _ "upd_req xreq f (deq q s)"]) (simp add: deq_def upd_req_def set_queue_def)
qed

section \<open>Examples\<close>

definition demo_cached :: xseg where
  "demo_cached = upd_req 5000 (\<lambda>r. r\<lparr>rq_src_portno := NoPort\<rparr>) (enq 1100 5000 demo_seg)"

lemma demo_empty_room: "empty_q demo_empty"
  using demo_empty_wf snap_4 by (simp add: empty_q_def)

lemma demo_cached_ok:
  "cached demo_cached 0 5000" "free_q demo_cached (xseg_get_port demo_cached 0) = 1100"
  "q_list (sg_queue_at demo_cached 1100) = [5000]"
proof -
  have d: "sg_queue_at demo_seg 1100 = demo_empty" "xseg_get_port demo_seg 0 = 1000"
    by (simp_all add: demo_seg_def xseg_get_port_def validate_port_def)
  have p: "xseg_get_port demo_cached 0 = 1000" using d(2) by (simp add: demo_cached_def)
  then show f: "free_q demo_cached (xseg_get_port demo_cached 0) = 1100"
    by (simp add: free_q_def demo_cached_def demo_seg_simps)
  have "oldest (sg_queue_at demo_cached 1100) 5000"
    using empty_enq(2) [of demo_seg 1100 5000] demo_empty_room by (simp add: d demo_cached_def)
  then show "cached demo_cached 0 5000"
    using p f by (simp add: cached_def req_ptr_def) (simp add: demo_cached_def demo_seg_simps)
  show "q_list (sg_queue_at demo_cached 1100) = [5000]"
    using append_tail_list(2) [of demo_empty 5000] demo_empty_wf snap_4 by (simp add: demo_cached_def enq_def d q_len_def)
qed

lemma demo_valid: "validate_port demo_cached 2" "\<not> validate_port demo_cached 3" "\<not> validate_port demo_cached NoPort"
  by (simp_all add: demo_cached_def enq_def validate_port_def) (simp_all add: demo_seg_def NoPort_def)

theorem get_put_request_witness:
  "\<exists>s1 s2. xseg_get_request (\<lambda>_. []) (demo_caller 1) 0 2 0 demo_cached = Some (5000, s1) \<and>
     rq_dst_portno (sg_req_at s1 5000) = 2 \<and> xseg_put_request (demo_caller 1) 5000 0 s1 = Some (0, s2) \<and>
     q_list (sg_queue_at s2 1100) = [5000]"
proof -
  have "q_mem demo_path = replicate 32 0" by (simp add: demo_path_def xq_init_empty_def Let_def)
  then have "32 \<le> length (q_mem (rq_path (sg_req_at demo_cached 5000)))"
    by (simp add: demo_cached_def demo_seg_simps)
  from get_put_request [OF demo_cached_ok(1) demo_valid(1) this refl, of "\<lambda>_. []" "demo_caller 1" 0]
  show ?thesis unfolding demo_cached_ok(2,3) by (auto simp: taken_def)
qed

theorem get_request_leak_witness:
  "\<exists>s'. xseg_get_request (\<lambda>_. []) (demo_caller 1) 0 3 0 demo_cached = Some (0, s') \<and>
     q_list (sg_queue_at demo_cached 1100) = [5000] \<and> q_list (sg_queue_at s' 1100) = [] \<and> sg_port_at s' = sg_port_at demo_cached"
proof -
  have "rq_src_portno (sg_req_at demo_cached 5000) = NoPort" by (simp add: demo_cached_def)
  from get_request_leak [OF demo_cached_ok(1) demo_valid(2) this demo_valid(3) refl, of "\<lambda>_. []" "demo_caller 1" 0]
  show ?thesis unfolding demo_cached_ok(2,3) by auto
qed

end
