(* ===== verification/Xpeer.thy ===== *)
theory Xpeer
  imports Xseg
begin

text \<open>
  The rest of \<^verbatim>\<open>xseg.c\<close>: limits of a port, the data a process keeps for a request, object
  handlers for clients, peer drivers, signals, and the binding of ports. A driver is a
  pointer; \<open>nm\<close> gives its name and \<open>drv\<close> its operations, which are the code of the peer
  type and parameters here: each may change the whole segment and may fail to return.
  A data or signal descriptor pointer is its offset in the segment, 0 the null pointer.
\<close>

section \<open>Limits\<close>

definition xseg_set_max_requests :: "caller \<Rightarrow> xport \<Rightarrow> u64 \<Rightarrow> xseg \<Rightarrow> (int \<times> xseg) option" where
  "xseg_set_max_requests cl portno nr_reqs s =
     (if nr_reqs > XSEG_MAX_ALLOCATED_REQS then Some (-1, s)
      else
        let port = xseg_get_port s portno in
        if port = 0 then Some (-1, s)
        else do {
          s \<leftarrow> acquire_port cl FQ port s;
          let (r, s) = (if xq_size (sg_queue_at s (free_q s port)) \<le> nr_reqs
                        then (0, upd_port port (\<lambda>p. p\<lparr>pt_max_alloc_reqs := nr_reqs\<rparr>) s) else (-1, s));
          let s = release_port FQ port s;
          Some (r, upd_port port (\<lambda>p. p\<lparr>pt_max_alloc_reqs := nr_reqs\<rparr>) s) })"

definition xseg_get_max_requests :: "xseg \<Rightarrow> xport \<Rightarrow> u64" where
  "xseg_get_max_requests s portno =
     (let port = xseg_get_port s portno in if port = 0 then - 1 else pt_max_alloc_reqs (sg_port_at s port))"

definition xseg_get_allocated_requests :: "xseg \<Rightarrow> xport \<Rightarrow> u64" where
  "xseg_get_allocated_requests s portno =
     (let port = xseg_get_port s portno in if port = 0 then - 1 else pt_alloc_reqs (sg_port_at s port))"

text \<open>Requests that do not fit into the new queue are returned to the segment.\<close>

partial_function (option) shrink_loop :: "caller \<Rightarrow> nat \<Rightarrow> nat \<Rightarrow> xseg \<Rightarrow> xseg option" where
  "shrink_loop cl q newq s =
     (if xq_count (sg_queue_at s q) > xq_size (sg_queue_at s newq) then
        let r = raw_xq_pop_head (sg_queue_at s q); s = set_queue q (snd r) s in
        Option.bind (if fst r \<noteq> Noneidx then put_req_obj cl (unat (fst r)) s else Some s)
          (shrink_loop cl q newq)
      else Some s)"

declare shrink_loop.simps [code]

text \<open>When the lock is not free and \<^verbatim>\<open>X_NONBLOCK\<close> is given, the new queue is not freed.\<close>

definition xseg_set_freequeue_size ::
  "(nat \<Rightarrow> u64 list) \<Rightarrow> caller \<Rightarrow> xport \<Rightarrow> u64 \<Rightarrow> u32 \<Rightarrow> xseg \<Rightarrow> (int \<times> xseg) option" where
  "xseg_set_freequeue_size junk cl portno sz flags s =
     (let port = xseg_get_port s portno in
      if port = 0 then Some (-1, s)
      else do {
        (newq, s) \<leftarrow> alloc_queue junk cl (unat sz) s;
        if newq = 0 then Some (-1, s)
        else do {
          (b, s) \<leftarrow> try_port cl flags FQ port s;
          if \<not> b then Some (-1, s)
          else do {
            let q = free_q s port;
            s \<leftarrow> shrink_loop cl q newq s;
            let (r, nq) = raw_xq_resize (sg_queue_at s q) (sg_queue_at s newq);
            let s = set_queue newq nq s;
            if r = Noneidx then do { s \<leftarrow> seg_free cl newq s; Some (-1, release_port FQ port s) }
            else do {
              s \<leftarrow> seg_free cl q (upd_port port (\<lambda>p. p\<lparr>pt_free_queue := newq\<rparr>) s);
              Some (0, release_port FQ port s) } } } })"

definition xseg_leave_port :: int where "xseg_leave_port = -1"

section \<open>Accessors for other languages\<close>

text \<open>Addresses in the process; 0 for a missing request or port.\<close>

definition xseg_get_data_nonstatic :: "xseg \<Rightarrow> nat \<Rightarrow> nat" where
  "xseg_get_data_nonstatic s req = (if req = 0 then 0 else xseg_get_data s req)"

definition xseg_get_target_nonstatic :: "xseg \<Rightarrow> nat \<Rightarrow> nat" where
  "xseg_get_target_nonstatic s req = (if req = 0 then 0 else xseg_get_target s req)"

definition xseg_get_signal_desc_nonstatic :: "xseg \<Rightarrow> nat \<Rightarrow> nat" where
  "xseg_get_signal_desc_nonstatic s port = (if port = 0 then 0 else xseg_get_signal_desc s port)"

definition xseg_portno_nonstatic :: "xseg \<Rightarrow> nat \<Rightarrow> xport" where
  "xseg_portno_nonstatic s port = (if port = 0 then NoPort else xseg_portno s port)"

section \<open>Request data\<close>

text \<open>
  A table of the process from requests to data; the key is the address of
  the request, \<open>sg_segment\<close> being that of the mapped segment. \<open>mem\<close> is
  the memory a new table of a given size gets, if any.
\<close>

definition no_strings :: strings where "no_strings = (\<lambda>_. [])"

definition with_req_data :: "caller \<Rightarrow> (xhash \<Rightarrow> ('r \<times> xhash) option) \<Rightarrow> xseg \<Rightarrow> ('r \<times> xseg) option" where
  "with_req_data cl f s =
     do {
       l \<leftarrow> xlock_acquire cl (sg_reqdatalock s);
       (r, h) \<leftarrow> f (sg_req_data s);
       Some (r, s\<lparr>sg_req_data := h, sg_reqdatalock := xlock_release l\<rparr>)
     }"

definition set_data :: "(nat \<Rightarrow> u64 list option) \<Rightarrow> u64 \<Rightarrow> u64 \<Rightarrow> xhash \<Rightarrow> (int \<times> xhash) option" where
  "set_data mem key data h =
     do {
       (r, h) \<leftarrow> xhash_insert no_strings h key data;
       if r = - XHASH_ERESIZE then do {
         new \<leftarrow> xhash_resize no_strings h (xhash_grow_size_shift h) 0 (mem (xhash_grow_size_shift h));
         case new of None \<Rightarrow> Some (r, h) | Some h \<Rightarrow> xhash_insert no_strings h key data
       } else Some (r, h)
     }"

definition xseg_set_req_data ::
  "(nat \<Rightarrow> u64 list option) \<Rightarrow> caller \<Rightarrow> nat \<Rightarrow> u64 \<Rightarrow> xseg \<Rightarrow> (int \<times> xseg) option" where
  "xseg_set_req_data mem cl xreq data s =
     (if xreq = 0 then Some (-1, s) else with_req_data cl (set_data mem (of_nat (sg_segment s + xreq)) data) s)"

text \<open>The second result is what is stored in \<^verbatim>\<open>*data\<close>, \<open>None\<close> where the code stores an unset variable.\<close>

definition take_data ::
  "(nat \<Rightarrow> u64 list option) \<Rightarrow> u64 \<Rightarrow> xhash \<Rightarrow> ((int \<times> u64 option) \<times> xhash) option" where
  "take_data mem key h =
     do {
       (r, val) \<leftarrow> xhash_lookup no_strings h key;
       if r \<ge> 0 then do {
         (r, h) \<leftarrow> xhash_delete no_strings h key;
         if r = - XHASH_ERESIZE then do {
           new \<leftarrow> xhash_resize no_strings h (xhash_shrink_size_shift h) 0 (mem (xhash_shrink_size_shift h));
           case new of None \<Rightarrow> Some ((r, val), h)
           | Some h \<Rightarrow> do { (r, h) \<leftarrow> xhash_delete no_strings h key; Some ((r, val), h) }
         } else Some ((r, val), h)
       } else Some ((r, val), h)
     }"

definition xseg_get_req_data ::
  "(nat \<Rightarrow> u64 list option) \<Rightarrow> caller \<Rightarrow> nat \<Rightarrow> xseg \<Rightarrow> ((int \<times> u64 option) \<times> xseg) option" where
  "xseg_get_req_data mem cl xreq s =
     (if xreq = 0 then Some ((-1, None), s) else with_req_data cl (take_data mem (of_nat (sg_segment s + xreq))) s)"

section \<open>Object handlers\<close>

definition put_objh :: "caller \<Rightarrow> nat \<Rightarrow> xseg \<Rightarrow> xseg option" where
  "put_objh cl p s =
     do {
       h \<leftarrow> xobj_put_obj cl p ((sg_object_handlers s)\<lparr>oh_heap := sg_heap s\<rparr>);
       Some (s\<lparr>sg_object_handlers := h, sg_heap := oh_heap h\<rparr>)
     }"

definition get_objh :: "(nat \<Rightarrow> u64 list) \<Rightarrow> caller \<Rightarrow> xseg \<Rightarrow> (nat \<times> xseg) option" where
  "get_objh junk cl s =
     do {
       (p, h) \<leftarrow> xobj_get_obj junk cl X_ALLOC ((sg_object_handlers s)\<lparr>oh_heap := sg_heap s\<rparr>);
       Some (case p of None \<Rightarrow> 0 | Some p \<Rightarrow> p, s\<lparr>sg_object_handlers := h, sg_heap := oh_heap h\<rparr>)
     }"

text \<open>A handler made in a fresh object.\<close>

definition init_objh ::
  "(nat \<Rightarrow> u64 list) \<Rightarrow> caller \<Rightarrow> nat \<Rightarrow> nat \<Rightarrow> xobject_h \<Rightarrow> xseg \<Rightarrow> (int \<times> xobject_h \<times> xseg) option" where
  "init_objh junk cl magic sz h s =
     do {
       (r, h) \<leftarrow> xobj_handler_init junk cl (sg_base s) magic sz (sg_heap s) h;
       Some (r, h, s\<lparr>sg_heap := oh_heap h\<rparr>)
     }"

definition xseg_get_objh :: "(nat \<Rightarrow> u64 list) \<Rightarrow> caller \<Rightarrow> nat \<Rightarrow> nat \<Rightarrow> xseg \<Rightarrow> (nat \<times> xseg) option" where
  "xseg_get_objh junk cl magic sz s =
     do {
       (p, s) \<leftarrow> get_objh junk cl s;
       if p = 0 then Some (0, s)
       else do {
         (r, h, s) \<leftarrow> init_objh junk cl magic sz (sg_objh_at s p) s;
         let s = s\<lparr>sg_objh_at := (sg_objh_at s)(p := h)\<rparr>;
         if r < 0 then do { s \<leftarrow> put_objh cl p s; Some (0, s) } else Some (p, s) }
     }"

definition xseg_put_objh :: "caller \<Rightarrow> nat \<Rightarrow> xseg \<Rightarrow> xseg option" where
  "xseg_put_objh cl p s = (if p = 0 then Some s else put_objh cl p s)"

section \<open>Drivers\<close>

record peer_ops =
  po_init_signal_desc :: "nat \<Rightarrow> xseg \<Rightarrow> (int \<times> xseg) option"
  po_alloc_data :: "xseg \<Rightarrow> (nat \<times> xseg) option"
  po_alloc_signal_desc :: "nat \<Rightarrow> xseg \<Rightarrow> (nat \<times> xseg) option"
  po_free_signal_desc :: "nat \<Rightarrow> nat \<Rightarrow> xseg \<Rightarrow> xseg option"
  po_local_signal_init :: "xport \<Rightarrow> xseg \<Rightarrow> (int \<times> xseg) option"
  po_local_signal_quit :: "xport \<Rightarrow> xseg \<Rightarrow> xseg option"
  po_prepare_wait :: "xport \<Rightarrow> xseg \<Rightarrow> (int \<times> xseg) option"
  po_cancel_wait :: "xport \<Rightarrow> xseg \<Rightarrow> (int \<times> xseg) option"
  po_wait_signal :: "nat \<Rightarrow> u32 \<Rightarrow> xseg \<Rightarrow> (int \<times> xseg) option"
  po_signal :: "xport \<Rightarrow> xseg \<Rightarrow> (int \<times> xseg) option"

type_synonym drivers = "nat \<Rightarrow> peer_ops"

definition get_peer_type ::
  "(nat \<Rightarrow> string) \<Rightarrow> (string \<Rightarrow> domain \<Rightarrow> domain) \<Rightarrow> u32 \<Rightarrow> xseg \<times> domain \<Rightarrow> nat \<times> xseg \<times> domain" where
  "get_peer_type nm load_plugin serial = (\<lambda>(s, d).
     if unat serial \<ge> sg_max_peer_types s then (0, s, d)
     else if pv_peer_types s ! unat serial \<noteq> 0 then (pv_peer_types s ! unat serial, s, d)
     else let name = sg_peer_types s ! unat serial in
       if name = [] then (0, s, d)
       else let (ty, d) = find_or_load_peer_type nm load_plugin (Some name) d in
         (ty, s\<lparr>pv_peer_types := (pv_peer_types s)[unat serial := ty]\<rparr>, d))"

definition get_peer_type_data :: "u32 \<Rightarrow> xseg \<Rightarrow> nat \<times> xseg" where
  "get_peer_type_data serial s =
     (if unat serial \<ge> sg_max_peer_types s then (0, s)
      else if pv_peer_type_data s ! unat serial \<noteq> 0 then (pv_peer_type_data s ! unat serial, s)
      else if sg_peer_types s ! unat serial = [] then (0, s)
      else let data = sg_peer_type_data s ! unat serial in
        (data, s\<lparr>pv_peer_type_data := (pv_peer_type_data s)[unat serial := data]\<rparr>))"

text \<open>The loop of \<^verbatim>\<open>__enable_driver\<close> over the shared names, \<open>k\<close> of them left.\<close>

datatype driver_slot = Bind nat | Present nat | Neither

fun find_slot :: "string \<Rightarrow> string list \<Rightarrow> nat \<Rightarrow> nat \<Rightarrow> driver_slot" where
  "find_slot name ds 0 r = Neither"
| "find_slot name ds (Suc k) r =
     (if ds ! r = [] then Bind r
      else if strncmp_eq (ds ! r) name XSEG_TNAMESIZE then Present r
      else find_slot name ds k (r + 1))"

definition note_driver :: "nat \<Rightarrow> nat \<Rightarrow> nat \<Rightarrow> xseg \<Rightarrow> xseg" where
  "note_driver r driver data s =
     s\<lparr>pv_peer_types := (pv_peer_types s)[r := driver], pv_peer_type_data := (pv_peer_type_data s)[r := data]\<rparr>"

definition raw_enable_driver :: "(nat \<Rightarrow> string) \<Rightarrow> drivers \<Rightarrow> nat \<Rightarrow> xseg \<Rightarrow> (int \<times> xseg) option" where
  "raw_enable_driver nm drv driver s =
     (if driver = 0 then Some (-1, s)
      else if sg_nr_peer_types s \<ge> sg_max_peer_types s then Some (-1, s)
      else case find_slot (nm driver) (sg_peer_types s) (sg_max_peer_types s) 0 of
        Neither \<Rightarrow> Some (-666, s)
      | Present r \<Rightarrow>
          let (data, s) = get_peer_type_data (of_nat r) s in Some (int r, note_driver r driver data s)
      | Bind r \<Rightarrow> do {
          (data, s) \<leftarrow> po_alloc_data (drv driver) s;
          if data = 0 then Some (-1, s)
          else
            let s = s\<lparr>sg_peer_type_data := (sg_peer_type_data s)[r := data], sg_nr_peer_types := r + 1,
                      sg_peer_types := (sg_peer_types s)[r := take (XSEG_TNAMESIZE - 1) (nm driver)]\<rparr>
            in Some (int r, note_driver r driver data s) })"

text \<open>
  Without the driver, the result is the index that \<^verbatim>\<open>__find_peer_type\<close> left: the number of
  registered peer types.
\<close>

definition xseg_enable_driver ::
  "(nat \<Rightarrow> string) \<Rightarrow> drivers \<Rightarrow> caller \<Rightarrow> string option \<Rightarrow> domain \<Rightarrow> xseg \<Rightarrow> (int \<times> xseg) option" where
  "xseg_enable_driver nm drv cl name d s =
     (case name of None \<Rightarrow> Some (-1, s)
      | Some name \<Rightarrow>
          let (driver, i) = find_peer_type nm name d in
          if driver = 0 then Some (int i, s)
          else do {
            s \<leftarrow> lock_segment cl s;
            (r, s) \<leftarrow> raw_enable_driver nm drv driver s;
            Some (r, unlock_segment s) })"

definition xseg_disable_driver :: "(nat \<Rightarrow> string) \<Rightarrow> string option \<Rightarrow> domain \<Rightarrow> xseg \<Rightarrow> int \<times> xseg" where
  "xseg_disable_driver nm name d s =
     (case name of None \<Rightarrow> (-1, s)
      | Some name \<Rightarrow>
          let driver = fst (find_peer_type nm name d) in
          if driver = 0 then (-1, s)
          else (0, s\<lparr>pv_peer_types :=
            fold (\<lambda>i ts. if ts ! i = driver then ts[i := 0] else ts) [0..<sg_max_peer_types s] (pv_peer_types s)\<rparr>))"

section \<open>Signals\<close>

definition xseg_prepare_wait :: "drivers \<Rightarrow> xport \<Rightarrow> xseg \<Rightarrow> (int \<times> xseg) option" where
  "xseg_prepare_wait drv portno s =
     (if \<not> validate_port s portno then Some (-1, s) else po_prepare_wait (drv (pv_peer_type s)) portno s)"

definition xseg_cancel_wait :: "drivers \<Rightarrow> xport \<Rightarrow> xseg \<Rightarrow> (int \<times> xseg) option" where
  "xseg_cancel_wait drv portno s =
     (if \<not> validate_port s portno then Some (-1, s) else po_cancel_wait (drv (pv_peer_type s)) portno s)"

definition xseg_wait_signal :: "drivers \<Rightarrow> nat \<Rightarrow> u32 \<Rightarrow> xseg \<Rightarrow> (int \<times> xseg) option" where
  "xseg_wait_signal drv sd usec_timeout s = po_wait_signal (drv (pv_peer_type s)) sd usec_timeout s"

text \<open>The driver of the peer that owns a port, 0 for none.\<close>

definition port_driver ::
  "(nat \<Rightarrow> string) \<Rightarrow> (string \<Rightarrow> domain \<Rightarrow> domain) \<Rightarrow> xport \<Rightarrow> xseg \<times> domain \<Rightarrow> nat \<times> xseg \<times> domain" where
  "port_driver nm load_plugin portno = (\<lambda>(s, d).
     let port = xseg_get_port s portno in
     if port = 0 then (0, s, d)
     else get_peer_type nm load_plugin (ucast (pt_peer_type (sg_port_at s port))) (s, d))"

definition xseg_signal ::
  "(nat \<Rightarrow> string) \<Rightarrow> (string \<Rightarrow> domain \<Rightarrow> domain) \<Rightarrow> drivers \<Rightarrow> xport \<Rightarrow> xseg \<times> domain \<Rightarrow> (int \<times> xseg \<times> domain) option" where
  "xseg_signal nm load_plugin drv portno sd =
     (let (ty, s, d) = port_driver nm load_plugin portno sd in
      if ty = 0 then Some (-1, s, d)
      else do { (r, s) \<leftarrow> po_signal (drv ty) portno s; Some (r, s, d) })"

definition xseg_init_local_signal ::
  "(nat \<Rightarrow> string) \<Rightarrow> (string \<Rightarrow> domain \<Rightarrow> domain) \<Rightarrow> drivers \<Rightarrow> xport \<Rightarrow> xseg \<times> domain \<Rightarrow> (int \<times> xseg \<times> domain) option" where
  "xseg_init_local_signal nm load_plugin drv portno sd =
     (let (ty, s, d) = port_driver nm load_plugin portno sd in
      if ty = 0 then Some (-1, s, d)
      else do { (r, s) \<leftarrow> po_local_signal_init (drv ty) portno s; Some (r, s, d) })"

definition xseg_quit_local_signal ::
  "(nat \<Rightarrow> string) \<Rightarrow> (string \<Rightarrow> domain \<Rightarrow> domain) \<Rightarrow> drivers \<Rightarrow> xport \<Rightarrow> xseg \<times> domain \<Rightarrow> (xseg \<times> domain) option" where
  "xseg_quit_local_signal nm load_plugin drv portno sd =
     (let (ty, s, d) = port_driver nm load_plugin portno sd in
      if ty = 0 then Some (s, d)
      else do { s \<leftarrow> po_local_signal_quit (drv ty) portno s; Some (s, d) })"

section \<open>Binding ports\<close>

text \<open>A signal descriptor of the own peer type, 0 when one of the steps fails.\<close>

definition new_signal_desc :: "drivers \<Rightarrow> int \<Rightarrow> xseg \<Rightarrow> (nat \<times> xseg) option" where
  "new_signal_desc drv driver s =
     (let (peer_data, s) = get_peer_type_data (of_int driver) s; ops = drv (pv_peer_type s) in
      if peer_data = 0 then Some (0, s)
      else do {
        (sigdesc, s) \<leftarrow> po_alloc_signal_desc ops peer_data s;
        if sigdesc = 0 then Some (0, s)
        else do {
          (r, s) \<leftarrow> po_init_signal_desc ops sigdesc s;
          if r < 0 then do { s \<leftarrow> po_free_signal_desc ops peer_data sigdesc s; Some (0, s) }
          else Some (sigdesc, s) } })"

definition own_port :: "nat \<Rightarrow> int \<Rightarrow> u32 \<Rightarrow> xport \<Rightarrow> xseg \<Rightarrow> xseg" where
  "own_port port driver me portno s =
     upd_port port (\<lambda>p. p\<lparr>pt_peer_type := of_int driver, pt_owner := ucast me, pt_portno := portno,
       pt_flags := CAN_ACCEPT OR CAN_RECEIVE\<rparr>) s"

definition set_port :: "xport \<Rightarrow> nat \<Rightarrow> xseg \<Rightarrow> xseg" where
  "set_port portno port s = s\<lparr>sg_ports := (sg_ports s)[unat portno := port]\<rparr>"

text \<open>What follows a \<^verbatim>\<open>break\<close> in \<^verbatim>\<open>xseg_bind_port\<close>, and its body once there is a port.\<close>

definition unbind_port :: "caller \<Rightarrow> xport \<Rightarrow> nat \<Rightarrow> xseg \<Rightarrow> (nat \<times> xseg) option" where
  "unbind_port cl portno port s = do { s \<leftarrow> xseg_free_port cl port s; Some (0, set_port portno 0 s) }"

definition bind_this ::
  "(nat \<Rightarrow> string) \<Rightarrow> drivers \<Rightarrow> caller \<Rightarrow> u32 \<Rightarrow> nat \<Rightarrow> xport \<Rightarrow> nat \<Rightarrow> xseg \<Rightarrow> (nat \<times> xseg) option" where
  "bind_this nm drv cl me sd portno port s =
     do {
       (driver, s) \<leftarrow> raw_enable_driver nm drv (pv_peer_type s) s;
       if driver < 0 then unbind_port cl portno port s
       else do {
         (sd, s) \<leftarrow> (if sd = 0 then new_signal_desc drv driver s else Some (sd, s));
         if sd = 0 then unbind_port cl portno port s
         else
           let s = upd_port port (\<lambda>p. p\<lparr>pt_signal_desc := sd\<rparr>) s
           in Some (port, set_port portno port (own_port port driver me portno s)) }
     }"

text \<open>The loop over \<open>n\<close> port numbers from \<open>portno\<close>.\<close>

fun bind_loop ::
  "(nat \<Rightarrow> u64 list) \<Rightarrow> (nat \<Rightarrow> string) \<Rightarrow> drivers \<Rightarrow> caller \<Rightarrow> u32 \<Rightarrow> nat \<Rightarrow> bool \<Rightarrow> nat \<Rightarrow> xport \<Rightarrow> xseg \<Rightarrow>
     (nat \<times> xseg) option" where
  "bind_loop junk nm drv cl me sd force 0 portno s = Some (0, s)"
| "bind_loop junk nm drv cl me sd force (Suc n) portno s =
     (if sg_ports s ! unat portno = 0 then do {
        (port, s) \<leftarrow> xseg_alloc_port junk cl X_ALLOC XSEG_DEF_REQS s;
        if port = 0 then Some (0, s) else bind_this nm drv cl me sd portno port s }
      else if force then
        let port = xseg_get_port s portno in
        if port = 0 then Some (0, s) else bind_this nm drv cl me sd portno port s
      else bind_loop junk nm drv cl me sd force n (portno + 1) s)"

text \<open>\<open>me\<close> is the result of \<^verbatim>\<open>__get_id\<close>.\<close>

definition xseg_bind_port ::
  "(nat \<Rightarrow> u64 list) \<Rightarrow> (nat \<Rightarrow> string) \<Rightarrow> drivers \<Rightarrow> caller \<Rightarrow> u32 \<Rightarrow> u32 \<Rightarrow> nat \<Rightarrow> xseg \<Rightarrow> (nat \<times> xseg) option" where
  "xseg_bind_port junk nm drv cl me req sd s =
     (let c = sg_config s in
      if cf_dynports c \<ge> cf_nr_ports c then Some (0, s)
      else do {
        s \<leftarrow> lock_segment cl s;
        (port, s) \<leftarrow> (if req \<ge> cf_dynports c then bind_loop junk nm drv cl me sd False (unat (cf_dynports c)) 0 s
                     else bind_loop junk nm drv cl me sd True 1 req s);
        Some (port, unlock_segment s) })"

text \<open>The body of \<^verbatim>\<open>xseg_bind_dynport\<close> once there is a port, and its loop.\<close>

definition dyn_finish ::
  "drivers \<Rightarrow> caller \<Rightarrow> u32 \<Rightarrow> int \<Rightarrow> bool \<Rightarrow> bool \<Rightarrow> xport \<Rightarrow> nat \<Rightarrow> xseg \<Rightarrow> (nat \<times> xseg) option" where
  "dyn_finish drv cl me driver port_allocated has_sd portno port s =
     (if has_sd then Some (port, own_port port driver me portno s)
      else do {
        (sd, s) \<leftarrow> new_signal_desc drv driver s;
        if sd = 0 then (if port_allocated then unbind_port cl portno port s else Some (0, s))
        else Some (port, own_port port driver me portno (upd_port port (\<lambda>p. p\<lparr>pt_signal_desc := sd\<rparr>) s)) })"

fun dyn_loop ::
  "(nat \<Rightarrow> u64 list) \<Rightarrow> drivers \<Rightarrow> caller \<Rightarrow> u32 \<Rightarrow> int \<Rightarrow> nat \<Rightarrow> xport \<Rightarrow> xseg \<Rightarrow> (nat \<times> xseg) option" where
  "dyn_loop junk drv cl me driver 0 portno s = Some (0, s)"
| "dyn_loop junk drv cl me driver (Suc n) portno s =
     (if sg_ports s ! unat portno = 0 then do {
        (port, s) \<leftarrow> xseg_alloc_port junk cl X_ALLOC XSEG_DEF_REQS s;
        if port = 0 then Some (0, s)
        else dyn_finish drv cl me driver True False portno port (set_port portno port s) }
      else
        let port = xseg_get_port s portno; p = sg_port_at s port in
        if port = 0 then Some (0, s)
        else if pt_owner p \<noteq> NoOwner then dyn_loop junk drv cl me driver n (portno + 1) s
        else if pt_signal_desc p = 0 then dyn_finish drv cl me driver False False portno port s
        else if pt_peer_type p = of_int driver then dyn_finish drv cl me driver False True portno port s
        else dyn_finish drv cl me driver False False portno port (upd_port port (\<lambda>p. p\<lparr>pt_signal_desc := 0\<rparr>) s))"

text \<open>When the driver cannot be enabled, the function returns with the segment lock held.\<close>

definition xseg_bind_dynport ::
  "(nat \<Rightarrow> u64 list) \<Rightarrow> (nat \<Rightarrow> string) \<Rightarrow> drivers \<Rightarrow> caller \<Rightarrow> u32 \<Rightarrow> xseg \<Rightarrow> (nat \<times> xseg) option" where
  "xseg_bind_dynport junk nm drv cl me s =
     do {
       s \<leftarrow> lock_segment cl s;
       (driver, s) \<leftarrow> raw_enable_driver nm drv (pv_peer_type s) s;
       if driver < 0 then Some (0, s)
       else do {
         let c = sg_config s;
         (port, s) \<leftarrow> dyn_loop junk drv cl me driver (unat (cf_nr_ports c) - unat (cf_dynports c)) (cf_dynports c) s;
         Some (port, unlock_segment s) }
     }"

definition xseg_leave_dynport :: "caller \<Rightarrow> nat \<Rightarrow> xseg \<Rightarrow> (int \<times> xseg) option" where
  "xseg_leave_dynport cl port s =
     (if port = 0 then Some (-1, s)
      else do {
        s \<leftarrow> lock_segment cl s;
        Some (0, unlock_segment (upd_port port (\<lambda>p. p\<lparr>pt_owner := NoOwner\<rparr>) s)) })"

end
