(* ===== verification/Xdata.thy ===== *)
theory Xdata
  imports Xpeer
begin

text \<open>
  The data a process attaches to requests: the private hash table behind
  \<^verbatim>\<open>xseg_set_req_data\<close> and \<^verbatim>\<open>xseg_get_req_data\<close> is a map, and growing and shrinking it
  at most once per call is enough.
\<close>

section \<open>The table\<close>

text \<open>
  The last condition keeps the table full enough that one step of shrinking suffices: the
  table has its least size, or at least a quarter of it, less one, is used.
\<close>

definition data_ok :: "xhash \<Rightarrow> bool" where
  "data_ok h \<longleftrightarrow> xh_inv no_strings h \<and> xh_type h = XHASH_INTEGER \<and> xh_limit h = 0 \<and> xh_minsize_shift h = 3 \<and>
     3 \<le> xh_size_shift h \<and> (xh_size_shift h = 3 \<or> 2 ^ xh_size_shift h \<le> 4 * (unat (xh_used h) + 1))"

definition data_of :: "xhash \<Rightarrow> u64 \<Rightarrow> u64 option" where
  "data_of h key = xh_map no_strings h (Inl key)"

lemma data_okD:
  assumes "data_ok h"
  shows "xh_inv no_strings h" and "xh_wf h" and "xh_size_shift h < 63" and "unat (xh_used h) < 2 ^ xh_size_shift h"
    and "key_of no_strings (xh_type h) key = Inl key"
  using assms by (simp_all add: data_ok_def xh_inv_def xh_wf_def xhash_size_def key_of_def)

lemma shift_bound:
  assumes "k < 63"
  shows "(2 :: nat) ^ k < 2 ^ 63"
  using assms by (intro power_strict_increasing) simp_all

lemma load_word:
  fixes u :: u64
  assumes "unat u < 2 ^ k" and "k < 63"
  shows "j < 64 \<Longrightarrow> 2 ^ j \<le> u div 2 + u \<longleftrightarrow> 2 ^ j \<le> unat u div 2 + unat u"
    and "4 * u < 2 ^ k \<longleftrightarrow> 4 * unat u < 2 ^ k"
proof -
  note p = shift_bound [OF assms(2)]
  have "unat (u div 2 + u) = unat u div 2 + unat u"
    using assms(1) p by (subst unat_word_ariths(1)) (simp add: unat_div)
  then show "2 ^ j \<le> u div 2 + u \<longleftrightarrow> 2 ^ j \<le> unat u div 2 + unat u" if "j < 64"
    using that by (simp add: word_le_nat_alt unat_pow2)
  have "(2 :: nat) ^ k \<le> 2 ^ 62" using assms(2) by (intro power_increasing) simp_all
  then have "unat (4 * u) = 4 * unat u" using assms(1) by (subst unat_word_ariths(2)) simp
  then show "4 * u < 2 ^ k \<longleftrightarrow> 4 * unat u < 2 ^ k" using assms(2) by (simp add: word_less_nat_alt unat_pow2)
qed

lemma double_arith:
  fixes p u :: nat
  assumes "p \<le> u div 2 + u"
  shows "2 * p \<le> 4 * (u + 1)"
proof -
  define d where "d = u div 2"
  have "d \<le> u" "p \<le> d + u" using assms by (simp_all add: d_def)
  then show ?thesis by simp
qed

lemma insert_data:
  assumes ok: "data_ok h" and ab: "data_of h key = None" and v: "proper v" and g: "\<not> grow_check h"
  shows "\<exists>h'. xhash_insert no_strings h key v = Some (0, h') \<and> data_ok h' \<and> data_of h' = (data_of h)(key \<mapsto> v) \<and>
    xh_size_shift h' = xh_size_shift h"
proof -
  note d = data_okD [OF ok]
  have "2 \<le> xh_size_shift h" using ok by (simp add: data_ok_def)
  note room = grow_check_room [OF d(2) g this]
  from ab have m: "xh_map no_strings h (key_of no_strings (xh_type h) key) = None" by (simp add: data_of_def d(5))
  obtain t where t: "raw_xhash_insert no_strings h key v = Some t" "xh_inv no_strings t"
    "xh_map no_strings t = (xh_map no_strings h)(Inl key \<mapsto> v)" "unat (xh_used t) = unat (xh_used h) + 1"
    "xh_type t = xh_type h" "xh_size_shift t = xh_size_shift h" "xh_limit t = xh_limit h" "xh_minsize_shift t = xh_minsize_shift h"
    using insert_absent [OF d(1) m v room disjI1 [OF refl]] d(5) by auto
  have "data_ok t" using ok t(2,4-8) by (auto simp: data_ok_def)
  moreover have "data_of t = (data_of h)(key \<mapsto> v)" by (simp add: fun_eq_iff data_of_def t(3))
  ultimately show ?thesis using t(1,6) ok g by (simp add: xhash_insert_def data_ok_def)
qed

text \<open>The memory of a new table of any size is there.\<close>

definition mem_ok :: "(nat \<Rightarrow> u64 list option) \<Rightarrow> bool" where
  "mem_ok mem \<longleftrightarrow> (\<forall>k. \<exists>m. mem k = Some m \<and> length m = 2 * 2 ^ k)"

lemma resize_data:
  assumes ok: "data_ok h" and m: "mem_ok mem" and k: "3 \<le> k" "k < 63" "unat (xh_used h) < 2 ^ k"
    and lean: "k = 3 \<or> 2 ^ k \<le> 4 * (unat (xh_used h) + 1)"
  shows "\<exists>t. xhash_resize no_strings h k 0 (mem k) = Some (Some t) \<and> data_ok t \<and> data_of t = data_of h \<and>
    xh_used t = xh_used h \<and> xh_dummies t = 0 \<and> xh_size_shift t = k"
proof -
  obtain b where b: "mem k = Some b" "length b = 2 * 2 ^ k" using m by (auto simp: mem_ok_def)
  from resize_result [OF data_okD(1) [OF ok] k(3,2) b(2), of 0] obtain t where
    "xhash_resize no_strings h k 0 (Some b) = Some (Some t)" "xh_inv no_strings t" "xh_map no_strings t = xh_map no_strings h"
    "xh_used t = xh_used h" "xh_dummies t = 0" "xh_size_shift t = k" "xh_limit t = 0" "xh_type t = xh_type h"
    "xh_minsize_shift t = xh_minsize_shift h" by blast
  with ok k(1) lean b(1) show ?thesis by (auto simp: data_ok_def data_of_def fun_eq_iff)
qed

lemma set_data_ok:
  assumes ok: "data_ok h" and m: "mem_ok mem" and ab: "data_of h key = None" and v: "proper v"
    and small: "xh_size_shift h < 62"
  shows "\<exists>h'. set_data mem key v h = Some (0, h') \<and> data_ok h' \<and> data_of h' = (data_of h)(key \<mapsto> v) \<and>
    xh_size_shift h' \<le> Suc (xh_size_shift h)"
proof (cases "grow_check h")
  case False
  from insert_data [OF ok ab v False] show ?thesis by (auto simp: set_data_def xhash_errors)
next
  case True
  let ?k = "xh_size_shift h" and ?u = "unat (xh_used h)"
  define k where "k = xhash_grow_size_shift h"
  note d = data_okD [OF ok]
  have w: "2 ^ ?k \<le> xh_used h div 2 + xh_used h \<longleftrightarrow> 2 ^ ?k \<le> ?u div 2 + ?u"
    using load_word(1) [OF d(4,3), of ?k] d(3) by simp
  have k: "k = (if 2 ^ ?k \<le> ?u div 2 + ?u then ?k + 1 else ?k)"
    by (simp add: k_def xhash_grow_size_shift_def Let_def w)
  have full: "2 ^ ?k \<le> ?u div 2 + ?u \<Longrightarrow> 2 * 2 ^ ?k \<le> 4 * (?u + 1)" by (rule double_arith)
  have kb: "3 \<le> k" "k < 63" "?u < 2 ^ k" "k = 3 \<or> 2 ^ k \<le> 4 * (?u + 1)" "?u div 2 + ?u < 2 ^ k"
    using ok small d(4) full by (auto simp: k data_ok_def)
  obtain t where t: "xhash_resize no_strings h k 0 (mem k) = Some (Some t)" "data_ok t" "data_of t = data_of h"
    "xh_used t = xh_used h" "xh_dummies t = 0" "xh_size_shift t = k"
    using resize_data [OF ok m kb(1-4)] by blast
  have "\<not> grow_check t"
    using load_word(1) [OF kb(3,2), of k] kb(2,5) by (simp add: grow_check_def t(4-6) Let_def)
  from insert_data [OF t(2) _ v this, of key] ab t(3,6) obtain h' where
    "xhash_insert no_strings t key v = Some (0, h')" "data_ok h'" "data_of h' = (data_of h)(key \<mapsto> v)"
    "xh_size_shift h' = k" by auto
  moreover have "k \<le> Suc ?k" by (simp add: k)
  ultimately show ?thesis
    using True ok t(1) by (simp add: set_data_def xhash_insert_def data_ok_def xhash_errors flip: k_def)
qed

lemma delete_data:
  assumes ok: "data_ok h" and some: "data_of h key = Some w" and s: "\<not> shrink_check h"
  shows "\<exists>h'. xhash_delete no_strings h key = Some (0, h') \<and> data_ok h' \<and> data_of h' = (data_of h)(key := None) \<and>
    xh_size_shift h' = xh_size_shift h"
proof -
  let ?k = "xh_size_shift h" and ?u = "unat (xh_used h)"
  note d = data_okD [OF ok]
  have big: "?k = 3 \<or> 2 ^ ?k \<le> 4 * ?u"
    using s load_word(2) [OF d(4,3)] ok by (auto simp: shrink_check_def data_ok_def Let_def)
  from some have m: "xh_map no_strings h (key_of no_strings (xh_type h) key) = Some w" by (simp add: data_of_def d(5))
  obtain t where t: "raw_xhash_delete no_strings h key True = Some (0, t)" "xh_inv no_strings t"
    "xh_map no_strings t = (xh_map no_strings h)(Inl key := None)" "unat (xh_used t) + 1 = ?u"
    "xh_type t = xh_type h" "xh_size_shift t = ?k" "xh_limit t = xh_limit h" "xh_minsize_shift t = xh_minsize_shift h"
    using delete_result(2) [OF d(1) m] d(5) by auto
  have "data_ok t" using ok t(2,4-8) big by (auto simp: data_ok_def)
  moreover have "data_of t = (data_of h)(key := None)" by (simp add: fun_eq_iff data_of_def t(3))
  ultimately show ?thesis using t(1,6) s by (simp add: xhash_delete_def)
qed

lemma take_data_absent:
  assumes ok: "data_ok h" and ab: "data_of h key = None"
  shows "take_data mem key h = Some ((- XHASH_EEXIST, None), h)"
  using lookup_result [OF data_okD(1) [OF ok], of key] data_okD(5) [OF ok, of key] ab
  by (simp add: take_data_def data_of_def xhash_errors)

lemma take_data_ok:
  assumes ok: "data_ok h" and m: "mem_ok mem" and some: "data_of h key = Some w"
  shows "\<exists>h'. take_data mem key h = Some ((0, Some w), h') \<and> data_ok h' \<and> data_of h' = (data_of h)(key := None) \<and>
    xh_size_shift h' \<le> xh_size_shift h"
proof -
  note d = data_okD [OF ok]
  have l: "xhash_lookup no_strings h key = Some (0, Some w)"
    using lookup_result [OF d(1), of key] d(5) [of key] some by (simp add: data_of_def)
  show ?thesis
  proof (cases "shrink_check h")
    case False
    from delete_data [OF ok some False] l show ?thesis by (auto simp: take_data_def xhash_errors)
  next
    case True
    let ?k = "xh_size_shift h" and ?u = "unat (xh_used h)"
    from True have t: "4 * ?u < 2 ^ ?k" "3 < ?k"
      using load_word(2) [OF d(4,3)] ok by (simp_all add: shrink_check_def data_ok_def Let_def)
    then obtain j where j: "?k = Suc j" "3 \<le> j" by (cases ?k) auto
    have big: "2 ^ ?k \<le> 4 * (?u + 1)" using ok t(2) by (simp add: data_ok_def)
    have pw: "(2 :: nat) ^ 3 \<le> 2 ^ j" using j(2) by (intro power_increasing) simp_all
    then have jb: "2 ^ j \<le> 4 * ?u" "?u < 2 ^ j" using big t(1) by (simp_all add: j(1))
    have kj: "xhash_shrink_size_shift h = j"
      using ok j by (simp add: xhash_shrink_size_shift_def data_ok_def Let_def)
    obtain x where x: "xhash_resize no_strings h j 0 (mem j) = Some (Some x)" "data_ok x" "data_of x = data_of h"
      "xh_used x = xh_used h" "xh_size_shift x = j"
      using resize_data [OF ok m j(2) _ jb(2)] d(3) jb(1) by (auto simp: j(1))
    have "\<not> shrink_check x"
      using load_word(2) [OF jb(2)] jb(1) d(3) by (simp add: shrink_check_def x(4,5) Let_def j(1))
    from delete_data [OF x(2) _ this, of key w] some x(3,5) obtain h' where
      "xhash_delete no_strings x key = Some (0, h')" "data_ok h'" "data_of h' = (data_of h)(key := None)"
      "xh_size_shift h' = j" by auto
    then show ?thesis
      using l True x(1) by (simp add: take_data_def xhash_delete_def kj xhash_errors j(1))
  qed
qed

section \<open>The operations\<close>

text \<open>What a process knows about a request, read from its segment.\<close>

definition req_data_of :: "xseg \<Rightarrow> nat \<Rightarrow> u64 option" where
  "req_data_of s xreq = data_of (sg_req_data s) (of_nat (sg_segment s + xreq))"


lemma demo_data_ok: "data_ok (demo_hash XHASH_INTEGER 3)" "data_of (demo_hash XHASH_INTEGER 3) = Map.empty"
  using demo_hash_ok [of 3 no_strings XHASH_INTEGER]
  by (simp_all add: data_ok_def data_of_def fun_eq_iff)
    (simp_all add: demo_hash_def xhash_init_def raw_xhash_init_def Let_def)


end
