(* ===== verification/Xbind.thy ===== *)
theory Xbind
  imports Xpeer
begin

text \<open>
  Binding of ports: a port that is bound is in the table of the segment under its number and
  belongs to the caller; and what is left behind when binding a dynamic port fails early.
\<close>

section \<open>What does not touch the table of ports\<close>

definition same_table :: "xseg \<Rightarrow> xseg \<Rightarrow> bool" where
  "same_table s s' \<longleftrightarrow> sg_config s' = sg_config s \<and> sg_ports s' = sg_ports s"

text \<open>The operations of a driver that the binding calls leave the table of ports alone.\<close>

definition ops_ok :: "drivers \<Rightarrow> bool" where
  "ops_ok drv \<longleftrightarrow> (\<forall>d s.
     (\<forall>r s'. po_alloc_data (drv d) s = Some (r, s') \<longrightarrow> same_table s s') \<and>
     (\<forall>a r s'. po_alloc_signal_desc (drv d) a s = Some (r, s') \<longrightarrow> same_table s s') \<and>
     (\<forall>a r s'. po_init_signal_desc (drv d) a s = Some (r, s') \<longrightarrow> same_table s s') \<and>
     (\<forall>a b s'. po_free_signal_desc (drv d) a b s = Some s' \<longrightarrow> same_table s s'))"

lemma ops_okD:
  assumes "ops_ok drv"
  shows "po_alloc_data (drv d) s = Some (r, s') \<Longrightarrow> same_table s s'"
    and "po_alloc_signal_desc (drv d) a s = Some (r, s') \<Longrightarrow> same_table s s'"
    and "po_init_signal_desc (drv d) a s = Some (i, s') \<Longrightarrow> same_table s s'"
    and "po_free_signal_desc (drv d) a b s = Some s' \<Longrightarrow> same_table s s'"
  using assms unfolding ops_ok_def by blast+

lemma same_table_refl [simp]: "same_table s s"
  by (simp add: same_table_def)

lemma same_table_trans: "same_table s s1 \<Longrightarrow> same_table s1 s2 \<Longrightarrow> same_table s s2"
  by (simp add: same_table_def)

lemma same_table_upd [simp]:
  "same_table s (upd_port p f s') = same_table s s'" "same_table s (set_queue q x s') = same_table s s'"
  "same_table (upd_port p f s) s' = same_table s s'" "same_table (set_queue q x s) s' = same_table s s'"
  by (simp_all add: same_table_def)

lemma alloc_port_parts:
  "seg_alloc cl b s = Some (p, s') \<Longrightarrow> same_table s s'" "seg_free cl a s = Some s' \<Longrightarrow> same_table s s'"
  "get_port_obj junk cl flags s = Some (p, s') \<Longrightarrow> same_table s s'" "put_port_obj cl a s = Some s' \<Longrightarrow> same_table s s'"
  by (auto simp: seg_alloc_def seg_free_def get_port_obj_def put_port_obj_def same_table_def Let_def
      split: option.splits bind_splits prod.splits)

lemma alloc_queue_table: "alloc_queue junk cl n s = Some (q, s') \<Longrightarrow> same_table s s'"
  by (auto simp: alloc_queue_def Let_def dest!: alloc_port_parts split: bind_splits if_splits)

lemma alloc_port_table: "xseg_alloc_port junk cl flags n s = Some (p, s') \<Longrightarrow> same_table s s'"
  unfolding xseg_alloc_port_def Let_def
  by (auto simp: same_table_def dest!: alloc_port_parts [unfolded same_table_def] alloc_queue_table [unfolded same_table_def]
      split: bind_splits if_splits)

lemma enable_driver_table:
  assumes "ops_ok drv" and "raw_enable_driver nm drv d s = Some (r, s')"
  shows "same_table s s'"
  using assms(2) ops_okD(1) [OF assms(1)]
  by (fastforce simp: raw_enable_driver_def get_peer_type_data_def note_driver_def same_table_def Let_def
      split: if_splits driver_slot.splits bind_splits)

lemma new_signal_desc_table:
  assumes "ops_ok drv" and "new_signal_desc drv d s = Some (sd, s')"
  shows "same_table s s'"
proof -
  have g: "same_table s (snd (get_peer_type_data x s))" for x
    by (simp add: get_peer_type_data_def same_table_def Let_def)
  show ?thesis
    using assms(2) g [of "of_int d"] unfolding new_signal_desc_def Let_def
    by (auto dest!: ops_okD [OF assms(1)] elim!: same_table_trans split: if_splits bind_splits prod.splits)
qed

section \<open>Bound ports\<close>

definition owned :: "xseg \<Rightarrow> u32 \<Rightarrow> xport \<Rightarrow> nat \<Rightarrow> bool" where
  "owned s me n p \<longleftrightarrow> (let pt = sg_port_at s p in pt_owner pt = ucast me \<and> pt_portno pt = n \<and>
     pt_flags pt = CAN_ACCEPT OR CAN_RECEIVE \<and> pt_signal_desc pt \<noteq> 0)"

text \<open>The result of binding \<open>p\<close> to the number \<open>n\<close>.\<close>

definition bound_to :: "xseg \<Rightarrow> u32 \<Rightarrow> xport \<Rightarrow> nat \<Rightarrow> xseg \<Rightarrow> bool" where
  "bound_to s me n p s' \<longleftrightarrow> owned s' me n p \<and> sg_config s' = sg_config s \<and> sg_ports s' = (sg_ports s)[unat n := p]"

lemma bind_this_bound:
  assumes ops: "ops_ok drv" and b: "bind_this nm drv cl me sd n port s = Some (p, s')" and p: "p \<noteq> 0"
  shows "p = port \<and> bound_to s me n p s'"
proof -
  from b obtain driver s1 where e: "raw_enable_driver nm drv (pv_peer_type s) s = Some (driver, s1)"
    by (auto simp: bind_this_def split: bind_splits)
  have d: "\<not> driver < 0" using b p e by (auto simp: bind_this_def unbind_port_def split: bind_splits if_splits)
  from b e d obtain sd' s2 where sd: "(if sd = 0 then new_signal_desc drv driver s1 else Some (sd, s1)) = Some (sd', s2)"
    by (auto simp: bind_this_def split: bind_splits if_splits)
  have sd': "sd' \<noteq> 0" using b p e d sd by (auto simp: bind_this_def unbind_port_def split: bind_splits if_splits)
  have "p = port" "s' = set_port n port (own_port port driver me n (upd_port port (\<lambda>p. p\<lparr>pt_signal_desc := sd'\<rparr>) s2))"
    using b e d sd sd' by (simp_all add: bind_this_def split: if_splits)
  moreover have "same_table s s2"
    using enable_driver_table [OF ops e] new_signal_desc_table [OF ops, of driver s1] sd same_table_trans
    by (auto split: if_splits)
  ultimately show ?thesis
    using sd' by (simp add: bound_to_def owned_def own_port_def set_port_def upd_port_def same_table_def)
qed

lemma bind_loop_bound:
  assumes "ops_ok drv" and "bind_loop junk nm drv cl me sd force n k s = Some (p, s')" and "p \<noteq> 0"
    and "unat k + n < 2 ^ 32"
  shows "\<exists>m. unat k \<le> unat m \<and> unat m < unat k + n \<and> bound_to s me m p s' \<and> (\<not> force \<longrightarrow> sg_ports s ! unat m = 0)"
  using assms
proof (induction n arbitrary: k)
  case (Suc n)
  show ?case
  proof (cases "sg_ports s ! unat k = 0")
    case True
    then obtain q s1 where q: "xseg_alloc_port junk cl X_ALLOC XSEG_DEF_REQS s = Some (q, s1)" "q \<noteq> 0"
      "bind_this nm drv cl me sd k q s1 = Some (p, s')"
      using Suc.prems(2,3) by (auto split: bind_splits if_splits)
    from bind_this_bound [OF Suc.prems(1) q(3) Suc.prems(3)] alloc_port_table [OF q(1)]
    have "bound_to s me k p s'" by (auto simp: bound_to_def same_table_def)
    with True show ?thesis by auto
  next
    case False
    show ?thesis
    proof (cases force)
      case True
      then have "bind_this nm drv cl me sd k (xseg_get_port s k) s = Some (p, s')"
        using Suc.prems(2,3) False by (auto simp: Let_def split: if_splits)
      from bind_this_bound [OF Suc.prems(1) this Suc.prems(3)] True show ?thesis by auto
    next
      case nf: False
      have k: "unat (k + 1) = unat k + 1" using Suc.prems(4) by (subst unat_word_ariths(1)) simp
      have "bind_loop junk nm drv cl me sd force n (k + 1) s = Some (p, s')" using Suc.prems(2) False nf by simp
      from Suc.IH [OF Suc.prems(1) this Suc.prems(3)] Suc.prems(4) obtain m where
        "unat (k + 1) \<le> unat m" "unat m < unat (k + 1) + n" "bound_to s me m p s'" "\<not> force \<longrightarrow> sg_ports s ! unat m = 0"
        unfolding k by auto
      then show ?thesis unfolding k by (intro exI [of _ m]) auto
    qed
  qed
qed simp

text \<open>
  C19. When binding a port succeeds, the returned port is the one the segment has under some
  number below the number of static ports; it is owned by the caller, knows its number,
  accepts and receives, has a signal descriptor, and the segment lock is free again. If the caller asked for
  a number, it is that number; otherwise it is one that was not in use. Every other number
  keeps its port.
\<close>

theorem bind_port_owned:
  assumes ops: "ops_ok drv" and len: "length (sg_ports s) = unat (cf_nr_ports (sg_config s))"
    and b: "xseg_bind_port junk nm drv cl me req sd s = Some (p, s')" and p: "p \<noteq> 0"
  shows "\<exists>n < cf_dynports (sg_config s). xseg_get_port s' n = p \<and> owned s' me n p \<and> unlocked (sg_segment_lock s') \<and>
    (if req < cf_dynports (sg_config s) then n = req else sg_ports s ! unat n = 0) \<and>
    (\<forall>m. m \<noteq> n \<longrightarrow> xseg_get_port s' m = xseg_get_port s m)"
proof -
  define c where "c = sg_config s"
  define loop where "loop = (\<lambda>s. if req \<ge> cf_dynports c then bind_loop junk nm drv cl me sd False (unat (cf_dynports c)) 0 s
                     else bind_loop junk nm drv cl me sd True 1 req s)"
  have e: "xseg_bind_port junk nm drv cl me req sd s = (if cf_dynports c \<ge> cf_nr_ports c then Some (0, s)
      else do { s \<leftarrow> lock_segment cl s; (port, s) \<leftarrow> loop s; Some (port, unlock_segment s) })"
    by (simp only: xseg_bind_port_def c_def loop_def Let_def)
  have lt: "cf_dynports c < cf_nr_ports c" using b p by (auto simp: e split: if_splits)
  with b obtain l s1 where s1: "loop (s\<lparr>sg_segment_lock := l\<rparr>) = Some (p, s1)" "s' = unlock_segment s1"
    by (auto simp: e lock_segment_def split: bind_splits if_splits)
  define s0 where "s0 = s\<lparr>sg_segment_lock := l\<rparr>"
  have "unat (cf_dynports c) < 2 ^ LENGTH(32)" by (rule unsigned_less)
  then have dyn: "unat (cf_dynports c) < 2 ^ 32" by simp
  have "\<exists>n < cf_dynports c. bound_to s0 me n p s1 \<and> (if req < cf_dynports c then n = req else sg_ports s0 ! unat n = 0)"
  proof (cases "req < cf_dynports c")
    case True
    then have "\<not> req \<ge> cf_dynports c" by (simp add: not_le)
    then have "bind_loop junk nm drv cl me sd True 1 req s0 = Some (p, s1)"
      using s1(1) by (simp add: loop_def s0_def del: bind_loop.simps One_nat_def)
    moreover have "unat req + 1 < 2 ^ 32" using True dyn by (simp add: word_less_nat_alt)
    ultimately have "bind_loop junk nm drv cl me sd True 1 req s0 = Some (p, s1)" "unat req + 1 < 2 ^ 32" by blast+
    from bind_loop_bound [OF ops this(1) p this(2)] obtain m where
      "unat req \<le> unat m" "unat m < unat req + 1" "bound_to s0 me m p s1" by blast
    moreover from this have "m = req" by (simp add: word_unat_eq_iff)
    ultimately show ?thesis using True by auto
  next
    case False
    then have "bind_loop junk nm drv cl me sd False (unat (cf_dynports c)) 0 s0 = Some (p, s1)"
      using s1(1) by (simp add: loop_def s0_def not_less del: bind_loop.simps)
    from bind_loop_bound [OF ops this p] dyn False show ?thesis by (auto simp: word_less_nat_alt)
  qed
  then obtain n where n: "n < cf_dynports c" "bound_to s0 me n p s1"
    "if req < cf_dynports c then n = req else sg_ports s0 ! unat n = 0" by blast
  have f: "sg_config s' = c" "sg_ports s' = (sg_ports s)[unat n := p]" "owned s' me n p" "unlocked (sg_segment_lock s')"
    using n(2) by (simp_all add: s1(2) unlock_segment_def bound_to_def s0_def c_def owned_def Let_def)
  have nl: "unat n < length (sg_ports s)" using n(1) lt len by (simp add: c_def word_less_nat_alt)
  have "xseg_get_port s' n = p" using less_trans [OF n(1) lt] nl by (simp add: xseg_get_port_def validate_port_def f)
  moreover have "xseg_get_port s' m = xseg_get_port s m" if "m \<noteq> n" for m
    using that by (simp add: xseg_get_port_def validate_port_def f c_def word_unat_eq_iff)
  ultimately show ?thesis using n(1,3) f(3,4) by (auto simp: c_def s0_def)
qed

section \<open>A dynamic bind that fails\<close>

lemma acquired_held:
  assumes "take_bit 16 (c_pid cl) \<noteq> 0" and "xlock_acquire cl l = Some l'"
  shows "\<not> unlocked l'"
  using assms pack_nonzero by (auto simp: xlock_acquire_def caller_word_def split: if_splits)

text \<open>
  When the driver cannot be enabled, binding a dynamic port returns no port and leaves
  the segment lock held: from then on every bind of a port, static or dynamic, and
  every release of a dynamic port blocks, for every caller. It happens as soon as the
  table of drivers is full, even if the driver of the caller is in it.
\<close>

theorem bind_dynport_keeps_lock:
  assumes l: "unlocked (sg_segment_lock s)" and full: "sg_max_peer_types s \<le> sg_nr_peer_types s"
    and cl: "take_bit 16 (c_pid cl) \<noteq> 0"
  shows "\<exists>s'. xseg_bind_dynport junk nm drv cl me s = Some (0, s') \<and>
    (\<forall>cl' me'. xseg_bind_dynport junk nm drv cl' me' s' = None) \<and>
    (\<forall>cl' port. port \<noteq> 0 \<longrightarrow> xseg_leave_dynport cl' port s' = None) \<and>
    (\<forall>cl' me' req sd. cf_dynports (sg_config s) < cf_nr_ports (sg_config s) \<longrightarrow>
       xseg_bind_port junk nm drv cl' me' req sd s' = None)"
proof -
  obtain l' where l': "xlock_acquire cl (sg_segment_lock s) = Some l'" using l by simp
  define s' where "s' = s\<lparr>sg_segment_lock := l'\<rparr>"
  have r: "\<exists>r<0. raw_enable_driver nm drv d s' = Some (r, s')" for d
    using full by (auto simp: raw_enable_driver_def s'_def)
  have "xseg_bind_dynport junk nm drv cl me s = Some (0, s')"
    using l' r [of "pv_peer_type s'"] by (auto simp: xseg_bind_dynport_def lock_segment_def s'_def)
  moreover have "lock_segment cl' s' = None" for cl'
    using acquired_held [OF cl l'] by (simp add: lock_segment_def s'_def)
  moreover have "sg_config s' = sg_config s" by (simp add: s'_def)
  ultimately show ?thesis
    by (intro exI [of _ s']) (simp add: xseg_bind_dynport_def xseg_leave_dynport_def xseg_bind_port_def Let_def not_le)
qed

section \<open>Examples\<close>

text \<open>A driver that does nothing but say that all went well.\<close>

definition demo_ops :: peer_ops where
  "demo_ops = \<lparr>po_init_signal_desc = \<lambda>_ s. Some (0, s), po_alloc_data = \<lambda>s. Some (9100, s),
     po_alloc_signal_desc = \<lambda>_ s. Some (4000, s), po_free_signal_desc = \<lambda>_ _ s. Some s,
     po_local_signal_init = \<lambda>_ s. Some (0, s), po_local_signal_quit = \<lambda>_ s. Some s,
     po_prepare_wait = \<lambda>_ s. Some (0, s), po_cancel_wait = \<lambda>_ s. Some (0, s),
     po_wait_signal = \<lambda>_ _ s. Some (0, s), po_signal = \<lambda>_ s. Some (0, s)\<rparr>"

theorem bind_dynport_keeps_lock_witness:
  "\<exists>s'. xseg_bind_dynport (\<lambda>_. []) (\<lambda>_. ''posix'') (\<lambda>_. demo_ops) (demo_caller 1) 9 (demo_seg\<lparr>sg_nr_peer_types := 2\<rparr>) = Some (0, s') \<and>
     xseg_leave_dynport (demo_caller 2) 3000 s' = None"
proof -
  have "unlocked (sg_segment_lock (demo_seg\<lparr>sg_nr_peer_types := 2\<rparr>))"
    "sg_max_peer_types (demo_seg\<lparr>sg_nr_peer_types := 2\<rparr>) \<le> sg_nr_peer_types (demo_seg\<lparr>sg_nr_peer_types := 2\<rparr>)"
    "take_bit 16 (c_pid (demo_caller 1)) \<noteq> 0"
    by (simp_all add: demo_seg_def demo_caller_def)
  from bind_dynport_keeps_lock [OF this, of "\<lambda>_. []" "\<lambda>_. ''posix''" "\<lambda>_. demo_ops" 9] show ?thesis by auto
qed

end
