(* ===== verification/Xlife.thy ===== *)
theory Xlife
  imports Xpeer
begin

text \<open>
  Creating, joining, leaving and destroying a segment. The operations of a segment type are
  parameters on a state \<open>'w\<close> of the outside world: mapping a segment gives its contents,
  unmapping stores them. \<open>ver\<close> is the version number of the build.
\<close>

section \<open>Initialising a segment\<close>

definition XSEG_MIN_PAGE_SIZE :: u32 where "XSEG_MIN_PAGE_SIZE = 4096"
definition XSEG_MAGIC :: nat where "XSEG_MAGIC = 0xcafe0000"
definition MAGIC_OBJH :: nat where "MAGIC_OBJH = XSEG_MAGIC + 1"
definition MAGIC_REQ :: nat where "MAGIC_REQ = XSEG_MAGIC + 2"
definition MAGIC_PORT :: nat where "MAGIC_PORT = XSEG_MAGIC + 3"

text \<open>The sizes of the C structures.\<close>

definition XHEAP_SIZE :: nat where "XHEAP_SIZE = 48"
definition OBJH_SIZE :: nat where "OBJH_SIZE = 96"
definition REQUEST_SIZE :: nat where "REQUEST_SIZE = 456"
definition PORT_SIZE :: nat where "PORT_SIZE = 144"
definition SHARED_SIZE :: nat where "SHARED_SIZE = 48"

text \<open>
  An allocation whose failure ends the initialisation, and a handler made in an object of
  the handler of handlers.
\<close>

definition need :: "caller \<Rightarrow> nat \<Rightarrow> (nat \<Rightarrow> xseg \<Rightarrow> (int \<times> xseg) option) \<Rightarrow> xseg \<Rightarrow> (int \<times> xseg) option" where
  "need cl bytes f s = do { (p, s) \<leftarrow> seg_alloc cl bytes s; if p = 0 then Some (-1, s) else f p s }"

definition need_objh ::
  "(nat \<Rightarrow> u64 list) \<Rightarrow> caller \<Rightarrow> nat \<Rightarrow> nat \<Rightarrow> (nat \<Rightarrow> xobject_h \<Rightarrow> xseg \<Rightarrow> (int \<times> xseg) option) \<Rightarrow> xseg \<Rightarrow>
     (int \<times> xseg) option" where
  "need_objh junk cl magic sz f s =
     do {
       (p, s) \<leftarrow> get_objh junk cl s;
       if p = 0 then Some (-1, s)
       else do {
         (r, h, s) \<leftarrow> init_objh junk cl magic sz (sg_objh_at s p) s;
         if r < 0 then Some (-1, s) else f p h s }
     }"

text \<open>
  The allocations in the order of the code. \<open>names\<close> is what the memory of the table of
  peer type names holds: it is not cleared.
\<close>

definition init_shared :: "(nat \<Rightarrow> string list) \<Rightarrow> caller \<Rightarrow> u32 \<Rightarrow> xseg_config \<Rightarrow> xseg \<Rightarrow> (int \<times> xseg) option" where
  "init_shared names cl page_size cfg =
     need cl SHARED_SIZE (\<lambda>p s.
       need cl (unat page_size) (\<lambda>q s.
         let n = unat (of_nat (chunk_size s q div XSEG_TNAMESIZE) :: u32);
             s = s\<lparr>sg_ptrs := (sg_ptrs s)\<lparr>sp_peer_types := q\<rparr>, sg_peer_types := names n, sg_max_peer_types := n\<rparr>
         in need cl (n * 8) (\<lambda>r s.
           Some (0, s\<lparr>sg_ptrs := (sg_ptrs s)\<lparr>sp_peer_type_data := r\<rparr>, sg_peer_type_data := replicate n 0,
                      sg_config := cfg, sg_counters := \<lparr>ct_avg_req_lat = 0, ct_req_cnt = 0\<rparr>\<rparr>)) s)
       (s\<lparr>sg_ptrs := (sg_ptrs s)\<lparr>sp_shared := p\<rparr>, sg_shared_flags := 0, sg_nr_peer_types := 0,
          sg_segment_lock := xlock_release (sg_segment_lock s)\<rparr>))"

definition init_tables :: "(nat \<Rightarrow> string list) \<Rightarrow> caller \<Rightarrow> u32 \<Rightarrow> xseg_config \<Rightarrow> xseg \<Rightarrow> (int \<times> xseg) option" where
  "init_tables names cl page_size cfg =
     (let n = unat (cf_nr_ports cfg) in
      need cl (8 * n) (\<lambda>p s.
        need cl (4 * n) (\<lambda>q s.
          need cl (4 * n) (\<lambda>r s.
            init_shared names cl page_size cfg
              (s\<lparr>sg_ptrs := (sg_ptrs s)\<lparr>sp_dst_gw := r\<rparr>, sg_dst_gw := replicate n NoPort\<rparr>))
          (s\<lparr>sg_ptrs := (sg_ptrs s)\<lparr>sp_path_next := q\<rparr>, sg_path_next := replicate n NoPort\<rparr>))
        (s\<lparr>sg_ptrs := (sg_ptrs s)\<lparr>sp_ports := p\<rparr>, sg_ports := replicate n 0\<rparr>)))"

definition init_handlers ::
  "(nat \<Rightarrow> u64 list) \<Rightarrow> caller \<Rightarrow> (xseg \<Rightarrow> (int \<times> xseg) option) \<Rightarrow> xseg \<Rightarrow> (int \<times> xseg) option" where
  "init_handlers junk cl f =
     need cl OBJH_SIZE (\<lambda>p s.
       let s = s\<lparr>sg_ptrs := (sg_ptrs s)\<lparr>sp_object_handlers := p\<rparr>\<rparr> in
       do {
         (r, h, s) \<leftarrow> init_objh junk cl MAGIC_OBJH OBJH_SIZE (sg_object_handlers s) s;
         if r < 0 then Some (-1, s)
         else need_objh junk cl MAGIC_REQ REQUEST_SIZE (\<lambda>p h s.
           need_objh junk cl MAGIC_PORT PORT_SIZE (\<lambda>q h s.
             f (s\<lparr>sg_ptrs := (sg_ptrs s)\<lparr>sp_port_h := q\<rparr>, sg_port_h := h\<rparr>))
           (s\<lparr>sg_ptrs := (sg_ptrs s)\<lparr>sp_request_h := p\<rparr>, sg_request_h := h\<rparr>))
         (s\<lparr>sg_object_handlers := h\<rparr>)
       })"

definition initialize_segment ::
  "u64 \<Rightarrow> (nat \<Rightarrow> u64 list) \<Rightarrow> (nat \<Rightarrow> string list) \<Rightarrow> caller \<Rightarrow> nat \<Rightarrow> xseg_config \<Rightarrow> xseg \<Rightarrow> (int \<times> xseg) option" where
  "initialize_segment ver junk names cl addr cfg s =
     (let page_shift = cf_page_shift cfg; page_size = shl_int (unat page_shift); sz = ucast page_size :: u64 in
      if page_size < XSEG_MIN_PAGE_SIZE then Some (-1, s)
      else
        let base = unat (align (sz + of_nat XHEAP_SIZE) (unat page_shift));
            (r, heap) = xheap_init (unat (cf_heap_size cfg)) (unat page_shift) (addr + base) (sg_heap s);
            s = s\<lparr>sg_version := ver, sg_segment_size := unat (ucast (2 * page_size) + cf_heap_size cfg),
                  sg_segment := addr, sg_ptrs := (sg_ptrs s)\<lparr>sp_heap := unat sz\<rparr>, sg_base := base, sg_heap := heap\<rparr>
        in if r < 0 then Some (-1, s)
           else init_handlers junk cl (init_tables names cl page_size cfg) s)"

section \<open>Creating and destroying\<close>

text \<open>
  The operations of a segment type. A mapping gives an address and the contents there; the
  contents go back at the unmapping.
\<close>

record 'w seg_ops =
  so_allocate :: "string \<Rightarrow> u64 \<Rightarrow> 'w \<Rightarrow> int \<times> 'w"
  so_deallocate :: "string \<Rightarrow> 'w \<Rightarrow> 'w"
  so_map :: "string \<Rightarrow> u64 \<Rightarrow> 'w \<Rightarrow> (nat \<times> xseg) option \<times> 'w"
  so_unmap :: "xseg \<Rightarrow> u64 \<Rightarrow> 'w \<Rightarrow> 'w"

text \<open>
  The state of a process: the number of joins and whether their mutex is held, the
  registered types, and the outside world.
\<close>

record 'w process =
  pr_join_ref :: int
  pr_join_mutex :: bool
  pr_domain :: domain
  pr_world :: 'w

definition find_segment_type ::
  "(nat \<Rightarrow> string) \<Rightarrow> (string \<Rightarrow> domain \<Rightarrow> domain) \<Rightarrow> string option \<Rightarrow> 'w process \<Rightarrow> nat \<times> 'w process" where
  "find_segment_type nm load_plugin name p =
     (let (ty, d) = find_or_load_type nm load_plugin name (pr_domain p) in (ty, p\<lparr>pr_domain := d\<rparr>))"

definition xseg_create ::
  "u64 \<Rightarrow> (nat \<Rightarrow> u64 list) \<Rightarrow> (nat \<Rightarrow> string list) \<Rightarrow> caller \<Rightarrow> (nat \<Rightarrow> string) \<Rightarrow> (string \<Rightarrow> domain \<Rightarrow> domain) \<Rightarrow>
     (nat \<Rightarrow> 'w seg_ops) \<Rightarrow> xseg_config \<Rightarrow> 'w process \<Rightarrow> (int \<times> 'w process) option" where
  "xseg_create ver junk names cl nm load_plugin ops cfg p =
     (if cf_dynports cfg \<ge> cf_nr_ports cfg then Some (-1, p)
      else
        let (ty, p) = find_segment_type nm load_plugin (Some (cf_type cfg)) p; sz = calculate_segment_size cfg in
        if ty = 0 then Some (-1, p)
        else if sz = 0 then Some (-1, p)
        else
          let xops = ops ty; cfg = cfg\<lparr>cf_name := take (XSEG_NAMESIZE - 1) (cf_name cfg)\<rparr>;
              (r, w) = so_allocate xops (cf_name cfg) sz (pr_world p) in
          if r \<noteq> 0 then Some (-1, p\<lparr>pr_world := w\<rparr>)
          else case so_map xops (cf_name cfg) sz w of
            (None, w) \<Rightarrow> Some (-1, p\<lparr>pr_world := so_deallocate xops (cf_name cfg) w\<rparr>)
          | (Some (addr, s), w) \<Rightarrow> do {
              (r, s) \<leftarrow> initialize_segment ver junk names cl addr cfg s;
              let w = so_unmap xops s sz w;
              if r \<noteq> 0 then Some (-1, p\<lparr>pr_world := so_deallocate xops (cf_name cfg) w\<rparr>)
              else Some (0, p\<lparr>pr_world := w\<rparr>) })"

definition xseg_destroy ::
  "(nat \<Rightarrow> string) \<Rightarrow> (string \<Rightarrow> domain \<Rightarrow> domain) \<Rightarrow> (nat \<Rightarrow> 'w seg_ops) \<Rightarrow> xseg \<Rightarrow> 'w process \<Rightarrow> 'w process" where
  "xseg_destroy nm load_plugin ops s p =
     (let (ty, p) = find_segment_type nm load_plugin (Some (cf_type (sg_config s))) p in
      if ty = 0 then p else p\<lparr>pr_world := so_deallocate (ops ty) (cf_name (sg_config s)) (pr_world p)\<rparr>)"

section \<open>Joining and leaving\<close>

text \<open>The result of \<^verbatim>\<open>pointer_ok\<close> is 1 for a pointer that is not.\<close>

definition pointer_ok :: "nat \<Rightarrow> nat \<Rightarrow> nat \<Rightarrow> nat" where
  "pointer_ok ptr base sz = (if ptr \<ge> base \<and> ptr < base + sz then 0 else 1)"

definition xseg_validate_pointers :: "xseg \<Rightarrow> nat" where
  "xseg_validate_pointers s =
     (let base = sg_segment s; ok = (\<lambda>f. pointer_ok (base + f (sg_ptrs s)) base (sg_segment_size s)) in
      ok sp_object_handlers + ok sp_request_h + ok sp_port_h + ok sp_ports + ok sp_heap + ok sp_shared)"

text \<open>
  What \<^verbatim>\<open>errno\<close> is after a failure: a constant, the value the failed call left, or the
  unset variable \<^verbatim>\<open>err_no\<close>.
\<close>

datatype join_error = EINVAL | EPROTO | EFAULT | ERRNO | UNSET

definition join_fail :: "join_error \<Rightarrow> 'w process \<Rightarrow> ((join_error + xseg) \<times> 'w process) option" where
  "join_fail e p = Some (Inl e, p\<lparr>pr_join_mutex := False\<rparr>)"

text \<open>The label \<^verbatim>\<open>err_unmap\<close>.\<close>

definition join_unmap ::
  "'w seg_ops \<Rightarrow> xseg \<Rightarrow> u64 \<Rightarrow> join_error \<Rightarrow> 'w process \<Rightarrow> ((join_error + xseg) \<times> 'w process) option" where
  "join_unmap xops s sz e p =
     (let p = p\<lparr>pr_join_ref := pr_join_ref p - 1\<rparr> in
      join_fail e (if pr_join_ref p = 0 then p\<lparr>pr_world := so_unmap xops s sz (pr_world p)\<rparr> else p))"

text \<open>
  The part of \<^verbatim>\<open>xseg_join\<close> after the segment is mapped. \<open>mok i\<close> tells whether the \<open>i\<close>-th
  \<^verbatim>\<open>malloc\<close> of the call succeeds, \<open>tab\<close> is the memory of the table of request data; \<open>self\<close> is
  the place of the private copy of the peer type. The result of the last \<^verbatim>\<open>malloc\<close> is not
  looked at but the one before again, and then cleared: a crash when it failed.
\<close>

definition join_mapped ::
  "(nat \<Rightarrow> bool) \<Rightarrow> u64 list option \<Rightarrow> nat \<Rightarrow> 'w seg_ops \<Rightarrow> u64 \<Rightarrow> nat \<Rightarrow> xseg \<Rightarrow> 'w process \<Rightarrow>
     ((join_error + xseg) \<times> 'w process) option" where
  "join_mapped mok tab self xops sz addr s p =
     (case xhash_new tab 3 0 XHASH_INTEGER of
        None \<Rightarrow> join_fail UNSET p
      | Some h \<Rightarrow>
          let n = sg_max_peer_types s;
              x = s\<lparr>sg_segment_size := unat sz, sg_segment := addr, pv_peer_type := self,
                    pv_peer_types := replicate n 0, pv_peer_type_data := replicate n 0, sg_req_data := h,
                    sg_reqdatalock := xlock_release (sg_reqdatalock s)\<rparr>
          in if \<not> mok 2 then join_unmap xops s sz ERRNO p
             else if \<not> mok 3 \<and> n > 0 then None
             else if xseg_validate_pointers x \<noteq> 0 then join_unmap xops s sz EFAULT p
             else Some (Inr x, p\<lparr>pr_join_mutex := False\<rparr>))"

definition xseg_join ::
  "u64 \<Rightarrow> (nat \<Rightarrow> bool) \<Rightarrow> u64 list option \<Rightarrow> nat \<Rightarrow> (nat \<Rightarrow> string) \<Rightarrow> (string \<Rightarrow> domain \<Rightarrow> domain) \<Rightarrow>
     (nat \<Rightarrow> 'w seg_ops) \<Rightarrow> string option \<Rightarrow> string \<Rightarrow> string option \<Rightarrow> 'w process \<Rightarrow>
     ((join_error + xseg) \<times> 'w process) option" where
  "xseg_join ver mok tab self nm load_plugin ops segtypename segname peertypename p =
     (if pr_join_mutex p then None
      else
        let (pt, d) = find_or_load_peer_type nm load_plugin peertypename (pr_domain p);
            p = p\<lparr>pr_join_ref := pr_join_ref p + 1, pr_join_mutex := True, pr_domain := d\<rparr> in
        if pt = 0 then join_fail EINVAL p
        else
          let (st, p) = find_segment_type nm load_plugin segtypename p; xops = ops st in
          if st = 0 then join_fail EINVAL p
          else if \<not> mok 0 then join_fail ERRNO p
          else if \<not> mok 1 then join_fail ERRNO p
          else case so_map xops segname (ucast XSEG_MIN_PAGE_SIZE) (pr_world p) of
            (None, w) \<Rightarrow> join_fail ERRNO (p\<lparr>pr_world := w\<rparr>)
          | (Some (addr, s), w) \<Rightarrow>
              if sg_version s \<noteq> ver then join_fail EPROTO (p\<lparr>pr_world := w\<rparr>)
              else
                let sz = of_nat (sg_segment_size s); w = so_unmap xops s (ucast XSEG_MIN_PAGE_SIZE) w in
                case so_map xops segname sz w of
                  (None, w) \<Rightarrow> join_fail ERRNO (p\<lparr>pr_world := w\<rparr>)
                | (Some (addr, s), w) \<Rightarrow> join_mapped mok tab self xops sz addr s (p\<lparr>pr_world := w\<rparr>))"

text \<open>When the type is not found the function returns with the mutex held.\<close>

definition xseg_leave ::
  "(nat \<Rightarrow> string) \<Rightarrow> (string \<Rightarrow> domain \<Rightarrow> domain) \<Rightarrow> (nat \<Rightarrow> 'w seg_ops) \<Rightarrow> xseg \<Rightarrow> 'w process \<Rightarrow> 'w process option" where
  "xseg_leave nm load_plugin ops s p =
     (if pr_join_mutex p then None
      else
        let p = p\<lparr>pr_join_ref := pr_join_ref p - 1, pr_join_mutex := True\<rparr> in
        if pr_join_ref p \<noteq> 0 then Some (p\<lparr>pr_join_mutex := False\<rparr>)
        else
          let (ty, p) = find_segment_type nm load_plugin (Some (cf_type (sg_config s))) p in
          if ty = 0 then Some p
          else Some (p\<lparr>pr_world := so_unmap (ops ty) s (of_nat (sg_segment_size s)) (pr_world p),
                       pr_join_mutex := False\<rparr>))"

section \<open>Counting joins\<close>

lemma find_segment_type_fields:
  "find_segment_type nm lp name p = (ty, p') \<Longrightarrow> pr_join_ref p' = pr_join_ref p \<and> pr_join_mutex p' = pr_join_mutex p \<and>
     pr_world p' = pr_world p"
  by (auto simp: find_segment_type_def split: prod.splits)

lemma join_mapped_cases:
  assumes "join_mapped mok tab self xops sz addr s p = Some (res, p')"
  shows "\<not> pr_join_mutex p' \<and> (case res of Inr x \<Rightarrow> pr_join_ref p' = pr_join_ref p \<and> xseg_validate_pointers x = 0
    | Inl e \<Rightarrow> pr_join_ref p' \<in> {pr_join_ref p, pr_join_ref p - 1})"
  using assms
  by (auto simp: join_mapped_def join_unmap_def join_fail_def Let_def split: option.splits if_splits)

lemma join_cases:
  assumes "xseg_join ver mok tab self nm lp ops st sn pt p = Some (res, p')"
  shows "\<not> pr_join_mutex p' \<and> (case res of Inr x \<Rightarrow> pr_join_ref p' = pr_join_ref p + 1 \<and> xseg_validate_pointers x = 0
    | Inl e \<Rightarrow> pr_join_ref p' \<in> {pr_join_ref p + 1, pr_join_ref p})"
  using assms
  by (auto simp: xseg_join_def join_fail_def Let_def dest!: join_mapped_cases find_segment_type_fields
      split: option.splits if_splits prod.splits sum.splits)

text \<open>
  C38. A join that is the only one is undone by leaving: the segment, all of whose pointers lie
  in the mapping, is unmapped, provided that its type is known. But a join that finds
  no peer type fails after it has been counted. Joining successfully after that and
  leaving again keeps the segment mapped: the count never reaches zero again.
\<close>

theorem failed_join_keeps_mapping:
  assumes p0: "\<not> pr_join_mutex p0" "pr_join_ref p0 = 0" and none: "find_or_load_peer_type nm lp pt' (pr_domain p0) = (0, d')"
  shows "(\<forall>x p1 ty q. xseg_join ver mok tab self nm lp ops st sn pt p0 = Some (Inr x, p1) \<longrightarrow>
      find_segment_type nm lp (Some (cf_type (sg_config x))) p1 = (ty, q) \<longrightarrow> ty \<noteq> 0 \<longrightarrow>
      xseg_validate_pointers x = 0 \<and>
      (\<exists>p2. xseg_leave nm lp ops x p1 = Some p2 \<and> pr_join_ref p2 = 0 \<and> \<not> pr_join_mutex p2 \<and>
        pr_world p2 = so_unmap (ops ty) x (of_nat (sg_segment_size x)) (pr_world p1))) \<and>
    (\<exists>p. xseg_join ver mok tab self nm lp ops st sn pt' p0 = Some (Inl EINVAL, p) \<and>
      (\<forall>x p1. xseg_join ver mok tab self nm lp ops st sn pt p = Some (Inr x, p1) \<longrightarrow>
        xseg_leave nm lp ops x p1 = Some (p1\<lparr>pr_join_ref := 1\<rparr>)))"
proof (intro conjI allI impI)
  fix x p1 ty q
  assume j: "xseg_join ver mok tab self nm lp ops st sn pt p0 = Some (Inr x, p1)"
    and ty: "find_segment_type nm lp (Some (cf_type (sg_config x))) p1 = (ty, q)" "ty \<noteq> 0"
  from join_cases [OF j] p0 show "xseg_validate_pointers x = 0" by simp
  from join_cases [OF j] p0 have "pr_join_ref p1 = 1" "\<not> pr_join_mutex p1" by simp_all
  with ty show "\<exists>p2. xseg_leave nm lp ops x p1 = Some p2 \<and> pr_join_ref p2 = 0 \<and> \<not> pr_join_mutex p2 \<and>
        pr_world p2 = so_unmap (ops ty) x (of_nat (sg_segment_size x)) (pr_world p1)"
    by (auto simp: xseg_leave_def find_segment_type_def Let_def split: prod.splits)
next
  define p where "p = p0\<lparr>pr_join_ref := 1, pr_join_mutex := False, pr_domain := d'\<rparr>"
  have "xseg_join ver mok tab self nm lp ops st sn pt' p0 = Some (Inl EINVAL, p)"
    using p0 none by (simp add: xseg_join_def join_fail_def p_def)
  moreover have "xseg_leave nm lp ops x p1 = Some (p1\<lparr>pr_join_ref := 1\<rparr>)"
    if "xseg_join ver mok tab self nm lp ops st sn pt p = Some (Inr x, p1)" for x p1
    using join_cases [OF that] by (cases p1) (simp add: xseg_leave_def p_def)
  ultimately show "\<exists>p. xseg_join ver mok tab self nm lp ops st sn pt' p0 = Some (Inl EINVAL, p) \<and>
      (\<forall>x p1. xseg_join ver mok tab self nm lp ops st sn pt p = Some (Inr x, p1) \<longrightarrow>
        xseg_leave nm lp ops x p1 = Some (p1\<lparr>pr_join_ref := 1\<rparr>))" by blast
qed

section \<open>Example\<close>

text \<open>A world that counts the unmappings, a segment type 11 and a peer type 12.\<close>

definition demo_sops :: "nat seg_ops" where
  "demo_sops = \<lparr>so_allocate = \<lambda>_ _ w. (0, w), so_deallocate = \<lambda>_ w. w,
     so_map = \<lambda>_ _ w. (Some (65536, demo_seg), w), so_unmap = \<lambda>_ _ w. w + 1\<rparr>"

definition demo_names :: "nat \<Rightarrow> string" where "demo_names t = ''posix''"

definition demo_process :: "nat process" where
  "demo_process = \<lparr>pr_join_ref = 0, pr_join_mutex = False,
     pr_domain = \<lparr>dm_types = [11], dm_nr_types = 1, dm_peer_types = [12], dm_nr_peer_types = 1\<rparr>, pr_world = 0\<rparr>"

lemma demo_find:
  "find_or_load_peer_type demo_names (\<lambda>_ d. d) (Some ''none'') (pr_domain demo_process) = (0, pr_domain demo_process)"
  "find_or_load_peer_type demo_names (\<lambda>_ d. d) (Some ''posix'') (pr_domain demo_process) = (12, pr_domain demo_process)"
  "find_or_load_type demo_names (\<lambda>_ d. d) (Some ''posix'') (pr_domain demo_process) = (11, pr_domain demo_process)"
  by code_simp+

theorem failed_join_keeps_mapping_witness:
  "let join = (\<lambda>pt. xseg_join 1 (\<lambda>_. True) (Some (replicate 16 0)) 77 demo_names (\<lambda>_ d. d) (\<lambda>_. demo_sops)
      (Some ''posix'') ''seg'' (Some pt)) in
   \<exists>p x p1. join ''none'' demo_process = Some (Inl EINVAL, p) \<and> join ''posix'' p = Some (Inr x, p1) \<and> pr_world p1 = 1 \<and>
     xseg_leave demo_names (\<lambda>_ d. d) (\<lambda>_. demo_sops) x p1 = Some (p1\<lparr>pr_join_ref := 1\<rparr>)"
proof -
  let ?join = "\<lambda>pt. xseg_join 1 (\<lambda>_. True) (Some (replicate 16 0)) 77 demo_names (\<lambda>_ d. d) (\<lambda>_. demo_sops)
      (Some ''posix'') ''seg'' pt"
  have p0: "\<not> pr_join_mutex demo_process" "pr_join_ref demo_process = 0" by (simp_all add: demo_process_def)
  obtain p where p: "?join (Some ''none'') demo_process = Some (Inl EINVAL, p)"
    "\<forall>x p1. ?join (Some ''posix'') p = Some (Inr x, p1) \<longrightarrow>
       xseg_leave demo_names (\<lambda>_ d. d) (\<lambda>_. demo_sops) x p1 = Some (p1\<lparr>pr_join_ref := 1\<rparr>)"
    using failed_join_keeps_mapping [OF p0 demo_find(1), where ver = 1 and mok = "\<lambda>_. True" and tab = "Some (replicate 16 0)"
        and self = 77 and ops = "\<lambda>_. demo_sops" and st = "Some ''posix''" and sn = "''seg''" and pt = "Some ''posix''"] by blast
  have pe: "p = demo_process\<lparr>pr_join_ref := 1, pr_join_mutex := False\<rparr>"
    using p(1) p0 by (auto simp: xseg_join_def join_fail_def demo_find)
  have "\<exists>x p1. ?join (Some ''posix'') p = Some (Inr x, p1) \<and> pr_world p1 = 1"
    by (simp add: pe xseg_join_def demo_find find_segment_type_def demo_sops_def join_mapped_def xhash_new_def raw_xhash_new_def
        xseg_validate_pointers_def pointer_ok_def Let_def) (simp add: demo_seg_def demo_process_def)
  with p show ?thesis unfolding Let_def by blast
qed

end
