(* ===== verification/Xports.thy ===== *)
theory Xports
  imports Xreqs Xbind
begin

text \<open>
  A new port: what its allocation gives, from the object handler, the heap and the queues
  below it, and that it is ready for the request protocol once it is bound.
\<close>

section \<open>New queues\<close>

text \<open>Fresh memory is as long as it was asked for, and chunks are shorter than \<open>2 ^ 34\<close> bytes.\<close>

definition fresh_ok :: "(nat \<Rightarrow> u64 list) \<Rightarrow> bool" where
  "fresh_ok junk \<longleftrightarrow> (\<forall>n. length (junk n) = n)"

definition queue_bytes :: "nat \<Rightarrow> nat" where "queue_bytes n = XQ_SIZE + n * 8"

lemma new_queue:
  assumes j: "fresh_ok junk" and n: "0 < n" and sz: "queue_bytes n \<le> sz" "sz < 2 ^ 34"
  defines "k \<equiv> w64 (sz + 2 ^ 64 - XQ_SIZE) div 8"
  shows "empty_q (xq_init_empty (of_nat k) (junk k) q)" and "n < 2 * q_cap (xq_init_empty (of_nat k) (junk k) q)"
proof -
  have "w64 (sz + 2 ^ 64 - XQ_SIZE) = sz - XQ_SIZE"
    using sz by (intro w64_back) (simp_all add: queue_bytes_def)
  then have k: "k = (sz - 48) div 8" by (simp add: k_def XQ_SIZE_def)
  have kn: "n \<le> k" using sz(1) by (simp add: k queue_bytes_def XQ_SIZE_def less_eq_div_iff_mult_less_eq)
  have kb: "k < 2 ^ 31" using sz(2) by (simp add: k div_less_iff_less_mult)
  have u: "unat (of_nat k :: u64) = k" using kb by (intro unat_of_nat_u64) simp
  note e = init_empty_list [of "of_nat k :: u64" "junk k" q, unfolded u]
  have a: "0 < k" "k < 2 ^ 31" "k \<le> length (junk k)" using n kn kb j by (simp_all add: fresh_ok_def)
  obtain i where i: "i < 31" "snap (of_nat k :: u64) = 2 ^ i" "k < 2 ^ Suc i"
    using snap_eq [of "of_nat k :: u64"] a u by auto
  have c: "q_cap (xq_init_empty (of_nat k) (junk k) q) = 2 ^ i"
    using e(4) [OF a] i(1) by (simp add: i(2) unat_pow2)
  show "empty_q (xq_init_empty (of_nat k) (junk k) q)" using e(1,2) [OF a] c by (simp add: empty_q_def)
  show "n < 2 * q_cap (xq_init_empty (of_nat k) (junk k) q)" using kn i(3) by (simp add: c)
qed

text \<open>The room a port needs: the class of its queues is empty and \<open>k\<close> of them fit behind the last chunk.\<close>

definition queue_room :: "xseg \<Rightarrow> (nat \<Rightarrow> nat list) \<Rightarrow> nat \<Rightarrow> nat \<Rightarrow> bool" where
  "queue_room s F n k \<longleftrightarrow> (let h = sg_heap s; u = hp_unit h; b = queue_bytes n in
     in_classes h b \<and> hp_size h < 2 ^ 34 \<and> F (get_index u b) = [] \<and> hp_cur h + k * get_alloc_bytes u b \<le> hp_size h)"

lemma tiled_end: "tiled s (cs @ [(a, n)]) e \<Longrightarrow> e = a + n"
  by (induction cs arbitrary: s) auto

lemma alloc_queue_chunk:
  assumes rdy: "heap_ready s st cs F" and room: "queue_room s F n (Suc k)" and j: "fresh_ok junk" and n: "0 < n"
    and q: "q = hp_cur (sg_heap s) + HDR + sg_base s"
  shows "\<exists>h x m. alloc_queue junk cl n s = Some (q, s\<lparr>sg_heap := h, sg_queue_at := (sg_queue_at s)(q := x)\<rparr>) \<and>
    heap_ready (s\<lparr>sg_heap := h\<rparr>) st (cs @ [(q - sg_base s, m)]) F \<and> queue_room (s\<lparr>sg_heap := h\<rparr>) F n k \<and> empty_q x \<and>
    n < 2 * q_cap x \<and> hp_cur (sg_heap s) < hp_cur h \<and>
    live h (cs @ [(q - sg_base s, m)]) F = insert (q - sg_base s, m) (live (sg_heap s) cs F)"
proof -
  define g where "g = sg_heap s"
  define b where "b = queue_bytes n"
  from room have cls: "in_classes g b" and sz: "hp_size g < 2 ^ 34" and F: "F (get_index (hp_unit g) b) = []"
    and fits: "hp_cur g + Suc k * get_alloc_bytes (hp_unit g) b \<le> hp_size g" by (simp_all add: queue_room_def Let_def g_def b_def)
  from rdy have rep: "heap_rep g st cs F" and lk: "unlocked (hp_lock g)" by (simp_all add: heap_ready_def g_def)
  from cls have b62: "b < 2 ^ 62" and r: "get_index (hp_unit g) b < classes g" "get_index (hp_unit g) (payload (hp_unit g) b) < classes g"
    by (simp_all add: in_classes_def)
  define m where "m = payload (hp_unit g) b"
  have fit1: "hp_cur g + get_alloc_bytes (hp_unit g) b \<le> hp_size g" using fits by simp
  from allocate_cases(1) [OF rep lk b62 refl r F this, of cl] obtain h where
    h: "xheap_allocate cl b g = Some (Some (hp_cur g + HDR), h)" "hp_lock h = free_lock"
    "heap_rep h st (cs @ [(hp_cur g + HDR, m)]) F" "hp_unit h = hp_unit g" "hp_size h = hp_size g" unfolding m_def by blast
  have u: "hp_unit g < 20" using rep_fields [OF rep] by simp
  have m: "b \<le> m" "m + HDR = get_alloc_bytes (hp_unit g) b" unfolding m_def by (rule alloc_bytes(4,6) [OF b62 u])+
  have "tiled st (cs @ [(hp_cur g + HDR, m)]) (hp_cur h)" using h(3) by (simp add: heap_rep_def)
  from tiled_end [OF this] have cur: "hp_cur h = hp_cur g + get_alloc_bytes (hp_unit g) b" using m(2) by simp
  have m34: "m < 2 ^ 34" using m(2) fits sz by simp
  have "hp_mem h (hp_cur g + HDR - 8) = m" using chunk_bounds(4) [OF h(3), of "hp_cur g + HDR" m] by auto
  then have ch: "chunk_size (s\<lparr>sg_heap := h\<rparr>) q = m"
    by (simp add: chunk_size_def q g_def [symmetric] xheap_get_chunk_size_def get_header_def HDR_def add.commute)
  define c where "c = w64 (m + 2 ^ 64 - XQ_SIZE) div 8"
  define x where "x = xq_init_empty (of_nat c) (junk c) (sg_queue_at s q)"
  have w: "w64 (XQ_SIZE + n * 8) = b" using b62 by (simp add: w64_def b_def queue_bytes_def)
  have "q \<noteq> 0" by (simp add: q HDR_def)
  with h(1) ch have "alloc_queue junk cl n s = Some (q, s\<lparr>sg_heap := h, sg_queue_at := (sg_queue_at s)(q := x)\<rparr>)"
    by (simp add: alloc_queue_def w seg_alloc_def g_def [symmetric] q [folded g_def, symmetric] Let_def set_queue_def x_def c_def)
  moreover have "empty_q x" "n < 2 * q_cap x"
    using new_queue [OF j n m(1) [unfolded b_def] m34, of "sg_queue_at s q"] by (simp_all add: x_def c_def)
  moreover have "heap_ready (s\<lparr>sg_heap := h\<rparr>) st (cs @ [(hp_cur g + HDR, m)]) F"
    using rdy h(2,3,5) by (simp add: heap_ready_def g_def)
  moreover have "queue_room (s\<lparr>sg_heap := h\<rparr>) F n k"
    using cls sz F fits h(4,5) by (simp add: queue_room_def Let_def b_def [symmetric] cur in_classes_def classes_def)
  moreover have "hp_cur g < hp_cur h" using m(2) by (simp add: cur HDR_def)
  moreover have "live h (cs @ [(hp_cur g + HDR, m)]) F = insert (hp_cur g + HDR, m) (live g cs F)"
    by (rule live_new(1) [OF rep h(3)]) (simp add: classes_def h(4,5))
  moreover have "q - sg_base s = hp_cur g + HDR" by (simp add: q g_def)
  ultimately show ?thesis unfolding g_def by metis
qed

lemma alloc_queue_new:
  assumes rdy: "heap_ready s st cs F" and room: "queue_room s F n (Suc k)" and j: "fresh_ok junk" and n: "0 < n"
    and q: "q = hp_cur (sg_heap s) + HDR + sg_base s"
  shows "\<exists>h x cs'. alloc_queue junk cl n s = Some (q, s\<lparr>sg_heap := h, sg_queue_at := (sg_queue_at s)(q := x)\<rparr>) \<and>
    heap_ready (s\<lparr>sg_heap := h\<rparr>) st cs' F \<and> queue_room (s\<lparr>sg_heap := h\<rparr>) F n k \<and> empty_q x \<and> n < 2 * q_cap x \<and>
    hp_cur (sg_heap s) < hp_cur h"
  using alloc_queue_chunk [OF rdy room j n q, of cl] by blast

section \<open>New ports\<close>

text \<open>What a port has after its allocation, and what stays of the segment.\<close>

definition port_new :: "xseg \<Rightarrow> nat \<Rightarrow> nat \<Rightarrow> bool" where
  "port_new s n p \<longleftrightarrow>
     (let pt = sg_port_at s p; qs = [pt_free_queue pt, pt_request_queue pt, pt_reply_queue pt] in
      distinct qs \<and> (\<forall>q\<in>set qs. empty_q (sg_queue_at s q) \<and> n < 2 * q_cap (sg_queue_at s q)) \<and>
      pt_fq_lock pt = free_lock \<and> pt_rq_lock pt = free_lock \<and> pt_pq_lock pt = free_lock \<and> pt_port_lock pt = free_lock \<and>
      pt_owner pt = NoOwner \<and> pt_portno pt = NoPort \<and> pt_flags pt = 0 \<and> pt_signal_desc pt = 0)"

lemma ready_cong: "sg_heap s' = sg_heap s \<Longrightarrow> sg_base s' = sg_base s \<Longrightarrow> heap_ready s st cs F \<Longrightarrow> heap_ready s' st cs F"
  by (simp add: heap_ready_def)

lemma room_cong: "sg_heap s' = sg_heap s \<Longrightarrow> queue_room s F n k \<Longrightarrow> queue_room s' F n k"
  by (simp add: queue_room_def)

lemma alloc_port_eq:
  assumes rdy: "heap_ready s st cs F" and room: "queue_room s F n 3" and j: "fresh_ok junk" and n: "0 < n"
    and obj: "obj_rep ((sg_port_h s)\<lparr>oh_heap := sg_heap s\<rparr>) st cs F (p # fl)" and lk: "unlocked (oh_lock (sg_port_h s))"
  shows "\<exists>s'. xseg_alloc_port junk cl flags n s = Some (p, s') \<and> port_new s' n p \<and> p \<noteq> 0 \<and>
    same_table s s' \<and> sg_path_next s' = sg_path_next s"
proof -
  from obj have p0: "p \<noteq> 0" by (simp add: obj_rep_def)
  from get_obj_rep [OF obj, of junk cl flags] lk obtain oh where
    oh: "xobj_get_obj junk cl flags ((sg_port_h s)\<lparr>oh_heap := sg_heap s\<rparr>) = Some (Some p, oh)" "oh_heap oh = sg_heap s"
    by auto
  define s0 where "s0 = s\<lparr>sg_port_h := oh\<rparr>"
  have s0: "get_port_obj junk cl flags s = Some (p, s0)"
    using oh by (simp add: get_port_obj_def s0_def)
  have r0: "heap_ready s0 st cs F" "queue_room s0 F n (Suc 2)"
    using ready_cong [OF _ _ rdy, of s0] room_cong [OF _ room, of s0] by (simp_all add: s0_def numeral_3_eq_3 numeral_2_eq_2)
  obtain q1 h1 x1 cs1 where a1: "alloc_queue junk cl n s0 = Some (q1, s0\<lparr>sg_heap := h1, sg_queue_at := (sg_queue_at s0)(q1 := x1)\<rparr>)"
    "heap_ready (s0\<lparr>sg_heap := h1\<rparr>) st cs1 F" "queue_room (s0\<lparr>sg_heap := h1\<rparr>) F n 2" "empty_q x1" "n < 2 * q_cap x1"
    and q1: "q1 = hp_cur (sg_heap s0) + HDR + sg_base s0" "hp_cur (sg_heap s0) < hp_cur h1"
    using alloc_queue_new [OF r0 j n refl, of cl] by blast
  define s1 where "s1 = upd_port p (\<lambda>p. p\<lparr>pt_free_queue := q1\<rparr>) (s0\<lparr>sg_heap := h1, sg_queue_at := (sg_queue_at s0)(q1 := x1)\<rparr>)"
  have r1: "heap_ready s1 st cs1 F" "queue_room s1 F n (Suc 1)"
    using ready_cong [OF _ _ a1(2), of s1] room_cong [OF _ a1(3), of s1] by (simp_all add: s1_def upd_port_def numeral_2_eq_2)
  obtain q2 h2 x2 cs2 where a2: "alloc_queue junk cl n s1 = Some (q2, s1\<lparr>sg_heap := h2, sg_queue_at := (sg_queue_at s1)(q2 := x2)\<rparr>)"
    "heap_ready (s1\<lparr>sg_heap := h2\<rparr>) st cs2 F" "queue_room (s1\<lparr>sg_heap := h2\<rparr>) F n 1" "empty_q x2" "n < 2 * q_cap x2"
    and q2: "q2 = hp_cur (sg_heap s1) + HDR + sg_base s1" "hp_cur (sg_heap s1) < hp_cur h2"
    using alloc_queue_new [OF r1 j n refl, of cl] by blast
  define s2 where "s2 = upd_port p (\<lambda>p. p\<lparr>pt_request_queue := q2\<rparr>) (s1\<lparr>sg_heap := h2, sg_queue_at := (sg_queue_at s1)(q2 := x2)\<rparr>)"
  have r2: "heap_ready s2 st cs2 F" "queue_room s2 F n (Suc 0)"
    using ready_cong [OF _ _ a2(2), of s2] room_cong [OF _ a2(3), of s2] by (simp_all add: s2_def upd_port_def)
  obtain q3 h3 x3 where a3: "alloc_queue junk cl n s2 = Some (q3, s2\<lparr>sg_heap := h3, sg_queue_at := (sg_queue_at s2)(q3 := x3)\<rparr>)"
    "empty_q x3" "n < 2 * q_cap x3" and q3: "q3 = hp_cur (sg_heap s2) + HDR + sg_base s2"
    using alloc_queue_new [OF r2 j n refl, of cl] by blast
  have "sg_base s1 = sg_base s0" "sg_base s2 = sg_base s0" "sg_heap s1 = h1" "sg_heap s2 = h2"
    by (simp_all add: s1_def s2_def upd_port_def)
  then have qs: "q1 \<noteq> 0" "q1 < q2" "q2 < q3" using q1 q2 q3 by (simp_all add: HDR_def)
  then have "q2 \<noteq> 0" "q3 \<noteq> 0" "q1 \<noteq> q2" "q2 \<noteq> q3" "q1 \<noteq> q3" by simp_all
  note qs = qs(1) this
  obtain f where e: "xseg_alloc_port junk cl flags n s =
      Some (p, upd_port p f (s2\<lparr>sg_heap := h3, sg_queue_at := (sg_queue_at s2)(q3 := x3)\<rparr>))"
    and f: "f = (\<lambda>p. p\<lparr>pt_reply_queue := q3, pt_fq_lock := free_lock, pt_rq_lock := free_lock,
                 pt_pq_lock := free_lock, pt_port_lock := free_lock,
                 pt_owner := NoOwner, pt_portno := NoPort, pt_peer_type := 0, pt_alloc_reqs := 0,
                 pt_max_alloc_reqs := XSEG_DEF_MAX_ALLOCATED_REQS, pt_flags := 0, pt_signal_desc := 0\<rparr>)"
    using a1(1) a2(1) a3(1) p0 qs by (simp add: xseg_alloc_port_def s0 Let_def flip: s1_def s2_def)
  show ?thesis
    unfolding e using a1(4,5) a2(4,5) a3(2,3) qs p0
    by (simp add: port_new_def f upd_port_def s0_def s1_def s2_def same_table_def)
qed

text \<open>
  C30. On a heap with room for three queues of \<open>n\<close> entries, and with a free port object, a
  new port is allocated: it is the first free object of the handler, it has three different
  queues, all empty and with room for at least half of the requests asked for (the capacity is
  rounded down to a power of two), free locks, no owner and no number. As soon as the binding has put it into the
  table of ports under a valid number that is not routed, it is ready for the request
  protocol.
\<close>

theorem new_port_ready:
  assumes rdy: "heap_ready s st cs F" and room: "queue_room s F n 3" and j: "fresh_ok junk" and n: "0 < n"
    and obj: "obj_rep ((sg_port_h s)\<lparr>oh_heap := sg_heap s\<rparr>) st cs F (p # fl)" and lk: "unlocked (oh_lock (sg_port_h s))"
    and no: "no < cf_nr_ports (sg_config s)" "length (sg_ports s) = unat (cf_nr_ports (sg_config s))"
      "sg_path_next s ! unat no = NoPort"
  shows "\<exists>s'. xseg_alloc_port junk cl flags n s = Some (p, s') \<and> port_new s' n p \<and>
    port_ready (set_port no p (own_port p driver me no s')) no"
proof -
  from alloc_port_eq [OF rdy room j n obj lk] obtain s' where
    s': "xseg_alloc_port junk cl flags n s = Some (p, s')" "port_new s' n p" "p \<noteq> 0" "same_table s s'" "sg_path_next s' = sg_path_next s"
    by blast
  have fl: "(CAN_ACCEPT OR CAN_RECEIVE) AND CAN_RECEIVE \<noteq> 0" by (simp add: CAN_ACCEPT_def CAN_RECEIVE_def)
  have "port_ready (set_port no p (own_port p driver me no s')) no"
    using s'(2-5) no fl
    by (simp add: port_ready_def port_new_def Let_def set_port_def own_port_def upd_port_def xseg_get_port_def
        validate_port_def same_table_def word_less_nat_alt)
  with s' show ?thesis by blast
qed

section \<open>An example\<close>

text \<open>A segment whose handler for ports has one free object, in the first chunk of the heap.\<close>

lemma demo_port_object:
  "\<exists>h p. obj_rep h (hp_cur demo_xheap) [(hp_cur demo_xheap + HDR, 104)] (\<lambda>_. []) [p] \<and> oh_lock h = free_lock \<and>
     hp_unit (oh_heap h) = 5 \<and> hp_size (oh_heap h) = 262144 \<and> hp_cur (oh_heap h) < 9000 \<and> hp_lock (oh_heap h) = free_lock"
proof -
  note ok = demo_xheap_ok
  let ?a = "hp_cur demo_xheap + HDR"
  let ?cs = "[(?a, 104)]"
  have c: "(100 :: nat) < 2 ^ 62" "3 = get_index (hp_unit demo_xheap) 100" "3 < classes demo_xheap"
    "get_index (hp_unit demo_xheap) (payload (hp_unit demo_xheap) 100) < classes demo_xheap"
    using demo_class by (simp_all add: ok in_classes_def)
  obtain g where g: "hp_lock g = free_lock" "heap_rep g (hp_cur demo_xheap) ?cs (\<lambda>_. [])" "hp_unit g = 5" "hp_size g = 262144"
    using allocate_cases(1) [OF ok(1,2) c, of "demo_caller 1"] ok by (auto simp: demo_class)
  from g(2) have "tiled (hp_cur demo_xheap) ([] @ ?cs) (hp_cur g)" by (simp add: heap_rep_def)
  from tiled_end [OF this] have cur: "hp_cur g < 9000" using ok(5) by (simp add: HDR_def)
  define y where "y = demo_obj\<lparr>oh_heap := g\<rparr>"
  have y: "obj_rep y (hp_cur demo_xheap) ?cs (\<lambda>_. []) []"
    using g(2) by (simp add: y_def obj_rep_def demo_obj_def XOBJ_SIZE_def)
  have s: "slot y ?cs (\<lambda>_. []) (?a + 4096)"
    unfolding slot_def by (rule exI [of _ ?a], rule exI [of _ 104], rule exI [of _ 0]) (simp add: y_def demo_obj_def live_def)
  obtain h where h: "xobj_put_obj (demo_caller 1) (?a + 4096) y = Some h"
    "obj_rep h (hp_cur demo_xheap) ?cs (\<lambda>_. []) [?a + 4096]" "oh_lock h = free_lock"
    using put_obj_rep [OF y _ s, of "demo_caller 1"] by (auto simp: y_def demo_obj_def HDR_def)
  have "hp_unit (oh_heap h) = hp_unit g" "hp_size (oh_heap h) = hp_size g" "hp_cur (oh_heap h) = hp_cur g"
    "hp_lock (oh_heap h) = hp_lock g"
    using h(1) by (auto simp: xobj_put_obj_def Let_def y_def put_field_def put_word_def split: bind_splits)
  with h cur g show ?thesis by auto
qed

lemma demo_queue_class: "queue_bytes 4 = 80" "get_alloc_bytes 5 80 = 128" "payload 5 80 = 104" "get_index 5 80 = 3" "get_index 5 104 = 3"
  by (simp_all add: queue_bytes_def XQ_SIZE_def payload_def get_index_def get_alloc_bytes_def align64_def w64_def xheap_limits HDR_def)

theorem new_port_ready_witness:
  "\<exists>s p s'. xseg_alloc_port (\<lambda>n. replicate n 0) (demo_caller 1) 0 4 s = Some (p, s') \<and> port_new s' 4 p \<and>
     port_ready (set_port 1 p (own_port p 0 9 1 s')) 1 \<and> sg_ports s = sg_ports demo_seg"
proof -
  obtain h p where h: "obj_rep h (hp_cur demo_xheap) [(hp_cur demo_xheap + HDR, 104)] (\<lambda>_. []) [p]" "oh_lock h = free_lock"
    "hp_unit (oh_heap h) = 5" "hp_size (oh_heap h) = 262144" "hp_cur (oh_heap h) < 9000" "hp_lock (oh_heap h) = free_lock"
    using demo_port_object by blast
  define s where "s = demo_seg\<lparr>sg_port_h := h, sg_heap := oh_heap h\<rparr>"
  have f: "sg_port_h s = h" "sg_heap s = oh_heap h" "sg_base s = 4096" "sg_ports s = [1000, 2000, 3000]"
    "sg_path_next s = [NoPort, NoPort, NoPort]" "cf_nr_ports (sg_config s) = 3" by (simp_all add: s_def demo_seg_def)
  have "heap_ready s (hp_cur demo_xheap) [(hp_cur demo_xheap + HDR, 104)] (\<lambda>_. [])"
    using h by (simp add: heap_ready_def f obj_rep_def)
  moreover have "classes (oh_heap h) = 1080" using h(3,4) by (simp add: classes_def demo_index)
  then have "queue_room s (\<lambda>_. []) 4 3"
    using h(3-5) by (simp add: queue_room_def Let_def f in_classes_def demo_queue_class)
  moreover have "fresh_ok (\<lambda>n. replicate n 0)" by (simp add: fresh_ok_def)
  moreover have "obj_rep ((sg_port_h s)\<lparr>oh_heap := sg_heap s\<rparr>) (hp_cur demo_xheap) [(hp_cur demo_xheap + HDR, 104)] (\<lambda>_. []) (p # [])"
    "unlocked (oh_lock (sg_port_h s))" using h by (simp_all add: f)
  moreover have "(1 :: xport) < cf_nr_ports (sg_config s)" "length (sg_ports s) = unat (cf_nr_ports (sg_config s))"
    "sg_path_next s ! unat (1 :: xport) = NoPort" by (simp_all add: f)
  ultimately obtain s' where "xseg_alloc_port (\<lambda>n. replicate n 0) (demo_caller 1) 0 4 s = Some (p, s')" "port_new s' 4 p"
    "port_ready (set_port 1 p (own_port p 0 9 1 s')) 1"
    using new_port_ready [of s "hp_cur demo_xheap" "[(hp_cur demo_xheap + HDR, 104)]" "\<lambda>_. []" 4 "\<lambda>n. replicate n 0" p "[]" 1
        "demo_caller 1" 0 0 9] by fastforce
  moreover have "sg_ports s = sg_ports demo_seg" by (simp add: s_def)
  ultimately show ?thesis by blast
qed

end
