(* ===== verification/Xposix.thy ===== *)
theory Xposix
  imports Xpeer
begin

text \<open>
  The segment type and the peer type of \<^verbatim>\<open>xseg_posix.c\<close>, and what the peer types share.
  A peer type acts on the segment, on the part \<open>pv_proc\<close> of its process and, by
  the calls recorded there, on the system. \<open>sd\<close> and \<open>data\<close> are offsets in the segment.
\<close>

section \<open>What the peer types share\<close>

definition on_proc :: "(peer_proc \<Rightarrow> 'r \<times> peer_proc) \<Rightarrow> xseg \<Rightarrow> 'r \<times> xseg" where
  "on_proc f s = (let (r, p) = f (pv_proc s) in (r, s\<lparr>pv_proc := p\<rparr>))"

text \<open>
  The signal descriptor of a port. The code compares its address in the process with the
  null pointer; the offset 0 of a port without a descriptor passes that test.
\<close>

definition port_sd :: "xseg \<Rightarrow> xport \<Rightarrow> nat option" where
  "port_sd s portno =
     (let port = xseg_get_port s portno in
      if port = 0 then None
      else let psd = xseg_get_signal_desc s port in if psd = 0 then None else Some (psd - sg_segment s))"

text \<open>An object of the handler at \<open>data\<close>, and its return.\<close>

definition sd_get :: "(nat \<Rightarrow> u64 list) \<Rightarrow> caller \<Rightarrow> nat \<Rightarrow> xseg \<Rightarrow> (nat \<times> xseg) option" where
  "sd_get junk cl data s =
     do {
       (p, h) \<leftarrow> xobj_get_obj junk cl X_ALLOC ((sg_objh_at s data)\<lparr>oh_heap := sg_heap s\<rparr>);
       Some (case p of None \<Rightarrow> 0 | Some p \<Rightarrow> p, s\<lparr>sg_objh_at := (sg_objh_at s)(data := h), sg_heap := oh_heap h\<rparr>)
     }"

definition sd_put :: "caller \<Rightarrow> nat \<Rightarrow> nat \<Rightarrow> xseg \<Rightarrow> xseg option" where
  "sd_put cl data sd s =
     do {
       h \<leftarrow> xobj_put_obj cl sd ((sg_objh_at s data)\<lparr>oh_heap := sg_heap s\<rparr>);
       Some (s\<lparr>sg_objh_at := (sg_objh_at s)(data := h), sg_heap := oh_heap h\<rparr>)
     }"

section \<open>The segment type\<close>

definition posix_allocate :: "env \<Rightarrow> string \<Rightarrow> u64 \<Rightarrow> peer_proc \<Rightarrow> int \<times> peer_proc" where
  "posix_allocate env name sz p =
     (let (fd, p) = sys_ret env (Shm_open name True) p in
      if fd < 0 then (fd, p)
      else let (r, p) = sys_ret env (Ftruncate fd sz) p; p = sys_do env (Fclose fd) p in
        if r \<noteq> 0 then (-1, p) else (0, p))"

definition posix_deallocate :: "env \<Rightarrow> string \<Rightarrow> peer_proc \<Rightarrow> int \<times> peer_proc" where
  "posix_deallocate env name p = sys_ret env (Shm_unlink name) p"

text \<open>The address of the mapping, 0 for none; \<^verbatim>\<open>MAP_FAILED\<close> is -1.\<close>

definition posix_map :: "env \<Rightarrow> string \<Rightarrow> u64 \<Rightarrow> peer_proc \<Rightarrow> int \<times> peer_proc" where
  "posix_map env name sz p =
     (let (fd, p) = sys_ret env (Shm_open name False) p in
      if fd < 0 then (0, p)
      else let (xseg, p) = sys_ret env (Mmap fd sz) p in
        if xseg = -1 then (0, p) else (xseg, sys_do env (Fclose fd) p))"

definition posix_unmap :: "env \<Rightarrow> nat \<Rightarrow> u64 \<Rightarrow> peer_proc \<Rightarrow> peer_proc" where
  "posix_unmap env ptr sz p = sys_do env (Munmap ptr sz) p"

section \<open>The peer type\<close>

definition MAGIC_POSIX_SD :: nat where "MAGIC_POSIX_SD = 6"
definition POSIX_SD_SIZE :: nat where "POSIX_SD_SIZE = 8"
definition SIG_ERR :: int where "SIG_ERR = -1"

definition posix_local_signal_init :: "env \<Rightarrow> peer_proc \<Rightarrow> int \<times> peer_proc" where
  "posix_local_signal_init env p =
     (let (h, p) = sys_ret env (Sig_handler True) p in
      if h = SIG_ERR then (-1, p)
      else let (r, p) = sys_ret env (Sigprocmask Sig_block) p in
        if r < 0 then (-1, p)
        else let (pid, p) = sys_ret env Gettid p in (0, p\<lparr>pp_pid := of_int pid\<rparr>))"

definition posix_local_signal_quit :: "env \<Rightarrow> peer_proc \<Rightarrow> peer_proc" where
  "posix_local_signal_quit env p =
     (let p = p\<lparr>pp_pid := 0\<rparr>; p = sys_do env (Sig_handler False) p in sys_do env (Sigprocmask Sig_setmask) p)"

definition posix_remote_signal_init :: int where "posix_remote_signal_init = 0"

definition set_waitcue :: "nat \<Rightarrow> u64 \<Rightarrow> xseg \<Rightarrow> xseg" where
  "set_waitcue sd cue s = s\<lparr>sg_posix_sd := (sg_posix_sd s)(sd := \<lparr>ps_waitcue = cue\<rparr>)\<rparr>"

definition posix_prepare_wait :: "xport \<Rightarrow> xseg \<Rightarrow> int \<times> xseg" where
  "posix_prepare_wait portno s =
     (case port_sd s portno of None \<Rightarrow> (-1, s) | Some sd \<Rightarrow> (0, set_waitcue sd (scast (pp_pid (pv_proc s))) s))"

definition posix_cancel_wait :: "xport \<Rightarrow> xseg \<Rightarrow> int \<times> xseg" where
  "posix_cancel_wait portno s =
     (case port_sd s portno of None \<Rightarrow> (-1, s) | Some sd \<Rightarrow> (0, set_waitcue sd 0 s))"

text \<open>The timeout in microseconds as seconds and nanoseconds.\<close>

definition timespec :: "u32 \<Rightarrow> nat \<times> nat" where
  "timespec usec = (let sec = unat usec div 1000000 in (sec, 1000 * (unat usec - sec * 1000000)))"

definition posix_wait_signal :: "env \<Rightarrow> u32 \<Rightarrow> peer_proc \<Rightarrow> int \<times> peer_proc" where
  "posix_wait_signal env usec_timeout p =
     (let (sec, nsec) = timespec usec_timeout; (r, p) = sys env (Sigtimedwait sec nsec) p in
      if sr_ret r < 0 then (sr_ret r, p) else (sr_info r, p))"

definition posix_signal :: "env \<Rightarrow> xport \<Rightarrow> xseg \<Rightarrow> int \<times> xseg" where
  "posix_signal env portno s =
     (case port_sd s portno of None \<Rightarrow> (-1, s)
      | Some sd \<Rightarrow>
          let cue = ucast (ps_waitcue (sg_posix_sd s sd)) :: pid_t in
          if cue = 0 then (-2, s) else on_proc (sys_ret env (Tkill cue)) s)"

definition posix_init_signal_desc :: "nat \<Rightarrow> xseg \<Rightarrow> int \<times> xseg" where
  "posix_init_signal_desc sd s = (if sd = 0 then (-1, s) else (0, set_waitcue sd 0 s))"

definition posix_quit_signal_desc :: "nat \<Rightarrow> xseg \<Rightarrow> xseg" where
  "posix_quit_signal_desc sd s = s"

definition posix_alloc_data :: "(nat \<Rightarrow> u64 list) \<Rightarrow> caller \<Rightarrow> xseg \<Rightarrow> (nat \<times> xseg) option" where
  "posix_alloc_data junk cl s = xseg_get_objh junk cl MAGIC_POSIX_SD POSIX_SD_SIZE s"

definition posix_free_data :: "caller \<Rightarrow> nat \<Rightarrow> xseg \<Rightarrow> xseg option" where
  "posix_free_data cl data s = (if data \<noteq> 0 then xseg_put_objh cl data s else Some s)"

definition posix_alloc_signal_desc :: "(nat \<Rightarrow> u64 list) \<Rightarrow> caller \<Rightarrow> nat \<Rightarrow> xseg \<Rightarrow> (nat \<times> xseg) option" where
  "posix_alloc_signal_desc junk cl data s =
     (if data = 0 then Some (0, s)
      else do {
        (psd, s) \<leftarrow> sd_get junk cl data s;
        if psd = 0 then Some (0, s) else Some (psd, set_waitcue psd 0 s) })"

definition posix_free_signal_desc :: "caller \<Rightarrow> nat \<Rightarrow> nat \<Rightarrow> xseg \<Rightarrow> xseg option" where
  "posix_free_signal_desc cl data sd s =
     (if data = 0 then Some s else if sd \<noteq> 0 then sd_put cl data sd s else Some s)"

definition posix_malloc :: "env \<Rightarrow> u64 \<Rightarrow> peer_proc \<Rightarrow> int \<times> peer_proc" where
  "posix_malloc env sz p = sys_ret env (Malloc (unat sz)) p"

definition posix_realloc :: "env \<Rightarrow> nat \<Rightarrow> u64 \<Rightarrow> peer_proc \<Rightarrow> int \<times> peer_proc" where
  "posix_realloc env mem sz p = sys_ret env (Realloc mem (unat sz)) p"

definition posix_mfree :: "env \<Rightarrow> nat \<Rightarrow> peer_proc \<Rightarrow> peer_proc" where
  "posix_mfree env mem p = sys_do env (Mfree mem) p"

text \<open>The table of operations, for the calls of one thread.\<close>

definition posix_ops :: "env \<Rightarrow> (nat \<Rightarrow> u64 list) \<Rightarrow> caller \<Rightarrow> peer_ops" where
  "posix_ops env junk cl =
     \<lparr>po_init_signal_desc = \<lambda>sd s. Some (posix_init_signal_desc sd s),
      po_alloc_data = posix_alloc_data junk cl,
      po_alloc_signal_desc = posix_alloc_signal_desc junk cl,
      po_free_signal_desc = posix_free_signal_desc cl,
      po_local_signal_init = \<lambda>_ s. Some (on_proc (posix_local_signal_init env) s),
      po_local_signal_quit = \<lambda>_ s. Some (s\<lparr>pv_proc := posix_local_signal_quit env (pv_proc s)\<rparr>),
      po_prepare_wait = \<lambda>n s. Some (posix_prepare_wait n s),
      po_cancel_wait = \<lambda>n s. Some (posix_cancel_wait n s),
      po_wait_signal = \<lambda>_ t s. Some (on_proc (posix_wait_signal env t) s),
      po_signal = \<lambda>n s. Some (posix_signal env n s)\<rparr>"

end
