(* ===== verification/Xpthread.thy ===== *)
theory Xpthread
  imports Xposix
begin

text \<open>
  The peer type of \<^verbatim>\<open>xseg_pthread.c\<close>: every thread that waits has a slot of the descriptor, its
  identifier in the process. \<open>cl\<close> is the calling thread. The segment type repeats the one of
  \<^verbatim>\<open>xseg_posix.c\<close>.
\<close>

section \<open>The segment type\<close>

definition pthread_allocate :: "env \<Rightarrow> string \<Rightarrow> u64 \<Rightarrow> peer_proc \<Rightarrow> int \<times> peer_proc" where
  "pthread_allocate env name sz p =
     (let (fd, p) = sys_ret env (Shm_open name True) p in
      if fd < 0 then (fd, p)
      else let (r, p) = sys_ret env (Ftruncate fd sz) p; p = sys_do env (Fclose fd) p in
        if r \<noteq> 0 then (-1, p) else (0, p))"

definition pthread_deallocate :: "env \<Rightarrow> string \<Rightarrow> peer_proc \<Rightarrow> int \<times> peer_proc" where
  "pthread_deallocate env name p = sys_ret env (Shm_unlink name) p"

definition pthread_map :: "env \<Rightarrow> string \<Rightarrow> u64 \<Rightarrow> peer_proc \<Rightarrow> int \<times> peer_proc" where
  "pthread_map env name sz p =
     (let (fd, p) = sys_ret env (Shm_open name False) p in
      if fd < 0 then (0, p)
      else let (xseg, p) = sys_ret env (Mmap fd sz) p in
        if xseg = -1 then (0, p) else (xseg, sys_do env (Fclose fd) p))"

definition pthread_unmap :: "env \<Rightarrow> nat \<Rightarrow> u64 \<Rightarrow> peer_proc \<Rightarrow> peer_proc" where
  "pthread_unmap env ptr sz p = sys_do env (Munmap ptr sz) p"

section \<open>Signals of a thread\<close>

definition MAGIC_PTHREAD_SD :: nat where "MAGIC_PTHREAD_SD = 7"
definition PTHREAD_SD_SIZE :: nat where "PTHREAD_SD_SIZE = 4 * MAX_WAITERS"
definition SIGSET_SIZE :: nat where "SIGSET_SIZE = 128"
definition SIGACTION_SIZE :: nat where "SIGACTION_SIZE = 152"

text \<open>The keys are created one after the other, once for the process.\<close>

fun create_keys :: "env \<Rightarrow> tls_key list \<Rightarrow> peer_proc \<Rightarrow> bool \<times> peer_proc" where
  "create_keys env [] p = (True, p)"
| "create_keys env (k # ks) p =
     (let (r, p) = sys_ret env (Key_create k) p in if r < 0 then (False, p) else create_keys env ks p)"

definition keys_init :: "env \<Rightarrow> peer_proc \<Rightarrow> peer_proc" where
  "keys_init env p = (let (b, p) = create_keys env [K_pid, K_xpidx, K_mask, K_act, K_id] p in p\<lparr>pp_is_init := b\<rparr>)"

definition init_once :: "env \<Rightarrow> peer_proc \<Rightarrow> peer_proc" where
  "init_once env p = (if pp_once p then p else (keys_init env p)\<lparr>pp_once := True\<rparr>)"

definition pthread_malloc :: "env \<Rightarrow> u64 \<Rightarrow> peer_proc \<Rightarrow> nat \<times> peer_proc" where
  "pthread_malloc env sz p = (let (r, p) = sys_ret env (Malloc (unat sz)) p in (nat r, p))"

definition pthread_realloc :: "env \<Rightarrow> nat \<Rightarrow> u64 \<Rightarrow> peer_proc \<Rightarrow> nat \<times> peer_proc" where
  "pthread_realloc env mem sz p = (let (r, p) = sys_ret env (Realloc mem (unat sz)) p in (nat r, p))"

definition pthread_mfree :: "env \<Rightarrow> nat \<Rightarrow> peer_proc \<Rightarrow> peer_proc" where
  "pthread_mfree env mem p = sys_do env (Mfree mem) p"

text \<open>A thread stores a value under a key, if the library lets it.\<close>

definition setspecific ::
  "env \<Rightarrow> caller \<Rightarrow> tls_key \<Rightarrow> (thread_data \<Rightarrow> thread_data) \<Rightarrow> peer_proc \<Rightarrow> bool \<times> peer_proc" where
  "setspecific env cl k f p =
     (let (r, p) = sys_ret env (Setspecific k) p in
      if r = 0 then (True, p\<lparr>pp_threads := (pp_threads p)(c_tid cl := f (pp_threads p (c_tid cl)))\<rparr>) else (False, p))"

definition getspecific :: "caller \<Rightarrow> peer_proc \<Rightarrow> thread_data" where
  "getspecific cl p = pp_threads p (c_tid cl)"

text \<open>The labels \<^verbatim>\<open>err5\<close> and below, for the memory that was got so far, newest first; \<^verbatim>\<open>err6\<close> before them.\<close>

definition err_free :: "env \<Rightarrow> nat list \<Rightarrow> peer_proc \<Rightarrow> int \<times> peer_proc" where
  "err_free env ms p = (-1, fold (pthread_mfree env) ms p)"

definition err_action :: "env \<Rightarrow> nat \<Rightarrow> nat list \<Rightarrow> peer_proc \<Rightarrow> int \<times> peer_proc" where
  "err_action env old_act ms p = err_free env ms (sys_do env (Sigaction old_act 0) p)"

text \<open>The four stores of a thread; those after a failure are not made.\<close>

definition store_keys :: "env \<Rightarrow> caller \<Rightarrow> pid_t \<Rightarrow> nat \<Rightarrow> nat \<Rightarrow> int \<Rightarrow> peer_proc \<Rightarrow> bool \<times> peer_proc" where
  "store_keys env cl pid savedset old_act my_id p =
     (let (b, p) = setspecific env cl K_pid (\<lambda>t. t\<lparr>td_pid := pid\<rparr>) p in
      if \<not> b then (b, p)
      else let (b, p) = setspecific env cl K_mask (\<lambda>t. t\<lparr>td_mask := savedset\<rparr>) p in
      if \<not> b then (b, p)
      else let (b, p) = setspecific env cl K_act (\<lambda>t. t\<lparr>td_act := old_act\<rparr>) p in
      if \<not> b then (b, p)
      else setspecific env cl K_id (\<lambda>t. t\<lparr>td_id := my_id\<rparr>) p)"

text \<open>After the memory is there: the keys, the handler, the mask, the identifier.\<close>

definition signal_setup ::
  "env \<Rightarrow> caller \<Rightarrow> nat \<Rightarrow> nat \<Rightarrow> nat \<Rightarrow> nat \<Rightarrow> peer_proc \<Rightarrow> int \<times> peer_proc" where
  "signal_setup env cl savedset newset act old_act p =
     (let ms = [old_act, act, newset, savedset]; p = init_once env p in
      if \<not> pp_is_init p then err_free env ms p
      else let (r, p) = sys_ret env (Sigaction act old_act) p in
      if r < 0 then err_free env ms p
      else let (r, p) = sys_ret env (Pthread_sigmask Sig_block newset savedset) p in
      if r < 0 then err_action env old_act ms p
      else
        let my_id = pp_next_id p; p = p\<lparr>pp_next_id := my_id + 1\<rparr>;
            (pid, p) = sys_ret env Gettid p;
            (b, p) = store_keys env cl (of_int pid) savedset old_act my_id p in
        if b then (0, p) else err_action env old_act ms (sys_do env (Pthread_sigmask Sig_block savedset 0) p))"

definition pthread_local_signal_init :: "env \<Rightarrow> caller \<Rightarrow> peer_proc \<Rightarrow> int \<times> peer_proc" where
  "pthread_local_signal_init env cl p =
     (let (savedset, p) = pthread_malloc env (of_nat SIGSET_SIZE) p in
      if savedset = 0 then err_free env [] p
      else let (newset, p) = pthread_malloc env (of_nat SIGSET_SIZE) p in
      if newset = 0 then err_free env [savedset] p
      else let (act, p) = pthread_malloc env (of_nat SIGACTION_SIZE) p in
      if act = 0 then err_free env [newset, savedset] p
      else let (old_act, p) = pthread_malloc env (of_nat SIGACTION_SIZE) p in
      if old_act = 0 then err_free env [act, newset, savedset] p
      else signal_setup env cl savedset newset act old_act p)"

definition pthread_local_signal_quit :: "env \<Rightarrow> caller \<Rightarrow> peer_proc \<Rightarrow> peer_proc" where
  "pthread_local_signal_quit env cl p =
     (let savedset = td_act (getspecific cl p); old_act = td_mask (getspecific cl p);
          p = (if old_act \<noteq> 0 then sys_do env (Sigaction old_act 0) p else p)
      in if savedset \<noteq> 0 then sys_do env (Pthread_sigmask Sig_setmask savedset 0) p else p)"

definition pthread_remote_signal_init :: int where "pthread_remote_signal_init = 0"

section \<open>Waiting and signalling\<close>

text \<open>
  A store at index \<open>my_id\<close> of the descriptor's array; past its end there is no
  result (the code writes to the memory behind it).
\<close>

definition set_pid :: "nat \<Rightarrow> int \<Rightarrow> pid_t \<Rightarrow> xseg \<Rightarrow> xseg option" where
  "set_pid sd my_id pid s =
     (let pids = pth_pids (sg_pthread_sd s sd) in
      if nat my_id < length pids
      then Some (s\<lparr>sg_pthread_sd := (sg_pthread_sd s)(sd := \<lparr>pth_pids = pids[nat my_id := pid]\<rparr>)\<rparr>) else None)"

definition pthread_prepare_wait :: "caller \<Rightarrow> xport \<Rightarrow> xseg \<Rightarrow> (int \<times> xseg) option" where
  "pthread_prepare_wait cl portno s =
     (case port_sd s portno of None \<Rightarrow> Some (-1, s)
      | Some psd \<Rightarrow>
          let pid = td_pid (getspecific cl (pv_proc s)) in
          if pid = 0 then Some (-1, s)
          else let my_id = td_id (getspecific cl (pv_proc s)) in do { s \<leftarrow> set_pid psd my_id pid s; Some (0, s) })"

definition pthread_cancel_wait :: "caller \<Rightarrow> xport \<Rightarrow> xseg \<Rightarrow> (int \<times> xseg) option" where
  "pthread_cancel_wait cl portno s =
     (case port_sd s portno of None \<Rightarrow> Some (-1, s)
      | Some psd \<Rightarrow>
          let pid = td_pid (getspecific cl (pv_proc s)) in
          if pid = 0 then Some (-1, s)
          else let my_id = td_id (getspecific cl (pv_proc s)) in do { s \<leftarrow> set_pid psd my_id 0 s; Some (0, s) })"

definition pthread_wait_signal :: "env \<Rightarrow> u32 \<Rightarrow> peer_proc \<Rightarrow> int \<times> peer_proc" where
  "pthread_wait_signal env usec_timeout p =
     (let (sec, nsec) = timespec usec_timeout; (r, p) = sys env (Sigtimedwait sec nsec) p in
      if sr_ret r < 0 then (sr_ret r, p) else (sr_info r, p))"

text \<open>The loop over the slots.\<close>

fun signal_first :: "env \<Rightarrow> pid_t list \<Rightarrow> peer_proc \<Rightarrow> int \<times> peer_proc" where
  "signal_first env [] p = (0, p)"
| "signal_first env (cue # cues) p = (if cue \<noteq> 0 then sys_ret env (Tkill cue) p else signal_first env cues p)"

definition pthread_signal :: "env \<Rightarrow> xport \<Rightarrow> xseg \<Rightarrow> int \<times> xseg" where
  "pthread_signal env portno s =
     (case port_sd s portno of None \<Rightarrow> (-1, s)
      | Some psd \<Rightarrow> on_proc (signal_first env (take MAX_WAITERS (pth_pids (sg_pthread_sd s psd)))) s)"

section \<open>Descriptors\<close>

definition clear_pids :: "nat \<Rightarrow> xseg \<Rightarrow> xseg" where
  "clear_pids sd s = s\<lparr>sg_pthread_sd := (sg_pthread_sd s)(sd := \<lparr>pth_pids = replicate MAX_WAITERS 0\<rparr>)\<rparr>"

definition pthread_init_signal_desc :: "nat \<Rightarrow> xseg \<Rightarrow> int \<times> xseg" where
  "pthread_init_signal_desc sd s = (0, clear_pids sd s)"

definition pthread_quit_signal_desc :: "nat \<Rightarrow> xseg \<Rightarrow> xseg" where
  "pthread_quit_signal_desc sd s = clear_pids sd s"

definition pthread_alloc_data :: "(nat \<Rightarrow> u64 list) \<Rightarrow> caller \<Rightarrow> xseg \<Rightarrow> (nat \<times> xseg) option" where
  "pthread_alloc_data junk cl s = xseg_get_objh junk cl MAGIC_PTHREAD_SD PTHREAD_SD_SIZE s"

definition pthread_free_data :: "caller \<Rightarrow> nat \<Rightarrow> xseg \<Rightarrow> xseg option" where
  "pthread_free_data cl data s = (if data \<noteq> 0 then xseg_put_objh cl data s else Some s)"

definition pthread_alloc_signal_desc :: "(nat \<Rightarrow> u64 list) \<Rightarrow> caller \<Rightarrow> nat \<Rightarrow> xseg \<Rightarrow> (nat \<times> xseg) option" where
  "pthread_alloc_signal_desc junk cl data s = (if data = 0 then Some (0, s) else sd_get junk cl data s)"

definition pthread_free_signal_desc :: "caller \<Rightarrow> nat \<Rightarrow> nat \<Rightarrow> xseg \<Rightarrow> xseg option" where
  "pthread_free_signal_desc cl data sd s =
     (if data = 0 then Some s else if sd \<noteq> 0 then sd_put cl data sd s else Some s)"

definition pthread_ops :: "env \<Rightarrow> (nat \<Rightarrow> u64 list) \<Rightarrow> caller \<Rightarrow> peer_ops" where
  "pthread_ops env junk cl =
     \<lparr>po_init_signal_desc = \<lambda>sd s. Some (pthread_init_signal_desc sd s),
      po_alloc_data = pthread_alloc_data junk cl,
      po_alloc_signal_desc = pthread_alloc_signal_desc junk cl,
      po_free_signal_desc = pthread_free_signal_desc cl,
      po_local_signal_init = \<lambda>_ s. Some (on_proc (pthread_local_signal_init env cl) s),
      po_local_signal_quit = \<lambda>_ s. Some (s\<lparr>pv_proc := pthread_local_signal_quit env cl (pv_proc s)\<rparr>),
      po_prepare_wait = pthread_prepare_wait cl,
      po_cancel_wait = pthread_cancel_wait cl,
      po_wait_signal = \<lambda>_ t s. Some (on_proc (pthread_wait_signal env t) s),
      po_signal = \<lambda>n s. Some (pthread_signal env n s)\<rparr>"

section \<open>What a successful initialisation leaves\<close>

lemma create_keys_frame:
  "create_keys env ks p = (b, q) \<Longrightarrow> pp_threads q = pp_threads p \<and> pp_next_id q = pp_next_id p"
  by (induction ks arbitrary: p) (fastforce split: if_splits)+

lemma malloc_frame: "pthread_malloc env n p = (m, q) \<Longrightarrow> pp_threads q = pp_threads p \<and> pp_next_id q = pp_next_id p"
  by (auto simp: pthread_malloc_def)

lemma init_once_frame:
  "pp_threads (init_once env p) = pp_threads p" "pp_next_id (init_once env p) = pp_next_id p"
  using create_keys_frame by (auto simp: init_once_def keys_init_def Let_def split: prod.splits)

lemma store_keys_ok:
  assumes "store_keys env cl pid savedset old_act my_id p = (True, q)"
  shows "getspecific cl q = \<lparr>td_pid = pid, td_id = my_id, td_mask = savedset, td_act = old_act\<rparr> \<and>
    (\<forall>t. t \<noteq> c_tid cl \<longrightarrow> pp_threads q t = pp_threads p t) \<and> pp_next_id q = pp_next_id p \<and> set (pp_calls p) \<subseteq> set (pp_calls q)"
  using assms by (auto simp: store_keys_def setspecific_def getspecific_def Let_def split: if_splits)

lemma signal_setup_ok:
  assumes "signal_setup env cl savedset newset act old_act p = (0, q)"
  shows "(\<exists>pid. getspecific cl q = \<lparr>td_pid = pid, td_id = pp_next_id p, td_mask = savedset, td_act = old_act\<rparr>) \<and>
    (\<forall>t. t \<noteq> c_tid cl \<longrightarrow> pp_threads q t = pp_threads p t) \<and> pp_next_id q = pp_next_id p + 1 \<and>
    Sigaction act old_act \<in> set (pp_calls q) \<and> Pthread_sigmask Sig_block newset savedset \<in> set (pp_calls q)"
proof -
  define p1 where "p1 = (let p = init_once env p in p\<lparr>pp_next_id := pp_next_id p + 1,
    pp_calls := Gettid # Pthread_sigmask Sig_block newset savedset # Sigaction act old_act # pp_calls p\<rparr>)"
  have "\<exists>pid. store_keys env cl pid savedset old_act (pp_next_id p) p1 = (True, q)"
    using assms by (auto simp: signal_setup_def err_free_def err_action_def p1_def Let_def init_once_frame split: if_splits prod.splits)
  then show ?thesis using store_keys_ok [of env cl _ savedset old_act "pp_next_id p" p1 q]
    by (auto simp: p1_def Let_def init_once_frame)
qed

lemma signal_init_ok:
  assumes "pthread_local_signal_init env cl p = (0, q)"
  obtains savedset newset act old_act pid where "savedset \<noteq> 0" and "old_act \<noteq> 0"
    and "getspecific cl q = \<lparr>td_pid = pid, td_id = pp_next_id p, td_mask = savedset, td_act = old_act\<rparr>"
    and "\<forall>t. t \<noteq> c_tid cl \<longrightarrow> pp_threads q t = pp_threads p t" and "pp_next_id q = pp_next_id p + 1"
    and "Sigaction act old_act \<in> set (pp_calls q)" and "Pthread_sigmask Sig_block newset savedset \<in> set (pp_calls q)"
proof -
  have ne: "err_free env ms p \<noteq> (0, q)" for ms p by (simp add: err_free_def)
  obtain savedset p1 where m1: "pthread_malloc env (of_nat SIGSET_SIZE) p = (savedset, p1)" by fastforce
  obtain newset p2 where m2: "pthread_malloc env (of_nat SIGSET_SIZE) p1 = (newset, p2)" by fastforce
  obtain act p3 where m3: "pthread_malloc env (of_nat SIGACTION_SIZE) p2 = (act, p3)" by fastforce
  obtain old_act p4 where m4: "pthread_malloc env (of_nat SIGACTION_SIZE) p3 = (old_act, p4)" by fastforce
  have s: "signal_setup env cl savedset newset act old_act p4 = (0, q)" "savedset \<noteq> 0" "old_act \<noteq> 0"
    using assms ne by (auto simp: pthread_local_signal_init_def m1 m2 m3 m4 Let_def split: if_splits)
  have p4: "pp_next_id p4 = pp_next_id p" "pp_threads p4 = pp_threads p"
    using malloc_frame [OF m1] malloc_frame [OF m2] malloc_frame [OF m3] malloc_frame [OF m4] by simp_all
  from signal_setup_ok [OF s(1)] s(2,3) show ?thesis unfolding p4 by (elim exE conjE) (rule that)
qed

text \<open>
  A thread that ends its use of signals gives the system its two saved states the wrong way
  round: the saved mask where the old signal action is to be restored and the old
  action where the mask is. So after every successful initialisation neither is restored.
\<close>

theorem pthread_quit_swaps:
  assumes "pthread_local_signal_init env cl p = (0, q)"
  shows "\<exists>savedset newset act old_act. Sigaction act old_act \<in> set (pp_calls q) \<and> Pthread_sigmask Sig_block newset savedset \<in> set (pp_calls q) \<and>
    pp_calls (pthread_local_signal_quit env cl q) =
      Pthread_sigmask Sig_setmask old_act 0 # Sigaction savedset 0 # pp_calls q"
proof -
  obtain savedset newset act old_act pid where i: "savedset \<noteq> 0" "old_act \<noteq> 0"
    "getspecific cl q = \<lparr>td_pid = pid, td_id = pp_next_id p, td_mask = savedset, td_act = old_act\<rparr>"
    "Sigaction act old_act \<in> set (pp_calls q)" "Pthread_sigmask Sig_block newset savedset \<in> set (pp_calls q)"
    by (rule signal_init_ok [OF assms])
  have "pp_calls (pthread_local_signal_quit env cl q) = Pthread_sigmask Sig_setmask old_act 0 # Sigaction savedset 0 # pp_calls q"
    using i(1-3) by (simp add: pthread_local_signal_quit_def Let_def)
  with i(4,5) show ?thesis by (intro exI conjI)
qed

text \<open>
  Threads are numbered in the order of their initialisations, and a thread that waits stores
  its identifier in the slot of its number. The descriptor has 64 slots and the number is
  never compared with that: from the 65th thread of a process on, waiting writes past the end.
\<close>

theorem pthread_slots:
  assumes "pthread_local_signal_init env cl p = (0, q)" and "0 \<le> pp_next_id p"
    and "pv_proc s = q" and "port_sd s n = Some psd" and "length (pth_pids (sg_pthread_sd s psd)) = MAX_WAITERS"
    and "td_pid (getspecific cl q) \<noteq> 0"
  shows "pp_next_id q = pp_next_id p + 1 \<and> pthread_prepare_wait cl n s =
    (if pp_next_id p < 64
     then Some (0, s\<lparr>sg_pthread_sd := (sg_pthread_sd s)(psd :=
            \<lparr>pth_pids = (pth_pids (sg_pthread_sd s psd))[nat (pp_next_id p) := td_pid (getspecific cl q)]\<rparr>)\<rparr>)
     else None)"
proof -
  have "td_id (getspecific cl q) = pp_next_id p" "pp_next_id q = pp_next_id p + 1"
    by (rule signal_init_ok [OF assms(1)], simp)+
  then show ?thesis using assms(2-6)
    by (auto simp: pthread_prepare_wait_def set_pid_def Let_def MAX_WAITERS_def)
qed

section \<open>Examples\<close>

text \<open>A system that gives different addresses, no errors and thread identifiers.\<close>

definition demo_sys :: env where
  "demo_sys cs = (case cs of [] \<Rightarrow> \<lparr>sr_ret = 0, sr_errno = 0, sr_info = 0\<rparr>
    | c # cs \<Rightarrow> \<lparr>sr_ret = (case c of Malloc n \<Rightarrow> 1000 + int (length cs) | Gettid \<Rightarrow> 77 | _ \<Rightarrow> 0), sr_errno = 0, sr_info = 0\<rparr>)"

lemma demo_init:
  "\<exists>q. pthread_local_signal_init demo_sys cl p = (0, q) \<and> td_pid (getspecific cl q) = 77"
  if "pp_once p" "pp_is_init p"
  using that by (simp add: pthread_local_signal_init_def pthread_malloc_def signal_setup_def init_once_def store_keys_def
      setspecific_def demo_sys_def Let_def getspecific_def)

definition demo_proc :: "int \<Rightarrow> peer_proc" where
  "demo_proc k = new_proc\<lparr>pp_once := True, pp_is_init := True, pp_next_id := k\<rparr>"

theorem pthread_quit_swaps_witness:
  "\<exists>p q savedset newset act old_act. pthread_local_signal_init demo_sys (demo_caller 1) p = (0, q) \<and>
     Sigaction act old_act \<in> set (pp_calls q) \<and> Pthread_sigmask Sig_block newset savedset \<in> set (pp_calls q) \<and>
     pp_calls (pthread_local_signal_quit demo_sys (demo_caller 1) q) =
       Pthread_sigmask Sig_setmask old_act 0 # Sigaction savedset 0 # pp_calls q"
proof -
  obtain q where "pthread_local_signal_init demo_sys (demo_caller 1) (demo_proc 0) = (0, q)"
    using demo_init [of "demo_proc 0" "demo_caller 1"] by (auto simp: demo_proc_def)
  then show ?thesis
    using pthread_quit_swaps [of demo_sys "demo_caller 1" "demo_proc 0" q]
    by (intro exI [of _ "demo_proc 0"] exI [of _ q]) simp
qed

theorem pthread_slots_witness:
  "\<exists>s :: xseg. pthread_prepare_wait (demo_caller 1) 1 s = None \<and> length (pth_pids (sg_pthread_sd s 4000)) = 64"
proof -
  obtain q where q: "pthread_local_signal_init demo_sys (demo_caller 1) (demo_proc 64) = (0, q)"
    "td_pid (getspecific (demo_caller 1) q) = 77"
    using demo_init [of "demo_proc 64" "demo_caller 1"] by (auto simp: demo_proc_def)
  define s where "s = demo_seg\<lparr>pv_proc := q\<rparr>"
  have s: "pv_proc s = q" "port_sd s 1 = Some 4000" "length (pth_pids (sg_pthread_sd s 4000)) = MAX_WAITERS"
    by (simp_all add: s_def port_sd_def Let_def xseg_get_port_def validate_port_def xseg_get_signal_desc_def)
      (simp_all add: demo_seg_simps)
  have "pp_next_id (demo_proc 64) = 64" by (simp add: demo_proc_def)
  with pthread_slots [OF q(1) _ s] q(2) s(3) show ?thesis by (auto simp: MAX_WAITERS_def)
qed

end
