(* ===== verification/Xposixfd.thy ===== *)
theory Xposixfd
  imports Xposix
begin

text \<open>
  The peer type of \<^verbatim>\<open>xseg_posixfd.c\<close>: a signal is a byte in a named pipe, whose name is the
  address of the descriptor in hexadecimal.
\<close>

section \<open>Names of pipes\<close>

definition POSIXFD_DIR :: string where "POSIXFD_DIR = ''/dev/shm/posixfd/''"
definition POSIXFD_DIR_LEN :: nat where "POSIXFD_DIR_LEN = 17"
definition POSIXFD_FILENAME_LEN :: nat where "POSIXFD_FILENAME_LEN = 2 * 8"
definition NUL :: char where "NUL = CHR 0x00"

definition get_hex :: "nat \<Rightarrow> char" where
  "get_hex h = (if h < 10 then char_of (h + 48) else if h < 16 then ''abcdef'' ! (h - 10) else CHR ''0'')"

fun hexlify :: "8 word list \<Rightarrow> string" where
  "hexlify [] = []"
| "hexlify (b # bs) = get_hex (unat (drop_bit 4 (b AND 0xF0))) # get_hex (unat (b AND 0x0F)) # hexlify bs"

text \<open>The bytes of a pointer in memory, on a little-endian machine.\<close>

definition pointer_bytes :: "u64 \<Rightarrow> 8 word list" where
  "pointer_bytes w = map (\<lambda>i. ucast (drop_bit (8 * i) w)) [0..<8]"

text \<open>\<^verbatim>\<open>strncpy\<close> into a zero-terminated buffer, read as a string.\<close>

definition strncpy :: "nat \<Rightarrow> string \<Rightarrow> string" where
  "strncpy n str = takeWhile (\<lambda>c. c \<noteq> NUL) (take n str)"

definition get_filename :: "posixfd_signal_desc \<Rightarrow> string" where
  "get_filename psd = strncpy POSIXFD_DIR_LEN POSIXFD_DIR @ strncpy POSIXFD_FILENAME_LEN (fd_signal_file psd)"

section \<open>Descriptors\<close>

text \<open>The header of this peer type calls its magic number \<^verbatim>\<open>MAGIC_POSIX_SD\<close> too.\<close>

definition MAGIC_POSIXFD_SD :: nat where "MAGIC_POSIXFD_SD = 9"
definition POSIXFD_SD_SIZE :: nat where "POSIXFD_SD_SIZE = 24"

definition upd_sd :: "nat \<Rightarrow> (posixfd_signal_desc \<Rightarrow> posixfd_signal_desc) \<Rightarrow> xseg \<Rightarrow> xseg" where
  "upd_sd sd f s = s\<lparr>sg_posixfd_sd := (sg_posixfd_sd s)(sd := f (sg_posixfd_sd s sd))\<rparr>"

text \<open>The name is made of the address that the descriptor has in the calling process.\<close>

definition posixfd_init_signal_desc :: "nat \<Rightarrow> xseg \<Rightarrow> int \<times> xseg" where
  "posixfd_init_signal_desc sd s =
     (if sd = 0 then (-1, s)
      else (0, upd_sd sd (\<lambda>_. \<lparr>fd_signal_file = hexlify (pointer_bytes (of_nat (sg_segment s + sd))), fd_fd = -1, fd_flag = 0\<rparr>) s))"

definition posixfd_quit_signal_desc :: "nat \<Rightarrow> xseg \<Rightarrow> xseg" where
  "posixfd_quit_signal_desc sd s = s"

definition posixfd_alloc_data :: "(nat \<Rightarrow> u64 list) \<Rightarrow> caller \<Rightarrow> xseg \<Rightarrow> (nat \<times> xseg) option" where
  "posixfd_alloc_data junk cl s = xseg_get_objh junk cl MAGIC_POSIXFD_SD POSIXFD_SD_SIZE s"

definition posixfd_free_data :: "caller \<Rightarrow> nat \<Rightarrow> xseg \<Rightarrow> xseg option" where
  "posixfd_free_data cl data s = (if data \<noteq> 0 then xseg_put_objh cl data s else Some s)"

definition posixfd_alloc_signal_desc :: "(nat \<Rightarrow> u64 list) \<Rightarrow> caller \<Rightarrow> nat \<Rightarrow> xseg \<Rightarrow> (nat \<times> xseg) option" where
  "posixfd_alloc_signal_desc junk cl data s = (if data = 0 then Some (0, s) else sd_get junk cl data s)"

definition posixfd_free_signal_desc :: "caller \<Rightarrow> nat \<Rightarrow> nat \<Rightarrow> xseg \<Rightarrow> xseg option" where
  "posixfd_free_signal_desc cl data sd s =
     (if data = 0 then Some s else if sd \<noteq> 0 then sd_put cl data sd s else Some s)"

section \<open>Signals of a process\<close>

definition posixfd_local_signal_init :: "env \<Rightarrow> xport \<Rightarrow> xseg \<Rightarrow> int \<times> xseg" where
  "posixfd_local_signal_init env portno s =
     (case port_sd s portno of None \<Rightarrow> (-1, s)
      | Some psd \<Rightarrow>
          let name = get_filename (sg_posixfd_sd s psd);
              (r, s) = on_proc (sys env (Mkfifo name)) s in
          if sr_ret r < 0 \<and> sr_errno r \<noteq> EEXIST then (-1, s)
          else let (fd, s) = on_proc (sys_ret env (Open_rdwr name)) s in
            if fd < 0 then (-1, snd (on_proc (sys_ret env (Unlink name)) s))
            else (0, upd_sd psd (\<lambda>d. d\<lparr>fd_fd := fd\<rparr>) s))"

text \<open>Without a descriptor the code follows a null pointer.\<close>

definition posixfd_local_signal_quit :: "env \<Rightarrow> xport \<Rightarrow> xseg \<Rightarrow> xseg option" where
  "posixfd_local_signal_quit env portno s =
     (case port_sd s portno of None \<Rightarrow> None
      | Some psd \<Rightarrow>
          let fd = fd_fd (sg_posixfd_sd s psd);
              s = (if fd \<ge> 0 then upd_sd psd (\<lambda>d. d\<lparr>fd_fd := -1\<rparr>) (snd (on_proc (sys_ret env (Fclose fd)) s)) else s)
          in Some (snd (on_proc (sys_ret env (Unlink (get_filename (sg_posixfd_sd s psd)))) s)))"

text \<open>The directory of the pipes must have the set-group-ID bit.\<close>

definition S_IFMT :: u32 where "S_IFMT = 0xF000"
definition S_IFDIR :: u32 where "S_IFDIR = 0x4000"
definition S_ISGID :: u32 where "S_ISGID = 0x400"

definition posixfd_remote_signal_init :: "env \<Rightarrow> peer_proc \<Rightarrow> int \<times> peer_proc" where
  "posixfd_remote_signal_init env p =
     (let (r, p) = sys env (Stat POSIXFD_DIR) p; mode = of_int (sr_info r) :: u32 in
      if sr_ret r < 0 then (-1, p)
      else if mode AND S_IFMT \<noteq> S_IFDIR then (-1, p)
      else if mode AND S_ISGID \<noteq> 0 then (0, p)
      else let (r, p) = sys_ret env (Chmod POSIXFD_DIR (mode OR S_ISGID)) p in if r < 0 then (-1, p) else (0, p))"

section \<open>Waiting and signalling\<close>

text \<open>
  The loop that empties the pipe. The length is unsigned: an error (-1) counts as data.
\<close>

definition read_again :: "sysres \<Rightarrow> bool" where
  "read_again r \<longleftrightarrow> (let len = of_int (sr_ret r) :: u64 in len = - 1 \<and> sr_errno r = EINTR \<or> len = 512)"

definition read_value :: "sysres \<Rightarrow> int \<Rightarrow> int" where
  "read_value r v = (if (of_int (sr_ret r) :: u64) > 0 then v else -1)"

definition drain :: "env \<Rightarrow> int \<Rightarrow> peer_proc \<Rightarrow> (int \<times> peer_proc) option" where
  "drain env fd p = repeat_call env (Read fd) read_again read_value 0 p"

definition drain_sd :: "env \<Rightarrow> nat \<Rightarrow> xseg \<Rightarrow> (int \<times> xseg) option" where
  "drain_sd env psd s =
     do { (v, p) \<leftarrow> drain env (fd_fd (sg_posixfd_sd s psd)) (pv_proc s); Some (v, s\<lparr>pv_proc := p\<rparr>) }"

definition posixfd_prepare_wait :: "env \<Rightarrow> xport \<Rightarrow> xseg \<Rightarrow> (int \<times> xseg) option" where
  "posixfd_prepare_wait env portno s =
     (case port_sd s portno of None \<Rightarrow> Some (-1, s)
      | Some psd \<Rightarrow> drain_sd env psd (upd_sd psd (\<lambda>d. d\<lparr>fd_flag := 1\<rparr>) s))"

definition posixfd_cancel_wait :: "env \<Rightarrow> xport \<Rightarrow> xseg \<Rightarrow> (int \<times> xseg) option" where
  "posixfd_cancel_wait env portno s =
     (case port_sd s portno of None \<Rightarrow> Some (-1, s)
      | Some psd \<Rightarrow> drain_sd env psd (upd_sd psd (\<lambda>d. d\<lparr>fd_flag := 0\<rparr>) s))"

definition timeval :: "u32 \<Rightarrow> nat \<times> nat" where
  "timeval usec = (let sec = unat usec div 1000000 in (sec, unat usec - sec * 1000000))"

definition posixfd_wait_signal :: "env \<Rightarrow> nat \<Rightarrow> u32 \<Rightarrow> xseg \<Rightarrow> (int \<times> xseg) option" where
  "posixfd_wait_signal env sd usec_timeout s =
     (if sd = 0 then Some (-1, s)
      else
        let (sec, usec) = timeval usec_timeout;
            (r, s) = on_proc (sys env (Select (fd_fd (sg_posixfd_sd s sd)) sec usec)) s in
        if sr_ret r < 0 then Some (if sr_errno r \<noteq> EINTR then -1 else 0, s)
        else if sr_ret r \<noteq> 0 then drain_sd env sd s
        else Some (0, s))"

definition write_again :: "sysres \<Rightarrow> bool" where
  "write_again r \<longleftrightarrow> sr_ret r < 0 \<and> sr_errno r = EINTR"

definition posixfd_signal :: "env \<Rightarrow> xport \<Rightarrow> xseg \<Rightarrow> (int \<times> xseg) option" where
  "posixfd_signal env portno s =
     (case port_sd s portno of None \<Rightarrow> Some (-1, s)
      | Some psd \<Rightarrow>
          let d = sg_posixfd_sd s psd in
          if fd_flag d = 0 then Some (0, s)
          else let (fd, p) = sys_ret env (Open_wronly (get_filename d)) (pv_proc s) in
            if fd < 0 then Some (-1, s\<lparr>pv_proc := p\<rparr>)
            else do {
              (r, p) \<leftarrow> repeat_call env (Write fd) write_again (\<lambda>r _. sr_ret r) 0 p;
              Some (if r < 0 then -1 else 0, s\<lparr>pv_proc := sys_do env (Fclose fd) p\<rparr>) })"

definition posixfd_malloc :: "env \<Rightarrow> u64 \<Rightarrow> peer_proc \<Rightarrow> int \<times> peer_proc" where
  "posixfd_malloc env sz p = sys_ret env (Malloc (unat sz)) p"

definition posixfd_realloc :: "env \<Rightarrow> nat \<Rightarrow> u64 \<Rightarrow> peer_proc \<Rightarrow> int \<times> peer_proc" where
  "posixfd_realloc env mem sz p = sys_ret env (Realloc mem (unat sz)) p"

definition posixfd_mfree :: "env \<Rightarrow> nat \<Rightarrow> peer_proc \<Rightarrow> peer_proc" where
  "posixfd_mfree env mem p = sys_do env (Mfree mem) p"

definition posixfd_ops :: "env \<Rightarrow> (nat \<Rightarrow> u64 list) \<Rightarrow> caller \<Rightarrow> peer_ops" where
  "posixfd_ops env junk cl =
     \<lparr>po_init_signal_desc = \<lambda>sd s. Some (posixfd_init_signal_desc sd s),
      po_alloc_data = posixfd_alloc_data junk cl,
      po_alloc_signal_desc = posixfd_alloc_signal_desc junk cl,
      po_free_signal_desc = posixfd_free_signal_desc cl,
      po_local_signal_init = \<lambda>n s. Some (posixfd_local_signal_init env n s),
      po_local_signal_quit = posixfd_local_signal_quit env,
      po_prepare_wait = posixfd_prepare_wait env,
      po_cancel_wait = posixfd_cancel_wait env,
      po_wait_signal = posixfd_wait_signal env,
      po_signal = posixfd_signal env\<rparr>"

section \<open>The names of pipes are different\<close>

definition hex_digits :: string where "hex_digits = ''0123456789abcdef''"

lemma get_hex_nth: "h < 16 \<Longrightarrow> get_hex h = hex_digits ! h"
proof -
  have "\<forall>h\<in>set [0..<16]. get_hex h = hex_digits ! h" by code_simp
  then show "h < 16 \<Longrightarrow> get_hex h = hex_digits ! h" by simp
qed

lemma hex_digits_ok: "distinct hex_digits" "length hex_digits = 16" "NUL \<notin> set hex_digits"
  by (simp_all add: hex_digits_def NUL_def)

lemma get_hex_inj: "i < 16 \<Longrightarrow> j < 16 \<Longrightarrow> get_hex i = get_hex j \<Longrightarrow> i = j"
  by (simp add: get_hex_nth hex_digits_ok nth_eq_iff_index_eq)

text \<open>The two halves of a byte.\<close>

lemma byte_bound: "unat (b :: 8 word) div 16 < 16" "unat b mod 16 < 16"
proof -
  have "unat b < 2 ^ LENGTH(8)" by (rule unsigned_less)
  then show "unat b div 16 < 16" by (simp add: div_less_iff_less_mult)
qed simp

lemma nibbles:
  fixes b :: "8 word"
  shows "unat (drop_bit 4 (b AND 0xF0)) = unat b div 16" and "unat (b AND 0x0F) = unat b mod 16"
proof -
  have m: "(0x0F :: 8 word) = mask 4" by (simp add: mask_eq_exp_minus_1)
  have low: "unat (c AND 0x0F) = unat c mod 16" for c :: "8 word"
    unfolding m by (simp only: take_bit_eq_mask [symmetric] unsigned_take_bit_eq) (simp add: take_bit_eq_mod)
  then show "unat (b AND 0x0F) = unat b mod 16" .
  have "drop_bit 4 (b AND 0xF0) = drop_bit 4 b AND 0x0F" by (simp add: drop_bit_and)
  then have "unat (drop_bit 4 (b AND 0xF0)) = unat (drop_bit 4 b) mod 16" by (simp only: low)
  also have "unat (drop_bit 4 b) = unat b div 16" by (simp only: unat_drop_bit_eq) (simp add: drop_bit_eq_div)
  finally show "unat (drop_bit 4 (b AND 0xF0)) = unat b div 16" using byte_bound(1) by simp
qed

lemma hexlify_inj: "hexlify bs = hexlify cs \<Longrightarrow> bs = cs"
proof (induction bs arbitrary: cs)
  case Nil
  then show ?case by (cases cs) simp_all
next
  case (Cons b bs)
  from Cons.prems obtain c ds where cs: "cs = c # ds" by (cases cs) simp_all
  with Cons.prems have h: "get_hex (unat b div 16) = get_hex (unat c div 16)" "get_hex (unat b mod 16) = get_hex (unat c mod 16)"
    "hexlify bs = hexlify ds" by (simp_all only: hexlify.simps list.inject nibbles)
  then have "unat b div 16 = unat c div 16" "unat b mod 16 = unat c mod 16" by (blast intro: get_hex_inj byte_bound)+
  then have "unat b = unat c" by (metis div_mult_mod_eq)
  then show ?case using cs Cons.IH [OF h(3)] by (simp add: word_unat_eq_iff)
qed

lemma hexlify_set: "set (hexlify bs) \<subseteq> set hex_digits"
  by (induction bs) (simp_all add: nibbles get_hex_nth byte_bound hex_digits_ok(2))

lemma length_hexlify [simp]: "length (hexlify bs) = 2 * length bs"
  by (induction bs) simp_all

lemma pointer_bytes_inj: "pointer_bytes v = pointer_bytes w \<Longrightarrow> v = w"
proof (rule bit_word_eqI)
  fix n assume e: "pointer_bytes v = pointer_bytes w" and "n < LENGTH(64)"
  then have n: "n div 8 < 8" by simp
  have "pointer_bytes x ! (n div 8) = ucast (drop_bit (8 * (n div 8)) x)" for x
    using n by (simp add: pointer_bytes_def del: upt_Suc)
  with e have "(ucast (drop_bit (8 * (n div 8)) v) :: 8 word) = ucast (drop_bit (8 * (n div 8)) w)" by metis
  then have "bit (ucast (drop_bit (8 * (n div 8)) v) :: 8 word) (n mod 8) = bit (ucast (drop_bit (8 * (n div 8)) w) :: 8 word) (n mod 8)"
    by simp
  then show "bit v n = bit w n" by (simp add: bit_simps)
qed

lemma file_name:
  "get_filename \<lparr>fd_signal_file = hexlify (pointer_bytes w), fd_fd = fd, fd_flag = flag\<rparr> = POSIXFD_DIR @ hexlify (pointer_bytes w)"
proof -
  have l: "length (hexlify (pointer_bytes w)) = POSIXFD_FILENAME_LEN"
    by (simp add: pointer_bytes_def POSIXFD_FILENAME_LEN_def)
  have "\<forall>c\<in>set (hexlify (pointer_bytes w)). c \<noteq> NUL" using hexlify_set hex_digits_ok(3) by blast
  moreover have "strncpy POSIXFD_DIR_LEN POSIXFD_DIR = POSIXFD_DIR"
    by (simp add: strncpy_def POSIXFD_DIR_LEN_def POSIXFD_DIR_def NUL_def)
  ultimately show ?thesis using l by (simp add: get_filename_def strncpy_def takeWhile_eq_all_conv)
qed


text \<open>
  Emptying the pipe returns if and only if some read gives less than a full buffer and was not
  interrupted. Then the reads end with the first such one, and the result is an error
  exactly if one of them returned 0: a read that fails does not count.
\<close>

theorem drain_ends:
  "(drain env fd p \<noteq> None \<longleftrightarrow> (\<exists>n. \<not> read_again (nth_result env (Read fd) (pp_calls p) n))) \<and>
   (\<forall>v q. drain env fd p = Some (v, q) \<longrightarrow>
      (\<exists>n. (\<forall>i<n. read_again (nth_result env (Read fd) (pp_calls p) i)) \<and>
         \<not> read_again (nth_result env (Read fd) (pp_calls p) n) \<and>
         q = p\<lparr>pp_calls := replicate (Suc n) (Read fd) @ pp_calls p\<rparr> \<and>
         v = (if \<exists>i\<le>n. (of_int (sr_ret (nth_result env (Read fd) (pp_calls p) i)) :: u64) = 0 then -1 else 0)))"
proof -
  define g where "g = nth_result env (Read fd) (pp_calls p)"
  have f: "fold read_value (map g [0..<Suc n]) v = (if \<exists>i\<le>n. (of_int (sr_ret (g i)) :: u64) = 0 then -1 else v)" for n v
    by (induction n) (auto simp: read_value_def word_gt_0 le_Suc_eq)
  have e: "drain env fd p = Some (if \<exists>i\<le>n. (of_int (sr_ret (g i)) :: u64) = 0 then -1 else 0,
      p\<lparr>pp_calls := replicate (Suc n) (Read fd) @ pp_calls p\<rparr>)"
    if "\<not> read_again (g n)" "\<forall>i<n. read_again (g i)" for n
    using repeat_call_ends [of read_again env "Read fd" p n read_value 0] that f [of n 0]
    unfolding g_def drain_def by (simp del: upt_Suc)
  have ex: "\<exists>n. \<not> read_again (g n)" if "drain env fd p = Some y" for y
    using repeat_call_some [of env "Read fd" read_again read_value 0 p y] that by (simp add: drain_def g_def)
  have "\<exists>n. \<not> read_again (g n) \<and> (\<forall>i<n. read_again (g i))" if "\<exists>n. \<not> read_again (g n)"
    using that first_final [of read_again g] by blast
  with e ex show ?thesis unfolding g_def [symmetric] by (auto 4 4)
qed

section \<open>Examples\<close>

text \<open>A pipe with a full buffer and 100 bytes more.\<close>

definition demo_pipe :: env where
  "demo_pipe cs = \<lparr>sr_ret = (if length cs \<le> 1 then 512 else 100), sr_errno = 0, sr_info = 0\<rparr>"

theorem drain_ends_witness:
  "drain demo_pipe 5 new_proc = Some (0, new_proc\<lparr>pp_calls := [Read 5, Read 5]\<rparr>)"
proof -
  have p: "pp_calls new_proc = []" by (simp add: new_proc_def)
  have g: "nth_result demo_pipe (Read 5) [] n = \<lparr>sr_ret = (if n = 0 then 512 else 100), sr_errno = 0, sr_info = 0\<rparr>" for n
    by (simp add: nth_result_def demo_pipe_def)
  have a: "read_again (nth_result demo_pipe (Read 5) [] n) \<longleftrightarrow> n = 0" for n
    by (simp add: g read_again_def Let_def)
  have "drain demo_pipe 5 new_proc \<noteq> None" using drain_ends [of demo_pipe 5 new_proc] by (auto simp: p a)
  then obtain v q where d: "drain demo_pipe 5 new_proc = Some (v, q)" by auto
  with drain_ends [of demo_pipe 5 new_proc] obtain n where
    "\<forall>i<n. read_again (nth_result demo_pipe (Read 5) [] i)" "\<not> read_again (nth_result demo_pipe (Read 5) [] n)"
    and q: "q = new_proc\<lparr>pp_calls := replicate (Suc n) (Read 5)\<rparr>"
    and v: "v = (if \<exists>i\<le>n. (of_int (sr_ret (nth_result demo_pipe (Read 5) [] i)) :: u64) = 0 then -1 else 0)"
    by (auto simp: p)
  then have n: "\<forall>i<n. i = 0" "n \<noteq> 0" unfolding a by simp_all
  then have "\<not> 1 < n" by (metis zero_neq_one)
  then have n1: "n = 1" using n(2) by linarith
  have "v = 0" unfolding v n1 by (simp add: g)
  moreover have "q = new_proc\<lparr>pp_calls := [Read 5, Read 5]\<rparr>" unfolding q n1 by (simp add: numeral_2_eq_2)
  ultimately show ?thesis using d by simp
qed


end
