(* ===== verification/Xdrivers.thy ===== *)
theory Xdrivers
  imports Xpthread Xposixfd Xbind
begin

text \<open>
  What the rest of the library expects of a peer type: that its operations leave the table of
  ports alone, and that a signal to a port reaches the system exactly if somebody has
  prepared to wait there. Both contracts are locales, which the three peer types fulfil.
\<close>

section \<open>Peer types and the table of ports\<close>

locale port_driver =
  fixes ops :: peer_ops
  assumes alloc_data_table: "po_alloc_data ops s = Some (a, s') \<Longrightarrow> same_table s s'"
    and alloc_sd_table: "po_alloc_signal_desc ops d s = Some (a, s') \<Longrightarrow> same_table s s'"
    and init_sd_table: "po_init_signal_desc ops a s = Some (r, s') \<Longrightarrow> same_table s s'"
    and free_sd_table: "po_free_signal_desc ops d a s = Some s' \<Longrightarrow> same_table s s'"
begin

lemma ops_ok_single: "ops_ok (\<lambda>_. ops)"
  unfolding ops_ok_def using alloc_data_table alloc_sd_table init_sd_table free_sd_table by blast

end

lemma objh_parts:
  "put_objh cl p s = Some s' \<Longrightarrow> same_table s s'" "get_objh junk cl s = Some (p, s') \<Longrightarrow> same_table s s'"
  "init_objh junk cl magic sz h s = Some (r, h', s') \<Longrightarrow> same_table s s'"
  by (auto simp: put_objh_def get_objh_def init_objh_def same_table_def split: bind_splits)

lemma get_objh_table: "xseg_get_objh junk cl magic sz s = Some (p, s') \<Longrightarrow> same_table s s'"
  unfolding xseg_get_objh_def Let_def
  by (auto simp: same_table_def dest!: objh_parts [unfolded same_table_def] split: bind_splits if_splits)

lemma sd_table:
  "sd_get junk cl d s = Some (a, s') \<Longrightarrow> same_table s s'" "sd_put cl d a s = Some s' \<Longrightarrow> same_table s s'"
  by (auto simp: sd_get_def sd_put_def same_table_def split: bind_splits)

lemma upd_sd_table [simp]:
  "same_table s (set_waitcue d c s') = same_table s s'" "same_table s (clear_pids d s') = same_table s s'"
  "same_table s (upd_sd d f s') = same_table s s'"
  by (simp_all add: same_table_def set_waitcue_def clear_pids_def upd_sd_def)

interpretation posix_table: port_driver "posix_ops env junk cl" for env junk cl
  by unfold_locales
    (auto simp: posix_ops_def posix_alloc_data_def posix_alloc_signal_desc_def posix_init_signal_desc_def posix_free_signal_desc_def
      dest!: get_objh_table sd_table split: bind_splits if_splits)

interpretation pthread_table: port_driver "pthread_ops env junk cl" for env junk cl
  by unfold_locales
    (auto simp: pthread_ops_def pthread_alloc_data_def pthread_alloc_signal_desc_def pthread_init_signal_desc_def
      pthread_free_signal_desc_def dest!: get_objh_table sd_table split: bind_splits if_splits)

interpretation posixfd_table: port_driver "posixfd_ops env junk cl" for env junk cl
  by unfold_locales
    (auto simp: posixfd_ops_def posixfd_alloc_data_def posixfd_alloc_signal_desc_def posixfd_init_signal_desc_def
      posixfd_free_signal_desc_def dest!: get_objh_table sd_table split: bind_splits if_splits)

section \<open>Waiting and signalling\<close>

text \<open>What threads do at ports, and its effect: for every signal, whether the system was called.\<close>

datatype event = Prepare caller xport | Cancel caller xport | Signal caller xport

fun event_act :: "(caller \<Rightarrow> peer_ops) \<Rightarrow> event \<Rightarrow> xseg \<Rightarrow> (bool list \<times> xseg) option" where
  "event_act ops (Prepare c n) s = do { (r, s) \<leftarrow> po_prepare_wait (ops c) n s; Some ([], s) }"
| "event_act ops (Cancel c n) s = do { (r, s) \<leftarrow> po_cancel_wait (ops c) n s; Some ([], s) }"
| "event_act ops (Signal c n) s =
     do { (r, t) \<leftarrow> po_signal (ops c) n s; Some ([pp_calls (pv_proc t) \<noteq> pp_calls (pv_proc s)], t) }"

fun run_events :: "(caller \<Rightarrow> peer_ops) \<Rightarrow> event list \<Rightarrow> xseg \<Rightarrow> (bool list \<times> xseg) option" where
  "run_events ops [] s = Some ([], s)"
| "run_events ops (e # es) s =
     do { (b, s) \<leftarrow> event_act ops e s; (bs, s) \<leftarrow> run_events ops es s; Some (b @ bs, s) }"

text \<open>The specification: a set of waiting slots for every port.\<close>

fun spec_act :: "(caller \<Rightarrow> nat) \<Rightarrow> event \<Rightarrow> (xport \<Rightarrow> nat set) \<Rightarrow> bool list \<times> (xport \<Rightarrow> nat set)" where
  "spec_act slot_of (Prepare c n) W = ([], W(n := insert (slot_of c) (W n)))"
| "spec_act slot_of (Cancel c n) W = ([], W(n := W n - {slot_of c}))"
| "spec_act slot_of (Signal c n) W = ([W n \<noteq> {}], W)"

fun spec_events :: "(caller \<Rightarrow> nat) \<Rightarrow> event list \<Rightarrow> (xport \<Rightarrow> nat set) \<Rightarrow> bool list \<times> (xport \<Rightarrow> nat set)" where
  "spec_events slot_of [] W = ([], W)"
| "spec_events slot_of (e # es) W =
     (let (b, W) = spec_act slot_of e W; (bs, W) = spec_events slot_of es W in (b @ bs, W))"

fun event_at :: "event \<Rightarrow> caller \<times> xport" where
  "event_at (Prepare c n) = (c, n)"
| "event_at (Cancel c n) = (c, n)"
| "event_at (Signal c n) = (c, n)"

locale signalling =
  fixes ops :: "caller \<Rightarrow> peer_ops" and waiters :: "xseg \<Rightarrow> xport \<Rightarrow> nat set"
    and slot_of :: "xseg \<Rightarrow> caller \<Rightarrow> nat" and ready :: "xseg \<Rightarrow> caller \<Rightarrow> xport \<Rightarrow> bool"
  assumes prepare_law: "ready s c n \<Longrightarrow> po_prepare_wait (ops c) n s = Some (r, t) \<Longrightarrow>
      waiters t = (waiters s)(n := insert (slot_of s c) (waiters s n)) \<and> ready t = ready s \<and> slot_of t = slot_of s"
    and cancel_law: "ready s c n \<Longrightarrow> po_cancel_wait (ops c) n s = Some (r, t) \<Longrightarrow>
      waiters t = (waiters s)(n := waiters s n - {slot_of s c}) \<and> ready t = ready s \<and> slot_of t = slot_of s"
    and signal_law: "ready s c n \<Longrightarrow> po_signal (ops c) n s = Some (r, t) \<Longrightarrow>
      waiters t = waiters s \<and> ready t = ready s \<and> slot_of t = slot_of s \<and>
      (pp_calls (pv_proc t) \<noteq> pp_calls (pv_proc s) \<longleftrightarrow> waiters s n \<noteq> {})"
begin

lemma act_spec:
  assumes "ready s c n" and "event_at e = (c, n)" and "event_act ops e s = Some (b, t)"
  shows "spec_act (slot_of s) e (waiters s) = (b, waiters t) \<and> ready t = ready s \<and> slot_of t = slot_of s"
proof (cases e)
  case (Prepare c' n')
  with assms obtain r where r: "po_prepare_wait (ops c) n s = Some (r, t)" "b = []" by (auto split: bind_splits)
  from prepare_law [OF assms(1) r(1)] r(2) Prepare assms(2) show ?thesis by simp
next
  case (Cancel c' n')
  with assms obtain r where r: "po_cancel_wait (ops c) n s = Some (r, t)" "b = []" by (auto split: bind_splits)
  from cancel_law [OF assms(1) r(1)] r(2) Cancel assms(2) show ?thesis by simp
next
  case (Signal c' n')
  with assms obtain r where "po_signal (ops c) n s = Some (r, t)" "b = [pp_calls (pv_proc t) \<noteq> pp_calls (pv_proc s)]"
    by (auto split: bind_splits)
  with signal_law [OF assms(1)] Signal assms(2) show ?thesis by auto
qed

lemma run_spec:
  assumes "\<forall>e\<in>set es. ready s (fst (event_at e)) (snd (event_at e))" and "run_events ops es s = Some (bs, t)"
  shows "spec_events (slot_of s) es (waiters s) = (bs, waiters t)"
  using assms
proof (induction es arbitrary: s bs)
  case (Cons e es)
  from Cons.prems(2) obtain b s1 cs where s1: "event_act ops e s = Some (b, s1)" "run_events ops es s1 = Some (cs, t)" "bs = b @ cs"
    by (auto split: bind_splits)
  have "ready s (fst (event_at e)) (snd (event_at e))" using Cons.prems(1) by simp
  from act_spec [OF this _ s1(1)] have a: "spec_act (slot_of s) e (waiters s) = (b, waiters s1)" "ready s1 = ready s" "slot_of s1 = slot_of s"
    by simp_all
  have "spec_events (slot_of s1) es (waiters s1) = (cs, waiters t)"
    using Cons.prems(1) by (intro Cons.IH s1(2)) (simp add: a(2))
  then have "spec_events (slot_of s) es (waiters s1) = (cs, waiters t)" by (simp only: a(3))
  then show ?case by (simp add: a(1) s1(3))
qed simp

end

locale total_signalling = signalling +
  assumes returns: "ready s c n \<Longrightarrow> event_at e = (c, n) \<Longrightarrow> event_act ops e s \<noteq> None"
begin

lemma run_returns:
  assumes "\<forall>e\<in>set es. ready s (fst (event_at e)) (snd (event_at e))"
  shows "\<exists>bs t. run_events ops es s = Some (bs, t)"
  using assms
proof (induction es arbitrary: s)
  case (Cons e es)
  have r: "ready s (fst (event_at e)) (snd (event_at e))" using Cons.prems by simp
  from returns [OF r] obtain b s1 where b: "event_act ops e s = Some (b, s1)" by fastforce
  from act_spec [OF r _ b] have "ready s1 = ready s" by simp
  then obtain bs t where "run_events ops es s1 = Some (bs, t)" using Cons.IH [of s1] Cons.prems by auto
  with b show ?case by simp
qed simp

end

section \<open>The three peer types fulfil the contract\<close>

text \<open>A port with a signal descriptor of its own.\<close>

definition own_sd :: "xseg \<Rightarrow> xport \<Rightarrow> bool" where
  "own_sd s n \<longleftrightarrow> port_sd s n \<noteq> None \<and> (\<forall>m. port_sd s m = port_sd s n \<longrightarrow> m = n)"

lemma port_sd_upd [simp]:
  "port_sd (s\<lparr>pv_proc := p\<rparr>) = port_sd s" "port_sd (s\<lparr>sg_pthread_sd := a\<rparr>) = port_sd s"
  "port_sd (set_waitcue d c s) = port_sd s" "port_sd (upd_sd d f s) = port_sd s"
  by (rule ext, simp add: port_sd_def Let_def xseg_get_port_def validate_port_def xseg_get_signal_desc_def set_waitcue_def upd_sd_def)+

lemma own_sd_upd [simp]:
  "own_sd (s\<lparr>pv_proc := p\<rparr>) = own_sd s" "own_sd (s\<lparr>sg_pthread_sd := a\<rparr>) = own_sd s"
  "own_sd (set_waitcue d c s) = own_sd s" "own_sd (upd_sd d f s) = own_sd s"
  by (simp_all add: own_sd_def fun_eq_iff)

lemma proc_upd [simp]: "pv_proc (set_waitcue d c s) = pv_proc s" "pv_proc (upd_sd d f s) = pv_proc s"
  by (simp_all add: set_waitcue_def upd_sd_def)

text \<open>The waiters that a table \<open>W\<close> of descriptors gives a port, and the effect of a change of one descriptor.\<close>

definition sd_waiters :: "(nat \<Rightarrow> nat set) \<Rightarrow> xseg \<Rightarrow> xport \<Rightarrow> nat set" where
  "sd_waiters W s n = (case port_sd s n of None \<Rightarrow> {} | Some d \<Rightarrow> W d)"

lemma sd_waiters_upd:
  assumes "own_sd s n" and "port_sd s n = Some d" and "port_sd t = port_sd s" and "\<forall>x. x \<noteq> d \<longrightarrow> V x = W x"
  shows "sd_waiters V t = (sd_waiters W s)(n := V d)"
proof
  fix m show "sd_waiters V t m = ((sd_waiters W s)(n := V d)) m"
  proof (cases "m = n")
    case True
    then show ?thesis by (simp add: sd_waiters_def assms(2,3))
  next
    case False
    have "port_sd s m = port_sd s n \<Longrightarrow> m = n" using assms(1) unfolding own_sd_def by blast
    with False assms(2) have "port_sd s m \<noteq> Some d" by metis
    with False assms(3,4) show ?thesis by (auto simp: sd_waiters_def split: option.splits)
  qed
qed

subsection \<open>posix\<close>

definition posix_waiters :: "xseg \<Rightarrow> xport \<Rightarrow> nat set" where
  "posix_waiters s = sd_waiters (\<lambda>d. if (ucast (ps_waitcue (sg_posix_sd s d)) :: pid_t) = 0 then {} else {0}) s"

definition posix_ready :: "xseg \<Rightarrow> caller \<Rightarrow> xport \<Rightarrow> bool" where
  "posix_ready s c n \<longleftrightarrow> own_sd s n \<and> pp_pid (pv_proc s) \<noteq> 0"

lemma pid_cue: "ucast (scast (pid :: pid_t) :: u64) = pid"
proof (rule bit_word_eqI)
  fix n assume "n < LENGTH(32)"
  then show "bit (ucast (scast pid :: u64) :: pid_t) n = bit pid n"
    by (cases "n = 31") (auto simp: bit_simps min_def)
qed

lemma posix_waitcue:
  assumes "own_sd s n" and "port_sd s n = Some d"
  shows "posix_waiters (set_waitcue d w s) = (posix_waiters s)(n := if (ucast w :: pid_t) = 0 then {} else {0})"
proof -
  have "posix_waiters (set_waitcue d w s) = (posix_waiters s)
    (n := if (ucast (ps_waitcue (sg_posix_sd (set_waitcue d w s) d)) :: pid_t) = 0 then {} else {0})"
    unfolding posix_waiters_def by (rule sd_waiters_upd [OF assms port_sd_upd(3)]) (simp add: set_waitcue_def)
  then show ?thesis by (simp add: set_waitcue_def)
qed

lemma posix_waiters_cases: "posix_waiters s n \<subseteq> {0}"
  by (auto simp: posix_waiters_def sd_waiters_def split: option.splits if_splits)

lemma posix_ready_upd [simp]:
  "posix_ready (set_waitcue d w s) = posix_ready s" "pp_pid p = pp_pid (pv_proc s) \<Longrightarrow> posix_ready (s\<lparr>pv_proc := p\<rparr>) = posix_ready s"
  by (simp_all add: posix_ready_def fun_eq_iff)

interpretation posix: total_signalling "posix_ops env junk" posix_waiters "\<lambda>s c. 0" posix_ready for env junk
proof unfold_locales
  fix s c n r and t :: xseg
  assume rdy: "posix_ready s c n"
  then obtain d where d: "port_sd s n = Some d" "own_sd s n" "pp_pid (pv_proc s) \<noteq> 0"
    by (auto simp: posix_ready_def own_sd_def)
  note w = posix_waitcue [OF d(2,1)]
  have sub: "insert 0 (posix_waiters s n) = {0}" "posix_waiters s n - {0} = {}" using posix_waiters_cases [of s n] by blast+
  {
    assume "po_prepare_wait (posix_ops env junk c) n s = Some (r, t)"
    then have t: "t = set_waitcue d (scast (pp_pid (pv_proc s))) s" by (simp add: posix_ops_def posix_prepare_wait_def d)
    show "posix_waiters t = (posix_waiters s)(n := insert 0 (posix_waiters s n)) \<and> posix_ready t = posix_ready s \<and> (\<lambda>c. 0 :: nat) = (\<lambda>c. 0)"
      by (simp add: t w pid_cue d(3) sub)
  next
    assume "po_cancel_wait (posix_ops env junk c) n s = Some (r, t)"
    then have t: "t = set_waitcue d 0 s" by (simp add: posix_ops_def posix_cancel_wait_def d)
    show "posix_waiters t = (posix_waiters s)(n := posix_waiters s n - {0}) \<and> posix_ready t = posix_ready s \<and> (\<lambda>c. 0 :: nat) = (\<lambda>c. 0)"
      by (simp add: t w sub)
  next
    assume a: "po_signal (posix_ops env junk c) n s = Some (r, t)"
    let ?cue = "ucast (ps_waitcue (sg_posix_sd s d)) :: pid_t"
    have t: "t = (if ?cue = 0 then s else s\<lparr>pv_proc := (pv_proc s)\<lparr>pp_calls := Tkill ?cue # pp_calls (pv_proc s)\<rparr>\<rparr>)"
      using a by (simp add: posix_ops_def posix_signal_def d on_proc_def Let_def split: if_splits)
    have "posix_waiters (s\<lparr>pv_proc := p\<rparr>) = posix_waiters s" for p
      by (simp add: posix_waiters_def sd_waiters_def fun_eq_iff)
    moreover have "posix_waiters s n = (if ?cue = 0 then {} else {0})" by (simp add: posix_waiters_def sd_waiters_def d)
    ultimately show "posix_waiters t = posix_waiters s \<and> posix_ready t = posix_ready s \<and> (\<lambda>c. 0 :: nat) = (\<lambda>c. 0) \<and>
      (pp_calls (pv_proc t) \<noteq> pp_calls (pv_proc s)) = (posix_waiters s n \<noteq> {})" by (simp add: t)
  next
    fix e assume "event_at e = (c, n)"
    then show "event_act (posix_ops env junk) e s \<noteq> None"
      by (cases e) (auto simp: posix_ops_def split: bind_splits prod.splits)
  }
qed


subsection \<open>pthread\<close>

definition pid_slots :: "pid_t list \<Rightarrow> nat set" where
  "pid_slots pids = {i. i < length pids \<and> pids ! i \<noteq> 0}"

definition pthread_waiters :: "xseg \<Rightarrow> xport \<Rightarrow> nat set" where
  "pthread_waiters s = sd_waiters (\<lambda>d. pid_slots (pth_pids (sg_pthread_sd s d))) s"

definition pthread_slot :: "xseg \<Rightarrow> caller \<Rightarrow> nat" where
  "pthread_slot s c = nat (td_id (getspecific c (pv_proc s)))"

text \<open>The thread is one of the first 64 that were initialised.\<close>

definition pthread_ready :: "xseg \<Rightarrow> caller \<Rightarrow> xport \<Rightarrow> bool" where
  "pthread_ready s c n \<longleftrightarrow> own_sd s n \<and> td_pid (getspecific c (pv_proc s)) \<noteq> 0 \<and> pthread_slot s c < MAX_WAITERS \<and>
     (\<forall>d. length (pth_pids (sg_pthread_sd s d)) = MAX_WAITERS)"

lemma pid_slots_update:
  "i < length pids \<Longrightarrow> pid_slots (pids[i := x]) = (if x = 0 then pid_slots pids - {i} else insert i (pid_slots pids))"
  by (auto simp: pid_slots_def nth_list_update)

lemma pid_slots_empty: "pid_slots pids = {} \<longleftrightarrow> (\<forall>p\<in>set pids. p = 0)"
  by (auto simp: pid_slots_def all_set_conv_all_nth)

lemma signal_first_calls:
  "pp_threads (snd (signal_first env pids p)) = pp_threads p \<and>
   (pp_calls (snd (signal_first env pids p)) \<noteq> pp_calls p \<longleftrightarrow> pid_slots pids \<noteq> {})"
proof (induction pids)
  case (Cons x pids)
  then show ?case by (simp add: pid_slots_empty)
qed (simp add: pid_slots_empty)

lemma set_pid_eq:
  assumes "own_sd s n" and "port_sd s n = Some d" and "nat i < length (pth_pids (sg_pthread_sd s d))"
  shows "\<exists>t. set_pid d i pid s = Some t \<and> pv_proc t = pv_proc s \<and> port_sd t = port_sd s \<and>
    (\<forall>x. length (pth_pids (sg_pthread_sd t x)) = length (pth_pids (sg_pthread_sd s x))) \<and>
    pthread_waiters t = (pthread_waiters s)(n := if pid = 0 then pthread_waiters s n - {nat i} else insert (nat i) (pthread_waiters s n))"
proof -
  let ?p = "(pth_pids (sg_pthread_sd s d))[nat i := pid]"
  define t where "t = s\<lparr>sg_pthread_sd := (sg_pthread_sd s)(d := \<lparr>pth_pids = ?p\<rparr>)\<rparr>"
  have "pthread_waiters t = (pthread_waiters s)(n := pid_slots (pth_pids (sg_pthread_sd t d)))"
    unfolding pthread_waiters_def
    by (rule sd_waiters_upd [OF assms(1,2)]) (simp_all add: t_def)
  moreover have "pthread_waiters s n = pid_slots (pth_pids (sg_pthread_sd s d))"
    by (simp add: pthread_waiters_def sd_waiters_def assms(2))
  moreover have "pth_pids (sg_pthread_sd t d) = ?p" by (simp add: t_def)
  moreover have "set_pid d i pid s = Some t" using assms(3) by (simp add: set_pid_def t_def)
  ultimately show ?thesis
    using pid_slots_update [OF assms(3), of pid] by (intro exI [of _ t]) (simp add: t_def)
qed

lemma pthread_same:
  assumes "pv_proc t = pv_proc s" and "port_sd t = port_sd s"
    and "\<forall>x. length (pth_pids (sg_pthread_sd t x)) = length (pth_pids (sg_pthread_sd s x))"
  shows "pthread_ready t = pthread_ready s" and "pthread_slot t = pthread_slot s"
proof -
  show s: "pthread_slot t = pthread_slot s" by (simp add: pthread_slot_def fun_eq_iff assms(1))
  have "own_sd t = own_sd s" by (simp add: own_sd_def fun_eq_iff assms(2))
  then show "pthread_ready t = pthread_ready s" by (simp add: pthread_ready_def fun_eq_iff s assms(1,3))
qed

interpretation pthread: total_signalling "pthread_ops env junk" pthread_waiters pthread_slot pthread_ready for env junk
proof unfold_locales
  fix s c n r and t :: xseg
  assume rdy: "pthread_ready s c n"
  then obtain d where d: "port_sd s n = Some d" "own_sd s n" "td_pid (getspecific c (pv_proc s)) \<noteq> 0"
    and l: "nat (td_id (getspecific c (pv_proc s))) < length (pth_pids (sg_pthread_sd s d))"
    by (auto simp: pthread_ready_def own_sd_def pthread_slot_def)
  note sp = set_pid_eq [OF d(2,1) l]
  {
    assume "po_prepare_wait (pthread_ops env junk c) n s = Some (r, t)"
    then have "set_pid d (td_id (getspecific c (pv_proc s))) (td_pid (getspecific c (pv_proc s))) s = Some t"
      using d(3) by (auto simp: pthread_ops_def pthread_prepare_wait_def d(1) Let_def split: bind_splits)
    with sp [of "td_pid (getspecific c (pv_proc s))"] d(3) pthread_same [of t s]
    show "pthread_waiters t = (pthread_waiters s)(n := insert (pthread_slot s c) (pthread_waiters s n)) \<and>
        pthread_ready t = pthread_ready s \<and> pthread_slot t = pthread_slot s" by (auto simp: pthread_slot_def [of s c])
  next
    assume "po_cancel_wait (pthread_ops env junk c) n s = Some (r, t)"
    then have "set_pid d (td_id (getspecific c (pv_proc s))) 0 s = Some t"
      using d(3) by (auto simp: pthread_ops_def pthread_cancel_wait_def d(1) Let_def split: bind_splits)
    with sp [of 0] have f: "pv_proc t = pv_proc s" "port_sd t = port_sd s"
      "\<forall>x. length (pth_pids (sg_pthread_sd t x)) = length (pth_pids (sg_pthread_sd s x))"
      "pthread_waiters t = (pthread_waiters s)(n := pthread_waiters s n - {pthread_slot s c})"
      by (auto simp: pthread_slot_def [of s c])
    then show "pthread_waiters t = (pthread_waiters s)(n := pthread_waiters s n - {pthread_slot s c}) \<and>
        pthread_ready t = pthread_ready s \<and> pthread_slot t = pthread_slot s" using pthread_same [OF f(1-3)] by blast
  next
    assume a: "po_signal (pthread_ops env junk c) n s = Some (r, t)"
    define p where "p = snd (signal_first env (pth_pids (sg_pthread_sd s d)) (pv_proc s))"
    have "length (pth_pids (sg_pthread_sd s d)) = MAX_WAITERS" using rdy by (simp add: pthread_ready_def)
    then have t: "t = s\<lparr>pv_proc := p\<rparr>"
      using a by (auto simp: pthread_ops_def pthread_signal_def d(1) on_proc_def p_def Let_def split: prod.splits)
    have p: "pp_threads p = pp_threads (pv_proc s)"
      "pp_calls p \<noteq> pp_calls (pv_proc s) \<longleftrightarrow> pid_slots (pth_pids (sg_pthread_sd s d)) \<noteq> {}"
      unfolding p_def using signal_first_calls by blast+
    have "getspecific x p = getspecific x (pv_proc s)" for x by (simp add: getspecific_def p(1))
    then have sl: "pthread_slot t = pthread_slot s" and "pthread_ready t = pthread_ready s"
      by (simp_all add: t pthread_slot_def pthread_ready_def fun_eq_iff)
    moreover have "pthread_waiters t = pthread_waiters s" by (simp add: t pthread_waiters_def sd_waiters_def fun_eq_iff)
    moreover have "pthread_waiters s n = pid_slots (pth_pids (sg_pthread_sd s d))"
      by (simp add: pthread_waiters_def sd_waiters_def d(1))
    ultimately show "pthread_waiters t = pthread_waiters s \<and> pthread_ready t = pthread_ready s \<and> pthread_slot t = pthread_slot s \<and>
      (pp_calls (pv_proc t) \<noteq> pp_calls (pv_proc s)) = (pthread_waiters s n \<noteq> {})" using p(2) by (simp add: t)
  next
    fix e assume "event_at e = (c, n)"
    then show "event_act (pthread_ops env junk) e s \<noteq> None"
      using sp [of "td_pid (getspecific c (pv_proc s))"] sp [of 0] d(3)
      by (cases e) (auto simp: pthread_ops_def pthread_prepare_wait_def pthread_cancel_wait_def d(1) Let_def split: prod.splits)
  }
qed

subsection \<open>posixfd\<close>

definition fd_waiters :: "xseg \<Rightarrow> xport \<Rightarrow> nat set" where
  "fd_waiters s = sd_waiters (\<lambda>d. if fd_flag (sg_posixfd_sd s d) = 0 then {} else {0}) s"

lemma fd_flag_waiters:
  assumes "own_sd s n" and "port_sd s n = Some d"
  shows "fd_waiters (upd_sd d (\<lambda>x. x\<lparr>fd_flag := k\<rparr>) s) = (fd_waiters s)(n := if k = 0 then {} else {0})"
proof -
  let ?t = "upd_sd d (\<lambda>x. x\<lparr>fd_flag := k\<rparr>) s"
  have "fd_waiters ?t = (fd_waiters s)(n := if fd_flag (sg_posixfd_sd ?t d) = 0 then {} else {0})"
    unfolding fd_waiters_def by (rule sd_waiters_upd [OF assms port_sd_upd(4)]) (simp add: upd_sd_def)
  then show ?thesis by (simp add: upd_sd_def)
qed

lemma fd_waiters_proc [simp]: "fd_waiters (s\<lparr>pv_proc := p\<rparr>) = fd_waiters s"
  by (simp add: fd_waiters_def sd_waiters_def fun_eq_iff)

lemma fd_signal_calls:
  assumes "posixfd_signal env n s = Some (r, t)" and "port_sd s n = Some d"
  shows "\<exists>p. t = s\<lparr>pv_proc := p\<rparr> \<and> (pp_calls p \<noteq> pp_calls (pv_proc s) \<longleftrightarrow> fd_flag (sg_posixfd_sd s d) \<noteq> 0)"
proof (cases "fd_flag (sg_posixfd_sd s d) = 0")
  case True
  with assms show ?thesis by (intro exI [of _ "pv_proc s"]) (simp add: posixfd_signal_def)
next
  case False
  have ne: "x # replicate k y @ z # zs \<noteq> zs" "z # zs \<noteq> zs" for x y z :: syscall and k zs
    by (metis append_Cons append_same_eq append_self_conv2 list.distinct(1) not_Cons_self2) simp
  from assms False show ?thesis
    by (auto simp: posixfd_signal_def Let_def split: bind_splits if_splits dest!: repeat_call_calls)
qed

interpretation posixfd: signalling "posixfd_ops env junk" fd_waiters "\<lambda>s c. 0" "\<lambda>s c. own_sd s" for env junk
proof unfold_locales
  fix s n r and c :: caller and t :: xseg
  assume rdy: "own_sd s n"
  then obtain d where d: "port_sd s n = Some d" by (auto simp: own_sd_def)
  note w = fd_flag_waiters [OF rdy d]
  have "fd_waiters s n = {} \<or> fd_waiters s n = {0}" by (simp add: fd_waiters_def sd_waiters_def d)
  then have sub: "insert 0 (fd_waiters s n) = {0}" "fd_waiters s n - {0} = {}" by auto
  {
    assume "po_prepare_wait (posixfd_ops env junk c) n s = Some (r, t)"
    then obtain p where t: "t = (upd_sd d (\<lambda>x. x\<lparr>fd_flag := 1\<rparr>) s)\<lparr>pv_proc := p\<rparr>"
      by (auto simp: posixfd_ops_def posixfd_prepare_wait_def drain_sd_def d split: bind_splits)
    show "fd_waiters t = (fd_waiters s)(n := insert 0 (fd_waiters s n)) \<and> (\<lambda>c :: caller. own_sd t) = (\<lambda>c. own_sd s) \<and>
        (\<lambda>c :: caller. 0 :: nat) = (\<lambda>c. 0)" by (simp add: t w sub)
  next
    assume "po_cancel_wait (posixfd_ops env junk c) n s = Some (r, t)"
    then obtain p where t: "t = (upd_sd d (\<lambda>x. x\<lparr>fd_flag := 0\<rparr>) s)\<lparr>pv_proc := p\<rparr>"
      by (auto simp: posixfd_ops_def posixfd_cancel_wait_def drain_sd_def d split: bind_splits)
    show "fd_waiters t = (fd_waiters s)(n := fd_waiters s n - {0}) \<and> (\<lambda>c :: caller. own_sd t) = (\<lambda>c. own_sd s) \<and>
        (\<lambda>c :: caller. 0 :: nat) = (\<lambda>c. 0)" by (simp add: t w sub)
  next
    assume "po_signal (posixfd_ops env junk c) n s = Some (r, t)"
    then have "posixfd_signal env n s = Some (r, t)" by (simp add: posixfd_ops_def)
    from fd_signal_calls [OF this d] obtain p where p: "t = s\<lparr>pv_proc := p\<rparr>"
      "pp_calls p \<noteq> pp_calls (pv_proc s) \<longleftrightarrow> fd_flag (sg_posixfd_sd s d) \<noteq> 0" by blast
    moreover have "fd_waiters s n = (if fd_flag (sg_posixfd_sd s d) = 0 then {} else {0})"
      by (simp add: fd_waiters_def sd_waiters_def d)
    ultimately show "fd_waiters t = fd_waiters s \<and> (\<lambda>c :: caller. own_sd t) = (\<lambda>c. own_sd s) \<and> (\<lambda>c :: caller. 0 :: nat) = (\<lambda>c. 0) \<and>
      (pp_calls (pv_proc t) \<noteq> pp_calls (pv_proc s)) = (fd_waiters s n \<noteq> {})" by simp
  }
qed

section \<open>Properties\<close>

text \<open>
  C26. Whatever sequence of waiting, cancelling and signalling the threads of a process carry
  out at its ports, the pthread peer type behaves like a set of waiting threads per port: each step returns, a signal
  calls the system exactly if somebody waits there, and the slots in use are the waiting threads.
\<close>

theorem pthread_waiters_set:
  assumes "\<forall>e\<in>set es. pthread_ready s (fst (event_at e)) (snd (event_at e))"
  shows "\<exists>bs t. run_events (pthread_ops env junk) es s = Some (bs, t) \<and>
    spec_events (pthread_slot s) es (pthread_waiters s) = (bs, pthread_waiters t)"
  using pthread.run_returns [OF assms] pthread.run_spec [OF assms] by blast

text \<open>
  The two other peer types remember of the waiting threads only whether there is one: with one
  slot for all threads they meet the same specification, so a thread that stops waiting also
  stops the wake-up of the others. Of the posix peer type every step returns.
\<close>

theorem single_slot_waiters:
  assumes "\<forall>e\<in>set es. own_sd s (snd (event_at e))"
  shows "(pp_pid (pv_proc s) \<noteq> 0 \<longrightarrow> (\<exists>bs t. run_events (posix_ops env junk) es s = Some (bs, t) \<and>
      spec_events (\<lambda>c. 0) es (posix_waiters s) = (bs, posix_waiters t))) \<and>
    (\<forall>bs t. run_events (posixfd_ops env junk) es s = Some (bs, t) \<longrightarrow>
      spec_events (\<lambda>c. 0) es (fd_waiters s) = (bs, fd_waiters t))"
proof (intro conjI impI allI)
  assume "pp_pid (pv_proc s) \<noteq> 0"
  with assms have "\<forall>e\<in>set es. posix_ready s (fst (event_at e)) (snd (event_at e))" by (simp add: posix_ready_def)
  with posix.run_returns posix.run_spec show "\<exists>bs t. run_events (posix_ops env junk) es s = Some (bs, t) \<and>
      spec_events (\<lambda>c. 0) es (posix_waiters s) = (bs, posix_waiters t)" by blast
next
  fix bs t assume "run_events (posixfd_ops env junk) es s = Some (bs, t)"
  with assms posixfd.run_spec show "spec_events (\<lambda>c. 0) es (fd_waiters s) = (bs, fd_waiters t)" by blast
qed

section \<open>Examples\<close>

text \<open>Three ports with a descriptor each; thread \<open>i\<close> has the identifier \<open>i\<close>.\<close>

definition demo_threads :: xseg where
  "demo_threads = demo_seg\<lparr>sg_port_at := (\<lambda>p. (demo_port p)\<lparr>pt_signal_desc := p + 5\<rparr>),
     pv_proc := new_proc\<lparr>pp_pid := 99, pp_threads := (\<lambda>t. no_thread\<lparr>td_pid := t + 100, td_id := uint t\<rparr>)\<rparr>\<rparr>"

lemma demo_port_sd:
  "port_sd demo_threads n = (if n = 0 then Some 1005 else if n = 1 then Some 2005 else if n = 2 then Some 3005 else None)"
proof -
  have n: "n < 3 \<longleftrightarrow> n = 0 \<or> n = 1 \<or> n = 2" for n :: xport
  proof
    assume "n < 3"
    then have "unat n < 3" by (simp add: word_less_nat_alt)
    then have "unat n = 0 \<or> unat n = 1 \<or> unat n = 2" by linarith
    then show "n = 0 \<or> n = 1 \<or> n = 2" by (auto simp: word_unat_eq_iff)
  qed auto
  have f: "sg_config demo_threads = sg_config demo_seg" "cf_nr_ports (sg_config demo_seg) = 3" "sg_segment demo_threads = 65536"
    "sg_ports demo_threads = [1000, 2000, 3000]" "pt_signal_desc (sg_port_at demo_threads p) = p + 5" for p
    by (simp_all add: demo_threads_def) (simp_all add: demo_seg_def)
  show ?thesis
    by (auto simp: port_sd_def xseg_get_port_def validate_port_def xseg_get_signal_desc_def f n Let_def)
qed

lemma demo_own_sd: "n < 3 \<Longrightarrow> own_sd demo_threads (of_nat n)"
proof -
  have "own_sd demo_threads 0" "own_sd demo_threads 1" "own_sd demo_threads 2"
    by (simp_all add: own_sd_def demo_port_sd)
  then show "n < 3 \<Longrightarrow> own_sd demo_threads (of_nat n)" by (auto simp: less_Suc_eq numeral_3_eq_3)
qed

definition demo_events :: "event list" where
  "demo_events = [Prepare (demo_caller 1) 0, Prepare (demo_caller 2) 0, Cancel (demo_caller 1) 0,
     Signal (demo_caller 1) 0, Signal (demo_caller 1) 1]"

lemma demo_waiters:
  "pthread_waiters demo_threads n = {}" "posix_waiters demo_threads n = {}" "fd_waiters demo_threads n = {}"
  "pp_pid (pv_proc demo_threads) \<noteq> 0"
  by (simp_all add: pthread_waiters_def posix_waiters_def fd_waiters_def sd_waiters_def pid_slots_def demo_threads_def
      split: option.splits) (simp_all add: demo_seg_def)

lemma demo_slots:
  "pthread_slot demo_threads (demo_caller 1) = 1" "pthread_slot demo_threads (demo_caller 2) = 2"
  "pthread_ready demo_threads (demo_caller 1) 0" "pthread_ready demo_threads (demo_caller 2) 0" "pthread_ready demo_threads (demo_caller 1) 1"
  using demo_own_sd [of 0] demo_own_sd [of 1]
  by (simp_all add: pthread_ready_def pthread_slot_def getspecific_def demo_caller_def no_thread_def MAX_WAITERS_def)
    (simp_all add: demo_threads_def demo_seg_def MAX_WAITERS_def no_thread_def)

theorem pthread_waiters_set_witness:
  "\<exists>t. run_events (pthread_ops demo_sys (\<lambda>_. [])) demo_events demo_threads = Some ([True, False], t) \<and> pthread_waiters t 0 = {2}"
proof -
  have "\<forall>e\<in>set demo_events. pthread_ready demo_threads (fst (event_at e)) (snd (event_at e))"
    using demo_slots(3-5) by (simp add: demo_events_def)
  from pthread_waiters_set [OF this] obtain bs t where
    t: "run_events (pthread_ops demo_sys (\<lambda>_. [])) demo_events demo_threads = Some (bs, t)"
    "spec_events (pthread_slot demo_threads) demo_events (pthread_waiters demo_threads) = (bs, pthread_waiters t)" by blast
  have e: "{2, Suc 0} - {Suc 0} = {2}" by auto
  have "bs = [True, False]" and "pthread_waiters t = (pthread_waiters demo_threads)(0 := {2})"
    using t(2) demo_slots(1,2) by (auto simp: demo_events_def demo_waiters e Let_def)
  with t(1) show ?thesis by auto
qed

theorem single_slot_waiters_witness:
  "\<exists>t. run_events (posix_ops demo_sys (\<lambda>_. [])) demo_events demo_threads = Some ([False, False], t) \<and> posix_waiters t 0 = {}"
proof -
  have "\<forall>e\<in>set demo_events. own_sd demo_threads (snd (event_at e))"
    using demo_own_sd [of 0] demo_own_sd [of 1] by (simp add: demo_events_def)
  from single_slot_waiters [OF this] demo_waiters(4) obtain bs t where
    t: "run_events (posix_ops demo_sys (\<lambda>_. [])) demo_events demo_threads = Some (bs, t)"
    "spec_events (\<lambda>c. 0) demo_events (posix_waiters demo_threads) = (bs, posix_waiters t)" by blast
  have "bs = [False, False]" and "posix_waiters t = (posix_waiters demo_threads)(0 := {})"
    using t(2) by (auto simp: demo_events_def demo_waiters Let_def)
  with t(1) show ?thesis by auto
qed

text \<open>A process with the posix peer type at 77, and the pthread peer type for every other driver.\<close>

lemma drivers_ok: "(\<And>d. port_driver (drv d)) \<Longrightarrow> ops_ok drv"
  unfolding port_driver_def ops_ok_def by blast

definition demo_drivers :: drivers where
  "demo_drivers d = (if d = 77 then posix_ops demo_sys (\<lambda>_. []) (demo_caller 1) else pthread_ops demo_sys (\<lambda>_. []) (demo_caller 1))"

theorem bind_port_owned_witness:
  "\<exists>s'. xseg_bind_port (\<lambda>_. []) (\<lambda>_. ''posix'') demo_drivers (demo_caller 1) 9 1 4000 demo_seg = Some (2000, s') \<and>
     owned s' 9 1 2000 \<and> xseg_get_port s' 0 = 1000"
proof -
  define cl where "cl = demo_caller 1"
  define s1 where "s1 = demo_seg\<lparr>sg_segment_lock := \<lparr>lk_owner = caller_word cl, lk_pc = c_pc cl\<rparr>\<rparr>"
  have f: "sg_config s1 = sg_config demo_seg" "cf_dynports (sg_config demo_seg) = 2" "cf_nr_ports (sg_config demo_seg) = 3"
    "sg_ports s1 = [1000, 2000, 3000]" "sg_max_peer_types s1 = 2" "sg_nr_peer_types s1 = 1" "sg_peer_types s1 = [''posix'', '''']"
    "pv_peer_type s1 = 77" "pv_peer_type_data s1 = [9100, 0]" "pv_peer_types s1 = [77, 0]"
    by (simp_all add: s1_def demo_seg_def)
  have l: "lock_segment cl demo_seg = Some s1"
    by (simp add: lock_segment_def s1_def) (simp add: demo_seg_def)
  have e: "raw_enable_driver (\<lambda>_. ''posix'') demo_drivers 77 s1 = Some (0, note_driver 0 77 9100 s1)"
    by (simp add: raw_enable_driver_def f numeral_2_eq_2 strncmp_eq_def get_peer_type_data_def)
  obtain s2 where "bind_this (\<lambda>_. ''posix'') demo_drivers cl 9 4000 1 2000 s1 = Some (2000, s2)"
    using e by (simp add: bind_this_def f)
  then obtain s' where b: "xseg_bind_port (\<lambda>_. []) (\<lambda>_. ''posix'') demo_drivers cl 9 1 4000 demo_seg = Some (2000, s')"
    by (simp add: xseg_bind_port_def l f xseg_get_port_def validate_port_def word_le_nat_alt)
  have "ops_ok demo_drivers"
    by (rule drivers_ok) (simp add: demo_drivers_def posix_table.port_driver_axioms pthread_table.port_driver_axioms)
  moreover have "length (sg_ports demo_seg) = unat (cf_nr_ports (sg_config demo_seg))" by (simp add: demo_seg_def)
  moreover have d: "cf_dynports (sg_config demo_seg) = 2" "xseg_get_port demo_seg 0 = 1000"
    by (simp_all add: demo_seg_def xseg_get_port_def validate_port_def)
  ultimately show ?thesis using bind_port_owned [OF _ _ b] b unfolding cl_def by auto
qed

end
