(* ===== verification/Xtyped.thy ===== *)
theory Xtyped
  imports Xreqs
begin

text \<open>
  The types of a segment in use: its tables have an entry for every port, the queues of its
  ports are well formed and hold requests of the segment, and the paths of its requests
  are well formed and hold numbers of ports. The operations on requests keep these types, and
  return only requests of the segment.
\<close>

section \<open>The types\<close>

definition holds :: "u64 set \<Rightarrow> xq \<Rightarrow> bool" where
  "holds X q \<longleftrightarrow> q_wf q \<and> set (q_list q) \<subseteq> X"

definition port_numbers :: "xseg_config \<Rightarrow> u64 set" where
  "port_numbers c = {ucast n | n. (n :: xport) < cf_nr_ports c}"

definition path_typed :: "xseg_config \<Rightarrow> xq \<Rightarrow> bool" where
  "path_typed c q \<longleftrightarrow> holds (port_numbers c) q \<and> unat MAX_PATH_LEN \<le> length (q_mem q)"

definition port_queues :: "xseg_port \<Rightarrow> nat set" where
  "port_queues p = {pt_free_queue p, pt_request_queue p, pt_reply_queue p}"

definition queues :: "xseg \<Rightarrow> nat set" where
  "queues s = (\<Union>p\<in>set (sg_ports s) - {0}. port_queues (sg_port_at s p))"

definition tables_typed :: "xseg \<Rightarrow> bool" where
  "tables_typed s \<longleftrightarrow> (let n = unat (cf_nr_ports (sg_config s)) in
     length (sg_ports s) = n \<and> length (sg_path_next s) = n \<and> length (sg_dst_gw s) = n)"

definition typed :: "nat set \<Rightarrow> xseg \<Rightarrow> bool" where
  "typed R s \<longleftrightarrow> (\<forall>r\<in>R. req_ptr r) \<and> tables_typed s \<and> (\<forall>q\<in>queues s. holds (of_nat ` R) (sg_queue_at s q)) \<and>
     (\<forall>r\<in>R. path_typed (sg_config s) (rq_path (sg_req_at s r)))"

section \<open>Queues\<close>

lemma pop_holds:
  assumes "holds X q"
  shows "holds X (snd (raw_xq_pop_head q))" and "fst (raw_xq_pop_head q) \<noteq> Noneidx \<Longrightarrow> fst (raw_xq_pop_head q) \<in> X"
proof -
  have "holds X (snd (raw_xq_pop_head q)) \<and> (fst (raw_xq_pop_head q) \<noteq> Noneidx \<longrightarrow> fst (raw_xq_pop_head q) \<in> X)"
  proof (cases "xq_count q = 0")
    case True
    with assms show ?thesis by (simp add: pop_empty)
  next
    case False
    have wf: "q_wf q" and l: "set (q_list q) \<subseteq> X" using assms by (simp_all add: holds_def)
    have "q_list q \<noteq> []" using False by simp
    then have "last (q_list q) \<in> X" "set (butlast (q_list q)) \<subseteq> X" using l by (auto dest: in_set_butlastD)
    with pop_head_list [OF wf False] show ?thesis by (simp add: holds_def)
  qed
  then show "holds X (snd (raw_xq_pop_head q))" "fst (raw_xq_pop_head q) \<noteq> Noneidx \<Longrightarrow> fst (raw_xq_pop_head q) \<in> X" by blast+
qed

lemma append_holds:
  assumes "holds X q" and "x \<in> X"
  shows "holds X (snd (raw_xq_append_head q x))" and "holds X (snd (raw_xq_append_tail q x))"
proof -
  have wf: "q_wf q" and l: "set (q_list q) \<subseteq> X" using assms(1) by (simp_all add: holds_def)
  have "q_len q = q_cap q \<or> q_len q < q_cap q" using q_wf_len [OF wf] by linarith
  then have "holds X (snd (raw_xq_append_head q x)) \<and> holds X (snd (raw_xq_append_tail q x))"
  proof
    assume "q_len q = q_cap q"
    with assms(1) wf show ?thesis by (simp add: append_head_full append_tail_full)
  next
    assume "q_len q < q_cap q"
    with append_head_list [OF wf this] append_tail_list [OF wf this] l assms(2) show ?thesis by (simp add: holds_def)
  qed
  then show "holds X (snd (raw_xq_append_head q x))" "holds X (snd (raw_xq_append_tail q x))" by blast+
qed

lemma path_mem:
  "length (q_mem (snd (raw_xq_pop_head q))) = length (q_mem q)"
  "length (q_mem (snd (raw_xq_append_head q x))) = length (q_mem q)"
  by (simp_all add: raw_xq_pop_head_def raw_xq_pop_head_idx_def raw_xq_append_head_def raw_xq_append_head_idx_def q_store_def Let_def)

lemma path_ops:
  assumes "path_typed c q"
  shows "path_typed c (snd (raw_xq_pop_head q))"
    and "n < cf_nr_ports c \<Longrightarrow> path_typed c (snd (raw_xq_append_head q (ucast n)))"
    and "path_typed c (rq_path r) \<Longrightarrow> path_typed c (empty_path r)"
proof -
  show "path_typed c (snd (raw_xq_pop_head q))"
    using assms pop_holds(1) by (simp add: path_typed_def path_mem)
  show "n < cf_nr_ports c \<Longrightarrow> path_typed c (snd (raw_xq_append_head q (ucast n)))"
    using assms append_holds(1) [of "port_numbers c" q "ucast n"] by (auto simp: path_typed_def path_mem port_numbers_def)
  assume "path_typed c (rq_path r)"
  then have l: "unat MAX_PATH_LEN \<le> length (q_mem (rq_path r))" by (simp add: path_typed_def)
  have m: "0 < unat MAX_PATH_LEN" "unat MAX_PATH_LEN < 2 ^ 31" by (simp_all add: MAX_PATH_LEN_def)
  have "q_mem (empty_path r) = q_mem (rq_path r)" by (simp add: empty_path_def xq_init_empty_def Let_def)
  moreover have "q_wf (empty_path r)" "q_list (empty_path r) = []"
    unfolding empty_path_def by (rule init_empty_list(1,2) [OF m l])+
  then have "holds (port_numbers c) (empty_path r)" unfolding holds_def by (simp only: list.set empty_subsetI)
  ultimately show "path_typed c (empty_path r)" using l by (simp add: path_typed_def)
qed

lemma empty_path_typed: "path_typed c (rq_path r) \<Longrightarrow> path_typed c (empty_path r)"
  using path_ops(3) by blast

section \<open>What keeps the types\<close>

lemma typed_cong:
  assumes "sg_config t = sg_config s" and "sg_ports t = sg_ports s" and "sg_path_next t = sg_path_next s" and "sg_dst_gw t = sg_dst_gw s"
    and "\<And>p. port_queues (sg_port_at t p) = port_queues (sg_port_at s p)" and "sg_queue_at t = sg_queue_at s" and "sg_req_at t = sg_req_at s"
  shows "typed R t = typed R s"
  by (simp add: typed_def tables_typed_def queues_def assms)

lemma typed_simps [simp]:
  "typed R (s\<lparr>sg_heap := h\<rparr>) = typed R s" "typed R (s\<lparr>sg_request_h := rh\<rparr>) = typed R s"
  "typed R (s\<lparr>sg_request_h := rh, sg_heap := h\<rparr>) = typed R s"
  "typed R (s\<lparr>sg_segment_lock := l\<rparr>) = typed R s" "typed R (s\<lparr>sg_counters := k\<rparr>) = typed R s"
  by (rule typed_cong; simp)+

lemma typed_upd_port: "(\<And>p. port_queues (f p) = port_queues p) \<Longrightarrow> typed R (upd_port x f s) = typed R s"
  by (rule typed_cong) (simp_all add: upd_port_def)

lemma lock_queues [simp]:
  "port_queues (put_lock k l p) = port_queues p"
  "port_queues (p\<lparr>pt_fq_lock := l\<rparr>) = port_queues p" "port_queues (p\<lparr>pt_rq_lock := l\<rparr>) = port_queues p"
  "port_queues (p\<lparr>pt_pq_lock := l\<rparr>) = port_queues p" "port_queues (p\<lparr>pt_port_lock := l\<rparr>) = port_queues p"
  "port_queues (p\<lparr>pt_alloc_reqs := k'\<rparr>) = port_queues p"
  by (cases k) (simp_all add: port_queues_def)

lemma typed_locks [simp]:
  "typed R (release_port k p s) = typed R s" "typed R (unlock_segment s) = typed R s"
  by (simp_all add: release_port_def typed_upd_port unlock_segment_def)

lemma typed_set_queue:
  assumes "typed R s" and "holds (of_nat ` R) x"
  shows "typed R (set_queue q x s)"
proof -
  have "queues (set_queue q x s) = queues s" by (simp add: queues_def)
  then show ?thesis using assms by (simp add: typed_def tables_typed_def set_queue_def)
qed

lemma typed_upd_req:
  assumes "typed R s" and "r \<in> R \<Longrightarrow> path_typed (sg_config s) (rq_path (f (sg_req_at s r)))"
  shows "typed R (upd_req r f s)"
proof -
  have "queues (upd_req r f s) = queues s" by (simp add: queues_def)
  then show ?thesis using assms by (simp add: typed_def tables_typed_def upd_req_def)
qed

text \<open>An update of a request that leaves its path alone.\<close>

lemma typed_upd_req_same: "typed R s \<Longrightarrow> (\<And>x. rq_path (f x) = rq_path x) \<Longrightarrow> typed R (upd_req r f s)"
  by (rule typed_upd_req) (simp_all add: typed_def)

lemma typed_acquire:
  "acquire_port cl k p s = Some t \<Longrightarrow> \<exists>l. t = upd_port p (put_lock k l) s"
  "try_port cl flags k p s = Some (b, t) \<Longrightarrow> \<exists>l. t = upd_port p (put_lock k l) s"
  "lock_segment cl s = Some t \<Longrightarrow> \<exists>l. t = s\<lparr>sg_segment_lock := l\<rparr>"
  by (auto simp: acquire_port_def try_port_def lock_segment_def Let_def split: bind_splits if_splits prod.splits)

lemma typed_heap:
  "seg_alloc cl b s = Some (a, t) \<Longrightarrow> typed R t = typed R s" "seg_free cl a s = Some t \<Longrightarrow> typed R t = typed R s"
  "put_req_obj cl r s = Some t \<Longrightarrow> typed R t = typed R s"
  by (auto simp: seg_alloc_def seg_free_def put_req_obj_def split: bind_splits)

lemma queue_typed:
  assumes "typed R s" and "xseg_get_port s n = p" and "p \<noteq> 0"
  shows "holds (of_nat ` R) (sg_queue_at s (pt_free_queue (sg_port_at s p)))"
    and "holds (of_nat ` R) (sg_queue_at s (pt_request_queue (sg_port_at s p)))"
    and "holds (of_nat ` R) (sg_queue_at s (pt_reply_queue (sg_port_at s p)))"
proof -
  have v: "validate_port s n" "p = sg_ports s ! unat n" using assms(2,3) by (auto simp: xseg_get_port_def split: if_splits)
  then have "unat n < length (sg_ports s)"
    using assms(1) by (simp add: typed_def tables_typed_def Let_def validate_port_def word_less_nat_alt)
  then have "p \<in> set (sg_ports s)" using v(2) by simp
  then have "port_queues (sg_port_at s p) \<subseteq> queues s" using assms(3) by (auto simp: queues_def)
  then show "holds (of_nat ` R) (sg_queue_at s (pt_free_queue (sg_port_at s p)))"
    and "holds (of_nat ` R) (sg_queue_at s (pt_request_queue (sg_port_at s p)))"
    and "holds (of_nat ` R) (sg_queue_at s (pt_reply_queue (sg_port_at s p)))"
    using assms(1) by (auto simp: typed_def port_queues_def)
qed

lemma typed_request: "typed R s \<Longrightarrow> (w :: u64) \<in> of_nat ` R \<Longrightarrow> unat w \<in> R"
  by (auto simp: typed_def req_ptr_word(2))

lemma typed_path: "typed R s \<Longrightarrow> r \<in> R \<Longrightarrow> path_typed (sg_config s) (rq_path (sg_req_at s r))"
  by (simp add: typed_def)

text \<open>Taking a lock and the oldest entry of a queue, and releasing the lock.\<close>

lemma take_typed:
  assumes "typed R s" and "holds (of_nat ` R) (sg_queue_at s q)"
  shows "typed R (release_port k p (set_queue q (snd (raw_xq_pop_head (sg_queue_at s q))) (upd_port p (put_lock k l) s)))"
    and "fst (raw_xq_pop_head (sg_queue_at s q)) \<noteq> Noneidx \<Longrightarrow> unat (fst (raw_xq_pop_head (sg_queue_at s q))) \<in> R"
proof -
  show "typed R (release_port k p (set_queue q (snd (raw_xq_pop_head (sg_queue_at s q))) (upd_port p (put_lock k l) s)))"
    using assms pop_holds(1) by (simp add: typed_set_queue typed_upd_port)
  assume "fst (raw_xq_pop_head (sg_queue_at s q)) \<noteq> Noneidx"
  from pop_holds(2) [OF assms(2) this] show "unat (fst (raw_xq_pop_head (sg_queue_at s q))) \<in> R"
    by (rule typed_request [OF assms(1)])
qed

section \<open>The operations\<close>

lemma accept_typed:
  assumes "typed R s" and "xseg_accept cl n flags s = Some (r, t)"
  shows "typed R t \<and> (r = 0 \<or> r \<in> R)"
proof (cases "xseg_get_port s n = 0")
  case True
  with assms show ?thesis by (auto simp: xseg_accept_def)
next
  case False
  let ?p = "xseg_get_port s n"
  from assms(2) False obtain b s1 where s1: "try_port cl flags RQ ?p s = Some (b, s1)"
    by (auto simp: xseg_accept_def Let_def split: bind_splits)
  then obtain l where l: "s1 = upd_port ?p (put_lock RQ l) s" using typed_acquire(2) by blast
  note h = queue_typed(2) [OF assms(1) refl False]
  note tk = take_typed(1) [OF assms(1) h, of RQ ?p l] take_typed(2) [OF assms(1) h]
  have "typed R s1" using assms(1) by (simp add: l typed_upd_port)
  with assms(2) False s1 tk show ?thesis
    by (auto simp: xseg_accept_def Let_def l typed_upd_port split: if_splits prod.splits intro!: typed_upd_req_same)
qed

lemma receive_step:
  assumes "typed R s" and "xseg_get_port s n = p" and "p \<noteq> 0" and "q = pt_reply_queue (sg_port_at s p)"
    and "pr = raw_xq_pop_head (sg_queue_at s q)" and "fst pr \<noteq> Noneidx" and "req = unat (fst pr)"
    and "t = release_port PQ p (set_queue q (snd pr) (upd_port p (put_lock PQ l) s))"
  shows "typed R (upd_req req (\<lambda>r. r\<lparr>rq_path := snd (raw_xq_pop_head (rq_path (sg_req_at t req)))\<rparr>) t) \<and> req \<in> R"
proof -
  note h = queue_typed(3) [OF assms(1-3), folded assms(4)]
  have t: "typed R t" using take_typed(1) [OF assms(1) h] assms(5,8) by simp
  have r: "req \<in> R" using take_typed(2) [OF assms(1) h] assms(5-7) by simp
  with typed_path [OF t] path_ops(1) have "path_typed (sg_config t) (snd (raw_xq_pop_head (rq_path (sg_req_at t req))))" by blast
  with typed_upd_req [OF t] r show ?thesis by simp
qed

lemma receive_typed:
  assumes "xseg_receive cl n flags s = Some y" and "typed R s"
  shows "typed R (snd y) \<and> (fst y = 0 \<or> fst y \<in> R)"
proof -
  have "typed R s \<longrightarrow> typed R (snd y) \<and> (fst y = 0 \<or> fst y \<in> R)"
  proof (rule xseg_receive.raw_induct [OF _ assms(1)])
    fix rec cl n flags s y
    assume IH: "\<And>cl n flags s y. rec cl n flags s = Some y \<Longrightarrow> typed R s \<longrightarrow> typed R (snd y) \<and> (fst y = 0 \<or> fst y \<in> R)"
      and e: "(let port = xseg_get_port s n in
        if port = 0 then Some (0, s)
        else Option.bind (try_port cl flags PQ port s) (\<lambda>(b, s).
          if \<not> b then Some (0, s)
          else let q = pt_reply_queue (sg_port_at s port); r = raw_xq_pop_head (sg_queue_at s q); xqi = fst r;
                   s = release_port PQ port (set_queue q (snd r) s) in
            if xqi = Noneidx then Some (0, s)
            else let req = unat xqi; pr = raw_xq_pop_head (rq_path (sg_req_at s req));
                     s = upd_req req (\<lambda>r. r\<lparr>rq_path := snd pr\<rparr>) s in
              if fst pr = Noneidx then rec cl n flags s else Some (req, s))) = Some y"
    show "typed R s \<longrightarrow> typed R (snd y) \<and> (fst y = 0 \<or> fst y \<in> R)"
    proof
      assume ty: "typed R s"
      define p where "p = xseg_get_port s n"
      show "typed R (snd y) \<and> (fst y = 0 \<or> fst y \<in> R)"
      proof (cases "p = 0")
        case True
        with e ty show ?thesis by (auto simp: p_def)
      next
        case False
        with e obtain b s1 where s1: "try_port cl flags PQ p s = Some (b, s1)"
          by (auto simp: p_def Let_def split: bind_splits)
        then obtain l where l: "s1 = upd_port p (put_lock PQ l) s" using typed_acquire(2) by blast
        define q where "q = pt_reply_queue (sg_port_at s p)"
        define pr where "pr = raw_xq_pop_head (sg_queue_at s q)"
        define t where "t = release_port PQ p (set_queue q (snd pr) s1)"
        define req where "req = unat (fst pr)"
        define t' where "t' = upd_req req (\<lambda>r. r\<lparr>rq_path := snd (raw_xq_pop_head (rq_path (sg_req_at t req)))\<rparr>) t"
        have q: "pt_reply_queue (sg_port_at s1 p) = q" "sg_queue_at s1 = sg_queue_at s" by (simp_all add: l q_def)
        have t: "typed R t" using take_typed(1) [OF ty queue_typed(3) [OF ty p_def [symmetric] False]]
          by (simp add: t_def l pr_def q_def)
        have t': "fst pr \<noteq> Noneidx \<Longrightarrow> typed R t' \<and> req \<in> R"
          unfolding t'_def by (rule receive_step [OF ty p_def [symmetric] False q_def pr_def _ req_def]) (simp_all add: t_def l)
        have e': "(if \<not> b then Some (0, s1) else if fst pr = Noneidx then Some (0, t)
            else if fst (raw_xq_pop_head (rq_path (sg_req_at t req))) = Noneidx then rec cl n flags t' else Some (req, t')) = Some y"
          using e False unfolding Let_def p_def [symmetric] s1 t'_def t_def req_def pr_def by (simp only: if_False Option.bind.simps prod.case q)
        have "typed R s1" using ty by (simp add: l typed_upd_port)
        with e' t t' IH [of cl n flags t'] show ?thesis by (auto split: if_splits)
      qed
    qed
  qed
  with assms(2) show ?thesis by blast
qed

lemma append_typed:
  assumes "typed R s" and "holds (of_nat ` R) (sg_queue_at s (get (sg_port_at s p)))" and "r \<in> R" and "flags AND X_ALLOC = 0"
    and "append_request junk cl flags get put p r s = Some (w, t)"
  shows "typed R t"
proof -
  have "t = set_queue (get (sg_port_at s p)) (snd (raw_xq_append_tail (sg_queue_at s (get (sg_port_at s p))) (of_nat r))) s"
    using assms(4,5) by (auto simp: append_request_def Let_def split: prod.splits)
  then show ?thesis using typed_set_queue [OF assms(1) append_holds(2) [OF assms(2)]] assms(3) by simp
qed

text \<open>The common part of submit and respond: the queue of a port under its lock.\<close>

lemma locked_append_typed:
  assumes ty: "typed R s" and p: "xseg_get_port s n = p" "p \<noteq> 0" and get: "get \<in> {pt_request_queue, pt_reply_queue}"
    and r: "r \<in> R" "flags AND X_ALLOC = 0" and a: "acquire_port cl k p s = Some s1"
    and ap: "append_request junk cl flags get put p r s1 = Some (w, t)"
  shows "typed R t"
proof -
  from a obtain l where l: "s1 = upd_port p (put_lock k l) s" using typed_acquire(1) by blast
  have "get (sg_port_at s1 p) = get (sg_port_at s p)" "sg_queue_at s1 = sg_queue_at s" using get by (auto simp: l)
  then have "holds (of_nat ` R) (sg_queue_at s1 (get (sg_port_at s1 p)))" using queue_typed(2,3) [OF ty p] get by auto
  moreover have "typed R s1" using ty by (simp add: l typed_upd_port)
  ultimately show ?thesis using append_typed r ap by blast
qed

lemma pop_path_typed: "typed R s \<Longrightarrow> typed R (pop_path r s)"
  unfolding pop_path_def by (rule typed_upd_req) (simp_all add: typed_path path_ops(1))

lemma find_next_port:
  "find_next s dst nxt = Some (Some (m, p)) \<Longrightarrow> xseg_get_port s m = p \<and> p \<noteq> 0"
proof -
  assume a: "find_next s dst nxt = Some (Some (m, p))"
  have "case Some (m, p) of None \<Rightarrow> True | Some (m, p) \<Rightarrow> xseg_get_port s m = p \<and> p \<noteq> 0"
    by (rule find_next.raw_induct [OF _ a, where P = "\<lambda>s d x y. case y of None \<Rightarrow> True | Some (m, p) \<Rightarrow> xseg_get_port s m = p \<and> p \<noteq> 0"])
      (auto simp: Let_def split: if_splits)
  then show ?thesis by simp
qed

lemma submit_typed:
  assumes ty: "typed R s" and r: "xreq \<in> R" "flags AND X_ALLOC = 0" and s: "xseg_submit junk cl xreq n flags s = Some (m, t)"
  shows "typed R t"
proof -
  let ?cur = "rq_transit_portno (sg_req_at s xreq)"
  consider "t = s" | nxt port where "validate_port s ?cur" "find_next s (rq_effective_dst_portno (sg_req_at s xreq)) ?cur = Some (Some (nxt, port))"
    using s by (fastforce simp: xseg_submit_def Let_def split: if_splits bind_splits option.splits)
  then show ?thesis
  proof cases
    case 2
    define s0 where "s0 = push_path ?cur xreq s"
    have "path_typed (sg_config s) (snd (raw_xq_append_head (rq_path (sg_req_at s xreq)) (ucast ?cur)))"
      using path_ops(2) [OF typed_path [OF ty r(1)]] 2(1) by (simp add: validate_port_def)
    then have s0: "typed R s0" unfolding s0_def push_path_def by (intro typed_upd_req [OF ty]) simp
    have eq: "upd_req xreq (\<lambda>r. r\<lparr>rq_path := snd (raw_xq_append_head (rq_path (sg_req_at s xreq)) (ucast ?cur))\<rparr>) s = s0"
      by (simp add: s0_def push_path_def upd_req_def)
    have port: "xseg_get_port s0 nxt = port" "port \<noteq> 0" using find_next_port [OF 2(2)] by (simp_all add: s0_def push_path_def)
    have a: "typed R t'" if "acquire_port cl RQ port s0 = Some s1"
      "append_request junk cl flags pt_request_queue (\<lambda>q p. p\<lparr>pt_request_queue := q\<rparr>) port xreq s1 = Some (w, t')" for s1 w t'
      by (rule locked_append_typed [OF s0 port _ r that]) simp
    obtain serial path where sp: "raw_xq_append_head (rq_path (sg_req_at s xreq)) (ucast ?cur) = (serial, path)" by fastforce
    with eq have eq: "upd_req xreq (\<lambda>r. r\<lparr>rq_path := path\<rparr>) s = s0" by simp
    show ?thesis
      using s 2 ty s0 a pop_path_typed by (auto simp: xseg_submit_def Let_def sp eq split: if_splits bind_splits)
  qed (use ty in simp)
qed


lemma forward_typed:
  assumes "typed R s" and "req \<in> R" and "flags AND X_ALLOC = 0" and "xseg_forward junk cl req d n flags s = Some (m, t)"
  shows "typed R t"
proof -
  have "typed R (upd_req req (\<lambda>r. r\<lparr>rq_effective_dst_portno := d\<rparr>) s)" by (rule typed_upd_req_same [OF assms(1)]) simp
  with submit_typed [OF _ assms(2,3)] assms(1,4) show ?thesis by (auto simp: xseg_forward_def split: if_splits)
qed

lemma find_receiver_typed:
  assumes "find_receiver r s = Some y"
  shows "(typed R s \<longrightarrow> typed R (snd y)) \<and> (\<forall>m p. fst y = Some (m, p) \<longrightarrow> xseg_get_port (snd y) m = p \<and> p \<noteq> 0)"
proof (rule find_receiver.raw_induct [OF _ assms])
  fix rec r s y
  assume IH: "\<And>r s y. rec r s = Some y \<Longrightarrow>
      (typed R s \<longrightarrow> typed R (snd y)) \<and> (\<forall>m p. fst y = Some (m, p) \<longrightarrow> xseg_get_port (snd y) m = p \<and> p \<noteq> 0)"
    and e: "(let serial = raw_xq_peek_head (rq_path (sg_req_at s r)) in
      if serial = Noneidx then Some (None, s)
      else let dst = ucast serial :: xport; port = xseg_get_port s dst in
        if port = 0 then Some (None, s)
        else if pt_flags (sg_port_at s port) AND CAN_RECEIVE = 0 then rec r (pop_path r s)
        else Some (Some (dst, port), s)) = Some y"
  from e IH [of r "pop_path r s" y] pop_path_typed [of R s r]
  show "(typed R s \<longrightarrow> typed R (snd y)) \<and> (\<forall>m p. fst y = Some (m, p) \<longrightarrow> xseg_get_port (snd y) m = p \<and> p \<noteq> 0)"
    unfolding Let_def by (auto split: if_splits)
qed

lemma respond_typed:
  assumes ty: "typed R s" and r: "xreq \<in> R" "flags AND X_ALLOC = 0" and s: "xseg_respond junk cl xreq n flags s = Some (m, t)"
  shows "typed R t"
proof (cases "xreq = 0")
  case True
  with s ty show ?thesis by (simp add: xseg_respond_def)
next
  case False
  with s obtain found s0 where f: "find_receiver xreq s = Some (found, s0)" by (auto simp: xseg_respond_def split: bind_splits)
  note fr = find_receiver_typed [OF f, of R]
  show ?thesis
  proof (cases found)
    case None
    with s f False fr ty show ?thesis by (auto simp: xseg_respond_def)
  next
    case (Some dp)
    obtain d p where dp: "dp = (d, p)" by fastforce
    have s0: "typed R s0" and p: "xseg_get_port s0 d = p" "p \<noteq> 0" using fr ty Some dp by auto
    from s f False Some dp obtain s1 w t' where a: "acquire_port cl PQ p s0 = Some s1"
      "append_request junk cl flags pt_reply_queue (\<lambda>q p. p\<lparr>pt_reply_queue := q\<rparr>) p xreq s1 = Some (w, t')" "t = release_port PQ p t'"
      by (auto simp: xseg_respond_def Let_def split: bind_splits)
    have "typed R t'" by (rule locked_append_typed [OF s0 p _ r a(1,2)]) simp
    with a(3) show ?thesis by simp
  qed
qed

lemma buffer_typed:
  "xseg_free_buffer cl a s = Some t \<Longrightarrow> typed R t = typed R s"
  "xseg_alloc_buffer cl b s = Some (a, t) \<Longrightarrow> typed R t = typed R s"
  by (auto simp: xseg_free_buffer_def xseg_alloc_buffer_def dest!: typed_heap(1) [of _ _ _ _ _ R] typed_heap(2) [of _ _ _ _ R] split: if_splits bind_splits)

lemma prep_typed:
  assumes "typed R s" and "xseg_prep_request cl r tlen dlen s = Some (w, t)"
  shows "typed R t"
proof -
  have "typed R (upd_req r (\<lambda>r. r\<lparr>rq_buffer := 0, rq_bufferlen := 0\<rparr>) s)" by (rule typed_upd_req_same [OF assms(1)]) simp
  with assms(2) show ?thesis unfolding xseg_prep_request_def Let_def
    by (auto dest!: buffer_typed(2) [of _ _ _ _ _ R] intro!: typed_upd_req_same split: if_splits bind_splits)
qed

lemma resize_typed:
  assumes "typed R s" and "xseg_resize_request cl r tlen dlen s = Some (w, t)"
  shows "typed R t"
proof -
  have u: "typed R s' \<Longrightarrow> typed R (upd_req r (\<lambda>r. r\<lparr>rq_buffer := 0, rq_bufferlen := 0\<rparr>) s')" for s'
    by (rule typed_upd_req_same) simp_all
  from assms show ?thesis unfolding xseg_resize_request_def Let_def
    by (auto dest!: buffer_typed(1) [of _ _ _ _ R] intro: u prep_typed typed_upd_req_same split: if_splits bind_splits)
qed


text \<open>The end of \<^verbatim>\<open>xseg_put_request\<close>: the request goes into the free queue of the port, or back to its handler.\<close>

lemma cache_typed:
  assumes ty: "typed R s" and p: "xseg_get_port s n = p" "p \<noteq> 0" and r: "xreq \<in> R"
    and e: "do {
          s \<leftarrow> acquire_port cl FQ p s;
          let q = free_q s p;
          let (xqi, xq) = raw_xq_append_head (sg_queue_at s q) (of_nat xreq);
          let s = release_port FQ p (set_queue q xq s);
          if xqi \<noteq> Noneidx then Some (0, s)
          else do {
            s \<leftarrow> put_req_obj cl xreq s;
            s \<leftarrow> acquire_port cl PL p s;
            let s = upd_port p (\<lambda>p. p\<lparr>pt_alloc_reqs := pt_alloc_reqs p - 1\<rparr>) s;
            Some (0, release_port PL p s) } } = Some (w :: int, t)"
  shows "typed R t"
proof -
  from e obtain s1 where s1: "acquire_port cl FQ p s = Some s1" by (auto split: bind_splits)
  then obtain l where l: "s1 = upd_port p (put_lock FQ l) s" using typed_acquire(1) by blast
  define q where "q = free_q s1 p"
  obtain xqi xq where x: "raw_xq_append_head (sg_queue_at s1 q) (of_nat xreq) = (xqi, xq)" by fastforce
  define s2 where "s2 = release_port FQ p (set_queue q xq s1)"
  have q: "q = pt_free_queue (sg_port_at s p)" "sg_queue_at s1 = sg_queue_at s" by (simp_all add: q_def free_q_def l)
  have "holds (of_nat ` R) xq"
    using append_holds(1) [OF queue_typed(1) [OF ty p], of "of_nat xreq"] r x by (simp add: q)
  moreover have "typed R s1" using ty by (simp add: l typed_upd_port)
  ultimately have s2: "typed R s2" by (simp add: s2_def typed_set_queue)
  have e2: "(if xqi \<noteq> Noneidx then Some (0, s2)
          else do {
            s \<leftarrow> put_req_obj cl xreq s2;
            s \<leftarrow> acquire_port cl PL p s;
            let s = upd_port p (\<lambda>p. p\<lparr>pt_alloc_reqs := pt_alloc_reqs p - 1\<rparr>) s;
            Some (0, release_port PL p s) }) = Some (w, t)"
    using e unfolding s1 Option.bind.simps Let_def q_def [symmetric] x prod.case s2_def [symmetric] .
  have a: "typed R s' \<Longrightarrow> typed R (release_port PL p (upd_port p (\<lambda>p. p\<lparr>pt_alloc_reqs := pt_alloc_reqs p - 1\<rparr>) s'))" for s'
    by (simp add: typed_upd_port)
  have b: "acquire_port cl PL p s' = Some s'' \<Longrightarrow> typed R s' \<Longrightarrow> typed R s''" for s' s''
    using typed_acquire(1) typed_upd_port lock_queues(1) by metis
  from e2 s2 show ?thesis
    by (auto simp: Let_def dest!: typed_heap(3) [of _ _ _ _ R] intro!: a split: if_splits bind_splits dest: b)
qed

lemma put_typed:
  assumes ty: "typed R s" and r: "xreq \<in> R" and e: "xseg_put_request cl xreq n s = Some (w, t)"
  shows "typed R t"
proof -
  define m where "m = rq_src_portno (sg_req_at s xreq)"
  define p where "p = xseg_get_port s m"
  show ?thesis
  proof (cases "xreq = 0 \<or> p = 0")
    case True
    with e ty show ?thesis by (auto simp: xseg_put_request_def p_def m_def Let_def split: if_splits)
  next
    case False
    define g where "g = (\<lambda>r. r\<lparr>rq_path := empty_path r, rq_buffer := 0, rq_bufferlen := 0,
            rq_target := 0, rq_data := 0, rq_datalen := 0, rq_targetlen := 0, rq_state := 0,
            rq_src_portno := NoPort, rq_dst_portno := NoPort, rq_transit_portno := NoPort,
            rq_effective_dst_portno := NoPort, rq_serviced := 0\<rparr>)"
    define stat where "stat = (\<lambda>s. if rq_elapsed (sg_req_at s xreq) \<noteq> 0 then do {
                 s \<leftarrow> lock_segment cl s;
                 let ct = sg_counters s;
                 let s = s\<lparr>sg_counters := ct\<lparr>ct_req_cnt := ct_req_cnt ct + 1,
                   ct_avg_req_lat := ct_avg_req_lat ct + rq_elapsed (sg_req_at s xreq)\<rparr>\<rparr>;
                 Some (unlock_segment s) }
               else Some s)"
    define end_part where "end_part = (\<lambda>s. do {
          s \<leftarrow> acquire_port cl FQ p s;
          let q = free_q s p;
          let (xqi, xq) = raw_xq_append_head (sg_queue_at s q) (of_nat xreq);
          let s = release_port FQ p (set_queue q xq s);
          if xqi \<noteq> Noneidx then Some (0, s)
          else do {
            s \<leftarrow> put_req_obj cl xreq s;
            s \<leftarrow> acquire_port cl PL p s;
            let s = upd_port p (\<lambda>p. p\<lparr>pt_alloc_reqs := pt_alloc_reqs p - 1\<rparr>) s;
            Some (0 :: int, release_port PL p s) } })"
    have "xseg_put_request cl xreq n s = Option.bind (if rq_buffer (sg_req_at s xreq) \<noteq> 0
        then xseg_free_buffer cl (rq_buffer (sg_req_at s xreq)) s else Some s) (\<lambda>s. Option.bind (stat (upd_req xreq g s)) end_part)"
      using False unfolding xseg_put_request_def stat_def end_part_def g_def m_def [symmetric] p_def [symmetric] Let_def
      by (simp only: if_False de_Morgan_disj)
    with e obtain s1 s3 where s1: "(if rq_buffer (sg_req_at s xreq) \<noteq> 0
        then xseg_free_buffer cl (rq_buffer (sg_req_at s xreq)) s else Some s) = Some s1"
      and s3: "stat (upd_req xreq g s1) = Some s3" and en: "end_part s3 = Some (w, t)"
      by (auto split: bind_splits)
    have t1: "typed R s1" "xseg_get_port s1 m = p"
      using s1 ty by (auto simp: xseg_free_buffer_def seg_free_def p_def xseg_get_port_def validate_port_def split: if_splits bind_splits)
    have t2: "typed R (upd_req xreq g s1)"
      by (rule typed_upd_req [OF t1(1)]) (simp add: g_def empty_path_typed typed_path [OF t1(1)])
    define s2 where "s2 = upd_req xreq g s1"
    have p2: "xseg_get_port s2 m = p" using t1(2) by (simp add: s2_def)
    have t3: "typed R s3" "xseg_get_port s3 m = p"
      using s3 t2 p2 unfolding s2_def [symmetric]
      by (auto simp: stat_def Let_def lock_segment_def unlock_segment_def xseg_get_port_def validate_port_def split: if_splits bind_splits)
    show ?thesis
      by (rule cache_typed [OF t3 _ r en [unfolded end_part_def]]) (use False in simp)
  qed
qed

lemma init_typed:
  assumes ty: "typed R s" and r: "req \<in> R" and e: "init_request cl req src dst s = Some (q, t)"
  shows "typed R t \<and> (q = 0 \<or> q \<in> R)"
proof -
  define s1 where "s1 = upd_req req (\<lambda>r. r\<lparr>rq_buffer := 0, rq_bufferlen := 0, rq_target := 0, rq_data := 0,
            rq_datalen := 0, rq_targetlen := 0\<rparr>) s"
  have s1: "typed R s1" unfolding s1_def by (rule typed_upd_req_same [OF ty]) simp
  obtain k s2 where p: "xseg_prep_ports req src dst s1 = (k, s2)" by fastforce
  have s2: "typed R s2" using p s1 by (auto simp: xseg_prep_ports_def intro!: typed_upd_req_same split: if_splits)
  have "typed R (upd_req req (\<lambda>r. r\<lparr>rq_state := 0, rq_elapsed := 0, rq_timestamp := (0, 0),
            rq_flags := 0, rq_serviced := 0, rq_v0_size := - 1, rq_path := empty_path r\<rparr>) s2)"
    by (rule typed_upd_req [OF s2]) (simp add: empty_path_typed typed_path [OF s2])
  with e p r put_typed [OF s2 r] show ?thesis
    by (auto simp: init_request_def s1_def [symmetric] Let_def split: if_splits bind_splits)
qed

lemma get_typed:
  assumes ty: "typed R s" and fl: "flags AND X_LOCAL \<noteq> 0" and e: "xseg_get_request junk cl src dst flags s = Some (r, t)"
  shows "typed R t \<and> (r = 0 \<or> r \<in> R)"
proof (cases "xseg_get_port s src = 0")
  case True
  with e ty show ?thesis by (auto simp: xseg_get_request_def)
next
  case False
  let ?p = "xseg_get_port s src"
  from e False obtain s1 where s1: "acquire_port cl FQ ?p s = Some s1"
    by (auto simp: xseg_get_request_def Let_def split: bind_splits)
  then obtain l where l: "s1 = upd_port ?p (put_lock FQ l) s" using typed_acquire(1) by blast
  define q where "q = free_q s1 ?p"
  have q: "q = pt_free_queue (sg_port_at s ?p)" "sg_queue_at s1 = sg_queue_at s" by (simp_all add: q_def free_q_def l)
  note h = queue_typed(1) [OF ty refl False, folded q(1)]
  define pr where "pr = raw_xq_pop_head (sg_queue_at s q)"
  define s2 where "s2 = release_port FQ ?p (set_queue q (snd pr) s1)"
  have s2: "typed R s2" unfolding s2_def l pr_def by (rule take_typed(1) [OF ty h])
  have "(if fst pr \<noteq> Noneidx then init_request cl (unat (fst pr)) src dst s2 else Some (0, s2)) = Some (r, t)"
  proof (cases pr)
    case (Pair a b)
    then have "raw_xq_pop_head (sg_queue_at s1 q) = (a, b)" by (simp add: pr_def q(2))
    with e False fl Pair show ?thesis
      unfolding xseg_get_request_def Let_def s1 s2_def by (simp add: q_def [symmetric] del: release_eq split: if_splits)
  qed
  with s2 init_typed [OF s2] take_typed(2) [OF ty h, folded pr_def] show ?thesis by (auto split: if_splits)
qed

section \<open>Programs\<close>

text \<open>
  The operations that a peer calls on requests of a segment in use: queues do not grow
  (\<^verbatim>\<open>X_ALLOC\<close> is not given) and requests come from the caches of the ports
  (\<^verbatim>\<open>X_LOCAL\<close>). The result is the request that is returned, 0 for none.
\<close>

datatype seg_op =
  Op_submit nat xport u32
| Op_forward nat xport xport u32
| Op_accept xport u32
| Op_receive xport u32
| Op_respond nat xport u32
| Op_get xport xport u32
| Op_put nat xport
| Op_prep nat u32 u64
| Op_resize nat u32 u64
| Op_route xport xport

fun exec :: "(nat \<Rightarrow> u64 list) \<Rightarrow> caller \<Rightarrow> seg_op \<Rightarrow> xseg \<Rightarrow> (nat \<times> xseg) option" where
  "exec junk cl (Op_submit r n f) s = do { (_, s) \<leftarrow> xseg_submit junk cl r n f s; Some (0, s) }"
| "exec junk cl (Op_forward r d n f) s = do { (_, s) \<leftarrow> xseg_forward junk cl r d n f s; Some (0, s) }"
| "exec junk cl (Op_accept n f) s = xseg_accept cl n f s"
| "exec junk cl (Op_receive n f) s = xseg_receive cl n f s"
| "exec junk cl (Op_respond r n f) s = do { (_, s) \<leftarrow> xseg_respond junk cl r n f s; Some (0, s) }"
| "exec junk cl (Op_get src dst f) s = xseg_get_request junk cl src dst f s"
| "exec junk cl (Op_put r n) s = do { (_, s) \<leftarrow> xseg_put_request cl r n s; Some (0, s) }"
| "exec junk cl (Op_prep r k d) s = do { (_, s) \<leftarrow> xseg_prep_request cl r k d s; Some (0, s) }"
| "exec junk cl (Op_resize r k d) s = do { (_, s) \<leftarrow> xseg_resize_request cl r k d s; Some (0, s) }"
| "exec junk cl (Op_route n m) s = Some (0, snd (xseg_set_path_next n m s))"

fun run_ops :: "(nat \<Rightarrow> u64 list) \<Rightarrow> caller \<Rightarrow> seg_op list \<Rightarrow> xseg \<Rightarrow> (nat list \<times> xseg) option" where
  "run_ops junk cl [] s = Some ([], s)"
| "run_ops junk cl (x # xs) s = do { (r, s) \<leftarrow> exec junk cl x s; (rs, s) \<leftarrow> run_ops junk cl xs s; Some (r # rs, s) }"

fun op_typed :: "nat set \<Rightarrow> seg_op \<Rightarrow> bool" where
  "op_typed R (Op_submit r n f) \<longleftrightarrow> r \<in> R \<and> f AND X_ALLOC = 0"
| "op_typed R (Op_forward r d n f) \<longleftrightarrow> r \<in> R \<and> f AND X_ALLOC = 0"
| "op_typed R (Op_respond r n f) \<longleftrightarrow> r \<in> R \<and> f AND X_ALLOC = 0"
| "op_typed R (Op_get src dst f) \<longleftrightarrow> f AND X_LOCAL \<noteq> 0"
| "op_typed R (Op_put r n) \<longleftrightarrow> r \<in> R"
| "op_typed R (Op_accept n f) \<longleftrightarrow> True"
| "op_typed R (Op_receive n f) \<longleftrightarrow> True"
| "op_typed R (Op_prep r k d) \<longleftrightarrow> True"
| "op_typed R (Op_resize r k d) \<longleftrightarrow> True"
| "op_typed R (Op_route n m) \<longleftrightarrow> True"

lemma route_typed: "typed R s \<Longrightarrow> typed R (snd (xseg_set_path_next n m s))"
  by (simp add: xseg_set_path_next_def typed_def tables_typed_def queues_def)

lemma exec_typed:
  assumes "typed R s" and "op_typed R x" and "exec junk cl x s = Some (r, t)"
  shows "typed R t \<and> (r = 0 \<or> r \<in> R)"
proof (cases x)
  case (Op_receive n f)
  with assms receive_typed [of cl n f s "(r, t)" R] show ?thesis by simp
next
  case (Op_accept n f)
  with assms accept_typed show ?thesis by auto
next
  case (Op_get src dst f)
  with assms get_typed show ?thesis by auto
next
  case (Op_submit q n f)
  with assms(3) obtain w where e: "xseg_submit junk cl q n f s = Some (w, t)" "r = 0" by (auto split: bind_splits)
  have "typed R t" by (rule submit_typed [OF assms(1) _ _ e(1)]) (use assms(2) Op_submit in \<open>simp_all\<close>)
  with e(2) show ?thesis by simp
next
  case (Op_forward q d n f)
  with assms(3) obtain w where e: "xseg_forward junk cl q d n f s = Some (w, t)" "r = 0" by (auto split: bind_splits)
  have "typed R t" by (rule forward_typed [OF assms(1) _ _ e(1)]) (use assms(2) Op_forward in \<open>simp_all\<close>)
  with e(2) show ?thesis by simp
next
  case (Op_respond q n f)
  with assms(3) obtain w where e: "xseg_respond junk cl q n f s = Some (w, t)" "r = 0" by (auto split: bind_splits)
  have "typed R t" by (rule respond_typed [OF assms(1) _ _ e(1)]) (use assms(2) Op_respond in \<open>simp_all\<close>)
  with e(2) show ?thesis by simp
next
  case (Op_put q n)
  with assms(3) obtain w where e: "xseg_put_request cl q n s = Some (w, t)" "r = 0" by (auto split: bind_splits)
  have "typed R t" by (rule put_typed [OF assms(1) _ e(1)]) (use assms(2) Op_put in \<open>simp_all\<close>)
  with e(2) show ?thesis by simp
next
  case (Op_prep q k d)
  with assms(3) obtain w where e: "xseg_prep_request cl q k d s = Some (w, t)" "r = 0" by (auto split: bind_splits)
  have "typed R t" by (rule prep_typed [OF assms(1) e(1)])
  with e(2) show ?thesis by simp
next
  case (Op_resize q k d)
  with assms(3) obtain w where e: "xseg_resize_request cl q k d s = Some (w, t)" "r = 0" by (auto split: bind_splits)
  have "typed R t" by (rule resize_typed [OF assms(1) e(1)])
  with e(2) show ?thesis by simp
next
  case (Op_route n m)
  with assms route_typed show ?thesis by auto
qed

text \<open>
  C24. Types are kept: when a program of operations on the requests of a segment runs to its end,
  every table still has one entry per port, every queue of a port is well formed and
  holds only requests of the segment, every path is well formed, has its
  buffer and names only ports of the segment; and every request that an operation returned is one of them.
\<close>

theorem segment_types_kept:
  assumes "typed R s" and "\<forall>x\<in>set xs. op_typed R x" and "run_ops junk cl xs s = Some (rs, t)"
  shows "typed R t \<and> set rs \<subseteq> insert 0 R"
  using assms
proof (induction xs arbitrary: s rs)
  case (Cons x xs)
  from Cons.prems(3) obtain r s1 ws where s1: "exec junk cl x s = Some (r, s1)" "run_ops junk cl xs s1 = Some (ws, t)" "rs = r # ws"
    by (auto split: bind_splits)
  have "typed R s1 \<and> (r = 0 \<or> r \<in> R)" using exec_typed [OF Cons.prems(1) _ s1(1)] Cons.prems(2) by simp
  with Cons.IH [OF _ _ s1(2)] Cons.prems(2) s1(3) show ?case by auto
qed simp


section \<open>An example\<close>

lemma demo_typed: "typed {5000} demo_seg"
proof -
  have m: "q_mem demo_path = replicate 32 0" by (simp add: demo_path_def xq_init_empty_def Let_def)
  have "holds X q" if "q_wf q" "q_list q = []" for X q using that unfolding holds_def by (simp only: list.set empty_subsetI)
  then have "holds (port_numbers c) demo_path" "holds X demo_empty" for c X
    using demo_path_ok demo_empty_room by (simp_all only: empty_q_def)
  then show ?thesis
    by (simp add: typed_def tables_typed_def req_ptr_def path_typed_def) (simp add: demo_seg_simps m MAX_PATH_LEN_def)
qed

theorem segment_types_kept_witness:
  "\<exists>t. run_ops (\<lambda>_. []) (demo_caller 1) [Op_forward 5000 1 0 0, Op_accept 1 0] demo_seg = Some ([0, 5000], t) \<and> typed {5000} t"
proof -
  have tr: "rq_transit_portno (sg_req_at demo_seg 5000) = 0" "rq_path (sg_req_at demo_seg 5000) = demo_path"
    by (simp_all add: demo_seg_simps)
  have "q_len demo_path = 0" using demo_path_ok(2) by (simp add: q_len_def)
  then have "(1 :: xport) \<noteq> rq_transit_portno (sg_req_at demo_seg 5000)" "q_len (rq_path (sg_req_at demo_seg 5000)) < unat MAX_PATH_LEN"
    by (simp_all add: tr MAX_PATH_LEN_def q_len_def)
  from pass_on_some [OF demo_proto_ok _ this, of "\<lambda>_. []" "demo_caller 1" 0] obtain t where
    "pass_on (\<lambda>_. []) (demo_caller 1) 0 5000 1 demo_seg = Some t" by blast
  then obtain s1 where "xseg_forward (\<lambda>_. []) (demo_caller 1) 5000 1 0 0 demo_seg = Some (1, s1)"
    "xseg_accept (demo_caller 1) 1 0 s1 = Some (5000, t)"
    unfolding pass_on_def tr by (auto split: bind_splits if_splits)
  then have r: "run_ops (\<lambda>_. []) (demo_caller 1) [Op_forward 5000 1 0 0, Op_accept 1 0] demo_seg = Some ([0, 5000], t)" by simp
  have "\<forall>x\<in>set [Op_forward 5000 1 0 0, Op_accept 1 0]. op_typed {5000} x" by simp
  from segment_types_kept [OF demo_typed this r] r show ?thesis by blast
qed

end
