(* ===== verification/Xinit.thy ===== *)
theory Xinit
  imports Xports Xtyped Xlife
begin

text \<open>
  Initialising a segment: on a heap with room for the structures of the segment, the
  initialisation succeeds and establishes what the rest of the library relies on: a heap in
  order, empty handlers, empty tables, pointers that a joining process accepts.
\<close>

section \<open>Allocations from a heap without free chunks\<close>

text \<open>
  Nothing has been freed yet, so every allocation takes the next bytes of the heap. \<open>heap_room\<close>:
  in a heap of \<open>sz\<close> bytes with pages of \<open>2 ^ u\<close> bytes, the sizes \<open>bs\<close> have classes and there is
  room for all of them from \<open>cur\<close> on.
\<close>

definition heap_room :: "nat \<Rightarrow> nat \<Rightarrow> nat \<Rightarrow> nat list \<Rightarrow> bool" where
  "heap_room u sz cur bs \<longleftrightarrow> (\<forall>b\<in>set bs. b < 2 ^ 62 \<and> get_index u b < get_index u sz \<and> get_index u (payload u b) < get_index u sz) \<and>
     cur + (\<Sum>b\<leftarrow>bs. get_alloc_bytes u b) \<le> sz"

definition fits :: "xheap \<Rightarrow> nat list \<Rightarrow> bool" where
  "fits h bs \<longleftrightarrow> (\<forall>b\<in>set bs. in_classes h b) \<and>
     hp_cur h + (\<Sum>b\<leftarrow>bs. get_alloc_bytes (hp_unit h) b) \<le> hp_size h"

lemma fits_room: "fits h bs \<longleftrightarrow> heap_room (hp_unit h) (hp_size h) (hp_cur h) bs"
  by (simp add: fits_def heap_room_def in_classes_def classes_def)

definition bump :: "xheap \<Rightarrow> nat \<Rightarrow> (nat \<times> nat) list \<Rightarrow> nat list \<Rightarrow> bool" where
  "bump h st cs bs \<longleftrightarrow> heap_rep h st cs (\<lambda>_. []) \<and> unlocked (hp_lock h) \<and> fits h bs"

lemma live_all [simp]: "live h cs (\<lambda>_. []) = set cs"
  by (auto simp: live_def)

lemma bump_alloc:
  assumes "bump h st cs (b # bs)"
  defines "c \<equiv> (hp_cur h + HDR, payload (hp_unit h) b)"
  shows "\<exists>h'. xheap_allocate cl b h = Some (Some (fst c), h') \<and> bump h' st (cs @ [c]) bs \<and> keeps h h' \<and>
    hp_unit h' = hp_unit h \<and> hp_size h' = hp_size h \<and> hp_cur h \<le> hp_cur h' \<and> b \<le> snd c \<and>
    fst c + snd c \<le> hp_size h \<and> xheap_get_chunk_size h' (fst c) = snd c \<and> (\<forall>d\<in>set cs. span c \<inter> span d = {})"
proof -
  from assms(1) have rep: "heap_rep h st cs (\<lambda>_. [])" and lk: "unlocked (hp_lock h)" and f: "in_classes h b"
    "hp_cur h + get_alloc_bytes (hp_unit h) b + (\<Sum>b\<leftarrow>bs. get_alloc_bytes (hp_unit h) b) \<le> hp_size h"
    by (simp_all add: bump_def fits_def)
  from f(1) have b: "b < 2 ^ 62" and r: "get_index (hp_unit h) b < classes h" "get_index (hp_unit h) (payload (hp_unit h) b) < classes h"
    by (simp_all add: in_classes_def)
  have "hp_cur h + get_alloc_bytes (hp_unit h) b \<le> hp_size h" using f(2) by simp
  from allocate_cases(1) [OF rep lk b refl r refl this, of cl] obtain h' where
    h': "xheap_allocate cl b h = Some (Some (fst c), h')" "hp_lock h' = free_lock" "heap_rep h' st (cs @ [c]) (\<lambda>_. [])"
    "hp_unit h' = hp_unit h" "hp_size h' = hp_size h" "keeps h h'" unfolding c_def by auto
  have u: "hp_unit h < 20" using rep_fields [OF rep] by simp
  note p = alloc_bytes(4,6) [OF b u]
  have "tiled st (cs @ [(fst c, snd c)]) (hp_cur h')" using h'(3) by (simp add: heap_rep_def)
  from tiled_end [OF this] have cur: "hp_cur h' = hp_cur h + get_alloc_bytes (hp_unit h) b" using p(2) by (simp add: c_def)
  have cl: "classes h' = classes h" by (simp add: classes_def h'(4,5))
  have bc: "bump h' st (cs @ [c]) bs"
    using h' assms(1) f(2) by (simp add: bump_def fits_def cur in_classes_def cl)
  have c: "c \<in> set (cs @ [c])" by simp
  note cb = chunk_bounds [OF h'(3), of "fst c" "snd c", simplified]
  have "xheap_get_chunk_size h' (fst c) = snd c"
    using cb(1,4) by (simp add: xheap_get_chunk_size_def get_header_def HDR_def)
  moreover have "fst c + snd c \<le> hp_size h" using cb(2) rep_fields [OF h'(3)] h'(5) by simp
  moreover have "\<forall>d\<in>set cs. span c \<inter> span d = {}"
    using live_new(3) [OF rep h'(3) [unfolded c_def] cl] by (simp add: c_def)
  ultimately show ?thesis using h' bc cur p(1) by (simp add: c_def)
qed

section \<open>Object handlers\<close>

text \<open>The free objects of a handler are not touched by what else happens on the heap.\<close>

lemma obj_grow:
  assumes rep: "obj_rep h st cs F fl" and g: "heap_rep g st cs' F'" "keeps (oh_heap h) g" "live (oh_heap h) cs F \<subseteq> live g cs' F'"
  shows "obj_rep (h\<lparr>oh_heap := g\<rparr>) st cs' F' fl"
proof -
  let ?g = "h\<lparr>oh_heap := g\<rparr>"
  from rep have hr: "heap_rep (oh_heap h) st cs F" and w: "24 \<le> oh_obj_size h" by (simp_all add: obj_rep_def XOBJ_SIZE_def)
  have s: "slot ?g cs' F' q" if "slot h cs F q" for q using that g(3) by (fastforce simp: slot_def)
  have n: "get_next ?g q = get_next h q" if q: "slot h cs F q" for q
  proof -
    obtain a n where a: "(a, n) \<in> live (oh_heap h) cs F" "a \<le> q - oh_base h" "q - oh_base h + oh_obj_size h \<le> a + n"
      by (rule slot_bounds [OF q])
    define x where "x = q - oh_base h + 16"
    from chunk_bounds(2,5) [OF hr live_in [OF a(1)]] a(2,3) w have "8 * classes (oh_heap h) \<le> x" "x < hp_cur (oh_heap h)"
      by (simp_all add: x_def)
    with g(2) show ?thesis by (simp add: get_next_def keeps_def x_def)
  qed
  have "ochain ?g (oh_list h) fl"
  proof (rule ochain_cong)
    show "ochain h (oh_list h) fl" using rep by (simp add: obj_rep_def)
    show "get_next ?g q = get_next h q" if "q \<in> set fl" for q
      by (rule n) (use rep that in \<open>simp add: obj_rep_def\<close>)
  qed
  moreover have "\<forall>q\<in>set fl. slot ?g cs' F' q" using rep s unfolding obj_rep_def by blast
  ultimately show ?thesis using rep g(1) unfolding obj_rep_def by simp
qed

text \<open>A new handler: its lock is free, its list and its table are empty.\<close>

definition handler_new :: "(nat \<Rightarrow> u64 list) \<Rightarrow> nat \<Rightarrow> nat \<Rightarrow> xobject_h \<Rightarrow> bool" where
  "handler_new junk base sz h \<longleftrightarrow> oh_lock h = free_lock \<and> oh_list h = 0 \<and> oh_base h = base \<and> oh_obj_size h = sz \<and>
     oh_hash h = xhash_init (junk 16) 3 0 XHASH_INTEGER \<and> oh_nr_free h = 0 \<and> oh_nr_allocated h = 0"

lemma handler_new_rep:
  assumes "handler_new junk base sz h" and "24 \<le> sz" and "heap_rep g st cs F"
  shows "obj_rep (h\<lparr>oh_heap := g\<rparr>) st cs F []"
  using assms by (simp add: handler_new_def obj_rep_def XOBJ_SIZE_def)

abbreviation (input) hash_bytes :: nat where "hash_bytes \<equiv> xhash_get_alloc_size 3"

lemma handler_init:
  assumes b: "bump g st cs (hash_bytes # bs)" and sz: "24 \<le> sz"
  shows "\<exists>h' n cs'. xobj_handler_init junk cl base magic sz g h = Some (0, h') \<and> handler_new junk base sz h' \<and>
    bump (oh_heap h') st (cs @ cs') bs \<and> keeps g (oh_heap h') \<and> hp_unit (oh_heap h') = hp_unit g \<and>
    hp_size (oh_heap h') = hp_size g"
  using bump_alloc [OF b, of cl] sz
  by (fastforce simp: xobj_handler_init_def handler_new_def Let_def XOBJ_SIZE_def)

text \<open>The first object of a new handler: a chunk of 64 objects is taken, the last of which is never made.\<close>

lemma new_hash:
  assumes "fresh_ok junk"
  defines "t \<equiv> xhash_init (junk 16) 3 0 XHASH_INTEGER"
  shows "xh_inv (\<lambda>_. []) t" "xh_size_shift t = 3" "\<not> grow_check t" "xh_limit t = 0" "xh_type t = XHASH_INTEGER"
    "xh_map (\<lambda>_. []) t = Map.empty"
proof -
  have "length (junk 16) = 2 * 2 ^ 3" using assms(1) by (simp add: fresh_ok_def)
  from hash_init_inv(1,2) [OF this] show "xh_inv (\<lambda>_. []) t" "xh_map (\<lambda>_. []) t = Map.empty"
    by (simp_all add: t_def xhash_init_def)
  show "xh_size_shift t = 3" "\<not> grow_check t" "xh_limit t = 0" "xh_type t = XHASH_INTEGER"
    by (simp_all add: t_def xhash_init_def raw_xhash_init_def grow_check_def Let_def)
qed

lemma proper_small: "x < 2 ^ 63 \<Longrightarrow> proper (of_nat x)"
proof -
  assume x: "x < 2 ^ 63"
  then have "(of_nat x :: u64) < 0x8000000000000000" by (simp add: word_less_nat_alt unat_of_nat)
  moreover have "\<not> UNUSED < 0x8000000000000000" "\<not> DUMMY < 0x8000000000000000" by (simp_all add: UNUSED_def DUMMY_def)
  ultimately show ?thesis unfolding proper_def by metis
qed

lemma retry_rep:
  assumes "obj_rep h st cs F (p # fl)"
  defines "h' \<equiv> h\<lparr>oh_list := get_next h p, oh_nr_free := w64 (oh_nr_free h + 2 ^ 64 - 1)\<rparr>"
  shows "get_retry junk cl flags h = Some (Some p, h')" and "obj_rep (h'\<lparr>oh_lock := l\<rparr>) st cs F fl"
proof -
  from assms(1) have l: "oh_list h = p" "p \<noteq> 0" "ochain h (get_next h p) fl" by (simp_all add: obj_rep_def)
  show "get_retry junk cl flags h = Some (Some p, h')" using l(1,2) by (simp add: get_retry.simps [of junk cl flags h] h'_def Let_def)
  have hf: "oh_heap (h'\<lparr>oh_lock := l\<rparr>) = oh_heap h" "oh_base (h'\<lparr>oh_lock := l\<rparr>) = oh_base h"
    "oh_obj_size (h'\<lparr>oh_lock := l\<rparr>) = oh_obj_size h" "oh_list (h'\<lparr>oh_lock := l\<rparr>) = get_next h p" by (simp_all add: h'_def)
  show "obj_rep (h'\<lparr>oh_lock := l\<rparr>) st cs F fl" using assms(1) l(3)
    unfolding obj_rep_def hf ochain_same_heap [OF hf(1,2)] slot_same_heap [OF hf(1-3)] by simp
qed

lemma get_rep:
  assumes rep: "obj_rep h st cs F (p # fl)" and lk: "unlocked (oh_lock h)"
  shows "\<exists>h'. xobj_get_obj junk cl flags h = Some (Some p, h') \<and> obj_rep h' st cs F fl \<and> oh_lock h' = free_lock \<and>
    oh_heap h' = oh_heap h \<and> oh_base h' = oh_base h"
proof -
  define y where "y = h\<lparr>oh_lock := \<lparr>lk_owner = caller_word cl, lk_pc = c_pc cl\<rparr>, oh_nr_free := oh_nr_free h\<rparr>"
  have "obj_rep y st cs F (p # fl)" unfolding y_def by (rule obj_rep_fields [OF rep])
  note r = retry_rep [OF this]
  show ?thesis using lk r(1) [of junk cl flags] r(2) [of free_lock]
    by (intro exI [of _ "y\<lparr>oh_list := get_next y p, oh_nr_free := w64 (oh_nr_free y + 2 ^ 64 - 1), oh_lock := free_lock\<rparr>"])
      (simp add: xobj_get_obj_def y_def)
qed

lemma first_obj:
  assumes h: "handler_new junk base w h" and w: "24 \<le> w" and b: "bump g st cs (64 * w # bs)" and j: "fresh_ok junk"
    and base: "base + hp_size g < 2 ^ 63"
  shows "\<exists>p fl h' c. xobj_get_obj junk cl X_ALLOC (h\<lparr>oh_heap := g\<rparr>) = Some (Some p, h') \<and>
    obj_rep h' st (cs @ [c]) (\<lambda>_. []) fl \<and> fl \<noteq> [] \<and> oh_lock h' = free_lock \<and> oh_base h' = base \<and> bump (oh_heap h') st (cs @ [c]) bs \<and>
    hp_unit (oh_heap h') = hp_unit g \<and> hp_size (oh_heap h') = hp_size g \<and> base < p \<and> p < base + hp_size g"
proof -
  define y where "y = h\<lparr>oh_heap := g, oh_lock := \<lparr>lk_owner = caller_word cl, lk_pc = c_pc cl\<rparr>\<rparr>"
  from h have hf: "oh_base y = base" "oh_obj_size y = w" "oh_list y = 0" "oh_heap y = g" "oh_lock h = free_lock"
    "oh_hash y = xhash_init (junk 16) 3 0 XHASH_INTEGER" by (simp_all add: handler_new_def y_def)
  have y0: "obj_rep y st cs (\<lambda>_. []) []"
    using b w by (simp add: obj_rep_def hf bump_def XOBJ_SIZE_def)
  define c where "c = (hp_cur g + HDR, payload (hp_unit g) (64 * w))"
  obtain heap where a: "xheap_allocate cl (64 * w) g = Some (Some (fst c), heap)" "bump heap st (cs @ [c]) bs" "keeps g heap"
    "hp_unit heap = hp_unit g" "hp_size heap = hp_size g" "64 * w \<le> snd c" "fst c + snd c \<le> hp_size g" "\<forall>d\<in>set cs. span c \<inter> span d = {}"
    using bump_alloc [OF b, of cl] unfolding c_def by blast
  have fb: "fst c + base < 2 ^ 63" using a(7) base by simp
  have w64: "64 * w < 2 ^ 64" using a(6,7) base by simp
  note t = new_hash [OF j]
  obtain h1 where h1: "xobj_alloc_obj junk cl 64 y = Some (0, h1)"
    "obj_rep h1 st (cs @ [c]) (\<lambda>_. []) (objs (fst c + base) w ((snd c - 1) div w))" "oh_base h1 = base" "\<exists>m. oh_heap h1 = heap\<lparr>hp_mem := m\<rparr>"
    using alloc_obj_core [OF y0, of 64 cl "fst c" heap "cs @ [c]" "\<lambda>_. []" "snd c" junk] a t w64 proper_small [OF fb]
    by (auto simp: hf bump_def)
  have "62 * w < snd c - 1" using a(6) w by linarith
  then have "62 < (snd c - 1) div w + 1" using w by (simp add: less_eq_div_iff_mult_less_eq flip: Suc_le_eq)
  then have "2 \<le> (snd c - 1) div w" by simp
  then obtain k where "(snd c - 1) div w = 2 + k" using le_Suc_ex by blast
  then have k: "(snd c - 1) div w = Suc (Suc k)" by simp
  define fl where "fl = map (\<lambda>j. fst c + base + j * w) [1..<Suc (Suc k)]"
  have "objs (fst c + base) w ((snd c - 1) div w) = (fst c + base) # fl"
    unfolding objs_def k fl_def by (subst upt_rec) (simp del: upt_Suc)
  with h1(2) have h2: "obj_rep h1 st (cs @ [c]) (\<lambda>_. []) ((fst c + base) # fl)" by simp
  note r = retry_rep [OF h2]
  define h' where "h' = h1\<lparr>oh_list := get_next h1 (fst c + base), oh_nr_free := w64 (oh_nr_free h1 + 2 ^ 64 - 1), oh_lock := free_lock\<rparr>"
  have "get_retry junk cl X_ALLOC y = get_retry junk cl X_ALLOC h1"
    by (subst get_retry.simps) (simp add: hf h1(1) X_ALLOC_def)
  then have "xobj_get_obj junk cl X_ALLOC (h\<lparr>oh_heap := g\<rparr>) = Some (Some (fst c + base), h')"
    using r(1) hf(5) by (simp add: xobj_get_obj_def h'_def flip: y_def)
  moreover have "obj_rep h' st (cs @ [c]) (\<lambda>_. []) fl" using r(2) [of free_lock] by (simp add: h'_def)
  moreover have "heap_rep (oh_heap h') st (cs @ [c]) (\<lambda>_. [])" using calculation(2) by (simp add: obj_rep_def)
  then have "bump (oh_heap h') st (cs @ [c]) bs" using a(2) h1(4) by (auto simp: bump_def fits_def h'_def in_classes_def classes_def)
  moreover have "fl \<noteq> []" "oh_lock h' = free_lock" "oh_base h' = base" "hp_unit (oh_heap h') = hp_unit g" "hp_size (oh_heap h') = hp_size g"
    using a(4,5) h1(3,4) by (auto simp: fl_def h'_def)
  moreover have "base < fst c + base" "fst c + base < base + hp_size g" using a(6,7) w by (simp_all add: c_def HDR_def)
  ultimately show ?thesis by blast
qed

section \<open>The steps of the initialisation\<close>

text \<open>
  A segment in the making: its heap has page size \<open>2 ^ u\<close> and \<open>sz\<close> bytes, begins at \<open>base\<close> and has
  room for \<open>bs\<close>. \<open>stage\<close> holds once there is a handler of handlers, with the free objects \<open>fl\<close>.
\<close>

definition room :: "nat \<Rightarrow> nat \<Rightarrow> nat \<Rightarrow> xseg \<Rightarrow> nat \<Rightarrow> (nat \<times> nat) list \<Rightarrow> nat list \<Rightarrow> bool" where
  "room u sz base s st cs bs \<longleftrightarrow> bump (sg_heap s) st cs bs \<and> hp_unit (sg_heap s) = u \<and> hp_size (sg_heap s) = sz \<and>
     sg_base s = base \<and> 0 < base \<and> base + sz < 2 ^ 63"

definition stage :: "nat \<Rightarrow> nat \<Rightarrow> nat \<Rightarrow> xseg \<Rightarrow> nat \<Rightarrow> (nat \<times> nat) list \<Rightarrow> nat list \<Rightarrow> nat list \<Rightarrow> bool" where
  "stage u sz base s st cs fl bs \<longleftrightarrow> room u sz base s st cs bs \<and>
     obj_rep ((sg_object_handlers s)\<lparr>oh_heap := sg_heap s\<rparr>) st cs (\<lambda>_. []) fl \<and>
     oh_lock (sg_object_handlers s) = free_lock \<and> oh_base (sg_object_handlers s) = base"

lemma init_room_cong:
  "sg_heap t = sg_heap s \<Longrightarrow> sg_base t = sg_base s \<Longrightarrow> room u sz base t st cs bs = room u sz base s st cs bs"
  by (simp add: room_def)

lemma stage_cong:
  "sg_heap t = sg_heap s \<Longrightarrow> sg_base t = sg_base s \<Longrightarrow> sg_object_handlers t = sg_object_handlers s \<Longrightarrow>
     stage u sz base t st cs fl bs = stage u sz base s st cs fl bs"
  by (simp add: stage_def init_room_cong [of t s])

lemma need_room:
  assumes r: "room u sz base s st cs (b # bs)"
    and Q: "\<And>p h c. room u sz base (s\<lparr>sg_heap := h\<rparr>) st (cs @ [c]) bs \<Longrightarrow> keeps (sg_heap s) h \<Longrightarrow> base < p \<Longrightarrow> p < base + sz \<Longrightarrow>
      chunk_size (s\<lparr>sg_heap := h\<rparr>) p = payload u b \<Longrightarrow> Q (f p (s\<lparr>sg_heap := h\<rparr>))"
  shows "Q (need cl b f s)"
proof -
  from r have b: "bump (sg_heap s) st cs (b # bs)" and f: "hp_unit (sg_heap s) = u" "hp_size (sg_heap s) = sz" "sg_base s = base"
    "0 < base" "base + sz < 2 ^ 63" by (simp_all add: room_def)
  define a where "a = hp_cur (sg_heap s) + HDR"
  obtain h where h: "xheap_allocate cl b (sg_heap s) = Some (Some a, h)" "bump h st (cs @ [(a, payload u b)]) bs" "keeps (sg_heap s) h"
    "hp_unit h = u" "hp_size h = sz" "a + payload u b \<le> sz" "xheap_get_chunk_size h a = payload u b"
    using bump_alloc [OF b, of cl] f unfolding a_def by auto
  from h(2) have hr: "heap_rep h st (cs @ [(a, payload u b)]) (\<lambda>_. [])" by (simp add: bump_def)
  have "8 \<le> payload u b" using chunk_bounds(3) [OF hr, of a "payload u b"] by simp
  with h(6) f have p: "base < a + base" "a + base < base + sz" by (simp_all add: a_def HDR_def)
  have "need cl b f s = f (a + base) (s\<lparr>sg_heap := h\<rparr>)" using h(1) f by (simp add: need_def seg_alloc_def)
  moreover have "Q (f (a + base) (s\<lparr>sg_heap := h\<rparr>))"
    using h f p by (intro Q) (auto simp: room_def chunk_size_def)
  ultimately show ?thesis by simp
qed

lemma stage_grow:
  assumes "stage u sz base s st cs fl bs'" and "room u sz base (s\<lparr>sg_heap := h\<rparr>) st (cs @ cs') bs" and "keeps (sg_heap s) h"
  shows "stage u sz base (s\<lparr>sg_heap := h\<rparr>) st (cs @ cs') fl bs"
proof -
  have hr: "heap_rep h st (cs @ cs') (\<lambda>_. [])" using assms(2) by (simp add: room_def bump_def)
  from assms(1) have "obj_rep ((sg_object_handlers s)\<lparr>oh_heap := sg_heap s\<rparr>) st cs (\<lambda>_. []) fl" by (simp add: stage_def)
  from obj_grow [OF this hr] assms show ?thesis by (auto simp: stage_def)
qed

lemma need_stage:
  assumes "stage u sz base s st cs fl (b # bs)"
    and "\<And>p h cs. stage u sz base (s\<lparr>sg_heap := h\<rparr>) st cs fl bs \<Longrightarrow> base < p \<Longrightarrow> p < base + sz \<Longrightarrow>
      chunk_size (s\<lparr>sg_heap := h\<rparr>) p = payload u b \<Longrightarrow> Q (f p (s\<lparr>sg_heap := h\<rparr>))"
  shows "Q (need cl b f s)"
proof (rule need_room)
  show "room u sz base s st cs (b # bs)" using assms(1) by (simp add: stage_def)
qed (use stage_grow [OF assms(1)] assms(2) in blast)

lemma objh_init:
  assumes s: "stage u sz base s st cs fl (hash_bytes # bs)" and m: "24 \<le> msz"
  shows "\<exists>h g cs'. init_objh junk cl magic msz h0 s = Some (0, h, s\<lparr>sg_heap := g\<rparr>) \<and>
    stage u sz base (s\<lparr>sg_heap := g\<rparr>) st cs' fl bs \<and> handler_new junk base msz h"
proof -
  from s have b: "bump (sg_heap s) st cs (hash_bytes # bs)" and f: "hp_unit (sg_heap s) = u" "hp_size (sg_heap s) = sz" "sg_base s = base"
    "0 < base" "base + sz < 2 ^ 63" by (simp_all add: stage_def room_def)
  obtain h cs' where h: "xobj_handler_init junk cl base magic msz (sg_heap s) h0 = Some (0, h)" "handler_new junk base msz h"
    "bump (oh_heap h) st (cs @ cs') bs" "keeps (sg_heap s) (oh_heap h)" "hp_unit (oh_heap h) = u" "hp_size (oh_heap h) = sz"
    using handler_init [OF b m, of junk cl base magic h0] f by auto
  have "room u sz base (s\<lparr>sg_heap := oh_heap h\<rparr>) st (cs @ cs') bs" using h f by (simp add: room_def)
  from stage_grow [OF s this h(4)] h(1,2) f(3) show ?thesis by (auto simp: init_objh_def)
qed

lemma need_objh_after:
  assumes g: "get_objh junk cl s = Some (p, s')" "p \<noteq> 0" and s: "stage u sz base s' st cs fl (hash_bytes # bs)" and m: "24 \<le> msz"
    and Q: "\<And>h g cs. stage u sz base (s'\<lparr>sg_heap := g\<rparr>) st cs fl bs \<Longrightarrow> handler_new junk base msz h \<Longrightarrow> Q (f p h (s'\<lparr>sg_heap := g\<rparr>))"
  shows "Q (need_objh junk cl magic msz f s)"
proof -
  from objh_init [OF s m, of junk cl magic "sg_objh_at s' p"] obtain h g' cs' where
    h: "init_objh junk cl magic msz (sg_objh_at s' p) s' = Some (0, h, s'\<lparr>sg_heap := g'\<rparr>)"
    "stage u sz base (s'\<lparr>sg_heap := g'\<rparr>) st cs' fl bs" "handler_new junk base msz h" by blast
  have "need_objh junk cl magic msz f s = f p h (s'\<lparr>sg_heap := g'\<rparr>)" using g h(1) by (simp add: need_objh_def)
  with Q [OF h(2,3)] show ?thesis by simp
qed

text \<open>The first and the next handler made in an object of the handler of handlers.\<close>

lemma need_objh_first:
  assumes r: "room u sz base s st cs (64 * w # hash_bytes # bs)" and h: "handler_new junk base w (sg_object_handlers s)"
    and w: "24 \<le> w" "24 \<le> msz" and j: "fresh_ok junk"
    and Q: "\<And>p hh oh g cs fl. fl \<noteq> [] \<Longrightarrow> stage u sz base (s\<lparr>sg_object_handlers := oh, sg_heap := g\<rparr>) st cs fl bs \<Longrightarrow>
      base < p \<Longrightarrow> p < base + sz \<Longrightarrow> handler_new junk base msz hh \<Longrightarrow> Q (f p hh (s\<lparr>sg_object_handlers := oh, sg_heap := g\<rparr>))"
  shows "Q (need_objh junk cl magic msz f s)"
proof -
  from r have b: "bump (sg_heap s) st cs (64 * w # hash_bytes # bs)" and f: "hp_unit (sg_heap s) = u" "hp_size (sg_heap s) = sz"
    "sg_base s = base" "0 < base" "base + hp_size (sg_heap s) < 2 ^ 63" by (simp_all add: room_def)
  from first_obj [OF h w(1) b j f(5), of cl] obtain p fl oh c where
    p: "xobj_get_obj junk cl X_ALLOC ((sg_object_handlers s)\<lparr>oh_heap := sg_heap s\<rparr>) = Some (Some p, oh)"
    "obj_rep oh st (cs @ [c]) (\<lambda>_. []) fl" "fl \<noteq> []" "oh_lock oh = free_lock" "oh_base oh = base" "bump (oh_heap oh) st (cs @ [c]) (hash_bytes # bs)"
    "hp_unit (oh_heap oh) = u" "hp_size (oh_heap oh) = sz" "base < p" "p < base + sz" using f by auto
  define t where "t = s\<lparr>sg_object_handlers := oh, sg_heap := oh_heap oh\<rparr>"
  have g: "get_objh junk cl s = Some (p, t)" using p(1) by (simp add: get_objh_def t_def)
  have "stage u sz base t st (cs @ [c]) fl (hash_bytes # bs)"
    using p f by (simp add: stage_def room_def t_def)
  from need_objh_after [OF g _ this w(2), where Q = Q] Q p(3,9,10) show ?thesis by (auto simp: t_def)
qed

lemma need_objh_next:
  assumes s: "stage u sz base s st cs (q # fl) (hash_bytes # bs)" and m: "24 \<le> msz"
    and Q: "\<And>hh oh g cs. stage u sz base (s\<lparr>sg_object_handlers := oh, sg_heap := g\<rparr>) st cs fl bs \<Longrightarrow>
      base < q \<Longrightarrow> q < base + sz \<Longrightarrow> handler_new junk base msz hh \<Longrightarrow> Q (f q hh (s\<lparr>sg_object_handlers := oh, sg_heap := g\<rparr>))"
  shows "Q (need_objh junk cl magic msz f s)"
proof -
  let ?h = "(sg_object_handlers s)\<lparr>oh_heap := sg_heap s\<rparr>"
  from s have o: "obj_rep ?h st cs (\<lambda>_. []) (q # fl)" and lk: "unlocked (oh_lock ?h)"
    and f: "sg_base s = base" "0 < base" "hp_size (sg_heap s) = sz" by (simp_all add: stage_def room_def)
  from get_rep [OF o lk, of junk cl X_ALLOC] obtain oh where
    oh: "xobj_get_obj junk cl X_ALLOC ?h = Some (Some q, oh)" "obj_rep oh st cs (\<lambda>_. []) fl" "oh_lock oh = free_lock"
    "oh_heap oh = sg_heap s" "oh_base oh = base" using s by (auto simp: stage_def)
  define t where "t = s\<lparr>sg_object_handlers := oh, sg_heap := sg_heap s\<rparr>"
  have g: "get_objh junk cl s = Some (q, t)" using oh(1,4) by (simp add: get_objh_def t_def)
  have "oh\<lparr>oh_heap := sg_heap s\<rparr> = oh" by (subst oh(4) [symmetric]) simp
  with oh(2) have o': "obj_rep (oh\<lparr>oh_heap := sg_heap s\<rparr>) st cs (\<lambda>_. []) fl" by (simp only:)
  have st: "stage u sz base t st cs fl (hash_bytes # bs)"
    using s oh(3,5) o' init_room_cong [of t s] by (simp add: stage_def t_def)
  have sl: "slot ?h cs (\<lambda>_. []) q" and hr: "heap_rep (sg_heap s) st cs (\<lambda>_. [])" and w: "24 \<le> oh_obj_size ?h"
    using o by (simp_all add: obj_rep_def XOBJ_SIZE_def)
  obtain a n where a: "(a, n) \<in> live (sg_heap s) cs (\<lambda>_. [])" "a \<le> q - base" "q - base + oh_obj_size ?h \<le> a + n" "base \<le> q"
    using slot_bounds [OF sl] s by (auto simp: stage_def)
  from chunk_bounds(2,5) [OF hr live_in [OF a(1)]] rep_fields [OF hr] a(2-4) w f have q: "base < q" "q < base + sz"
    by (auto simp: HDR_def)
  show ?thesis
  proof (rule need_objh_after [OF g _ st m])
    show "q \<noteq> 0" using o by (simp add: obj_rep_def)
    show "Q (f q h (t\<lparr>sg_heap := g\<rparr>))" if "stage u sz base (t\<lparr>sg_heap := g\<rparr>) st cs fl bs" "handler_new junk base msz h" for h g cs
      using Q [OF _ q that(2)] that(1) by (simp add: t_def)
  qed
qed

section \<open>The whole initialisation\<close>

text \<open>The sizes that are allocated, in order: \<open>n\<close> ports, and pages of \<open>2 ^ u\<close> bytes.\<close>

definition peer_slots :: "nat \<Rightarrow> nat" where
  "peer_slots u = unat (of_nat (payload u (2 ^ u) div XSEG_TNAMESIZE) :: u32)"

definition shared_bytes :: "nat \<Rightarrow> nat list" where
  "shared_bytes u = [SHARED_SIZE, 2 ^ u, peer_slots u * 8]"

definition table_bytes :: "nat \<Rightarrow> nat \<Rightarrow> nat list" where
  "table_bytes u n = [8 * n, 4 * n, 4 * n] @ shared_bytes u"

definition init_bytes :: "nat \<Rightarrow> nat \<Rightarrow> nat list" where
  "init_bytes u n = [OBJH_SIZE, hash_bytes, 64 * OBJH_SIZE, hash_bytes, hash_bytes] @ table_bytes u n"

text \<open>What the steps leave: a place in the heap for each part, and the contents of the tables.\<close>

definition placed :: "nat \<Rightarrow> nat \<Rightarrow> nat \<Rightarrow> bool" where
  "placed sz base p \<longleftrightarrow> base < p \<and> p < base + sz"

definition handlers_made :: "(nat \<Rightarrow> u64 list) \<Rightarrow> nat \<Rightarrow> nat \<Rightarrow> xseg \<Rightarrow> bool" where
  "handlers_made junk sz base s \<longleftrightarrow>
     handler_new junk base REQUEST_SIZE (sg_request_h s) \<and> handler_new junk base PORT_SIZE (sg_port_h s) \<and>
     placed sz base (sp_object_handlers (sg_ptrs s)) \<and> placed sz base (sp_request_h (sg_ptrs s)) \<and>
     placed sz base (sp_port_h (sg_ptrs s))"

definition tables_made :: "nat \<Rightarrow> nat \<Rightarrow> nat \<Rightarrow> xseg_config \<Rightarrow> xseg \<Rightarrow> bool" where
  "tables_made u sz base cfg s \<longleftrightarrow> (let n = unat (cf_nr_ports cfg) in
     sg_ports s = replicate n 0 \<and> sg_path_next s = replicate n NoPort \<and> sg_dst_gw s = replicate n NoPort \<and>
     placed sz base (sp_ports (sg_ptrs s)) \<and> placed sz base (sp_path_next (sg_ptrs s)) \<and> placed sz base (sp_dst_gw (sg_ptrs s)))"

definition shared_made :: "nat \<Rightarrow> nat \<Rightarrow> nat \<Rightarrow> xseg_config \<Rightarrow> xseg \<Rightarrow> bool" where
  "shared_made u sz base cfg s \<longleftrightarrow> sg_config s = cfg \<and> sg_segment_lock s = free_lock \<and> sg_nr_peer_types s = 0 \<and>
     sg_max_peer_types s = peer_slots u \<and> sg_peer_type_data s = replicate (peer_slots u) 0 \<and>
     sg_counters s = \<lparr>ct_avg_req_lat = 0, ct_req_cnt = 0\<rparr> \<and> sg_shared_flags s = 0 \<and>
     placed sz base (sp_shared (sg_ptrs s)) \<and> placed sz base (sp_peer_types (sg_ptrs s)) \<and>
     placed sz base (sp_peer_type_data (sg_ptrs s))"

text \<open>The fields that the last steps keep.\<close>

definition same_setup :: "xseg \<Rightarrow> xseg \<Rightarrow> bool" where
  "same_setup s t \<longleftrightarrow> sg_version t = sg_version s \<and> sg_segment_size t = sg_segment_size s \<and> sg_segment t = sg_segment s \<and>
     sp_heap (sg_ptrs t) = sp_heap (sg_ptrs s) \<and> sp_object_handlers (sg_ptrs t) = sp_object_handlers (sg_ptrs s) \<and>
     sp_request_h (sg_ptrs t) = sp_request_h (sg_ptrs s) \<and> sp_port_h (sg_ptrs t) = sp_port_h (sg_ptrs s) \<and>
     sg_request_h t = sg_request_h s \<and> sg_port_h t = sg_port_h s"

lemma shared_init:
  assumes s: "stage u sz base s st cs fl (shared_bytes u)" and pg: "unat page = 2 ^ u"
  shows "\<exists>t cs. init_shared names cl page cfg s = Some (0, t) \<and> stage u sz base t st cs fl [] \<and> shared_made u sz base cfg t \<and>
    same_setup s t \<and> sg_ports t = sg_ports s \<and> sg_path_next t = sg_path_next s \<and> sg_dst_gw t = sg_dst_gw s \<and>
    sp_ports (sg_ptrs t) = sp_ports (sg_ptrs s) \<and> sp_path_next (sg_ptrs t) = sp_path_next (sg_ptrs s) \<and>
    sp_dst_gw (sg_ptrs t) = sp_dst_gw (sg_ptrs s)" (is "?Q (init_shared names cl page cfg s)")
  unfolding init_shared_def Let_def
proof (rule need_stage [where Q = ?Q, OF s [unfolded shared_bytes_def]], rule need_stage [where Q = ?Q])
  fix p h cs assume 1: "stage u sz base (s\<lparr>sg_heap := h\<rparr>) st cs fl [2 ^ u, peer_slots u * 8]" "base < p" "p < base + sz"
  let ?s1 = "(s\<lparr>sg_heap := h\<rparr>)\<lparr>sg_ptrs := (sg_ptrs (s\<lparr>sg_heap := h\<rparr>))\<lparr>sp_shared := p\<rparr>, sg_shared_flags := 0, sg_nr_peer_types := 0,
     sg_segment_lock := xlock_release (sg_segment_lock (s\<lparr>sg_heap := h\<rparr>))\<rparr>"
  show "stage u sz base ?s1 st cs fl (unat page # [peer_slots u * 8])" using 1(1) unfolding pg by (subst stage_cong) simp_all
  fix q h' cs' assume 2: "stage u sz base (?s1\<lparr>sg_heap := h'\<rparr>) st cs' fl [peer_slots u * 8]" "base < q" "q < base + sz"
    "chunk_size (?s1\<lparr>sg_heap := h'\<rparr>) q = payload u (unat page)"
  have n: "unat (of_nat (chunk_size (?s1\<lparr>sg_heap := h'\<rparr>) q div XSEG_TNAMESIZE) :: u32) = peer_slots u"
    unfolding 2(4) pg peer_slots_def ..
  show "?Q (need cl (unat (of_nat (chunk_size (?s1\<lparr>sg_heap := h'\<rparr>) q div XSEG_TNAMESIZE) :: u32) * 8) (\<lambda>r s. Some (0, s\<lparr>sg_ptrs := (sg_ptrs s)\<lparr>sp_peer_type_data := r\<rparr>,
      sg_peer_type_data := replicate (unat (of_nat (chunk_size (?s1\<lparr>sg_heap := h'\<rparr>) q div XSEG_TNAMESIZE) :: u32)) 0, sg_config := cfg,
      sg_counters := \<lparr>ct_avg_req_lat = 0, ct_req_cnt = 0\<rparr>\<rparr>))
    ((?s1\<lparr>sg_heap := h'\<rparr>)\<lparr>sg_ptrs := (sg_ptrs (?s1\<lparr>sg_heap := h'\<rparr>))\<lparr>sp_peer_types := q\<rparr>,
      sg_peer_types := names (unat (of_nat (chunk_size (?s1\<lparr>sg_heap := h'\<rparr>) q div XSEG_TNAMESIZE) :: u32)),
      sg_max_peer_types := unat (of_nat (chunk_size (?s1\<lparr>sg_heap := h'\<rparr>) q div XSEG_TNAMESIZE) :: u32)\<rparr>))"
    unfolding n
  proof (rule need_stage [where Q = ?Q])
    let ?s2 = "(?s1\<lparr>sg_heap := h'\<rparr>)\<lparr>sg_ptrs := (sg_ptrs (?s1\<lparr>sg_heap := h'\<rparr>))\<lparr>sp_peer_types := q\<rparr>,
      sg_peer_types := names (peer_slots u), sg_max_peer_types := peer_slots u\<rparr>"
    show "stage u sz base ?s2 st cs' fl [peer_slots u * 8]" using 2(1) by (subst stage_cong) simp_all
    fix r g ds assume 3: "stage u sz base (?s2\<lparr>sg_heap := g\<rparr>) st ds fl []" "base < r" "r < base + sz"
    let ?t = "(?s2\<lparr>sg_heap := g\<rparr>)\<lparr>sg_ptrs := (sg_ptrs (?s2\<lparr>sg_heap := g\<rparr>))\<lparr>sp_peer_type_data := r\<rparr>,
      sg_peer_type_data := replicate (peer_slots u) 0, sg_config := cfg, sg_counters := \<lparr>ct_avg_req_lat = 0, ct_req_cnt = 0\<rparr>\<rparr>"
    have "stage u sz base ?t st ds fl []" using 3(1) by (subst stage_cong) simp_all
    then show "?Q (Some (0, ?t))"
      using 1(2,3) 2(2,3) 3(2,3) by (intro exI [of _ ?t] exI [of _ ds]) (simp add: shared_made_def same_setup_def placed_def)
  qed
qed

lemma tables_init:
  assumes s: "stage u sz base s st cs fl (table_bytes u (unat (cf_nr_ports cfg)))" and pg: "unat page = 2 ^ u"
  shows "\<exists>t cs. init_tables names cl page cfg s = Some (0, t) \<and> stage u sz base t st cs fl [] \<and> shared_made u sz base cfg t \<and>
    tables_made u sz base cfg t \<and> same_setup s t" (is "?Q (init_tables names cl page cfg s)")
  unfolding init_tables_def Let_def
proof (rule need_stage [where Q = ?Q, OF s [unfolded table_bytes_def append_Cons append_Nil]],
    rule need_stage [where Q = ?Q])
  let ?n = "unat (cf_nr_ports cfg)"
  fix p h cs assume p0: "stage u sz base (s\<lparr>sg_heap := h\<rparr>) st cs fl (4 * ?n # 4 * ?n # shared_bytes u)" and p: "base < p" "p < base + sz"
  let ?s1 = "(s\<lparr>sg_heap := h\<rparr>)\<lparr>sg_ptrs := (sg_ptrs (s\<lparr>sg_heap := h\<rparr>))\<lparr>sp_ports := p\<rparr>, sg_ports := replicate ?n 0\<rparr>"
  show "stage u sz base ?s1 st cs fl (4 * ?n # 4 * ?n # shared_bytes u)" using p0 by (subst stage_cong) simp_all
  fix q h' cs' assume q: "stage u sz base (?s1\<lparr>sg_heap := h'\<rparr>) st cs' fl (4 * ?n # shared_bytes u)" "base < q" "q < base + sz"
  let ?s2 = "(?s1\<lparr>sg_heap := h'\<rparr>)\<lparr>sg_ptrs := (sg_ptrs (?s1\<lparr>sg_heap := h'\<rparr>))\<lparr>sp_path_next := q\<rparr>, sg_path_next := replicate ?n NoPort\<rparr>"
  let ?k = "need cl (4 * ?n) (\<lambda>r s. init_shared names cl page cfg
              (s\<lparr>sg_ptrs := (sg_ptrs s)\<lparr>sp_dst_gw := r\<rparr>, sg_dst_gw := replicate ?n NoPort\<rparr>))"
  show "?Q (?k ?s2)"
  proof (rule need_stage [where Q = ?Q])
    show "stage u sz base ?s2 st cs' fl (4 * ?n # shared_bytes u)" using q(1) by (subst stage_cong) simp_all
    fix r g ds assume r: "stage u sz base (?s2\<lparr>sg_heap := g\<rparr>) st ds fl (shared_bytes u)" "base < r" "r < base + sz"
    let ?t = "(?s2\<lparr>sg_heap := g\<rparr>)\<lparr>sg_ptrs := (sg_ptrs (?s2\<lparr>sg_heap := g\<rparr>))\<lparr>sp_dst_gw := r\<rparr>, sg_dst_gw := replicate ?n NoPort\<rparr>"
    have "stage u sz base ?t st ds fl (shared_bytes u)" using r(1) by (subst stage_cong) simp_all
    from shared_init [OF this pg, of names cl cfg] obtain t ds' where
      t: "init_shared names cl page cfg ?t = Some (0, t)" "stage u sz base t st ds' fl []" "shared_made u sz base cfg t" "same_setup ?t t"
      "sg_ports t = replicate ?n 0" "sg_path_next t = replicate ?n NoPort" "sg_dst_gw t = replicate ?n NoPort"
      "sp_ports (sg_ptrs t) = p" "sp_path_next (sg_ptrs t) = q" "sp_dst_gw (sg_ptrs t) = r" by auto
    then show "?Q (init_shared names cl page cfg ?t)"
      using p q(2,3) r(2,3) by (intro exI [of _ t] exI [of _ ds']) (simp add: tables_made_def same_setup_def placed_def)
  qed
qed

definition more_handlers where
  "more_handlers junk cl f =
     need_objh junk cl MAGIC_REQ REQUEST_SIZE (\<lambda>p h s.
       need_objh junk cl MAGIC_PORT PORT_SIZE (\<lambda>q h s. f (s\<lparr>sg_ptrs := (sg_ptrs s)\<lparr>sp_port_h := q\<rparr>, sg_port_h := h\<rparr>))
       (s\<lparr>sg_ptrs := (sg_ptrs s)\<lparr>sp_request_h := p\<rparr>, sg_request_h := h\<rparr>))"

lemma object_sizes: "24 \<le> OBJH_SIZE" "24 \<le> REQUEST_SIZE" "24 \<le> PORT_SIZE"
  by (simp_all add: OBJH_SIZE_def REQUEST_SIZE_def PORT_SIZE_def)

lemma more_handlers_init:
  assumes s: "room u sz base s st cs (64 * OBJH_SIZE # hash_bytes # hash_bytes # table_bytes u (unat (cf_nr_ports cfg)))"
    and h: "handler_new junk base OBJH_SIZE (sg_object_handlers s)" and p: "placed sz base (sp_object_handlers (sg_ptrs s))"
    and j: "fresh_ok junk" and pg: "unat page = 2 ^ u"
  shows "\<exists>t cs fl. more_handlers junk cl (init_tables names cl page cfg) s = Some (0, t) \<and> stage u sz base t st cs fl [] \<and>
    handlers_made junk sz base t \<and> shared_made u sz base cfg t \<and> tables_made u sz base cfg t \<and>
    sg_version t = sg_version s \<and> sg_segment_size t = sg_segment_size s \<and> sg_segment t = sg_segment s \<and>
    sp_heap (sg_ptrs t) = sp_heap (sg_ptrs s)" (is "?Q (more_handlers junk cl (init_tables names cl page cfg) s)")
  unfolding more_handlers_def
proof (rule need_objh_first [where Q = ?Q, OF s h object_sizes(1,2) j])
  let ?tb = "table_bytes u (unat (cf_nr_ports cfg))" and ?f = "init_tables names cl page cfg"
  fix q rh oh g es and fl :: "nat list" assume fl: "fl \<noteq> []"
    and 2: "stage u sz base (s\<lparr>sg_object_handlers := oh, sg_heap := g\<rparr>) st es fl (hash_bytes # ?tb)"
      "base < q" "q < base + sz" "handler_new junk base REQUEST_SIZE rh"
  let ?s3 = "s\<lparr>sg_object_handlers := oh, sg_heap := g\<rparr>"
  let ?s4 = "?s3\<lparr>sg_ptrs := (sg_ptrs ?s3)\<lparr>sp_request_h := q\<rparr>, sg_request_h := rh\<rparr>"
  obtain x fl' where xs: "fl = x # fl'" using fl by (cases fl) simp_all
  show "?Q (need_objh junk cl MAGIC_PORT PORT_SIZE (\<lambda>q h s. ?f (s\<lparr>sg_ptrs := (sg_ptrs s)\<lparr>sp_port_h := q\<rparr>, sg_port_h := h\<rparr>)) ?s4)"
  proof (rule need_objh_next [where Q = ?Q, OF _ object_sizes(3)])
    show "stage u sz base ?s4 st es (x # fl') (hash_bytes # ?tb)" using 2(1) unfolding xs by (subst stage_cong) simp_all
    fix ph oh' g' es' assume 3: "stage u sz base (?s4\<lparr>sg_object_handlers := oh', sg_heap := g'\<rparr>) st es' fl' ?tb"
      "base < x" "x < base + sz" "handler_new junk base PORT_SIZE ph"
    let ?s5 = "?s4\<lparr>sg_object_handlers := oh', sg_heap := g'\<rparr>"
    let ?s6 = "?s5\<lparr>sg_ptrs := (sg_ptrs ?s5)\<lparr>sp_port_h := x\<rparr>, sg_port_h := ph\<rparr>"
    have "stage u sz base ?s6 st es' fl' ?tb" using 3(1) by (subst stage_cong) simp_all
    from tables_init [OF this pg, of names cl] obtain t us where
      "?f ?s6 = Some (0, t)" "stage u sz base t st us fl' []" "shared_made u sz base cfg t" "tables_made u sz base cfg t" "same_setup ?s6 t"
      by blast
    then show "?Q (?f ?s6)" using p 2(2-4) 3(2-4)
      by (intro exI [of _ t] exI [of _ us] exI [of _ fl']) (simp add: handlers_made_def same_setup_def placed_def)
  qed
qed

lemma handlers_init:
  assumes s: "room u sz base s st cs (init_bytes u (unat (cf_nr_ports cfg)))" and j: "fresh_ok junk" and pg: "unat page = 2 ^ u"
  shows "\<exists>t cs fl. init_handlers junk cl (init_tables names cl page cfg) s = Some (0, t) \<and> stage u sz base t st cs fl [] \<and>
    handlers_made junk sz base t \<and> shared_made u sz base cfg t \<and> tables_made u sz base cfg t \<and>
    sg_version t = sg_version s \<and> sg_segment_size t = sg_segment_size s \<and> sg_segment t = sg_segment s \<and>
    sp_heap (sg_ptrs t) = sp_heap (sg_ptrs s)" (is "?Q (init_handlers junk cl ?f s)")
  unfolding init_handlers_def more_handlers_def [symmetric]
proof (rule need_room [where Q = ?Q, OF s [unfolded init_bytes_def append_Cons append_Nil]])
  let ?bs = "64 * OBJH_SIZE # hash_bytes # hash_bytes # table_bytes u (unat (cf_nr_ports cfg))"
  fix p h c assume r: "room u sz base (s\<lparr>sg_heap := h\<rparr>) st (cs @ [c]) (hash_bytes # ?bs)" and p: "base < p" "p < base + sz"
  let ?s1 = "(s\<lparr>sg_heap := h\<rparr>)\<lparr>sg_ptrs := (sg_ptrs (s\<lparr>sg_heap := h\<rparr>))\<lparr>sp_object_handlers := p\<rparr>\<rparr>"
  from r have b: "bump h st (cs @ [c]) (hash_bytes # ?bs)"
    and f: "hp_unit h = u" "hp_size h = sz" "sg_base s = base" "0 < base" "base + sz < 2 ^ 63" by (simp_all add: room_def)
  from handler_init [OF b object_sizes(1), of junk cl base MAGIC_OBJH "sg_object_handlers ?s1"] obtain oh ds where
    oh: "xobj_handler_init junk cl base MAGIC_OBJH OBJH_SIZE h (sg_object_handlers ?s1) = Some (0, oh)" "handler_new junk base OBJH_SIZE oh"
    "bump (oh_heap oh) st ((cs @ [c]) @ ds) ?bs" "hp_unit (oh_heap oh) = u" "hp_size (oh_heap oh) = sz" using f by auto
  let ?s2 = "(?s1\<lparr>sg_heap := oh_heap oh\<rparr>)\<lparr>sg_object_handlers := oh\<rparr>"
  have r2: "room u sz base ?s2 st ((cs @ [c]) @ ds) ?bs" using oh f by (simp add: room_def)
  have e: "init_objh junk cl MAGIC_OBJH OBJH_SIZE (sg_object_handlers ?s1) ?s1 = Some (0, oh, ?s1\<lparr>sg_heap := oh_heap oh\<rparr>)"
    using oh(1) f(3) by (simp add: init_objh_def)
  have "handler_new junk base OBJH_SIZE (sg_object_handlers ?s2)" "placed sz base (sp_object_handlers (sg_ptrs ?s2))"
    using oh(2) p by (simp_all add: placed_def)
  from more_handlers_init [OF r2 this j pg, of cl names] have "?Q (more_handlers junk cl ?f ?s2)" by simp
  then show "?Q (let s = ?s1 in do {
       (r, h, s) \<leftarrow> init_objh junk cl MAGIC_OBJH OBJH_SIZE (sg_object_handlers s) s;
       if r < 0 then Some (-1, s) else more_handlers junk cl ?f (s\<lparr>sg_object_handlers := h\<rparr>) })"
    unfolding Let_def e by simp
qed

text \<open>A segment ready for use: its heap and its handlers are in order and no lock is held.\<close>

definition segment_ready :: "xseg \<Rightarrow> bool" where
  "segment_ready s \<longleftrightarrow> (\<exists>st cs fl.
     heap_ready s st cs (\<lambda>_. []) \<and> obj_rep ((sg_object_handlers s)\<lparr>oh_heap := sg_heap s\<rparr>) st cs (\<lambda>_. []) fl \<and>
     obj_rep ((sg_request_h s)\<lparr>oh_heap := sg_heap s\<rparr>) st cs (\<lambda>_. []) [] \<and>
     obj_rep ((sg_port_h s)\<lparr>oh_heap := sg_heap s\<rparr>) st cs (\<lambda>_. []) []) \<and>
   unlocked (sg_segment_lock s) \<and> unlocked (oh_lock (sg_object_handlers s)) \<and> unlocked (oh_lock (sg_request_h s)) \<and>
   unlocked (oh_lock (sg_port_h s))"

lemma made_ready:
  assumes s: "stage u sz base s st cs fl []" and h: "handlers_made junk sz base s" and sh: "shared_made u sz base cfg s"
  shows "segment_ready s"
proof -
  from s have hr: "heap_rep (sg_heap s) st cs (\<lambda>_. [])" "unlocked (hp_lock (sg_heap s))" by (simp_all add: stage_def room_def bump_def)
  from h have n: "handler_new junk base REQUEST_SIZE (sg_request_h s)" "handler_new junk base PORT_SIZE (sg_port_h s)"
    by (simp_all add: handlers_made_def)
  note reps = handler_new_rep [OF n(1) object_sizes(2) hr(1)] handler_new_rep [OF n(2) object_sizes(3) hr(1)]
  have "heap_ready s st cs (\<lambda>_. [])" using s hr by (simp add: heap_ready_def stage_def room_def)
  with reps s have "\<exists>st cs fl. heap_ready s st cs (\<lambda>_. []) \<and> obj_rep ((sg_object_handlers s)\<lparr>oh_heap := sg_heap s\<rparr>) st cs (\<lambda>_. []) fl \<and>
     obj_rep ((sg_request_h s)\<lparr>oh_heap := sg_heap s\<rparr>) st cs (\<lambda>_. []) [] \<and>
     obj_rep ((sg_port_h s)\<lparr>oh_heap := sg_heap s\<rparr>) st cs (\<lambda>_. []) []" unfolding stage_def by blast
  with n s sh show ?thesis by (simp add: segment_ready_def handler_new_def shared_made_def stage_def)
qed

lemma made_tables:
  assumes "shared_made u sz base cfg s" and "tables_made u sz base cfg s"
  shows "typed {} s" and "xseg_get_port s no = 0"
  using assms
  by (auto simp: typed_def tables_typed_def queues_def shared_made_def tables_made_def Let_def xseg_get_port_def validate_port_def
      word_less_nat_alt)

lemma made_pointers:
  assumes "handlers_made junk sz base s" and "shared_made u sz base cfg s" and "tables_made u sz base cfg s"
    and "sg_segment_size s = base + sz" and "sp_heap (sg_ptrs s) < base"
  shows "xseg_validate_pointers s = 0"
  using assms
  by (simp add: xseg_validate_pointers_def pointer_ok_def handlers_made_def shared_made_def tables_made_def placed_def Let_def)

text \<open>The sizes of the header: a page, and another one for the heap structure.\<close>

lemma header_sizes:
  fixes ps :: u32
  assumes u: "unat ps = u" "12 \<le> u" "u < 20"
  defines "page \<equiv> shl_int (unat ps)"
  shows "unat page = 2 ^ u" and "\<not> page < XSEG_MIN_PAGE_SIZE" and "unat (ucast page :: u64) = 2 ^ u"
    and "unat (ucast (2 * page) :: u64) = 2 * 2 ^ u" and "unat (align (ucast page + of_nat XHEAP_SIZE) (unat ps)) = 2 * 2 ^ u"
proof -
  have "(2 :: nat) ^ u \<le> 2 ^ 19" using u(3) by (intro power_increasing) auto
  then have le: "(2 :: nat) ^ u \<le> 524288" by simp
  have "(2 :: nat) ^ 12 \<le> 2 ^ u" using u(2) by (intro power_increasing) auto
  then have ge: "(4096 :: nat) \<le> 2 ^ u" by simp
  have "page = of_nat (2 ^ u)" using u by (simp add: page_def shl_int_def push_bit_eq_mult)
  moreover have "unat (of_nat (2 ^ u) :: u32) = 2 ^ u" unfolding unat_of_nat using le by (intro mod_less) simp
  ultimately show p: "unat page = 2 ^ u" by simp
  then show "\<not> page < XSEG_MIN_PAGE_SIZE" using ge by (simp add: XSEG_MIN_PAGE_SIZE_def word_less_nat_alt)
  show c: "unat (ucast page :: u64) = 2 ^ u" using p le by (simp add: unsigned_ucast_eq take_bit_eq_mod)
  have "unat (2 * page) = 2 * 2 ^ u" using p le by (simp add: unat_word_ariths)
  then show "unat (ucast (2 * page) :: u64) = 2 * 2 ^ u" using le by (simp add: unsigned_ucast_eq take_bit_eq_mod)
  define x where "x = (ucast page :: u64) + of_nat XHEAP_SIZE - 1"
  have x: "unat x = 2 ^ u + 47" using c le by (simp add: x_def XHEAP_SIZE_def unat_word_ariths)
  have "unat (drop_bit u x) = 1" unfolding unat_drop_bit_eq x using ge by (simp add: drop_bit_eq_div div_nat_eqI)
  then have "of_nat (unat (drop_bit u x)) = (1 :: u64)" by (simp only: of_nat_1)
  then have "drop_bit u x = 1" by (simp only: of_nat_unat ucast_id)
  then have "align (ucast page + of_nat XHEAP_SIZE) (unat ps) = push_bit u 2" by (simp add: align_def x_def [symmetric] u(1))
  also have "\<dots> = (of_nat (2 * 2 ^ u) :: u64)" by (simp add: push_bit_eq_mult)
  finally show "unat (align (ucast page + of_nat XHEAP_SIZE) (unat ps)) = 2 * 2 ^ u"
    using le by (simp only: unat_of_nat) (rule mod_less, simp)
qed

lemma segment_ok:
  assumes u: "unat (cf_page_shift cfg) = u" "12 \<le> u" "u < 20"
    and sz: "unat (cf_heap_size cfg) = sz" "sz < 2 ^ 61" "2 ^ u \<le> sz"
    and start: "cur = heap_start sz u (addr + 2 * 2 ^ u)" "cur < sz - 2 ^ u"
    and fit: "heap_room u sz cur (init_bytes u (unat (cf_nr_ports cfg)))" and j: "fresh_ok junk"
  shows "\<exists>t. initialize_segment ver junk names cl addr cfg s = Some (0, t) \<and> segment_ready t \<and> typed {} t \<and>
    xseg_validate_pointers t = 0 \<and> (\<forall>no. xseg_get_port t no = 0) \<and>
    sg_version t = ver \<and> sg_segment t = addr \<and> sg_config t = cfg \<and> sg_segment_size t = 2 * 2 ^ u + sz"
proof -
  define base where "base = (2 :: nat) * 2 ^ u"
  note hs = header_sizes [OF u]
  have "(2 :: nat) ^ u \<le> 2 ^ 19" using u(3) by (intro power_increasing) auto
  then have b: "0 < base" "base + sz < 2 ^ 63" using sz(2) by (simp_all add: base_def)
  have u5: "5 \<le> u" using u(2) by simp
  have "heap_start sz u (addr + base) < sz - 2 ^ u" using start by (simp only: base_def)
  from heap_init_rep [OF u5 u(3) sz(2,3) this] obtain h where
    h: "xheap_init sz u (addr + base) (sg_heap s) = (0, h)" "heap_rep h (hp_cur h) [] (\<lambda>_. [])" "unlocked (hp_lock h)"
    "hp_size h = sz" "hp_unit h = u" "hp_cur h = heap_start sz u (addr + base)" by blast
  have cur: "hp_cur h = cur" using h(6) start(1) by (simp only: base_def)
  define s1 where "s1 = s\<lparr>sg_version := ver, sg_segment_size := base + sz, sg_segment := addr,
      sg_ptrs := (sg_ptrs s)\<lparr>sp_heap := 2 ^ u\<rparr>, sg_base := base, sg_heap := h\<rparr>"
  have "room u sz base s1 (hp_cur h) [] (init_bytes u (unat (cf_nr_ports cfg)))"
    using h(2-5) b fit by (simp add: room_def bump_def fits_room s1_def cur)
  from handlers_init [OF this j hs(1), of cl names] obtain t cs fl where
    t: "init_handlers junk cl (init_tables names cl (shl_int (unat (cf_page_shift cfg))) cfg) s1 = Some (0, t)"
    "stage u sz base t (hp_cur h) cs fl []" "handlers_made junk sz base t" "shared_made u sz base cfg t" "tables_made u sz base cfg t"
    "sg_version t = ver" "sg_segment_size t = base + sz" "sg_segment t = addr" "sp_heap (sg_ptrs t) = 2 ^ u"
    by (auto simp: s1_def)
  have "unat (ucast (2 * shl_int (unat (cf_page_shift cfg))) + cf_heap_size cfg) = base + sz"
    using hs(4) sz(1) b(2) by (subst unat_word_ariths) (simp add: base_def)
  then have "initialize_segment ver junk names cl addr cfg s = Some (0, t)"
    using t(1) hs(2,3,5) h(1) u(1) sz(1) by (simp add: initialize_segment_def Let_def base_def s1_def)
  moreover have "sp_heap (sg_ptrs t) < base" using t(9) by (simp add: base_def)
  note p = made_pointers [OF t(3-5) t(7) this]
  moreover have "sg_config t = cfg" using t(4) by (simp add: shared_made_def)
  ultimately show ?thesis using made_ready [OF t(2-4)] made_tables [OF t(4,5)] t(6-8) by (auto simp: base_def)
qed

text \<open>
  C25. Initialising a segment whose heap has room for the structures of \<open>n\<close> ports succeeds. The
  segment then has the version, the address and the configuration it was given; all its
  pointers pass the check of a joining process; its tables have an entry for every port and no
  port is bound; it is well typed with no requests; its heap and its three
  handlers are in order, the handlers for requests and ports being empty; and no lock is held.
\<close>

theorem segment_initialised:
  assumes u: "unat (cf_page_shift cfg) = u" "12 \<le> u" "u < 20"
    and sz: "unat (cf_heap_size cfg) = sz" "sz < 2 ^ 61" "2 ^ u \<le> sz"
    and start: "cur = heap_start sz u (addr + 2 * 2 ^ u)" "cur < sz - 2 ^ u"
    and fit: "heap_room u sz cur (init_bytes u (unat (cf_nr_ports cfg)))" and j: "fresh_ok junk"
  shows "\<exists>t. initialize_segment ver junk names cl addr cfg s = Some (0, t) \<and> segment_ready t \<and> typed {} t \<and>
    xseg_validate_pointers t = 0 \<and> (\<forall>no. xseg_get_port t no = 0) \<and>
    sg_version t = ver \<and> sg_segment t = addr \<and> sg_config t = cfg \<and> sg_segment_size t = 2 * 2 ^ u + sz"
  by (rule segment_ok [OF assms])

section \<open>An example\<close>

definition demo_cfg :: xseg_config where
  "demo_cfg = \<lparr>cf_heap_size = 2 ^ 20, cf_nr_ports = 3, cf_dynports = 2, cf_page_shift = 12, cf_type = ''posix'', cf_name = ''demo''\<rparr>"

lemma demo_new_start: "heap_start (2 ^ 20) 12 (65536 + 2 * 2 ^ 12) = 4072"
  by (simp add: heap_start_def Let_def align64_def w64_def get_index_def get_alloc_bytes_def xheap_limits HDR_def skip_index.simps)

lemma demo_bytes:
  "get_alloc_bytes 12 96 = 4096" "get_alloc_bytes 12 192 = 4096" "get_alloc_bytes 12 6144 = 8192" "get_alloc_bytes 12 24 = 4096"
  "get_alloc_bytes 12 12 = 4096" "get_alloc_bytes 12 48 = 4096" "get_alloc_bytes 12 4096 = 8192" "get_alloc_bytes 12 2040 = 4096"
  "get_alloc_bytes 12 4072 = 4096" "get_alloc_bytes 12 8168 = 8192" "get_alloc_bytes 12 1048576 = 1064960"
  by (simp_all add: get_alloc_bytes_def align64_def w64_def xheap_limits HDR_def)

lemma demo_sizes:
  "init_bytes 12 3 = [96, 192, 6144, 192, 192, 24, 12, 12, 48, 4096, 2040]"
  by (simp add: init_bytes_def table_bytes_def shared_bytes_def peer_slots_def payload_def demo_bytes
      HDR_def OBJH_SIZE_def SHARED_SIZE_def XSEG_TNAMESIZE_def xhash_get_alloc_size_def get_alloc_size_def)

lemma demo_new_room: "heap_room 12 (2 ^ 20) 4072 (init_bytes 12 3)"
  unfolding demo_sizes
  by (simp add: heap_room_def payload_def get_index_def demo_bytes Let_def w64_def xheap_limits HDR_def)

theorem segment_initialised_witness:
  "\<exists>t. initialize_segment 1 (\<lambda>n. replicate n 0) (\<lambda>n. replicate n '''') (demo_caller 1) 65536 demo_cfg demo_seg = Some (0, t) \<and>
     typed {} t \<and> xseg_validate_pointers t = 0 \<and> xseg_get_port t 1 = 0 \<and> sg_segment_size t = 1056768"
proof -
  have c: "unat (cf_page_shift demo_cfg) = 12" "unat (cf_heap_size demo_cfg) = 2 ^ 20" "unat (cf_nr_ports demo_cfg) = 3"
    by (simp_all add: demo_cfg_def)
  have "fresh_ok (\<lambda>n. replicate n 0)" by (simp add: fresh_ok_def)
  from segment_initialised [OF c(1) _ _ c(2) _ _ demo_new_start [symmetric] _ demo_new_room [folded c(3)] this,
      of 1 "\<lambda>n. replicate n ''''" "demo_caller 1" demo_seg]
  show ?thesis by auto
qed

section \<open>Creating and joining\<close>

lemma align_pos:
  fixes x :: u64
  assumes "unat x < 2 ^ 62" and "x \<noteq> 0" and "s < 20"
  shows "align x s \<noteq> 0"
proof
  assume "align x s = 0"
  define y where "y = unat (x - 1) div 2 ^ s"
  have "unat (x - 1) < 2 ^ 62" using assms(1,2) by (simp add: unat_minus_one)
  then have y: "y < 2 ^ 62" unfolding y_def by (meson div_le_dividend le_less_trans)
  have "y * 2 ^ s \<le> unat (x - 1)" unfolding y_def by simp
  moreover have "(2 :: nat) ^ s \<le> 2 ^ 19" using assms(3) by (intro power_increasing) auto
  ultimately have lt: "(y + 1) * 2 ^ s < 2 ^ 64" using \<open>unat (x - 1) < 2 ^ 62\<close> by simp
  have "unat (drop_bit s (x - 1)) = y" unfolding unat_drop_bit_eq y_def by (simp add: drop_bit_eq_div)
  then have "unat (drop_bit s (x - 1) + 1) = y + 1" using y by (simp add: unat_word_ariths)
  then have "unat (align x s) = (y + 1) * 2 ^ s"
    unfolding align_def unsigned_push_bit_eq using lt by (simp add: push_bit_eq_mult take_bit_eq_mod)
  with \<open>align x s = 0\<close> show False by simp
qed

lemma segment_bytes:
  assumes "unat (cf_page_shift cfg) = u" and "12 \<le> u" and "u < 20" and "unat (cf_heap_size cfg) < 2 ^ 61"
  shows "calculate_segment_size cfg \<noteq> 0"
proof -
  define page where "page = shl_int (unat (cf_page_shift cfg))"
  note hs = header_sizes [OF assms(1-3), folded page_def]
  have "(2 :: nat) ^ u \<le> 2 ^ 19" using assms(3) by (intro power_increasing) auto
  then have n: "unat ((ucast (2 * page) :: u64) + cf_heap_size cfg) = 2 * 2 ^ u + unat (cf_heap_size cfg)"
    using assms(4) hs(4) by (subst unat_word_ariths) simp
  then have "unat ((ucast (2 * page) :: u64) + cf_heap_size cfg) < 2 ^ 62" using assms(4) \<open>2 ^ u \<le> 2 ^ 19\<close> by simp
  moreover have "(ucast (2 * page) :: u64) + cf_heap_size cfg \<noteq> 0" using arg_cong [of _ 0 unat] n by fastforce
  ultimately have "align (ucast (2 * page) + cf_heap_size cfg) u \<noteq> 0" using assms(3) by (rule align_pos)
  moreover have "\<not> cf_page_shift cfg < 9" using assms(1,2) by (simp add: word_less_nat_alt)
  ultimately show ?thesis using assms(1) by (simp add: calculate_segment_size_def Let_def page_def)
qed

text \<open>What a segment type promises: what is unmapped is found again under its name.\<close>

definition keeps_segments :: "'w seg_ops \<Rightarrow> string \<Rightarrow> bool" where
  "keeps_segments xops name \<longleftrightarrow> (\<forall>t b b' w. \<exists>a w'. so_map xops name b' (so_unmap xops t b w) = (Some (a, t), w'))"

text \<open>The joining process sees the segment at its own address and with its own private part.\<close>

lemma join_view:
  assumes "typed {} t" and "xseg_validate_pointers t = 0"
    and x_def: "x = t\<lparr>sg_segment := a, pv_peer_type := self, pv_peer_types := ts, pv_peer_type_data := ds, sg_req_data := h, sg_reqdatalock := l\<rparr>"
  shows "typed {} x" "xseg_validate_pointers x = 0" "xseg_get_port x no = xseg_get_port t no"
proof -
  show "typed {} x" using assms(1) by (subst typed_cong [of x t]) (simp_all add: x_def)
  show "xseg_validate_pointers x = 0" using assms(2) by (simp add: xseg_validate_pointers_def pointer_ok_def Let_def x_def)
  show "xseg_get_port x no = xseg_get_port t no" by (simp add: xseg_get_port_def validate_port_def x_def)
qed


text \<open>A world that holds one segment.\<close>

definition demo_store :: "xseg seg_ops" where
  "demo_store = \<lparr>so_allocate = \<lambda>_ _ w. (0, w), so_deallocate = \<lambda>_ w. w, so_map = \<lambda>_ _ w. (Some (65536, w), w), so_unmap = \<lambda>s _ w. s\<rparr>"

definition demo_host :: "xseg process" where
  "demo_host = \<lparr>pr_join_ref = 0, pr_join_mutex = False, pr_domain = pr_domain demo_process, pr_world = demo_seg\<rparr>"


end
