(* ===== verification/Xuser.thy ===== *)
theory Xuser
  imports Xdrivers
begin

text \<open>
  What the user-space build adds in \<^verbatim>\<open>xseg_user.c\<close> and \<^verbatim>\<open>initialize.c\<close>: the lock of the
  domain, plugins, log files, and the registration of the types that are built in.
\<close>

section \<open>The domain\<close>

definition lock_domain :: "caller \<Rightarrow> xlock \<Rightarrow> xlock option" where
  "lock_domain cl l = xlock_acquire cl l"

definition unlock_domain :: "xlock \<Rightarrow> xlock" where
  "unlock_domain l = xlock_release l"

definition get_id :: "env \<Rightarrow> peer_proc \<Rightarrow> u64 \<times> peer_proc" where
  "get_id env p = (let (r, p) = sys_ret env Gettid p in (of_int r, p))"

definition xtypes_malloc :: "env \<Rightarrow> nat \<Rightarrow> peer_proc \<Rightarrow> int \<times> peer_proc" where
  "xtypes_malloc env sz p = sys_ret env (Malloc sz) p"

definition xtypes_free :: "env \<Rightarrow> nat \<Rightarrow> peer_proc \<Rightarrow> peer_proc" where
  "xtypes_free env ptr p = sys_do env (Mfree ptr) p"

section \<open>Plugins\<close>

text \<open>
  Writing characters into a buffer; there is no result when they do not fit. \<^verbatim>\<open>strncpy\<close>
  copies up to the end of the string and fills with zeros. The characters of a buffer up to the
  first zero are the string in it; without one the string has no end.
\<close>

definition put_chars :: "nat \<Rightarrow> string \<Rightarrow> string \<Rightarrow> string option" where
  "put_chars i cs b = (if i + length cs \<le> length b then Some (take i b @ cs @ drop (i + length cs) b) else None)"

definition strn :: "nat \<Rightarrow> string \<Rightarrow> string" where
  "strn n str = take n (str @ replicate n NUL)"

definition c_string :: "string \<Rightarrow> string option" where
  "c_string b = (if NUL \<in> set b then Some (takeWhile (\<lambda>c. c \<noteq> NUL) b) else None)"

text \<open>
  \<open>buf\<close> is what the 128 bytes of the local buffer hold at first. The results of the
  calls are pointers, 0 for none.
\<close>

definition plugin_file :: "string \<Rightarrow> string \<Rightarrow> string option" where
  "plugin_file name buf =
     do {
       b \<leftarrow> put_chars 0 (strn 5 ''xseg_'') buf;
       b \<leftarrow> put_chars 5 (strn 80 name) b;
       b \<leftarrow> put_chars (5 + length name) (strn 3 ''.so'') b;
       put_chars (5 + length name + 3) [NUL] b
     }"

definition plugin_init :: "string \<Rightarrow> string \<Rightarrow> string option" where
  "plugin_init name b = do { b \<leftarrow> put_chars (5 + length name) (strn 5 ''_init'') b; put_chars 127 [NUL] b }"

definition load_plugin :: "env \<Rightarrow> string \<Rightarrow> string \<Rightarrow> peer_proc \<Rightarrow> peer_proc option" where
  "load_plugin env buf name p =
     do {
       b \<leftarrow> plugin_file name buf;
       file \<leftarrow> c_string b;
       let (dl, p) = sys_ret env (Dlopen file) p;
       if dl = 0 then Some p
       else do {
         b \<leftarrow> plugin_init name b;
         symbol \<leftarrow> c_string b;
         let (f, p) = sys_ret env (Dlsym dl symbol) p;
         if f = 0 then Some p else Some (sys_do env (Call_function f) p) }
     }"

section \<open>Log files\<close>

definition REOPEN_FILE :: u32 where "REOPEN_FILE = 2"
definition REDIRECT_STDOUT :: u32 where "REDIRECT_STDOUT = 2"
definition REDIRECT_STDERR :: u32 where "REDIRECT_STDERR = 4"
definition MAX_PEER_NAME :: nat where "MAX_PEER_NAME = 64"
definition MAX_LOGFILE_LEN :: nat where "MAX_LOGFILE_LEN = 1024"
definition STDOUT_FILENO :: int where "STDOUT_FILENO = 1"
definition STDERR_FILENO :: int where "STDERR_FILENO = 2"

record log_ctx =
  lc_filename :: string
  lc_logfile :: int
  lc_peer_name :: string
  lc_log_level :: nat
  lc_flags :: u32

text \<open>A file name or peer name that is given: not a null pointer and, for a file, not empty.\<close>

definition given :: "string option \<Rightarrow> string option" where
  "given str = (case str of None \<Rightarrow> None | Some cs \<Rightarrow> if cs = [] then None else Some cs)"

text \<open>The redirections, of the standard output and then of the standard error.\<close>

definition redirect :: "env \<Rightarrow> u32 \<Rightarrow> int \<Rightarrow> peer_proc \<Rightarrow> int \<times> peer_proc" where
  "redirect env flags logfile p =
     (let (fd, p) = (if flags AND REDIRECT_STDOUT \<noteq> 0 then sys_ret env (Dup2 logfile STDOUT_FILENO) p else (0, p)) in
      if fd < 0 then (-1, p)
      else
        let (fd, p) = (if flags AND REDIRECT_STDERR \<noteq> 0 then sys_ret env (Dup2 logfile STDERR_FILENO) p else (0, p)) in
        if fd < 0 then (-1, p) else (0, p))"

definition renew_logctx ::
  "env \<Rightarrow> string option \<Rightarrow> nat \<Rightarrow> string option \<Rightarrow> u32 \<Rightarrow> log_ctx \<Rightarrow> peer_proc \<Rightarrow> int \<times> log_ctx \<times> peer_proc" where
  "renew_logctx env peer_name log_level logfile flags lc p =
     (let lc = (case peer_name of None \<Rightarrow> lc | Some n \<Rightarrow> lc\<lparr>lc_peer_name := take (MAX_PEER_NAME - 1) n\<rparr>);
          lc = lc\<lparr>lc_log_level := log_level\<rparr>;
          lc = (case given logfile of None \<Rightarrow> lc | Some f \<Rightarrow> lc\<lparr>lc_filename := take (MAX_LOGFILE_LEN - 1) f\<rparr>)
      in if given logfile = None \<and> (flags AND REOPEN_FILE = 0 \<or> lc_logfile lc = STDERR_FILENO) then (0, lc, p)
         else
           let (fd, p) = sys_ret env (Open_append (lc_filename lc)) p in
           if fd < 0 then (-1, lc, p)
           else
             let tmp_fd = lc_logfile lc; lc = lc\<lparr>lc_logfile := fd\<rparr>; p = sys_do env (Fclose tmp_fd) p;
                 flags = flags AND NOT REOPEN_FILE;
                 (r, p) = redirect env (flags OR lc_flags lc) fd p
             in if r < 0 then (-1, lc, p) else (0, lc\<lparr>lc_flags := lc_flags lc OR flags\<rparr>, p))"

definition init_logctx ::
  "env \<Rightarrow> string option \<Rightarrow> nat \<Rightarrow> string option \<Rightarrow> u32 \<Rightarrow> log_ctx \<Rightarrow> peer_proc \<Rightarrow> int \<times> log_ctx \<times> peer_proc" where
  "init_logctx env peer_name log_level logfile flags lc p =
     (case peer_name of None \<Rightarrow> (-1, lc, p)
      | Some n \<Rightarrow>
          let lc = lc\<lparr>lc_peer_name := take (MAX_PEER_NAME - 1) n, lc_logfile := STDERR_FILENO, lc_log_level := log_level\<rparr> in
          case given logfile of None \<Rightarrow> (0, lc, p)
          | Some f \<Rightarrow>
              let lc = lc\<lparr>lc_filename := take (MAX_LOGFILE_LEN - 1) f\<rparr>;
                  (fd, p) = sys_ret env (Open_append (lc_filename lc)) p
              in if fd < 1 then (-1, lc, p)
                 else
                   let lc = lc\<lparr>lc_logfile := fd\<rparr>; (r, p) = redirect env flags fd p
                   in if r < 0 then (-1, lc, p) else (0, lc\<lparr>lc_flags := flags\<rparr>, p))"

text \<open>
  Writing a message of \<open>count\<close> bytes: a call writes the part from \<open>done\<close> on. \<open>logfile\<close> is
  the descriptor of the log at the time of the call, which another thread may have changed; it is
  read again after a call that found a bad descriptor. Other errors end the loop.
\<close>

definition EBADF :: int where "EBADF = 9"

partial_function (option) log_write :: "env \<Rightarrow> (syscall list \<Rightarrow> int) \<Rightarrow> nat \<Rightarrow> int \<Rightarrow> nat \<Rightarrow> peer_proc \<Rightarrow> (nat \<times> peer_proc) option" where
  "log_write env logfile count fd written p =
     (let (r, p) = sys env (Write_part fd written (count - written)) p in
      if sr_ret r < 0 then
        if sr_errno r = EBADF then log_write env logfile count (logfile (pp_calls p)) written p
        else Some (written, p)
      else
        let written = written + nat (sr_ret r) in
        if written < count then log_write env logfile count fd written p else Some (written, p))"

declare log_write.simps [code]

section \<open>Registering the types that are built in\<close>

text \<open>
  The addresses of the types, the names the library knows types by, and whether
  \<^verbatim>\<open>xseg_initialize\<close> has run. The initialisation of a type registers it and its peer type; the
  results of the registrations are not looked at. \<^verbatim>\<open>initialize.c\<close> declares these functions
  with a result although they have none: \<open>ret i\<close> is the value it finds after the \<open>i\<close>-th.
\<close>

record builtins =
  bi_posix :: nat
  bi_peer_posix :: nat
  bi_pthread :: nat
  bi_peer_pthread :: nat
  bi_peer_posixfd :: nat

record library =
  li_init_ref :: nat
  li_mutex :: bool
  li_names :: "nat \<Rightarrow> string"
  li_domain :: domain
  li_proc :: peer_proc

definition register_type :: "nat \<Rightarrow> library \<Rightarrow> library" where
  "register_type ty l = (let (r, nm, d) = xseg_register_type ty (li_names l) (li_domain l) in l\<lparr>li_names := nm, li_domain := d\<rparr>)"

text \<open>\<open>init\<close> is the peer type's \<^verbatim>\<open>remote_signal_init\<close>, which is called when the other checks have passed.\<close>

definition register_peer :: "(peer_proc \<Rightarrow> int \<times> peer_proc) \<Rightarrow> nat \<Rightarrow> library \<Rightarrow> library" where
  "register_peer init ty l =
     (let (i, p) = init (li_proc l); (r, nm, d) = xseg_register_peer (\<lambda>_. i) ty (li_names l) (li_domain l);
          called = (ty \<noteq> 0 \<and> fst (find_peer_type (li_names l) (li_names l ty) (li_domain l)) = 0 \<and>
                    dm_nr_peer_types (li_domain l) < XSEG_NR_PEER_TYPES)
      in l\<lparr>li_names := nm, li_domain := d, li_proc := (if called then p else li_proc l)\<rparr>)"

definition xseg_posix_init :: "builtins \<Rightarrow> library \<Rightarrow> library" where
  "xseg_posix_init b l = register_peer (Pair posix_remote_signal_init) (bi_peer_posix b) (register_type (bi_posix b) l)"

definition xseg_pthread_init :: "builtins \<Rightarrow> library \<Rightarrow> library" where
  "xseg_pthread_init b l = register_peer (Pair pthread_remote_signal_init) (bi_peer_pthread b) (register_type (bi_pthread b) l)"

definition xseg_posixfd_init :: "env \<Rightarrow> builtins \<Rightarrow> library \<Rightarrow> library" where
  "xseg_posixfd_init env b l = register_peer (posixfd_remote_signal_init env) (bi_peer_posixfd b) l"

definition xseg_preinit :: "env \<Rightarrow> (nat \<Rightarrow> int) \<Rightarrow> builtins \<Rightarrow> library \<Rightarrow> int \<times> library" where
  "xseg_preinit env ret b l =
     (let l = xseg_posix_init b l in
      if ret 0 \<noteq> 0 then (ret 0, l)
      else let l = xseg_pthread_init b l in
        if ret 1 \<noteq> 0 then (ret 1, l)
        else let l = xseg_posixfd_init env b l in (ret 2, l))"

definition xseg_initialize :: "env \<Rightarrow> (nat \<Rightarrow> int) \<Rightarrow> builtins \<Rightarrow> library \<Rightarrow> (int \<times> library) option" where
  "xseg_initialize env ret b l =
     (if li_mutex l then None
      else if li_init_ref l = 0 then
        let (rv, l) = xseg_preinit env ret b (l\<lparr>li_mutex := True, li_init_ref := 1\<rparr>) in Some (rv, l\<lparr>li_mutex := False\<rparr>)
      else Some (0, l))"

definition xseg_finalize :: int where "xseg_finalize = -1"

text \<open>Once it has run, initialising the library does nothing.\<close>

lemma initialize_once:
  assumes "xseg_initialize env ret b l = Some (rv, l1)"
  shows "xseg_initialize env ret' b' l1 = Some (0, l1)"
proof -
  have keep: "li_init_ref (register_type ty k) = li_init_ref k" "li_init_ref (register_peer init ty k) = li_init_ref k" for ty k init
    by (simp_all add: register_type_def register_peer_def split: prod.splits)
  have "li_init_ref (snd (xseg_preinit env ret b k)) = li_init_ref k" for k
    by (simp add: xseg_preinit_def Let_def xseg_posix_init_def xseg_pthread_init_def xseg_posixfd_init_def keep)
  from this [of "l\<lparr>li_mutex := True, li_init_ref := 1\<rparr>"] assms show ?thesis
    by (auto simp: xseg_initialize_def Let_def split: if_splits prod.splits)
qed

section \<open>Properties\<close>

text \<open>Building a string in a buffer, piece by piece.\<close>

lemma put_at: "i = length xs \<Longrightarrow> length ys = length cs \<Longrightarrow> put_chars i cs (xs @ ys @ zs) = Some (xs @ cs @ zs)"
  by (simp add: put_chars_def)

lemma strn_short: "length cs \<le> n \<Longrightarrow> strn n cs = cs @ replicate (n - length cs) NUL"
  by (simp add: strn_def)

lemma c_string_at: "NUL \<notin> set cs \<Longrightarrow> c_string (cs @ NUL # r) = Some cs"
proof -
  assume "NUL \<notin> set cs"
  then have "takeWhile (\<lambda>c. c \<noteq> NUL) (cs @ NUL # r) = cs" by (induction cs) auto
  then show ?thesis by (simp add: c_string_def)
qed

lemma plugin_file_eq:
  assumes n: "length name \<le> 74" and b: "length buf = 128"
  shows "plugin_file name buf = Some (''xseg_'' @ name @ ''.so'' @ replicate (77 - length name) NUL @ drop 85 buf)"
proof -
  define n where "n = 76 - length name"
  define r where "r = drop 85 buf"
  have k: "80 - length name = 3 + (1 + n)" "77 - length name = 1 + n" using n by (simp_all add: n_def)
  have "strn 80 name = name @ replicate (80 - length name) NUL" using n by (simp add: strn_short)
  then have s: "strn 80 name = name @ replicate 3 NUL @ replicate 1 NUL @ replicate n NUL" by (simp only: k replicate_add)
  have l: "strn 5 ''xseg_'' = ''xseg_''" "strn 3 ''.so'' = ''.so''" by (simp_all add: strn_short)
  have 1: "put_chars 0 ''xseg_'' buf = Some (''xseg_'' @ drop 5 buf)" using b by (simp add: put_chars_def eval_nat_numeral)
  have "drop 5 buf = take 80 (drop 5 buf) @ r" using append_take_drop_id [of 80 "drop 5 buf"] by (simp add: r_def)
  then have "put_chars 5 (strn 80 name) (''xseg_'' @ drop 5 buf) = put_chars 5 (strn 80 name) (''xseg_'' @ take 80 (drop 5 buf) @ r)" by simp
  also have "\<dots> = Some (''xseg_'' @ strn 80 name @ r)" by (rule put_at) (use b in \<open>simp_all add: strn_def\<close>)
  also have "\<dots> = Some ((''xseg_'' @ name) @ replicate 3 NUL @ replicate 1 NUL @ replicate n NUL @ r)" by (simp add: s)
  finally have 2: "put_chars 5 (strn 80 name) (''xseg_'' @ drop 5 buf) = \<dots>" .
  have 3: "put_chars (5 + length name) ''.so'' ((''xseg_'' @ name) @ replicate 3 NUL @ replicate 1 NUL @ replicate n NUL @ r) =
      Some ((''xseg_'' @ name) @ ''.so'' @ replicate 1 NUL @ replicate n NUL @ r)" by (rule put_at) simp_all
  have 4: "put_chars (5 + length name + 3) [NUL] ((''xseg_'' @ name @ ''.so'') @ replicate 1 NUL @ replicate n NUL @ r) =
      Some ((''xseg_'' @ name @ ''.so'') @ [NUL] @ replicate n NUL @ r)" by (rule put_at) simp_all
  show ?thesis using 1 2 3 4 by (simp add: plugin_file_def l k r_def)
qed

lemma plugin_init_eq:
  assumes n: "length name \<le> 74" and r: "length r = 43"
  shows "\<exists>r'. plugin_init name (''xseg_'' @ name @ ''.so'' @ replicate (77 - length name) NUL @ r) = Some (''xseg_'' @ name @ ''_init'' @ NUL # r')"
proof -
  define n where "n = 74 - length name"
  have k: "77 - length name = 2 + (1 + n)" using n by (simp add: n_def)
  have "put_chars (5 + length name) ''_init'' ((''xseg_'' @ name) @ (''.so'' @ replicate 2 NUL) @ NUL # replicate n NUL @ r) =
      Some ((''xseg_'' @ name) @ ''_init'' @ NUL # replicate n NUL @ r)" by (rule put_at) simp_all
  moreover have "put_chars 127 [NUL] (''xseg_'' @ name @ ''_init'' @ NUL # replicate n NUL @ r) =
      Some (''xseg_'' @ name @ ''_init'' @ NUL # (replicate n NUL @ take 42 r @ [NUL]))"
  proof -
    have "r = take (Suc 42) r" using r by simp
    also have "\<dots> = take 42 r @ [r ! 42]" using r by (intro take_Suc_conv_app_nth) simp
    finally have "r = take 42 r @ [r ! 42]" .
    then have "put_chars 127 [NUL] (''xseg_'' @ name @ ''_init'' @ NUL # replicate n NUL @ r) =
      put_chars 127 [NUL] ((''xseg_'' @ name @ ''_init'' @ NUL # replicate n NUL @ take 42 r) @ [r ! 42] @ [])" by simp
    also have "\<dots> = Some ((''xseg_'' @ name @ ''_init'' @ NUL # replicate n NUL @ take 42 r) @ [NUL] @ [])"
      by (rule put_at) (use n r in \<open>simp_all add: n_def\<close>)
    finally show ?thesis by simp
  qed
  moreover have "strn 5 ''_init'' = ''_init''" by (simp add: strn_short)
  moreover have "''xseg_'' @ name @ ''.so'' @ replicate (77 - length name) NUL @ r =
      (''xseg_'' @ name) @ (''.so'' @ replicate 2 NUL) @ NUL # replicate n NUL @ r" by (simp add: k replicate_add numeral_2_eq_2)
  ultimately have "plugin_init name (''xseg_'' @ name @ ''.so'' @ replicate (77 - length name) NUL @ r) =
      Some (''xseg_'' @ name @ ''_init'' @ NUL # (replicate n NUL @ take 42 r @ [NUL]))"
    unfolding plugin_init_def by (simp only: append_assoc Option.bind.simps)
  then show ?thesis by blast
qed

lemma put_chars_length: "put_chars i cs b = Some b' \<Longrightarrow> length b' = length b \<and> i + length cs \<le> length b"
  by (auto simp: put_chars_def split: if_splits)

text \<open>
  Loading a plugin: for names of up to 74 characters the file is \<^verbatim>\<open>xseg_\<close>name\<^verbatim>\<open>.so\<close>; its
  function \<^verbatim>\<open>xseg_\<close>name\<^verbatim>\<open>_init\<close> is looked up if the file could be opened, and called if it is there. A name of
  120 characters or more, which nothing excludes, is written past the end of the buffer.
\<close>

theorem load_plugin_names:
  assumes n: "length name \<le> 74" "NUL \<notin> set name" and b: "length buf = 128" and long: "120 \<le> length name'"
    and opened_def: "opened = Dlopen (''xseg_'' @ name @ ''.so'') # pp_calls p"
    and dl_def: "dl = sr_ret (env opened)"
    and found_def: "found = Dlsym dl (''xseg_'' @ name @ ''_init'') # opened"
    and f_def: "f = sr_ret (env found)"
  shows "load_plugin env buf name p =
      Some (p\<lparr>pp_calls := if dl = 0 then opened else if f = 0 then found else Call_function f # found\<rparr>) \<and>
    load_plugin env buf name' p = None"
proof -
  have N: "NUL \<notin> set ''xseg_''" "NUL \<notin> set ''.so''" "NUL \<notin> set ''_init''" by (simp_all add: NUL_def)
  define r where "r = drop 85 buf"
  have r: "length r = 43" using b by (simp add: r_def)
  obtain r' where i: "plugin_init name (''xseg_'' @ name @ ''.so'' @ replicate (77 - length name) NUL @ r) = Some (''xseg_'' @ name @ ''_init'' @ NUL # r')"
    using plugin_init_eq [OF n(1) r] by blast
  have "replicate (77 - length name) NUL = NUL # replicate (76 - length name) NUL"
    using n(1) by (simp add: Suc_diff_le flip: replicate_Suc)
  then have c: "c_string (''xseg_'' @ name @ ''.so'' @ replicate (77 - length name) NUL @ r) = Some (''xseg_'' @ name @ ''.so'')"
    using c_string_at [of "''xseg_'' @ name @ ''.so''" "replicate (76 - length name) NUL @ r"] n(2) N by simp
  have d: "c_string (''xseg_'' @ name @ ''_init'' @ NUL # r') = Some (''xseg_'' @ name @ ''_init'')"
    using c_string_at [of "''xseg_'' @ name @ ''_init''" r'] n(2) N by simp
  have "load_plugin env buf name p = Some (p\<lparr>pp_calls := if dl = 0 then opened else if f = 0 then found else Call_function f # found\<rparr>)"
    unfolding load_plugin_def plugin_file_eq [OF n(1) b, folded r_def] Option.bind.simps c i d
    by (simp add: opened_def dl_def found_def f_def)
  moreover have "plugin_file name' buf = None"
  proof (rule ccontr)
    assume "plugin_file name' buf \<noteq> None"
    then show False using b long by (auto simp: plugin_file_def split: bind_splits dest!: put_chars_length)
  qed
  then have "load_plugin env buf name' p = None" by (simp add: load_plugin_def)
  ultimately show ?thesis by blast
qed

text \<open>A system where every call returns 7.\<close>

definition demo_seven :: env where
  "demo_seven cs = \<lparr>sr_ret = 7, sr_errno = 0, sr_info = 0\<rparr>"

theorem load_plugin_names_witness:
  "load_plugin demo_seven (replicate 128 NUL) ''x'' new_proc =
     Some (new_proc\<lparr>pp_calls := [Call_function 7, Dlsym 7 ''xseg_x_init'', Dlopen ''xseg_x.so'']\<rparr>) \<and>
   load_plugin demo_seven (replicate 128 NUL) (replicate 120 (CHR ''x'')) new_proc = None"
  using load_plugin_names [of "''x''" "replicate 128 NUL" "replicate 120 (CHR ''x'')" _ new_proc _ demo_seven, OF _ _ _ _ refl refl refl refl]
  by (simp add: demo_seven_def NUL_def) (simp add: new_proc_def)

lemma stdout_flag: "((x AND NOT REOPEN_FILE) OR y) AND REDIRECT_STDOUT = y AND REDIRECT_STDOUT"
  by (rule bit_word_eqI) (auto simp: bit_simps REOPEN_FILE_def REDIRECT_STDOUT_def)

lemma redirect_calls:
  assumes "redirect env flags fd p = (r, p')"
  shows "\<exists>new. pp_calls p' = new @ pp_calls p \<and> (Dup2 fd STDOUT_FILENO \<in> set new \<longleftrightarrow> flags AND REDIRECT_STDOUT \<noteq> 0)"
  using assms by (auto simp: redirect_def Let_def STDOUT_FILENO_def STDERR_FILENO_def split: if_splits)

text \<open>
  Log files. When a context is initialised with a file that can be opened, the standard output is redirected to it
  exactly if the flags ask for it. When a context is renewed it is not: the flag is
  the one for reopening the file, which is cleared before the redirection, so that only the flags the
  context already has count, whatever the caller asks for.
\<close>

theorem renew_loses_stdout:
  assumes f: "file \<noteq> []" and lc: "lc' = (lc\<lparr>lc_filename := take (MAX_LOGFILE_LEN - 1) file\<rparr>)"
    and o: "fd = sr_ret (env (Open_append (lc_filename lc') # pp_calls p))" "0 < fd"
  shows "(\<forall>r x p'. init_logctx env (Some name) lvl (Some file) flags lc p = (r, x, p') \<longrightarrow>
      (\<exists>new. pp_calls p' = new @ pp_calls p \<and> (Dup2 fd STDOUT_FILENO \<in> set new \<longleftrightarrow> flags AND REDIRECT_STDOUT \<noteq> 0))) \<and>
    (\<forall>r x p'. renew_logctx env pn lvl (Some file) flags lc p = (r, x, p') \<longrightarrow>
      (\<exists>new. pp_calls p' = new @ pp_calls p \<and> (Dup2 fd STDOUT_FILENO \<in> set new \<longleftrightarrow> lc_flags lc AND REDIRECT_STDOUT \<noteq> 0)))"
proof (intro conjI allI impI)
  define c where "c = Open_append (take (MAX_LOGFILE_LEN - 1) file)"
  have fd: "sr_ret (env (c # pp_calls p)) = fd" "\<not> fd < 1" "\<not> fd < 0" using o by (simp_all add: c_def lc)
  fix r x p'
  show "\<exists>new. pp_calls p' = new @ pp_calls p \<and> (Dup2 fd STDOUT_FILENO \<in> set new \<longleftrightarrow> flags AND REDIRECT_STDOUT \<noteq> 0)"
    if i: "init_logctx env (Some name) lvl (Some file) flags lc p = (r, x, p')"
  proof -
    obtain s q where "redirect env flags fd (p\<lparr>pp_calls := c # pp_calls p\<rparr>) = (s, q)" by fastforce
    moreover from this have "p' = q" using i f fd by (auto simp: init_logctx_def given_def Let_def c_def split: if_splits)
    ultimately show ?thesis using redirect_calls by (fastforce simp: c_def)
  qed
  show "\<exists>new. pp_calls p' = new @ pp_calls p \<and> (Dup2 fd STDOUT_FILENO \<in> set new \<longleftrightarrow> lc_flags lc AND REDIRECT_STDOUT \<noteq> 0)"
    if i: "renew_logctx env pn lvl (Some file) flags lc p = (r, x, p')"
  proof -
    define fs where "fs = (flags AND NOT REOPEN_FILE) OR lc_flags lc"
    obtain s q where q: "redirect env fs fd (p\<lparr>pp_calls := Fclose (lc_logfile lc) # c # pp_calls p\<rparr>) = (s, q)" by fastforce
    moreover from this have "p' = q" using i f fd
      by (cases pn) (auto simp: renew_logctx_def given_def Let_def c_def fs_def split: if_splits)
    moreover have "fs AND REDIRECT_STDOUT = lc_flags lc AND REDIRECT_STDOUT" unfolding fs_def by (rule stdout_flag)
    ultimately show ?thesis using redirect_calls [OF q] by (fastforce simp: c_def)
  qed
qed

definition demo_log :: log_ctx where
  "demo_log = \<lparr>lc_filename = [], lc_logfile = 2, lc_peer_name = [], lc_log_level = 0, lc_flags = 0\<rparr>"

theorem renew_loses_stdout_witness:
  "(\<exists>r x p. init_logctx demo_seven (Some ''peer'') 0 (Some ''log'') REDIRECT_STDOUT demo_log new_proc = (r, x, p) \<and>
      Dup2 7 STDOUT_FILENO \<in> set (pp_calls p)) \<and>
   (\<exists>r x p. renew_logctx demo_seven (Some ''peer'') 0 (Some ''log'') REDIRECT_STDOUT demo_log new_proc = (r, x, p) \<and>
      Dup2 7 STDOUT_FILENO \<notin> set (pp_calls p))"
proof -
  have n: "pp_calls new_proc = []" by (simp add: new_proc_def)
  have r: "(\<forall>r x p'. init_logctx demo_seven (Some ''peer'') 0 (Some ''log'') REDIRECT_STDOUT demo_log new_proc = (r, x, p') \<longrightarrow>
      (\<exists>new. pp_calls p' = new @ pp_calls new_proc \<and> (Dup2 7 STDOUT_FILENO \<in> set new \<longleftrightarrow> REDIRECT_STDOUT AND REDIRECT_STDOUT \<noteq> 0))) \<and>
    (\<forall>r x p'. renew_logctx demo_seven (Some ''peer'') 0 (Some ''log'') REDIRECT_STDOUT demo_log new_proc = (r, x, p') \<longrightarrow>
      (\<exists>new. pp_calls p' = new @ pp_calls new_proc \<and> (Dup2 7 STDOUT_FILENO \<in> set new \<longleftrightarrow> lc_flags demo_log AND REDIRECT_STDOUT \<noteq> 0)))"
    by (rule renew_loses_stdout [OF _ refl]) (simp_all add: demo_seven_def)
  obtain r x p where i: "init_logctx demo_seven (Some ''peer'') 0 (Some ''log'') REDIRECT_STDOUT demo_log new_proc = (r, x, p)"
    by (metis prod_cases3)
  obtain r' x' p' where w: "renew_logctx demo_seven (Some ''peer'') 0 (Some ''log'') REDIRECT_STDOUT demo_log new_proc = (r', x', p')"
    by (metis prod_cases3)
  have "REDIRECT_STDOUT AND REDIRECT_STDOUT \<noteq> 0" "lc_flags demo_log AND REDIRECT_STDOUT = 0"
    by (simp_all add: REDIRECT_STDOUT_def demo_log_def)
  with r i w show ?thesis unfolding n by auto
qed

section \<open>Messages are written whole\<close>

text \<open>The parts that the successful ones of the new calls wrote, the oldest first.\<close>

fun parts :: "env \<Rightarrow> syscall list \<Rightarrow> syscall list \<Rightarrow> (nat \<times> nat) list" where
  "parts env [] old = []"
| "parts env (c # new) old = parts env new old @
     (case c of Write_part fd off len \<Rightarrow>
        if sr_ret (env (c # new @ old)) < 0 then [] else [(off, nat (sr_ret (env (c # new @ old))))]
      | _ \<Rightarrow> [])"

fun contiguous :: "nat \<Rightarrow> (nat \<times> nat) list \<Rightarrow> nat \<Rightarrow> bool" where
  "contiguous a [] b \<longleftrightarrow> a = b"
| "contiguous a ((off, n) # ps) b \<longleftrightarrow> off = a \<and> contiguous (a + n) ps b"

lemma parts_append: "parts env (new @ mid) old = parts env mid old @ parts env new (mid @ old)"
  by (induction new) (simp_all split: syscall.splits)

text \<open>
  When writing a message ends, the successful calls have written it from where it began without a gap
  or an overlap, in order, until its end or until a call failed for another reason than a bad descriptor.
\<close>

definition written_whole :: "env \<Rightarrow> nat \<Rightarrow> nat \<Rightarrow> peer_proc \<Rightarrow> nat \<times> peer_proc \<Rightarrow> bool" where
  "written_whole env count w p y \<longleftrightarrow> (\<exists>new. pp_calls (snd y) = new @ pp_calls p \<and> contiguous w (parts env new (pp_calls p)) (fst y) \<and>
     (count \<le> fst y \<or> sr_ret (env (pp_calls (snd y))) < 0 \<and> sr_errno (env (pp_calls (snd y))) \<noteq> EBADF))"

lemma written_after:
  assumes "written_whole env count w2 (p\<lparr>pp_calls := c # pp_calls p\<rparr>) y" and c: "c = Write_part fd w n"
    and w2: "w2 = (if sr_ret (env (c # pp_calls p)) < 0 then w else w + nat (sr_ret (env (c # pp_calls p))))"
  shows "written_whole env count w p y"
proof -
  from assms(1) obtain new where n: "pp_calls (snd y) = new @ c # pp_calls p" "contiguous w2 (parts env new (c # pp_calls p)) (fst y)"
    "count \<le> fst y \<or> sr_ret (env (pp_calls (snd y))) < 0 \<and> sr_errno (env (pp_calls (snd y))) \<noteq> EBADF"
    by (auto simp: written_whole_def)
  have "contiguous w (parts env (new @ [c]) (pp_calls p)) (fst y)" using n(2) by (simp add: parts_append c w2 split: if_splits)
  then show ?thesis unfolding written_whole_def using n(1,3) by (intro exI [of _ "new @ [c]"]) simp
qed

lemma log_write_whole:
  assumes "log_write env logfile count fd w p = Some y"
  shows "written_whole env count w p y"
proof (rule log_write.raw_induct [OF _ assms])
  fix rec env logfile count fd w p y
  assume IH: "\<And>env logfile count fd w p y. rec env logfile count fd w p = Some y \<Longrightarrow> written_whole env count w p y"
    and e: "(let (r, p) = sys env (Write_part fd w (count - w)) p in
      if sr_ret r < 0 then if sr_errno r = EBADF then rec env logfile count (logfile (pp_calls p)) w p else Some (w, p)
      else let w = w + nat (sr_ret r) in if w < count then rec env logfile count fd w p else Some (w, p)) = Some y"
  let ?c = "Write_part fd w (count - w)"
  let ?p = "p\<lparr>pp_calls := ?c # pp_calls p\<rparr>" and ?r = "env (?c # pp_calls p)"
  note after = written_after [where c = ?c and fd = fd and w = w and n = "count - w" and p = p and env = env and count = count, OF _ refl]
  have last: "written_whole env count w p (w2, ?p)" if "w2 = (if sr_ret ?r < 0 then w else w + nat (sr_ret ?r))"
    "count \<le> w2 \<or> sr_ret ?r < 0 \<and> sr_errno ?r \<noteq> EBADF" for w2
    by (rule after [OF _ that(1)]) (use that(2) in \<open>simp add: written_whole_def\<close>)
  show "written_whole env count w p y"
  proof (cases "sr_ret ?r < 0")
    case True
    show ?thesis
    proof (cases "sr_errno ?r = EBADF")
      case bad: True
      then have "rec env logfile count (logfile (pp_calls ?p)) w ?p = Some y" using e True by simp
      from after [OF IH [OF this]] True show ?thesis by simp
    next
      case False
      with e True last [of w] show ?thesis by auto
    qed
  next
    case False
    let ?w = "w + nat (sr_ret ?r)"
    show ?thesis
    proof (cases "?w < count")
      case more: True
      then have "rec env logfile count fd ?w ?p = Some y" using e False by simp
      from after [OF IH [OF this]] False show ?thesis by simp
    next
      case full: False
      with e False last [of ?w] show ?thesis by auto
    qed
  qed
qed

end
