(* ===== verification/Xchunk.thy ===== *)
theory Xchunk
  imports Xuser
begin

text \<open>
  The data of \<^verbatim>\<open>xseg-tool.c\<close>: names made from a seed, the pattern that is written into a chunk and
  looked for in it, and the buffer that holds the input of a write. Buffers are lists of
  characters, a string is what precedes the first zero; an access behind the end of a
  buffer and a division by zero have no result.
\<close>

section \<open>Names\<close>

text \<open>
  The character is a signed \<^verbatim>\<open>char\<close>, so that the shift works on its sign extension; the products
  wrap at 32 bits.
\<close>

definition heavy_char :: "u32 \<Rightarrow> char" where
  "heavy_char seed =
     (let c = ucast (seed + drop_bit 8 seed + drop_bit 16 seed + drop_bit 24 seed) :: 8 word;
          i = scast c :: u32;
          d = 48 + ((i + signed_drop_bit 4 i) AND 0xf)
      in char_of (unat (if d > 57 then d + (97 - 48 - 10) else d)))"

definition heavy_next :: "u32 \<Rightarrow> u32" where
  "heavy_next seed = seed * (((seed mod 137911) OR 1) * 137911)"

fun mkname_heavy :: "nat \<Rightarrow> u32 \<Rightarrow> string" where
  "mkname_heavy 0 seed = []"
| "mkname_heavy (Suc n) seed = heavy_char seed # mkname_heavy n (heavy_next seed)"

fun mkname_light :: "nat \<Rightarrow> u32 \<Rightarrow> string" where
  "mkname_light 0 seed = []"
| "mkname_light (Suc n) seed = char_of (65 + unat (seed AND 0xf)) # mkname_light n (seed + 1)"

section \<open>The pattern of a chunk\<close>

text \<open>
  \<^verbatim>\<open>%016llx\<close>, and \<^verbatim>\<open>snprintf\<close> into a buffer of \<open>n\<close> bytes that held \<open>junk\<close>: at most \<open>n - 1\<close>
  characters and a zero.
\<close>

definition hex16 :: "u64 \<Rightarrow> string" where
  "hex16 w = map (\<lambda>i. get_hex (unat (drop_bit (60 - 4 * i) w AND 0xf))) [0..<16]"

definition print_into :: "string \<Rightarrow> nat \<Rightarrow> string \<Rightarrow> string" where
  "print_into junk n str = (let t = take (n - 1) str @ [NUL] in t @ drop (length t) junk)"

definition get_chars :: "nat \<Rightarrow> nat \<Rightarrow> string \<Rightarrow> string option" where
  "get_chars i n b = (if i + n \<le> length b then Some (take n (drop i b)) else None)"

text \<open>The loops over whole patterns, from position \<open>i\<close>; the second stops at a difference.\<close>

function fill_from :: "string \<Rightarrow> nat \<Rightarrow> nat \<Rightarrow> string \<Rightarrow> string option" where
  "fill_from buf datalen i chunk =
     (if buf = [] then None
      else if i + length buf \<le> datalen
      then Option.bind (put_chars i buf chunk) (fill_from buf datalen (i + length buf))
      else Some chunk)"
  by pat_completeness auto
termination by (relation "measure (\<lambda>(buf, datalen, i, chunk). datalen - i)")
    (auto intro!: diff_less_mono2 simp flip: length_greater_0_conv)

declare fill_from.simps [simp del]

function check_from :: "string \<Rightarrow> nat \<Rightarrow> nat \<Rightarrow> string \<Rightarrow> bool option" where
  "check_from buf datalen i chunk =
     (if buf = [] then None
      else if i + length buf \<le> datalen
      then Option.bind (get_chars i (length buf) chunk)
             (\<lambda>c. if c \<noteq> buf then Some False else check_from buf datalen (i + length buf) chunk)
      else Some True)"
  by pat_completeness auto
termination by (relation "measure (\<lambda>(buf, datalen, i, chunk). datalen - i)")
    (auto intro!: diff_less_mono2 simp flip: length_greater_0_conv)

declare check_from.simps [simp del]

text \<open>
  \<open>junk\<close> is what the local array holds at first, of at least the size asked for; \<open>target\<close> is the
  string at the pointer. The size is computed with 32 bits and is an \<^verbatim>\<open>int\<close> in the second function,
  where the rest is taken modulo the length of the target and not of the pattern.
\<close>

definition mkchunk :: "string \<Rightarrow> string \<Rightarrow> u32 \<Rightarrow> string \<Rightarrow> u32 \<Rightarrow> u64 \<Rightarrow> string option" where
  "mkchunk junk chunk datalen target targetlen offset =
     (let bufsize = unat (targetlen + 16); n = unat datalen in
      if bufsize = 0 then None
      else
        let r = n mod bufsize; buf = print_into (take bufsize junk) bufsize (hex16 offset @ target) in
        do { c \<leftarrow> fill_from buf n 0 chunk; put_chars (n - r) (take r buf) c })"

definition chkchunk :: "string \<Rightarrow> string \<Rightarrow> u32 \<Rightarrow> string \<Rightarrow> u32 \<Rightarrow> u64 \<Rightarrow> bool option" where
  "chkchunk junk chunk datalen target targetlen offset =
     (let bufsize = unat (targetlen + 16); n = unat datalen in
      if bufsize = 0 \<or> bufsize \<ge> 2 ^ 31 \<or> targetlen = 0 then None
      else
        let r = unat (datalen mod targetlen); buf = print_into (take bufsize junk) bufsize (hex16 offset @ target) in
        do {
          b \<leftarrow> check_from buf n 0 chunk;
          if \<not> b then Some False
          else do { c \<leftarrow> get_chars (n - r) r chunk; d \<leftarrow> get_chars 0 r buf; Some (c = d) } })"

section \<open>Input\<close>

text \<open>
  The static variables: the size of the buffer (the buffer itself is what was read). \<open>mok n\<close>
  tells whether \<^verbatim>\<open>realloc\<close> gives \<open>n\<close> bytes. A stream is what is left to read and its mark of the end;
  \<^verbatim>\<open>fread\<close> sets the mark when it gets less than it asked for.
\<close>

definition ALLOC_MIN :: nat where "ALLOC_MIN = 4096"
definition ALLOC_MAX :: nat where "ALLOC_MAX = 1048576"

record stream =
  st_rest :: string
  st_eof :: bool

definition fread :: "nat \<Rightarrow> stream \<Rightarrow> string \<times> stream" where
  "fread n f = (take n (st_rest f), \<lparr>st_rest = drop n (st_rest f), st_eof = (length (st_rest f) < n \<or> st_eof f)\<rparr>)"

function read_loop :: "(nat \<Rightarrow> bool) \<Rightarrow> nat \<Rightarrow> string \<Rightarrow> stream \<Rightarrow> string option \<times> nat \<times> stream" where
  "read_loop mok sz buf f =
     (if st_eof f then (Some buf, sz, f)
      else let (c, f) = fread (sz - length buf) f; buf = buf @ c in
        if c = [] then (Some buf, sz, f)
        else if length buf \<ge> sz then (if mok (sz * 2) then read_loop mok (sz * 2) buf f else (None, sz, f))
        else read_loop mok sz buf f)"
  by pat_completeness auto
termination
  by (relation "measure (\<lambda>(mok, sz, buf, f). length (st_rest f))") (auto simp: fread_def)

declare read_loop.simps [simp del]

text \<open>The input, \<open>None\<close> without a buffer, the new size, the rest of the stream.\<close>

definition inputbuf :: "(nat \<Rightarrow> bool) \<Rightarrow> nat \<Rightarrow> stream \<Rightarrow> string option \<times> nat \<times> stream" where
  "inputbuf mok alloc_size f =
     (let sz = min ALLOC_MAX (max ALLOC_MIN alloc_size) in if mok sz then read_loop mok sz [] f else (None, sz, f))"

section \<open>Names are hexadecimal digits\<close>

lemma heavy_char_hex: "heavy_char seed \<in> set hex_digits"
proof -
  have hex: "char_of (unat (if d > 57 then d + (97 - 48 - 10) else d)) \<in> set hex_digits"
    if "d = 48 + (x AND 0xf)" for d x :: u32
  proof -
    have "x AND 0xf = x AND (2 ^ 4 - 1)" by simp
    also have "\<dots> = take_bit 4 x" by (simp add: take_bit_eq_mask mask_eq_exp_minus_1)
    finally have low: "x AND 0xf = take_bit 4 x" .
    have "unat (take_bit 4 x) = unat x mod 16" by (simp add: take_bit_eq_mod unat_mod)
    then have "x AND 0xf = of_nat (unat x mod 16)" unfolding low by (simp flip: \<open>unat (take_bit 4 x) = _\<close>)
    moreover have "char_of (unat (if (48 + of_nat k :: u32) > 57 then 48 + of_nat k + (97 - 48 - 10) else 48 + of_nat k :: u32)) \<in> set hex_digits"
      if k: "k < 16" for k
    proof -
      have u: "unat (48 + of_nat k :: u32) = 48 + k" "unat (48 + of_nat k + (97 - 48 - 10) :: u32) = 87 + k"
        using k by (simp_all add: unat_word_ariths unat_of_nat)
      have "\<forall>k<16. char_of (if k > 9 then 87 + k else 48 + k :: nat) \<in> set hex_digits" by code_simp
      moreover have "(48 + of_nat k :: u32) > 57 \<longleftrightarrow> k > 9" using u(1) by (simp add: word_less_nat_alt)
      ultimately show ?thesis using k by (cases "k > 9") (auto simp only: u if_True if_False)
    qed
    moreover have "unat x mod 16 < 16" by simp
    ultimately show ?thesis unfolding that by metis
  qed
  show ?thesis unfolding heavy_char_def Let_def by (rule hex [OF refl])
qed

lemma heavy_length [simp]: "length (mkname_heavy n seed) = n"
  by (induction n arbitrary: seed) auto

lemma heavy_hex: "set (mkname_heavy n seed) \<subseteq> set hex_digits"
  by (induction n arbitrary: seed) (auto simp: heavy_char_hex)

lemma heavy_nonul: "NUL \<notin> set (mkname_heavy n seed)"
  using heavy_hex [of n seed] hex_digits_ok(3) by blast

section \<open>Filling and checking\<close>

lemma put_chars_nth:
  assumes "i + length cs \<le> length b"
  shows "\<exists>b'. put_chars i cs b = Some b' \<and> length b' = length b \<and>
    (\<forall>j<length b. b' ! j = (if i \<le> j \<and> j < i + length cs then cs ! (j - i) else b ! j))"
  using assms by (auto simp: put_chars_def nth_append min_def)

lemma get_chars_eq:
  assumes "i + n \<le> length b" and "length c = n"
  shows "get_chars i n b = Some (take n (drop i b))" and "take n (drop i b) = c \<longleftrightarrow> (\<forall>k<n. b ! (i + k) = c ! k)"
  using assms by (auto simp: get_chars_def list_eq_iff_nth_eq)

lemma fill_from_nth:
  assumes "buf \<noteq> []" and "n \<le> length chunk" and "i = k * length buf" and "\<And>j. j < i \<Longrightarrow> chunk ! j = buf ! (j mod length buf)"
    and "i \<le> n"
  shows "\<exists>c. fill_from buf n i chunk = Some c \<and> length c = length chunk \<and>
    (\<forall>j<length chunk. c ! j = (if j < n - n mod length buf then buf ! (j mod length buf) else chunk ! j))"
  using assms
proof (induction buf n i chunk arbitrary: k rule: fill_from.induct)
  case (1 buf n i chunk)
  let ?L = "length buf"
  show ?case
  proof (cases "i + ?L \<le> n")
    case True
    then obtain c where c: "put_chars i buf chunk = Some c" "length c = length chunk"
      "\<forall>j<length chunk. c ! j = (if i \<le> j \<and> j < i + ?L then buf ! (j - i) else chunk ! j)"
      using put_chars_nth [of i buf chunk] "1.prems"(2) by auto
    have blk: "(j - i) = j mod ?L" if "i \<le> j" "j < i + ?L" for j
    proof -
      have "j = (j - i) + k * ?L" using that "1.prems"(3) by simp
      then have "j mod ?L = (j - i) mod ?L" by (metis mod_mult_self1)
      then show ?thesis using that by simp
    qed
    have old: "c ! j = buf ! (j mod ?L)" if "j < i + ?L" for j
      using c(3) "1.prems"(2,4) True that blk [of j] by (cases "j < i") auto
    have e: "\<And>j. j < length chunk \<Longrightarrow> j \<ge> n - n mod ?L \<Longrightarrow> c ! j = chunk ! j"
    proof -
      fix j assume j: "j < length chunk" "j \<ge> n - n mod ?L"
      have "i + ?L = (k + 1) * ?L" using "1.prems"(3) by simp
      then have "(i + ?L) \<le> n div ?L * ?L" using True "1.prems"(1)
        by (metis div_le_mono length_greater_0_conv mult_le_mono1 nonzero_mult_div_cancel_right less_not_refl2)
      also have "\<dots> = n - n mod ?L" by (simp add: minus_mod_eq_div_mult)
      finally show "c ! j = chunk ! j" using c(3) j by simp
    qed
    obtain d where d: "fill_from buf n (i + ?L) c = Some d" "length d = length c"
      "\<forall>j<length c. d ! j = (if j < n - n mod ?L then buf ! (j mod ?L) else c ! j)"
      using "1.IH" [OF "1.prems"(1) True c(1), of "k + 1"] "1.prems" c(2) old True by auto
    have "fill_from buf n i chunk = Some d"
      using "1.prems"(1) True c(1) d(1) by (subst fill_from.simps) simp
    then show ?thesis using d(2,3) c(2) e by auto
  next
    case False
    then have "n - i < ?L" "n = (n - i) + k * ?L" using "1.prems"(1,3,5) by auto
    then have "n mod ?L = n - i" by (metis mod_mult_self1 mod_less)
    then have "n - n mod ?L = i" using "1.prems"(5) by simp
    then show ?thesis using False "1.prems"(1,4) by (subst fill_from.simps) simp
  qed
qed

lemma check_pattern:
  assumes "buf \<noteq> []" and "n \<le> length chunk" and "i = k * length buf" and "\<And>j. j < n \<Longrightarrow> chunk ! j = buf ! (j mod length buf)"
  shows "check_from buf n i chunk = Some True"
  using assms
proof (induction buf n i chunk arbitrary: k rule: check_from.induct)
  case (1 buf n i chunk)
  let ?L = "length buf"
  show ?case
  proof (cases "i + ?L \<le> n")
    case True
    have "chunk ! (i + m) = buf ! m" if "m < ?L" for m
      using "1.prems"(3,4) True that by simp
    then have g: "get_chars i ?L chunk = Some buf"
      using get_chars_eq [of i ?L chunk buf] True "1.prems"(2) by auto
    show ?thesis using "1.IH" [OF "1.prems"(1) True, of buf "k + 1"] "1.prems" True g
      by (subst check_from.simps) (simp add: add.commute)
  next
    case False then show ?thesis using "1.prems"(1) by (subst check_from.simps) simp
  qed
qed

section \<open>Properties\<close>

text \<open>The bytes of the pattern: the offset in hexadecimal and the name, its last character replaced by a zero.\<close>

definition pattern :: "string \<Rightarrow> nat \<Rightarrow> u64 \<Rightarrow> string" where
  "pattern target n offset = take (n - 1) (hex16 offset @ target) @ [NUL]"

lemma length_hex16 [simp]: "length (hex16 w) = 16"
  by (simp add: hex16_def)

lemma print_pattern:
  assumes "0 < n" and "n - 1 \<le> 16 + length target" and "n \<le> length junk"
  shows "print_into (take n junk) n (hex16 w @ target) = pattern target n w" and "length (pattern target n w) = n"
  using assms by (simp_all add: print_into_def pattern_def Let_def)

lemma mkchunk_nth:
  assumes n: "0 < n" "unat (targetlen + 16) = n" and str: "n - 1 \<le> 16 + length target" "n \<le> length junk"
    and buf: "unat datalen \<le> length chunk"
  shows "\<exists>c. mkchunk junk chunk datalen target targetlen offset = Some c \<and> length c = length chunk \<and>
    (\<forall>j<length chunk. c ! j = (if j < unat datalen then pattern target n offset ! (j mod n) else chunk ! j))"
proof -
  let ?p = "pattern target n offset" and ?d = "unat datalen"
  note p = print_pattern [OF n(1) str, of offset]
  have ne: "?p \<noteq> []" using p(2) n(1) by auto
  obtain c where c: "fill_from ?p ?d 0 chunk = Some c" "length c = length chunk"
    "\<forall>j<length chunk. c ! j = (if j < ?d - ?d mod n then ?p ! (j mod n) else chunk ! j)"
    using fill_from_nth [OF ne buf, of 0 0] p(2) by auto
  have r: "?d mod n \<le> n" "?d mod n \<le> ?d" using n(1) by (simp_all add: less_imp_le)
  obtain c' where c': "put_chars (?d - ?d mod n) (take (?d mod n) ?p) c = Some c'" "length c' = length c"
    "\<forall>j<length c. c' ! j = (if ?d - ?d mod n \<le> j \<and> j < ?d then take (?d mod n) ?p ! (j - (?d - ?d mod n)) else c ! j)"
    using put_chars_nth [of "?d - ?d mod n" "take (?d mod n) ?p" c] buf c(2) p(2) r by auto
  have "take (?d mod n) ?p ! (j - (?d - ?d mod n)) = ?p ! (j mod n)" if "?d - ?d mod n \<le> j" "j < ?d" for j
  proof -
    have "j = (j - (?d - ?d mod n)) + ?d div n * n" using that by (metis le_add_diff_inverse2 minus_mod_eq_div_mult)
    moreover have "j - (?d - ?d mod n) < ?d mod n" using that r by linarith
    moreover have "?d mod n < n" using n(1) by simp
    ultimately have "j mod n = j - (?d - ?d mod n)" by (metis mod_less mod_mult_self1 less_trans)
    then show ?thesis using \<open>j - (?d - ?d mod n) < ?d mod n\<close> by simp
  qed
  then have "\<forall>j<length chunk. c' ! j = (if j < ?d then ?p ! (j mod n) else chunk ! j)"
    using c(2,3) c'(3) by auto
  moreover have "mkchunk junk chunk datalen target targetlen offset = Some c'"
    using c(1) c'(1) n p(1) by (simp add: mkchunk_def Let_def)
  ultimately show ?thesis using c(2) c'(2) by auto
qed

lemma check_after_make:
  assumes n: "n = unat targetlen + 16" "n < 2 ^ 31" and tl: "0 < targetlen"
    and str: "unat targetlen \<le> length target + 1" "n \<le> length junk" "n \<le> length junk'"
    and buf: "unat datalen \<le> length chunk"
  shows "\<exists>c. mkchunk junk chunk datalen target targetlen offset = Some c \<and>
    chkchunk junk' c datalen target targetlen offset =
      Some (\<forall>k<unat datalen mod unat targetlen.
        pattern target n offset ! ((unat datalen - unat datalen mod unat targetlen + k) mod n) = pattern target n offset ! k) \<and> length c = length chunk"
proof -
  let ?p = "pattern target n offset" and ?d = "unat datalen" and ?r = "unat datalen mod unat targetlen"
  have "unat (targetlen + 16) = (unat targetlen + unat (16 :: u32)) mod 2 ^ 32"
    using unat_word_ariths(1) [of targetlen "16 :: u32"] by simp
  then have sz: "unat (targetlen + 16) = n" using n by simp
  have n0: "0 < n" and s1: "n - 1 \<le> 16 + length target" using n str(1) by simp_all
  note p = print_pattern [OF n0 s1 str(3), of offset]
  obtain c where c: "mkchunk junk chunk datalen target targetlen offset = Some c" "length c = length chunk"
    "\<forall>j<length chunk. c ! j = (if j < ?d then ?p ! (j mod n) else chunk ! j)"
    using mkchunk_nth [OF n0 sz s1 str(2) buf, of offset] by blast
  have pat: "c ! j = ?p ! (j mod n)" if "j < ?d" for j using c(2,3) that buf by auto
  have ne: "?p \<noteq> []" using p(2) n0 by auto
  have t0: "0 < unat targetlen" using tl by (simp add: word_less_nat_alt)
  then have r: "?r < n" "?r \<le> ?d" using n by (auto intro: less_trans [OF mod_less_divisor])
  have "check_from ?p ?d 0 c = Some True"
    using check_pattern [OF ne, of ?d c 0 0] buf c(2) pat p(2) by simp
  moreover have "get_chars 0 ?r ?p = Some (take ?r ?p)" using r p(2) by (simp add: get_chars_def)
  moreover have "get_chars (?d - ?r) ?r c = Some (take ?r (drop (?d - ?r) c))"
    using get_chars_eq(1) [of "?d - ?r" ?r c "take ?r ?p"] r buf c(2) p(2) by simp
  moreover have "take ?r (drop (?d - ?r) c) = take ?r ?p \<longleftrightarrow> (\<forall>k<?r. c ! (?d - ?r + k) = take ?r ?p ! k)"
    by (rule get_chars_eq(2)) (use r buf c(2) p(2) in auto)
  moreover have "\<dots> \<longleftrightarrow> (\<forall>k<?r. ?p ! ((?d - ?r + k) mod n) = ?p ! k)"
  proof (intro all_cong)
    fix k assume "k < ?r"
    then have "?d - ?r + k < ?d" using r by linarith
    from pat [OF this] \<open>k < ?r\<close>
    show "(c ! (?d - ?r + k) = take ?r ?p ! k) \<longleftrightarrow> (?p ! ((?d - ?r + k) mod n) = ?p ! k)" by simp
  qed
  ultimately show ?thesis using c(1,2) n tl p(1) t0
    by (simp add: chkchunk_def Let_def sz unat_mod unat_eq_0)
qed



section \<open>Reading the input\<close>

text \<open>The sizes asked for while the buffer grows: doublings of the first one up to the length of the input.\<close>

lemma read_loop_all:
  assumes "\<And>k. mok (sz * 2 ^ k)" and "length buf < sz"
  shows "\<exists>sz'. read_loop mok sz buf f = (Some (buf @ (if st_eof f then [] else st_rest f)), sz',
     if st_eof f then f else \<lparr>st_rest = [], st_eof = True\<rparr>) \<and> length buf + (if st_eof f then 0 else length (st_rest f)) \<le> sz' \<and> sz \<le> sz'"
  using assms
proof (induction mok sz buf f rule: read_loop.induct)
  case (1 mok sz buf f)
  show ?case
  proof (cases "st_eof f")
    case True then show ?thesis using "1.prems"(2) by (subst read_loop.simps) simp
  next
    case False
    define c where "c = take (sz - length buf) (st_rest f)"
    define g where "g = \<lparr>st_rest = drop (sz - length buf) (st_rest f), st_eof = (length (st_rest f) < sz - length buf)\<rparr>"
    have fr: "fread (sz - length buf) f = (c, g)" using False by (simp add: fread_def c_def g_def)
    show ?thesis
    proof (cases "length (st_rest f) < sz - length buf")
      case short: True
      then have c: "c = st_rest f" "g = \<lparr>st_rest = [], st_eof = True\<rparr>" by (simp_all add: c_def g_def)
      have "read_loop mok sz (buf @ st_rest f) g = (Some (buf @ st_rest f), sz, g)"
        by (subst read_loop.simps) (simp add: c(2))
      then have "read_loop mok sz buf f = (Some (buf @ st_rest f), sz, g)"
        using False fr c short by (subst read_loop.simps) (auto simp: Let_def)
      then show ?thesis using c(2) False short by auto
    next
      case full: False
      have len: "length (buf @ c) = sz" using full "1.prems"(2) by (simp add: c_def)
      have ne: "c \<noteq> []" using len "1.prems"(2) by auto
      have g: "st_eof g = False" "st_rest f = c @ st_rest g" using full by (simp_all add: g_def c_def)
      have "mok (sz * 2)" using "1.prems"(1) [of 1] by simp
      then have e: "read_loop mok sz buf f = read_loop mok (sz * 2) (buf @ c) g"
        using False fr ne len by (subst read_loop.simps) (simp add: len del: length_append)
      have m: "mok (sz * 2 * 2 ^ k)" for k using "1.prems"(1) [of "Suc k"] by (simp add: ac_simps)
      have small: "length (buf @ c) < sz * 2" using len "1.prems"(2) by simp
      have big: "\<not> length (buf @ c) < sz" using len by simp
      obtain sz' where "read_loop mok (sz * 2) (buf @ c) g = (Some ((buf @ c) @ (if st_eof g then [] else st_rest g)), sz',
         if st_eof g then g else \<lparr>st_rest = [], st_eof = True\<rparr>)"
        "length (buf @ c) + (if st_eof g then 0 else length (st_rest g)) \<le> sz'" "sz * 2 \<le> sz'"
        using "1.IH"(1) [OF False fr [symmetric] refl refl ne _ \<open>mok (sz * 2)\<close> m small] len by auto
      then show ?thesis unfolding e using g False by simp
    qed
  qed
qed

text \<open>
  C40. When memory can be had, \<^verbatim>\<open>inputbuf\<close> returns, with exactly what was left of the input, in a
  buffer that has grown to hold it; the input is then at its end and a further call returns nothing.
  When the first allocation fails there is no buffer and nothing is read.
\<close>

theorem inputbuf_whole:
  "((\<forall>k. mok (min ALLOC_MAX (max ALLOC_MIN sz) * 2 ^ k)) \<longrightarrow> \<not> st_eof f \<longrightarrow>
     (\<exists>sz' g. inputbuf mok sz f = (Some (st_rest f), sz', g) \<and> length (st_rest f) \<le> sz' \<and>
       (\<forall>mok'. fst (inputbuf mok' sz' g) \<in> {None, Some []}))) \<and>
   (\<not> mok (min ALLOC_MAX (max ALLOC_MIN sz)) \<longrightarrow> inputbuf mok sz f = (None, min ALLOC_MAX (max ALLOC_MIN sz), f))"
proof (intro conjI impI)
  let ?s = "min ALLOC_MAX (max ALLOC_MIN sz)"
  assume m: "\<forall>k. mok (?s * 2 ^ k)" and e: "\<not> st_eof f"
  have mk: "mok (?s * 2 ^ k)" for k using m by blast
  have "length [] < ?s" by (simp add: ALLOC_MIN_def ALLOC_MAX_def)
  from read_loop_all [of mok ?s "[]" f, OF mk this] e obtain sz' where
    r: "read_loop mok ?s [] f = (Some (st_rest f), sz', \<lparr>st_rest = [], st_eof = True\<rparr>)" "length (st_rest f) \<le> sz'" by auto
  have "fst (inputbuf mok' sz' \<lparr>st_rest = [], st_eof = True\<rparr>) \<in> {None, Some []}" for mok'
    by (simp add: inputbuf_def Let_def) (subst read_loop.simps, simp)
  moreover have "mok ?s" using mk [of 0] by simp
  ultimately show "\<exists>sz' g. inputbuf mok sz f = (Some (st_rest f), sz', g) \<and> length (st_rest f) \<le> sz' \<and>
     (\<forall>mok'. fst (inputbuf mok' sz' g) \<in> {None, Some []})"
    using r by (intro exI [of _ sz'] exI [of _ "\<lparr>st_rest = [], st_eof = True\<rparr>"]) (simp add: inputbuf_def Let_def)
qed (simp add: inputbuf_def Let_def)

theorem inputbuf_whole_witness:
  "\<exists>sz' g. inputbuf (\<lambda>_. True) 0 \<lparr>st_rest = ''data'', st_eof = False\<rparr> = (Some ''data'', sz', g)"
  using inputbuf_whole [of "\<lambda>_. True" 0 "\<lparr>st_rest = ''data'', st_eof = False\<rparr>"] by auto

end
