(* ===== verification/Xtool.thy ===== *)
theory Xtool
  imports Xchunk Xbind Xlife
begin

text \<open>
  The client of \<^verbatim>\<open>xseg-tool.c\<close>: its global variables and the commands that send requests. The buffers of
  requests are bytes at addresses of the process; a command is a function on the state of
  the tool, with the value it returns. \<open>None\<close> is a lock that is held, a loop that does not end, a crash.

  The parameters of a run: contents of fresh memory, the calling thread, names and operations
  of the types, the results of \<^verbatim>\<open>malloc\<close> by size, what local arrays hold at first, and
  \<^verbatim>\<open>random\<close>: its \<open>k\<close>-th result after a seed, as 32 bits. What the peers do while
  the tool waits is in the operation \<^verbatim>\<open>wait_signal\<close> of its peer type.
\<close>

section \<open>State\<close>

record 'w tool_env =
  te_ver :: u64
  te_junk :: "nat \<Rightarrow> u64 list"
  te_names :: "nat \<Rightarrow> string list"
  te_cl :: caller
  te_me :: u32
  te_nm :: "nat \<Rightarrow> string"
  te_load :: "string \<Rightarrow> domain \<Rightarrow> domain"
  te_drv :: drivers
  te_ops :: "nat \<Rightarrow> 'w seg_ops"
  te_jmok :: "nat \<Rightarrow> bool"
  te_tab :: "u64 list option"
  te_self :: nat
  te_mok :: "nat \<Rightarrow> bool"
  te_local :: "nat \<Rightarrow> string"
  te_random :: "u32 \<Rightarrow> nat \<Rightarrow> u32"

text \<open>What the tool prints: a request with its fields, data, the string at an address with the op of the reply.\<close>

datatype tool_out = Reported nat xseg_request | Data string | Shown u32 nat

text \<open>The global variables. \<open>tl_seg\<close> is the segment when \<open>tl_joined\<close>; the newest output comes first.\<close>

record 'w tool =
  tl_cfg :: xseg_config
  tl_joined :: bool
  tl_seg :: xseg
  tl_process :: "'w process"
  tl_srcport :: xport
  tl_dstport :: xport
  tl_sport :: xport
  tl_sd :: nat
  tl_mem :: "nat \<Rightarrow> char"
  tl_stdin :: stream
  tl_alloc_size :: nat
  tl_out :: "tool_out list"

definition on_seg :: "(xseg \<Rightarrow> ('r \<times> xseg) option) \<Rightarrow> 'w tool \<Rightarrow> ('r \<times> 'w tool) option" where
  "on_seg f t = do { (r, s) \<leftarrow> f (tl_seg t); Some (r, t\<lparr>tl_seg := s\<rparr>) }"

text \<open>Operations that may load a plugin.\<close>

definition on_dom :: "(xseg \<times> domain \<Rightarrow> ('r \<times> xseg \<times> domain) option) \<Rightarrow> 'w tool \<Rightarrow> ('r \<times> 'w tool) option" where
  "on_dom f t =
     do {
       (r, s, d) \<leftarrow> f (tl_seg t, pr_domain (tl_process t));
       Some (r, t\<lparr>tl_seg := s, tl_process := (tl_process t)\<lparr>pr_domain := d\<rparr>\<rparr>)
     }"

definition out :: "tool_out \<Rightarrow> 'w tool \<Rightarrow> 'w tool" where
  "out x t = t\<lparr>tl_out := x # tl_out t\<rparr>"

definition req_of :: "'w tool \<Rightarrow> nat \<Rightarrow> xseg_request" where
  "req_of t req = sg_req_at (tl_seg t) req"

definition set_req :: "nat \<Rightarrow> (xseg_request \<Rightarrow> xseg_request) \<Rightarrow> 'w tool \<Rightarrow> 'w tool" where
  "set_req req f t = t\<lparr>tl_seg := upd_req req f (tl_seg t)\<rparr>"

section \<open>Memory\<close>

definition write_mem :: "nat \<Rightarrow> string \<Rightarrow> (nat \<Rightarrow> char) \<Rightarrow> nat \<Rightarrow> char" where
  "write_mem p cs m = (\<lambda>a. if p \<le> a \<and> a < p + length cs then cs ! (a - p) else m a)"

definition read_mem :: "nat \<Rightarrow> nat \<Rightarrow> (nat \<Rightarrow> char) \<Rightarrow> string" where
  "read_mem p n m = map m [p..<p + n]"

definition poke :: "nat \<Rightarrow> string \<Rightarrow> 'w tool \<Rightarrow> 'w tool" where
  "poke p cs t = t\<lparr>tl_mem := write_mem p cs (tl_mem t)\<rparr>"

text \<open>The bytes of an integer, on a little-endian machine.\<close>

definition int_bytes :: "nat \<Rightarrow> u64 \<Rightarrow> string" where
  "int_bytes n w = map (\<lambda>i. char_of (unat (drop_bit (8 * i) w) mod 256)) [0..<n]"

definition target_of :: "'w tool \<Rightarrow> nat \<Rightarrow> nat" where "target_of t req = xseg_get_target (tl_seg t) req"
definition data_at :: "'w tool \<Rightarrow> nat \<Rightarrow> nat" where "data_at t req = xseg_get_data (tl_seg t) req"

section \<open>Operation codes and flags\<close>

definition X_READ :: u32 where "X_READ = 1"
definition X_WRITE :: u32 where "X_WRITE = 2"
definition X_SYNC :: u32 where "X_SYNC = 3"
definition X_TRUNCATE :: u32 where "X_TRUNCATE = 4"
definition X_DELETE :: u32 where "X_DELETE = 5"
definition X_ACQUIRE :: u32 where "X_ACQUIRE = 6"
definition X_RELEASE :: u32 where "X_RELEASE = 7"
definition X_COPY :: u32 where "X_COPY = 8"
definition X_CLONE :: u32 where "X_CLONE = 9"
definition X_COMMIT :: u32 where "X_COMMIT = 10"
definition X_INFO :: u32 where "X_INFO = 11"
definition X_OPEN :: u32 where "X_OPEN = 14"
definition X_CLOSE :: u32 where "X_CLOSE = 15"
definition X_SNAPSHOT :: u32 where "X_SNAPSHOT = 16"
definition XF_NOSYNC :: u32 where "XF_NOSYNC = 1"
definition XF_FORCE :: u32 where "XF_FORCE = 8"
definition XS_SERVED :: u32 where "XS_SERVED = 1"
definition XS_FAILED :: u32 where "XS_FAILED = 2"

text \<open>The structures of a copy, a clone and a snapshot: a target, its length and, in a clone, a size.\<close>

definition XCOPY_TARGETLEN :: nat where "XCOPY_TARGETLEN = 256"
definition XCOPY_SIZE :: u64 where "XCOPY_SIZE = 260"
definition XCLONE_SIZE :: u64 where "XCLONE_SIZE = 272"
definition XSNAPSHOT_SIZE :: u64 where "XSNAPSHOT_SIZE = 260"

section \<open>Joining\<close>

definition cmd_join :: "'w tool_env \<Rightarrow> 'w tool \<Rightarrow> (int \<times> 'w tool) option" where
  "cmd_join e t =
     (if tl_joined t then Some (0, t)
      else do {
        (r, p) \<leftarrow> xseg_join (te_ver e) (te_jmok e) (te_tab e) (te_self e) (te_nm e) (te_load e) (te_ops e)
          (Some (cf_type (tl_cfg t))) (cf_name (tl_cfg t)) (Some ''posix'') (tl_process t);
        let t = t\<lparr>tl_process := p\<rparr>;
        case r of Inl _ \<Rightarrow> Some (-1, t) | Inr s \<Rightarrow> Some (0, t\<lparr>tl_joined := True, tl_seg := s\<rparr>) })"

definition cmd_create :: "'w tool_env \<Rightarrow> 'w tool \<Rightarrow> (int \<times> 'w tool) option" where
  "cmd_create e t =
     do {
       (r, p) \<leftarrow> xseg_create (te_ver e) (te_junk e) (te_names e) (te_cl e) (te_nm e) (te_load e) (te_ops e) (tl_cfg t) (tl_process t);
       Some (if r \<noteq> 0 then -1 else 0, t\<lparr>tl_process := p\<rparr>)
     }"

text \<open>
  The segment is destroyed with the structure that \<^verbatim>\<open>xseg_leave\<close> has unmapped; it is the record here.
\<close>

definition cmd_destroy :: "'w tool_env \<Rightarrow> 'w tool \<Rightarrow> (int \<times> 'w tool) option" where
  "cmd_destroy e t =
     do {
       (r, t) \<leftarrow> cmd_join e t;
       if r \<noteq> 0 then Some (-1, t)
       else do {
         p \<leftarrow> xseg_leave (te_nm e) (te_load e) (te_ops e) (tl_seg t) (tl_process t);
         let p = xseg_destroy (te_nm e) (te_load e) (te_ops e) (tl_seg t) p;
         Some (0, t\<lparr>tl_process := p, tl_joined := False\<rparr>) }
     }"

section \<open>Library calls\<close>

definition tool_get :: "'w tool_env \<Rightarrow> 'w tool \<Rightarrow> (nat \<times> 'w tool) option" where
  "tool_get e t = on_seg (xseg_get_request (te_junk e) (te_cl e) (tl_srcport t) (tl_dstport t) X_ALLOC) t"

definition tool_put :: "'w tool_env \<Rightarrow> nat \<Rightarrow> 'w tool \<Rightarrow> (int \<times> 'w tool) option" where
  "tool_put e req t = on_seg (xseg_put_request (te_cl e) req (tl_srcport t)) t"

definition tool_submit :: "'w tool_env \<Rightarrow> nat \<Rightarrow> 'w tool \<Rightarrow> (xport \<times> 'w tool) option" where
  "tool_submit e req t = on_seg (xseg_submit (te_junk e) (te_cl e) req (tl_srcport t) X_ALLOC) t"

definition tool_respond :: "'w tool_env \<Rightarrow> nat \<Rightarrow> 'w tool \<Rightarrow> (xport \<times> 'w tool) option" where
  "tool_respond e req t = on_seg (xseg_respond (te_junk e) (te_cl e) req (tl_srcport t) X_ALLOC) t"

definition tool_signal :: "'w tool_env \<Rightarrow> xport \<Rightarrow> 'w tool \<Rightarrow> (int \<times> 'w tool) option" where
  "tool_signal e portno t = on_dom (xseg_signal (te_nm e) (te_load e) (te_drv e) portno) t"

definition tool_bind :: "'w tool_env \<Rightarrow> xport \<Rightarrow> 'w tool \<Rightarrow> (nat \<times> 'w tool) option" where
  "tool_bind e portno t = on_seg (xseg_bind_port (te_junk e) (te_nm e) (te_drv e) (te_cl e) (te_me e) portno 0) t"

definition tool_prepare :: "'w tool_env \<Rightarrow> 'w tool \<Rightarrow> (int \<times> 'w tool) option" where
  "tool_prepare e t = on_seg (xseg_prepare_wait (te_drv e) (tl_srcport t)) t"

definition tool_cancel :: "'w tool_env \<Rightarrow> 'w tool \<Rightarrow> (int \<times> 'w tool) option" where
  "tool_cancel e t = on_seg (xseg_cancel_wait (te_drv e) (tl_srcport t)) t"

definition tool_wait :: "'w tool_env \<Rightarrow> u32 \<Rightarrow> 'w tool \<Rightarrow> (int \<times> 'w tool) option" where
  "tool_wait e usec t = on_seg (xseg_wait_signal (te_drv e) (tl_sd t) usec) t"

text \<open>The port is followed without a test: a crash when there is none.\<close>

definition init_local_signal :: "'w tool_env \<Rightarrow> 'w tool \<Rightarrow> 'w tool option" where
  "init_local_signal e t =
     (if tl_joined t \<and> tl_sport t \<noteq> tl_srcport t then do {
        (_, t) \<leftarrow> on_dom (xseg_init_local_signal (te_nm e) (te_load e) (te_drv e) (tl_srcport t)) t;
        let t = t\<lparr>tl_sport := tl_srcport t\<rparr>;
        let port = xseg_get_port (tl_seg t) (tl_srcport t);
        if port = 0 then None else Some (t\<lparr>tl_sd := xseg_get_signal_desc (tl_seg t) port\<rparr>) }
      else Some t)"

definition report_request :: "nat \<Rightarrow> 'w tool \<Rightarrow> 'w tool" where
  "report_request req t = out (Reported req (req_of t req)) t"

section \<open>Commands that send a request\<close>

text \<open>
  What they begin with: a request, prepared for a target and some data; 0 when one of the two fails. A
  request that cannot be prepared is put back.
\<close>

definition new_request :: "'w tool_env \<Rightarrow> u32 \<Rightarrow> u64 \<Rightarrow> 'w tool \<Rightarrow> (nat \<times> 'w tool) option" where
  "new_request e targetlen sz t =
     do {
       (req, t) \<leftarrow> tool_get e t;
       if req = 0 then Some (0, t)
       else do {
         (r, t) \<leftarrow> on_seg (xseg_prep_request (te_cl e) req targetlen sz) t;
         if r < 0 then do { (_, t) \<leftarrow> tool_put e req t; Some (0, t) } else Some (req, t) }
     }"

text \<open>\<^verbatim>\<open>strncpy\<close> of a name to the target, with its own length.\<close>

definition put_target :: "nat \<Rightarrow> string \<Rightarrow> 'w tool \<Rightarrow> 'w tool" where
  "put_target req target t = poke (target_of t req) (strn (unat (of_nat (length target) :: u32)) target) t"

text \<open>What they end with: a request that cannot be submitted is not put back.\<close>

definition send_request :: "'w tool_env \<Rightarrow> nat \<Rightarrow> 'w tool \<Rightarrow> (int \<times> 'w tool) option" where
  "send_request e req t =
     do {
       (p, t) \<leftarrow> tool_submit e req t;
       if p = NoPort then Some (-1, t)
       else do { (_, t) \<leftarrow> tool_signal e p t; Some (0, t) }
     }"

definition strlen :: "string \<Rightarrow> u32" where "strlen str = of_nat (length str)"

definition cmd_info :: "'w tool_env \<Rightarrow> string \<Rightarrow> 'w tool \<Rightarrow> (int \<times> 'w tool) option" where
  "cmd_info e target t =
     do {
       (req, t) \<leftarrow> new_request e (strlen target) 8 t;
       if req = 0 then Some (-1, t)
       else send_request e req
         (set_req req (\<lambda>r. r\<lparr>rq_offset := 0, rq_size := 8, rq_op := X_INFO\<rparr>) (put_target req target t))
     }"

definition cmd_read :: "'w tool_env \<Rightarrow> string \<Rightarrow> u64 \<Rightarrow> u64 \<Rightarrow> 'w tool \<Rightarrow> (int \<times> 'w tool) option" where
  "cmd_read e target offset sz t =
     do {
       (req, t) \<leftarrow> new_request e (strlen target) sz t;
       if req = 0 then Some (-1, t)
       else send_request e req (report_request req
         (set_req req (\<lambda>r. r\<lparr>rq_offset := offset, rq_size := sz, rq_op := X_READ\<rparr>) (put_target req target t)))
     }"

definition cmd_write :: "'w tool_env \<Rightarrow> string \<Rightarrow> u64 \<Rightarrow> 'w tool \<Rightarrow> (int \<times> 'w tool) option" where
  "cmd_write e target offset t =
     (let (b, asz, f) = inputbuf (te_mok e) (tl_alloc_size t) (tl_stdin t);
          t = t\<lparr>tl_alloc_size := asz, tl_stdin := f\<rparr>;
          buf = (case b of None \<Rightarrow> [] | Some b \<Rightarrow> b); sz = of_nat (length buf) :: u64 in
      if sz = 0 then Some (-1, t)
      else do {
        (req, t) \<leftarrow> new_request e (strlen target) sz t;
        if req = 0 then Some (-1, t)
        else
          let t = put_target req target t; t = poke (data_at t req) buf t in
          send_request e req (set_req req (\<lambda>r. r\<lparr>rq_offset := offset, rq_size := sz, rq_op := X_WRITE\<rparr>) t) })"

definition cmd_truncate :: "string \<Rightarrow> u64 \<Rightarrow> 'w tool \<Rightarrow> int \<times> 'w tool" where
  "cmd_truncate target offset t = (0, t)"

text \<open>The only command that puts back a request it could not submit.\<close>

definition cmd_delete :: "'w tool_env \<Rightarrow> string \<Rightarrow> 'w tool \<Rightarrow> (int \<times> 'w tool) option" where
  "cmd_delete e target t =
     do {
       t \<leftarrow> init_local_signal e t;
       (_, t) \<leftarrow> tool_bind e (tl_srcport t) t;
       (req, t) \<leftarrow> new_request e (strlen target) 0 t;
       if req = 0 then Some (-1, t)
       else do {
         let t = set_req req (\<lambda>r. r\<lparr>rq_op := X_DELETE\<rparr>) (put_target req target t);
         (p, t) \<leftarrow> tool_submit e req t;
         if p = NoPort then do { (_, t) \<leftarrow> tool_put e req t; Some (-1, t) }
         else do { (_, t) \<leftarrow> tool_signal e p t; Some (0, t) } }
     }"

definition cmd_acquire :: "'w tool_env \<Rightarrow> string \<Rightarrow> 'w tool \<Rightarrow> (int \<times> 'w tool) option" where
  "cmd_acquire e target t =
     do {
       (req, t) \<leftarrow> new_request e (strlen target) 0 t;
       if req = 0 then Some (-1, t)
       else send_request e req
         (set_req req (\<lambda>r. r\<lparr>rq_offset := 0, rq_size := 0, rq_op := X_ACQUIRE, rq_flags := XF_NOSYNC\<rparr>) (put_target req target t))
     }"

definition cmd_release :: "'w tool_env \<Rightarrow> string \<Rightarrow> 'w tool \<Rightarrow> (int \<times> 'w tool) option" where
  "cmd_release e target t =
     do {
       (req, t) \<leftarrow> new_request e (strlen target) 0 t;
       if req = 0 then Some (-1, t)
       else send_request e req
         (set_req req (\<lambda>r. r\<lparr>rq_offset := 0, rq_size := 0, rq_op := X_RELEASE, rq_flags := 0\<rparr>) (put_target req target t))
     }"

definition cmd_open :: "'w tool_env \<Rightarrow> string \<Rightarrow> 'w tool \<Rightarrow> (int \<times> 'w tool) option" where
  "cmd_open e target t =
     do {
       (req, t) \<leftarrow> new_request e (strlen target) 0 t;
       if req = 0 then Some (-1, t)
       else send_request e req
         (set_req req (\<lambda>r. r\<lparr>rq_offset := 0, rq_size := 0, rq_op := X_OPEN\<rparr>) (put_target req target t))
     }"

definition cmd_close :: "'w tool_env \<Rightarrow> string \<Rightarrow> 'w tool \<Rightarrow> (int \<times> 'w tool) option" where
  "cmd_close e target t =
     do {
       (req, t) \<leftarrow> new_request e (strlen target) 0 t;
       if req = 0 then Some (-1, t)
       else send_request e req
         (set_req req (\<lambda>r. r\<lparr>rq_offset := 0, rq_size := 0, rq_op := X_CLOSE, rq_flags := XF_FORCE\<rparr>) (put_target req target t))
     }"

text \<open>A target and its length in the data; the length is not compared with the field of the structure.\<close>

definition put_parent :: "nat \<Rightarrow> string \<Rightarrow> 'w tool \<Rightarrow> 'w tool" where
  "put_parent p parent t = poke (p + XCOPY_TARGETLEN) (int_bytes 4 (ucast (strlen parent)))
     (poke p (strn (unat (strlen parent)) parent) t)"

definition cmd_copy :: "'w tool_env \<Rightarrow> string \<Rightarrow> string \<Rightarrow> 'w tool \<Rightarrow> (int \<times> 'w tool) option" where
  "cmd_copy e src dst t =
     do {
       (req, t) \<leftarrow> new_request e (strlen dst) XCOPY_SIZE t;
       if req = 0 then Some (-1, t)
       else
         let p = data_at t req; t = put_target req dst t; t = put_parent p src t in
         send_request e req (set_req req (\<lambda>r. r\<lparr>rq_offset := 0, rq_size := XCOPY_SIZE, rq_op := X_COPY\<rparr>) t)
     }"

definition cmd_clone :: "'w tool_env \<Rightarrow> string \<Rightarrow> string \<Rightarrow> u64 \<Rightarrow> 'w tool \<Rightarrow> (int \<times> 'w tool) option" where
  "cmd_clone e src dst sz t =
     do {
       (_, t) \<leftarrow> tool_bind e (tl_srcport t) t;
       (req, t) \<leftarrow> new_request e (strlen dst) XCLONE_SIZE t;
       if req = 0 then Some (-1, t)
       else
         let p = data_at t req; t = put_target req dst t; t = put_parent p src t;
             t = poke (p + 264) (int_bytes 8 (if sz \<noteq> 0 then sz * (1024 * 1024) else 0)) t in
         send_request e req (set_req req (\<lambda>r. r\<lparr>rq_offset := 0, rq_size := XCLONE_SIZE, rq_op := X_CLONE\<rparr>) t)
     }"

definition cmd_snapshot :: "'w tool_env \<Rightarrow> string \<Rightarrow> string \<Rightarrow> u64 \<Rightarrow> 'w tool \<Rightarrow> (int \<times> 'w tool) option" where
  "cmd_snapshot e src dst block_size t =
     do {
       (_, t) \<leftarrow> tool_bind e (tl_srcport t) t;
       (req, t) \<leftarrow> new_request e (strlen src) XSNAPSHOT_SIZE t;
       if req = 0 then Some (-1, t)
       else
         let p = data_at t req; t = put_target req src t; t = put_parent p dst t in
         send_request e req (set_req req (\<lambda>r. r\<lparr>rq_offset := 0, rq_size := block_size, rq_op := X_SNAPSHOT\<rparr>) t)
     }"

text \<open>The body of \<^verbatim>\<open>cmd_bridge\<close> is not compiled.\<close>

definition cmd_bridge :: "xport \<Rightarrow> xport \<Rightarrow> string \<Rightarrow> string \<Rightarrow> 'w tool \<Rightarrow> int \<times> 'w tool" where
  "cmd_bridge portno1 portno2 logfile how t = (0, t)"

section \<open>Commands for ports and their queues\<close>

definition cmd_alloc_requests :: "'w tool_env \<Rightarrow> u64 \<Rightarrow> 'w tool \<Rightarrow> (int \<times> 'w tool) option" where
  "cmd_alloc_requests e nr t = on_seg (xseg_alloc_requests (te_junk e) (te_cl e) (tl_srcport t) (ucast nr)) t"

definition cmd_free_requests :: "'w tool_env \<Rightarrow> u64 \<Rightarrow> 'w tool \<Rightarrow> (int \<times> 'w tool) option" where
  "cmd_free_requests e nr t = on_seg (xseg_free_requests (te_cl e) (tl_srcport t) (sint (ucast nr :: u32))) t"

partial_function (option) put_requests_loop :: "'w tool_env \<Rightarrow> 'w tool \<Rightarrow> (int \<times> 'w tool) option" where
  "put_requests_loop e t =
     Option.bind (on_seg (xseg_accept (te_cl e) (tl_dstport t) 0) t) (\<lambda>(req, t).
       if req = 0 then Some (0, t) else Option.bind (tool_put e req t) (\<lambda>(_, t). put_requests_loop e t))"

declare put_requests_loop.simps [code]

definition cmd_put_requests :: "'w tool_env \<Rightarrow> 'w tool \<Rightarrow> (int \<times> 'w tool) option" where
  "cmd_put_requests e t = put_requests_loop e t"

partial_function (option) put_replies_loop :: "'w tool_env \<Rightarrow> 'w tool \<Rightarrow> (int \<times> 'w tool) option" where
  "put_replies_loop e t =
     Option.bind (on_seg (xseg_receive (te_cl e) (tl_dstport t) 0) t) (\<lambda>(req, t).
       if req = 0 then Some (0, t)
       else Option.bind (tool_put e req (report_request req t)) (\<lambda>(_, t). put_replies_loop e t))"

declare put_replies_loop.simps [code]

definition cmd_put_replies :: "'w tool_env \<Rightarrow> 'w tool \<Rightarrow> (int \<times> 'w tool) option" where
  "cmd_put_replies e t = put_replies_loop e t"

text \<open>The string at a pointer, as far as the pattern of \<open>n\<close> bytes of it depends on it.\<close>

definition str_at :: "nat \<Rightarrow> nat \<Rightarrow> (nat \<Rightarrow> char) \<Rightarrow> string" where
  "str_at p n m = takeWhile (\<lambda>c. c \<noteq> NUL) (read_mem p n m)"

text \<open>\<^verbatim>\<open>mkchunk\<close> and \<^verbatim>\<open>chkchunk\<close> on the data of a request, with the name at \<open>name\<close>.\<close>

definition fill_data :: "'w tool_env \<Rightarrow> nat \<Rightarrow> u32 \<Rightarrow> string \<Rightarrow> u32 \<Rightarrow> u64 \<Rightarrow> 'w tool \<Rightarrow> 'w tool option" where
  "fill_data e p datalen name targetlen offset t =
     do {
       c \<leftarrow> mkchunk (te_local e (unat (targetlen + 16))) (read_mem p (unat datalen) (tl_mem t)) datalen name targetlen offset;
       Some (poke p c t)
     }"

definition check_data :: "'w tool_env \<Rightarrow> nat \<Rightarrow> 'w tool \<Rightarrow> bool option" where
  "check_data e req t =
     (let r = req_of t req; p = data_at t req; n = ucast (rq_datalen r) :: u32 in
      chkchunk (te_local e (unat (rq_targetlen r + 16))) (read_mem p (unat n) (tl_mem t)) n
        (str_at (target_of t req) (unat (rq_targetlen r)) (tl_mem t)) (rq_targetlen r) (rq_offset r))"

text \<open>
  Serving one request. The answer to \<^verbatim>\<open>X_INFO\<close> is written through \<^verbatim>\<open>req->data\<close>, which is an offset and not
  an address: a crash unless the offset happens to be an address of the segment. The buffer of
  a write is copied to memory that is freed without being read, if there is any.
\<close>

definition serve_request :: "'w tool_env \<Rightarrow> nat \<Rightarrow> 'w tool \<Rightarrow> 'w tool option" where
  "serve_request e req t =
     do {
       let r = req_of t req;
       t \<leftarrow> (if rq_op r = X_READ then
               fill_data e (data_at t req) (ucast (rq_datalen r)) (str_at (target_of t req) (unat (rq_targetlen r)) (tl_mem t))
                 (rq_targetlen r) (rq_offset r) t
             else if rq_op r = X_WRITE then (if te_mok e 8128 then Some t else None)
             else if rq_op r = X_INFO then
               (if sg_segment (tl_seg t) \<le> rq_data r \<and> rq_data r + 8 \<le> sg_segment (tl_seg t) + sg_segment_size (tl_seg t)
                then Some (poke (rq_data r) (int_bytes 8 4294967296) t) else None)
             else Some t);
       Some (set_req req (\<lambda>r. r\<lparr>rq_state := rq_state r OR XS_SERVED, rq_serviced := rq_size r\<rparr>) t)
     }"

partial_function (option) finish_loop :: "'w tool_env \<Rightarrow> bool \<Rightarrow> u64 \<Rightarrow> 'w tool \<Rightarrow> (int \<times> 'w tool) option" where
  "finish_loop e fail nr t =
     (if nr = 0 then Some (0, t)
      else Option.bind (tool_prepare e t) (\<lambda>(_, t).
        Option.bind (on_seg (xseg_accept (te_cl e) (tl_srcport t) 0) t) (\<lambda>(req, t).
          if req \<noteq> 0 then
            Option.bind (tool_cancel e t) (\<lambda>(_, t).
            Option.bind (if fail then Some (set_req req (\<lambda>r. r\<lparr>rq_state := rq_state r AND NOT XS_SERVED\<rparr>) t) else serve_request e req t) (\<lambda>t.
            Option.bind (tool_respond e req t) (\<lambda>(p, t).
            Option.bind (tool_signal e p t) (\<lambda>(_, t). finish_loop e fail (nr - 1) t))))
          else Option.bind (tool_wait e 10000000 t) (\<lambda>(_, t). finish_loop e fail nr t))))"

declare finish_loop.simps [code]

definition cmd_finish :: "'w tool_env \<Rightarrow> u64 \<Rightarrow> bool \<Rightarrow> 'w tool \<Rightarrow> (int \<times> 'w tool) option" where
  "cmd_finish e nr fail t =
     do {
       (_, t) \<leftarrow> tool_bind e (tl_srcport t) t;
       t \<leftarrow> init_local_signal e t;
       finish_loop e fail nr t
     }"

text \<open>What is printed for a reply; a clone, a truncation and a commit share a case, as do a delete and a sync.\<close>

definition reply_out :: "nat \<Rightarrow> 'w tool \<Rightarrow> tool_out list" where
  "reply_out req t =
     (let r = req_of t req; op = rq_op r; d = data_at t req in
      if rq_state r AND XS_SERVED = 0 then [Reported req r]
      else if op = X_READ \<or> op = X_WRITE then [Data (read_mem d (unat (rq_datalen r)) (tl_mem t))]
      else if op = X_SYNC \<or> op = X_DELETE then [Shown X_DELETE (target_of t req)]
      else if op = X_TRUNCATE \<or> op = X_COMMIT \<or> op = X_CLONE then [Shown X_CLONE d]
      else if op = X_INFO \<or> op = X_COPY then [Shown op d]
      else if op = X_CLOSE \<or> op = X_OPEN \<or> op = X_SNAPSHOT then [Shown op (target_of t req)]
      else [])"

definition handle_reply :: "'w tool_env \<Rightarrow> nat \<Rightarrow> 'w tool \<Rightarrow> 'w tool option" where
  "handle_reply e req t =
     do { (_, t) \<leftarrow> tool_put e req (t\<lparr>tl_out := reply_out req t @ tl_out t\<rparr>); Some t }"

partial_function (option) wait_loop :: "'w tool_env \<Rightarrow> u32 \<Rightarrow> 'w tool \<Rightarrow> (int \<times> 'w tool) option" where
  "wait_loop e nr t =
     Option.bind (on_seg (xseg_receive (te_cl e) (tl_srcport t) 0) t) (\<lambda>(req, t).
       if req \<noteq> 0 then
         Option.bind (handle_reply e req t) (\<lambda>t. if nr - 1 = 0 then Some (0, t) else wait_loop e (nr - 1) t)
       else
         Option.bind (tool_prepare e t) (\<lambda>(r, t).
           if r \<noteq> 0 then Some (-1, t)
           else Option.bind (tool_wait e 1000000 t) (\<lambda>(_, t).
             Option.bind (tool_cancel e t) (\<lambda>(r, t). if r \<noteq> 0 then Some (-1, t) else wait_loop e nr t))))"

declare wait_loop.simps [code]

definition cmd_wait :: "'w tool_env \<Rightarrow> u32 \<Rightarrow> 'w tool \<Rightarrow> (int \<times> 'w tool) option" where
  "cmd_wait e nr t = do { t \<leftarrow> init_local_signal e t; wait_loop e nr t }"

text \<open>Port numbers come as \<^verbatim>\<open>long\<close> and are cut to 32 bits in the calls.\<close>

definition cmd_bind :: "'w tool_env \<Rightarrow> int \<Rightarrow> 'w tool \<Rightarrow> (int \<times> 'w tool) option" where
  "cmd_bind e portno t = do { (port, t) \<leftarrow> tool_bind e (of_int portno) t; Some (if port = 0 then 1 else 0, t) }"

definition cmd_free :: "'w tool_env \<Rightarrow> int \<Rightarrow> 'w tool \<Rightarrow> (int \<times> 'w tool) option" where
  "cmd_free e portno t =
     (if portno < uint (cf_dynports (sg_config (tl_seg t))) then Some (0, t)
      else let port = xseg_get_port (tl_seg t) (of_int portno) in
        if port = 0 then Some (1, t)
        else do { (r, t) \<leftarrow> on_seg (xseg_leave_dynport (te_cl e) port) t; Some (if r < 0 then 1 else 0, t) })"

definition cmd_signal :: "'w tool_env \<Rightarrow> xport \<Rightarrow> 'w tool \<Rightarrow> (int \<times> 'w tool) option" where
  "cmd_signal e portno t = tool_signal e portno t"

text \<open>Unlike \<^verbatim>\<open>xseg_set_path_next\<close>, this writes without looking at the numbers.\<close>

definition cmd_set_next :: "xport \<Rightarrow> xport \<Rightarrow> 'w tool \<Rightarrow> (int \<times> 'w tool) option" where
  "cmd_set_next portno nxt t =
     (if unat portno < length (sg_path_next (tl_seg t))
      then Some (0, t\<lparr>tl_seg := (tl_seg t)\<lparr>sg_path_next := (sg_path_next (tl_seg t))[unat portno := nxt]\<rparr>\<rparr>) else None)"

section \<open>Random requests\<close>

text \<open>
  The local variables of the loops: the request submitted last (its variable keeps the pointer when
  nothing is submitted), the counters, the seed of the next name and the number of calls of
  \<^verbatim>\<open>random\<close>.
\<close>

record rnd =
  rn_submitted :: nat
  rn_nr_submitted :: int
  rn_nr_received :: int
  rn_nr_failed :: int
  rn_nr_mismatch :: int
  rn_seed :: u32
  rn_calls :: nat

text \<open>
  Sending one request for \<open>sz\<close> bytes of data, which \<open>setup\<close> fills in. No result inside is the exit when
  the request cannot be prepared.
\<close>

definition rnd_send ::
  "'w tool_env \<Rightarrow> u32 \<Rightarrow> u64 \<Rightarrow> (u32 \<Rightarrow> nat \<Rightarrow> 'w tool \<Rightarrow> 'w tool option) \<Rightarrow> u32 \<Rightarrow> rnd \<Rightarrow> 'w tool \<Rightarrow> (rnd option \<times> 'w tool) option" where
  "rnd_send e targetlen sz setup seed0 n t =
     do {
       (req, t) \<leftarrow> tool_get e t;
       let n = n\<lparr>rn_submitted := req\<rparr>;
       if req = 0 then Some (Some n, t)
       else do {
         (_, t) \<leftarrow> tool_cancel e t;
         (r, t) \<leftarrow> on_seg (xseg_prep_request (te_cl e) req targetlen sz) t;
         if r < 0 then do { (_, t) \<leftarrow> tool_put e req t; Some (None, t) }
         else do {
           t \<leftarrow> setup (rn_seed n) req t;
           (p, t) \<leftarrow> tool_submit e req t;
           if p = NoPort then do { (_, t) \<leftarrow> tool_put e req t; Some (Some n, t) }
           else do {
             let n = n\<lparr>rn_seed := te_random e seed0 (rn_calls n), rn_calls := rn_calls n + 1,
                       rn_nr_submitted := rn_nr_submitted n + 1\<rparr>;
             (_, t) \<leftarrow> tool_signal e p t;
             Some (Some n, t) } } }
     }"

text \<open>Receiving one, and checking what was served. The result is the request, 0 for none.\<close>

definition rnd_receive ::
  "'w tool_env \<Rightarrow> (nat \<Rightarrow> 'w tool \<Rightarrow> bool option) \<Rightarrow> rnd \<Rightarrow> 'w tool \<Rightarrow> (nat \<times> rnd \<times> 'w tool) option" where
  "rnd_receive e check n t =
     do {
       (req, t) \<leftarrow> on_seg (xseg_receive (te_cl e) (tl_srcport t) 0) t;
       if req = 0 then Some (0, n, t)
       else do {
         (_, t) \<leftarrow> tool_cancel e t;
         let n = n\<lparr>rn_nr_received := rn_nr_received n + 1\<rparr>;
         (n, t) \<leftarrow> (if rq_state (req_of t req) AND XS_SERVED = 0
            then Some (n\<lparr>rn_nr_failed := rn_nr_failed n + 1\<rparr>, report_request req t)
            else do { b \<leftarrow> check req t; Some (if b then n else n\<lparr>rn_nr_mismatch := rn_nr_mismatch n + 1\<rparr>, t) });
         (_, t) \<leftarrow> tool_put e req t;
         Some (req, n, t) }
     }"

text \<open>\<open>reset\<close>: the pointer is cleared at the beginning of an iteration, which only reading does.\<close>

partial_function (option) rnd_loop ::
  "'w tool_env \<Rightarrow> bool \<Rightarrow> int \<Rightarrow> u32 \<Rightarrow> u64 \<Rightarrow> (u32 \<Rightarrow> nat \<Rightarrow> 'w tool \<Rightarrow> 'w tool option) \<Rightarrow> (nat \<Rightarrow> 'w tool \<Rightarrow> bool option) \<Rightarrow>
     u32 \<Rightarrow> rnd \<Rightarrow> 'w tool \<Rightarrow> (int \<times> rnd \<times> 'w tool) option" where
  "rnd_loop e reset loops targetlen sz setup check seed0 n t =
     (let n = (if reset then n\<lparr>rn_submitted := 0\<rparr> else n) in
      Option.bind (tool_prepare e t) (\<lambda>(_, t).
      Option.bind (if rn_nr_submitted n < loops then rnd_send e targetlen sz setup seed0 n t else Some (Some n, t)) (\<lambda>(m, t).
        case m of None \<Rightarrow> Some (-1, n, t)
        | Some n \<Rightarrow>
            Option.bind (rnd_receive e check n t) (\<lambda>(received, n, t).
            Option.bind (if rn_submitted n = 0 \<and> received = 0 then tool_wait e 1000000 t else Some (0, t)) (\<lambda>(_, t).
              if rn_nr_received n \<ge> loops then Some (0, n, t)
              else rnd_loop e reset loops targetlen sz setup check seed0 n t)))))"

declare rnd_loop.simps [code]

text \<open>Setting up the loop: two allocations, or one, the seed, the local signal.\<close>

definition rnd_start ::
  "'w tool_env \<Rightarrow> bool \<Rightarrow> int \<Rightarrow> u32 \<Rightarrow> u32 \<Rightarrow> u64 \<Rightarrow> (u32 \<Rightarrow> nat \<Rightarrow> 'w tool \<Rightarrow> 'w tool option) \<Rightarrow> (nat \<Rightarrow> 'w tool \<Rightarrow> bool option) \<Rightarrow>
     'w tool \<Rightarrow> (int \<times> 'w tool) option" where
  "rnd_start e reset loops seed targetlen sz setup check t =
     do {
       t \<leftarrow> init_local_signal e t;
       (r, n, t) \<leftarrow> rnd_loop e reset loops targetlen sz setup check seed
         \<lparr>rn_submitted = 0, rn_nr_submitted = 0, rn_nr_received = 0, rn_nr_failed = 0, rn_nr_mismatch = 0,
           rn_seed = te_random e seed 0, rn_calls = 1\<rparr> t;
       Some (r, t)
     }"

definition write_setup :: "'w tool_env \<Rightarrow> u32 \<Rightarrow> u32 \<Rightarrow> u32 \<Rightarrow> nat \<Rightarrow> 'w tool \<Rightarrow> 'w tool option" where
  "write_setup e targetlen chunksize seed req t =
     (let name = mkname_heavy (unat targetlen) seed; t = poke (target_of t req) name t in
      do {
        t \<leftarrow> fill_data e (data_at t req) chunksize name targetlen 0 t;
        Some (set_req req (\<lambda>r. r\<lparr>rq_offset := 0, rq_size := ucast chunksize, rq_op := X_WRITE,
          rq_flags := rq_flags r OR XF_NOSYNC\<rparr>) t) })"

definition delete_setup :: "u32 \<Rightarrow> u32 \<Rightarrow> nat \<Rightarrow> 'w tool \<Rightarrow> 'w tool option" where
  "delete_setup targetlen seed req t =
     Some (set_req req (\<lambda>r. r\<lparr>rq_offset := 0, rq_size := 0, rq_op := X_DELETE, rq_flags := 0\<rparr>)
       (poke (target_of t req) (mkname_heavy (unat targetlen) seed) t))"

definition read_setup :: "u32 \<Rightarrow> u32 \<Rightarrow> u32 \<Rightarrow> nat \<Rightarrow> 'w tool \<Rightarrow> 'w tool option" where
  "read_setup targetlen chunksize seed req t =
     Some (set_req req (\<lambda>r. r\<lparr>rq_offset := 0, rq_size := ucast chunksize, rq_op := X_READ\<rparr>)
       (poke (target_of t req) (mkname_heavy (unat targetlen) seed) t))"

definition cmd_rndwrite :: "'w tool_env \<Rightarrow> int \<Rightarrow> u32 \<Rightarrow> u32 \<Rightarrow> u32 \<Rightarrow> 'w tool \<Rightarrow> (int \<times> 'w tool) option" where
  "cmd_rndwrite e loops seed targetlen chunksize t =
     (if loops < 0 then Some (1, t)
      else if targetlen \<ge> chunksize then Some (-1, t)
      else if \<not> te_mok e (unat targetlen + 1) then Some (-1, t)
      else if \<not> te_mok e (unat chunksize) then Some (-1, t)
      else rnd_start e False loops seed targetlen (ucast chunksize) (write_setup e targetlen chunksize) (\<lambda>_ _. Some True) t)"

text \<open>The largest length wraps to an allocation of nothing, which is written to.\<close>

definition cmd_rnddelete :: "'w tool_env \<Rightarrow> int \<Rightarrow> u32 \<Rightarrow> u32 \<Rightarrow> 'w tool \<Rightarrow> (int \<times> 'w tool) option" where
  "cmd_rnddelete e loops seed targetlen t =
     (if loops < 0 then Some (1, t)
      else if \<not> te_mok e (unat (targetlen + 1)) then Some (-1, t)
      else if targetlen + 1 = 0 then None
      else rnd_start e False loops seed targetlen 0 (delete_setup targetlen) (\<lambda>_ _. Some True) t)"

definition cmd_rndread :: "'w tool_env \<Rightarrow> int \<Rightarrow> u32 \<Rightarrow> u32 \<Rightarrow> u32 \<Rightarrow> 'w tool \<Rightarrow> (int \<times> 'w tool) option" where
  "cmd_rndread e loops seed targetlen chunksize t =
     (if loops < 0 then Some (1, t)
      else if targetlen \<ge> chunksize then Some (-1, t)
      else if \<not> te_mok e (unat targetlen + 1) then Some (-1, t)
      else if \<not> te_mok e (unat chunksize) then Some (-1, t)
      else rnd_start e True loops seed targetlen (ucast chunksize) (read_setup targetlen chunksize) (check_data e) t)"

section \<open>Requests at a rate\<close>

text \<open>
  The counters of \<^verbatim>\<open>cmd_submit_reqs\<close>. A request is counted before it is submitted, and one that cannot be
  submitted is neither put back nor taken off the count.
\<close>

record rate =
  ra_nr_submitted :: int
  ra_nr_received :: int
  ra_nr_flying :: int
  ra_nr_failed :: int

definition rate_setup :: "'w tool_env \<Rightarrow> int \<Rightarrow> nat \<Rightarrow> 'w tool \<Rightarrow> 'w tool option" where
  "rate_setup e op req t =
     (let t = set_req req (\<lambda>r. r\<lparr>rq_offset := 0, rq_size := 4096\<rparr>) t in
      if op = 0 then Some (set_req req (\<lambda>r. r\<lparr>rq_op := X_INFO\<rparr>) t)
      else if op = 1 then Some (set_req req (\<lambda>r. r\<lparr>rq_op := X_READ\<rparr>) t)
      else if op = 2 then
        (let t = set_req req (\<lambda>r. r\<lparr>rq_op := X_WRITE\<rparr>) t; r = req_of t req in
         fill_data e (data_at t req) (ucast (rq_datalen r)) (str_at (target_of t req) (unat (rq_targetlen r)) (tl_mem t))
           (rq_targetlen r) (rq_offset r) t)
      else Some t)"

definition rate_send :: "'w tool_env \<Rightarrow> int \<Rightarrow> rate \<Rightarrow> 'w tool \<Rightarrow> ((nat \<times> rate) option \<times> 'w tool) option" where
  "rate_send e op n t =
     do {
       (req, t) \<leftarrow> tool_get e t;
       if req = 0 then Some (Some (0, n), t)
       else do {
         (_, t) \<leftarrow> tool_cancel e t;
         (r, t) \<leftarrow> on_seg (xseg_prep_request (te_cl e) req 10 4096) t;
         if r < 0 then do { (_, t) \<leftarrow> tool_put e req t; Some (None, t) }
         else do {
           let n = n\<lparr>ra_nr_flying := ra_nr_flying n + 1, ra_nr_submitted := ra_nr_submitted n + 1\<rparr>;
           t \<leftarrow> rate_setup e op req t;
           (p, t) \<leftarrow> tool_submit e req t;
           (_, t) \<leftarrow> (if p \<noteq> NoPort then tool_signal e p t else Some (0, t));
           Some (Some (req, n), t) } }
     }"

definition rate_receive :: "'w tool_env \<Rightarrow> rate \<Rightarrow> 'w tool \<Rightarrow> (nat \<times> rate \<times> 'w tool) option" where
  "rate_receive e n t =
     do {
       (req, t) \<leftarrow> on_seg (xseg_receive (te_cl e) (tl_srcport t) 0) t;
       if req = 0 then Some (0, n, t)
       else do {
         (_, t) \<leftarrow> tool_cancel e t;
         let n = n\<lparr>ra_nr_flying := ra_nr_flying n - 1, ra_nr_received := ra_nr_received n + 1,
                   ra_nr_failed := ra_nr_failed n + (if rq_state (req_of t req) AND XS_SERVED = 0 then 1 else 0)\<rparr>;
         (_, t) \<leftarrow> tool_put e req t;
         Some (req, n, t) }
     }"

partial_function (option) rate_loop :: "'w tool_env \<Rightarrow> int \<Rightarrow> int \<Rightarrow> int \<Rightarrow> rate \<Rightarrow> 'w tool \<Rightarrow> (int \<times> rate \<times> 'w tool) option" where
  "rate_loop e loops concurrent op n t =
     Option.bind (tool_prepare e t) (\<lambda>(_, t).
     Option.bind (if ra_nr_submitted n < loops \<and> ra_nr_flying n < concurrent then rate_send e op n t else Some (Some (0, n), t)) (\<lambda>(m, t).
       case m of None \<Rightarrow> Some (-1, n, t)
       | Some (submitted, n) \<Rightarrow>
           Option.bind (rate_receive e n t) (\<lambda>(received, n, t).
           Option.bind (if submitted = 0 \<and> received = 0 then tool_wait e 10000000 t else Some (0, t)) (\<lambda>(_, t).
             if ra_nr_received n \<ge> loops then Some (0, n, t) else rate_loop e loops concurrent op n t))))"

declare rate_loop.simps [code]

definition cmd_submit_reqs :: "'w tool_env \<Rightarrow> int \<Rightarrow> int \<Rightarrow> int \<Rightarrow> 'w tool \<Rightarrow> (int \<times> 'w tool) option" where
  "cmd_submit_reqs e loops concurrent op t =
     (if loops < 0 then Some (1, t)
      else do {
        (_, t) \<leftarrow> tool_bind e (tl_srcport t) t;
        (r, n, t) \<leftarrow> rate_loop e loops concurrent op
          \<lparr>ra_nr_submitted = 0, ra_nr_received = 0, ra_nr_flying = 0, ra_nr_failed = 0\<rparr> t;
        Some (r, t) })"

section \<open>A tool for the examples\<close>

text \<open>It has joined the segment of \<open>Xseg\<close>, with ports 0 and 2; its peer type does nothing.\<close>

definition demo_env :: "nat tool_env" where
  "demo_env = \<lparr>te_ver = 1, te_junk = \<lambda>_. [], te_names = \<lambda>_. [], te_cl = demo_caller 1, te_me = 9, te_nm = demo_names,
     te_load = \<lambda>_ d. d, te_drv = \<lambda>_. demo_ops, te_ops = \<lambda>_. demo_sops, te_jmok = \<lambda>_. True, te_tab = Some (replicate 16 0),
     te_self = 77, te_mok = \<lambda>_. True, te_local = \<lambda>n. replicate n NUL, te_random = \<lambda>s n. s + of_nat n\<rparr>"

definition demo_tool :: "nat tool" where
  "demo_tool = \<lparr>tl_cfg = sg_config demo_seg, tl_joined = True, tl_seg = demo_seg, tl_process = demo_process, tl_srcport = 0,
     tl_dstport = 2, tl_sport = NoPort, tl_sd = 0, tl_mem = \<lambda>_. NUL, tl_stdin = \<lparr>st_rest = ''data'', st_eof = False\<rparr>,
     tl_alloc_size = 0, tl_out = []\<rparr>"

end
