(* ===== verification/Xfix.thy ===== *)
theory Xfix
  imports Xtool
begin

text \<open>
  The commands of \<^verbatim>\<open>xseg-tool.c\<close> that look at a segment and repair it: reports, the inspection of queues,
  requests that are in no queue, and locks whose owner is gone.
\<close>

section \<open>Reports\<close>

text \<open>What is printed of a lock: nothing when it is free, else who has it and where.\<close>

definition lock_status :: "xlock \<Rightarrow> ((u32 \<times> u32 \<times> u64) \<times> u64) option" where
  "lock_status l = (if lk_owner l = XLOCK_NOONE then None else Some (xlock_unpack_owner (lk_owner l), lk_pc l))"

text \<open>\<open>rp_dynamic\<close> is the comparison with \<^verbatim>\<open>dynports\<close>; every queue comes with its count and lock.\<close>

record port_report =
  rp_dynamic :: bool
  rp_alloc_reqs :: u64
  rp_max_alloc_reqs :: u64
  rp_path_next :: xport
  rp_dst_gw :: xport
  rp_owner :: u64
  rp_queues :: "(nat \<times> u64 \<times> ((u32 \<times> u32 \<times> u64) \<times> u64) option) list"

definition cmd_report :: "xport \<Rightarrow> xseg \<Rightarrow> port_report option" where
  "cmd_report portno s =
     (let port = xseg_get_port s portno; p = sg_port_at s port;
          queue = (\<lambda>q l. (q, xq_count (sg_queue_at s q), lock_status l)) in
      if port = 0 then None
      else Some \<lparr>rp_dynamic = (portno \<ge> cf_dynports (sg_config s)), rp_alloc_reqs = pt_alloc_reqs p,
        rp_max_alloc_reqs = pt_max_alloc_reqs p, rp_path_next = sg_path_next s ! unat portno,
        rp_dst_gw = sg_dst_gw s ! unat portno, rp_owner = pt_owner p,
        rp_queues = [queue (pt_free_queue p) (pt_fq_lock p), queue (pt_request_queue p) (pt_rq_lock p),
                     queue (pt_reply_queue p) (pt_pq_lock p)]\<rparr>)"

record handler_report =
  rh_nr_free :: nat
  rh_nr_allocated :: nat
  rh_allocated_space :: nat
  rh_obj_size :: nat
  rh_lock :: "((u32 \<times> u32 \<times> u64) \<times> u64) option"

definition print_handler :: "xobject_h \<Rightarrow> handler_report" where
  "print_handler h = \<lparr>rh_nr_free = oh_nr_free h, rh_nr_allocated = oh_nr_allocated h,
     rh_allocated_space = oh_allocated_space h, rh_obj_size = oh_obj_size h, rh_lock = lock_status (oh_lock h)\<rparr>"

text \<open>
  The unit of a number of bytes: the divisions by 1024 until nothing is left, less one. It indexes
  arrays of four units; for no bytes at all it is \<^verbatim>\<open>-1\<close>.
\<close>

fun divisions :: "nat \<Rightarrow> nat" where
  "divisions t = (if t = 0 then 0 else divisions (t div 1024) + 1)"

declare divisions.simps [simp del]

definition in_units :: "nat \<Rightarrow> (nat \<times> nat) option" where
  "in_units t = (let u = divisions t in if u = 0 \<or> u > 4 then None else Some (t div 1024 ^ (u - 1), u - 1))"

definition print_heap :: "xseg \<Rightarrow> ((nat \<times> nat) \<times> (nat \<times> nat)) option" where
  "print_heap s = do { c \<leftarrow> in_units (hp_cur (sg_heap s)); z \<leftarrow> in_units (unat (cf_heap_size (sg_config s))); Some (c, z) }"

definition XSEG_F_LOCK :: u64 where "XSEG_F_LOCK = 1"

text \<open>The flag for the segment lock, the heap, the handlers and the ports.\<close>

definition cmd_reportall ::
  "xseg \<Rightarrow> (bool \<times> ((nat \<times> nat) \<times> (nat \<times> nat)) \<times> handler_report list \<times> port_report option list) option" where
  "cmd_reportall s =
     do {
       h \<leftarrow> print_heap s;
       Some (sg_shared_flags s AND XSEG_F_LOCK \<noteq> 0, h,
         map print_handler [sg_request_h s, sg_port_h s, sg_object_handlers s],
         map (\<lambda>i. cmd_report (of_nat i) s) [0..<unat (cf_nr_ports (sg_config s))])
     }"

section \<open>Answers of the user\<close>

text \<open>
  The characters up to the end of a line; \<open>r\<close> is the last answer in it, \<open>-1\<close> for none yet. At the end of
  the input the loop goes on reading for ever.
\<close>

fun prompt_from :: "string \<Rightarrow> int \<Rightarrow> (int \<times> string) option" where
  "prompt_from [] r = None"
| "prompt_from (c # cs) r =
     (if c = CHR ''y'' \<or> c = CHR ''Y'' then prompt_from cs 1
      else if c = CHR ''n'' \<or> c = CHR ''N'' then prompt_from cs 0
      else if c = CHR 0x0A then (if r = -1 then prompt_from cs r else Some (r, cs))
      else prompt_from cs r)"

definition prompt_user :: "'w tool \<Rightarrow> (int \<times> 'w tool) option" where
  "prompt_user t =
     do { (r, cs) \<leftarrow> prompt_from (st_rest (tl_stdin t)) (-1); Some (r, t\<lparr>tl_stdin := (tl_stdin t)\<lparr>st_rest := cs\<rparr>\<rparr>) }"

section \<open>Finishing requests\<close>

datatype req_action = REPORT | FAIL | COMPLETE

definition finish_req :: "'w tool_env \<Rightarrow> nat \<Rightarrow> req_action \<Rightarrow> 'w tool \<Rightarrow> 'w tool option" where
  "finish_req e req action t =
     do {
       let t = set_req req (\<lambda>r. if action = COMPLETE
         then r\<lparr>rq_state := (rq_state r AND NOT XS_FAILED) OR XS_SERVED\<rparr>
         else r\<lparr>rq_state := (rq_state r OR XS_FAILED) AND NOT XS_SERVED\<rparr>) t;
       let t = set_req req (\<lambda>r. r\<lparr>rq_serviced := 0\<rparr>) t;
       (p, t) \<leftarrow> tool_respond e req t;
       if p = NoPort then do { (_, t) \<leftarrow> tool_put e req t; Some t }
       else do { (_, t) \<leftarrow> tool_signal e p t; Some t }
     }"

text \<open>Looking for a request in a queue of a port, under its lock.\<close>

definition check_queue :: "caller \<Rightarrow> nat \<Rightarrow> port_lock \<Rightarrow> (xseg_port \<Rightarrow> nat) \<Rightarrow> nat \<Rightarrow> xseg \<Rightarrow> (bool \<times> xseg) option" where
  "check_queue cl req k q port s =
     do {
       s \<leftarrow> acquire_port cl k port s;
       let b = raw_xq_check (sg_queue_at s (q (sg_port_at s port))) (of_nat req);
       Some (b, release_port k port s)
     }"

definition check_port :: "caller \<Rightarrow> nat \<Rightarrow> nat \<Rightarrow> xseg \<Rightarrow> (bool \<times> xseg) option" where
  "check_port cl req port s =
     do {
       (b, s) \<leftarrow> check_queue cl req FQ pt_free_queue port s;
       if b then Some (True, s)
       else do {
         (b, s) \<leftarrow> check_queue cl req RQ pt_request_queue port s;
         if b then Some (True, s) else check_queue cl req PQ pt_reply_queue port s }
     }"

text \<open>The loop over \<open>k\<close> port numbers from \<open>i\<close>.\<close>

fun dangling_from :: "caller \<Rightarrow> nat \<Rightarrow> nat \<Rightarrow> xport \<Rightarrow> xseg \<Rightarrow> (bool \<times> xseg) option" where
  "dangling_from cl req 0 i s = Some (True, s)"
| "dangling_from cl req (Suc k) i s =
     (if sg_ports s ! unat i \<noteq> 0 then
        let port = xseg_get_port s i in
        if port = 0 then dangling_from cl req k (i + 1) s
        else do {
          (b, s) \<leftarrow> check_port cl req port s;
          if b then Some (False, s) else dangling_from cl req k (i + 1) s }
      else dangling_from cl req k (i + 1) s)"

definition isDangling :: "caller \<Rightarrow> nat \<Rightarrow> xseg \<Rightarrow> (bool \<times> xseg) option" where
  "isDangling cl req s = dangling_from cl req (unat (cf_nr_ports (sg_config s))) 0 s"

section \<open>Locks\<close>

text \<open>The locks of a segment that the commands go through, in their order.\<close>

datatype seg_lock = K_segment | K_heap | K_requests | K_ports | K_objects | K_port port_lock nat

fun the_lock :: "seg_lock \<Rightarrow> xseg \<Rightarrow> xlock" where
  "the_lock K_segment s = sg_segment_lock s"
| "the_lock K_heap s = hp_lock (sg_heap s)"
| "the_lock K_requests s = oh_lock (sg_request_h s)"
| "the_lock K_ports s = oh_lock (sg_port_h s)"
| "the_lock K_objects s = oh_lock (sg_object_handlers s)"
| "the_lock (K_port k p) s = get_lock k (sg_port_at s p)"

fun set_lock :: "seg_lock \<Rightarrow> xlock \<Rightarrow> xseg \<Rightarrow> xseg" where
  "set_lock K_segment l s = s\<lparr>sg_segment_lock := l\<rparr>"
| "set_lock K_heap l s = s\<lparr>sg_heap := (sg_heap s)\<lparr>hp_lock := l\<rparr>\<rparr>"
| "set_lock K_requests l s = s\<lparr>sg_request_h := (sg_request_h s)\<lparr>oh_lock := l\<rparr>\<rparr>"
| "set_lock K_ports l s = s\<lparr>sg_port_h := (sg_port_h s)\<lparr>oh_lock := l\<rparr>\<rparr>"
| "set_lock K_objects l s = s\<lparr>sg_object_handlers := (sg_object_handlers s)\<lparr>oh_lock := l\<rparr>\<rparr>"
| "set_lock (K_port k p) l s = upd_port p (put_lock k l) s"

definition global_locks :: "seg_lock list" where
  "global_locks = [K_segment, K_heap, K_requests, K_ports, K_objects]"

definition verify_lock :: "bool \<Rightarrow> seg_lock \<Rightarrow> 'w tool \<Rightarrow> 'w tool option" where
  "verify_lock fix l t =
     (if lk_owner (the_lock l (tl_seg t)) = XLOCK_NOONE then Some t
      else if \<not> fix then Some t
      else do {
        (r, t) \<leftarrow> prompt_user t;
        Some (if r \<noteq> 0 then t\<lparr>tl_seg := set_lock l (xlock_release (the_lock l (tl_seg t))) (tl_seg t)\<rparr> else t) })"

fun verify_locks :: "bool \<Rightarrow> seg_lock list \<Rightarrow> 'w tool \<Rightarrow> 'w tool option" where
  "verify_locks fix [] t = Some t"
| "verify_locks fix (l # ls) t = do { t \<leftarrow> verify_lock fix l t; verify_locks fix ls t }"

text \<open>The owner of a lock is compared with a process identifier; only 16 bits of the owner's are in the lock.\<close>

definition check_and_unlock :: "u32 \<Rightarrow> seg_lock \<Rightarrow> xseg \<Rightarrow> xseg" where
  "check_and_unlock pid l s =
     (let (owner_pid, _, _) = xlock_unpack_owner (lk_owner (the_lock l s)) in
      if owner_pid = pid then set_lock l (xlock_release (the_lock l s)) s else s)"

text \<open>The three locks of the ports that are in the table, for \<open>k\<close> numbers from \<open>i\<close>.\<close>

fun verify_ports :: "bool \<Rightarrow> nat \<Rightarrow> xport \<Rightarrow> 'w tool \<Rightarrow> 'w tool option" where
  "verify_ports fix 0 i t = Some t"
| "verify_ports fix (Suc k) i t =
     (let port = xseg_get_port (tl_seg t) i in
      if sg_ports (tl_seg t) ! unat i = 0 \<or> port = 0 then verify_ports fix k (i + 1) t
      else do {
        t \<leftarrow> verify_locks fix [K_port FQ port, K_port RQ port, K_port PQ port] t;
        verify_ports fix k (i + 1) t })"

fun unlock_ports :: "u32 \<Rightarrow> nat \<Rightarrow> xport \<Rightarrow> xseg \<Rightarrow> int \<times> xseg" where
  "unlock_ports pid 0 i s = (0, s)"
| "unlock_ports pid (Suc k) i s =
     (if sg_ports s ! unat i = 0 then unlock_ports pid k (i + 1) s
      else let port = xseg_get_port s i in
        if port = 0 then (-1, s)
        else unlock_ports pid k (i + 1) (fold (check_and_unlock pid) [K_port FQ port, K_port RQ port, K_port PQ port] s))"

definition cmd_recoverlocks :: "'w tool_env \<Rightarrow> u32 \<Rightarrow> 'w tool \<Rightarrow> (int \<times> 'w tool) option" where
  "cmd_recoverlocks e pid t =
     do {
       (r, t) \<leftarrow> cmd_join e t;
       if r \<noteq> 0 then Some (-1, t)
       else let s = fold (check_and_unlock pid) global_locks (tl_seg t);
                (r, s) = unlock_ports pid (unat (cf_nr_ports (sg_config s))) 0 s in
         Some (r, t\<lparr>tl_seg := s\<rparr>)
     }"

section \<open>Requests that are in no queue\<close>

definition lock_requests :: "'w tool_env \<Rightarrow> 'w tool \<Rightarrow> 'w tool option" where
  "lock_requests e t =
     do { l \<leftarrow> xlock_acquire (te_cl e) (the_lock K_requests (tl_seg t)); Some (t\<lparr>tl_seg := set_lock K_requests l (tl_seg t)\<rparr>) }"

definition unlock_requests :: "'w tool \<Rightarrow> 'w tool" where
  "unlock_requests t = t\<lparr>tl_seg := set_lock K_requests (xlock_release (the_lock K_requests (tl_seg t))) (tl_seg t)\<rparr>"

definition req_handler :: "xseg \<Rightarrow> xobject_h" where
  "req_handler s = (sg_request_h s)\<lparr>oh_heap := sg_heap s\<rparr>"

text \<open>The loop over all objects, with what is done for a request in use that is in no queue.\<close>

partial_function (option) dangling_loop ::
  "'w tool_env \<Rightarrow> (nat \<Rightarrow> 'w tool \<Rightarrow> 'w tool option) \<Rightarrow> xobject_iter \<Rightarrow> 'w tool \<Rightarrow> 'w tool option" where
  "dangling_loop e act it t =
     (case xobj_iterate (req_handler (tl_seg t)) it of
        (None, it) \<Rightarrow> Some t
      | (Some req, it) \<Rightarrow>
          Option.bind (on_seg (isDangling (te_cl e) req) t) (\<lambda>(d, t).
          Option.bind (if d then raw_xobj_isFree (req_handler (tl_seg t)) req else Some True) (\<lambda>f.
          Option.bind (if d \<and> \<not> f then act req t else Some t) (dangling_loop e act it))))"

declare dangling_loop.simps [code]

text \<open>
  The handler stays locked in the loop. \<^verbatim>\<open>finish_req\<close> may put a request into its object, which
  takes that lock and then spins for ever.
\<close>

definition each_dangling :: "'w tool_env \<Rightarrow> (nat \<Rightarrow> 'w tool \<Rightarrow> 'w tool option) \<Rightarrow> 'w tool \<Rightarrow> (int \<times> 'w tool) option" where
  "each_dangling e act t =
     do {
       t \<leftarrow> lock_requests e t;
       t \<leftarrow> dangling_loop e act xobj_iter_init t;
       Some (0, unlock_requests t)
     }"

definition cmd_verify :: "'w tool_env \<Rightarrow> bool \<Rightarrow> 'w tool \<Rightarrow> (int \<times> 'w tool) option" where
  "cmd_verify e fix t =
     do {
       (r, t) \<leftarrow> cmd_join e t;
       if r \<noteq> 0 then Some (-1, t)
       else do {
         t \<leftarrow> verify_locks fix global_locks t;
         t \<leftarrow> verify_ports fix (unat (cf_nr_ports (sg_config (tl_seg t)))) 0 t;
         each_dangling e
           (\<lambda>req t. let t = report_request req t in
              if \<not> fix then Some t
              else do { (r, t) \<leftarrow> prompt_user t; if r \<noteq> 0 then finish_req e req FAIL t else Some t }) t }
     }"

definition cmd_recoverport :: "'w tool_env \<Rightarrow> int \<Rightarrow> 'w tool \<Rightarrow> (int \<times> 'w tool) option" where
  "cmd_recoverport e portno t =
     do {
       (r, t) \<leftarrow> cmd_join e t;
       if r \<noteq> 0 then Some (-1, t)
       else each_dangling e
         (\<lambda>req t. if rq_transit_portno (req_of t req) = of_int portno then finish_req e req FAIL (report_request req t) else Some t) t
     }"

section \<open>Single requests and queues\<close>

definition cmd_request :: "'w tool_env \<Rightarrow> nat \<Rightarrow> req_action \<Rightarrow> 'w tool \<Rightarrow> (int \<times> 'w tool) option" where
  "cmd_request e req action t =
     do {
       (r, t) \<leftarrow> cmd_join e t;
       if r \<noteq> 0 then Some (-1, t)
       else do {
         (b, t) \<leftarrow> on_seg (\<lambda>s. do { (b, h) \<leftarrow> xobj_check (te_cl e) req (req_handler s); Some (b, s\<lparr>sg_request_h := h\<rparr>) }) t;
         if \<not> b then Some (-1, t)
         else
           let t = report_request req t in
           if action = REPORT then Some (0, t)
           else do {
             (r, t) \<leftarrow> prompt_user t;
             t \<leftarrow> (if r \<noteq> 0 then finish_req e req action t else Some t);
             Some (0, t) } }
     }"

text \<open>The three queues, and the lock that is taken for each: the reply queue is read under the lock of the request queue.\<close>

datatype which_queue = FREE_QUEUE | REQUEST_QUEUE | REPLY_QUEUE

fun inspect_queue :: "which_queue \<Rightarrow> (xseg_port \<Rightarrow> nat) \<times> port_lock" where
  "inspect_queue FREE_QUEUE = (pt_free_queue, FQ)"
| "inspect_queue REQUEST_QUEUE = (pt_request_queue, RQ)"
| "inspect_queue REPLY_QUEUE = (pt_reply_queue, RQ)"

text \<open>Every request is taken off the head and appended at the tail.\<close>

fun rotate_queue :: "nat \<Rightarrow> nat \<Rightarrow> 'w tool \<Rightarrow> 'w tool" where
  "rotate_queue q 0 t = t"
| "rotate_queue q (Suc c) t =
     (let (xqi, xq) = raw_xq_pop_head (sg_queue_at (tl_seg t) q);
          t = report_request (unat xqi) (t\<lparr>tl_seg := set_queue q xq (tl_seg t)\<rparr>);
          (_, xq) = raw_xq_append_tail (sg_queue_at (tl_seg t) q) xqi
      in rotate_queue q c (t\<lparr>tl_seg := set_queue q xq (tl_seg t)\<rparr>))"

definition cmd_inspectq :: "'w tool_env \<Rightarrow> xport \<Rightarrow> which_queue \<Rightarrow> 'w tool \<Rightarrow> (int \<times> 'w tool) option" where
  "cmd_inspectq e portno qt t =
     do {
       (r, t) \<leftarrow> cmd_join e t;
       if r \<noteq> 0 then Some (-1, t)
       else
         let port = xseg_get_port (tl_seg t) portno; (get, k) = inspect_queue qt in
         if port = 0 then Some (-1, t)
         else do {
           s \<leftarrow> acquire_port (te_cl e) k port (tl_seg t);
           let q = get (sg_port_at s port);
           let t = rotate_queue q (unat (xq_count (sg_queue_at s q))) (t\<lparr>tl_seg := s\<rparr>);
           Some (0, t\<lparr>tl_seg := release_port k port (tl_seg t)\<rparr>) }
     }"

end
