(* ===== verification/Xmain.thy ===== *)
theory Xmain
  imports Xfix
begin

text \<open>
  The command line of \<^verbatim>\<open>xseg-tool.c\<close>: numbers, ports, and \<^verbatim>\<open>main\<close>, which runs one command after the
  other on the state of \<open>Xtool\<close>.
\<close>

section \<open>Numbers\<close>

definition isdigit :: "char \<Rightarrow> bool" where
  "isdigit c = (let n = of_char c :: nat in 48 \<le> n \<and> n \<le> 57)"

definition isspace :: "char \<Rightarrow> bool" where
  "isspace c = (let n = of_char c :: nat in n = 32 \<or> 9 \<le> n \<and> n \<le> 13)"

definition decimal :: "string \<Rightarrow> nat" where
  "decimal str = foldl (\<lambda>n c. n * 10 + (of_char c - 48)) 0 (takeWhile isdigit str)"

text \<open>\<^verbatim>\<open>atol\<close> stops at the limits of \<^verbatim>\<open>long\<close>; \<^verbatim>\<open>atoi\<close> keeps its low 32 bits.\<close>

definition atol :: "string \<Rightarrow> int" where
  "atol str =
     (let s = dropWhile isspace str;
          n = (case s of [] \<Rightarrow> 0
               | c # cs \<Rightarrow> if c = CHR ''-'' then - int (decimal cs) else if c = CHR ''+'' then int (decimal cs) else int (decimal s))
      in max (- (2 ^ 63)) (min (2 ^ 63 - 1) n))"

definition atoi :: "string \<Rightarrow> int" where
  "atoi str = sint (of_int (atol str) :: u32)"

definition hexdigit :: "char \<Rightarrow> nat option" where
  "hexdigit c =
     (let n = of_char c :: nat in
      if isdigit c then Some (n - 48) else if 97 \<le> n \<and> n \<le> 102 then Some (n - 87)
      else if 65 \<le> n \<and> n \<le> 70 then Some (n - 55) else None)"

fun hex_from :: "nat \<Rightarrow> string \<Rightarrow> nat" where
  "hex_from n [] = n"
| "hex_from n (c # cs) = (case hexdigit c of None \<Rightarrow> n | Some d \<Rightarrow> hex_from (n * 16 + d) cs)"

text \<open>\<^verbatim>\<open>sscanf\<close> of a pointer as the tool prints it; the variable stays unset when there is no digit.\<close>

definition scan_pointer :: "string \<Rightarrow> nat option" where
  "scan_pointer str =
     (let s = dropWhile isspace str; s = (if take 2 s = ''0x'' then drop 2 s else s) in
      if s \<noteq> [] \<and> hexdigit (hd s) \<noteq> None then Some (hex_from 0 s) else None)"

section \<open>Ports\<close>

text \<open>\<^verbatim>\<open>src:dst\<close>, each a number or left out. The result is the number of ports that were set.\<close>

definition parse_ports :: "string \<Rightarrow> 'w tool \<Rightarrow> int \<times> 'w tool" where
  "parse_ports str t =
     (let a = takeWhile (\<lambda>c. c \<noteq> CHR '':'') str; b = dropWhile (\<lambda>c. c \<noteq> CHR '':'') str in
      if b = [] then (0, t)
      else
        let (n, t) = (if a \<noteq> [] \<and> isdigit (hd a) then (1, t\<lparr>tl_srcport := of_int (atol a)\<rparr>) else (0, t)); b = tl b in
        if b \<noteq> [] \<and> isdigit (hd b) then (n + 1, t\<lparr>tl_dstport := of_int (atol b)\<rparr>) else (n, t))"

section \<open>Commands\<close>

text \<open>
  What an argument does: \<open>Next\<close> with the value returned by a command, if one ran, and the number of further
  arguments it took, or the end of the program. Arguments that are missing are not an
  error: the name is then looked at as a pair of ports.
\<close>

datatype main_step = Next "int option" nat | Exit int

definition ran :: "nat \<Rightarrow> (int \<times> 'w tool) option \<Rightarrow> (main_step \<times> 'w tool) option" where
  "ran n r = do { (r, t) \<leftarrow> r; Some (Next (Some r) n, t) }"

definition pure :: "int \<times> 'w tool \<Rightarrow> (int \<times> 'w tool) option" where "pure r = Some r"

definition long :: "string \<Rightarrow> 'a::len word" where "long str = of_int (atol str)"

definition int32 :: "string \<Rightarrow> u32" where "int32 str = of_int (atoi str)"

definition main_send :: "'w tool_env \<Rightarrow> string \<Rightarrow> string list \<Rightarrow> 'w tool \<Rightarrow> (main_step \<times> 'w tool) option" where
  "main_send e a xs t =
     (let n = length xs in
      if a = ''read'' \<and> n \<ge> 3 then ran 3 (cmd_read e (xs ! 0) (long (xs ! 1)) (long (xs ! 2)) t)
      else if a = ''write'' \<and> n \<ge> 2 then ran 2 (cmd_write e (xs ! 0) (long (xs ! 1)) t)
      else if a = ''truncate'' \<and> n \<ge> 2 then ran 2 (pure (cmd_truncate (xs ! 0) (long (xs ! 1)) t))
      else if a = ''delete'' \<and> n \<ge> 1 then ran 1 (cmd_delete e (xs ! 0) t)
      else if a = ''acquire'' \<and> n \<ge> 1 then ran 1 (cmd_acquire e (xs ! 0) t)
      else if a = ''release'' \<and> n \<ge> 1 then ran 1 (cmd_release e (xs ! 0) t)
      else if a = ''copy'' \<and> n \<ge> 2 then ran 2 (cmd_copy e (xs ! 0) (xs ! 1) t)
      else if a = ''clone'' \<and> n \<ge> 3 then ran 3 (cmd_clone e (xs ! 0) (xs ! 1) (long (xs ! 2)) t)
      else if a = ''snapshot'' \<and> n \<ge> 2 then ran 2 (cmd_snapshot e (xs ! 0) (xs ! 1) 4294967296 t)
      else if a = ''info'' \<and> n \<ge> 1 then ran 1 (cmd_info e (xs ! 0) t)
      else Some (Next None 0, snd (parse_ports a t)))"

definition main_queue :: "'w tool_env \<Rightarrow> string \<Rightarrow> string list \<Rightarrow> 'w tool \<Rightarrow> (main_step \<times> 'w tool) option" where
  "main_queue e a xs t =
     (let n = length xs in
      if a = ''report'' then Some (Next (Some 0) 0, t)
      else if a = ''alloc_requests'' \<and> n \<ge> 1 then ran 1 (cmd_alloc_requests e (long (xs ! 0)) t)
      else if a = ''free_requests'' \<and> n \<ge> 1 then ran 1 (cmd_free_requests e (long (xs ! 0)) t)
      else if a = ''put_requests'' then ran 0 (cmd_put_requests e t)
      else if a = ''put_replies'' then ran 0 (cmd_put_replies e t)
      else if a = ''complete'' \<and> n \<ge> 1 then ran 1 (cmd_finish e (long (xs ! 0)) False t)
      else if a = ''fail'' \<and> n \<ge> 1 then ran 1 (cmd_finish e (long (xs ! 0)) True t)
      else if a = ''wait'' \<and> n \<ge> 1 then ran 1 (cmd_wait e (long (xs ! 0)) t)
      else if a = ''rndwrite'' \<and> n \<ge> 5 then
        ran 5 (cmd_rndwrite e (atol (xs ! 0)) (int32 (xs ! 1)) (int32 (xs ! 2)) (int32 (xs ! 3)) t)
      else if a = ''rnddelete'' \<and> n \<ge> 3 then ran 3 (cmd_rnddelete e (atol (xs ! 0)) (int32 (xs ! 1)) (int32 (xs ! 2)) t)
      else if a = ''rndread'' \<and> n \<ge> 5 then
        ran 5 (cmd_rndread e (atol (xs ! 0)) (int32 (xs ! 1)) (int32 (xs ! 2)) (int32 (xs ! 3)) t)
      else if a = ''submit_reqs'' \<and> n \<ge> 3 then ran 3 (cmd_submit_reqs e (atol (xs ! 0)) (atol (xs ! 1)) (atoi (xs ! 2)) t)
      else main_send e a xs t)"

text \<open>The pointer of a request is given as an address of this process.\<close>

definition main_fix :: "'w tool_env \<Rightarrow> string \<Rightarrow> string list \<Rightarrow> 'w tool \<Rightarrow> (main_step \<times> 'w tool) option" where
  "main_fix e a xs t =
     (let n = length xs in
      if a = ''verify'' then ran 0 (cmd_verify e False t)
      else if a = ''verify-fix'' then ran 0 (cmd_verify e True t)
      else if a = ''failreq'' \<and> n \<ge> 1 then
        (case scan_pointer (xs ! 0) of None \<Rightarrow> None
         | Some p \<Rightarrow> ran 1 (cmd_request e (w64 (p + 2 ^ 64 - sg_segment (tl_seg t))) FAIL t))
      else if a = ''inspect-freeq'' \<and> n \<ge> 1 then ran 1 (cmd_inspectq e (long (xs ! 0)) FREE_QUEUE t)
      else if a = ''inspect-requestq'' \<and> n \<ge> 1 then ran 1 (cmd_inspectq e (long (xs ! 0)) REQUEST_QUEUE t)
      else if a = ''inspect-replyq'' \<and> n \<ge> 1 then ran 1 (cmd_inspectq e (long (xs ! 0)) REPLY_QUEUE t)
      else main_queue e a xs t)"

text \<open>Whatever is not a command for the whole segment is read as ports until both are known.\<close>

definition main_ports :: "'w tool_env \<Rightarrow> string \<Rightarrow> string list \<Rightarrow> 'w tool \<Rightarrow> (main_step \<times> 'w tool) option" where
  "main_ports e a xs t =
     (if tl_srcport t = - 1 \<or> tl_dstport t = - 1 then Some (Next None 0, snd (parse_ports a t)) else main_fix e a xs t)"

definition main_joined :: "'w tool_env \<Rightarrow> string \<Rightarrow> string list \<Rightarrow> 'w tool \<Rightarrow> (main_step \<times> 'w tool) option" where
  "main_joined e a xs t =
     (let n = length xs in
      if a = ''reportall'' then do { _ \<leftarrow> cmd_reportall (tl_seg t); Some (Next (Some 0) 0, t) }
      else if a = ''recoverport'' \<and> n \<ge> 1 then ran 1 (cmd_recoverport e (atol (xs ! 0)) t)
      else if a = ''recoverlocks'' \<and> n \<ge> 1 then ran 1 (cmd_recoverlocks e (int32 (xs ! 0)) t)
      else if a = ''bind'' \<and> n \<ge> 1 then ran 1 (cmd_bind e (atol (xs ! 0)) t)
      else if a = ''free'' \<and> n \<ge> 1 then ran 1 (cmd_free e (atol (xs ! 0)) t)
      else if a = ''set-next'' \<and> n \<ge> 2 then ran 2 (cmd_set_next (long (xs ! 0)) (long (xs ! 1)) t)
      else if a = ''signal'' \<and> n \<ge> 1 then ran 1 (cmd_signal e (long (xs ! 0)) t)
      else if a = ''bridge'' \<and> n \<ge> 4 then ran 4 (pure (cmd_bridge (long (xs ! 0)) (long (xs ! 1)) (xs ! 2) (xs ! 3) t))
      else main_ports e a xs t)"

definition main_arg :: "'w tool_env \<Rightarrow> string \<Rightarrow> string list \<Rightarrow> 'w tool \<Rightarrow> (main_step \<times> 'w tool) option" where
  "main_arg e a xs t =
     (if a = ''create'' then ran 0 (cmd_create e t)
      else if a = ''join'' then ran 0 (cmd_join e t)
      else if a = ''destroy'' then ran 0 (cmd_destroy e t)
      else do {
        (r, t) \<leftarrow> cmd_join e t;
        if r \<noteq> 0 then Some (Exit (-1), t) else main_joined e a xs t })"

function main_loop :: "'w tool_env \<Rightarrow> int \<Rightarrow> string list \<Rightarrow> 'w tool \<Rightarrow> (int \<times> 'w tool) option" where
  "main_loop e ret [] t = Some (ret, t)"
| "main_loop e ret (a # xs) t =
     (case main_arg e a xs t of None \<Rightarrow> None
      | Some (Exit r, t) \<Rightarrow> Some (r, t)
      | Some (Next r k, t) \<Rightarrow> main_loop e (case r of None \<Rightarrow> ret | Some r \<Rightarrow> r) (drop k xs) t)"
  by pat_completeness auto
termination by (relation "measure (\<lambda>(e, ret, xs, t). length xs)") auto

text \<open>
  \<^verbatim>\<open>main\<close> for the arguments that follow the name of the program, in a library that may have been
  initialised. The signal handler it installs only prints.
\<close>

definition tool_main ::
  "env \<Rightarrow> (nat \<Rightarrow> int) \<Rightarrow> builtins \<Rightarrow> 'w tool_env \<Rightarrow> string list \<Rightarrow> library \<Rightarrow> 'w tool \<Rightarrow> (int \<times> library \<times> 'w tool) option" where
  "tool_main env ret b e args l t =
     (case args of
        spec # x # xs \<Rightarrow>
          let t = t\<lparr>tl_srcport := - 1, tl_dstport := - 1\<rparr>; (r, cfg) = xseg_parse_spec spec (tl_cfg t); t = t\<lparr>tl_cfg := cfg\<rparr> in
          if r \<noteq> 0 then Some (-1, l, t)
          else do {
            (r, l) \<leftarrow> xseg_initialize env ret b l;
            if r \<noteq> 0 then Some (-1, l, t)
            else do {
              let t = t\<lparr>tl_process := (tl_process t)\<lparr>pr_domain := li_domain l\<rparr>\<rparr>;
              (r, t) \<leftarrow> main_loop (e\<lparr>te_nm := li_names l\<rparr>) 0 (x # xs) t;
              Some (r, l, t) } }
      | _ \<Rightarrow> Some (1, l, t))"

end
