(* ===== verification/Xrepair.thy ===== *)
theory Xrepair
  imports Xmain Xtyped
begin

text \<open>
  What the commands of \<open>Xfix\<close> do to a segment: locks are given up exactly for their owner, a queue that is
  inspected is as before, a request counts as lost exactly when no queue of a bound port has it, and the
  sizes that are printed are in range.
\<close>

section \<open>Locks of a dead process\<close>

definition held_by :: "u32 \<Rightarrow> xlock \<Rightarrow> bool" where
  "held_by pid l \<longleftrightarrow> fst (xlock_unpack_owner (lk_owner l)) = pid"

definition port_locks :: "nat \<Rightarrow> seg_lock list" where
  "port_locks p = [K_port FQ p, K_port RQ p, K_port PQ p]"

definition table_locks :: "nat \<Rightarrow> nat \<Rightarrow> xseg \<Rightarrow> seg_lock list" where
  "table_locks i k s = concat (map (\<lambda>j. if sg_ports s ! j = 0 then [] else port_locks (sg_ports s ! j)) [i..<i + k])"

text \<open>All locks of a segment that the commands know of.\<close>

definition seg_locks :: "xseg \<Rightarrow> seg_lock list" where
  "seg_locks s = global_locks @ table_locks 0 (unat (cf_nr_ports (sg_config s))) s"

lemma table_locks_cong: "sg_ports s' = sg_ports s \<Longrightarrow> table_locks i k s' = table_locks i k s"
  by (simp add: table_locks_def cong: if_cong)

lemma get_put_other: "k \<noteq> k' \<Longrightarrow> get_lock k' (put_lock k l p) = get_lock k' p"
  by (cases k; cases k') simp_all

lemma the_set_lock: "the_lock l' (set_lock l x s) = (if l = l' then x else the_lock l' s)"
  by (cases l; cases l') (auto simp: get_put_other upd_port_def simp del: put_lock.simps get_lock.simps)

lemma set_lock_other [simp]:
  "sg_ports (set_lock l x s) = sg_ports s" "sg_config (set_lock l x s) = sg_config s"
  "sg_queue_at (set_lock l x s) = sg_queue_at s" "sg_req_at (set_lock l x s) = sg_req_at s"
  by (cases l; simp)+

lemma check_unlock_eq: "check_and_unlock pid l s = (if held_by pid (the_lock l s) then set_lock l free_lock s else s)"
  by (simp add: check_and_unlock_def held_by_def split: prod.split)

definition same_but_locks :: "xseg \<Rightarrow> xseg \<Rightarrow> bool" where
  "same_but_locks s s' \<longleftrightarrow> sg_ports s' = sg_ports s \<and> sg_config s' = sg_config s \<and> sg_queue_at s' = sg_queue_at s \<and>
     sg_req_at s' = sg_req_at s"

lemma unlock_fold:
  "the_lock l (fold (check_and_unlock pid) ls s) = (if l \<in> set ls \<and> held_by pid (the_lock l s) then free_lock else the_lock l s)"
  "same_but_locks s (fold (check_and_unlock pid) ls s)"
  by (induction ls arbitrary: s) (auto simp: check_unlock_eq the_set_lock same_but_locks_def)

lemma unlock_ports_eq:
  assumes "unat i + k = unat (cf_nr_ports (sg_config s))"
  shows "unlock_ports pid k i s = (0, fold (check_and_unlock pid) (table_locks (unat i) k s) s)"
  using assms
proof (induction k arbitrary: i s)
  case 0 then show ?case by (simp add: table_locks_def)
next
  case (Suc k)
  let ?p = "sg_ports s ! unat i"
  have less: "unat i + Suc k < 2 ^ 32" using Suc.prems unsigned_less [of "cf_nr_ports (sg_config s)"] by simp
  then have i1: "unat (i + 1) = unat i + 1" by (simp add: unat_word_ariths)
  have port: "xseg_get_port s i = ?p"
    using Suc.prems by (simp add: xseg_get_port_def validate_port_def word_less_nat_alt)
  define s1 where "s1 = (if ?p = 0 then s else fold (check_and_unlock pid) (port_locks ?p) s)"
  have s1: "sg_ports s1 = sg_ports s" "sg_config s1 = sg_config s"
    using unlock_fold(2) [where s = s] by (simp_all add: s1_def same_but_locks_def)
  have step: "unlock_ports pid (Suc k) i s = unlock_ports pid k (i + 1) s1"
    by (cases "?p = 0") (simp_all only: unlock_ports.simps port Let_def s1_def port_locks_def simp_thms if_True if_False)
  have tab: "table_locks (unat i) (Suc k) s = (if ?p = 0 then [] else port_locks ?p) @ table_locks (unat i + 1) k s1"
    unfolding table_locks_cong [of s1 s, OF s1(1)] by (simp add: table_locks_def upt_conv_Cons del: upt_Suc)
  have ih: "unlock_ports pid k (i + 1) s1 = (0, fold (check_and_unlock pid) (table_locks (unat i + 1) k s1) s1)"
    using Suc.IH [of "i + 1" s1] Suc.prems by (simp add: i1 s1)
  show ?case unfolding step ih tab by (simp add: s1_def)
qed

text \<open>Sixteen bits of the owner are in a lock.\<close>

lemma owner_pid_bound: "fst (xlock_unpack_owner w) < 2 ^ 16"
proof -
  have "fst (xlock_unpack_owner w) = ucast (take_bit 16 (drop_bit 48 w))"
    by (simp add: unpack_word mask_eq_exp_minus_1 [symmetric] take_bit_eq_mask)
  moreover have "unat (ucast (take_bit 16 (drop_bit 48 w)) :: u32) < 2 ^ 16"
    using take_bit_nat_less_exp [of 16] by (simp add: unsigned_ucast_eq unsigned_take_bit_eq)
  ultimately show ?thesis by (simp add: word_less_nat_alt)
qed



section \<open>Inspecting a queue\<close>

lemma rotate_spec:
  assumes "q_wf (sg_queue_at (tl_seg t) q)" and "q_list (sg_queue_at (tl_seg t) q) = xs @ ys" and "n = length ys"
  shows "\<exists>xq. q_wf xq \<and> q_list xq = ys @ xs \<and> q_size xq = q_size (sg_queue_at (tl_seg t) q) \<and>
    rotate_queue q n t = t\<lparr>tl_seg := set_queue q xq (tl_seg t),
      tl_out := map (\<lambda>x. Reported (unat x) (req_of t (unat x))) ys @ tl_out t\<rparr>"
  using assms
proof (induction n arbitrary: t xs ys)
  case 0
  then show ?case
    by (intro exI [of _ "sg_queue_at (tl_seg t) q"]) (simp add: set_queue_def fun_upd_idem)
next
  case (Suc n)
  let ?q = "sg_queue_at (tl_seg t) q"
  from Suc.prems(3) obtain zs x where ys: "ys = zs @ [x]" "n = length zs" by (cases ys rule: rev_cases) auto
  have ne: "xq_count ?q \<noteq> 0" using Suc.prems(2) ys(1) by (metis append_is_Nil_conv list.distinct(1) q_list_Nil)
  obtain q1 where q1: "raw_xq_pop_head ?q = (x, q1)" "q_list q1 = xs @ zs" "q_size q1 = q_size ?q" "q_wf q1"
    using pop_head_list [OF Suc.prems(1) ne] Suc.prems(2) ys(1) by (cases "raw_xq_pop_head ?q") (auto simp: butlast_append)
  have cap: "q_len ?q \<le> q_cap ?q" using Suc.prems(1) by (elim q_wfE) simp
  have "q_len q1 < q_cap q1"
    using arg_cong [OF Suc.prems(2), of length] arg_cong [OF q1(2), of length] ys cap q1(3) by (simp add: q_cap_def)
  from append_tail_list [OF q1(4) this, of x] q1(2,3) obtain v q2 where q2: "raw_xq_append_tail q1 x = (v, q2)"
    "q_list q2 = (x # xs) @ zs" "q_size q2 = q_size ?q" "q_wf q2" by (cases "raw_xq_append_tail q1 x") auto
  define t2 where "t2 = t\<lparr>tl_seg := set_queue q q2 (tl_seg t), tl_out := Reported (unat x) (req_of t (unat x)) # tl_out t\<rparr>"
  have t2: "rotate_queue q (Suc n) t = rotate_queue q n t2" "sg_queue_at (tl_seg t2) q = q2" "req_of t2 = req_of t"
    using q1(1) q2(1) by (cases t, auto simp: t2_def report_request_def out_def req_of_def set_queue_def Let_def fun_eq_iff)
  from Suc.IH [of t2 "x # xs" zs] t2(2) q2(2-4) ys(2) obtain xq where
    xq: "q_wf xq" "q_list xq = zs @ x # xs" "q_size xq = q_size ?q"
    "rotate_queue q n t2 = t2\<lparr>tl_seg := set_queue q xq (tl_seg t2), tl_out := map (\<lambda>x. Reported (unat x) (req_of t2 (unat x))) zs @ tl_out t2\<rparr>"
    by auto
  have "rotate_queue q (Suc n) t = t\<lparr>tl_seg := set_queue q xq (tl_seg t),
      tl_out := map (\<lambda>x. Reported (unat x) (req_of t (unat x))) ys @ tl_out t\<rparr>"
    unfolding t2(1) xq(4) t2(3) by (simp add: t2_def ys(1) set_queue_def)
  then show ?case using xq(1-3) ys(1) by auto
qed

text \<open>The queue of a port that is inspected.\<close>

definition inspected :: "which_queue \<Rightarrow> xport \<Rightarrow> xseg \<Rightarrow> nat" where
  "inspected qt portno s = fst (inspect_queue qt) (sg_port_at s (xseg_get_port s portno))"

text \<open>
  C29. The inspection of a queue takes out every request and puts it in again. Afterwards the queue has
  the same contents in the same order and the same size, nothing else has changed, and every request of the
  queue has been reported once, the oldest first. The lock that must be free is that of the queue, except
  that the reply queue is rotated under the lock of the request queue, whoever holds its own.
\<close>

theorem inspection_keeps_queue:
  assumes j: "tl_joined t" and p: "xseg_get_port (tl_seg t) portno \<noteq> 0"
    and l: "get_lock (snd (inspect_queue qt)) (sg_port_at (tl_seg t) (xseg_get_port (tl_seg t) portno)) = free_lock"
    and q: "q_wf (sg_queue_at (tl_seg t) (inspected qt portno (tl_seg t)))"
  shows "\<exists>xq. cmd_inspectq e portno qt t = Some (0, t\<lparr>tl_seg := set_queue (inspected qt portno (tl_seg t)) xq (tl_seg t),
      tl_out := map (\<lambda>x. Reported (unat x) (req_of t (unat x))) (q_list (sg_queue_at (tl_seg t) (inspected qt portno (tl_seg t)))) @ tl_out t\<rparr>) \<and>
    q_wf xq \<and> q_list xq = q_list (sg_queue_at (tl_seg t) (inspected qt portno (tl_seg t))) \<and>
    q_size xq = q_size (sg_queue_at (tl_seg t) (inspected qt portno (tl_seg t)))"
proof -
  let ?s = "tl_seg t" and ?p = "xseg_get_port (tl_seg t) portno" and ?q = "inspected qt portno (tl_seg t)"
  obtain get k where gk: "inspect_queue qt = (get, k)" by fastforce
  have lk: "get_lock k (sg_port_at ?s ?p) = free_lock" using l gk by simp
  obtain m where a: "acquire_port (te_cl e) k ?p ?s = Some (upd_port ?p (put_lock k m) ?s)"
    using acquire_release [OF lk] by blast
  define t1 where "t1 = t\<lparr>tl_seg := upd_port ?p (put_lock k m) ?s\<rparr>"
  have sel: "get (put_lock k m pt) = get pt" for pt
    using gk by (cases qt) (auto simp del: put_lock.simps)
  have q1: "sg_queue_at (tl_seg t1) = sg_queue_at ?s" "get (sg_port_at (tl_seg t1) ?p) = ?q" "req_of t1 = req_of t"
    using gk sel by (auto simp: t1_def inspected_def req_of_def simp del: put_lock.simps)
  obtain xq where xq: "q_wf xq" "q_list xq = q_list (sg_queue_at ?s ?q)" "q_size xq = q_size (sg_queue_at ?s ?q)"
    "rotate_queue ?q (q_len (sg_queue_at ?s ?q)) t1 = t1\<lparr>tl_seg := set_queue ?q xq (tl_seg t1),
      tl_out := map (\<lambda>x. Reported (unat x) (req_of t (unat x))) (q_list (sg_queue_at ?s ?q)) @ tl_out t1\<rparr>"
    using rotate_spec [of t1 ?q "[]" "q_list (sg_queue_at ?s ?q)" "q_len (sg_queue_at ?s ?q)"] q q1 by auto
  have rel: "release_port k ?p (set_queue ?q xq (upd_port ?p (put_lock k m) ?s)) = set_queue ?q xq ?s"
    by (rule release_after(1) [OF lk])
  have out: "cmd_inspectq e portno qt t = Some (0, (\<lambda>r. r\<lparr>tl_seg := release_port k ?p (tl_seg r)\<rparr>)
      (rotate_queue ?q (q_len (sg_queue_at ?s ?q)) t1))"
    using j p gk a q1(1,2) by (simp add: cmd_inspectq_def cmd_join_def Let_def t1_def q_len_def del: put_lock.simps)
  show ?thesis using xq(1-3) rel unfolding out xq(4)
    by (intro exI [of _ xq]) (simp add: t1_def del: put_lock.simps)
qed

theorem inspection_keeps_queue_witness:
  "let t = demo_tool\<lparr>tl_seg := enq 1300 5000 (upd_port 1000 (\<lambda>p. p\<lparr>pt_pq_lock := \<lparr>lk_owner = 1, lk_pc = 0\<rparr>\<rparr>) demo_seg)\<rparr> in
   \<exists>xq t'. cmd_inspectq demo_env 0 REPLY_QUEUE t = Some (0, t') \<and> q_list xq = [5000] \<and>
     tl_seg t' = set_queue 1300 xq (tl_seg t) \<and> map (\<lambda>x. case x of Reported p r \<Rightarrow> p | _ \<Rightarrow> 0) (tl_out t') = [5000]"
proof -
  define s where "s = upd_port 1000 (\<lambda>p. p\<lparr>pt_pq_lock := \<lparr>lk_owner = 1, lk_pc = 0\<rparr>\<rparr>) demo_seg"
  define t where "t = demo_tool\<lparr>tl_seg := enq 1300 5000 s\<rparr>"
  have d0: "xseg_get_port demo_seg 0 = 1000" by (simp add: demo_seg_def xseg_get_port_def validate_port_def)
  then have p: "xseg_get_port (tl_seg t) 0 = 1000" "tl_joined t" "tl_seg t = enq 1300 5000 s" "tl_out t = []"
    by (simp_all add: t_def s_def demo_tool_def)
  have q0: "sg_queue_at s 1300 = demo_empty" by (simp add: s_def) (simp add: demo_seg_def)
  have q: "q_list (sg_queue_at (tl_seg t) 1300) = [5000]" "q_wf (sg_queue_at (tl_seg t) 1300)"
    using append_tail_list(2,4) [of demo_empty 5000] demo_empty_room demo_empty_wf snap_4
    by (simp_all add: p(3) enq_def q0 q_len_def)
  have i: "inspected REPLY_QUEUE 0 (tl_seg t) = 1300"
    by (simp add: inspected_def p s_def d0) (simp add: demo_seg_def demo_port_def)
  have l: "get_lock (snd (inspect_queue REPLY_QUEUE)) (sg_port_at (tl_seg t) (xseg_get_port (tl_seg t) 0)) = free_lock"
    by (simp add: p) (simp add: s_def demo_seg_def demo_port_def)
  have "xseg_get_port (tl_seg t) 0 \<noteq> 0" using p(1) by simp
  from inspection_keeps_queue [OF p(2) this l, unfolded i, OF q(2), of demo_env] q(1) p(4)
  show ?thesis unfolding Let_def s_def [symmetric] t_def [symmetric] by auto
qed

section \<open>Requests that are lost\<close>

definition locks_free :: "xseg \<Rightarrow> bool" where
  "locks_free s \<longleftrightarrow> (\<forall>p\<in>set (sg_ports s) - {0}. \<forall>k. get_lock k (sg_port_at s p) = free_lock)"

definition in_port :: "nat \<Rightarrow> nat \<Rightarrow> xseg \<Rightarrow> bool" where
  "in_port req p s \<longleftrightarrow> (\<exists>q\<in>port_queues (sg_port_at s p). of_nat req \<in> set (q_list (sg_queue_at s q)))"

lemma check_queue_eq:
  assumes l: "get_lock k (sg_port_at s p) = free_lock" and q: "\<And>l pt. q (put_lock k l pt) = q pt"
  shows "check_queue cl req k q p s = Some (of_nat req \<in> set (q_list (sg_queue_at s (q (sg_port_at s p)))), s)"
proof -
  obtain m where a: "acquire_port cl k p s = Some (upd_port p (put_lock k m) s)"
    using acquire_release [OF l] by blast
  have "release_port k p (upd_port p (put_lock k m) s) = s" by (rule release_after(2) [OF l])
  then show ?thesis using a q by (simp add: check_queue_def Let_def raw_check_iff del: put_lock.simps)
qed

lemma check_port_eq:
  assumes "\<And>k. get_lock k (sg_port_at s p) = free_lock"
  shows "check_port cl req p s = Some (in_port req p s, s)"
  by (simp add: check_port_def check_queue_eq [OF assms] in_port_def port_queues_def del: put_lock.simps)

lemma dangling_eq:
  assumes free: "locks_free s" and tab: "tables_typed s" and i: "unat i + k = unat (cf_nr_ports (sg_config s))"
  shows "dangling_from cl req k i s =
    Some (\<not> (\<exists>j\<in>{unat i..<unat i + k}. sg_ports s ! j \<noteq> 0 \<and> in_port req (sg_ports s ! j) s), s)"
  using i
proof (induction k arbitrary: i)
  case (Suc k)
  let ?p = "sg_ports s ! unat i"
  have less: "unat i + Suc k < 2 ^ 32" using Suc.prems unsigned_less [of "cf_nr_ports (sg_config s)"] by simp
  then have i1: "unat (i + 1) = unat i + 1" by (simp add: unat_word_ariths)
  have port: "xseg_get_port s i = ?p"
    using Suc.prems by (simp add: xseg_get_port_def validate_port_def word_less_nat_alt)
  have split: "{unat i..<unat i + Suc k} = insert (unat i) {unat i + 1..<unat i + 1 + k}" by auto
  have ih: "dangling_from cl req k (i + 1) s =
    Some (\<not> (\<exists>j\<in>{unat i + 1..<unat i + 1 + k}. sg_ports s ! j \<noteq> 0 \<and> in_port req (sg_ports s ! j) s), s)"
    using Suc.IH [of "i + 1"] Suc.prems by (simp only: i1) simp
  show ?case
  proof (cases "?p = 0")
    case True then show ?thesis unfolding split using ih by simp
  next
    case False
    have "unat i < length (sg_ports s)" using tab Suc.prems by (simp add: tables_typed_def Let_def)
    then have "?p \<in> set (sg_ports s) - {0}" using False by simp
    then have "check_port cl req ?p s = Some (in_port req ?p s, s)"
      using free check_port_eq unfolding locks_free_def by blast
    then show ?thesis unfolding split using ih False port by simp
  qed
qed simp

text \<open>
  C27. In a segment whose port locks are free, \<^verbatim>\<open>isDangling\<close> returns and changes nothing; it says yes
  exactly if the request is in no queue of any bound port. When a lock is held that it comes to before it
  finds the request, it waits for the lock.
\<close>

theorem dangling_iff_no_queue:
  assumes tab: "tables_typed s"
  shows "(locks_free s \<longrightarrow> isDangling cl req s = Some (\<forall>q\<in>queues s. of_nat req \<notin> set (q_list (sg_queue_at s q)), s)) \<and>
    (sg_ports s \<noteq> [] \<and> hd (sg_ports s) \<noteq> 0 \<and> \<not> unlocked (pt_fq_lock (sg_port_at s (hd (sg_ports s)))) \<longrightarrow>
       isDangling cl req s = None)"
proof (intro conjI impI)
  let ?n = "unat (cf_nr_ports (sg_config s))"
  have len: "length (sg_ports s) = ?n" using tab by (simp add: tables_typed_def Let_def)
  assume free: "locks_free s"
  have "(\<exists>j\<in>{0..<?n}. sg_ports s ! j \<noteq> 0 \<and> in_port req (sg_ports s ! j) s) \<longleftrightarrow> (\<exists>p\<in>set (sg_ports s) - {0}. in_port req p s)"
    unfolding len [symmetric] by (auto simp: Bex_def in_set_conv_nth)
  also have "\<dots> \<longleftrightarrow> \<not> (\<forall>q\<in>queues s. of_nat req \<notin> set (q_list (sg_queue_at s q)))"
    by (auto simp: queues_def in_port_def)
  finally have e: "(\<exists>j\<in>{0..<?n}. sg_ports s ! j \<noteq> 0 \<and> in_port req (sg_ports s ! j) s) \<longleftrightarrow>
    \<not> (\<forall>q\<in>queues s. of_nat req \<notin> set (q_list (sg_queue_at s q)))" .
  have "dangling_from cl req ?n 0 s = Some (\<not> (\<exists>j\<in>{0..<?n}. sg_ports s ! j \<noteq> 0 \<and> in_port req (sg_ports s ! j) s), s)"
    using dangling_eq [OF free tab, of 0 ?n cl req] by simp
  then show "isDangling cl req s = Some (\<forall>q\<in>queues s. of_nat req \<notin> set (q_list (sg_queue_at s q)), s)"
    by (simp only: isDangling_def e not_not)
next
  let ?n = "unat (cf_nr_ports (sg_config s))"
  assume a: "sg_ports s \<noteq> [] \<and> hd (sg_ports s) \<noteq> 0 \<and> \<not> unlocked (pt_fq_lock (sg_port_at s (hd (sg_ports s))))"
  then obtain n where n: "?n = Suc n" using tab by (cases ?n) (auto simp: tables_typed_def Let_def)
  have "validate_port s 0" using n by (simp add: validate_port_def word_less_nat_alt)
  then have "xseg_get_port s 0 = hd (sg_ports s)" using a by (simp add: xseg_get_port_def hd_conv_nth)
  then show "isDangling cl req s = None"
    using a by (auto simp: isDangling_def n check_port_def check_queue_def acquire_port_def hd_conv_nth Let_def)
qed

lemma demo_locks_free: "locks_free demo_seg"
proof -
  have "get_lock k (demo_port p) = free_lock" for k p by (cases k) (simp_all add: demo_port_def)
  then show ?thesis by (simp add: locks_free_def) (simp add: demo_seg_def)
qed

theorem dangling_iff_no_queue_witness:
  "isDangling (demo_caller 1) 5000 demo_seg = Some (True, demo_seg) \<and>
   isDangling (demo_caller 1) 5000 (upd_port 1000 (\<lambda>p. p\<lparr>pt_fq_lock := \<lparr>lk_owner = 1, lk_pc = 0\<rparr>\<rparr>) demo_seg) = None"
proof
  have tab: "tables_typed demo_seg" using demo_typed by (simp add: typed_def)
  have l: "q_list demo_empty = []" using demo_empty_room unfolding empty_q_def by blast
  have q: "sg_queue_at demo_seg q = demo_empty" for q by (simp add: demo_seg_def)
  have "\<forall>q\<in>queues demo_seg. of_nat 5000 \<notin> set (q_list (sg_queue_at demo_seg q))" unfolding q l by simp
  with dangling_iff_no_queue [OF tab, of "demo_caller 1" 5000] demo_locks_free
  show "isDangling (demo_caller 1) 5000 demo_seg = Some (True, demo_seg)" by auto
  let ?s = "upd_port 1000 (\<lambda>p. p\<lparr>pt_fq_lock := \<lparr>lk_owner = 1, lk_pc = 0\<rparr>\<rparr>) demo_seg"
  have tab': "tables_typed ?s" using tab by (simp add: tables_typed_def upd_port_def)
  have "sg_ports ?s = [1000, 2000, 3000]" by simp (simp add: demo_seg_def)
  with dangling_iff_no_queue [OF tab', of "demo_caller 1" 5000]
  show "isDangling (demo_caller 1) 5000 ?s = None" by simp
qed

section \<open>Sizes\<close>

lemma divisions_bounds: "t < 1024 ^ divisions t \<and> (0 < t \<longrightarrow> 1024 ^ (divisions t - 1) \<le> t)"
proof (induction t rule: divisions.induct)
  case (1 t)
  show ?case
  proof (cases "t = 0")
    case True then show ?thesis by (simp add: divisions.simps)
  next
    case False
    have d: "divisions t = divisions (t div 1024) + 1" using False by (simp add: divisions.simps)
    have ih: "t div 1024 < 1024 ^ divisions (t div 1024)" "0 < t div 1024 \<longrightarrow> 1024 ^ (divisions (t div 1024) - 1) \<le> t div 1024"
      using 1 False by blast+
    have up: "t < 1024 ^ divisions t" unfolding d using ih(1) by (simp add: div_less_iff_less_mult mult.commute)
    have "1024 ^ (divisions t - 1) \<le> t"
    proof (cases "t div 1024 = 0")
      case True then show ?thesis using False by (simp add: d divisions.simps [of 0])
    next
      case pos: False
      then obtain m where "divisions (t div 1024) = Suc m" using ih(1) by (cases "divisions (t div 1024)") auto
      then show ?thesis using ih(2) pos by (simp add: d less_eq_div_iff_mult_less_eq mult.commute)
    qed
    with up show ?thesis by blast
  qed
qed

text \<open>
  The number of bytes in use is printed with a unit \<open>1024 ^ u\<close> and a number between 1 and 1023 whenever
  it is at least one byte and less than a tebibyte. Without any byte the index of the unit is \<^verbatim>\<open>-1\<close>,
  and from a tebibyte on it is 4 or more: outside the arrays of four units.
\<close>

theorem units_in_range:
  "(in_units n = None \<longleftrightarrow> n = 0 \<or> 1024 ^ 4 \<le> n) \<and>
   (\<forall>k u. in_units n = Some (k, u) \<longrightarrow> u < 4 \<and> 0 < k \<and> k < 1024 \<and> k * 1024 ^ u \<le> n \<and> n < (k + 1) * 1024 ^ u)"
proof
  let ?d = "divisions n"
  have b: "n < 1024 ^ ?d" "0 < n \<longrightarrow> 1024 ^ (?d - 1) \<le> n" using divisions_bounds [of n] by blast+
  have z: "?d = 0 \<longleftrightarrow> n = 0" by (cases "n = 0") (simp_all add: divisions.simps)
  have big: "?d > 4 \<longleftrightarrow> 1024 ^ 4 \<le> n"
  proof
    assume d: "?d > 4"
    then have "(1024 :: nat) ^ 4 \<le> 1024 ^ (?d - 1)" by (intro power_increasing) simp_all
    then show "1024 ^ 4 \<le> n" using b(2) d z by (metis gr0I le_trans less_nat_zero_code)
  next
    assume "1024 ^ 4 \<le> n"
    then have "(1024 :: nat) ^ 4 < 1024 ^ ?d" using b(1) by (rule le_less_trans)
    then show "?d > 4" by (rule power_less_imp_less_exp [rotated]) simp
  qed
  show "in_units n = None \<longleftrightarrow> n = 0 \<or> 1024 ^ 4 \<le> n" using z big by (simp add: in_units_def Let_def)
  show "\<forall>k u. in_units n = Some (k, u) \<longrightarrow> u < 4 \<and> 0 < k \<and> k < 1024 \<and> k * 1024 ^ u \<le> n \<and> n < (k + 1) * 1024 ^ u"
  proof (intro allI impI)
    fix k u assume "in_units n = Some (k, u)"
    then have d: "?d = Suc u" "u < 4" "k = n div 1024 ^ u" by (auto simp: in_units_def Let_def split: if_splits)
    have "0 < n" using z d(1) by (cases "n = 0") simp_all
    then have lo: "1024 ^ u \<le> n" using b(2) d(1) by simp
    have hi: "n < 1024 * 1024 ^ u" using b(1) d(1) by simp
    have "k < 1024" using hi d(3) by (simp add: div_less_iff_less_mult)
    moreover have "0 < k" using lo d(3) by (simp add: div_greater_zero_iff)
    moreover have "k * 1024 ^ u \<le> n" "n < (k + 1) * 1024 ^ u"
      using d(3) by (simp, metis Suc_eq_plus1 dividend_less_div_times mult_Suc add.commute zero_less_power zero_less_numeral)
    ultimately show "u < 4 \<and> 0 < k \<and> k < 1024 \<and> k * 1024 ^ u \<le> n \<and> n < (k + 1) * 1024 ^ u" using d(2) by blast
  qed
qed

theorem units_in_range_witness: "in_units 3000000 = Some (2, 2)"
proof -
  have "in_units 3000000 \<noteq> None" using units_in_range [of 3000000] by simp
  then obtain k u where ku: "in_units 3000000 = Some (k, u)" by auto
  with units_in_range [of 3000000] have b: "u < 4" "0 < k" "k < 1024" "k * 1024 ^ u \<le> 3000000" "3000000 < (k + 1) * 1024 ^ u"
    by blast+
  from b(1) consider "u = 0" | "u = 1" | "u = 2" | "u = 3" by linarith
  then show ?thesis using b ku by cases auto
qed

end
