(* ===== verification/Xclient.thy ===== *)
theory Xclient
  imports Xmain Xreqs
begin

text \<open>
  What the commands of \<open>Xtool\<close> that send a request achieve: the request is taken from the port of the tool,
  given a buffer and filled in, and waits in the queue of the port that serves it, which finds the
  name, the operation and the data in it.
\<close>

section \<open>The common course of the commands\<close>

text \<open>The commands differ in the size of the data and in what they fill in after the target.\<close>

definition issue :: "'w tool_env \<Rightarrow> string \<Rightarrow> u64 \<Rightarrow> (nat \<Rightarrow> 'w tool \<Rightarrow> 'w tool) \<Rightarrow> 'w tool \<Rightarrow> (int \<times> 'w tool) option" where
  "issue e target sz setup t =
     do {
       (req, t) \<leftarrow> new_request e (strlen target) sz t;
       if req = 0 then Some (-1, t) else send_request e req (setup req (put_target req target t))
     }"

lemma poke_same [simp]: "tl_seg (poke p cs t) = tl_seg t" "data_at (poke p cs t) = data_at t" "target_of (poke p cs t) = target_of t"
  by (simp_all add: poke_def data_at_def target_of_def fun_eq_iff)

lemma put_target_same [simp]: "tl_seg (put_target req cs t) = tl_seg t" "data_at (put_target req cs t) = data_at t"
  "target_of (put_target req cs t) = target_of t"
  by (simp_all add: put_target_def)

lemma put_parent_same [simp]: "tl_seg (put_parent p cs t) = tl_seg t" "data_at (put_parent p cs t) = data_at t"
  "target_of (put_parent p cs t) = target_of t"
  by (simp_all add: put_parent_def)

lemma commands_issue:
  "cmd_info e target t = issue e target 8 (\<lambda>q. set_req q (\<lambda>r. r\<lparr>rq_offset := 0, rq_size := 8, rq_op := X_INFO\<rparr>)) t"
  "cmd_read e target offset sz t = issue e target sz
     (\<lambda>q t. report_request q (set_req q (\<lambda>r. r\<lparr>rq_offset := offset, rq_size := sz, rq_op := X_READ\<rparr>) t)) t"
  "cmd_acquire e target t = issue e target 0
     (\<lambda>q. set_req q (\<lambda>r. r\<lparr>rq_offset := 0, rq_size := 0, rq_op := X_ACQUIRE, rq_flags := XF_NOSYNC\<rparr>)) t"
  "cmd_release e target t = issue e target 0
     (\<lambda>q. set_req q (\<lambda>r. r\<lparr>rq_offset := 0, rq_size := 0, rq_op := X_RELEASE, rq_flags := 0\<rparr>)) t"
  "cmd_open e target t = issue e target 0 (\<lambda>q. set_req q (\<lambda>r. r\<lparr>rq_offset := 0, rq_size := 0, rq_op := X_OPEN\<rparr>)) t"
  "cmd_close e target t = issue e target 0
     (\<lambda>q. set_req q (\<lambda>r. r\<lparr>rq_offset := 0, rq_size := 0, rq_op := X_CLOSE, rq_flags := XF_FORCE\<rparr>)) t"
  "cmd_copy e src dst t = issue e dst XCOPY_SIZE
     (\<lambda>q t. set_req q (\<lambda>r. r\<lparr>rq_offset := 0, rq_size := XCOPY_SIZE, rq_op := X_COPY\<rparr>) (put_parent (data_at t q) src t)) t"
  by (simp_all add: cmd_info_def cmd_read_def cmd_acquire_def cmd_release_def cmd_open_def cmd_close_def cmd_copy_def
      issue_def Let_def cong: if_cong)

section \<open>Memory\<close>

lemma read_write: "read_mem p (length cs) (write_mem p cs m) = cs"
  by (rule nth_equalityI) (simp_all add: read_mem_def write_mem_def)

lemma read_write_apart:
  assumes "p + n \<le> q \<or> q + length cs \<le> p"
  shows "read_mem p n (write_mem q cs m) = read_mem p n m"
  using assms by (auto simp: read_mem_def write_mem_def)

lemma length_read [simp]: "length (read_mem p n m) = n"
  by (simp add: read_mem_def)

lemma strlen_unat: "length str < 2 ^ 32 \<Longrightarrow> unat (strlen str) = length str"
  by (simp add: strlen_def unat_of_nat)

lemma strn_all: "strn (length str) str = str"
  by (simp add: strn_def)

section \<open>Preparing a request\<close>

text \<open>Only the heap and the buffer of the request change.\<close>

definition same_but_heap :: "nat \<Rightarrow> xseg \<Rightarrow> xseg \<Rightarrow> bool" where
  "same_but_heap req s s' \<longleftrightarrow> (let r = sg_req_at s' req in
     s' = upd_req req (\<lambda>q. q\<lparr>rq_buffer := rq_buffer r, rq_bufferlen := rq_bufferlen r, rq_data := rq_data r,
       rq_datalen := rq_datalen r, rq_target := rq_target r, rq_targetlen := rq_targetlen r\<rparr>) (s\<lparr>sg_heap := sg_heap s'\<rparr>))"

lemma seg_heap_only:
  "seg_alloc cl b s = Some (a, s') \<Longrightarrow> s' = s\<lparr>sg_heap := sg_heap s'\<rparr>"
  "seg_free cl p s = Some s' \<Longrightarrow> s' = s\<lparr>sg_heap := sg_heap s'\<rparr>"
  by (auto simp: seg_alloc_def seg_free_def split: bind_splits)

lemma alloc_heap_only:
  assumes "xseg_alloc_buffer cl b s = Some (a, s')"
  shows "s' = s\<lparr>sg_heap := sg_heap s'\<rparr>"
proof -
  obtain m s1 where m: "seg_alloc cl b s = Some (m, s1)" and
    r: "(m \<noteq> 0 \<and> chunk_size s1 m < b \<and> seg_free cl m s1 = Some s') \<or> s' = s1"
    using assms by (auto simp: xseg_alloc_buffer_def split: bind_splits if_splits)
  obtain h where h: "s1 = s\<lparr>sg_heap := h\<rparr>" using seg_heap_only(1) [OF m] by blast
  obtain g where "s' = s1\<lparr>sg_heap := g\<rparr>" using r seg_heap_only(2) [of cl m s1 s'] by (metis xseg.surjective xseg.update_convs(6))
  then show ?thesis by (simp add: h)
qed

lemma prep_frame:
  assumes "xseg_prep_request cl req tlen dlen s = Some (r, s')"
  shows "same_but_heap req s s'"
proof -
  define s0 where "s0 = upd_req req (\<lambda>r. r\<lparr>rq_buffer := 0, rq_bufferlen := 0\<rparr>) s"
  obtain b s1 where b: "xseg_alloc_buffer cl (unat (ucast tlen + dlen)) s0 = Some (b, s1)"
    and r: "s' = s1 \<or> s' = upd_req req (\<lambda>r. r\<lparr>rq_bufferlen := chunk_size s1 b, rq_buffer := b, rq_data := b,
       rq_target := w64 (b + chunk_size s1 b + 2 ^ 64 - unat tlen), rq_datalen := dlen, rq_targetlen := tlen\<rparr>) s1"
    using assms by (auto simp: xseg_prep_request_def Let_def s0_def split: if_splits bind_splits)
  obtain h where h: "s1 = s0\<lparr>sg_heap := h\<rparr>" using alloc_heap_only [OF b] by blast
  show ?thesis using r unfolding h same_but_heap_def Let_def
    by (cases "sg_req_at s req", elim disjE) (simp_all add: s0_def upd_req_def)
qed

lemma same_but_heap_simps:
  assumes "same_but_heap req s s'"
  shows "sg_queue_at s' = sg_queue_at s" "sg_port_at s' = sg_port_at s" "sg_ports s' = sg_ports s"
    "sg_path_next s' = sg_path_next s" "sg_config s' = sg_config s" "sg_segment s' = sg_segment s"
    "rq_path (sg_req_at s' req) = rq_path (sg_req_at s req)" "rq_src_portno (sg_req_at s' req) = rq_src_portno (sg_req_at s req)"
    "rq_transit_portno (sg_req_at s' req) = rq_transit_portno (sg_req_at s req)"
    "rq_effective_dst_portno (sg_req_at s' req) = rq_effective_dst_portno (sg_req_at s req)"
    "rq_elapsed (sg_req_at s' req) = rq_elapsed (sg_req_at s req)" "xseg_get_port s' n = xseg_get_port s n"
    "validate_port s' n = validate_port s n"
  by (subst assms [unfolded same_but_heap_def Let_def], simp add: upd_req_def xseg_get_port_def validate_port_def)+

text \<open>
  A port from which a request can be sent to another: the next request is in its cache, the route is
  direct and the queue at the other end has room.
\<close>

definition server_q :: "xport \<Rightarrow> xseg \<Rightarrow> nat" where
  "server_q dst s = pt_request_queue (sg_port_at s (xseg_get_port s dst))"

definition can_send :: "xport \<Rightarrow> xport \<Rightarrow> nat \<Rightarrow> xseg \<Rightarrow> bool" where
  "can_send src dst req s \<longleftrightarrow>
     (let p = xseg_get_port s dst in
      cached s src req \<and> 32 \<le> length (q_mem (rq_path (sg_req_at s req))) \<and> src \<noteq> dst \<and> sg_path_next s ! unat src = NoPort \<and>
      p \<noteq> 0 \<and> pt_flags (sg_port_at s p) \<noteq> 0 \<and> pt_rq_lock (sg_port_at s p) = free_lock \<and>
      has_room (sg_queue_at s (server_q dst s)) \<and> server_q dst s \<noteq> free_q s (xseg_get_port s src))"

definition cache_q :: "xport \<Rightarrow> xseg \<Rightarrow> nat" where
  "cache_q src s = free_q s (xseg_get_port s src)"

text \<open>The state after the request is taken.\<close>

definition got :: "xport \<Rightarrow> xport \<Rightarrow> nat \<Rightarrow> xseg \<Rightarrow> xseg" where
  "got src dst req s = upd_req req (taken src dst) (deq (cache_q src s) s)"

lemma deq_simps [simp]:
  "sg_heap (deq q s) = sg_heap s" "sg_base (deq q s) = sg_base s" "sg_config (deq q s) = sg_config s"
  "sg_ports (deq q s) = sg_ports s" "sg_path_next (deq q s) = sg_path_next s" "sg_segment (deq q s) = sg_segment s"
  "validate_port (deq q s) n = validate_port s n"
  by (simp_all add: deq_def) (simp_all add: set_queue_def)

lemma upd_req_seg [simp]: "sg_base (upd_req r f s) = sg_base s" "sg_segment (upd_req r f s) = sg_segment s"
  by (simp_all add: upd_req_def)

lemma got_simps [simp]:
  "sg_heap (got a b r s) = sg_heap s" "sg_base (got a b r s) = sg_base s" "sg_config (got a b r s) = sg_config s"
  "sg_port_at (got a b r s) = sg_port_at s" "xseg_get_port (got a b r s) n = xseg_get_port s n"
  "validate_port (got a b r s) n = validate_port s n" "sg_path_next (got a b r s) = sg_path_next s"
  "sg_req_at (got a b r s) r = taken a b (sg_req_at s r)" "sg_segment (got a b r s) = sg_segment s"
  by (simp_all add: got_def)

lemma get_got:
  assumes c: "cached s src req" and dst: "validate_port s dst"
  shows "xseg_get_request junk cl src dst flags s = Some (req, got src dst req s)"
proof -
  have r: "req_ptr req" and p: "xseg_get_port s src \<noteq> 0" using c by (simp_all add: cached_def Let_def)
  show ?thesis
    using get_cached [OF c, of junk cl dst flags] init_request_valid [of req "deq (cache_q src s) s" src dst cl]
      req_ptr_word(3) [OF r] get_port_valid [OF p] dst by (simp add: cache_q_def got_def)
qed

text \<open>Putting the request back right away.\<close>

lemma put_back:
  assumes c: "cached s src req" and f: "same_but_heap req (got src dst req s) s'" and b: "rq_buffer (sg_req_at s' req) = 0"
  shows "\<exists>s2. xseg_put_request cl req src s' = Some (0, s2) \<and>
    q_list (sg_queue_at s2 (cache_q src s)) = q_list (sg_queue_at s (cache_q src s)) \<and>
    (\<forall>x. x \<noteq> cache_q src s \<longrightarrow> sg_queue_at s2 x = sg_queue_at s x) \<and> sg_port_at s2 = sg_port_at s"
proof -
  let ?q = "cache_q src s" and ?p = "xseg_get_port s src"
  from c have p: "?p \<noteq> 0" "pt_fq_lock (sg_port_at s ?p) = free_lock" and r: "req_ptr req"
    and old: "oldest (sg_queue_at s ?q) (of_nat req)" by (simp_all add: cached_def Let_def cache_q_def)
  obtain q' where q': "raw_xq_pop_head (sg_queue_at s ?q) = (of_nat req, q')" "q_wf q'"
    "q_list q' = butlast (q_list (sg_queue_at s ?q))" "q_cap q' = q_cap (sg_queue_at s ?q)"
    using oldest_pop [OF old] by blast
  obtain xs where xs: "q_list (sg_queue_at s ?q) = xs @ [of_nat req]" "q_wf (sg_queue_at s ?q)"
    using old by (auto simp: oldest_def)
  have "q_len (sg_queue_at s ?q) = Suc (length xs)" using arg_cong [OF xs(1), of length] by simp
  moreover have "q_len q' = length xs" using arg_cong [OF q'(3), of length] xs(1) by simp
  ultimately have room: "has_room q'" using q_wf_len [OF xs(2)] q'(2,4) by (simp add: has_room_def)
  note fs = same_but_heap_simps [OF f]
  have q1: "sg_queue_at s' ?q = q'" "\<And>x. x \<noteq> ?q \<Longrightarrow> sg_queue_at s' x = sg_queue_at s x"
    using q'(1) by (simp_all add: fs(1) got_def) (simp_all add: deq_def)
  define q2 where "q2 = snd (raw_xq_append_head q' (of_nat req))"
  have put: "xseg_put_request cl req src s' = Some (0, set_queue ?q q2 (upd_req req returned s'))"
    unfolding q2_def q1(1) [symmetric]
    by (rule put_room [where p = ?p, OF r refl b])
      (use p room q1(1) fs in \<open>simp_all add: taken_def free_q_def cache_q_def\<close>)
  have "q_list q2 = q_list (sg_queue_at s ?q)"
    using append_head_list(2) room q'(3) xs(1) by (simp add: q2_def has_room_def)
  then show ?thesis using put q1(2) fs(2)
    by (intro exI [of _ "set_queue ?q q2 (upd_req req returned s')"]) simp
qed

lemma new_request_cases:
  assumes c: "can_send (tl_srcport t) (tl_dstport t) req (tl_seg t)" and rdy: "heap_ready (tl_seg t) st cs F"
    and cls: "in_classes (sg_heap (tl_seg t)) (unat tlen + unat sz)"
  obtains (sent) s1 cs' F' where "new_request e tlen sz t = Some (req, t\<lparr>tl_seg := s1\<rparr>)"
      "same_but_heap req (got (tl_srcport t) (tl_dstport t) req (tl_seg t)) s1" "req_layout s1 req cs' F'"
      "rq_datalen (sg_req_at s1 req) = sz" "rq_targetlen (sg_req_at s1 req) = tlen" "heap_ready s1 st cs' F'"
  | (full) s2 where "new_request e tlen sz t = Some (0, t\<lparr>tl_seg := s2\<rparr>)"
      "q_list (sg_queue_at s2 (cache_q (tl_srcport t) (tl_seg t))) = q_list (sg_queue_at (tl_seg t) (cache_q (tl_srcport t) (tl_seg t)))"
      "\<And>x. x \<noteq> cache_q (tl_srcport t) (tl_seg t) \<Longrightarrow> sg_queue_at s2 x = sg_queue_at (tl_seg t) x" "sg_port_at s2 = sg_port_at (tl_seg t)"
proof -
  let ?s = "tl_seg t" and ?src = "tl_srcport t" and ?dst = "tl_dstport t"
  define g where "g = got ?src ?dst req ?s"
  from c have ca: "cached ?s ?src req" and v: "validate_port ?s ?dst"
    using get_port_valid [of ?s ?dst] by (auto simp: can_send_def Let_def)
  then have r: "req \<noteq> 0" using req_ptr_word(3) by (auto simp: cached_def Let_def)
  have "heap_ready g st cs F" "in_classes (sg_heap g) (unat tlen + unat sz)"
    using rdy cls by (simp_all add: g_def heap_ready_def)
  from prep_layout [OF this r, of "te_cl e"] obtain ret s' cs' F' where
    pr: "xseg_prep_request (te_cl e) req tlen sz g = Some (ret, s')" "heap_ready s' st cs' F'" and
    o: "ret = 0 \<and> req_layout s' req cs' F' \<and> rq_datalen (sg_req_at s' req) = sz \<and> rq_targetlen (sg_req_at s' req) = tlen \<or>
      ret = -1 \<and> rq_buffer (sg_req_at s' req) = 0" by blast
  have fr: "same_but_heap req (got ?src ?dst req ?s) s'" using prep_frame [OF pr(1)] by (simp add: g_def)
  have nr: "new_request e tlen sz t = (if ret < 0 then do { (_, t) \<leftarrow> tool_put e req (t\<lparr>tl_seg := s'\<rparr>); Some (0, t) }
     else Some (req, t\<lparr>tl_seg := s'\<rparr>))"
    using get_got [OF ca v, of "te_junk e" "te_cl e" X_ALLOC] pr(1) r
    by (simp add: new_request_def tool_get_def on_seg_def g_def)
  show thesis
  proof (cases "ret = 0")
    case True
    then show thesis using sent [of s' cs' F'] nr o fr pr(2) by simp
  next
    case False
    with o have ret: "ret = -1" and b: "rq_buffer (sg_req_at s' req) = 0" by simp_all
    obtain s2 where s2: "xseg_put_request (te_cl e) req ?src s' = Some (0, s2)"
      "q_list (sg_queue_at s2 (cache_q ?src ?s)) = q_list (sg_queue_at ?s (cache_q ?src ?s))"
      "\<forall>x. x \<noteq> cache_q ?src ?s \<longrightarrow> sg_queue_at s2 x = sg_queue_at ?s x" "sg_port_at s2 = sg_port_at ?s"
      using put_back [OF ca fr b] by blast
    then show thesis using full [of s2] nr ret by (simp add: tool_put_def on_seg_def)
  qed
qed

section \<open>Sending\<close>

lemma direct_next:
  assumes "can_send src dst req s"
  shows "find_next s dst src = Some (Some (dst, xseg_get_port s dst))"
  using assms by (subst find_next.simps) (auto simp: can_send_def Let_def path_step_def)

text \<open>A change to the request that leaves its route and its buffer alone.\<close>

definition fills :: "(xseg_request \<Rightarrow> xseg_request) \<Rightarrow> bool" where
  "fills f \<longleftrightarrow> (\<forall>r. rq_path (f r) = rq_path r \<and> rq_transit_portno (f r) = rq_transit_portno r \<and>
     rq_effective_dst_portno (f r) = rq_effective_dst_portno r \<and> rq_target (f r) = rq_target r \<and> rq_data (f r) = rq_data r \<and>
     rq_targetlen (f r) = rq_targetlen r \<and> rq_datalen (f r) = rq_datalen r \<and> rq_buffer (f r) = rq_buffer r \<and>
     rq_bufferlen (f r) = rq_bufferlen r \<and> rq_src_portno (f r) = rq_src_portno r)"

text \<open>The state in which the request is in the queue of the other port.\<close>

definition submitted :: "xport \<Rightarrow> xport \<Rightarrow> nat \<Rightarrow> (xseg_request \<Rightarrow> xseg_request) \<Rightarrow> xseg \<Rightarrow> xseg \<Rightarrow> xseg" where
  "submitted src dst req f s s1 = enq (server_q dst s) req (push_path src req (upd_req req f s1))"

lemma server_queue:
  assumes c: "can_send src dst req s" and fr: "same_but_heap req (got src dst req s) s1"
  shows "sg_queue_at s1 (server_q dst s) = sg_queue_at s (server_q dst s)"
proof -
  have "server_q dst s \<noteq> cache_q src s" using c by (simp add: can_send_def cache_q_def Let_def)
  then show ?thesis using same_but_heap_simps(1) [OF fr] by (simp add: got_def) (simp add: deq_def)
qed

lemma submit_got:
  assumes c: "can_send src dst req s" and fr: "same_but_heap req (got src dst req s) s1" and f: "fills f"
  shows "xseg_submit junk cl req portno flags (upd_req req f s1) = Some (dst, submitted src dst req f s s1)"
proof -
  let ?p = "xseg_get_port s dst" and ?s2 = "upd_req req f s1"
  note fs = same_but_heap_simps [OF fr]
  from c have r: "req_ptr req" and src: "validate_port s src" and dst: "validate_port s dst" "?p \<noteq> 0"
    and q: "has_room (sg_queue_at s (server_q dst s))" and l: "pt_rq_lock (sg_port_at s ?p) = free_lock"
    and m: "32 \<le> length (q_mem (rq_path (sg_req_at s req)))"
    using get_port_valid [of s src] get_port_valid [of s dst] by (auto simp: can_send_def cached_def Let_def)
  have tr: "rq_transit_portno (sg_req_at ?s2 req) = src" "rq_effective_dst_portno (sg_req_at ?s2 req) = dst"
    using f by (simp_all add: fs fills_def taken_def)
  have "sg_path_next s1 = sg_path_next s" "sg_port_at s1 = sg_port_at s" using fs by simp_all
  moreover have "find_next ?s2 dst src = Some (Some (dst, ?p))"
    using c fs(2,4,12) by (subst find_next.simps) (auto simp: can_send_def Let_def path_step_def)
  moreover have "has_room (rq_path (sg_req_at ?s2 req))"
  proof -
    have "rq_path (sg_req_at ?s2 req) = empty_path (sg_req_at s req)"
      using f by (simp add: fs fills_def taken_def)
    moreover have e: "q_wf (empty_path (sg_req_at s req))" "q_list (empty_path (sg_req_at s req)) = []"
      "q_cap (empty_path (sg_req_at s req)) = unat (snap 32)"
      using init_empty_list(1,2,4) [of 32 "q_mem (rq_path (sg_req_at s req))" "rq_path (sg_req_at s req)"] m
      by (simp_all add: empty_path_def MAX_PATH_LEN_def)
    moreover have "snap 32 = 32" by code_simp
    ultimately show ?thesis by (simp add: has_room_def q_len_def)
  qed
  moreover have "has_room (sg_queue_at ?s2 (server_q dst s))" using q server_queue [OF c fr] by simp
  ultimately have "xseg_submit junk cl req portno flags ?s2 =
      Some (dst, enq (server_q dst s) req (push_path (rq_transit_portno (sg_req_at ?s2 req)) req ?s2))"
    using src dst(1) tr fs(2,13) l
    by (intro submit_eq [OF r refl, where port = ?p]) (simp_all add: server_q_def)
  then show ?thesis by (simp only: submitted_def tr)
qed

lemma issue_cases:
  assumes c: "can_send (tl_srcport t) (tl_dstport t) req (tl_seg t)" and rdy: "heap_ready (tl_seg t) st cs F"
    and cls: "in_classes (sg_heap (tl_seg t)) (unat (strlen target) + unat sz)"
    and f: "fills f" and eq: "\<And>t. tl_seg (setup req t) = upd_req req f (tl_seg t)"
  obtains (sent) s1 cs' F' where "issue e target sz setup t =
      do { (_, t) \<leftarrow> tool_signal e (tl_dstport t) ((setup req (put_target req target (t\<lparr>tl_seg := s1\<rparr>)))\<lparr>tl_seg :=
              submitted (tl_srcport t) (tl_dstport t) req f (tl_seg t) s1\<rparr>); Some (0, t) }"
      "same_but_heap req (got (tl_srcport t) (tl_dstport t) req (tl_seg t)) s1" "req_layout s1 req cs' F'"
      "rq_datalen (sg_req_at s1 req) = sz" "rq_targetlen (sg_req_at s1 req) = strlen target" "heap_ready s1 st cs' F'"
  | (full) s2 where "new_request e (strlen target) sz t = Some (0, t\<lparr>tl_seg := s2\<rparr>)" "issue e target sz setup t = Some (-1, t\<lparr>tl_seg := s2\<rparr>)"
      "q_list (sg_queue_at s2 (cache_q (tl_srcport t) (tl_seg t))) = q_list (sg_queue_at (tl_seg t) (cache_q (tl_srcport t) (tl_seg t)))"
      "\<And>x. x \<noteq> cache_q (tl_srcport t) (tl_seg t) \<Longrightarrow> sg_queue_at s2 x = sg_queue_at (tl_seg t) x" "sg_port_at s2 = sg_port_at (tl_seg t)"
proof (rule new_request_cases [OF c rdy cls])
  fix s2
  assume n: "new_request e (strlen target) sz t = Some (0, t\<lparr>tl_seg := s2\<rparr>)"
  then have "issue e target sz setup t = Some (-1, t\<lparr>tl_seg := s2\<rparr>)" by (simp add: issue_def)
  moreover assume "q_list (sg_queue_at s2 (cache_q (tl_srcport t) (tl_seg t))) = q_list (sg_queue_at (tl_seg t) (cache_q (tl_srcport t) (tl_seg t)))"
    "\<And>x. x \<noteq> cache_q (tl_srcport t) (tl_seg t) \<Longrightarrow> sg_queue_at s2 x = sg_queue_at (tl_seg t) x" "sg_port_at s2 = sg_port_at (tl_seg t)"
  ultimately show thesis by (rule full [OF n])
next
  fix s1 cs' F'
  assume n: "new_request e (strlen target) sz t = Some (req, t\<lparr>tl_seg := s1\<rparr>)"
    and fr: "same_but_heap req (got (tl_srcport t) (tl_dstport t) req (tl_seg t)) s1" and l: "req_layout s1 req cs' F'"
    "rq_datalen (sg_req_at s1 req) = sz" "rq_targetlen (sg_req_at s1 req) = strlen target" "heap_ready s1 st cs' F'"
  have r: "req \<noteq> 0" using c req_ptr_word(3) by (auto simp: can_send_def cached_def Let_def)
  let ?t = "setup req (put_target req target (t\<lparr>tl_seg := s1\<rparr>))"
  have "tl_seg ?t = upd_req req f s1" by (simp add: eq)
  from submit_got [OF c fr f, of "te_junk e" "te_cl e" "tl_srcport ?t" X_ALLOC]
  have sub: "tool_submit e req ?t = Some (tl_dstport t, ?t\<lparr>tl_seg := submitted (tl_srcport t) (tl_dstport t) req f (tl_seg t) s1\<rparr>)"
    by (simp add: tool_submit_def on_seg_def eq)
  show thesis
  proof (cases "tl_dstport t = NoPort")
    case True
    have "validate_port (tl_seg t) (tl_dstport t)"
      using c get_port_valid [of "tl_seg t" "tl_dstport t"] by (simp add: can_send_def Let_def)
    then have "NoPort < cf_nr_ports (sg_config (tl_seg t))" using True by (simp add: validate_port_def)
    then show thesis by (simp add: NoPort_def not_less [symmetric])
  next
    case False
    then have "issue e target sz setup t =
      do { (_, t) \<leftarrow> tool_signal e (tl_dstport t) (?t\<lparr>tl_seg := submitted (tl_srcport t) (tl_dstport t) req f (tl_seg t) s1\<rparr>); Some (0, t) }"
      using n r sub by (simp add: issue_def send_request_def)
    then show thesis by (rule sent [OF _ fr l])
  qed
qed

section \<open>What the server finds\<close>

text \<open>The commands that send nothing but a name, and the fields that they set.\<close>

datatype client_cmd = C_info | C_read u64 u64 | C_acquire | C_release | C_open | C_close

fun client :: "'w tool_env \<Rightarrow> client_cmd \<Rightarrow> string \<Rightarrow> 'w tool \<Rightarrow> (int \<times> 'w tool) option" where
  "client e C_info target t = cmd_info e target t"
| "client e (C_read offset sz) target t = cmd_read e target offset sz t"
| "client e C_acquire target t = cmd_acquire e target t"
| "client e C_release target t = cmd_release e target t"
| "client e C_open target t = cmd_open e target t"
| "client e C_close target t = cmd_close e target t"

text \<open>The operation, the offset, the size and the flags; the size is that of the data, too.\<close>

fun client_fields :: "client_cmd \<Rightarrow> u32 \<times> u64 \<times> u64 \<times> u32" where
  "client_fields C_info = (X_INFO, 0, 8, 0)"
| "client_fields (C_read offset sz) = (X_READ, offset, sz, 0)"
| "client_fields C_acquire = (X_ACQUIRE, 0, 0, XF_NOSYNC)"
| "client_fields C_release = (X_RELEASE, 0, 0, 0)"
| "client_fields C_open = (X_OPEN, 0, 0, 0)"
| "client_fields C_close = (X_CLOSE, 0, 0, XF_FORCE)"

definition has_fields :: "u32 \<times> u64 \<times> u64 \<times> u32 \<Rightarrow> xseg_request \<Rightarrow> bool" where
  "has_fields v r \<longleftrightarrow> (rq_op r, rq_offset r, rq_size r, rq_flags r) = v"

text \<open>The same as a change of the request, and what is done between the target and the submission.\<close>

fun client_fill :: "client_cmd \<Rightarrow> xseg_request \<Rightarrow> xseg_request" where
  "client_fill C_info = (\<lambda>r. r\<lparr>rq_offset := 0, rq_size := 8, rq_op := X_INFO\<rparr>)"
| "client_fill (C_read offset sz) = (\<lambda>r. r\<lparr>rq_offset := offset, rq_size := sz, rq_op := X_READ\<rparr>)"
| "client_fill C_acquire = (\<lambda>r. r\<lparr>rq_offset := 0, rq_size := 0, rq_op := X_ACQUIRE, rq_flags := XF_NOSYNC\<rparr>)"
| "client_fill C_release = (\<lambda>r. r\<lparr>rq_offset := 0, rq_size := 0, rq_op := X_RELEASE, rq_flags := 0\<rparr>)"
| "client_fill C_open = (\<lambda>r. r\<lparr>rq_offset := 0, rq_size := 0, rq_op := X_OPEN\<rparr>)"
| "client_fill C_close = (\<lambda>r. r\<lparr>rq_offset := 0, rq_size := 0, rq_op := X_CLOSE, rq_flags := XF_FORCE\<rparr>)"

definition client_setup :: "client_cmd \<Rightarrow> nat \<Rightarrow> 'w tool \<Rightarrow> 'w tool" where
  "client_setup cmd q t =
     (let t = set_req q (client_fill cmd) t in case cmd of C_read _ _ \<Rightarrow> report_request q t | _ \<Rightarrow> t)"

lemma client_issue:
  "client e cmd target t = issue e target (fst (snd (snd (client_fields cmd)))) (client_setup cmd) t"
  by (cases cmd) (simp_all add: commands_issue client_setup_def [abs_def])

lemma client_fills:
  "fills (client_fill cmd)" "rq_flags r = 0 \<Longrightarrow> has_fields (client_fields cmd) (client_fill cmd r)"
  by (cases cmd; simp add: fills_def has_fields_def)+

lemma client_setup_state:
  "tl_seg (client_setup cmd q t) = upd_req q (client_fill cmd) (tl_seg t)" "tl_mem (client_setup cmd q t) = tl_mem t"
  by (simp_all add: client_setup_def set_req_def report_request_def out_def Let_def split: client_cmd.split)

text \<open>
  The request waits at the end of the queue of the port that serves it, from the port of the tool and with
  the way back in its path; name and data lie apart in its buffer, and the name is there.
\<close>

definition delivered :: "nat \<Rightarrow> string \<Rightarrow> u64 \<Rightarrow> 'w tool \<Rightarrow> 'w tool \<Rightarrow> bool" where
  "delivered req target sz t t' \<longleftrightarrow>
     (let r = req_of t' req; q = server_q (tl_dstport t) (tl_seg t) in
      q_list (sg_queue_at (tl_seg t') q) = of_nat req # q_list (sg_queue_at (tl_seg t) q) \<and>
      rq_src_portno r = tl_srcport t \<and> path_ports (tl_seg t') req = [tl_srcport t] \<and>
      rq_targetlen r = strlen target \<and> rq_datalen r = sz \<and> rq_data r + unat sz \<le> rq_target r \<and>
      read_mem (target_of t' req) (length target) (tl_mem t') = target)"

text \<open>A server whose queue was empty accepts it.\<close>

definition accepted :: "nat \<Rightarrow> 'w tool \<Rightarrow> 'w tool \<Rightarrow> bool" where
  "accepted req t t' \<longleftrightarrow>
     (q_list (sg_queue_at (tl_seg t) (server_q (tl_dstport t) (tl_seg t))) = [] \<longrightarrow>
        (\<forall>cl flags. \<exists>s. xseg_accept cl (tl_dstport t) flags (tl_seg t') = Some (req, s)))"

lemma submitted_req:
  "sg_req_at (submitted src dst req f s s1) req = (f (sg_req_at s1 req))\<lparr>rq_path := snd (raw_xq_append_head (rq_path (f (sg_req_at s1 req))) (ucast src))\<rparr>"
  "sg_segment (submitted src dst req f s s1) = sg_segment s1"
  "sg_queue_at (submitted src dst req f s s1) (server_q dst s) = snd (raw_xq_append_tail (sg_queue_at s1 (server_q dst s)) (of_nat req))"
  "sg_port_at (submitted src dst req f s s1) = sg_port_at s1" "xseg_get_port (submitted src dst req f s s1) n = xseg_get_port s1 n"
  by (simp_all add: submitted_def push_path_def enq_def) (simp_all add: upd_req_def set_queue_def)

lemma empty_path_ok:
  assumes "32 \<le> length (q_mem (rq_path r))"
  shows "has_room (empty_path r)" "q_list (empty_path r) = []"
proof -
  have "snap 32 = 32" by code_simp
  then have "q_wf (empty_path r)" "q_cap (empty_path r) = 32" and e: "q_list (empty_path r) = []"
    using init_empty_list(1,2,4) [of 32 "q_mem (rq_path r)" "rq_path r"] assms
    by (simp_all add: empty_path_def MAX_PATH_LEN_def)
  then show "has_room (empty_path r)" by (simp add: has_room_def q_len_def)
  show "q_list (empty_path r) = []" by (fact e)
qed

lemma delivery:
  assumes c: "can_send (tl_srcport t) (tl_dstport t) req (tl_seg t)"
    and fr: "same_but_heap req (got (tl_srcport t) (tl_dstport t) req (tl_seg t)) s1" and l: "req_layout s1 req cs' F'"
      "rq_datalen (sg_req_at s1 req) = sz" "rq_targetlen (sg_req_at s1 req) = strlen target"
    and f: "fills f" and t': "tl_seg t' = submitted (tl_srcport t) (tl_dstport t) req f (tl_seg t) s1"
    and m: "read_mem (target_of (t\<lparr>tl_seg := s1\<rparr>) req) (length target) (tl_mem t') = target"
  shows "delivered req target sz t t'" and "accepted req t t'"
proof -
  let ?s = "tl_seg t" and ?dst = "tl_dstport t" and ?src = "tl_srcport t"
  let ?q = "server_q ?dst ?s"
  note fs = same_but_heap_simps [OF fr]
  from c have r: "req_ptr req" and room: "has_room (sg_queue_at ?s ?q)" and p: "xseg_get_port ?s ?dst \<noteq> 0"
    "pt_rq_lock (sg_port_at ?s (xseg_get_port ?s ?dst)) = free_lock" and mp: "32 \<le> length (q_mem (rq_path (sg_req_at ?s req)))"
    by (auto simp: can_send_def cached_def Let_def)
  have q: "sg_queue_at s1 ?q = sg_queue_at ?s ?q" by (rule server_queue [OF c fr])
  have q1: "q_list (sg_queue_at (tl_seg t') ?q) = of_nat req # q_list (sg_queue_at ?s ?q)" "q_wf (sg_queue_at (tl_seg t') ?q)"
    using append_tail_list(2,4) [of "sg_queue_at ?s ?q" "of_nat req"] room unfolding t' submitted_req(3) q by (simp_all add: has_room_def)
  have path: "rq_path (f (sg_req_at s1 req)) = empty_path (sg_req_at ?s req)"
    using f fs(7) by (simp add: fills_def taken_def)
  have "path_ports (tl_seg t') req = [?src]"
    using append_head_list(2) [of "empty_path (sg_req_at ?s req)" "ucast ?src"] empty_path_ok [OF mp]
    by (simp add: path_ports_def t' submitted_req(1) path has_room_def port_word)
  moreover have "target_of t' req = target_of (t\<lparr>tl_seg := s1\<rparr>) req"
    using f by (simp add: target_of_def xseg_get_target_def t' submitted_req fills_def)
  moreover have "rq_data (sg_req_at s1 req) + unat sz \<le> rq_target (sg_req_at s1 req)"
    using l by (simp add: req_layout_def Let_def)
  moreover have "rq_src_portno (sg_req_at s1 req) = ?src" using fs(8) by (simp add: taken_def)
  ultimately show "delivered req target sz t t'"
    using q1(1) m l f by (simp add: delivered_def Let_def req_of_def t' submitted_req(1) fills_def)
  show "accepted req t t'" unfolding accepted_def
  proof (intro impI allI)
    fix cl flags assume "q_list (sg_queue_at ?s ?q) = []"
    then have o: "oldest (sg_queue_at (tl_seg t') ?q) (of_nat req)" using q1 unfolding oldest_def by (metis append_Nil)
    have "xseg_get_port (tl_seg t') ?dst = xseg_get_port ?s ?dst" "sg_port_at (tl_seg t') = sg_port_at ?s"
      using fs by (simp_all add: t' submitted_req)
    with accept_eq [where port = "xseg_get_port ?s ?dst" and q = ?q, OF _ p(1) _ _ o r, of ?dst cl flags] p(2)
    show "\<exists>s. xseg_accept cl ?dst flags (tl_seg t') = Some (req, s)" by (simp add: server_q_def)
  qed
qed

text \<open>
  C3. The commands that send a name to be looked up, read, opened, closed, acquired or released, in a tool
  whose port has a request to spare. Either the request is delivered with the operation, offset, size and
  flags of the command and the name in its buffer, a server with an empty queue accepts it, and all that is left
  to do is to signal that server; or there was no memory for it, the command returns \<^verbatim>\<open>-1\<close> and the
  request is in the cache of the port again, as if nothing had happened to the queues and ports.
\<close>

theorem client_request_delivered:
  assumes c: "can_send (tl_srcport t) (tl_dstport t) req (tl_seg t)" and rdy: "heap_ready (tl_seg t) st cs F"
    and cls: "in_classes (sg_heap (tl_seg t)) (length target + unat (fst (snd (snd (client_fields cmd)))))"
    and len: "length target < 2 ^ 32"
  shows "(\<exists>t'. client e cmd target t = do { (_, t) \<leftarrow> tool_signal e (tl_dstport t) t'; Some (0, t) } \<and>
       delivered req target (fst (snd (snd (client_fields cmd)))) t t' \<and> accepted req t t' \<and>
       has_fields (client_fields cmd) (req_of t' req)) \<or>
     (\<exists>s'. client e cmd target t = Some (-1, t\<lparr>tl_seg := s'\<rparr>) \<and> sg_port_at s' = sg_port_at (tl_seg t) \<and>
       (\<forall>q. q_list (sg_queue_at s' q) = q_list (sg_queue_at (tl_seg t) q)))"
proof -
  let ?sz = "fst (snd (snd (client_fields cmd)))"
  have cls': "in_classes (sg_heap (tl_seg t)) (unat (strlen target) + unat ?sz)" using cls len by (simp add: strlen_unat)
  show ?thesis
  proof (rule issue_cases [OF c rdy cls' client_fills(1), of "client_setup cmd" cmd e])
    fix s1 cs' F'
    define t' where "t' = (client_setup cmd req (put_target req target (t\<lparr>tl_seg := s1\<rparr>)))\<lparr>tl_seg :=
      submitted (tl_srcport t) (tl_dstport t) req (client_fill cmd) (tl_seg t) s1\<rparr>"
    assume i: "issue e target ?sz (client_setup cmd) t = do { (_, t) \<leftarrow> tool_signal e (tl_dstport t)
          ((client_setup cmd req (put_target req target (t\<lparr>tl_seg := s1\<rparr>)))\<lparr>tl_seg :=
             submitted (tl_srcport t) (tl_dstport t) req (client_fill cmd) (tl_seg t) s1\<rparr>); Some (0, t) }"
      and fr: "same_but_heap req (got (tl_srcport t) (tl_dstport t) req (tl_seg t)) s1" and l: "req_layout s1 req cs' F'"
      "rq_datalen (sg_req_at s1 req) = ?sz" "rq_targetlen (sg_req_at s1 req) = strlen target"
    have m: "read_mem (target_of (t\<lparr>tl_seg := s1\<rparr>) req) (length target) (tl_mem t') = target"
      using len by (simp add: t'_def client_setup_state put_target_def poke_def strlen_unat [unfolded strlen_def] strn_all read_write)
    have "rq_flags (sg_req_at s1 req) = 0"
      by (subst fr [unfolded same_but_heap_def Let_def]) (simp add: taken_def)
    then have "has_fields (client_fields cmd) (req_of t' req)"
      using client_fills(2) by (simp add: req_of_def t'_def submitted_req has_fields_def)
    moreover have "delivered req target ?sz t t'" "accepted req t t'"
      by (rule delivery [OF c fr l client_fills(1) _ m], simp add: t'_def)+
    ultimately show ?thesis using i unfolding t'_def client_issue by blast
  next
    fix s2
    assume "issue e target ?sz (client_setup cmd) t = Some (-1, t\<lparr>tl_seg := s2\<rparr>)"
      "q_list (sg_queue_at s2 (cache_q (tl_srcport t) (tl_seg t))) = q_list (sg_queue_at (tl_seg t) (cache_q (tl_srcport t) (tl_seg t)))"
      "\<And>x. x \<noteq> cache_q (tl_srcport t) (tl_seg t) \<Longrightarrow> sg_queue_at s2 x = sg_queue_at (tl_seg t) x" "sg_port_at s2 = sg_port_at (tl_seg t)"
    then show ?thesis unfolding client_issue by (metis (no_types))
  qed (simp add: client_setup_state)
qed

section \<open>Commands with data\<close>

text \<open>Data that fit are written apart from the name, so that the server finds both.\<close>

definition with_data :: "nat \<Rightarrow> string \<Rightarrow> u64 \<Rightarrow> string \<Rightarrow> 'w tool \<Rightarrow> 'w tool \<Rightarrow> bool" where
  "with_data req target sz d t t' \<longleftrightarrow>
     delivered req target sz t t' \<and> accepted req t t' \<and> read_mem (data_at t' req) (length d) (tl_mem t') = d"

definition data_setup :: "(xseg_request \<Rightarrow> xseg_request) \<Rightarrow> (nat \<Rightarrow> 'w tool \<Rightarrow> 'w tool) \<Rightarrow> nat \<Rightarrow> 'w tool \<Rightarrow> 'w tool" where
  "data_setup f w q t = set_req q f (w (data_at t q) t)"

text \<open>\<open>w\<close> writes \<open>d\<close> at the address it is given and nothing else.\<close>

definition writes :: "(nat \<Rightarrow> 'w tool \<Rightarrow> 'w tool) \<Rightarrow> string \<Rightarrow> bool" where
  "writes w d \<longleftrightarrow> (\<forall>p t. w p t = poke p d t)"

lemma data_delivered:
  assumes c: "can_send (tl_srcport t) (tl_dstport t) req (tl_seg t)" and rdy: "heap_ready (tl_seg t) st cs F"
    and cls: "in_classes (sg_heap (tl_seg t)) (length target + unat sz)" and len: "length target < 2 ^ 32" "length d \<le> unat sz"
    and w: "writes w d" and f: "fills f" and v: "\<And>r. rq_flags r = 0 \<Longrightarrow> has_fields v (f r)"
  shows "(\<exists>t'. issue e target sz (data_setup f w) t = do { (_, t) \<leftarrow> tool_signal e (tl_dstport t) t'; Some (0, t) } \<and>
       with_data req target sz d t t' \<and> has_fields v (req_of t' req)) \<or>
     (\<exists>s'. issue e target sz (data_setup f w) t = Some (-1, t\<lparr>tl_seg := s'\<rparr>) \<and> sg_port_at s' = sg_port_at (tl_seg t) \<and>
       (\<forall>q. q_list (sg_queue_at s' q) = q_list (sg_queue_at (tl_seg t) q)))"
proof -
  have cls': "in_classes (sg_heap (tl_seg t)) (unat (strlen target) + unat sz)" using cls len by (simp add: strlen_unat)
  have st: "tl_seg (data_setup f w req u) = upd_req req f (tl_seg u)"
    "tl_mem (data_setup f w req u) = write_mem (data_at u req) d (tl_mem u)" for u
    using w by (simp_all add: data_setup_def writes_def set_req_def poke_def)
  show ?thesis
  proof (rule issue_cases [OF c rdy cls' f, of "data_setup f w" e])
    fix s1 cs' F'
    define u where "u = put_target req target (t\<lparr>tl_seg := s1\<rparr>)"
    define t' where "t' = (data_setup f w req u)\<lparr>tl_seg := submitted (tl_srcport t) (tl_dstport t) req f (tl_seg t) s1\<rparr>"
    assume i: "issue e target sz (data_setup f w) t = do { (_, t) \<leftarrow> tool_signal e (tl_dstport t)
          ((data_setup f w req (put_target req target (t\<lparr>tl_seg := s1\<rparr>)))\<lparr>tl_seg :=
             submitted (tl_srcport t) (tl_dstport t) req f (tl_seg t) s1\<rparr>); Some (0, t) }"
      and fr: "same_but_heap req (got (tl_srcport t) (tl_dstport t) req (tl_seg t)) s1" and l: "req_layout s1 req cs' F'"
      "rq_datalen (sg_req_at s1 req) = sz" "rq_targetlen (sg_req_at s1 req) = strlen target"
    let ?p = "target_of (t\<lparr>tl_seg := s1\<rparr>) req" and ?d = "data_at u req"
    have mem: "tl_mem t' = write_mem ?d d (write_mem ?p target (tl_mem t))"
      using len(1) by (simp add: t'_def st u_def put_target_def poke_def data_at_def strlen_unat [unfolded strlen_def] strn_all)
    have apart: "?d + length d \<le> ?p"
      using l(1,2) len(2) by (simp add: u_def data_at_def target_of_def xseg_get_data_def xseg_get_target_def req_layout_def Let_def)
    have m: "read_mem ?p (length target) (tl_mem t') = target"
      unfolding mem by (subst read_write_apart) (use apart in \<open>simp_all add: read_write\<close>)
    have "data_at t' req = ?d"
      using f by (simp add: t'_def u_def data_at_def xseg_get_data_def submitted_req fills_def)
    then have dd: "read_mem (data_at t' req) (length d) (tl_mem t') = d" unfolding mem by (simp add: read_write)
    have "rq_flags (sg_req_at s1 req) = 0"
      by (subst fr [unfolded same_but_heap_def Let_def]) (simp add: taken_def)
    then have "has_fields v (req_of t' req)"
      using v by (simp add: req_of_def t'_def submitted_req has_fields_def)
    moreover have "delivered req target sz t t'" "accepted req t t'"
      by (rule delivery [OF c fr l f _ m], simp add: t'_def)+
    ultimately show ?thesis using i dd unfolding t'_def u_def with_data_def by blast
  next
    fix s2
    assume "issue e target sz (data_setup f w) t = Some (-1, t\<lparr>tl_seg := s2\<rparr>)"
      "q_list (sg_queue_at s2 (cache_q (tl_srcport t) (tl_seg t))) = q_list (sg_queue_at (tl_seg t) (cache_q (tl_srcport t) (tl_seg t)))"
      "\<And>x. x \<noteq> cache_q (tl_srcport t) (tl_seg t) \<Longrightarrow> sg_queue_at s2 x = sg_queue_at (tl_seg t) x" "sg_port_at s2 = sg_port_at (tl_seg t)"
    then show ?thesis by (metis (no_types))
  qed (simp add: st)
qed

lemma write_issue:
  assumes "inputbuf (te_mok e) (tl_alloc_size t) (tl_stdin t) = (Some d, asz, g)" and "(of_nat (length d) :: u64) \<noteq> 0"
  shows "cmd_write e target offset t = issue e target (of_nat (length d))
     (data_setup (\<lambda>r. r\<lparr>rq_offset := offset, rq_size := of_nat (length d), rq_op := X_WRITE\<rparr>) (\<lambda>p. poke p d))
     (t\<lparr>tl_alloc_size := asz, tl_stdin := g\<rparr>)"
  using assms by (simp add: cmd_write_def issue_def data_setup_def Let_def cong: if_cong)


section \<open>Examples\<close>

definition demo_client :: "nat tool" where
  "demo_client = demo_tool\<lparr>tl_seg := demo_cached, tl_stdin := \<lparr>st_rest = replicate 80 CHR ''d'', st_eof = False\<rparr>\<rparr>"

lemma demo_can_send: "can_send 0 2 5000 demo_cached" "heap_ready demo_cached (hp_cur demo_xheap) [] (\<lambda>_. [])"
  "in_classes (sg_heap demo_cached) (20 + 80)"
proof -
  have d: "xseg_get_port demo_seg 2 = 3000" by (simp add: demo_seg_def xseg_get_port_def validate_port_def)
  have f: "sg_heap demo_cached = demo_xheap" "sg_base demo_cached = 4096" "sg_path_next demo_cached ! 0 = NoPort"
    "xseg_get_port demo_cached 2 = 3000" "sg_port_at demo_cached 3000 = demo_port 3000"
    by (simp_all add: demo_cached_def enq_def d) (simp_all add: demo_seg_def upd_req_def set_queue_def)
  have "q_mem demo_path = replicate 32 0" by (simp add: demo_path_def xq_init_empty_def Let_def)
  then have m: "q_mem (rq_path (sg_req_at demo_cached 5000)) = replicate 32 0"
    by (simp add: demo_cached_def demo_seg_simps)
  have s: "server_q 2 demo_cached = 3200" by (simp add: server_q_def f demo_port_def)
  have "sg_queue_at demo_cached 3200 = demo_empty" by (simp add: demo_cached_def enq_def) (simp add: demo_seg_def)
  then have "has_room (sg_queue_at demo_cached 3200)" using demo_empty_room by (auto simp: empty_q_def has_room_def q_len_def)
  then show "can_send 0 2 5000 demo_cached"
    using demo_cached_ok(1,2) s f m by (simp add: can_send_def Let_def demo_port_def CAN_ACCEPT_def CAN_RECEIVE_def)
  show "heap_ready demo_cached (hp_cur demo_xheap) [] (\<lambda>_. [])" using demo_heap_ready f by (simp add: heap_ready_def demo_seg_def)
  show "in_classes (sg_heap demo_cached) (20 + 80)" using demo_class(1) f by simp
qed

lemma demo_client_state: "tl_seg demo_client = demo_cached" "tl_srcport demo_client = 0" "tl_dstport demo_client = 2"
  by (simp_all add: demo_client_def demo_tool_def)

theorem client_request_delivered_witness:
  "(\<exists>t'. cmd_read demo_env (replicate 20 CHR ''x'') 7 80 demo_client = do { (_, t) \<leftarrow> tool_signal demo_env 2 t'; Some (0, t) } \<and>
     delivered 5000 (replicate 20 CHR ''x'') 80 demo_client t' \<and> has_fields (X_READ, 7, 80, 0) (req_of t' 5000)) \<or>
   (\<exists>s'. cmd_read demo_env (replicate 20 CHR ''x'') 7 80 demo_client = Some (-1, demo_client\<lparr>tl_seg := s'\<rparr>))"
proof -
  have c: "can_send (tl_srcport demo_client) (tl_dstport demo_client) 5000 (tl_seg demo_client)"
    "heap_ready (tl_seg demo_client) (hp_cur demo_xheap) [] (\<lambda>_. [])"
    using demo_can_send by (simp_all add: demo_client_state)
  have "in_classes (sg_heap (tl_seg demo_client)) (length (replicate 20 CHR ''x'') + unat (fst (snd (snd (client_fields (C_read 7 80))))))"
    using demo_can_send(3) by (simp add: demo_client_state)
  moreover have "length (replicate 20 CHR ''x'') < 2 ^ 32" by simp
  ultimately show ?thesis
    using client_request_delivered [OF c, of "replicate 20 CHR ''x''" "C_read 7 80" demo_env]
    unfolding client.simps client_fields.simps fst_conv snd_conv demo_client_state(3) by blast
qed


end
