(* ===== verification/Xcalm.thy ===== *)
theory Xcalm
  imports Xtool Xdrivers Xproto
begin

text \<open>
  What waiting and waking leave alone: the operations that a peer type has for it change its descriptors and
  the state of the process, and nothing else of the segment. The three peer types fulfil this contract; on the
  side of the tool it says that its calls do not disturb the requests.
\<close>

section \<open>Descriptors and processes\<close>

definition stirred :: "xseg \<Rightarrow> xseg \<Rightarrow> bool" where
  "stirred s s' \<longleftrightarrow> (\<exists>v a b c p. s' = s\<lparr>pv_peer_types := v, sg_posix_sd := a, sg_pthread_sd := b, sg_posixfd_sd := c, pv_proc := p\<rparr>)"

lemma stirredI [intro]:
  "stirred s (s\<lparr>pv_peer_types := v, sg_posix_sd := a, sg_pthread_sd := b, sg_posixfd_sd := c, pv_proc := p\<rparr>)"
  unfolding stirred_def by blast

lemma stirred_refl [simp, intro]: "stirred s s"
proof -
  have "s = s\<lparr>pv_peer_types := pv_peer_types s, sg_posix_sd := sg_posix_sd s, sg_pthread_sd := sg_pthread_sd s,
    sg_posixfd_sd := sg_posixfd_sd s, pv_proc := pv_proc s\<rparr>" by simp
  then show ?thesis unfolding stirred_def by blast
qed

lemma stirred_trans [trans]:
  assumes "stirred s t" and "stirred t u"
  shows "stirred s u"
proof -
  from assms obtain v a b c p v' a' b' c' p' where
    "t = s\<lparr>pv_peer_types := v, sg_posix_sd := a, sg_pthread_sd := b, sg_posixfd_sd := c, pv_proc := p\<rparr>"
    "u = t\<lparr>pv_peer_types := v', sg_posix_sd := a', sg_pthread_sd := b', sg_posixfd_sd := c', pv_proc := p'\<rparr>"
    unfolding stirred_def by blast
  then have "u = s\<lparr>pv_peer_types := v', sg_posix_sd := a', sg_pthread_sd := b', sg_posixfd_sd := c', pv_proc := p'\<rparr>" by simp
  then show ?thesis unfolding stirred_def by blast
qed

text \<open>Everything the requests depend on is the same.\<close>

lemma stirred_same:
  assumes "stirred s s'"
  shows "sg_queue_at s' = sg_queue_at s" "sg_port_at s' = sg_port_at s" "sg_req_at s' = sg_req_at s" "sg_heap s' = sg_heap s"
    "sg_base s' = sg_base s" "sg_segment s' = sg_segment s" "sg_ports s' = sg_ports s" "sg_config s' = sg_config s"
    "sg_path_next s' = sg_path_next s" "xseg_get_port s' = xseg_get_port s" "validate_port s' = validate_port s"
    "xseg_get_data s' = xseg_get_data s" "xseg_get_target s' = xseg_get_target s" "sg_segment_lock s' = sg_segment_lock s"
  using assms by (auto simp: stirred_def fun_eq_iff xseg_get_port_def validate_port_def xseg_get_data_def xseg_get_target_def)

text \<open>Changes of requests and queues commute with it.\<close>

lemma stirred_upd:
  assumes "stirred s s'"
  shows "stirred (upd_req r f s) (upd_req r f s')" "stirred (set_queue q x s) (set_queue q x s')"
    "stirred (deq q s) (deq q s')" "stirred (enq q r s) (enq q r s')"
    "stirred (s\<lparr>sg_heap := h\<rparr>) (s'\<lparr>sg_heap := h\<rparr>)"
proof -
  obtain v a b c p where e: "s' = s\<lparr>pv_peer_types := v, sg_posix_sd := a, sg_pthread_sd := b, sg_posixfd_sd := c, pv_proc := p\<rparr>"
    using assms unfolding stirred_def by blast
  have *: "stirred u w" if "w = u\<lparr>pv_peer_types := v, sg_posix_sd := a, sg_pthread_sd := b, sg_posixfd_sd := c, pv_proc := p\<rparr>" for u w
    using that unfolding stirred_def by blast
  show "stirred (upd_req r f s) (upd_req r f s')" "stirred (set_queue q x s) (set_queue q x s')"
    "stirred (deq q s) (deq q s')" "stirred (enq q r s) (enq q r s')"
    "stirred (s\<lparr>sg_heap := h\<rparr>) (s'\<lparr>sg_heap := h\<rparr>)"
    by (rule *, simp add: e upd_req_def set_queue_def deq_def enq_def)+
qed

lemma stirred_parts:
  "stirred s (s\<lparr>pv_proc := p\<rparr>)" "stirred s (s\<lparr>sg_posix_sd := a\<rparr>)" "stirred s (s\<lparr>sg_pthread_sd := b\<rparr>)"
  "stirred s (s\<lparr>sg_posixfd_sd := c\<rparr>)" "stirred s (s\<lparr>pv_peer_types := v\<rparr>)"
proof -
  have *: "stirred s u" if "u = s\<lparr>pv_peer_types := pv_peer_types u, sg_posix_sd := sg_posix_sd u, sg_pthread_sd := sg_pthread_sd u,
    sg_posixfd_sd := sg_posixfd_sd u, pv_proc := pv_proc u\<rparr>" for u
    using that unfolding stirred_def by blast
  show "stirred s (s\<lparr>pv_proc := p\<rparr>)" "stirred s (s\<lparr>sg_posix_sd := a\<rparr>)" "stirred s (s\<lparr>sg_pthread_sd := b\<rparr>)"
    "stirred s (s\<lparr>sg_posixfd_sd := c\<rparr>)" "stirred s (s\<lparr>pv_peer_types := v\<rparr>)" by (rule *, simp)+
qed

section \<open>The contract\<close>

locale waking =
  fixes ops :: peer_ops
  assumes prepare_calm: "po_prepare_wait ops n s = Some (r, s') \<Longrightarrow> stirred s s'"
    and cancel_calm: "po_cancel_wait ops n s = Some (r, s') \<Longrightarrow> stirred s s'"
    and wait_calm: "po_wait_signal ops d usec s = Some (r, s') \<Longrightarrow> stirred s s'"
    and signal_calm: "po_signal ops n s = Some (r, s') \<Longrightarrow> stirred s s'"
    and init_calm: "po_local_signal_init ops n s = Some (r, s') \<Longrightarrow> stirred s s'"

text \<open>Peer types whose operations also return, whatever the state is.\<close>

locale waking_returns = waking +
  assumes prepare_returns: "po_prepare_wait ops n s \<noteq> None"
    and cancel_returns: "po_cancel_wait ops n s \<noteq> None"
    and wait_returns: "po_wait_signal ops d usec s \<noteq> None"
    and signal_returns: "po_signal ops n s \<noteq> None"
    and init_returns: "po_local_signal_init ops n s \<noteq> None"
begin

lemma calls:
  "\<exists>r s'. po_prepare_wait ops n s = Some (r, s') \<and> stirred s s'" "\<exists>r s'. po_cancel_wait ops n s = Some (r, s') \<and> stirred s s'"
  "\<exists>r s'. po_wait_signal ops d usec s = Some (r, s') \<and> stirred s s'" "\<exists>r s'. po_signal ops n s = Some (r, s') \<and> stirred s s'"
  "\<exists>r s'. po_local_signal_init ops n s = Some (r, s') \<and> stirred s s'"
  using prepare_returns cancel_returns wait_returns signal_returns init_returns
    prepare_calm cancel_calm wait_calm signal_calm init_calm by (metis option.exhaust prod.exhaust)+

end

lemma stirred_sd: "stirred s (set_waitcue d w s)" "stirred s (upd_sd d f s)"
  by (simp_all add: set_waitcue_def upd_sd_def stirred_parts)

lemma stirred_proc: "on_proc f s = (r, s') \<Longrightarrow> stirred s s'"
  by (auto simp: on_proc_def Let_def stirred_parts split: prod.splits)

lemma stirred_snd: "stirred s (snd (on_proc f s))"
  by (rule stirred_proc [of f s "fst (on_proc f s)"]) simp

interpretation posix_waking: waking_returns "posix_ops env junk cl" for env junk cl
proof unfold_locales
  fix n s r s' d usec
  {
    assume "po_prepare_wait (posix_ops env junk cl) n s = Some (r, s')"
    then show "stirred s s'" by (auto simp: posix_ops_def posix_prepare_wait_def stirred_sd split: option.splits)
  next
    assume "po_cancel_wait (posix_ops env junk cl) n s = Some (r, s')"
    then show "stirred s s'" by (auto simp: posix_ops_def posix_cancel_wait_def stirred_sd split: option.splits)
  next
    assume "po_signal (posix_ops env junk cl) n s = Some (r, s')"
    then show "stirred s s'"
      by (auto simp: posix_ops_def posix_signal_def Let_def intro: stirred_proc split: option.splits if_splits)
  }
qed (auto simp: posix_ops_def intro: stirred_proc)

text \<open>Threads may find no slot, and the pipe of posixfd may never be empty: these two types need not return.\<close>

lemma set_pid_stirred: "set_pid d i pid s = Some s' \<Longrightarrow> stirred s s'"
  by (auto simp: set_pid_def Let_def stirred_parts split: if_splits)

interpretation pthread_waking: waking "pthread_ops env junk cl" for env junk cl
proof unfold_locales
  fix n s r s' d usec
  {
    assume "po_prepare_wait (pthread_ops env junk cl) n s = Some (r, s')"
    then show "stirred s s'"
      by (auto simp: pthread_ops_def pthread_prepare_wait_def Let_def intro: set_pid_stirred split: option.splits if_splits bind_splits)
  next
    assume "po_cancel_wait (pthread_ops env junk cl) n s = Some (r, s')"
    then show "stirred s s'"
      by (auto simp: pthread_ops_def pthread_cancel_wait_def Let_def intro: set_pid_stirred split: option.splits if_splits bind_splits)
  next
    assume "po_signal (pthread_ops env junk cl) n s = Some (r, s')"
    then show "stirred s s'"
      by (auto simp: pthread_ops_def pthread_signal_def intro: stirred_proc split: option.splits)
  }
qed (auto simp: pthread_ops_def intro: stirred_proc)

lemma drain_stirred: "drain_sd env d s = Some (r, s') \<Longrightarrow> stirred s s'"
  by (auto simp: drain_sd_def stirred_parts split: if_splits bind_splits)

interpretation posixfd_waking: waking "posixfd_ops env junk cl" for env junk cl
proof unfold_locales
  fix n s r s' d usec
  {
    assume "po_prepare_wait (posixfd_ops env junk cl) n s = Some (r, s')"
    then show "stirred s s'" using stirred_trans [OF stirred_sd(2) drain_stirred]
      by (fastforce simp: posixfd_ops_def posixfd_prepare_wait_def split: option.splits)
  next
    assume "po_cancel_wait (posixfd_ops env junk cl) n s = Some (r, s')"
    then show "stirred s s'" using stirred_trans [OF stirred_sd(2) drain_stirred]
      by (fastforce simp: posixfd_ops_def posixfd_cancel_wait_def split: option.splits)
  next
    assume "po_wait_signal (posixfd_ops env junk cl) d usec s = Some (r, s')"
    then show "stirred s s'" using stirred_trans [OF stirred_proc drain_stirred]
      by (fastforce simp: posixfd_ops_def posixfd_wait_signal_def Let_def intro: stirred_proc split: prod.splits if_splits)
  next
    assume "po_signal (posixfd_ops env junk cl) n s = Some (r, s')"
    then show "stirred s s'"
      by (auto simp: posixfd_ops_def posixfd_signal_def Let_def stirred_parts split: option.splits prod.splits if_splits bind_splits)
  next
    assume "po_local_signal_init (posixfd_ops env junk cl) n s = Some (r, s')"
    then show "stirred s s'"
      by (auto simp: posixfd_ops_def posixfd_local_signal_init_def Let_def dest!: stirred_proc split: option.splits prod.splits if_splits)
        (blast intro: stirred_trans stirred_sd stirred_snd)+
  }
qed

section \<open>The calls of the tool\<close>

definition drivers_return :: "drivers \<Rightarrow> bool" where
  "drivers_return drv \<longleftrightarrow> (\<forall>d. waking_returns (drv d))"

text \<open>Only the peer side of the segment, the process and the local signal of the tool differ.\<close>

definition calm :: "'w tool \<Rightarrow> 'w tool \<Rightarrow> bool" where
  "calm t t' \<longleftrightarrow> stirred (tl_seg t) (tl_seg t') \<and>
     t' = t\<lparr>tl_seg := tl_seg t', tl_process := tl_process t', tl_sport := tl_sport t', tl_sd := tl_sd t'\<rparr>"

lemma calm_refl [simp]: "calm t t"
  by (simp add: calm_def)

lemma calm_trans [trans]:
  assumes "calm t u" and "calm u w"
  shows "calm t w"
proof -
  have "w = u\<lparr>tl_seg := tl_seg w, tl_process := tl_process w, tl_sport := tl_sport w, tl_sd := tl_sd w\<rparr>"
    "u = t\<lparr>tl_seg := tl_seg u, tl_process := tl_process u, tl_sport := tl_sport u, tl_sd := tl_sd u\<rparr>"
    using assms unfolding calm_def by blast+
  then have "w = t\<lparr>tl_seg := tl_seg w, tl_process := tl_process w, tl_sport := tl_sport w, tl_sd := tl_sd w\<rparr>"
    by (cases t, cases u, cases w) simp
  then show ?thesis using assms stirred_trans unfolding calm_def by blast
qed

lemma calm_same:
  assumes "calm t t'"
  shows "stirred (tl_seg t) (tl_seg t')" "tl_srcport t' = tl_srcport t" "tl_dstport t' = tl_dstport t" "tl_mem t' = tl_mem t"
    "tl_out t' = tl_out t" "tl_stdin t' = tl_stdin t" "tl_alloc_size t' = tl_alloc_size t" "tl_joined t' = tl_joined t"
    "tl_cfg t' = tl_cfg t"
proof -
  have e: "t' = t\<lparr>tl_seg := tl_seg t', tl_process := tl_process t', tl_sport := tl_sport t', tl_sd := tl_sd t'\<rparr>"
    using assms unfolding calm_def by blast
  show "tl_srcport t' = tl_srcport t" "tl_dstport t' = tl_dstport t" "tl_mem t' = tl_mem t"
    "tl_out t' = tl_out t" "tl_stdin t' = tl_stdin t" "tl_alloc_size t' = tl_alloc_size t" "tl_joined t' = tl_joined t"
    "tl_cfg t' = tl_cfg t" by (subst e, simp)+
qed (use assms in \<open>simp add: calm_def\<close>)

lemma calm_seg:
  "stirred (tl_seg t) s \<Longrightarrow> calm t (t\<lparr>tl_seg := s\<rparr>)"
  "stirred (tl_seg t) s \<Longrightarrow> calm t (t\<lparr>tl_seg := s, tl_process := p\<rparr>)"
  by (simp_all add: calm_def)

lemma port_driver_stirred: "Xpeer.port_driver nm load n (s, d) = (ty, s', d') \<Longrightarrow> stirred s s'"
  by (auto simp: Xpeer.port_driver_def get_peer_type_def Let_def stirred_parts split: if_splits prod.splits)

lemma tool_calls:
  assumes "drivers_return (te_drv e)"
  shows "\<exists>r t'. tool_prepare e t = Some (r, t') \<and> calm t t'" "\<exists>r t'. tool_cancel e t = Some (r, t') \<and> calm t t'"
    "\<exists>r t'. tool_wait e usec t = Some (r, t') \<and> calm t t'" "\<exists>r t'. tool_signal e n t = Some (r, t') \<and> calm t t'"
proof -
  note c = waking_returns.calls [OF assms [unfolded drivers_return_def, rule_format]]
  let ?d = "pv_peer_type (tl_seg t)"
  show "\<exists>r t'. tool_prepare e t = Some (r, t') \<and> calm t t'"
    using c(1) [of ?d "tl_srcport t" "tl_seg t"] by (auto simp: tool_prepare_def on_seg_def xseg_prepare_wait_def intro: calm_seg)
  show "\<exists>r t'. tool_cancel e t = Some (r, t') \<and> calm t t'"
    using c(2) [of ?d "tl_srcport t" "tl_seg t"] by (auto simp: tool_cancel_def on_seg_def xseg_cancel_wait_def intro: calm_seg)
  show "\<exists>r t'. tool_wait e usec t = Some (r, t') \<and> calm t t'"
    using c(3) [of ?d "tl_sd t" usec "tl_seg t"] by (auto simp: tool_wait_def on_seg_def xseg_wait_signal_def intro: calm_seg)
  obtain ty s1 d1 where p: "Xpeer.port_driver (te_nm e) (te_load e) n (tl_seg t, pr_domain (tl_process t)) = (ty, s1, d1)"
    by (metis prod.exhaust)
  note st = port_driver_stirred [OF p]
  obtain r s2 where "po_signal (te_drv e ty) n s1 = Some (r, s2)" "stirred s1 s2" using c(4) by blast
  with p st stirred_trans [OF st] show "\<exists>r t'. tool_signal e n t = Some (r, t') \<and> calm t t'"
    by (cases "ty = 0") (auto simp: tool_signal_def on_dom_def xseg_signal_def intro!: calm_seg)
qed

lemma init_signal_calm:
  assumes "drivers_return (te_drv e)" and "xseg_get_port (tl_seg t) (tl_srcport t) \<noteq> 0"
  shows "\<exists>t'. init_local_signal e t = Some t' \<and> calm t t'"
proof (cases "tl_joined t \<and> tl_sport t \<noteq> tl_srcport t")
  case True
  note c = waking_returns.calls [OF assms(1) [unfolded drivers_return_def, rule_format]]
  let ?n = "tl_srcport t"
  obtain ty s1 d1 where p: "Xpeer.port_driver (te_nm e) (te_load e) ?n (tl_seg t, pr_domain (tl_process t)) = (ty, s1, d1)"
    by (metis prod.exhaust)
  obtain r s2 where s2: "po_local_signal_init (te_drv e ty) ?n s1 = Some (r, s2)" "stirred s1 s2" using c(5) by blast
  have "\<exists>r s'. xseg_init_local_signal (te_nm e) (te_load e) (te_drv e) ?n (tl_seg t, pr_domain (tl_process t)) = Some (r, s', d1) \<and>
    stirred (tl_seg t) s'"
    using p s2 port_driver_stirred [OF p] stirred_trans by (cases "ty = 0") (auto simp: xseg_init_local_signal_def)
  then obtain r s' where i: "xseg_init_local_signal (te_nm e) (te_load e) (te_drv e) ?n (tl_seg t, pr_domain (tl_process t)) =
    Some (r, s', d1)" "stirred (tl_seg t) s'" by blast
  have "xseg_get_port s' ?n \<noteq> 0" using assms(2) stirred_same(10) [OF i(2)] by simp
  with i True show ?thesis by (auto simp: init_local_signal_def on_dom_def Let_def calm_def)
qed (auto simp: init_local_signal_def)

lemma calm_upd:
  assumes "calm t u" and "stirred s s'"
  shows "calm (t\<lparr>tl_seg := s, tl_mem := m\<rparr>) (u\<lparr>tl_seg := s', tl_mem := m\<rparr>)"
    and "calm (t\<lparr>tl_seg := s, tl_out := x\<rparr>) (u\<lparr>tl_seg := s', tl_out := x\<rparr>)"
    and "calm (t\<lparr>tl_seg := s\<rparr>) (u\<lparr>tl_seg := s'\<rparr>)"
proof -
  have e: "u = t\<lparr>tl_seg := tl_seg u, tl_process := tl_process u, tl_sport := tl_sport u, tl_sd := tl_sd u\<rparr>"
    using assms(1) by (simp add: calm_def)
  show "calm (t\<lparr>tl_seg := s, tl_mem := m\<rparr>) (u\<lparr>tl_seg := s', tl_mem := m\<rparr>)"
    using assms(2) by (subst e) (simp add: calm_def)
  show "calm (t\<lparr>tl_seg := s, tl_out := x\<rparr>) (u\<lparr>tl_seg := s', tl_out := x\<rparr>)"
    using assms(2) by (subst e) (simp add: calm_def)
  show "calm (t\<lparr>tl_seg := s\<rparr>) (u\<lparr>tl_seg := s'\<rparr>)"
    using assms(2) by (subst e) (simp add: calm_def)
qed

end
