(* ===== verification/Xanswer.thy ===== *)
theory Xanswer
  imports Xcalm Xclient
begin

text \<open>
  What becomes of a request: a server that runs \<^verbatim>\<open>complete\<close> or \<^verbatim>\<open>fail\<close> takes it from its queue, serves it and
  responds, and the client that runs \<^verbatim>\<open>wait\<close> shows the answer and puts the request back. The peer types
  are any that fulfil the contract of \<open>Xcalm\<close>.
\<close>

section \<open>Serving one request\<close>

definition reply_q :: "xport \<Rightarrow> xseg \<Rightarrow> nat" where
  "reply_q src s = pt_reply_queue (sg_port_at s (xseg_get_port s src))"

text \<open>A port that accepts requests now, and one that receives responses now.\<close>

definition accepts :: "xport \<Rightarrow> xseg \<Rightarrow> bool" where
  "accepts n s \<longleftrightarrow> xseg_get_port s n \<noteq> 0 \<and> pt_rq_lock (sg_port_at s (xseg_get_port s n)) = free_lock"

definition receives :: "xport \<Rightarrow> xseg \<Rightarrow> bool" where
  "receives n s \<longleftrightarrow> (let p = sg_port_at s (xseg_get_port s n) in
     xseg_get_port s n \<noteq> 0 \<and> pt_pq_lock p = free_lock \<and> pt_flags p AND CAN_RECEIVE \<noteq> 0)"

definition taken_by :: "xport \<Rightarrow> nat \<Rightarrow> xseg \<Rightarrow> xseg" where
  "taken_by n req s = upd_req req (\<lambda>r. r\<lparr>rq_transit_portno := n\<rparr>) (deq (server_q n s) s)"

definition answered :: "xport \<Rightarrow> xport \<Rightarrow> nat \<Rightarrow> (xseg_request \<Rightarrow> xseg_request) \<Rightarrow> xseg \<Rightarrow> xseg" where
  "answered n src req f s = enq (reply_q src s) req (upd_req req f (taken_by n req s))"

text \<open>What \<^verbatim>\<open>cmd_finish\<close> does with a request it has accepted.\<close>

definition treat :: "'w tool_env \<Rightarrow> bool \<Rightarrow> nat \<Rightarrow> 'w tool \<Rightarrow> 'w tool option" where
  "treat e fail req t = (if fail then Some (set_req req (\<lambda>r. r\<lparr>rq_state := rq_state r AND NOT XS_SERVED\<rparr>) t) else serve_request e req t)"

lemma finish_step:
  fixes t :: "'w tool"
  defines "n \<equiv> tl_srcport t" and "s \<equiv> tl_seg t"
  assumes d: "drivers_return (te_drv e)" and nr: "nr \<noteq> 0" and acc: "accepts n s" and r: "req_ptr req"
    and old: "oldest (sg_queue_at s (server_q n s)) (of_nat req)" and path: "oldest (rq_path (sg_req_at s req)) (ucast src)"
    and rec: "receives src s" and room: "has_room (sg_queue_at s (reply_q src s))" and ne: "reply_q src s \<noteq> server_q n s"
    and f: "\<And>r. rq_path (f r) = rq_path r"
    and srv: "\<And>u. stirred (taken_by n req s) (tl_seg u) \<Longrightarrow> tl_mem u = tl_mem t \<Longrightarrow>
      treat e fail req u = Some (u\<lparr>tl_seg := upd_req req f (tl_seg u), tl_mem := m\<rparr>)"
  shows "\<exists>t'. finish_loop e fail nr t = finish_loop e fail (nr - 1) t' \<and> calm (t\<lparr>tl_seg := answered n src req f s, tl_mem := m\<rparr>) t'"
proof -
  let ?q = "server_q n s" and ?rq = "reply_q src s"
  obtain r1 t1 where t1: "tool_prepare e t = Some (r1, t1)" "calm t t1" using tool_calls(1) [OF d] by blast
  note c1 = calm_same [OF t1(2)] stirred_same [OF calm_same(1) [OF t1(2)], folded s_def]
  define t2 where "t2 = t1\<lparr>tl_seg := upd_req req (\<lambda>r. r\<lparr>rq_transit_portno := n\<rparr>) (deq ?q (tl_seg t1))\<rparr>"
  have "xseg_accept (te_cl e) n 0 (tl_seg t1) = Some (req, tl_seg t2)" unfolding t2_def
    using acc old r by (simp, intro accept_eq [OF refl]) (simp_all add: c1 accepts_def server_q_def)
  then have a: "on_seg (xseg_accept (te_cl e) (tl_srcport t1) 0) t1 = Some (req, t2)"
    by (simp add: on_seg_def c1 n_def t2_def)
  have st2: "stirred (taken_by n req s) (tl_seg t2)"
    using stirred_upd(1,3) calm_same(1) [OF t1(2)] by (auto simp: t2_def taken_by_def s_def)
  obtain r3 t3 where t3: "tool_cancel e t2 = Some (r3, t3)" "calm t2 t3" using tool_calls(2) [OF d] by blast
  note c3 = calm_same [OF t3(2)]
  have st3: "stirred (taken_by n req s) (tl_seg t3)" using stirred_trans [OF st2 c3(1)] .
  define t4 where "t4 = t3\<lparr>tl_seg := upd_req req f (tl_seg t3), tl_mem := m\<rparr>"
  have t4: "treat e fail req t3 = Some t4" unfolding t4_def by (rule srv [OF st3]) (simp add: c3 t2_def c1)
  note c4 = stirred_same [OF st3]
  have tk: "sg_port_at (taken_by n req s) = sg_port_at s" "xseg_get_port (taken_by n req s) = xseg_get_port s"
    "sg_queue_at (taken_by n req s) ?rq = sg_queue_at s ?rq" "rq_path (sg_req_at (taken_by n req s) req) = rq_path (sg_req_at s req)"
    using ne by (simp_all add: taken_by_def fun_eq_iff) (simp add: deq_def)
  have t5: "tool_respond e req t4 = Some (src, t4\<lparr>tl_seg := enq ?rq req (tl_seg t4)\<rparr>)"
    using respond_eq [OF r, where s = "tl_seg t4" and dst = src and q = ?rq and port = "xseg_get_port s src"] path rec room
    by (simp add: tool_respond_def on_seg_def t4_def c4 tk tk(3) [unfolded reply_q_def] f receives_def reply_q_def Let_def)
  obtain r6 t6 where t6: "tool_signal e src (t4\<lparr>tl_seg := enq ?rq req (tl_seg t4)\<rparr>) = Some (r6, t6)"
    "calm (t4\<lparr>tl_seg := enq ?rq req (tl_seg t4)\<rparr>) t6" using tool_calls(4) [OF d] by blast
  have step: "finish_loop e fail nr t = finish_loop e fail (nr - 1) t6"
    using nr t1(1) a t3(1) t4 t5 t6(1) req_ptr_word(3) [OF r]
    by (subst finish_loop.simps) (simp add: treat_def)
  have "calm (t\<lparr>tl_seg := answered n src req f s, tl_mem := m\<rparr>) (t4\<lparr>tl_seg := enq ?rq req (tl_seg t4)\<rparr>)"
  proof -
    have "calm (t\<lparr>tl_seg := tl_seg t2\<rparr>) t3"
      using calm_trans [OF calm_upd(3) [OF t1(2) stirred_refl [of "tl_seg t2"]]] t3(2) by (simp add: t2_def)
    moreover have "stirred (answered n src req f s) (enq ?rq req (tl_seg t4))"
      using stirred_upd(4) [OF stirred_upd(1) [OF st3]] by (simp add: answered_def t4_def)
    moreover have "t4\<lparr>tl_seg := X\<rparr> = t3\<lparr>tl_seg := X, tl_mem := m\<rparr>" for X by (cases t3) (simp add: t4_def)
    ultimately show ?thesis using calm_upd(1) [of "t\<lparr>tl_seg := tl_seg t2\<rparr>" t3 "answered n src req f s" _ m] by simp
  qed
  then show ?thesis using step calm_trans t6(2) by blast
qed

section \<open>Serving a queue\<close>

text \<open>
  The port \<open>n\<close> has the requests \<open>rs\<close> in its queue, the oldest first, all sent by \<open>src\<close>, which has room for
  as many responses.
\<close>

definition serving :: "(xseg_request \<Rightarrow> bool) \<Rightarrow> xport \<Rightarrow> xport \<Rightarrow> nat list \<Rightarrow> xseg \<Rightarrow> bool" where
  "serving ok n src rs s \<longleftrightarrow>
     accepts n s \<and> receives src s \<and> reply_q src s \<noteq> server_q n s \<and> distinct rs \<and>
     q_wf (sg_queue_at s (server_q n s)) \<and> q_list (sg_queue_at s (server_q n s)) = rev (map of_nat rs) \<and>
     q_wf (sg_queue_at s (reply_q src s)) \<and> q_len (sg_queue_at s (reply_q src s)) + length rs \<le> q_cap (sg_queue_at s (reply_q src s)) \<and>
     (\<forall>r\<in>set rs. req_ptr r \<and> oldest (rq_path (sg_req_at s r)) (ucast src) \<and> ok (sg_req_at s r))"

lemma serving_stirred: "stirred s s' \<Longrightarrow> serving ok n src rs s' = serving ok n src rs s"
  by (simp add: serving_def accepts_def receives_def reply_q_def server_q_def stirred_same)

lemma answered_same:
  "sg_port_at (answered n src r f s) = sg_port_at s" "xseg_get_port (answered n src r f s) = xseg_get_port s"
  "reply_q src (answered n src r f s) = reply_q src s" "server_q n (answered n src r f s) = server_q n s"
  "r' \<noteq> r \<Longrightarrow> sg_req_at (answered n src r f s) r' = sg_req_at s r'"
  "sg_req_at (answered n src r f s) r = f ((sg_req_at s r)\<lparr>rq_transit_portno := n\<rparr>)"
  by (simp_all add: answered_def taken_by_def reply_q_def server_q_def fun_eq_iff)

lemma answered_queues:
  fixes f :: "xseg_request \<Rightarrow> xseg_request" and r :: nat
  assumes old: "q_wf (sg_queue_at s (server_q n s))" "q_list (sg_queue_at s (server_q n s)) = xs @ [of_nat r]"
    and room: "has_room (sg_queue_at s (reply_q src s))" and ne: "reply_q src s \<noteq> server_q n s"
  defines "s' \<equiv> answered n src r f s"
  shows "q_wf (sg_queue_at s' (server_q n s))" "q_list (sg_queue_at s' (server_q n s)) = xs"
    "q_wf (sg_queue_at s' (reply_q src s))" "q_list (sg_queue_at s' (reply_q src s)) = of_nat r # q_list (sg_queue_at s (reply_q src s))"
    "q_cap (sg_queue_at s' (reply_q src s)) = q_cap (sg_queue_at s (reply_q src s))"
    "q_len (sg_queue_at s' (reply_q src s)) = Suc (q_len (sg_queue_at s (reply_q src s)))"
    "x \<noteq> server_q n s \<Longrightarrow> x \<noteq> reply_q src s \<Longrightarrow> sg_queue_at s' x = sg_queue_at s x"
proof -
  have "oldest (sg_queue_at s (server_q n s)) (of_nat r)" using old by (simp add: oldest_def)
  from oldest_pop [OF this] obtain q' where q': "raw_xq_pop_head (sg_queue_at s (server_q n s)) = (of_nat r, q')" "q_wf q'" "q_list q' = xs"
    using old(2) by auto
  have e: "sg_queue_at s' (server_q n s) = q'" "sg_queue_at s' (reply_q src s) = snd (raw_xq_append_tail (sg_queue_at s (reply_q src s)) (of_nat r))"
    using ne q'(1) by (simp_all add: s'_def answered_def taken_by_def enq_def deq_def)
  note a = append_tail_list [of "sg_queue_at s (reply_q src s)" "of_nat r"] room [unfolded has_room_def]
  show "q_wf (sg_queue_at s' (server_q n s))" "q_list (sg_queue_at s' (server_q n s)) = xs" using q' e(1) by simp_all
  show w: "q_wf (sg_queue_at s' (reply_q src s))" and l: "q_list (sg_queue_at s' (reply_q src s)) = of_nat r # q_list (sg_queue_at s (reply_q src s))"
    and "q_cap (sg_queue_at s' (reply_q src s)) = q_cap (sg_queue_at s (reply_q src s))"
    unfolding e(2) using a by (simp_all add: q_cap_def)
  show "q_len (sg_queue_at s' (reply_q src s)) = Suc (q_len (sg_queue_at s (reply_q src s)))"
    using arg_cong [OF l, of length] by simp
  show "x \<noteq> server_q n s \<Longrightarrow> x \<noteq> reply_q src s \<Longrightarrow> sg_queue_at s' x = sg_queue_at s x"
    by (simp add: s'_def answered_def taken_by_def enq_def deq_def)
qed

lemma serving_step:
  assumes s: "serving ok n src (r # rs) s"
  shows "serving ok n src rs (answered n src r f s)" and "oldest (sg_queue_at s (server_q n s)) (of_nat r)"
    and "has_room (sg_queue_at s (reply_q src s))"
proof -
  from s have q: "q_wf (sg_queue_at s (server_q n s))" "q_list (sg_queue_at s (server_q n s)) = rev (map of_nat rs) @ [of_nat r]"
    and room: "has_room (sg_queue_at s (reply_q src s))" and ne: "reply_q src s \<noteq> server_q n s"
    by (simp_all add: serving_def has_room_def)
  note aq = answered_queues [OF q room ne]
  have "oldest (rq_path (sg_req_at (answered n src r f s) x)) (ucast src) \<and> ok (sg_req_at (answered n src r f s) x)" if "x \<in> set rs" for x
  proof -
    from s that have "x \<noteq> r" by (auto simp: serving_def)
    with s that show ?thesis by (simp add: serving_def answered_same(5))
  qed
  then show "serving ok n src rs (answered n src r f s)"
    using s aq by (simp add: serving_def accepts_def receives_def answered_same)
  show "oldest (sg_queue_at s (server_q n s)) (of_nat r)" "has_room (sg_queue_at s (reply_q src s))"
    using q room by (simp_all add: oldest_def)
qed

text \<open>The requests that are served without their data, and what becomes of them.\<close>

definition plain :: "'w tool_env \<Rightarrow> bool \<Rightarrow> xseg_request \<Rightarrow> bool" where
  "plain e fail r \<longleftrightarrow> fail \<or> rq_op r \<noteq> X_READ \<and> rq_op r \<noteq> X_INFO \<and> (rq_op r = X_WRITE \<longrightarrow> te_mok e 8128)"

definition outcome :: "bool \<Rightarrow> xseg_request \<Rightarrow> xseg_request" where
  "outcome fail r = (if fail then r\<lparr>rq_state := rq_state r AND NOT XS_SERVED\<rparr>
     else r\<lparr>rq_state := rq_state r OR XS_SERVED, rq_serviced := rq_size r\<rparr>)"

lemma treat_plain:
  assumes "plain e fail (req_of u req)"
  shows "treat e fail req u = Some (u\<lparr>tl_seg := upd_req req (outcome fail) (tl_seg u), tl_mem := tl_mem u\<rparr>)"
  using assms by (auto simp: treat_def serve_request_def plain_def outcome_def [abs_def] set_req_def Let_def)

lemma served_bit:
  "rq_state (outcome fail r) AND XS_SERVED = (if fail then 0 else XS_SERVED)"
  by (rule bit_eqI) (auto simp: outcome_def XS_SERVED_def bit_simps)

lemma finish_serves:
  assumes d: "drivers_return (te_drv e)" and n: "n = tl_srcport t" and s: "serving (plain e fail) n src rs (tl_seg t)"
    and len: "length rs < 2 ^ 64"
  shows "\<exists>t'. finish_loop e fail (of_nat (length rs)) t = Some (0, t') \<and> tl_mem t' = tl_mem t \<and> tl_out t' = tl_out t \<and>
    serving (plain e fail) n src [] (tl_seg t') \<and> server_q n (tl_seg t') = server_q n (tl_seg t) \<and> reply_q src (tl_seg t') = reply_q src (tl_seg t) \<and>
    q_list (sg_queue_at (tl_seg t') (reply_q src (tl_seg t))) = rev (map of_nat rs) @ q_list (sg_queue_at (tl_seg t) (reply_q src (tl_seg t))) \<and>
    (\<forall>r. sg_req_at (tl_seg t') r = (if r \<in> set rs then outcome fail ((sg_req_at (tl_seg t) r)\<lparr>rq_transit_portno := n\<rparr>) else sg_req_at (tl_seg t) r))"
  using n s len
proof (induction rs arbitrary: t)
  case Nil
  then show ?case by (subst finish_loop.simps) simp
next
  case (Cons r rs)
  let ?s = "tl_seg t" and ?f = "outcome fail"
  let ?s' = "answered n src r ?f ?s"
  have w: "(of_nat (length (r # rs)) :: u64) \<noteq> 0" "(of_nat (length (r # rs)) :: u64) - 1 = of_nat (length rs)"
    using Cons.prems(3) unat_of_nat_u64 [of "length (r # rs)"] by (force, simp)
  note st = serving_step(1) [OF Cons.prems(2), of ?f] serving_step(2,3) [OF Cons.prems(2)]
  from Cons.prems(2) have h: "accepts n ?s" "receives src ?s" "req_ptr r" "oldest (rq_path (sg_req_at ?s r)) (ucast src)"
    "reply_q src ?s \<noteq> server_q n ?s" "plain e fail (sg_req_at ?s r)" "q_wf (sg_queue_at ?s (server_q n ?s))"
    "q_list (sg_queue_at ?s (server_q n ?s)) = rev (map of_nat rs) @ [of_nat r]" and dist: "r \<notin> set rs" by (simp_all add: serving_def)
  have srv: "treat e fail r u = Some (u\<lparr>tl_seg := upd_req r ?f (tl_seg u), tl_mem := tl_mem t\<rparr>)"
    if "stirred (taken_by n r ?s) (tl_seg u)" "tl_mem u = tl_mem t" for u
  proof -
    have "plain e fail (req_of u r)" using h(6) stirred_same(3) [OF that(1)] by (simp add: req_of_def taken_by_def plain_def)
    then show ?thesis using treat_plain that(2) by metis
  qed
  have path: "rq_path (?f x) = rq_path x" for x by (simp add: outcome_def)
  obtain t1 where t1: "finish_loop e fail (of_nat (length (r # rs))) t = finish_loop e fail (of_nat (length rs)) t1"
    "calm (t\<lparr>tl_seg := ?s', tl_mem := tl_mem t\<rparr>) t1"
    using finish_step [where t = t and req = r and src = src and f = ?f and fail = fail and m = "tl_mem t", OF d w(1), folded Cons.prems(1), OF h(1,3) st(2) h(4,2) st(3) h(5) path srv]
    unfolding w(2) by blast
  note c = calm_same [OF t1(2), simplified] stirred_same [OF calm_same(1) [OF t1(2)], simplified]
  have "serving (plain e fail) n src rs (tl_seg t1)" using st(1) serving_stirred [OF c(1)] by simp
  from Cons.IH [OF _ this] Cons.prems(1,3) c obtain t' where t': "finish_loop e fail (of_nat (length rs)) t1 = Some (0, t')"
    "tl_mem t' = tl_mem t1" "tl_out t' = tl_out t1" "serving (plain e fail) n src [] (tl_seg t')"
    "server_q n (tl_seg t') = server_q n (tl_seg t1)" "reply_q src (tl_seg t') = reply_q src (tl_seg t1)"
    "q_list (sg_queue_at (tl_seg t') (reply_q src (tl_seg t1))) = rev (map of_nat rs) @ q_list (sg_queue_at (tl_seg t1) (reply_q src (tl_seg t1)))"
    "\<forall>r. sg_req_at (tl_seg t') r = (if r \<in> set rs then outcome fail ((sg_req_at (tl_seg t1) r)\<lparr>rq_transit_portno := n\<rparr>) else sg_req_at (tl_seg t1) r)"
    by auto
  have k: "server_q n (tl_seg t1) = server_q n ?s" "reply_q src (tl_seg t1) = reply_q src ?s"
    using answered_same(1,2) [of n src r ?f ?s] by (simp_all add: server_q_def reply_q_def c)
  have "q_list (sg_queue_at (tl_seg t1) (reply_q src ?s)) = of_nat r # q_list (sg_queue_at ?s (reply_q src ?s))"
    using answered_queues(4) [OF h(7,8) st(3) h(5)] by (simp add: c)
  then have "q_list (sg_queue_at (tl_seg t') (reply_q src ?s)) = rev (map of_nat (r # rs)) @ q_list (sg_queue_at ?s (reply_q src ?s))"
    using t'(7) by (simp add: k)
  moreover have "sg_req_at (tl_seg t') x = (if x \<in> set (r # rs) then ?f ((sg_req_at ?s x)\<lparr>rq_transit_portno := n\<rparr>) else sg_req_at ?s x)" for x
    using t'(8) dist answered_same(5) [of x r n src ?f ?s] answered_same(6) [of n src r ?f ?s] by (cases "x = r") (simp_all add: c)
  ultimately show ?case using t1(1) t'(1-6) by (intro exI [of _ t']) (simp add: k c)
qed


section \<open>Sending a read\<close>

text \<open>A read of \<open>target\<close> that waits for a server: its fields, its way back to \<open>src\<close>, its buffer and the name in it.\<close>

definition read_waits :: "string \<Rightarrow> u64 \<Rightarrow> u64 \<Rightarrow> xport \<Rightarrow> nat \<Rightarrow> xseg \<Rightarrow> (nat \<Rightarrow> char) \<Rightarrow> bool" where
  "read_waits target offset sz src req s m \<longleftrightarrow>
     (let r = sg_req_at s req in
      rq_op r = X_READ \<and> rq_state r = 0 \<and> rq_offset r = offset \<and> rq_size r = sz \<and> rq_datalen r = sz \<and>
      rq_targetlen r = strlen target \<and> rq_src_portno r = src \<and> rq_elapsed r = 0 \<and> q_wf (rq_path r) \<and> q_list (rq_path r) = [ucast src] \<and>
      rq_data r + unat sz \<le> rq_target r \<and> read_mem (xseg_get_target s req) (length target) m = target)"

text \<open>What is ready after the request was taken from the cache of \<open>src\<close> and put into the queue of \<open>n\<close>.\<close>

definition on_its_way :: "xport \<Rightarrow> xport \<Rightarrow> nat \<Rightarrow> xseg \<Rightarrow> xseg \<Rightarrow> bool" where
  "on_its_way src n req s s' \<longleftrightarrow>
     sg_port_at s' = sg_port_at s \<and> xseg_get_port s' = xseg_get_port s \<and>
     q_wf (sg_queue_at s' (server_q n s)) \<and> q_list (sg_queue_at s' (server_q n s)) = of_nat req # q_list (sg_queue_at s (server_q n s)) \<and>
     has_room (sg_queue_at s' (cache_q src s)) \<and> q_list (sg_queue_at s (cache_q src s)) = q_list (sg_queue_at s' (cache_q src s)) @ [of_nat req] \<and>
     (\<forall>x. x \<noteq> server_q n s \<longrightarrow> x \<noteq> cache_q src s \<longrightarrow> sg_queue_at s' x = sg_queue_at s x)"

lemma got_cache:
  assumes c: "cached s src req"
  shows "has_room (sg_queue_at (got src dst req s) (cache_q src s))"
    and "q_list (sg_queue_at s (cache_q src s)) = q_list (sg_queue_at (got src dst req s) (cache_q src s)) @ [of_nat req]"
proof -
  let ?q = "cache_q src s"
  from c have old: "oldest (sg_queue_at s ?q) (of_nat req)" by (simp add: cached_def Let_def cache_q_def)
  obtain q' where q': "raw_xq_pop_head (sg_queue_at s ?q) = (of_nat req, q')" "q_wf q'"
    "q_list q' = butlast (q_list (sg_queue_at s ?q))" "q_cap q' = q_cap (sg_queue_at s ?q)"
    using oldest_pop [OF old] by blast
  obtain xs where xs: "q_list (sg_queue_at s ?q) = xs @ [of_nat req]" "q_wf (sg_queue_at s ?q)"
    using old by (auto simp: oldest_def)
  have e: "sg_queue_at (got src dst req s) ?q = q'" using q'(1) by (simp add: got_def) (simp add: deq_def)
  show "q_list (sg_queue_at s ?q) = q_list (sg_queue_at (got src dst req s) ?q) @ [of_nat req]" using e q'(3) xs(1) by simp
  have "q_len (sg_queue_at s ?q) = Suc (length xs)" using arg_cong [OF xs(1), of length] by simp
  moreover have "q_len q' = length xs" using arg_cong [OF q'(3), of length] xs(1) by simp
  ultimately show "has_room (sg_queue_at (got src dst req s) ?q)"
    using e q_wf_len [OF xs(2)] q'(2,4) by (simp add: has_room_def)
qed

lemma submitted_way:
  assumes c: "can_send src dst req s" and fr: "same_but_heap req (got src dst req s) s1"
  shows "on_its_way src dst req s (submitted src dst req f s s1)"
proof -
  let ?q = "server_q dst s" and ?c = "cache_q src s" and ?s = "submitted src dst req f s s1"
  from c have ca: "cached s src req" and room: "has_room (sg_queue_at s ?q)" and ne: "?q \<noteq> ?c"
    by (auto simp: can_send_def cache_q_def Let_def)
  note fs = same_but_heap_simps [OF fr]
  have q1: "sg_queue_at ?s ?q = snd (raw_xq_append_tail (sg_queue_at s ?q) (of_nat req))"
    by (simp add: submitted_req(3) server_queue [OF c fr])
  have other: "sg_queue_at ?s x = sg_queue_at (got src dst req s) x" if "x \<noteq> ?q" for x
    using that by (simp add: submitted_def push_path_def enq_def fs(1))
  have g: "sg_queue_at (got src dst req s) x = sg_queue_at s x" if "x \<noteq> ?c" for x
    using that by (simp add: got_def) (simp add: deq_def)
  have "sg_port_at ?s = sg_port_at s" "xseg_get_port ?s = xseg_get_port s" using fs by (simp_all add: submitted_req fun_eq_iff)
  moreover have "q_wf (sg_queue_at ?s ?q)" "q_list (sg_queue_at ?s ?q) = of_nat req # q_list (sg_queue_at s ?q)"
    unfolding q1 using append_tail_list(2,4) room by (simp_all add: has_room_def)
  ultimately show ?thesis
    using got_cache [OF ca, of dst] other [of ?c] ne other g unfolding on_its_way_def by simp
qed

lemma on_its_way_stirred: "stirred s' s'' \<Longrightarrow> on_its_way src n req s s'' = on_its_way src n req s s'"
  by (simp add: on_its_way_def stirred_same)

text \<open>Room for a buffer of \<open>b\<close> bytes: none of its class is free, but there is space behind the last chunk.\<close>

definition buffer_room :: "xseg \<Rightarrow> (nat \<Rightarrow> nat list) \<Rightarrow> nat \<Rightarrow> bool" where
  "buffer_room s F b \<longleftrightarrow> (let h = sg_heap s; u = hp_unit h in F (get_index u b) = [] \<and> hp_cur h + get_alloc_bytes u b \<le> hp_size h)"

lemma alloc_room:
  assumes rdy: "heap_ready s st cs F" and cls: "in_classes (sg_heap s) b" and room: "buffer_room s F b"
  shows "\<exists>p s'. xseg_alloc_buffer cl b s = Some (p, s') \<and> p \<noteq> 0"
proof -
  let ?h = "sg_heap s"
  from rdy have rep: "heap_rep ?h st cs F" "unlocked (hp_lock ?h)" "0 < sg_base s" by (simp_all add: heap_ready_def)
  from cls have b: "b < 2 ^ 62" "get_index (hp_unit ?h) b < classes ?h" "get_index (hp_unit ?h) (payload (hp_unit ?h) b) < classes ?h"
    by (simp_all add: in_classes_def)
  obtain g where "xheap_allocate cl b ?h = Some (Some (hp_cur ?h + HDR), g)"
    using allocate_cases(1) [OF rep(1,2) b(1) refl b(2,3), of cl] room by (auto simp: buffer_room_def Let_def)
  then have "seg_alloc cl b s = Some (hp_cur ?h + HDR + sg_base s, s\<lparr>sg_heap := g\<rparr>)" by (simp add: seg_alloc_def)
  moreover obtain p s' where "seg_alloc cl b s = Some (p, s')" "p \<noteq> 0 \<longrightarrow> b \<le> chunk_size s' p" using seg_alloc_ok [OF rdy cls, of cl] by blast
  ultimately show ?thesis using rep(3) by (auto simp: xseg_alloc_buffer_def)
qed

lemma new_request_room:
  assumes c: "can_send (tl_srcport t) (tl_dstport t) req (tl_seg t)" and rdy: "heap_ready (tl_seg t) st cs F"
    and cls: "in_classes (sg_heap (tl_seg t)) (unat tlen + unat sz)" and room: "buffer_room (tl_seg t) F (unat tlen + unat sz)"
  shows "\<exists>t'. new_request e tlen sz t = Some (req, t')"
proof -
  let ?s = "tl_seg t" and ?src = "tl_srcport t" and ?dst = "tl_dstport t"
  from c have ca: "cached ?s ?src req" and v: "validate_port ?s ?dst"
    using get_port_valid [of ?s ?dst] by (auto simp: can_send_def Let_def)
  then have r: "req \<noteq> 0" using req_ptr_word(3) by (auto simp: cached_def Let_def)
  define g where "g = upd_req req (\<lambda>r. r\<lparr>rq_buffer := 0, rq_bufferlen := 0\<rparr>) (got ?src ?dst req ?s)"
  have g: "heap_ready g st cs F" "in_classes (sg_heap g) (unat tlen + unat sz)" "buffer_room g F (unat tlen + unat sz)"
    using rdy cls room by (simp_all add: g_def heap_ready_def buffer_room_def)
  obtain p s' where p: "xseg_alloc_buffer (te_cl e) (unat tlen + unat sz) g = Some (p, s')" "p \<noteq> 0" using alloc_room [OF g] by blast
  have "unat (ucast tlen + sz) = unat tlen + unat sz" using cls by (intro unat_buffer_len) (simp add: in_classes_def)
  then have "\<exists>s2. xseg_prep_request (te_cl e) req tlen sz (got ?src ?dst req ?s) = Some (0, s2)"
    using p r by (simp add: xseg_prep_request_def g_def)
  then show ?thesis
    using get_got [OF ca v, of "te_junk e" "te_cl e" X_ALLOC] r by (auto simp: new_request_def tool_get_def on_seg_def)
qed

lemma read_waits_stirred: "stirred s s' \<Longrightarrow> read_waits target off sz src req s' m = read_waits target off sz src req s m"
  by (simp add: read_waits_def stirred_same)

lemma layout_stirred:
  "stirred s s' \<Longrightarrow> req_layout s' req cs F = req_layout s req cs F" "stirred s s' \<Longrightarrow> heap_ready s' st cs F = heap_ready s st cs F"
  by (simp_all add: req_layout_def heap_ready_def stirred_same)

lemma set_queue_seg [simp]: "sg_base (set_queue q x s) = sg_base s" "sg_segment (set_queue q x s) = sg_segment s"
  by (simp_all add: set_queue_def)

lemma submitted_layout:
  assumes "fills f" and "same_but_heap req (got src dst req s) s1"
  shows "req_layout (submitted src dst req f s s1) req cs F = req_layout s1 req cs F"
    and "heap_ready (submitted src dst req f s s1) st cs F = heap_ready s1 st cs F"
  using assms(1) by (simp_all add: submitted_def push_path_def enq_def req_layout_def heap_ready_def fills_def Let_def)

lemma read_sent:
  assumes c: "can_send (tl_srcport t) (tl_dstport t) req (tl_seg t)" and rdy: "heap_ready (tl_seg t) st cs F"
    and cls: "in_classes (sg_heap (tl_seg t)) (length target + unat sz)" and len: "length target < 2 ^ 32"
    and d: "drivers_return (te_drv e)"
  obtains (sent) t1 cs' F' where "cmd_read e target off sz t = Some (0, t1)" "tl_srcport t1 = tl_srcport t" "tl_joined t1 = tl_joined t"
      "read_waits target off sz (tl_srcport t) req (tl_seg t1) (tl_mem t1)" "on_its_way (tl_srcport t) (tl_dstport t) req (tl_seg t) (tl_seg t1)"
      "req_layout (tl_seg t1) req cs' F'" "heap_ready (tl_seg t1) st cs' F'"
  | (full) s2 where "cmd_read e target off sz t = Some (-1, t\<lparr>tl_seg := s2\<rparr>)" "new_request e (strlen target) sz t = Some (0, t\<lparr>tl_seg := s2\<rparr>)"
proof -
  let ?src = "tl_srcport t" and ?dst = "tl_dstport t" and ?s = "tl_seg t" and ?cmd = "C_read off sz"
  have cls': "in_classes (sg_heap ?s) (unat (strlen target) + unat sz)" using cls len by (simp add: strlen_unat)
  have iss: "cmd_read e target off sz t = issue e target sz (client_setup ?cmd) t" using client_issue [of e ?cmd target t] by simp
  show thesis
  proof (rule issue_cases [OF c rdy cls' client_fills(1), of "client_setup ?cmd" ?cmd e])
    fix s1 cs' F'
    define X where "X = submitted ?src ?dst req (client_fill ?cmd) ?s s1"
    define T where "T = (client_setup ?cmd req (put_target req target (t\<lparr>tl_seg := s1\<rparr>)))\<lparr>tl_seg := X\<rparr>"
    assume i: "issue e target sz (client_setup ?cmd) t = do { (_, t) \<leftarrow> tool_signal e ?dst
          ((client_setup ?cmd req (put_target req target (t\<lparr>tl_seg := s1\<rparr>)))\<lparr>tl_seg :=
             submitted ?src ?dst req (client_fill ?cmd) ?s s1\<rparr>); Some (0, t) }"
      and fr: "same_but_heap req (got ?src ?dst req ?s) s1" and l: "req_layout s1 req cs' F'"
      "rq_datalen (sg_req_at s1 req) = sz" "rq_targetlen (sg_req_at s1 req) = strlen target" and h: "heap_ready s1 st cs' F'"
    obtain r t1 where t1: "tool_signal e ?dst T = Some (r, t1)" "calm T t1" using tool_calls(4) [OF d] by blast
    note k = calm_same [OF t1(2)]
    have m: "read_mem (target_of (t\<lparr>tl_seg := s1\<rparr>) req) (length target) (tl_mem T) = target"
      using len by (simp add: T_def client_setup_state put_target_def poke_def strlen_unat [unfolded strlen_def] strn_all read_write)
    have "rq_state (sg_req_at s1 req) = 0" by (subst fr [unfolded same_but_heap_def Let_def]) (simp add: taken_def)
    then have st: "rq_state (sg_req_at s1 req) = 0 \<and> rq_elapsed (sg_req_at s1 req) = 0 \<and> rq_src_portno (sg_req_at s1 req) = ?src \<and>
      rq_path (sg_req_at s1 req) = empty_path (sg_req_at ?s req)"
      using same_but_heap_simps(7,8,11) [OF fr] by (simp add: taken_def)
    have mp: "32 \<le> length (q_mem (rq_path (sg_req_at ?s req)))" using c by (simp add: can_send_def Let_def)
    have path: "q_wf (rq_path (sg_req_at X req))" "q_list (rq_path (sg_req_at X req)) = [ucast ?src]"
      using append_head_list(2,4) [of "empty_path (sg_req_at ?s req)" "ucast ?src"] empty_path_ok [OF mp] st
      by (simp_all add: X_def submitted_req(1) has_room_def)
    have "read_waits target off sz ?src req X (tl_mem T)"
      using l m st path unfolding read_waits_def Let_def
      by (simp add: X_def submitted_req xseg_get_target_def target_of_def req_layout_def Let_def)
    then have "read_waits target off sz ?src req (tl_seg t1) (tl_mem t1)"
      using read_waits_stirred [OF k(1)] k(4) by (simp add: T_def)
    moreover have "on_its_way ?src ?dst req ?s (tl_seg t1)"
      using submitted_way [OF c fr] on_its_way_stirred [OF k(1)] by (simp add: T_def X_def)
    moreover have "req_layout (tl_seg t1) req cs' F'" "heap_ready (tl_seg t1) st cs' F'"
      using layout_stirred [OF k(1)] submitted_layout [OF client_fills(1) [of ?cmd] fr] l(1) h by (simp_all add: T_def X_def)
    moreover have "cmd_read e target off sz t = Some (0, t1)" using iss i t1(1) by (simp add: T_def X_def)
    moreover have "tl_srcport t1 = ?src" "tl_joined t1 = tl_joined t"
      using k(2,8) by (simp_all add: T_def client_setup_def set_req_def report_request_def out_def put_target_def poke_def Let_def)
    ultimately show thesis using sent by blast
  next
    fix s2 assume "issue e target sz (client_setup ?cmd) t = Some (-1, t\<lparr>tl_seg := s2\<rparr>)"
      "new_request e (strlen target) sz t = Some (0, t\<lparr>tl_seg := s2\<rparr>)"
    then show thesis using full iss by simp
  qed (simp add: client_setup_state)
qed

section \<open>Serving a read\<close>

lemma strlen_16: "length target + 16 < 2 ^ 32 \<Longrightarrow> unat (strlen target + 16) = length target + 16"
  using unat_word_ariths(1) [of "strlen target" 16] by (simp add: strlen_unat)

lemma str_at_name:
  assumes "read_mem p (length target) m = target" and "NUL \<notin> set target"
  shows "str_at p (length target) m = target"
  using assms takeWhile_eq_all_conv [of "\<lambda>c. c \<noteq> NUL" target] by (auto simp: str_at_def)

definition readable :: "'w tool_env \<Rightarrow> string \<Rightarrow> u64 \<Rightarrow> bool" where
  "readable e target sz \<longleftrightarrow> unat sz < 2 ^ 32 \<and> length target + 16 < 2 ^ 32 \<and> NUL \<notin> set target \<and>
     length target + 16 \<le> length (te_local e (length target + 16))"

text \<open>The bytes that answer a read.\<close>

definition holds_pattern :: "string \<Rightarrow> u64 \<Rightarrow> u64 \<Rightarrow> string \<Rightarrow> bool" where
  "holds_pattern target offset sz c \<longleftrightarrow> length c = unat sz \<and>
     (\<forall>j<unat sz. c ! j = pattern target (length target + 16) offset ! (j mod (length target + 16)))"

lemma serve_read:
  assumes w: "read_waits target off sz src req s m" and rd: "readable e target sz"
  shows "\<exists>c. holds_pattern target off sz c \<and> (\<forall>u. stirred (taken_by n req s) (tl_seg u) \<longrightarrow> tl_mem u = m \<longrightarrow>
    treat e False req u = Some (u\<lparr>tl_seg := upd_req req (outcome False) (tl_seg u), tl_mem := write_mem (xseg_get_data s req) c m\<rparr>))"
proof -
  let ?N = "length target + 16" and ?p = "xseg_get_data s req"
  from rd have sz: "unat (ucast sz :: u32) = unat sz" and len: "?N < 2 ^ 32" "NUL \<notin> set target" "?N \<le> length (te_local e ?N)"
    by (simp_all add: readable_def unsigned_ucast_eq take_bit_nat_eq_self)
  have rl: "length (read_mem ?p (unat sz) m) = unat sz" by simp
  obtain c where c: "mkchunk (te_local e ?N) (read_mem ?p (unat sz) m) (ucast sz) target (strlen target) off = Some c"
    "length c = unat sz" "\<forall>j<unat sz. c ! j = pattern target ?N off ! (j mod ?N)"
    using mkchunk_nth [of ?N "strlen target" target "te_local e ?N" "ucast sz" "read_mem ?p (unat sz) m" off] len sz strlen_16 [OF len(1)]
    by (auto simp: rl)
  have "treat e False req u = Some (u\<lparr>tl_seg := upd_req req (outcome False) (tl_seg u), tl_mem := write_mem ?p c m\<rparr>)"
    if u: "stirred (taken_by n req s) (tl_seg u)" "tl_mem u = m" for u
  proof -
    have tk: "sg_req_at (tl_seg u) req = (sg_req_at s req)\<lparr>rq_transit_portno := n\<rparr>" "sg_segment (tl_seg u) = sg_segment s"
      using stirred_same(3,6) [OF u(1)] by (simp_all add: taken_by_def)
    have at: "data_at u req = ?p" "target_of u req = xseg_get_target s req"
      by (simp_all add: data_at_def target_of_def xseg_get_data_def xseg_get_target_def tk)
    have r: "rq_op (req_of u req) = X_READ" "rq_datalen (req_of u req) = sz" "rq_targetlen (req_of u req) = strlen target"
      "rq_offset (req_of u req) = off" "read_mem (target_of u req) (length target) m = target"
      using w by (simp_all add: req_of_def tk at read_waits_def Let_def)
    have "unat (strlen target) = length target" using len(1) by (intro strlen_unat) simp
    then have "str_at (target_of u req) (unat (strlen target)) (tl_mem u) = target" using str_at_name [OF r(5) len(2)] u(2) by simp
    then have "serve_request e req u = Some (set_req req (\<lambda>r. r\<lparr>rq_state := rq_state r OR XS_SERVED, rq_serviced := rq_size r\<rparr>) (poke ?p c u))"
      using c(1) by (simp add: serve_request_def fill_data_def Let_def r at u(2) sz strlen_16 [OF len(1)])
    then show ?thesis
      by (cases u) (use u(2) in \<open>simp add: treat_def set_req_def poke_def outcome_def [abs_def]\<close>)
  qed
  then show ?thesis using c(2,3) unfolding holds_pattern_def by blast
qed

lemma read_served:
  fixes u :: "'w tool"
  defines "n \<equiv> tl_srcport u" and "s \<equiv> tl_seg u"
  assumes d: "drivers_return (te_drv e)" and rd: "readable e target sz" and w: "read_waits target off sz src req s (tl_mem u)"
    and h: "accepts n s" "req_ptr req" "oldest (sg_queue_at s (server_q n s)) (of_nat req)" "receives src s"
      "has_room (sg_queue_at s (reply_q src s))" "reply_q src s \<noteq> server_q n s"
  shows "\<exists>u' c. finish_loop e False 1 u = Some (0, u') \<and> holds_pattern target off sz c \<and>
    calm (u\<lparr>tl_seg := answered n src req (outcome False) s, tl_mem := write_mem (xseg_get_data s req) c (tl_mem u)\<rparr>) u'"
proof -
  obtain c where c: "holds_pattern target off sz c"
    "\<And>v. stirred (taken_by n req s) (tl_seg v) \<Longrightarrow> tl_mem v = tl_mem u \<Longrightarrow>
       treat e False req v = Some (v\<lparr>tl_seg := upd_req req (outcome False) (tl_seg v), tl_mem := write_mem (xseg_get_data s req) c (tl_mem u)\<rparr>)"
    using serve_read [OF w rd, of n] by blast
  have path: "oldest (rq_path (sg_req_at s req)) (ucast src)" using w by (simp add: read_waits_def oldest_def Let_def)
  have f: "rq_path (outcome False r) = rq_path r" for r by (simp add: outcome_def)
  have one: "(1 :: u64) \<noteq> 0" by simp
  obtain u' where "finish_loop e False 1 u = finish_loop e False (1 - 1) u'"
    "calm (u\<lparr>tl_seg := answered n src req (outcome False) s, tl_mem := write_mem (xseg_get_data s req) c (tl_mem u)\<rparr>) u'"
    using finish_step [where t = u and req = req and src = src and nr = 1 and fail = False and f = "outcome False"
        and m = "write_mem (xseg_get_data s req) c (tl_mem u)", folded n_def s_def, OF d one h(1-3) path h(4-6) f c(2)] by blast
  moreover have "finish_loop e False (1 - 1) u' = Some (0, u')" by (subst finish_loop.simps) simp
  ultimately show ?thesis using c(1) by metis
qed

section \<open>Showing the answer\<close>

lemma put_free:
  assumes r: "req_ptr req" "rq_buffer (sg_req_at s req) \<noteq> 0" "rq_elapsed (sg_req_at s req) = 0"
    and b: "xseg_free_buffer cl (rq_buffer (sg_req_at s req)) s = Some (s\<lparr>sg_heap := h\<rparr>)"
    and p: "xseg_get_port s (rq_src_portno (sg_req_at s req)) = p" "p \<noteq> 0" "pt_fq_lock (sg_port_at s p) = free_lock"
    and q: "free_q s p = q" "has_room (sg_queue_at s q)"
  shows "xseg_put_request cl req portno s =
    Some (0, set_queue q (snd (raw_xq_append_head (sg_queue_at s q) (of_nat req))) (upd_req req returned (s\<lparr>sg_heap := h\<rparr>)))"
proof -
  define s1 where "s1 = upd_req req (\<lambda>r. r\<lparr>rq_buffer := 0\<rparr>) (s\<lparr>sg_heap := h\<rparr>)"
  have gp: "xseg_get_port (s\<lparr>sg_heap := h\<rparr>) = xseg_get_port s"
    by (simp add: fun_eq_iff xseg_get_port_def validate_port_def)
  have upd: "upd_req req f s1 = upd_req req (\<lambda>r. f (r\<lparr>rq_buffer := 0\<rparr>)) (s\<lparr>sg_heap := h\<rparr>)" for f
    by (simp add: s1_def upd_req_def)
  have s1: "xseg_get_port s1 (rq_src_portno (sg_req_at s1 req)) = p" "rq_buffer (sg_req_at s1 req) = 0"
    using p(1) by (simp_all add: s1_def gp)
  have "xseg_put_request cl req portno s = xseg_put_request cl req portno s1"
    using r b p(2) req_ptr_word(3) [OF r(1)] p(1)
    by (simp add: xseg_put_request_def upd Let_def empty_path_def s1) (simp add: s1_def)
  moreover have "xseg_put_request cl req portno s1 = Some (0, set_queue q (snd (raw_xq_append_head (sg_queue_at s1 q) (of_nat req))) (upd_req req returned s1))"
    by (rule put_room [OF r(1) refl]) (use r p q in \<open>simp_all add: s1_def gp free_q_def\<close>)
  moreover have "upd_req req returned s1 = upd_req req returned (s\<lparr>sg_heap := h\<rparr>)"
    unfolding upd by (simp add: returned_def [abs_def] empty_path_def)
  moreover have "sg_queue_at s1 = sg_queue_at s" by (simp add: s1_def)
  ultimately show ?thesis by simp
qed

lemma receive_shown:
  fixes w :: "'w tool" and req :: nat
  defines "src \<equiv> tl_srcport w" and "s \<equiv> tl_seg w"
  defines "s1 \<equiv> pop_path req (deq (reply_q src s) s)"
  assumes rec: "receives src s" and r: "req_ptr req" and old: "oldest (sg_queue_at s (reply_q src s)) (of_nat req)"
    and path: "oldest (rq_path (sg_req_at s req)) (ucast (x :: xport))" and op: "rq_op (sg_req_at s req) = X_READ"
    and st: "rq_state (sg_req_at s req) AND XS_SERVED \<noteq> 0"
    and put: "xseg_put_request (te_cl e) req src s1 = Some (i, s2)"
  shows "wait_loop e 1 w = Some (0, w\<lparr>tl_seg := s2,
    tl_out := Data (read_mem (xseg_get_data s req) (unat (rq_datalen (sg_req_at s req))) (tl_mem w)) # tl_out w\<rparr>)"
proof -
  have "xseg_receive (te_cl e) src 0 s = Some (req, s1)" unfolding s1_def
    by (rule receive_eq [OF refl _ _ _ old r path]) (use rec in \<open>simp_all add: receives_def reply_q_def Let_def\<close>)
  then have a: "on_seg (xseg_receive (te_cl e) (tl_srcport w) 0) w = Some (req, w\<lparr>tl_seg := s1\<rparr>)"
    by (simp add: on_seg_def src_def s_def)
  have q: "rq_op (sg_req_at s1 req) = X_READ" "rq_state (sg_req_at s1 req) AND XS_SERVED \<noteq> 0"
    "rq_datalen (sg_req_at s1 req) = rq_datalen (sg_req_at s req)" "xseg_get_data s1 req = xseg_get_data s req"
    using op st by (simp_all add: s1_def pop_path_def xseg_get_data_def)
  have "reply_out req (w\<lparr>tl_seg := s1\<rparr>) = [Data (read_mem (xseg_get_data s req) (unat (rq_datalen (sg_req_at s req))) (tl_mem w))]"
    using q by (simp add: reply_out_def req_of_def data_at_def Let_def)
  then have "handle_reply e req (w\<lparr>tl_seg := s1\<rparr>) = Some (w\<lparr>tl_seg := s2,
    tl_out := Data (read_mem (xseg_get_data s req) (unat (rq_datalen (sg_req_at s req))) (tl_mem w)) # tl_out w\<rparr>)"
    using put by (cases w) (simp add: handle_reply_def tool_put_def on_seg_def src_def)
  then show ?thesis using a req_ptr_word(3) [OF r] by (subst wait_loop.simps) simp
qed

lemma answer_shown:
  fixes w :: "'w tool"
  defines "src \<equiv> tl_srcport w" and "s \<equiv> tl_seg w"
  assumes rec: "receives src s" and r: "req_ptr req" and old: "oldest (sg_queue_at s (reply_q src s)) (of_nat req)"
    and path: "oldest (rq_path (sg_req_at s req)) (ucast (x :: xport))" and op: "rq_op (sg_req_at s req) = X_READ"
    and st: "rq_state (sg_req_at s req) AND XS_SERVED \<noteq> 0" and own: "rq_src_portno (sg_req_at s req) = src" "rq_elapsed (sg_req_at s req) = 0"
    and rdy: "heap_ready s h cs F" and lay: "req_layout s req cs F"
    and fq: "pt_fq_lock (sg_port_at s (xseg_get_port s src)) = free_lock" "has_room (sg_queue_at s (cache_q src s))" "reply_q src s \<noteq> cache_q src s"
  shows "\<exists>w' F'. wait_loop e 1 w = Some (0, w') \<and>
    tl_out w' = Data (read_mem (xseg_get_data s req) (unat (rq_datalen (sg_req_at s req))) (tl_mem w)) # tl_out w \<and>
    q_list (sg_queue_at (tl_seg w') (cache_q src s)) = q_list (sg_queue_at s (cache_q src s)) @ [of_nat req] \<and>
    (\<forall>y. y \<noteq> cache_q src s \<longrightarrow> y \<noteq> reply_q src s \<longrightarrow> sg_queue_at (tl_seg w') y = sg_queue_at s y) \<and>
    q_list (sg_queue_at (tl_seg w') (reply_q src s)) = butlast (q_list (sg_queue_at s (reply_q src s))) \<and>
    sg_port_at (tl_seg w') = sg_port_at s \<and> heap_ready (tl_seg w') h cs F'"
proof -
  let ?rq = "reply_q src s" and ?cq = "cache_q src s" and ?p = "xseg_get_port s src"
  define s1 where "s1 = pop_path req (deq ?rq s)"
  have p: "?p \<noteq> 0" using rec by (simp add: receives_def Let_def)
  have s1: "sg_req_at s1 req = (sg_req_at s req)\<lparr>rq_path := snd (raw_xq_pop_head (rq_path (sg_req_at s req)))\<rparr>"
    "sg_port_at s1 = sg_port_at s" "xseg_get_port s1 = xseg_get_port s" "sg_queue_at s1 ?cq = sg_queue_at s ?cq"
    using fq(3) by (simp_all add: s1_def pop_path_def fun_eq_iff) (simp add: deq_def)
  have rdy1: "heap_ready s1 h cs F" "req_layout s1 req cs F"
    using rdy lay by (simp_all add: s1_def pop_path_def heap_ready_def req_layout_def Let_def)
  have "(rq_buffer (sg_req_at s1 req) - sg_base s1, rq_bufferlen (sg_req_at s1 req)) \<in> live (sg_heap s1) cs F"
    using rdy1(2) by (simp add: req_layout_def Let_def)
  from free_buffer_ok [OF rdy1(1) layout_bound(2) [OF rdy1] this, of "te_cl e"] obtain g F' where
    fr: "xseg_free_buffer (te_cl e) (rq_buffer (sg_req_at s1 req)) s1 = Some (s1\<lparr>sg_heap := g\<rparr>)" "heap_ready (s1\<lparr>sg_heap := g\<rparr>) h cs F'" by metis
  define s2 where "s2 = set_queue ?cq (snd (raw_xq_append_head (sg_queue_at s ?cq) (of_nat req))) (upd_req req returned (s1\<lparr>sg_heap := g\<rparr>))"
  have "rq_buffer (sg_req_at s1 req) \<noteq> 0" using layout_bound(2) [OF rdy1] by simp
  then have put: "xseg_put_request (te_cl e) req src s1 = Some (0, s2)"
    unfolding s2_def s1(4) [symmetric]
    by (intro put_free [OF r _ _ fr(1), where p = ?p]) (use own p fq in \<open>simp_all add: s1 s1(4) [unfolded cache_q_def free_q_def] free_q_def cache_q_def\<close>)
  note wl = receive_shown [where w = w and req = req and x = x and e = e and i = 0 and ?s2.0 = s2, folded src_def s_def, folded s1_def, OF rec r old path op st put]
  obtain q' where q': "raw_xq_pop_head (sg_queue_at s ?rq) = (of_nat req, q')" "q_list q' = butlast (q_list (sg_queue_at s ?rq))"
    using oldest_pop [OF old] by blast
  have "sg_queue_at s2 ?rq = q'" using q'(1) fq(3) by (simp add: s2_def s1_def pop_path_def) (simp add: deq_def)
  moreover have "sg_queue_at s2 y = sg_queue_at s y" if "y \<noteq> ?cq" "y \<noteq> ?rq" for y
    using that by (simp add: s2_def s1_def pop_path_def) (simp add: deq_def)
  moreover have "q_list (sg_queue_at s2 ?cq) = q_list (sg_queue_at s ?cq) @ [of_nat req]"
    using append_head_list(2) [of "sg_queue_at s ?cq" "of_nat req"] fq(2) by (simp add: s2_def has_room_def)
  moreover have "sg_port_at s2 = sg_port_at s" "heap_ready s2 h cs F'"
    using fr(2) s1(2) by (simp_all add: s2_def heap_ready_def)
  ultimately show ?thesis unfolding wl using q'(2) by (auto intro!: exI [of _ F'])
qed

section \<open>From the question to the answer\<close>

text \<open>A port that can receive from a server, both with nothing to do.\<close>

definition linked :: "xport \<Rightarrow> xport \<Rightarrow> xseg \<Rightarrow> bool" where
  "linked src n s \<longleftrightarrow> receives src s \<and> has_room (sg_queue_at s (reply_q src s)) \<and> q_list (sg_queue_at s (reply_q src s)) = [] \<and>
     q_list (sg_queue_at s (server_q n s)) = [] \<and> reply_q src s \<noteq> server_q n s \<and> reply_q src s \<noteq> cache_q src s"

text \<open>Another process, or the same one, at a port of the segment that \<open>t\<close> has left, mapped at the same address.\<close>

definition at_port :: "xport \<Rightarrow> 'w tool \<Rightarrow> 'w tool \<Rightarrow> bool" where
  "at_port n t u \<longleftrightarrow> tl_srcport u = n \<and> stirred (tl_seg t) (tl_seg u) \<and> tl_mem u = tl_mem t"

lemma way_same:
  assumes "on_its_way src n req s v"
  shows "server_q n v = server_q n s" "cache_q src v = cache_q src s" "reply_q src v = reply_q src s" "receives src v = receives src s"
    "accepts n v = accepts n s"
  using assms by (simp_all add: on_its_way_def server_q_def cache_q_def free_q_def reply_q_def receives_def accepts_def)

lemma way_served:
  assumes w: "on_its_way src n req s v" and l: "linked src n s" and c: "can_send src n req s"
  shows "accepts n v" "oldest (sg_queue_at v (server_q n v)) (of_nat req)" "receives src v" "has_room (sg_queue_at v (reply_q src v))"
    "reply_q src v \<noteq> server_q n v"
proof -
  note k = way_same [OF w]
  show "accepts n v" using c k(5) by (simp add: can_send_def accepts_def Let_def)
  show "oldest (sg_queue_at v (server_q n v)) (of_nat req)" using w l by (simp add: k on_its_way_def linked_def oldest_def del: q_list_Nil)
  have "sg_queue_at v (reply_q src s) = sg_queue_at s (reply_q src s)" using w l by (simp add: on_its_way_def linked_def)
  then show "has_room (sg_queue_at v (reply_q src v))" using l by (simp add: k linked_def)
  show "receives src v" "reply_q src v \<noteq> server_q n v" using l by (simp_all add: k linked_def)
qed

lemma way_answered:
  assumes w: "on_its_way src n req s v" and l: "linked src n s" and c: "can_send src n req s"
  defines "A \<equiv> answered n src req (outcome False) v"
  shows "receives src A" "cache_q src A = cache_q src s" "reply_q src A = reply_q src s" "sg_queue_at A (cache_q src s) = sg_queue_at v (cache_q src s)"
    "q_wf (sg_queue_at A (reply_q src s))" "q_list (sg_queue_at A (reply_q src s)) = [of_nat req]"
    "q_list (sg_queue_at A (server_q n s)) = []" "pt_fq_lock (sg_port_at A (xseg_get_port A src)) = free_lock"
    "xseg_get_data A req = xseg_get_data v req" "req_layout A req cs F = req_layout v req cs F" "heap_ready A h cs F = heap_ready v h cs F"
proof -
  note k = way_same [OF w] and sv = way_served [OF w l c]
  have old: "q_wf (sg_queue_at v (server_q n v))" "q_list (sg_queue_at v (server_q n v)) = [] @ [of_nat req]"
    using w l by (simp_all add: k on_its_way_def linked_def del: q_list_Nil)
  have rp: "q_list (sg_queue_at v (reply_q src v)) = []" using w l by (simp add: k on_its_way_def linked_def del: q_list_Nil)
  note aq = answered_queues [where f = "outcome False", OF old sv(4,5)]
  show "receives src A" using sv(3) by (simp add: A_def receives_def answered_same)
  show "cache_q src A = cache_q src s" "reply_q src A = reply_q src s"
    using k(2,3) by (simp_all add: A_def cache_q_def free_q_def reply_q_def answered_same)
  show "sg_queue_at A (cache_q src s) = sg_queue_at v (cache_q src s)"
    using aq(7) [of "cache_q src s"] l c by (simp add: A_def k linked_def can_send_def cache_q_def Let_def)
  show "q_wf (sg_queue_at A (reply_q src s))" "q_list (sg_queue_at A (reply_q src s)) = [of_nat req]" "q_list (sg_queue_at A (server_q n s)) = []"
    using aq(2,3,4) rp by (simp_all add: A_def k del: q_list_Nil)
  show "pt_fq_lock (sg_port_at A (xseg_get_port A src)) = free_lock"
    using w c by (simp add: A_def answered_same on_its_way_def can_send_def cached_def Let_def)
  have h: "sg_heap A = sg_heap v" "sg_base A = sg_base v" "sg_segment A = sg_segment v"
    by (simp_all add: A_def answered_def taken_by_def enq_def)
  have r: "sg_req_at A req = outcome False ((sg_req_at v req)\<lparr>rq_transit_portno := n\<rparr>)" unfolding A_def by (rule answered_same(6))
  show "xseg_get_data A req = xseg_get_data v req" by (simp add: xseg_get_data_def h r outcome_def)
  show "req_layout A req cs F = req_layout v req cs F" by (simp add: req_layout_def h r outcome_def Let_def)
  show "heap_ready A h cs F = heap_ready v h cs F" by (simp add: heap_ready_def h)
qed

lemma reply_waited:
  fixes v :: xseg
  assumes w: "on_its_way src n req s v" and l: "linked src n s" and c: "can_send src n req s"
    and rw: "read_waits target off sz src req v m" and lay: "req_layout v req cs F" "heap_ready v h cs F" and d: "drivers_return (te_drv e)"
    and t: "tl_srcport t = src" "stirred (answered n src req (outcome False) v) (tl_seg t)"
  shows "\<exists>t' F'. cmd_wait e 1 t = Some (0, t') \<and> tl_out t' = Data (read_mem (xseg_get_data v req) (unat sz) (tl_mem t)) # tl_out t \<and>
    q_list (sg_queue_at (tl_seg t') (cache_q src s)) = q_list (sg_queue_at s (cache_q src s)) \<and>
    q_list (sg_queue_at (tl_seg t') (server_q n s)) = [] \<and> q_list (sg_queue_at (tl_seg t') (reply_q src s)) = [] \<and>
    sg_port_at (tl_seg t') = sg_port_at s \<and> heap_ready (tl_seg t') h cs F'"
proof -
  define A where "A = answered n src req (outcome False) v"
  note wa = way_answered [OF w l c, folded A_def]
  have "xseg_get_port A src \<noteq> 0" using wa(1) by (simp add: receives_def Let_def)
  then have "xseg_get_port (tl_seg t) (tl_srcport t) \<noteq> 0" using stirred_same(10) [OF t(2)] t(1) by (simp add: A_def)
  from init_signal_calm [OF d this] obtain t1 where t1: "init_local_signal e t = Some t1" "calm t t1" by blast
  note k = calm_same [OF t1(2)]
  have st: "stirred A (tl_seg t1)" using stirred_trans [OF t(2) k(1)] by (simp add: A_def)
  note a = stirred_same [OF st]
  have r: "sg_req_at A req = outcome False ((sg_req_at v req)\<lparr>rq_transit_portno := n\<rparr>)" unfolding A_def by (rule answered_same(6))
  have rq: "rq_op (sg_req_at (tl_seg t1) req) = X_READ" "rq_src_portno (sg_req_at (tl_seg t1) req) = src" "rq_elapsed (sg_req_at (tl_seg t1) req) = 0"
    "oldest (rq_path (sg_req_at (tl_seg t1) req)) (ucast src)" "rq_datalen (sg_req_at (tl_seg t1) req) = sz"
    "rq_state (sg_req_at (tl_seg t1) req) AND XS_SERVED \<noteq> 0"
    using rw served_bit [of False] by (simp_all add: a r read_waits_def oldest_def Let_def XS_SERVED_def) (simp_all add: outcome_def)
  have ptr: "req_ptr req" using c by (simp add: can_send_def cached_def Let_def)
  have qs: "receives src (tl_seg t1)" "reply_q src (tl_seg t1) = reply_q src s" "cache_q src (tl_seg t1) = cache_q src s"
    using wa(1-3) by (simp_all add: receives_def reply_q_def cache_q_def free_q_def a)
  have old: "oldest (sg_queue_at (tl_seg t1) (reply_q src (tl_seg t1))) (of_nat req)" using wa(5,6) by (simp add: oldest_def a qs)
  have ne: "reply_q src s \<noteq> cache_q src s" "server_q n s \<noteq> cache_q src s" "server_q n s \<noteq> reply_q src s"
    using l c by (auto simp: linked_def can_send_def cache_q_def Let_def)
  have room: "has_room (sg_queue_at (tl_seg t1) (cache_q src s))" using w wa(4) by (simp add: on_its_way_def a)
  have lay1: "heap_ready (tl_seg t1) h cs F" "req_layout (tl_seg t1) req cs F" using lay wa(10,11) layout_stirred [OF st] by simp_all
  have fq: "pt_fq_lock (sg_port_at (tl_seg t1) (xseg_get_port (tl_seg t1) src)) = free_lock" using wa(8) by (simp add: a)
  have s1: "tl_srcport t1 = src" using k(2) t(1) by simp
  from answer_shown [where w = t1 and req = req and x = src and e = e, unfolded s1 qs(2,3), OF qs(1) ptr old [unfolded qs(2)] rq(4,1,6,2,3) lay1 fq room ne(1)]
  obtain t' F' where t': "wait_loop e 1 t1 = Some (0, t')"
    "tl_out t' = Data (read_mem (xseg_get_data (tl_seg t1) req) (unat (rq_datalen (sg_req_at (tl_seg t1) req))) (tl_mem t1)) # tl_out t1"
    "q_list (sg_queue_at (tl_seg t') (cache_q src s)) = q_list (sg_queue_at (tl_seg t1) (cache_q src s)) @ [of_nat req]"
    "\<forall>y. y \<noteq> cache_q src s \<longrightarrow> y \<noteq> reply_q src s \<longrightarrow> sg_queue_at (tl_seg t') y = sg_queue_at (tl_seg t1) y"
    "q_list (sg_queue_at (tl_seg t') (reply_q src s)) = butlast (q_list (sg_queue_at (tl_seg t1) (reply_q src s)))"
    "sg_port_at (tl_seg t') = sg_port_at (tl_seg t1)" "heap_ready (tl_seg t') h cs F'" by blast
  have "q_list (sg_queue_at (tl_seg t') (cache_q src s)) = q_list (sg_queue_at s (cache_q src s))"
    using w t'(3) wa(4) by (simp add: a on_its_way_def)
  moreover have "q_list (sg_queue_at (tl_seg t') (server_q n s)) = []" "q_list (sg_queue_at (tl_seg t') (reply_q src s)) = []"
    using t'(4,5) ne wa(6,7) by (simp_all add: a del: q_list_Nil)
  moreover have "sg_port_at (tl_seg t') = sg_port_at s" using t'(6) w by (simp add: a A_def answered_same on_its_way_def)
  ultimately show ?thesis using t1(1) t'(1,2,7) wa(9) k(4,5) rq(5)
    by (intro exI [of _ t'] exI [of _ F']) (simp add: cmd_wait_def a del: q_list_Nil)
qed

text \<open>The end of a read: the client \<open>w\<close> has shown the answer, and the segment is as it was for \<open>t\<close> before it.\<close>

definition read_shown :: "string \<Rightarrow> u64 \<Rightarrow> u64 \<Rightarrow> nat \<Rightarrow> 'w tool \<Rightarrow> 'w tool \<Rightarrow> 'w tool \<Rightarrow> bool" where
  "read_shown target offset sz h t w w' \<longleftrightarrow>
     (let src = tl_srcport t; s = tl_seg t; s' = tl_seg w' in
      (\<exists>a. tl_out w' = Data a # tl_out w \<and> holds_pattern target offset sz a) \<and>
      q_list (sg_queue_at s' (cache_q src s)) = q_list (sg_queue_at s (cache_q src s)) \<and>
      q_list (sg_queue_at s' (server_q (tl_dstport t) s)) = [] \<and> q_list (sg_queue_at s' (reply_q src s)) = [] \<and>
      sg_port_at s' = sg_port_at s \<and> (\<exists>cs F. heap_ready s' h cs F))"


section \<open>Examples\<close>

text \<open>The tool of the earlier examples with the peer type posix.\<close>

definition live_env :: "nat tool_env" where
  "live_env = demo_env\<lparr>te_drv := \<lambda>_. posix_ops demo_sys (\<lambda>_. []) (demo_caller 1)\<rparr>"

lemma live_returns: "drivers_return (te_drv live_env)"
  by (simp add: drivers_return_def live_env_def posix_waking.waking_returns_axioms)

lemma demo_room: "buffer_room demo_cached (\<lambda>_. []) (20 + 80)"
proof -
  have "hp_cur demo_xheap + get_alloc_bytes (hp_unit demo_xheap) (20 + 80) \<le> hp_size demo_xheap" using demo_xheap_ok demo_class by simp
  moreover have "sg_heap demo_cached = demo_xheap" by (simp add: demo_cached_def enq_def) (simp add: demo_seg_def)
  ultimately show ?thesis by (simp add: buffer_room_def Let_def)
qed

lemma demo_linked: "linked 0 2 demo_cached"
proof -
  have p: "xseg_get_port demo_cached 0 = 1000" "xseg_get_port demo_cached 2 = 3000"
    by (simp_all add: demo_cached_def enq_def) (simp_all add: demo_seg_def xseg_get_port_def validate_port_def)
  have f: "sg_port_at demo_cached = demo_port" by (simp add: demo_cached_def enq_def) (simp add: demo_seg_def)
  have q: "reply_q 0 demo_cached = 1300" "server_q 2 demo_cached = 3200" "cache_q 0 demo_cached = 1100"
    by (simp_all add: reply_q_def server_q_def cache_q_def free_q_def p f demo_port_def)
  have e: "sg_queue_at demo_cached 1300 = demo_empty" "sg_queue_at demo_cached 3200 = demo_empty"
    by (simp_all add: demo_cached_def enq_def) (simp_all add: demo_seg_def)
  have "has_room demo_empty" "q_list demo_empty = []" using demo_empty_room by (auto simp: empty_q_def has_room_def q_len_def)
  moreover have "receives 0 demo_cached"
    by (simp add: receives_def p f demo_port_def CAN_ACCEPT_def CAN_RECEIVE_def Let_def)
  ultimately show ?thesis by (simp add: linked_def q e del: q_list_Nil)
qed


text \<open>Two requests from port 0 wait at port 2; both fail.\<close>

definition demo_waiting :: xseg where
  "demo_waiting = enq 3200 6000 (push_path 0 6000 (enq 3200 5000 (push_path 0 5000 demo_seg)))"

lemma demo_serving: "serving (plain live_env True) 2 0 [5000, 6000] demo_waiting"
proof -
  let ?p = "snd (raw_xq_append_head demo_path (ucast (0 :: xport)))"
  let ?q = "snd (raw_xq_append_tail demo_empty 5000)"
  let ?r = "snd (raw_xq_append_tail ?q 6000)"
  have cap: "q_cap demo_empty = 4" using demo_empty_wf(3) snap_4 by simp
  have q: "q_wf ?q" "q_list ?q = [5000]" "q_cap ?q = 4"
    using append_tail_list [of demo_empty 5000] demo_empty_wf(1,2) cap by (simp_all add: q_len_def q_cap_def)
  have "q_len ?q = 1" using arg_cong [OF q(2), of length] by simp
  then have r: "q_wf ?r" "q_list ?r = [6000, 5000]" using append_tail_list(2,4) [of ?q 6000] q by simp_all
  have path: "oldest ?p (ucast (0 :: xport))"
    using append_head_list(2,4) [of demo_path "ucast (0 :: xport)"] demo_path_ok by (simp add: oldest_def q_len_def)
  have e: "sg_queue_at demo_waiting 3200 = ?r" "sg_queue_at demo_waiting 1300 = demo_empty" "sg_port_at demo_waiting = demo_port"
    "rq_path (sg_req_at demo_waiting 5000) = ?p" "rq_path (sg_req_at demo_waiting 6000) = ?p"
    by (simp_all add: demo_waiting_def push_path_def enq_def) (simp_all add: demo_seg_def demo_request_def)
  have p: "xseg_get_port demo_waiting 0 = 1000" "xseg_get_port demo_waiting 2 = 3000"
    by (simp_all add: demo_waiting_def push_path_def enq_def) (simp_all add: demo_seg_def xseg_get_port_def validate_port_def)
  have k: "server_q 2 demo_waiting = 3200" "reply_q 0 demo_waiting = 1300" by (simp_all add: server_q_def reply_q_def p e demo_port_def)
  have "accepts 2 demo_waiting" "receives 0 demo_waiting"
    by (simp_all add: accepts_def receives_def p e demo_port_def CAN_ACCEPT_def CAN_RECEIVE_def Let_def)
  moreover have "q_len demo_empty + 2 \<le> q_cap demo_empty" using demo_empty_wf(2) cap by (simp add: q_len_def)
  ultimately show ?thesis using r path demo_empty_wf(1)
    by (simp add: serving_def k e plain_def req_ptr_def del: q_list_Nil)
qed


end
