(* ===== verification/Xgrow.thy ===== *)
theory Xgrow
  imports Xports Xtyped
begin

text \<open>
  A queue that is full when a request is put into it with \<^verbatim>\<open>X_ALLOC\<close>: what becomes of the
  queue, of its chunk of the heap and of the order of its requests.
\<close>

text \<open>
  What a queue is after it has grown: a larger one, with the old requests in the reverse order
  and the new one behind them.
\<close>

definition grown_q :: "nat \<Rightarrow> xq \<Rightarrow> xq \<Rightarrow> bool" where
  "grown_q req q q' \<longleftrightarrow> q_wf q' \<and> q_list q' = of_nat req # rev (q_list q) \<and> q_cap q < q_cap q'"

lemma resize_append:
  assumes q: "q_wf q" "q_len q = q_cap q" and x: "empty_q x" "2 * q_cap q < 2 * q_cap x" and r: "req_ptr r"
  shows "\<exists>w x' x''. raw_xq_resize q x = (w, x') \<and> w \<noteq> Noneidx \<and> raw_xq_append_tail x' (of_nat r) = (of_nat r, x'') \<and>
    grown_q r q x''"
proof -
  obtain w x' where e: "raw_xq_resize q x = (w, x')" by fastforce
  have x0: "q_wf x" "q_list x = []" using x(1) by (simp_all add: empty_q_def del: q_list_Nil)
  have "q_len x = 0" using arg_cong [OF x0(2), of length] by simp
  with raw_resize_list [OF q(1) x0(1)] q(2) x(2) e x0(2)
  have x': "w = xq_count q" "q_list x' = rev (q_list q)" "q_wf x'" "q_cap x' = q_cap x" by (auto simp: q_cap_def)
  have l: "q_len x' = q_len q" using arg_cong [OF x'(2), of length] by simp
  obtain k where k: "q_cap q = 2 ^ k" "(2::nat) ^ k \<le> 2 ^ 63" using q(1) by (elim q_wfE)
  have "unat w = 2 ^ k" using x'(1) q(2) k(1) by (simp add: q_len_def)
  then have w: "w \<noteq> Noneidx" using k(2) by (auto simp: unsigned_minus_1_eq_mask mask_eq_exp_minus_1)
  have room: "q_len x' < q_cap x'" using q(2) x(2) x'(4) l by simp
  obtain v x'' where a: "raw_xq_append_tail x' (of_nat r) = (v, x'')" by fastforce
  with append_tail_list [OF x'(3) room, of "of_nat r"] have "v = of_nat r" "grown_q r q x''"
    using x x' by (simp_all add: grown_q_def q_cap_def)
  with e w a show ?thesis by auto
qed

lemma double_size:
  assumes "queue_room s F (2 * q_cap q) k"
  shows "unat (xq_size q * 2) = 2 * q_cap q"
proof -
  from assms have "queue_bytes (2 * q_cap q) < 2 ^ 62" by (simp add: queue_room_def Let_def in_classes_def)
  then have "unat (xq_size q) * unat (2 :: u64) < 2 ^ 64" by (simp add: queue_bytes_def q_cap_def xq_size_def)
  then have "unat (xq_size q * 2) = unat (xq_size q) * unat (2 :: u64)" by (subst unat_mult_lem [symmetric]) simp
  then show ?thesis by (simp add: q_cap_def xq_size_def)
qed

lemma append_request_grows:
  assumes rdy: "heap_ready s st cs F" and r: "req_ptr req" and al: "flags AND X_ALLOC \<noteq> 0"
    and q: "q = get (sg_port_at s port)" "q_wf (sg_queue_at s q)" "q_len (sg_queue_at s q) = q_cap (sg_queue_at s q)"
    and room: "queue_room s F (2 * q_cap (sg_queue_at s q)) (Suc 0)" and j: "fresh_ok junk"
    and own: "(q - sg_base s, m) \<in> live (sg_heap s) cs F"
  shows "\<exists>h x q' m' cs' F'. append_request junk cl flags get put port req s =
      Some (of_nat req, upd_port port (put q') (s\<lparr>sg_heap := h, sg_queue_at := (sg_queue_at s)(q' := x)\<rparr>)) \<and>
    grown_q req (sg_queue_at s q) x \<and> heap_ready (s\<lparr>sg_heap := h\<rparr>) st cs' F' \<and>
    live h cs' F' = insert (q' - sg_base s, m') (live (sg_heap s) cs F - {(q - sg_base s, m)})"
proof -
  let ?Q = "sg_queue_at s q"
  define q' where "q' = hp_cur (sg_heap s) + HDR + sg_base s"
  have an: "(q - sg_base s, m) \<in> set cs" using own by (simp add: live_iff)
  have rep: "heap_rep (sg_heap s) st cs F" using rdy by (simp add: heap_ready_def)
  have lt: "q - sg_base s < q' - sg_base s" "q' \<noteq> 0" "q \<noteq> q'"
    using chunk_bounds(2,3) [OF rep an] by (auto simp: q'_def HDR_def)
  have n: "0 < 2 * q_cap ?Q" using q(2) by (auto elim: q_wfE)
  obtain h x m' where a: "alloc_queue junk cl (2 * q_cap ?Q) s = Some (q', s\<lparr>sg_heap := h, sg_queue_at := (sg_queue_at s)(q' := x)\<rparr>)"
    "heap_ready (s\<lparr>sg_heap := h\<rparr>) st (cs @ [(q' - sg_base s, m')]) F" "empty_q x" "2 * q_cap ?Q < 2 * q_cap x"
    "live h (cs @ [(q' - sg_base s, m')]) F = insert (q' - sg_base s, m') (live (sg_heap s) cs F)"
    using alloc_queue_chunk [OF rdy room j n q'_def, of cl] by blast
  obtain w x' x'' where g: "raw_xq_resize ?Q x = (w, x')" "w \<noteq> Noneidx" "raw_xq_append_tail x' (of_nat req) = (of_nat req, x'')"
    "grown_q req ?Q x''" using resize_append [OF q(2,3) a(3,4) r] by blast
  define t where "t = upd_port port (put q') (s\<lparr>sg_heap := h, sg_queue_at := (sg_queue_at s)(q' := x')\<rparr>)"
  have t: "heap_ready t st (cs @ [(q' - sg_base s, m')]) F" "(q - sg_base t, m) \<in> live (sg_heap t) (cs @ [(q' - sg_base s, m')]) F"
    "sg_base t = sg_base s" "sg_heap t = h"
    using a(2,5) own by (simp_all add: t_def upd_port_def heap_ready_def)
  obtain h' F' where f: "seg_free cl q t = Some (t\<lparr>sg_heap := h'\<rparr>)" "heap_ready (t\<lparr>sg_heap := h'\<rparr>) st (cs @ [(q' - sg_base s, m')]) F'"
    "live h' (cs @ [(q' - sg_base s, m')]) F' = live h (cs @ [(q' - sg_base s, m')]) F - {(q - sg_base s, m)}"
    using seg_free_ok [OF t(1,2), of cl] t(3,4) by auto
  have full: "raw_xq_append_tail ?Q (of_nat req) = (Noneidx, ?Q)" by (rule append_tail_full [OF q(2,3)])
  have "append_request junk cl flags get put port req s =
      Some (of_nat req, upd_port port (put q') (s\<lparr>sg_heap := h', sg_queue_at := (sg_queue_at s)(q' := x'')\<rparr>))"
    using full a(1) g(1-3) f(1) lt al double_size [OF room]
    by (simp add: append_request_def q(1) [symmetric] Let_def set_queue_def t_def upd_port_def)
  moreover have "live h' (cs @ [(q' - sg_base s, m')]) F' = insert (q' - sg_base s, m') (live (sg_heap s) cs F - {(q - sg_base s, m)})"
    using f(3) a(5) lt by auto
  moreover have "heap_ready (s\<lparr>sg_heap := h'\<rparr>) st (cs @ [(q' - sg_base s, m')]) F'"
    using f(2) by (simp add: heap_ready_def t_def upd_port_def)
  ultimately show ?thesis using g(4) by blast
qed

text \<open>
  C6. A request submitted with \<^verbatim>\<open>X_ALLOC\<close> to a port whose request queue is full is
  not refused when the heap has room for a queue of twice the size: the port gets a new
  queue, larger than the old one, in a chunk of its own, and the chunk of the old queue is given
  back while every other chunk in use stays so. The queue
  holds the old requests and the new one, but the old ones in reverse: the next request that is accepted at the
  port is the one that had come last, not the one that has waited longest.
\<close>

theorem submit_grows_queue:
  assumes rdy: "heap_ready s st cs F" and r: "req_ptr req" "sg_req_at s req = r" and al: "flags AND X_ALLOC \<noteq> 0"
    and v: "validate_port s (rq_transit_portno r)" "validate_port s (rq_effective_dst_portno r)"
    and nxt: "find_next s (rq_effective_dst_portno r) (rq_transit_portno r) = Some (Some (nxt, port))"
    and path: "has_room (rq_path r)" and l: "pt_rq_lock (sg_port_at s port) = free_lock"
    and q: "q = pt_request_queue (sg_port_at s port)" "q_wf (sg_queue_at s q)" "q_len (sg_queue_at s q) = q_cap (sg_queue_at s q)"
    and room: "queue_room s F (2 * q_cap (sg_queue_at s q)) 1" and j: "fresh_ok junk"
    and own: "(q - sg_base s, m) \<in> live (sg_heap s) cs F"
    and new: "q_list (sg_queue_at s q) = of_nat newest # older" "req_ptr newest"
  shows "\<exists>s' q' m' cs' F' s''. xseg_submit junk cl req portno flags s = Some (nxt, s') \<and>
    q' = pt_request_queue (sg_port_at s' port) \<and> q_cap (sg_queue_at s q) < q_cap (sg_queue_at s' q') \<and>
    q_list (sg_queue_at s' q') = of_nat req # rev older @ [of_nat newest] \<and>
    heap_ready s' st cs' F' \<and> live (sg_heap s') cs' F' = insert (q' - sg_base s, m') (live (sg_heap s) cs F - {(q - sg_base s, m)}) \<and>
    xseg_accept cl' nxt flags' s' = Some (newest, s'')"
proof -
  let ?n = "rq_transit_portno r"
  obtain w p where wp: "raw_xq_append_head (rq_path r) (ucast ?n) = (w, p)" by fastforce
  then have w: "w = ucast ?n" using append_head_list(1) [of "rq_path r" "ucast ?n"] path by (simp add: has_room_def)
  define s1 where "s1 = upd_req req (\<lambda>r. r\<lparr>rq_path := p\<rparr>) s"
  have l1: "get_lock RQ (sg_port_at s1 port) = free_lock" using l by (simp add: s1_def)
  obtain k where a: "acquire_port cl RQ port s1 = Some (upd_port port (put_lock RQ k) s1)"
    using acquire_release [OF l1] by blast
  define s2 where "s2 = upd_port port (put_lock RQ k) s1"
  have f2: "sg_heap s2 = sg_heap s" "sg_base s2 = sg_base s" "sg_queue_at s2 = sg_queue_at s"
    "pt_request_queue (sg_port_at s2 port) = q"
    using q(1) by (simp_all add: s2_def s1_def upd_port_def upd_req_def del: put_lock.simps) 
  obtain h x q' m' cs' F' where g: "append_request junk cl flags pt_request_queue (\<lambda>q p. p\<lparr>pt_request_queue := q\<rparr>) port req s2 =
      Some (of_nat req, upd_port port (\<lambda>p. p\<lparr>pt_request_queue := q'\<rparr>) (s2\<lparr>sg_heap := h, sg_queue_at := (sg_queue_at s2)(q' := x)\<rparr>))"
    "grown_q req (sg_queue_at s q) x" "heap_ready (s2\<lparr>sg_heap := h\<rparr>) st cs' F'"
    "live h cs' F' = insert (q' - sg_base s, m') (live (sg_heap s) cs F - {(q - sg_base s, m)})"
    using append_request_grows [of s2 st cs F req flags q pt_request_queue port junk m cl "\<lambda>q p. p\<lparr>pt_request_queue := q\<rparr>"]
      ready_cong [OF f2(1,2) rdy] r(1) al f2 q room_cong [OF f2(1) room] j own by auto
  define s' where "s' = release_port RQ port (upd_port port (\<lambda>p. p\<lparr>pt_request_queue := q'\<rparr>) (s2\<lparr>sg_heap := h, sg_queue_at := (sg_queue_at s2)(q' := x)\<rparr>))"
  have sub: "xseg_submit junk cl req portno flags s = Some (nxt, s')"
    using req_ptr_word [OF r(1)] r(2) v nxt wp w port_word(1) [of ?n] a g(1)
    by (simp add: xseg_submit_def s1_def [symmetric] s2_def [symmetric] s'_def Let_def del: put_lock.simps)
  have f': "sg_heap s' = h" "sg_base s' = sg_base s" "sg_queue_at s' q' = x" "pt_request_queue (sg_port_at s' port) = q'"
    "pt_rq_lock (sg_port_at s' port) = free_lock" "xseg_get_port s' nxt = xseg_get_port s nxt"
    using f2 by (simp_all add: s'_def release_port_def) (simp_all add: s2_def s1_def upd_port_def upd_req_def xseg_get_port_def validate_port_def)
  have x: "q_wf x" "q_list x = of_nat req # rev older @ [of_nat newest]" "q_cap (sg_queue_at s q) < q_cap x"
    using g(2) new(1) by (simp_all add: grown_q_def)
  then have o: "oldest x (of_nat newest)" by (simp add: oldest_def)
  have "xseg_accept cl' nxt flags' s' = Some (newest, upd_req newest (\<lambda>r. r\<lparr>rq_transit_portno := nxt\<rparr>) (deq q' s'))"
    by (rule accept_eq) (use f' find_next_port [OF nxt] o new(2) in simp_all)
  moreover have "heap_ready s' st cs' F'" using g(3) f'(1,2) f2(2) by (simp add: heap_ready_def)
  ultimately show ?thesis using sub x(2,3) f' g(4) by (intro exI conjI) (assumption | simp)+
qed

text \<open>The demo segment with port 2 waiting on a full queue of four requests, in a chunk of 104 bytes.\<close>

definition demo_full :: xq where
  "demo_full = \<lparr>q_lock = free_lock, q_head = 1, q_tail = - 4, q_mem = [5100, 5200, 5300, 5400], q_size = 4\<rparr>"

lemma demo_full_ok: "q_wf demo_full" "q_list demo_full = [5200, 5300, 5400, 5100]" "q_len demo_full = 4" "q_cap demo_full = 4"
proof -
  show "q_wf demo_full" by (auto simp: q_wf_def demo_full_def xq_count_def intro!: exI [of _ 2])
  show "q_list demo_full = [5200, 5300, 5400, 5100]" "q_len demo_full = 4" "q_cap demo_full = 4" by (code_simp)+
qed

lemma demo_grow_class: "queue_bytes 8 = 112" "get_alloc_bytes 5 112 = 160" "payload 5 112 = 136" "get_index 5 112 = 4" "get_index 5 136 = 4"
  by (simp_all add: queue_bytes_def XQ_SIZE_def payload_def get_index_def get_alloc_bytes_def align64_def w64_def xheap_limits HDR_def)

theorem submit_grows_queue_witness:
  "\<exists>s s' s''. q_list (sg_queue_at s (pt_request_queue (sg_port_at s 3000))) = [5200, 5300, 5400, 5100] \<and>
     xseg_submit (\<lambda>n. replicate n 0) (demo_caller 1) 5000 0 X_ALLOC s = Some (2, s') \<and>
     q_list (sg_queue_at s' (pt_request_queue (sg_port_at s' 3000))) = [5000, 5100, 5400, 5300, 5200] \<and>
     xseg_accept (demo_caller 2) 2 0 s' = Some (5200, s'')"
proof -
  obtain h p where h: "obj_rep h (hp_cur demo_xheap) [(hp_cur demo_xheap + HDR, 104)] (\<lambda>_. []) [p]"
    "hp_unit (oh_heap h) = 5" "hp_size (oh_heap h) = 262144" "hp_cur (oh_heap h) < 9000" "hp_lock (oh_heap h) = free_lock"
    using demo_port_object by blast
  define q where "q = hp_cur demo_xheap + HDR + 4096"
  define s where "s = set_queue q demo_full (upd_port 3000 (\<lambda>p. p\<lparr>pt_request_queue := q\<rparr>) (demo_seg\<lparr>sg_heap := oh_heap h\<rparr>))"
  have f: "sg_heap s = oh_heap h" "sg_base s = 4096" "sg_queue_at s q = demo_full" "sg_req_at s 5000 = demo_request"
    "q = pt_request_queue (sg_port_at s 3000)" "pt_rq_lock (sg_port_at s 3000) = free_lock" "pt_flags (sg_port_at s 3000) \<noteq> 0"
    by (simp_all add: s_def set_queue_def upd_port_def) (simp_all add: demo_seg_simps)
  have v: "validate_port s 0" "validate_port s 2" "xseg_get_port s 2 = 3000" "sg_path_next s ! 0 = NoPort"
    by (simp_all add: s_def set_queue_def upd_port_def validate_port_def xseg_get_port_def demo_seg_simps)
  have r: "rq_transit_portno demo_request = 0" "rq_effective_dst_portno demo_request = 2" "has_room (rq_path demo_request)"
    using demo_path_ok by (simp_all add: demo_request_def has_room_def q_len_def)
  have nxt: "find_next s 2 0 = Some (Some (2, 3000))"
    using v f(7) by (subst find_next.simps) (simp add: path_step_def Let_def)
  have rdy: "heap_ready s (hp_cur demo_xheap) [(hp_cur demo_xheap + HDR, 104)] (\<lambda>_. [])"
    using h by (simp add: heap_ready_def f obj_rep_def)
  have "classes (oh_heap h) = 1080" using h(2,3) by (simp add: classes_def demo_index)
  then have room: "queue_room s (\<lambda>_. []) (2 * q_cap (sg_queue_at s q)) 1"
    using h(2-4) by (simp add: queue_room_def Let_def f(1,3) demo_full_ok in_classes_def demo_grow_class)
  have own: "(q - sg_base s, 104) \<in> live (sg_heap s) [(hp_cur demo_xheap + HDR, 104)] (\<lambda>_. [])"
    by (simp add: live_iff f(2) q_def)
  have c: "req_ptr 5000" "req_ptr 5200" "X_ALLOC AND X_ALLOC \<noteq> (0 :: u32)" "fresh_ok (\<lambda>n. replicate n 0)"
    by (simp_all add: req_ptr_def X_ALLOC_def fresh_ok_def)
  have d: "validate_port s (rq_transit_portno demo_request)" "validate_port s (rq_effective_dst_portno demo_request)"
    "find_next s (rq_effective_dst_portno demo_request) (rq_transit_portno demo_request) = Some (Some (2, 3000))"
    "q_wf (sg_queue_at s q)" "q_len (sg_queue_at s q) = q_cap (sg_queue_at s q)"
    "q_list (sg_queue_at s q) = of_nat 5200 # [5300, 5400, 5100]"
    using v(1,2) nxt by (simp_all add: r f(3) demo_full_ok)
  from submit_grows_queue [OF rdy c(1) f(4) c(3) d(1-3) r(3) f(6) f(5) d(4,5) room c(4) own d(6) c(2), of "demo_caller 1" 0 "demo_caller 2" 0]
  obtain s' s'' where "xseg_submit (\<lambda>n. replicate n 0) (demo_caller 1) 5000 0 X_ALLOC s = Some (2, s')"
    "q_list (sg_queue_at s' (pt_request_queue (sg_port_at s' 3000))) = of_nat 5000 # rev [5300, 5400, 5100] @ [of_nat 5200]"
    "xseg_accept (demo_caller 2) 2 0 s' = Some (5200, s'')" by blast
  then show ?thesis using d(6) f(5) by (intro exI [of _ s] exI [of _ s'] exI [of _ s'']) simp
qed

end
