(* ===== verification/Spec2Isabelle.thy ===== *)
theory Spec2Isabelle
  imports Xlock Xq Xpool Xbinheap Xhash Xheap Xobj Xwork Xcache Xdomain Xseg Xproto Xreqs Xdata Xbind Xlife Xports Xposix Xpthread Xposixfd Xdrivers Xtyped Xinit Xuser Xchunk Xtool Xfix Xmain Xrepair Xclient Xanswer Xgrow
begin

text \<open>
  Verification of libxseg.

  libxseg lets processes exchange requests through a shared memory segment. This
  development models the C library under \<^verbatim>\<open>src/\<close>: the data types of
  \<^verbatim>\<open>src/xtypes/\<close>, which the segment is built from, \<^verbatim>\<open>src/xseg.c\<close>, the segment itself, and the drivers
  \<^verbatim>\<open>src/xseg_posix.c\<close>, \<^verbatim>\<open>src/xseg_pthread.c\<close> and \<^verbatim>\<open>src/xseg_posixfd.c\<close>, by which
  processes map a segment and wake each other, and \<^verbatim>\<open>src/xseg-tool.c\<close>, the client for the
  command line.

  Parts, from the bottom up, each with its theory.

  \<^item> \<open>Prelude\<close>: machine words, the C operations on them, masks and array fills, the
    collections of lemmas the components share.
  \<^item> \<open>Xlock\<close> (\<^verbatim>\<open>xlock.h\<close>): the spin lock. Its operations as functions for sequential use, and a
    step relation of any number of threads at the grain of single memory accesses:
    mutual exclusion, and that a spinning thread can still enter.
  \<^item> \<open>Xq\<close> (\<^verbatim>\<open>xq.c\<close>): the circular queue with counters that wrap. \<open>q_list\<close> is its
    contents; the operations are shown to be those of a bounded double-ended queue, the
    locale of \<open>Deque\<close>, of which it is an interpretation.
  \<^item> \<open>Xpool\<close> (\<^verbatim>\<open>xpool.c\<close>): nodes on a used and a free cycle; a simulation of an abstract
    pool for arbitrary sequences of operations.
  \<^item> \<open>Xbinheap\<close> (\<^verbatim>\<open>xbinheap.c\<close>): the heap with stable handles; an interpretation of the
    priority queues of \<open>Prioq\<close>.
  \<^item> \<open>Xhash\<close> (\<^verbatim>\<open>xhash.c\<close>): open addressing with perturbed probing. \<open>Probe\<close> shows that the
    probe sequence visits every slot; the table is then a map, an interpretation of the
    dictionaries of \<open>Dict\<close>.
  \<^item> \<open>Xheap\<close> (\<^verbatim>\<open>xheap.c\<close>): the allocator on a memory of words, with its lists of free chunks
    kept in that memory. \<open>heap_rep\<close> relates it to a set of chunks.
  \<^item> \<open>Xobj\<close> (\<^verbatim>\<open>xobj.c\<close>): objects of one size cut from chunks of the heap, on a free list in the
    objects.
  \<^item> \<open>Xwork\<close> (\<^verbatim>\<open>xworkq.c\<close>, \<^verbatim>\<open>xwaitq.c\<close>): queues of jobs; the jobs are parameters that may
    change any state.
  \<^item> \<open>Xcache\<close> (\<^verbatim>\<open>xcache.c\<close>): the cache with its table of entries, its free nodes, its
    reference counts and its two ways of finding the least recently used entry.
  \<^item> \<open>Xdomain\<close> (\<^verbatim>\<open>xseg.c\<close>): the tables of segment and peer types, the parsing of segment
    specifications, the size of a segment.
  \<^item> \<open>Xseg\<close> (\<^verbatim>\<open>xseg.c\<close>): the segment, its ports with their queues, requests and their buffers, and
    submit, accept, respond, receive, forward.
  \<^item> \<open>Xproto\<close>: the request protocol as a relay, an interpretation of the locale of \<open>Relay\<close>; the
    round trip of a request along a chain of ports.
  \<^item> \<open>Xreqs\<close>: the layout of buffers, on the lemmas of \<open>Xheap\<close>; taking and returning requests.
  \<^item> \<open>Xpeer\<close> (\<^verbatim>\<open>xseg.c\<close>): limits of ports, data of requests, object handlers, drivers, signals,
    binding of ports. \<open>Xdata\<close> shows that request data are a map, \<open>Xbind\<close> what a bound
    port is.
  \<^item> \<open>Xlife\<close> (\<^verbatim>\<open>xseg.c\<close>): creating, initialising, joining, leaving and destroying segments.
  \<^item> \<open>Xports\<close>: the allocation of a port, on the object handler, the heap and the queues below
    it; the port is ready for the protocol once it is bound.
  \<^item> \<open>Xtyped\<close>: the types of a segment in use (queues hold requests of the segment, paths hold
    numbers of ports) and that every program of request operations keeps them.
  \<^item> \<open>Xgrow\<close>: a request that is put into a full queue, which grows: the lemmas of \<open>Xq\<close> on the copy and of
    \<open>Xheap\<close> on the two chunks, and the order in which the requests then come out.
  \<^item> \<open>Xsys\<close>: system calls as a history of the process, with the results a parameter; repeating a
    call that was interrupted.
  \<^item> \<open>Xposix\<close>, \<open>Xpthread\<close>, \<open>Xposixfd\<close> (\<^verbatim>\<open>xseg_posix.c\<close>, \<^verbatim>\<open>xseg_pthread.c\<close>, \<^verbatim>\<open>xseg_posixfd.c\<close>):
    the segment types and the peer types with their descriptors.
  \<^item> \<open>Xdrivers\<close>: what the library expects of a peer type, as locales that the three peer types
    interpret: they leave the table of ports alone, and a signal reaches the system exactly if
    somebody prepared to wait.
  \<^item> \<open>Xinit\<close>: initialising a segment establishes what \<open>Xreqs\<close>, \<open>Xports\<close> and \<open>Xtyped\<close> rely on; a
    segment that was created can be joined.
  \<^item> \<open>Xuser\<close> (\<^verbatim>\<open>xseg_user.c\<close>, \<^verbatim>\<open>initialize.c\<close>): the lock of the domain, plugins, log files, and the
    registration of the types that are built in.
  \<^item> \<open>Xchunk\<close>, \<open>Xtool\<close>, \<open>Xfix\<close>, \<open>Xmain\<close> (\<^verbatim>\<open>xseg-tool.c\<close>): the names, patterns and input of the tool; its state and
    the commands that send, serve and receive requests; the commands that report on a segment and
    repair it; ports, arguments and \<^verbatim>\<open>main\<close>.
  \<^item> \<open>Xrepair\<close>: what the repair commands do: the locks of a dead process, requests in no queue, the inspection of a
    queue, on the types of \<open>Xtyped\<close>.
  \<^item> \<open>Xclient\<close>: what a server finds of a request that a command has sent, on the layout of buffers of \<open>Xreqs\<close>, the
    protocol of \<open>Xproto\<close> and the input of \<open>Xchunk\<close>.
  \<^item> \<open>Xcalm\<close>: a contract for waiting and waking, as locales that the three peer types interpret: their operations
    change nothing that requests depend on. \<open>Xanswer\<close>: on this contract, what \<^verbatim>\<open>complete\<close>, \<^verbatim>\<open>fail\<close> and \<^verbatim>\<open>wait\<close>
    make of the requests that were sent, up to the whole way of a read through client and server.

  How the code is rendered.

  A C structure is a record with the fields of the structure, an operation a function on
  it with the branches of the code. A function named with two leading underscores in C is called \<open>raw_\<close>
  or has the name without them. A result type \<open>option\<close> is used where the code may not
  return: \<open>None\<close> is a lock that is held, a loop that does not end, a crash. Loops with a bound
  recur on the number of remaining iterations; loops without one (the probing of \<open>Xhash\<close> has a
  bound that is proved, the routes of \<open>Xseg\<close> have none) are \<open>partial_function\<close>s, and what is
  proved of them includes that they return. Integers keep their width where they can wrap; addresses and
  sizes below the heap are naturals, reduced modulo \<open>2 ^ 64\<close> where the code subtracts.
  Pointers into a segment are offsets.

  Code that is not under \<^verbatim>\<open>src/\<close> or that is reached through a function pointer is a parameter:
  jobs and conditions (\<open>Xwork\<close>), the hooks of a cache (\<open>Xcache\<close>), the plugin loader
  (\<open>Xdomain\<close>), the operations of peer types (\<open>Xpeer\<close>, where \<open>Xdrivers\<close> has the ones of the
  library) and segment types (\<open>Xlife\<close>), the results of system calls (\<open>Xsys\<close>), the contents of fresh memory, the results of
  \<^verbatim>\<open>malloc\<close> and of \<^verbatim>\<open>random\<close> (\<open>Xtool\<close>).

  What the lemmas show. Where the code does what it means to, the theorem says so for all
  states that satisfy the invariant of the component; the invariants are preserved by the operations. Where it
  does not, a theorem states what happens instead: the order that a resize reverses, the entry that a deleted
  slot shadows, the chunk that a class boundary loses, the request lost by a bad destination, the lock that a failed
  bind keeps, the mapping that a failed join keeps.

  Not modelled. The text of what is printed: messages, reports, statistics and help; a report is the record of what it
  shows. The signal handlers, which print (the one of the tool also leaves the program when it is interrupted
  twice). Code that is never compiled or called: \<^verbatim>\<open>xlist.c\<close>, which is not part of the build, \<^verbatim>\<open>log_req\<close>, the body of
  \<^verbatim>\<open>cmd_bridge\<close>, \<^verbatim>\<open>pick\<close>. The bindings for Python and the test programs. Concurrency beyond the lock:
  operations are sequential, under the locks the code takes.

  Open in the plan: the programs of \<open>Xtyped\<close> do not give \<^verbatim>\<open>X_ALLOC\<close>; a queue that grows is treated one
  submission at a time, in \<open>Xgrow\<close>.
\<close>

end
